(* ===== verification/Prelude.thy ===== *)
theory Prelude
  imports Main "HOL-Library.Word" "HOL-Library.Multiset"
begin

text \<open>
  Shared material of the development: the C integer types and NTSTATUS values of the drivers,
  the bitmap words on which the IOVA allocator works, the history of calls the drivers make to the
  Windows kernel and to the hardware registers, and the collections of rewrite rules the component
  theories use.
\<close>

unbundle bit_operations_syntax

named_theorems status_simps \<open>facts deciding NT\_SUCCESS on concrete status codes\<close>
named_theorems bitmap_simps \<open>facts reading a bitmap after an update\<close>
named_theorems live_simps \<open>facts computing the outstanding kernel resources of a history\<close>

text \<open>Loops over a numeral range stay folded unless a proof asks for the unrolling.\<close>

declare upt_rec_numeral [simp del]

section \<open>C integer types\<close>

text \<open>The target is ARM64 Windows: ULONG and UINT32 have 32 bits, ULONG64, UINT64 and ULONG\_PTR 64.\<close>

type_synonym ULONG = "32 word"
type_synonym ULONG64 = "64 word"
type_synonym NTSTATUS = "32 word"

section \<open>NTSTATUS\<close>

abbreviation STATUS_SUCCESS :: NTSTATUS where "STATUS_SUCCESS \<equiv> 0"
abbreviation STATUS_TIMEOUT :: NTSTATUS where "STATUS_TIMEOUT \<equiv> 0x102"
abbreviation STATUS_PENDING :: NTSTATUS where "STATUS_PENDING \<equiv> 0x103"
abbreviation STATUS_DEVICE_BUSY :: NTSTATUS where "STATUS_DEVICE_BUSY \<equiv> 0x80000011"
abbreviation STATUS_INVALID_HANDLE :: NTSTATUS where "STATUS_INVALID_HANDLE \<equiv> 0xC0000008"
abbreviation STATUS_INVALID_PARAMETER :: NTSTATUS where "STATUS_INVALID_PARAMETER \<equiv> 0xC000000D"
abbreviation STATUS_QUOTA_EXCEEDED :: NTSTATUS where "STATUS_QUOTA_EXCEEDED \<equiv> 0xC0000044"
abbreviation STATUS_INSUFFICIENT_RESOURCES :: NTSTATUS where
  "STATUS_INSUFFICIENT_RESOURCES \<equiv> 0xC000009A"
abbreviation STATUS_DEVICE_NOT_READY :: NTSTATUS where "STATUS_DEVICE_NOT_READY \<equiv> 0xC00000A3"
abbreviation STATUS_NOT_SUPPORTED :: NTSTATUS where "STATUS_NOT_SUPPORTED \<equiv> 0xC00000BB"
abbreviation STATUS_NOT_FOUND :: NTSTATUS where "STATUS_NOT_FOUND \<equiv> 0xC0000225"
abbreviation STATUS_DEVICE_HARDWARE_ERROR :: NTSTATUS where
  "STATUS_DEVICE_HARDWARE_ERROR \<equiv> 0xC0000483"

text \<open>The literal \<^verbatim>\<open>(NTSTATUS)0xC0000507L\<close> the job code uses for a wait that ran out.\<close>
abbreviation STATUS_0xC0000507 :: NTSTATUS where "STATUS_0xC0000507 \<equiv> 0xC0000507"

text \<open>
  \<^verbatim>\<open>NT_SUCCESS(s)\<close> is \<^verbatim>\<open>((NTSTATUS)(s)) >= 0\<close> on a signed 32-bit value. STATUS\_TIMEOUT and
  STATUS\_PENDING are non-negative, so the macro accepts them.
\<close>

definition NT_SUCCESS :: "NTSTATUS \<Rightarrow> bool" where
  "NT_SUCCESS s \<longleftrightarrow> 0 \<le> sint s"

lemma NT_SUCCESS_consts [status_simps, simp]:
  "NT_SUCCESS STATUS_SUCCESS" "NT_SUCCESS STATUS_TIMEOUT" "NT_SUCCESS STATUS_PENDING"
  "\<not> NT_SUCCESS STATUS_DEVICE_BUSY" "\<not> NT_SUCCESS STATUS_INVALID_HANDLE"
  "\<not> NT_SUCCESS STATUS_INVALID_PARAMETER" "\<not> NT_SUCCESS STATUS_QUOTA_EXCEEDED"
  "\<not> NT_SUCCESS STATUS_INSUFFICIENT_RESOURCES" "\<not> NT_SUCCESS STATUS_DEVICE_NOT_READY"
  "\<not> NT_SUCCESS STATUS_NOT_SUPPORTED" "\<not> NT_SUCCESS STATUS_NOT_FOUND"
  "\<not> NT_SUCCESS STATUS_DEVICE_HARDWARE_ERROR" "\<not> NT_SUCCESS STATUS_0xC0000507"
  by (simp_all add: NT_SUCCESS_def)

section \<open>Bitmaps over 64-bit words\<close>

text \<open>
  An array of \<^verbatim>\<open>ULONG_PTR\<close> words is a function from word indices to words. Indices past the end
  of the C array are kept: they stand for the memory behind it, so that an overrun is visible.
\<close>

type_synonym bitmap = "nat \<Rightarrow> 64 word"

definition bm_test :: "bitmap \<Rightarrow> nat \<Rightarrow> bool" where
  "bm_test bm i \<longleftrightarrow> bm (i div 64) AND push_bit (i mod 64) 1 \<noteq> 0"

definition bm_set :: "bitmap \<Rightarrow> nat \<Rightarrow> bitmap" where
  "bm_set bm i = bm(i div 64 := bm (i div 64) OR push_bit (i mod 64) 1)"

definition bm_clear :: "bitmap \<Rightarrow> nat \<Rightarrow> bitmap" where
  "bm_clear bm i = bm(i div 64 := bm (i div 64) AND NOT (push_bit (i mod 64) 1))"

lemma word_test_bit: "b < 64 \<Longrightarrow> (w :: 64 word) AND push_bit b 1 \<noteq> 0 \<longleftrightarrow> bit w b"
  by (auto simp: bit_eq_iff [where 'a = "64 word"] bit_and_iff bit_exp_iff)

lemma bm_test_iff: "bm_test bm i \<longleftrightarrow> bit (bm (i div 64)) (i mod 64)"
  unfolding bm_test_def by (rule word_test_bit) simp

lemma div_mod_64_eq: "i div 64 = j div 64 \<Longrightarrow> i mod 64 = j mod 64 \<Longrightarrow> i = (j::nat)"
  by (metis div_mult_mod_eq)

lemma bm_test_zero [bitmap_simps, simp]: "\<not> bm_test (\<lambda>_. 0) i"
  by (simp add: bm_test_def)

lemma bm_test_set [bitmap_simps, simp]: "bm_test (bm_set bm i) j \<longleftrightarrow> j = i \<or> bm_test bm j"
  by (auto simp: bm_test_iff bm_set_def bit_or_iff bit_exp_iff dest: div_mod_64_eq)

lemma bm_test_clear [bitmap_simps, simp]: "bm_test (bm_clear bm i) j \<longleftrightarrow> j \<noteq> i \<and> bm_test bm j"
  by (auto simp: bm_test_iff bm_clear_def bit_and_iff bit_not_iff bit_exp_iff
      dest: div_mod_64_eq)

lemma bm_set_other_word: "k \<noteq> i div 64 \<Longrightarrow> bm_set bm i k = bm k"
  by (simp add: bm_set_def)

lemma bm_clear_other_word: "k \<noteq> i div 64 \<Longrightarrow> bm_clear bm i k = bm k"
  by (simp add: bm_clear_def)

text \<open>
  What the allocator relies on: single-bit updates touch one bit, and a loop of them touches
  exactly the bits it names.
\<close>

locale bitset =
  fixes test :: "'b \<Rightarrow> nat \<Rightarrow> bool"
    and sett :: "'b \<Rightarrow> nat \<Rightarrow> 'b"
    and clear :: "'b \<Rightarrow> nat \<Rightarrow> 'b"
  assumes test_set: "test (sett b i) j \<longleftrightarrow> j = i \<or> test b j"
    and test_clear: "test (clear b i) j \<longleftrightarrow> j \<noteq> i \<and> test b j"
begin

lemma test_fold_set: "test (fold (\<lambda>k b. sett b k) ks b) j \<longleftrightarrow> j \<in> set ks \<or> test b j"
  by (induction ks arbitrary: b) (auto simp: test_set)

lemma test_fold_clear: "test (fold (\<lambda>k b. clear b k) ks b) j \<longleftrightarrow> j \<notin> set ks \<and> test b j"
  by (induction ks arbitrary: b) (auto simp: test_clear)

lemma clear_set_restores:
  "\<forall>k \<in> set ks. \<not> test b k \<Longrightarrow>
   test (fold (\<lambda>k b. clear b k) ks (fold (\<lambda>k b. sett b k) ks b)) j = test b j"
  by (auto simp: test_fold_set test_fold_clear)

end

interpretation bm: bitset bm_test bm_set bm_clear
  by unfold_locales simp_all

lemmas bm_fold_simps [bitmap_simps, simp] = bm.test_fold_set bm.test_fold_clear

lemma bm_fold_set_words:
  "\<forall>k \<in> set ks. k div 64 < n \<Longrightarrow> n \<le> w \<Longrightarrow> fold (\<lambda>k b. bm_set b k) ks bm w = bm w"
  by (induction ks arbitrary: bm) (auto simp: bm_set_def)

lemma bm_fold_clear_words:
  "\<forall>k \<in> set ks. k div 64 < n \<Longrightarrow> n \<le> w \<Longrightarrow> fold (\<lambda>k b. bm_clear b k) ks bm w = bm w"
  by (induction ks arbitrary: bm) (auto simp: bm_clear_def)

section \<open>The kernel and the hardware as a history of calls\<close>

text \<open>
  The drivers call the Windows kernel and read and write device registers; none of that code is in
  the repository. A model function threads the history of the calls made so far, newest first, and
  takes the answers from a parameter that maps a history to an answer. This admits every
  environment whose answers depend on what was called before.
\<close>

type_synonym ptr = nat

datatype kres =
    Pool string ptr      \<comment> \<open>ExAllocatePool2 / ExFreePoolWithTag, by tag\<close>
  | Contig ptr           \<comment> \<open>MmAllocateContiguousNodeMemory / MmFreeContiguousMemory\<close>
  | MdlRes ptr           \<comment> \<open>IoAllocateMdl / IoFreeMdl\<close>
  | UserMap ptr          \<comment> \<open>MmMapLockedPagesSpecifyCache / MmUnmapLockedPages\<close>
  | IommuMap ULONG64     \<comment> \<open>MapMdl / UnmapMdl of the IOMMU interface\<close>
  | ProcRef ptr          \<comment> \<open>ObReferenceObject / ObDereferenceObject on the owner process\<close>
  | FileRef ptr          \<comment> \<open>the file object pinning a provider driver\<close>
  | IfcRef ptr           \<comment> \<open>InterfaceReference / InterfaceDereference on a provider\<close>

text \<open>The per-core entries of the clock and reset unit's interface.\<close>

datatype ccu_op =
    FullCoreReset | AssertCoreReset | DeassertCoreReset | UngateLeafClocks | GateLeafClocks

datatype kcall =
    Acquire kres
  | Release kres
  | WriteReg nat ULONG   \<comment> \<open>WRITE\_REGISTER\_ULONG at a byte offset from MmioBase\<close>
  | ReadReg nat ULONG    \<comment> \<open>READ\_REGISTER\_ULONG and the value read\<close>
  | StallUs nat          \<comment> \<open>KeStallExecutionProcessor\<close>
  | DelayMs nat          \<comment> \<open>KeDelayExecutionThread\<close>
  | CodecWrite nat ULONG \<comment> \<open>a register write to the codec's own window\<close>
  | CodecRead nat ULONG  \<comment> \<open>a register read from the codec's own window\<close>
  | FlushMdl ptr         \<comment> \<open>KeFlushIoBuffers on an MDL\<close>
  | CcuCall ccu_op nat   \<comment> \<open>an entry of the CCU interface, for a core\<close>
  | PeerKick ULONG64     \<comment> \<open>KickJob of the peer interface, by completion cookie\<close>
  | WorkItemEnqueue      \<comment> \<open>WdfWorkItemEnqueue of the kick worker\<close>

type_synonym history = "kcall list"

text \<open>The answers of the kernel's allocators and of the register file.\<close>

record kernel =
  k_pool :: "history \<Rightarrow> string \<Rightarrow> ptr option"
    \<comment> \<open>ExAllocatePool2 / ExAllocatePoolWithTag for a tag; None is NULL\<close>
  k_contig :: "history \<Rightarrow> nat \<Rightarrow> (ptr \<times> ULONG64) option"
    \<comment> \<open>MmAllocateContiguousNodeMemory for a size, with MmGetPhysicalAddress of the block\<close>
  k_mdl :: "history \<Rightarrow> ptr \<Rightarrow> ptr option"
    \<comment> \<open>IoAllocateMdl over a block\<close>
  k_usermap :: "history \<Rightarrow> ptr \<Rightarrow> ptr option"
    \<comment> \<open>MmMapLockedPagesSpecifyCache(UserMode) of an MDL\<close>
  k_exitsync :: "history \<Rightarrow> ptr \<Rightarrow> bool"
    \<comment> \<open>PsAcquireProcessExitSynchronization succeeds for a process\<close>
  k_read :: "history \<Rightarrow> nat \<Rightarrow> ULONG"
    \<comment> \<open>the value a register read returns\<close>
  k_codec_read :: "history \<Rightarrow> nat \<Rightarrow> ULONG"
    \<comment> \<open>the value a read of the codec's window returns\<close>
  k_qpc :: "history \<Rightarrow> ULONG64"
    \<comment> \<open>KeQueryPerformanceCounter\<close>

definition ExAllocatePool2 :: "kernel \<Rightarrow> string \<Rightarrow> history \<Rightarrow> ptr option \<times> history" where
  "ExAllocatePool2 K tag h =
     (case k_pool K h tag of
        None \<Rightarrow> (None, h)
      | Some p \<Rightarrow> (Some p, Acquire (Pool tag p) # h))"

definition ExFreePoolWithTag :: "string \<Rightarrow> ptr \<Rightarrow> history \<Rightarrow> history" where
  "ExFreePoolWithTag tag p h = Release (Pool tag p) # h"

text \<open>The resources acquired and not yet released, with multiplicity.\<close>

fun live :: "history \<Rightarrow> kres multiset" where
  "live [] = {#}"
| "live (Acquire r # h) = add_mset r (live h)"
| "live (Release r # h) = live h - {#r#}"
| "live (_ # h) = live h"

declare live.simps [live_simps]

text \<open>The register writes of a history, oldest first.\<close>

fun reg_writes :: "history \<Rightarrow> (nat \<times> ULONG) list" where
  "reg_writes [] = []"
| "reg_writes (WriteReg off v # h) = reg_writes h @ [(off, v)]"
| "reg_writes (_ # h) = reg_writes h"

text \<open>The writes to the codec's window, oldest first.\<close>

fun codec_writes :: "history \<Rightarrow> (nat \<times> ULONG) list" where
  "codec_writes [] = []"
| "codec_writes (CodecWrite off v # h) = codec_writes h @ [(off, v)]"
| "codec_writes (_ # h) = codec_writes h"

end
