(* ===== verification/Iommu_Domain.thy ===== *)
theory Iommu_Domain
  imports Prelude
begin

text \<open>
  The IOMMU address space of \<^verbatim>\<open>driver/shared/iommu/pgtable.{h,c}\<close>: the domain record, its creation for
  the two IOMMU variants and its destruction.
\<close>

section \<open>Geometry and entry formats\<close>

abbreviation RK_IOMMU_PD_ENTRIES :: nat where "RK_IOMMU_PD_ENTRIES \<equiv> 1024"
abbreviation RK_IOMMU_PT_ENTRIES :: nat where "RK_IOMMU_PT_ENTRIES \<equiv> 1024"
abbreviation RK_IOMMU_PAGE_SIZE :: nat where "RK_IOMMU_PAGE_SIZE \<equiv> 4096"
abbreviation RK_IOMMU_IOVA_PAGES :: nat where "RK_IOMMU_IOVA_PAGES \<equiv> 1048576"

text \<open>Words of the allocation and start bitmaps, and of the end bitmap with its extra word.\<close>

abbreviation bitmap_words :: nat where "bitmap_words \<equiv> 16384"
abbreviation end_bitmap_words :: nat where "end_bitmap_words \<equiv> 16385"

abbreviation RK_PTE_PAGE_VALID :: ULONG where "RK_PTE_PAGE_VALID \<equiv> 1"
abbreviation RK_PTE_PAGE_READABLE :: ULONG where "RK_PTE_PAGE_READABLE \<equiv> 2"
abbreviation RK_PTE_PAGE_WRITABLE :: ULONG where "RK_PTE_PAGE_WRITABLE \<equiv> 4"
abbreviation RK_DTE_PT_VALID :: ULONG where "RK_DTE_PT_VALID \<equiv> 1"
abbreviation AV1_PTE_VALID :: ULONG where "AV1_PTE_VALID \<equiv> 1"
abbreviation AV1_PTE_WRITABLE :: ULONG where "AV1_PTE_WRITABLE \<equiv> 4"
abbreviation AV1_DTE_VALID :: ULONG where "AV1_DTE_VALID \<equiv> 1"
abbreviation AV1_DTE_PT_ADDR_MASK :: ULONG where "AV1_DTE_PT_ADDR_MASK \<equiv> 0xffffffc0"

section \<open>The domain\<close>

text \<open>
  Pointers to memory whose contents the driver reads or writes become the contents; the pointer
  itself is kept beside them, because the destructor tests and frees it. A table's contents are a
  function from entry indices.
\<close>

record RKIOMMU_DOMAIN =
  DomainPtr :: ptr
  IsAv1d :: bool
  Pta :: "(ptr \<times> (nat \<Rightarrow> ULONG64)) option"
  PtaPhys :: ULONG
  PdPtr :: "ptr option"
  Pd :: "nat \<Rightarrow> ULONG"
  PdPhys :: ULONG
  Pts :: "nat \<Rightarrow> (ptr \<times> (nat \<Rightarrow> ULONG)) option"
  PtPhys :: "nat \<Rightarrow> ULONG"
  IovaBitmapPtr :: "ptr option"
  IovaBitmap :: bitmap
  IovaStartBitmapPtr :: "ptr option"
  IovaStartBitmap :: bitmap
  IovaEndBitmapPtr :: "ptr option"
  IovaEndBitmap :: bitmap

text \<open>The state of the struct after \<^verbatim>\<open>RtlZeroMemory(d, sizeof(*d))\<close>.\<close>

definition zero_domain :: "ptr \<Rightarrow> RKIOMMU_DOMAIN" where
  "zero_domain p =
     \<lparr>DomainPtr = p, IsAv1d = False, Pta = None, PtaPhys = 0, PdPtr = None, Pd = (\<lambda>_. 0),
      PdPhys = 0, Pts = (\<lambda>_. None), PtPhys = (\<lambda>_. 0),
      IovaBitmapPtr = None, IovaBitmap = (\<lambda>_. 0),
      IovaStartBitmapPtr = None, IovaStartBitmap = (\<lambda>_. 0),
      IovaEndBitmapPtr = None, IovaEndBitmap = (\<lambda>_. 0)\<rparr>"

section \<open>Pages below 4 GiB\<close>

definition AllocPageBelow4G :: "kernel \<Rightarrow> history \<Rightarrow> (ptr \<times> ULONG) option \<times> history" where
  "AllocPageBelow4G K h =
     (case k_contig K h RK_IOMMU_PAGE_SIZE of
        None \<Rightarrow> (None, h)
      | Some (va, phys) \<Rightarrow> (Some (va, ucast phys), Acquire (Contig va) # h))"

definition FreePageBelow4G :: "ptr \<Rightarrow> history \<Rightarrow> history" where
  "FreePageBelow4G va h = Release (Contig va) # h"

section \<open>Creation\<close>

text \<open>The NULL guard: page 0 is a one-page allocation in all three bitmaps.\<close>

definition reserve_page0 :: "RKIOMMU_DOMAIN \<Rightarrow> RKIOMMU_DOMAIN" where
  "reserve_page0 d =
     d\<lparr>IovaBitmap := bm_set (IovaBitmap d) 0,
       IovaStartBitmap := bm_set (IovaStartBitmap d) 0,
       IovaEndBitmap := bm_set (IovaEndBitmap d) 1\<rparr>"

text \<open>The RCB-SRAM window \<open>0xFFF00000..0xFFFFFFFF\<close>, marked as one allocation.\<close>

abbreviation kRcbPage :: nat where "kRcbPage \<equiv> 0xFFF00"
abbreviation kRcbCount :: nat where "kRcbCount \<equiv> 0x100"

definition reserve_rcb :: "RKIOMMU_DOMAIN \<Rightarrow> RKIOMMU_DOMAIN" where
  "reserve_rcb d =
     (let bits = fold (\<lambda>p b. if p < RK_IOMMU_IOVA_PAGES then bm_set b p else b)
                   [kRcbPage ..< kRcbPage + kRcbCount] (IovaBitmap d)
      in if kRcbPage < RK_IOMMU_IOVA_PAGES
         then d\<lparr>IovaBitmap := bits,
                IovaStartBitmap := bm_set (IovaStartBitmap d) kRcbPage,
                IovaEndBitmap := bm_set (IovaEndBitmap d) (kRcbPage + kRcbCount)\<rparr>
         else d\<lparr>IovaBitmap := bits\<rparr>)"

definition RkIommuDomainCreateVdec ::
    "kernel \<Rightarrow> history \<Rightarrow> (NTSTATUS + RKIOMMU_DOMAIN) \<times> history" where
  "RkIommuDomainCreateVdec K h0 =
    (case ExAllocatePool2 K ''mDkR'' h0 of
       (None, h1) \<Rightarrow> (Inl STATUS_INSUFFICIENT_RESOURCES, h1)
     | (Some p, h1) \<Rightarrow>
    (case AllocPageBelow4G K h1 of
       (None, h2) \<Rightarrow>
         (Inl STATUS_INSUFFICIENT_RESOURCES, ExFreePoolWithTag ''mDkR'' p h2)
     | (Some (pd, pdPhys), h2) \<Rightarrow>
    (case ExAllocatePool2 K ''bIkR'' h2 of
       (None, h3) \<Rightarrow>
         (Inl STATUS_INSUFFICIENT_RESOURCES,
          ExFreePoolWithTag ''mDkR'' p (FreePageBelow4G pd h3))
     | (Some bmp, h3) \<Rightarrow>
    (case ExAllocatePool2 K ''sIkR'' h3 of
       (None, h4) \<Rightarrow>
         (Inl STATUS_INSUFFICIENT_RESOURCES,
          ExFreePoolWithTag ''mDkR'' p (FreePageBelow4G pd (ExFreePoolWithTag ''bIkR'' bmp h4)))
     | (Some smp, h4) \<Rightarrow>
    (case ExAllocatePool2 K ''eIkR'' h4 of
       (None, h5) \<Rightarrow>
         (Inl STATUS_INSUFFICIENT_RESOURCES,
          ExFreePoolWithTag ''mDkR'' p (FreePageBelow4G pd
            (ExFreePoolWithTag ''bIkR'' bmp (ExFreePoolWithTag ''sIkR'' smp h5))))
     | (Some emp, h5) \<Rightarrow>
         (Inr (reserve_rcb (reserve_page0
            ((zero_domain p)
               \<lparr>IsAv1d := False, PdPtr := Some pd, PdPhys := pdPhys,
                IovaBitmapPtr := Some bmp, IovaStartBitmapPtr := Some smp,
                IovaEndBitmapPtr := Some emp\<rparr>))), h5))))))"

text \<open>AV1D adds the page-table array, whose entry 0 points at the directory (4K mode is bit 0 clear).\<close>

definition RkIommuDomainCreateAv1d ::
    "kernel \<Rightarrow> history \<Rightarrow> (NTSTATUS + RKIOMMU_DOMAIN) \<times> history" where
  "RkIommuDomainCreateAv1d K h0 =
    (case ExAllocatePool2 K ''mDkR'' h0 of
       (None, h1) \<Rightarrow> (Inl STATUS_INSUFFICIENT_RESOURCES, h1)
     | (Some p, h1) \<Rightarrow>
    (case AllocPageBelow4G K h1 of
       (None, h2) \<Rightarrow>
         (Inl STATUS_INSUFFICIENT_RESOURCES, ExFreePoolWithTag ''mDkR'' p h2)
     | (Some (pd, pdPhys), h2) \<Rightarrow>
    (case AllocPageBelow4G K h2 of
       (None, h3) \<Rightarrow>
         (Inl STATUS_INSUFFICIENT_RESOURCES,
          ExFreePoolWithTag ''mDkR'' p (FreePageBelow4G pd h3))
     | (Some (pta, ptaPhys), h3) \<Rightarrow>
    (case ExAllocatePool2 K ''bIkR'' h3 of
       (None, h4) \<Rightarrow>
         (Inl STATUS_INSUFFICIENT_RESOURCES,
          ExFreePoolWithTag ''mDkR'' p (FreePageBelow4G pd (FreePageBelow4G pta h4)))
     | (Some bmp, h4) \<Rightarrow>
    (case ExAllocatePool2 K ''sIkR'' h4 of
       (None, h5) \<Rightarrow>
         (Inl STATUS_INSUFFICIENT_RESOURCES,
          ExFreePoolWithTag ''mDkR'' p (FreePageBelow4G pd (FreePageBelow4G pta
            (ExFreePoolWithTag ''bIkR'' bmp h5))))
     | (Some smp, h5) \<Rightarrow>
    (case ExAllocatePool2 K ''eIkR'' h5 of
       (None, h6) \<Rightarrow>
         (Inl STATUS_INSUFFICIENT_RESOURCES,
          ExFreePoolWithTag ''mDkR'' p (FreePageBelow4G pd (FreePageBelow4G pta
            (ExFreePoolWithTag ''bIkR'' bmp (ExFreePoolWithTag ''sIkR'' smp h6)))))
     | (Some emp, h6) \<Rightarrow>
         (Inr (reserve_page0
            ((zero_domain p)
               \<lparr>IsAv1d := True, PdPtr := Some pd, PdPhys := pdPhys,
                Pta := Some (pta, (\<lambda>_. 0)(0 := (ucast pdPhys AND 0xfffffc00) OR 0)),
                PtaPhys := ptaPhys,
                IovaBitmapPtr := Some bmp, IovaStartBitmapPtr := Some smp,
                IovaEndBitmapPtr := Some emp\<rparr>)), h6)))))))"

section \<open>Destruction\<close>

definition free_opt :: "(ptr \<Rightarrow> history \<Rightarrow> history) \<Rightarrow> ptr option \<Rightarrow> history \<Rightarrow> history" where
  "free_opt f o_p h = (case o_p of None \<Rightarrow> h | Some p \<Rightarrow> f p h)"

text \<open>The loop over \<^verbatim>\<open>Pts[]\<close>, then the directory, the PTA, the bitmaps and the struct itself.\<close>

definition RkIommuDomainDestroy :: "RKIOMMU_DOMAIN option \<Rightarrow> history \<Rightarrow> history" where
  "RkIommuDomainDestroy od h =
     (case od of
        None \<Rightarrow> h
      | Some d \<Rightarrow>
          ExFreePoolWithTag ''mDkR'' (DomainPtr d)
           (free_opt (ExFreePoolWithTag ''eIkR'') (IovaEndBitmapPtr d)
            (free_opt (ExFreePoolWithTag ''sIkR'') (IovaStartBitmapPtr d)
             (free_opt (ExFreePoolWithTag ''bIkR'') (IovaBitmapPtr d)
              (free_opt FreePageBelow4G (map_option fst (Pta d))
               (free_opt FreePageBelow4G (PdPtr d)
                (fold (\<lambda>i. free_opt FreePageBelow4G (map_option fst (Pts d i)))
                   [0..<RK_IOMMU_PD_ENTRIES] h)))))))"

section \<open>What creation and destruction do with kernel resources\<close>

lemmas kernel_alloc_defs = ExAllocatePool2_def ExFreePoolWithTag_def AllocPageBelow4G_def
  FreePageBelow4G_def

text \<open>The resources a domain owns, in the order the destructor releases them.\<close>

definition opt_res :: "('a \<Rightarrow> kres) \<Rightarrow> 'a option \<Rightarrow> kres list" where
  "opt_res f x = (case x of None \<Rightarrow> [] | Some p \<Rightarrow> [f p])"

lemma opt_res_simps [simp]: "opt_res f None = []" "opt_res f (Some p) = [f p]"
  by (simp_all add: opt_res_def)

definition domain_resources :: "RKIOMMU_DOMAIN \<Rightarrow> kres list" where
  "domain_resources d =
     concat (map (\<lambda>i. opt_res Contig (map_option fst (Pts d i))) [0..<RK_IOMMU_PD_ENTRIES])
     @ opt_res Contig (PdPtr d) @ opt_res Contig (map_option fst (Pta d))
     @ opt_res (Pool ''bIkR'') (IovaBitmapPtr d) @ opt_res (Pool ''sIkR'') (IovaStartBitmapPtr d)
     @ opt_res (Pool ''eIkR'') (IovaEndBitmapPtr d) @ [Pool ''mDkR'' (DomainPtr d)]"

lemma live_free_page_opt:
  "live (free_opt FreePageBelow4G x h) = live h - mset (opt_res Contig x)"
  by (cases x) (simp_all add: free_opt_def FreePageBelow4G_def)

lemma live_free_pool_opt:
  "live (free_opt (ExFreePoolWithTag tag) x h) = live h - mset (opt_res (Pool tag) x)"
  by (cases x) (simp_all add: free_opt_def ExFreePoolWithTag_def)

lemma live_fold_free_pages:
  "live (fold (\<lambda>i. free_opt FreePageBelow4G (f i)) is h)
   = live h - mset (concat (map (\<lambda>i. opt_res Contig (f i)) is))"
  by (induction "is" arbitrary: h) (simp_all add: live_free_page_opt)

lemma live_DomainDestroy:
  "live (RkIommuDomainDestroy (Some d) h) = live h - mset (domain_resources d)"
  by (simp only: RkIommuDomainDestroy_def option.case ExFreePoolWithTag_def live.simps
      live_free_pool_opt live_free_page_opt live_fold_free_pages domain_resources_def
      mset_append mset.simps diff_diff_add_mset add.assoc)

lemma reserve_frame [simp]:
  "Pts (reserve_rcb d) = Pts d" "Pts (reserve_page0 d) = Pts d"
  "Pd (reserve_rcb d) = Pd d" "Pd (reserve_page0 d) = Pd d"
  "PdPtr (reserve_rcb d) = PdPtr d" "PdPtr (reserve_page0 d) = PdPtr d"
  "PdPhys (reserve_rcb d) = PdPhys d" "PdPhys (reserve_page0 d) = PdPhys d"
  "Pta (reserve_rcb d) = Pta d" "Pta (reserve_page0 d) = Pta d"
  "PtPhys (reserve_rcb d) = PtPhys d" "PtPhys (reserve_page0 d) = PtPhys d"
  "IsAv1d (reserve_rcb d) = IsAv1d d" "IsAv1d (reserve_page0 d) = IsAv1d d"
  "DomainPtr (reserve_rcb d) = DomainPtr d" "DomainPtr (reserve_page0 d) = DomainPtr d"
  "IovaBitmapPtr (reserve_rcb d) = IovaBitmapPtr d"
  "IovaBitmapPtr (reserve_page0 d) = IovaBitmapPtr d"
  "IovaStartBitmapPtr (reserve_rcb d) = IovaStartBitmapPtr d"
  "IovaStartBitmapPtr (reserve_page0 d) = IovaStartBitmapPtr d"
  "IovaEndBitmapPtr (reserve_rcb d) = IovaEndBitmapPtr d"
  "IovaEndBitmapPtr (reserve_page0 d) = IovaEndBitmapPtr d"
  by (simp_all add: reserve_rcb_def reserve_page0_def Let_def)

lemma concat_map_Nil [simp]: "concat (map (\<lambda>i. []) is) = []"
  by (induction "is") simp_all

text \<open>Creation either fails and leaves nothing behind, or leaves exactly what the domain records.\<close>

lemma DomainCreateVdec_live:
  assumes "RkIommuDomainCreateVdec K h = (r, h')"
  shows "live h' = (case r of Inl _ \<Rightarrow> live h | Inr d \<Rightarrow> mset (domain_resources d) + live h)"
  using assms
  by (auto simp: RkIommuDomainCreateVdec_def kernel_alloc_defs domain_resources_def zero_domain_def
      split: option.splits prod.splits)

lemma DomainCreateAv1d_live:
  assumes "RkIommuDomainCreateAv1d K h = (r, h')"
  shows "live h' = (case r of Inl _ \<Rightarrow> live h | Inr d \<Rightarrow> mset (domain_resources d) + live h)"
  using assms
  by (auto simp: RkIommuDomainCreateAv1d_def kernel_alloc_defs domain_resources_def zero_domain_def
      split: option.splits prod.splits)

section \<open>A concrete kernel\<close>

text \<open>Every allocator succeeds; blocks are consecutive pages from 256 MiB. Used to evaluate examples.\<close>

definition demo_kernel :: kernel where
  "demo_kernel =
     \<lparr>k_pool = (\<lambda>h tag. Some (length h)),
      k_contig = (\<lambda>h n. Some (length h, 0x10000000 + of_nat (length h) * 0x1000)),
      k_mdl = (\<lambda>h va. Some (length h)),
      k_usermap = (\<lambda>h mdl. Some (length h)),
      k_exitsync = (\<lambda>h p. True),
      k_read = (\<lambda>h off. 1), k_codec_read = (\<lambda>h off. 4), k_qpc = (\<lambda>h. of_nat (length h))\<rparr>"

definition demo_domain :: RKIOMMU_DOMAIN where
  "demo_domain = (case RkIommuDomainCreateVdec demo_kernel [] of (Inr d, _) \<Rightarrow> d)"

lemma demo_domain_create:
  "\<exists>h. RkIommuDomainCreateVdec demo_kernel [] = (Inr demo_domain, h)"
  by (simp add: demo_domain_def demo_kernel_def RkIommuDomainCreateVdec_def kernel_alloc_defs)

section \<open>Properties\<close>

text \<open>Creating a vdec domain leaks nothing on any failing path, whatever allocation fails; a
  successful creation followed by RkIommuDomainDestroy returns every pool block and page.\<close>

theorem domain_create_destroy_balanced:
  "case RkIommuDomainCreateVdec K h of
     (Inl s, h') \<Rightarrow> s = STATUS_INSUFFICIENT_RESOURCES \<and> live h' = live h
   | (Inr d, h') \<Rightarrow> live (RkIommuDomainDestroy (Some d) h') = live h"
proof (cases "RkIommuDomainCreateVdec K h")
  case (Pair r h')
  have "r = Inl s \<Longrightarrow> s = STATUS_INSUFFICIENT_RESOURCES" for s
    using Pair by (auto simp: RkIommuDomainCreateVdec_def split: option.splits prod.splits)
  with Pair DomainCreateVdec_live[OF Pair] show ?thesis
    by (cases r) (simp_all add: live_DomainDestroy)
qed

text \<open>The same for the AV1D domain, whose page-table array entry 0 also names the directory.\<close>

theorem domain_create_av1d_balanced:
  "case RkIommuDomainCreateAv1d K h of
     (Inl s, h') \<Rightarrow> s = STATUS_INSUFFICIENT_RESOURCES \<and> live h' = live h
   | (Inr d, h') \<Rightarrow> live (RkIommuDomainDestroy (Some d) h') = live h \<and>
       (\<exists>pta t. Pta d = Some (pta, t) \<and> t 0 = ucast (PdPhys d) AND 0xfffffc00)"
proof (cases "RkIommuDomainCreateAv1d K h")
  case (Pair r h')
  have "r = Inl s \<Longrightarrow> s = STATUS_INSUFFICIENT_RESOURCES" for s
    using Pair by (auto simp: RkIommuDomainCreateAv1d_def split: option.splits prod.splits)
  moreover have "r = Inr d \<Longrightarrow> \<exists>pta t. Pta d = Some (pta, t) \<and> t 0 = ucast (PdPhys d) AND 0xfffffc00" for d
    using Pair by (auto simp: RkIommuDomainCreateAv1d_def split: option.splits prod.splits)
  ultimately show ?thesis
    using Pair DomainCreateAv1d_live[OF Pair] by (cases r) (simp_all add: live_DomainDestroy)
qed

end
