(* ===== verification/Iova_Alloc.thy ===== *)
theory Iova_Alloc
  imports Iommu_Domain
begin

text \<open>
  The IOVA allocator of \<^verbatim>\<open>driver/shared/iommu/pgtable.c\<close> (RkIommuAllocIova, RkIommuFreeIova) and the
  length recovery UnmapMdl performs on the end bitmap, refined to a finite map from the first page
  of an allocation to its length.
\<close>

section \<open>Allocation\<close>

text \<open>
  The inner loop over the bits of one word, from bit 63 down, and the outer loop over the words,
  from the last down. \<open>run\<close> counts the free bits just above the current one; it stays below
  \<open>2 ^ 20 + 1\<close>, so a natural number stands for the ULONG. \<open>Inl\<close> is the base found, \<open>Inr\<close> the run
  carried into the next word.
\<close>

fun scan_word :: "64 word \<Rightarrow> nat \<Rightarrow> nat \<Rightarrow> nat \<Rightarrow> nat \<Rightarrow> nat + nat" where
  "scan_word word pc w 0 run = Inr run"
| "scan_word word pc w (Suc b) run =
     (if word AND push_bit b 1 = 0
      then (if run + 1 = pc then Inl (w * 64 + b) else scan_word word pc w b (run + 1))
      else scan_word word pc w b 0)"

fun scan_words :: "bitmap \<Rightarrow> nat \<Rightarrow> nat \<Rightarrow> nat \<Rightarrow> nat option" where
  "scan_words bm pc 0 run = None"
| "scan_words bm pc (Suc w) run =
     (case scan_word (bm w) pc w 64 run of
        Inl base \<Rightarrow> Some base
      | Inr run' \<Rightarrow> scan_words bm pc w run')"

definition RkIommuAllocIova ::
    "RKIOMMU_DOMAIN \<Rightarrow> ULONG \<Rightarrow> (NTSTATUS + ULONG64) \<times> RKIOMMU_DOMAIN" where
  "RkIommuAllocIova d PageCount =
     (case scan_words (IovaBitmap d) (unat PageCount) bitmap_words 0 of
        None \<Rightarrow> (Inl STATUS_INSUFFICIENT_RESOURCES, d)
      | Some base \<Rightarrow>
          (Inr (of_nat base * of_nat RK_IOMMU_PAGE_SIZE),
           d\<lparr>IovaBitmap := fold (\<lambda>k b. bm_set b k) [base ..< base + unat PageCount] (IovaBitmap d),
             IovaStartBitmap := bm_set (IovaStartBitmap d) base,
             IovaEndBitmap := bm_set (IovaEndBitmap d) (base + unat PageCount)\<rparr>))"

section \<open>Release\<close>

text \<open>
  All index arithmetic is 32-bit, as in the source: the range check subtracts \<open>PageCount\<close> from
  \<open>2 ^ 20\<close> and wraps when \<open>PageCount\<close> is larger.
\<close>

definition RkIommuFreeIova :: "RKIOMMU_DOMAIN \<Rightarrow> ULONG64 \<Rightarrow> ULONG \<Rightarrow> RKIOMMU_DOMAIN" where
  "RkIommuFreeIova d Iova PageCount =
     (if Iova \<ge> push_bit 12 0x100000 then d
      else if Iova AND 0xFFF \<noteq> 0 then d
      else
        (let startPage = (ucast (drop_bit 12 Iova) :: ULONG)
         in if PageCount = 0 \<or> startPage > 0x100000 - PageCount then d
            else if \<not> bm_test (IovaStartBitmap d) (unat startPage) then d
            else
              d\<lparr>IovaBitmap :=
                  fold (\<lambda>i b. bm_clear b (unat (startPage + of_nat i)))
                    [0 ..< unat PageCount] (IovaBitmap d),
                IovaStartBitmap := bm_clear (IovaStartBitmap d) (unat startPage),
                IovaEndBitmap := bm_clear (IovaEndBitmap d) (unat (startPage + PageCount))\<rparr>))"

section \<open>Recovering the length of an allocation\<close>

text \<open>
  The loop of UnmapMdl: \<^verbatim>\<open>for (pg = startPage + 1; pg <= RK_IOMMU_IOVA_PAGES; pg++)\<close>, which stops at
  the first end marker; \<open>0\<close> when there is none.
\<close>

function end_scan :: "bitmap \<Rightarrow> nat \<Rightarrow> nat \<Rightarrow> nat" where
  "end_scan bm startPage pg =
     (if RK_IOMMU_IOVA_PAGES < pg then 0
      else if bm_test bm pg then pg - startPage
      else end_scan bm startPage (pg + 1))"
  by pat_completeness auto
termination
  by (relation "measure (\<lambda>(bm, startPage, pg). RK_IOMMU_IOVA_PAGES + 1 - pg)") auto

declare end_scan.simps [simp del]

section \<open>The scan, flattened\<close>

fun scan_flat :: "bitmap \<Rightarrow> nat \<Rightarrow> nat \<Rightarrow> nat \<Rightarrow> nat option" where
  "scan_flat bm pc 0 run = None"
| "scan_flat bm pc (Suc i) run =
     (if \<not> bm_test bm i
      then (if run + 1 = pc then Some i else scan_flat bm pc i (run + 1))
      else scan_flat bm pc i 0)"

lemma scan_word_flat:
  "b \<le> 64 \<Longrightarrow>
   scan_flat bm pc (w * 64 + b) run =
     (case scan_word (bm w) pc w b run of
        Inl base \<Rightarrow> Some base
      | Inr run' \<Rightarrow> scan_flat bm pc (w * 64) run')"
proof (induction b arbitrary: run)
  case 0
  then show ?case by simp
next
  case (Suc b)
  have "bm_test bm (w * 64 + b) \<longleftrightarrow> bm w AND push_bit b 1 \<noteq> 0"
    using Suc.prems by (simp add: bm_test_def)
  with Suc show ?case by simp
qed

lemma scan_words_flat: "scan_words bm pc n run = scan_flat bm pc (n * 64) run"
proof (induction n arbitrary: run)
  case (Suc n)
  have "scan_flat bm pc (Suc n * 64) run = scan_flat bm pc (n * 64 + 64) run"
    by (simp add: add.commute)
  with Suc show ?case
    by (simp add: scan_word_flat split: sum.split)
qed simp

text \<open>A window of \<open>pc\<close> clear bits starting at \<open>base\<close>.\<close>

definition free_window :: "bitmap \<Rightarrow> nat \<Rightarrow> nat \<Rightarrow> bool" where
  "free_window bm base pc \<longleftrightarrow> (\<forall>p. base \<le> p \<and> p < base + pc \<longrightarrow> \<not> bm_test bm p)"

lemma free_window_extend:
  "free_window bm (Suc i) run \<Longrightarrow> \<not> bm_test bm i \<Longrightarrow> free_window bm i (Suc run)"
  by (auto simp: free_window_def) (metis Suc_leI le_neq_implies_less)

lemma free_window_0 [simp]: "free_window bm i 0"
  by (auto simp: free_window_def)

lemma not_free_window: "bm_test bm p \<Longrightarrow> base \<le> p \<Longrightarrow> p < base + pc \<Longrightarrow> \<not> free_window bm base pc"
  by (auto simp: free_window_def)

lemma scan_flat_Some:
  assumes "scan_flat bm pc n run = Some base" "free_window bm n run" "run < pc"
  shows "base < n \<and> base + pc \<le> n + run \<and> free_window bm base pc"
  using assms
proof (induction bm pc n run rule: scan_flat.induct)
  case (2 bm pc i run)
  show ?case
  proof (cases "bm_test bm i")
    case True
    with 2 have "base < i \<and> base + pc \<le> i \<and> free_window bm base pc" by auto
    then show ?thesis by simp
  next
    case False
    with 2 have w: "free_window bm i (Suc run)" by (intro free_window_extend)
    with 2 False show ?thesis by (cases "Suc run = pc") auto
  qed
qed simp

text \<open>
  The scan is best-from-the-top: any other free window below the limit starts no higher. The
  hypothesis says the bit just above the current run is taken or the limit is reached.
\<close>

lemma scan_flat_highest:
  assumes "free_window bm base' pc" "base' + pc \<le> n + run" "run < pc" "0 < pc"
    and "n + run = lim \<or> bm_test bm (n + run)" "base' < n"
  shows "\<exists>base. scan_flat bm pc n run = Some base \<and> base' \<le> base"
  using assms
proof (induction bm pc n run rule: scan_flat.induct)
  case (2 bm pc i run)
  show ?case
  proof (cases "bm_test bm i")
    case True
    with 2(3) have "\<not> (base' \<le> i \<and> i < base' + pc)" by (auto simp: free_window_def)
    with 2 have "base' + pc \<le> i" by auto
    with 2 True show ?thesis by auto
  next
    case False
    show ?thesis
    proof (cases "Suc run = pc")
      case True
      with 2 False show ?thesis by auto
    next
      case notlast: False
      with 2 have "base' < i" by auto
      with 2 False notlast show ?thesis by auto
    qed
  qed
qed simp

lemma scan_flat_0: "scan_flat bm 0 n run = None"
  by (induction bm "0::nat" n run rule: scan_flat.induct) auto

section \<open>Refinement to a map of allocations\<close>

text \<open>
  The abstract state: \<open>A b = Some c\<close> says that pages \<open>b ..< b + c\<close> are one live allocation.
\<close>

definition disjoint_allocs :: "(nat \<rightharpoonup> nat) \<Rightarrow> bool" where
  "disjoint_allocs A \<longleftrightarrow>
     (\<forall>b c. A b = Some c \<longrightarrow> 0 < c \<and> b + c \<le> RK_IOMMU_IOVA_PAGES) \<and>
     (\<forall>b c b' c'. A b = Some c \<and> A b' = Some c' \<and> b < b' \<longrightarrow> b + c \<le> b')"

definition covered :: "(nat \<rightharpoonup> nat) \<Rightarrow> nat \<Rightarrow> bool" where
  "covered A p \<longleftrightarrow> (\<exists>b c. A b = Some c \<and> b \<le> p \<and> p < b + c)"

definition iova_abs :: "RKIOMMU_DOMAIN \<Rightarrow> (nat \<rightharpoonup> nat) \<Rightarrow> bool" where
  "iova_abs d A \<longleftrightarrow>
     disjoint_allocs A \<and>
     (\<forall>p < RK_IOMMU_IOVA_PAGES. bm_test (IovaBitmap d) p \<longleftrightarrow> covered A p) \<and>
     (\<forall>p < RK_IOMMU_IOVA_PAGES. bm_test (IovaStartBitmap d) p \<longleftrightarrow> A p \<noteq> None) \<and>
     (\<forall>p \<le> RK_IOMMU_IOVA_PAGES.
        bm_test (IovaEndBitmap d) p \<longleftrightarrow> (\<exists>b c. A b = Some c \<and> p = b + c))"

text \<open>Allocation and release on the abstract state.\<close>

definition alloc_spec :: "(nat \<rightharpoonup> nat) \<Rightarrow> nat \<Rightarrow> nat \<Rightarrow> bool" where
  "alloc_spec A base pc \<longleftrightarrow>
     0 < pc \<and> base + pc \<le> RK_IOMMU_IOVA_PAGES \<and> (\<forall>p. base \<le> p \<and> p < base + pc \<longrightarrow> \<not> covered A p)"

lemma disjoint_allocs_update:
  assumes "disjoint_allocs A" "alloc_spec A base pc"
  shows "disjoint_allocs (A(base \<mapsto> pc))"
proof -
  have pos: "0 < c \<and> b + c \<le> RK_IOMMU_IOVA_PAGES" if "A b = Some c" for b c
    using assms(1) that by (auto simp: disjoint_allocs_def)
  have apart: "b + c \<le> base \<or> base + pc \<le> b" if "A b = Some c" for b c
  proof (rule ccontr)
    assume "\<not> ?thesis"
    then have "max b base \<ge> b" "max b base < b + c" "base \<le> max b base" "max b base < base + pc"
      using pos[OF that] assms(2) by (auto simp: alloc_spec_def)
    then have "covered A (max b base)" using that unfolding covered_def by blast
    with assms(2) \<open>base \<le> max b base\<close> \<open>max b base < base + pc\<close> show False
      by (auto simp: alloc_spec_def)
  qed
  show ?thesis
    using assms pos apart unfolding disjoint_allocs_def
    by (auto simp: alloc_spec_def split: if_splits) (metis add_leD1 leD less_le_trans apart)+
qed

lemma disjoint_allocs_remove: "disjoint_allocs A \<Longrightarrow> disjoint_allocs (A(b := None))"
  by (auto simp: disjoint_allocs_def split: if_splits)

lemma covered_update:
  "A base = None \<Longrightarrow>
   covered (A(base \<mapsto> pc)) p \<longleftrightarrow> covered A p \<or> (base \<le> p \<and> p < base + pc)"
  by (auto simp: covered_def)

lemma alloc_spec_fresh: "disjoint_allocs A \<Longrightarrow> alloc_spec A base pc \<Longrightarrow> A base = None"
  by (rule ccontr) (force simp: disjoint_allocs_def alloc_spec_def covered_def)

lemma end_unique:
  assumes "disjoint_allocs A" "A b = Some c" "A b' = Some c'" "b + c = b' + c'"
  shows "b = b' \<and> c = c'"
proof -
  have "0 < c" "0 < c'" using assms by (auto simp: disjoint_allocs_def)
  moreover have "b < b' \<Longrightarrow> b + c \<le> b'" "b' < b \<Longrightarrow> b' + c' \<le> b"
    using assms(1-3) unfolding disjoint_allocs_def by blast+
  ultimately show ?thesis using assms(4) by (cases b b' rule: linorder_cases) auto
qed

lemma covered_remove:
  assumes "disjoint_allocs A" "A b = Some c"
  shows "covered (A(b := None)) p \<longleftrightarrow> covered A p \<and> \<not> (b \<le> p \<and> p < b + c)"
proof -
  have "\<not> (b \<le> p \<and> p < b + c)" if "A b' = Some c'" "b' \<noteq> b" "b' \<le> p" "p < b' + c'" for b' c'
  proof (cases "b' < b")
    case True
    then have "b' + c' \<le> b" using assms that unfolding disjoint_allocs_def by blast
    with that show ?thesis by simp
  next
    case False
    then have "b + c \<le> b'" using assms that unfolding disjoint_allocs_def
      by (metis linorder_neqE_nat)
    with that show ?thesis by simp
  qed
  with assms(2) show ?thesis
    by (auto simp: covered_def split: if_splits) (metis option.inject)+
qed

section \<open>Refinement of the operations\<close>

lemma alloc_scan_spec:
  assumes "iova_abs d A" "scan_words (IovaBitmap d) pc bitmap_words 0 = Some base" "0 < pc"
  shows "alloc_spec A base pc"
proof -
  have "scan_flat (IovaBitmap d) pc RK_IOMMU_IOVA_PAGES 0 = Some base"
    using assms(2) by (simp add: scan_words_flat)
  from scan_flat_Some[OF this] assms(3)
  have b: "base + pc \<le> RK_IOMMU_IOVA_PAGES" and f: "free_window (IovaBitmap d) base pc" by auto
  then have "\<not> covered A p" if "base \<le> p" "p < base + pc" for p
    using assms(1) that b by (auto simp: iova_abs_def free_window_def)
  with b assms(3) show ?thesis by (auto simp: alloc_spec_def)
qed

lemma iova_abs_alloc:
  assumes inv: "iova_abs d A" and sp: "alloc_spec A base pc"
  shows "iova_abs (d\<lparr>IovaBitmap := fold (\<lambda>k b. bm_set b k) [base ..< base + pc] (IovaBitmap d),
                     IovaStartBitmap := bm_set (IovaStartBitmap d) base,
                     IovaEndBitmap := bm_set (IovaEndBitmap d) (base + pc)\<rparr>)
                  (A(base \<mapsto> pc))"
proof -
  have fresh: "A base = None" using inv sp by (auto simp: iova_abs_def alloc_spec_fresh)
  have "disjoint_allocs (A(base \<mapsto> pc))"
    using inv sp by (auto simp: iova_abs_def disjoint_allocs_update)
  moreover have "(\<exists>b c. (A(base \<mapsto> pc)) b = Some c \<and> p = b + c) \<longleftrightarrow>
      p = base + pc \<or> (\<exists>b c. A b = Some c \<and> p = b + c)" for p
    using fresh by (auto split: if_splits) (metis option.distinct(1))
  ultimately show ?thesis
    using inv sp fresh by (auto simp: iova_abs_def covered_update alloc_spec_def)
qed

text \<open>The end marker recovers the length: every page strictly inside carries no marker.\<close>

lemma end_scan_steps:
  assumes "\<forall>p. startPage < p \<and> p < startPage + c \<longrightarrow> \<not> bm_test bm p"
    and "bm_test bm (startPage + c)" "startPage < pg" "pg \<le> startPage + c"
    and "startPage + c \<le> RK_IOMMU_IOVA_PAGES"
  shows "end_scan bm startPage pg = c"
  using assms
proof (induction bm startPage pg rule: end_scan.induct)
  case (1 bm startPage pg)
  then show ?case
    by (cases "pg = startPage + c") (subst end_scan.simps, force)+
qed

lemma no_end_inside:
  assumes "disjoint_allocs A" "A b = Some c" "b < p" "p < b + c" "A b' = Some c'"
  shows "p \<noteq> b' + c'"
proof -
  have "b' < b \<Longrightarrow> b' + c' \<le> b" "b < b' \<Longrightarrow> b + c \<le> b'"
    using assms unfolding disjoint_allocs_def by blast+
  then show ?thesis using assms by (cases b b' rule: linorder_cases) auto
qed

lemma end_scan_exact:
  assumes "iova_abs d A" "A b = Some c"
  shows "end_scan (IovaEndBitmap d) b (b + 1) = c"
proof -
  have D: "disjoint_allocs A" using assms(1) by (simp add: iova_abs_def)
  then have c: "0 < c" "b + c \<le> RK_IOMMU_IOVA_PAGES" using assms(2) by (auto simp: disjoint_allocs_def)
  have E: "bm_test (IovaEndBitmap d) p \<longleftrightarrow> (\<exists>b c. A b = Some c \<and> p = b + c)"
    if "p \<le> RK_IOMMU_IOVA_PAGES" for p using assms(1) that by (auto simp: iova_abs_def)
  show ?thesis
  proof (rule end_scan_steps)
    show "\<forall>p. b < p \<and> p < b + c \<longrightarrow> \<not> bm_test (IovaEndBitmap d) p"
      using E c no_end_inside[OF D assms(2)] by (metis less_imp_le_nat order_trans)
    show "bm_test (IovaEndBitmap d) (b + c)" using E c assms(2) by auto
  qed (use c in auto)
qed

section \<open>Pages and IOVAs\<close>

definition page_iova :: "nat \<Rightarrow> ULONG64" where
  "page_iova b = of_nat b * of_nat RK_IOMMU_PAGE_SIZE"

lemma unat_page_iova: "b < 2 ^ 52 \<Longrightarrow> unat (page_iova b) = b * 4096"
  by (simp add: page_iova_def unat_word_ariths unat_of_nat)

lemma page_iova_inj:
  "b < RK_IOMMU_IOVA_PAGES \<Longrightarrow> page_iova b' = page_iova b \<Longrightarrow> b' < RK_IOMMU_IOVA_PAGES \<Longrightarrow> b' = b"
  using unat_page_iova[of b] unat_page_iova[of b'] by simp

lemma page_iova_bound: "b < RK_IOMMU_IOVA_PAGES \<Longrightarrow> \<not> page_iova b \<ge> push_bit 12 0x100000"
  by (simp add: word_le_nat_alt unat_page_iova)

lemma unat_and_0xFFF: "unat ((x :: ULONG64) AND 0xFFF) = unat x mod 4096"
proof -
  have "x AND 0xFFF = take_bit 12 x"
    by (simp add: take_bit_eq_mask mask_eq_exp_minus_1)
  then show ?thesis by (simp add: unsigned_take_bit_eq take_bit_eq_mod [where 'a = nat])
qed

lemma page_iova_aligned: "b < 2 ^ 52 \<Longrightarrow> page_iova b AND 0xFFF = 0"
  using unat_and_0xFFF[of "page_iova b"] by (simp add: unat_page_iova unsigned_eq_0_iff)

lemma page_of_iova: "b < RK_IOMMU_IOVA_PAGES \<Longrightarrow> (ucast (drop_bit 12 (page_iova b)) :: ULONG) = of_nat b"
proof -
  assume b: "b < RK_IOMMU_IOVA_PAGES"
  have "unat (drop_bit 12 (page_iova b)) = b"
    using b by (simp add: unat_drop_bit_eq unat_page_iova drop_bit_eq_div [where 'a = nat])
  then have "drop_bit 12 (page_iova b) = of_nat b"
    using b by (simp add: word_unat_eq_iff unat_of_nat)
  with b show ?thesis by (simp add: unsigned_of_nat take_bit_nat_eq_self)
qed

lemma aligned_iova_is_page:
  assumes "\<not> Iova \<ge> push_bit 12 0x100000" "Iova AND 0xFFF = 0"
  shows "\<exists>b < RK_IOMMU_IOVA_PAGES. Iova = page_iova b"
proof -
  have lt: "unat Iova < 4294967296" using assms(1) by (simp add: word_le_nat_alt)
  have "unat Iova mod 4096 = 0" using unat_and_0xFFF[of Iova] assms(2) by simp
  then have eq: "unat Iova div 4096 * 4096 = unat Iova" by auto
  from lt have b: "unat Iova div 4096 < RK_IOMMU_IOVA_PAGES" by auto
  then have "unat (page_iova (unat Iova div 4096)) = unat Iova"
    using eq by (simp add: unat_page_iova)
  then have "Iova = page_iova (unat Iova div 4096)" by (simp add: word_unat_eq_iff)
  with b show ?thesis by blast
qed

lemma unat_of_nat32: "n < 4294967296 \<Longrightarrow> unat (of_nat n :: ULONG) = n"
  by (simp add: unat_of_nat)

text \<open>Inside the address space the 32-bit range check of the release is the intended one.\<close>

lemma free_guard_iff:
  assumes "b < RK_IOMMU_IOVA_PAGES" "unat pc \<le> RK_IOMMU_IOVA_PAGES"
  shows "(of_nat b :: ULONG) > 0x100000 - pc \<longleftrightarrow> RK_IOMMU_IOVA_PAGES < b + unat pc"
proof -
  have "pc \<le> 0x100000" using assms(2) by (simp add: word_le_nat_alt)
  then have "unat (0x100000 - pc) = RK_IOMMU_IOVA_PAGES - unat pc"
    by (simp add: unat_sub)
  with assms show ?thesis by (auto simp: word_less_nat_alt unat_of_nat32)
qed

lemma unat_page_plus:
  "b < RK_IOMMU_IOVA_PAGES \<Longrightarrow> i \<le> RK_IOMMU_IOVA_PAGES \<Longrightarrow>
   unat ((of_nat b :: ULONG) + of_nat i) = b + i"
  by (simp flip: of_nat_add add: unat_of_nat32)

lemma fold_clear_shift:
  assumes "b < RK_IOMMU_IOVA_PAGES" "n \<le> RK_IOMMU_IOVA_PAGES"
  shows "fold (\<lambda>i. \<lambda>m. bm_clear m (unat ((of_nat b :: ULONG) + of_nat i))) [0..<n] bm
         = fold (\<lambda>k m. bm_clear m k) [b..<b + n] bm"
  using assms(2)
proof (induction n)
  case (Suc n)
  then show ?case using assms(1) by (simp add: unat_page_plus)
qed simp

text \<open>The release of a page-aligned range in natural-number form.\<close>

lemma RkIommuFreeIova_page:
  assumes "b < RK_IOMMU_IOVA_PAGES" "0 < c" "c \<le> RK_IOMMU_IOVA_PAGES"
  shows "RkIommuFreeIova d (page_iova b) (of_nat c) =
     (if RK_IOMMU_IOVA_PAGES < b + c \<or> \<not> bm_test (IovaStartBitmap d) b then d
      else d\<lparr>IovaBitmap := fold (\<lambda>k m. bm_clear m k) [b..<b + c] (IovaBitmap d),
             IovaStartBitmap := bm_clear (IovaStartBitmap d) b,
             IovaEndBitmap := bm_clear (IovaEndBitmap d) (b + c)\<rparr>)"
proof -
  have c: "unat (of_nat c :: ULONG) = c" "(of_nat c :: ULONG) \<noteq> 0"
    using assms by (simp_all add: unat_of_nat32 word_unat_eq_iff)
  have "page_iova b AND 0xFFF = 0" using assms(1) by (intro page_iova_aligned) simp
  then show ?thesis
    unfolding RkIommuFreeIova_def Let_def
    using assms c free_guard_iff[of b "of_nat c"] page_iova_bound[OF assms(1)]
    by (simp add: page_of_iova fold_clear_shift unat_page_plus unat_of_nat32)
qed

lemma iova_abs_bounds:
  assumes "iova_abs d A" "A b = Some c"
  shows "0 < c" "b + c \<le> RK_IOMMU_IOVA_PAGES" "b < RK_IOMMU_IOVA_PAGES"
  using assms by (fastforce simp: iova_abs_def disjoint_allocs_def)+

lemma iova_abs_release:
  assumes inv: "iova_abs d A" and A: "A b = Some c"
  shows "iova_abs (d\<lparr>IovaBitmap := fold (\<lambda>k m. bm_clear m k) [b..<b + c] (IovaBitmap d),
                     IovaStartBitmap := bm_clear (IovaStartBitmap d) b,
                     IovaEndBitmap := bm_clear (IovaEndBitmap d) (b + c)\<rparr>) (A(b := None))"
proof -
  have D: "disjoint_allocs A" using inv by (simp add: iova_abs_def)
  have "(\<exists>b' c'. (A(b := None)) b' = Some c' \<and> p = b' + c') \<longleftrightarrow>
      p \<noteq> b + c \<and> (\<exists>b' c'. A b' = Some c' \<and> p = b' + c')" for p
    using end_unique[OF D A] A by (auto split: if_splits) (metis option.inject)+
  then show ?thesis
    using inv D A by (auto simp: iova_abs_def disjoint_allocs_remove covered_remove)
qed

lemma RkIommuFreeIova_abs:
  assumes "iova_abs d A" "A b = Some c"
  shows "iova_abs (RkIommuFreeIova d (page_iova b) (of_nat c)) (A(b := None))"
proof -
  note bnd = iova_abs_bounds[OF assms]
  have "bm_test (IovaStartBitmap d) b" using assms bnd by (auto simp: iova_abs_def)
  with bnd iova_abs_release[OF assms] show ?thesis
    by (simp add: RkIommuFreeIova_page)
qed

lemma RkIommuAllocIova_fail:
  "RkIommuAllocIova d pc = (Inl s, d') \<Longrightarrow> s = STATUS_INSUFFICIENT_RESOURCES \<and> d' = d"
  by (auto simp: RkIommuAllocIova_def split: option.splits)

lemma RkIommuAllocIova_ok:
  assumes "iova_abs d A" "RkIommuAllocIova d pc = (Inr iova, d')"
  shows "\<exists>base. iova = page_iova base \<and> alloc_spec A base (unat pc) \<and>
           iova_abs d' (A(base \<mapsto> unat pc))"
proof -
  obtain base where sc: "scan_words (IovaBitmap d) (unat pc) bitmap_words 0 = Some base"
    and r: "iova = page_iova base"
      "d' = d\<lparr>IovaBitmap := fold (\<lambda>k b. bm_set b k) [base ..< base + unat pc] (IovaBitmap d),
             IovaStartBitmap := bm_set (IovaStartBitmap d) base,
             IovaEndBitmap := bm_set (IovaEndBitmap d) (base + unat pc)\<rparr>"
    using assms(2) by (auto simp: RkIommuAllocIova_def page_iova_def split: option.splits)
  have "0 < unat pc" using sc by (cases "unat pc") (simp_all add: scan_words_flat scan_flat_0)
  from alloc_scan_spec[OF assms(1) sc this] have "alloc_spec A base (unat pc)" .
  with iova_abs_alloc[OF assms(1) this] r show ?thesis by blast
qed

lemma RkIommuAllocIova_top:
  assumes "iova_abs d A" "alloc_spec A base (unat pc)"
  shows "\<exists>top d'. RkIommuAllocIova d pc = (Inr (page_iova top), d') \<and> base \<le> top \<and>
           top < RK_IOMMU_IOVA_PAGES"
proof -
  have "free_window (IovaBitmap d) base (unat pc)"
    using assms by (auto simp: free_window_def iova_abs_def alloc_spec_def)
  with assms(2) obtain top where
    sc: "scan_flat (IovaBitmap d) (unat pc) RK_IOMMU_IOVA_PAGES 0 = Some top" and "base \<le> top"
    using scan_flat_highest[of "IovaBitmap d" base "unat pc" RK_IOMMU_IOVA_PAGES 0 RK_IOMMU_IOVA_PAGES]
    by (auto simp: alloc_spec_def)
  moreover have "top < RK_IOMMU_IOVA_PAGES"
    using scan_flat_Some[OF sc] assms(2) by (auto simp: alloc_spec_def)
  ultimately show ?thesis by (auto simp: RkIommuAllocIova_def scan_words_flat page_iova_def)
qed

section \<open>The initial allocation map\<close>

definition initial_allocs_av1d :: "nat \<rightharpoonup> nat" where
  "initial_allocs_av1d = [0 \<mapsto> 1]"

definition initial_allocs_vdec :: "nat \<rightharpoonup> nat" where
  "initial_allocs_vdec = [0 \<mapsto> 1, kRcbPage \<mapsto> kRcbCount]"

lemma fold_guarded_set:
  "\<forall>p \<in> set ps. p < n \<Longrightarrow>
   fold (\<lambda>p b. if p < n then bm_set b p else b) ps bm = fold (\<lambda>k b. bm_set b k) ps bm"
  by (induction ps arbitrary: bm) auto

lemma reserve_page0_abs:
  assumes "iova_abs d Map.empty"
  shows "iova_abs (reserve_page0 d) initial_allocs_av1d"
proof -
  have "[0..<1] = [0 :: nat]" by simp
  then show ?thesis
    using iova_abs_alloc[OF assms, of 0 1]
    by (simp add: reserve_page0_def initial_allocs_av1d_def alloc_spec_def covered_def)
qed

lemma reserve_rcb_abs:
  assumes "iova_abs d initial_allocs_av1d"
  shows "iova_abs (reserve_rcb d) initial_allocs_vdec"
proof -
  have sp: "alloc_spec initial_allocs_av1d kRcbPage kRcbCount"
    by (auto simp: alloc_spec_def covered_def initial_allocs_av1d_def split: if_splits)
  have "reserve_rcb d = d\<lparr>IovaBitmap := fold (\<lambda>k b. bm_set b k)
           [kRcbPage ..< kRcbPage + kRcbCount] (IovaBitmap d),
         IovaStartBitmap := bm_set (IovaStartBitmap d) kRcbPage,
         IovaEndBitmap := bm_set (IovaEndBitmap d) (kRcbPage + kRcbCount)\<rparr>"
    unfolding reserve_rcb_def Let_def by (subst fold_guarded_set) auto
  with iova_abs_alloc[OF assms sp] show ?thesis
    by (simp add: initial_allocs_vdec_def initial_allocs_av1d_def)
qed

lemma zero_domain_abs:
  "IovaBitmap d = (\<lambda>_. 0) \<Longrightarrow> IovaStartBitmap d = (\<lambda>_. 0) \<Longrightarrow> IovaEndBitmap d = (\<lambda>_. 0) \<Longrightarrow>
   iova_abs d Map.empty"
  by (simp add: iova_abs_def disjoint_allocs_def covered_def)

lemma DomainCreateVdec_abs:
  "RkIommuDomainCreateVdec K h = (Inr d, h') \<Longrightarrow> iova_abs d initial_allocs_vdec"
  by (auto simp: RkIommuDomainCreateVdec_def zero_domain_def
      intro!: reserve_rcb_abs reserve_page0_abs zero_domain_abs
      split: option.splits prod.splits)

lemma DomainCreateAv1d_abs:
  "RkIommuDomainCreateAv1d K h = (Inr d, h') \<Longrightarrow> iova_abs d initial_allocs_av1d"
  by (auto simp: RkIommuDomainCreateAv1d_def zero_domain_def
      intro!: reserve_page0_abs zero_domain_abs
      split: option.splits prod.splits)

section \<open>The allocator interface\<close>

text \<open>
  What MapMdl and UnmapMdl rely on: a successful allocation is a fresh range, a failed one changes
  nothing, and releasing a recorded range removes exactly that range.
\<close>

locale iova_allocator =
  fixes alloc :: "'s \<Rightarrow> ULONG \<Rightarrow> (NTSTATUS + ULONG64) \<times> 's"
    and free :: "'s \<Rightarrow> ULONG64 \<Rightarrow> ULONG \<Rightarrow> 's"
    and len :: "'s \<Rightarrow> nat \<Rightarrow> nat"
    and absr :: "'s \<Rightarrow> (nat \<rightharpoonup> nat) \<Rightarrow> bool"
  assumes alloc_ok: "absr s A \<Longrightarrow> alloc s pc = (Inr iova, s') \<Longrightarrow>
      \<exists>base. iova = page_iova base \<and> alloc_spec A base (unat pc) \<and> absr s' (A(base \<mapsto> unat pc))"
    and alloc_fail: "alloc s pc = (Inl e, s') \<Longrightarrow> s' = s"
    and free_ok: "absr s A \<Longrightarrow> A b = Some c \<Longrightarrow> absr (free s (page_iova b) (of_nat c)) (A(b := None))"
    and len_ok: "absr s A \<Longrightarrow> A b = Some c \<Longrightarrow> len s b = c"
    and absr_disjoint: "absr s A \<Longrightarrow> disjoint_allocs A"
begin

lemma alloc_then_free:
  assumes "absr s A" "alloc s pc = (Inr iova, s')"
  shows "absr (free s' iova pc) A"
proof -
  obtain base where b: "iova = page_iova base" "alloc_spec A base (unat pc)"
    "absr s' (A(base \<mapsto> unat pc))" using alloc_ok[OF assms] by blast
  have "A base = None" using absr_disjoint[OF assms(1)] b(2) by (rule alloc_spec_fresh)
  with free_ok[OF b(3), of base "unat pc"] b(1) show ?thesis
    by (simp add: fun_upd_idem)
qed

lemma alloc_keeps_len:
  assumes "absr s A" "alloc s pc = (Inr iova, s')" "A b = Some c"
  shows "len s' b = c"
proof -
  obtain base where b: "alloc_spec A base (unat pc)" "absr s' (A(base \<mapsto> unat pc))"
    using alloc_ok[OF assms(1,2)] by blast
  have "A base = None" using absr_disjoint[OF assms(1)] b(1) by (rule alloc_spec_fresh)
  with assms(3) have "(A(base \<mapsto> unat pc)) b = Some c" by auto
  with len_ok[OF b(2)] show ?thesis by blast
qed

end

interpretation iova: iova_allocator RkIommuAllocIova RkIommuFreeIova
  "\<lambda>d b. end_scan (IovaEndBitmap d) b (b + 1)" iova_abs
proof (unfold_locales, goal_cases)
  case 1 then show ?case by (rule RkIommuAllocIova_ok)
next
  case 2 then show ?case by (simp add: RkIommuAllocIova_fail)
next
  case 3 then show ?case by (rule RkIommuFreeIova_abs)
next
  case 4 then show ?case by (rule end_scan_exact)
next
  case 5 then show ?case by (simp add: iova_abs_def)
qed

section \<open>Properties\<close>

text \<open>C16: RkIommuAllocIova refines the allocation map. It fails only when no free window of the
  requested length exists, and then changes nothing; otherwise it records a fresh window, the
  highest one, in all three bitmaps.\<close>

theorem alloc_iova_refines:
  assumes "iova_abs d A"
  shows "case RkIommuAllocIova d pc of
      (Inl s, d') \<Rightarrow> s = STATUS_INSUFFICIENT_RESOURCES \<and> d' = d \<and>
                    (\<nexists>base. alloc_spec A base (unat pc))
    | (Inr iova, d') \<Rightarrow>
        (\<exists>base. iova = page_iova base \<and> alloc_spec A base (unat pc) \<and>
           iova_abs d' (A(base \<mapsto> unat pc)) \<and>
           (\<forall>base'. alloc_spec A base' (unat pc) \<longrightarrow> base' \<le> base))"
proof (cases "RkIommuAllocIova d pc")
  case (Pair r d')
  show ?thesis
  proof (cases r)
    case (Inl s)
    have "\<nexists>base. alloc_spec A base (unat pc)"
      using RkIommuAllocIova_top[OF assms, of _ pc] Pair Inl by auto
    with Pair Inl RkIommuAllocIova_fail[of d pc s d'] show ?thesis by simp
  next
    case (Inr iova)
    obtain base where b: "iova = page_iova base" "alloc_spec A base (unat pc)"
      "iova_abs d' (A(base \<mapsto> unat pc))"
      using RkIommuAllocIova_ok[OF assms] Pair Inr by blast
    have "base' \<le> base" if sp: "alloc_spec A base' (unat pc)" for base'
    proof -
      obtain top d'' where t: "RkIommuAllocIova d pc = (Inr (page_iova top), d'')"
        "base' \<le> top" "top < RK_IOMMU_IOVA_PAGES"
        using RkIommuAllocIova_top[OF assms sp] by blast
      have "base < RK_IOMMU_IOVA_PAGES" using b(2) by (auto simp: alloc_spec_def)
      moreover have "page_iova top = page_iova base" using t(1) Pair Inr b(1) by simp
      ultimately have "top = base" using t(3) by (rule page_iova_inj)
      with t(2) show ?thesis by simp
    qed
    with b Pair Inr show ?thesis by auto
  qed
qed

lemma demo_domain_abs: "iova_abs demo_domain initial_allocs_vdec"
  using demo_domain_create DomainCreateVdec_abs by blast

lemma initial_vdec_window:
  assumes "alloc_spec initial_allocs_vdec base 16"
  shows "base + 16 \<le> kRcbPage"
proof (rule ccontr)
  assume high: "\<not> base + 16 \<le> kRcbPage"
  define p where "p = max base kRcbPage"
  have "base + 16 \<le> RK_IOMMU_IOVA_PAGES" using assms by (simp add: alloc_spec_def)
  with high have p: "base \<le> p" "p < base + 16" "kRcbPage \<le> p" "p < kRcbPage + kRcbCount"
    by (auto simp: p_def)
  have "initial_allocs_vdec kRcbPage = Some kRcbCount" by (simp add: initial_allocs_vdec_def)
  with p have "covered initial_allocs_vdec p" unfolding covered_def by blast
  with p assms show False by (auto simp: alloc_spec_def)
qed

theorem alloc_iova_refines_witness:
  "iova_abs demo_domain initial_allocs_vdec \<and>
   (\<exists>d'. RkIommuAllocIova demo_domain 16 = (Inr (page_iova 0xFFEF0), d'))"
proof -
  have sp: "alloc_spec initial_allocs_vdec 0xFFEF0 16"
    by (auto simp: alloc_spec_def covered_def initial_allocs_vdec_def split: if_splits)
  obtain r d' where r: "RkIommuAllocIova demo_domain 16 = (r, d')" by fastforce
  have "\<exists>base. r = Inr (page_iova base) \<and> alloc_spec initial_allocs_vdec base 16 \<and> 0xFFEF0 \<le> base"
    using alloc_iova_refines[OF demo_domain_abs, of 16] r sp by (auto split: sum.splits)
  then have "r = Inr (page_iova 0xFFEF0)" using initial_vdec_window by force
  with r demo_domain_abs show ?thesis by blast
qed

text \<open>RkIommuFreeIova with the recorded length of a live allocation removes exactly that
  allocation from the bitmaps; on any IOVA that starts no live allocation it changes nothing,
  whatever the page count.\<close>

theorem free_iova_refines:
  assumes "iova_abs d A"
  shows "(\<forall>b c. A b = Some c \<longrightarrow>
           iova_abs (RkIommuFreeIova d (page_iova b) (of_nat c)) (A(b := None))) \<and>
         ((\<forall>b. Iova = page_iova b \<longrightarrow> A b = None) \<longrightarrow> RkIommuFreeIova d Iova pc = d)"
proof (intro conjI impI)
  show "\<forall>b c. A b = Some c \<longrightarrow>
      iova_abs (RkIommuFreeIova d (page_iova b) (of_nat c)) (A(b := None))"
    using RkIommuFreeIova_abs[OF assms] by blast
  assume stray: "\<forall>b. Iova = page_iova b \<longrightarrow> A b = None"
  show "RkIommuFreeIova d Iova pc = d"
  proof (cases "Iova \<ge> push_bit 12 0x100000 \<or> Iova AND 0xFFF \<noteq> 0")
    case True
    then show ?thesis by (auto simp: RkIommuFreeIova_def)
  next
    case False
    then obtain b where b: "b < RK_IOMMU_IOVA_PAGES" "Iova = page_iova b"
      using aligned_iova_is_page by blast
    then have "\<not> bm_test (IovaStartBitmap d) b" using assms stray by (auto simp: iova_abs_def)
    with b show ?thesis by (simp add: RkIommuFreeIova_def Let_def page_of_iova unat_of_nat32)
  qed
qed

theorem free_iova_refines_witness:
  "iova_abs (RkIommuFreeIova demo_domain (page_iova kRcbPage) (of_nat kRcbCount))
     (initial_allocs_vdec(kRcbPage := None)) \<and>
   RkIommuFreeIova demo_domain (page_iova 5) 7 = demo_domain"
proof -
  have "initial_allocs_vdec b = None" if eq: "page_iova 5 = page_iova b" for b
  proof -
    have "page_iova 5 \<noteq> page_iova 0" "page_iova 5 \<noteq> page_iova kRcbPage"
      by (simp_all add: page_iova_def)
    with eq have "b \<noteq> 0" "b \<noteq> kRcbPage" by metis+
    then show ?thesis by (simp add: initial_allocs_vdec_def)
  qed
  then have stray: "\<forall>b. page_iova 5 = page_iova b \<longrightarrow> initial_allocs_vdec b = None" by blast
  have "initial_allocs_vdec kRcbPage = Some kRcbCount" by (simp add: initial_allocs_vdec_def)
  with stray free_iova_refines[OF demo_domain_abs, of "page_iova 5" 7] show ?thesis by blast
qed

text \<open>UnmapMdl's end-marker scan recovers the exact page count of every live allocation, also
  when its neighbours are allocated back to back, and still does after further allocations.\<close>

theorem end_scan_recovers_length:
  assumes "iova_abs d A" "A b = Some c"
  shows "end_scan (IovaEndBitmap d) b (b + 1) = c \<and>
    (\<forall>pc. end_scan (IovaEndBitmap (snd (RkIommuAllocIova d pc))) b (b + 1) = c)"
proof (intro conjI allI)
  show "end_scan (IovaEndBitmap d) b (b + 1) = c" using assms by (rule iova.len_ok)
  fix pc
  obtain r d' where r: "RkIommuAllocIova d pc = (r, d')" by fastforce
  show "end_scan (IovaEndBitmap (snd (RkIommuAllocIova d pc))) b (b + 1) = c"
  proof (cases r)
    case (Inl e)
    with r have "d' = d" using iova.alloc_fail by blast
    with r iova.len_ok[OF assms] show ?thesis by simp
  next
    case (Inr x)
    with r iova.alloc_keeps_len[OF assms(1) _ assms(2)] show ?thesis by simp
  qed
qed

theorem end_scan_recovers_length_witness:
  "end_scan (IovaEndBitmap demo_domain) kRcbPage (kRcbPage + 1) = kRcbCount"
  using end_scan_recovers_length[OF demo_domain_abs, of kRcbPage kRcbCount]
  by (simp add: initial_allocs_vdec_def)

section \<open>Memory safety of the release\<close>

lemma free_guard_pages:
  assumes "Iova < push_bit 12 0x100000" "PageCount \<le> 0x100000"
    and "(ucast (drop_bit 12 Iova) :: ULONG) \<le> 0x100000 - PageCount"
  shows "unat (ucast (drop_bit 12 Iova) :: ULONG) + unat PageCount \<le> RK_IOMMU_IOVA_PAGES"
proof -
  have "unat (0x100000 - PageCount) = 0x100000 - unat PageCount"
    using assms(2) by (simp add: unat_sub)
  with assms(2,3) show ?thesis by (simp add: word_le_nat_alt)
qed

lemma fold_clear_offset_words:
  assumes "unat startPage + n \<le> RK_IOMMU_IOVA_PAGES" "bitmap_words \<le> w"
  shows "fold (\<lambda>i b. bm_clear b (unat (startPage + of_nat i :: ULONG))) [0..<n] bm w = bm w"
  using assms(1)
proof (induction n)
  case (Suc n)
  have "unat (startPage + of_nat n) = unat startPage + n"
    using Suc.prems by (simp add: unat_word_ariths unat_of_nat32)
  moreover have "w \<noteq> (unat startPage + n) div 64" using Suc.prems assms(2) by auto
  ultimately show ?case using Suc by (simp add: bm_clear_other_word)
qed simp

text \<open>C37: as long as the caller's page count is at most the \<open>2 ^ 20\<close> pages of the window,
  RkIommuFreeIova never writes a word past the end of any of the three bitmaps, whatever the IOVA.\<close>

theorem free_iova_in_bounds:
  assumes "PageCount \<le> 0x100000" "bitmap_words \<le> w"
  shows "IovaBitmap (RkIommuFreeIova d Iova PageCount) w = IovaBitmap d w \<and>
    IovaStartBitmap (RkIommuFreeIova d Iova PageCount) w = IovaStartBitmap d w \<and>
    (w \<noteq> bitmap_words \<longrightarrow> IovaEndBitmap (RkIommuFreeIova d Iova PageCount) w = IovaEndBitmap d w)"
proof (cases "RkIommuFreeIova d Iova PageCount = d")
  case False
  define sp where "sp = (ucast (drop_bit 12 Iova) :: ULONG)"
  have g: "Iova < push_bit 12 0x100000" "0 < PageCount" "sp \<le> 0x100000 - PageCount"
    using False by (auto simp: RkIommuFreeIova_def Let_def sp_def not_le not_less word_neq_0_conv
        split: if_splits)
  from free_guard_pages[OF g(1) assms(1)] g(3)
  have b: "unat sp + unat PageCount \<le> RK_IOMMU_IOVA_PAGES" by (simp add: sp_def)
  have e: "unat (sp + PageCount) = unat sp + unat PageCount"
    using b by (simp add: unat_word_ariths)
  have "0 < unat PageCount" using g(2) by (simp add: word_less_nat_alt)
  with b assms(2) have ws: "w \<noteq> unat sp div 64" by auto
  from b assms(2) have we: "w \<noteq> bitmap_words \<Longrightarrow> w \<noteq> (unat sp + unat PageCount) div 64" by auto
  show ?thesis
    using fold_clear_offset_words[OF b assms(2)] ws we e
    by (simp add: RkIommuFreeIova_def Let_def bm_clear_other_word flip: sp_def)
qed simp

theorem free_iova_in_bounds_witness:
  "IovaBitmap (RkIommuFreeIova demo_domain (page_iova kRcbPage) 0x100) 16384
     = IovaBitmap demo_domain 16384"
  using free_iova_in_bounds[where PageCount = "0x100" and w = 16384 and d = demo_domain] by simp

text \<open>
  The bound on the page count is needed: the range check \<^verbatim>\<open>startPage > RK_IOMMU_IOVA_PAGES - PageCount\<close>
  wraps for a larger count and accepts it.
\<close>

lemma free_iova_guard_wraps:
  "\<not> (ucast (drop_bit 12 (page_iova kRcbPage)) :: ULONG) > 0x100000 - 0x100001"
  by (simp add: page_iova_def)

end
