(* ===== verification/Page_Table.thy ===== *)
theory Page_Table
  imports Iova_Alloc
begin

text \<open>
  The page tables of \<^verbatim>\<open>driver/shared/iommu/pgtable.c\<close>: RkIommuMapAt with its on-demand second-level
  tables and its rollback, and RkIommuUnmapAt.
\<close>

section \<open>Indices and entries\<close>

text \<open>
  The indices of page \<open>i\<close> of a range. Both loops stop at the first directory index past 1023, so
  \<open>first_pti + i\<close> stays below \<open>2 ^ 21\<close> and natural numbers stand for the ULONG values.
\<close>

definition first_pdi :: "ULONG64 \<Rightarrow> nat" where
  "first_pdi Iova = unat (drop_bit 22 Iova AND 0x3ff)"

definition first_pti :: "ULONG64 \<Rightarrow> nat" where
  "first_pti Iova = unat (drop_bit 12 Iova AND 0x3ff)"

definition pdi_at :: "ULONG64 \<Rightarrow> nat \<Rightarrow> nat" where
  "pdi_at Iova i = first_pdi Iova + (first_pti Iova + i) div RK_IOMMU_PT_ENTRIES"

definition pti_at :: "ULONG64 \<Rightarrow> nat \<Rightarrow> nat" where
  "pti_at Iova i = (first_pti Iova + i) mod RK_IOMMU_PT_ENTRIES"

definition make_dte :: "bool \<Rightarrow> ULONG \<Rightarrow> ULONG" where
  "make_dte av1 phys =
     (if av1 then (phys AND AV1_DTE_PT_ADDR_MASK) OR AV1_DTE_VALID else phys OR RK_DTE_PT_VALID)"

text \<open>Both variants; the AV1D one shifts address bits 39:32 left by 28, as the source does.\<close>

definition make_pte :: "bool \<Rightarrow> ULONG64 \<Rightarrow> ULONG \<Rightarrow> ULONG" where
  "make_pte av1 pagePhys Flags =
     (if av1 then
        (let lo = (ucast (pagePhys AND 0xfffff000) :: ULONG);
             hi8 = (ucast (drop_bit 32 pagePhys AND 0xFF) :: ULONG);
             pte = lo OR push_bit 28 hi8 OR AV1_PTE_VALID
         in if Flags AND RK_PTE_PAGE_WRITABLE \<noteq> 0 then pte OR AV1_PTE_WRITABLE else pte)
      else
        ucast (pagePhys AND 0xfffff000)
        OR (Flags AND (RK_PTE_PAGE_READABLE OR RK_PTE_PAGE_WRITABLE)) OR RK_PTE_PAGE_VALID)"

definition set_pte :: "RKIOMMU_DOMAIN \<Rightarrow> nat \<Rightarrow> nat \<Rightarrow> ULONG \<Rightarrow> RKIOMMU_DOMAIN" where
  "set_pte d pdi pti v =
     d\<lparr>Pts := (Pts d)(pdi := map_option (\<lambda>(va, t). (va, t(pti := v))) (Pts d pdi))\<rparr>"

section \<open>The operations\<close>

fun unmap_loop :: "RKIOMMU_DOMAIN \<Rightarrow> ULONG64 \<Rightarrow> nat \<Rightarrow> nat \<Rightarrow> RKIOMMU_DOMAIN" where
  "unmap_loop d Iova i 0 = d"
| "unmap_loop d Iova i (Suc n) =
     (if RK_IOMMU_PD_ENTRIES \<le> pdi_at Iova i then d
      else if Pts d (pdi_at Iova i) = None then unmap_loop d Iova (i + 1) n
      else unmap_loop (set_pte d (pdi_at Iova i) (pti_at Iova i) 0) Iova (i + 1) n)"

definition RkIommuUnmapAt :: "RKIOMMU_DOMAIN \<Rightarrow> ULONG64 \<Rightarrow> nat \<Rightarrow> RKIOMMU_DOMAIN" where
  "RkIommuUnmapAt d Iova PageCount = unmap_loop d Iova 0 PageCount"

text \<open>
  The second-level table for a directory index: kept when present, else allocated and installed.
  AllocPageBelow4G stores 0 through its out parameter when it fails.
\<close>

definition ensure_pt ::
    "kernel \<Rightarrow> RKIOMMU_DOMAIN \<Rightarrow> nat \<Rightarrow> history \<Rightarrow> bool \<times> RKIOMMU_DOMAIN \<times> history" where
  "ensure_pt K d pdi h =
     (if Pts d pdi \<noteq> None then (True, d, h)
      else case AllocPageBelow4G K h of
             (None, h') \<Rightarrow> (False, d\<lparr>PtPhys := (PtPhys d)(pdi := 0)\<rparr>, h')
           | (Some (pt, phys), h') \<Rightarrow>
               (True, d\<lparr>PtPhys := (PtPhys d)(pdi := phys),
                        Pts := (Pts d)(pdi := Some (pt, \<lambda>_. 0)),
                        Pd := (Pd d)(pdi := make_dte (IsAv1d d) phys)\<rparr>, h'))"

fun map_loop :: "kernel \<Rightarrow> ULONG64 \<Rightarrow> ULONG64 \<Rightarrow> ULONG \<Rightarrow> nat \<Rightarrow> nat \<Rightarrow> RKIOMMU_DOMAIN \<Rightarrow> history \<Rightarrow>
    NTSTATUS \<times> RKIOMMU_DOMAIN \<times> history" where
  "map_loop K Iova PhysAddr Flags i 0 d h = (STATUS_SUCCESS, d, h)"
| "map_loop K Iova PhysAddr Flags i (Suc n) d h =
     (if RK_IOMMU_PD_ENTRIES \<le> pdi_at Iova i
      then (STATUS_INVALID_PARAMETER, if 0 < i then RkIommuUnmapAt d Iova i else d, h)
      else case ensure_pt K d (pdi_at Iova i) h of
             (False, d', h') \<Rightarrow>
               (STATUS_INSUFFICIENT_RESOURCES, if 0 < i then RkIommuUnmapAt d' Iova i else d', h')
           | (True, d', h') \<Rightarrow>
               map_loop K Iova PhysAddr Flags (i + 1) n
                 (set_pte d' (pdi_at Iova i) (pti_at Iova i)
                    (make_pte (IsAv1d d) (PhysAddr + of_nat i * of_nat RK_IOMMU_PAGE_SIZE) Flags))
                 h')"

definition RkIommuMapAt :: "kernel \<Rightarrow> RKIOMMU_DOMAIN \<Rightarrow> ULONG64 \<Rightarrow> ULONG64 \<Rightarrow> nat \<Rightarrow> ULONG \<Rightarrow> history \<Rightarrow>
    NTSTATUS \<times> RKIOMMU_DOMAIN \<times> history" where
  "RkIommuMapAt K d Iova PhysAddr PageCount Flags h = map_loop K Iova PhysAddr Flags 0 PageCount d h"

section \<open>The translation a domain describes\<close>

text \<open>The entry of an IOVA page; 0 (invalid) where there is no second-level table.\<close>

definition pte_at :: "RKIOMMU_DOMAIN \<Rightarrow> nat \<Rightarrow> ULONG" where
  "pte_at d p = (case Pts d (p div RK_IOMMU_PT_ENTRIES) of
                   None \<Rightarrow> 0 | Some (va, t) \<Rightarrow> t (p mod RK_IOMMU_PT_ENTRIES))"

text \<open>The directory the hardware walks agrees with the driver's table of page tables.\<close>

definition pd_consistent :: "RKIOMMU_DOMAIN \<Rightarrow> bool" where
  "pd_consistent d \<longleftrightarrow>
     (\<forall>i. Pd d i = (if Pts d i = None then 0 else make_dte (IsAv1d d) (PtPhys d i)))"

text \<open>The first page of a range, as both loops compute it.\<close>

definition first_page :: "ULONG64 \<Rightarrow> nat" where
  "first_page Iova = first_pdi Iova * RK_IOMMU_PT_ENTRIES + first_pti Iova"

lemma page_index:
  "(first_page Iova + i) div RK_IOMMU_PT_ENTRIES = pdi_at Iova i"
  "(first_page Iova + i) mod RK_IOMMU_PT_ENTRIES = pti_at Iova i"
  by (simp_all add: first_page_def pdi_at_def pti_at_def add.assoc)

lemma pdi_overflow: "RK_IOMMU_PD_ENTRIES \<le> pdi_at Iova i \<longleftrightarrow> RK_IOMMU_IOVA_PAGES \<le> first_page Iova + i"
  by (simp flip: page_index) (auto simp: div_le_mono le_div_geq less_eq_div_iff_mult_less_eq)

lemma first_page_iova:
  assumes "b < RK_IOMMU_IOVA_PAGES" shows "first_page (page_iova b) = b"
proof -
  have m: "unat (x AND 0x3ff) = unat x mod 1024" for x :: ULONG64
  proof -
    have "(0x3ff :: ULONG64) = mask 10" by (simp add: mask_eq_exp_minus_1)
    then show ?thesis by (simp only: flip: take_bit_eq_mask) (simp add: unsigned_take_bit_eq take_bit_eq_mod unat_mod_distrib)
  qed
  have "first_pdi (page_iova b) = (b * 4096 div 2 ^ 22) mod 1024"
    "first_pti (page_iova b) = (b * 4096 div 2 ^ 12) mod 1024"
    using unat_page_iova[of b] assms
    by (simp_all add: first_pdi_def first_pti_def m unat_drop_bit_eq drop_bit_eq_div [where 'a = nat])
  with assms show ?thesis by (simp add: first_page_def)
qed

section \<open>Effect of the single steps\<close>

lemma set_pte_frame [simp]:
  "IsAv1d (set_pte d i j v) = IsAv1d d" "PtPhys (set_pte d i j v) = PtPhys d"
  "Pd (set_pte d i j v) = Pd d" "IovaBitmap (set_pte d i j v) = IovaBitmap d"
  "IovaStartBitmap (set_pte d i j v) = IovaStartBitmap d"
  "IovaEndBitmap (set_pte d i j v) = IovaEndBitmap d"
  by (simp_all add: set_pte_def)

lemma set_pte_Pts_None [simp]: "Pts (set_pte d i j v) k = None \<longleftrightarrow> Pts d k = None"
  by (simp add: set_pte_def)

lemma set_pte_va [simp]: "map_option fst (Pts (set_pte d i j v) k) = map_option fst (Pts d k)"
  by (cases "Pts d i") (auto simp: set_pte_def)

lemma domain_resources_set_pte [simp]: "domain_resources (set_pte d i j v) = domain_resources d"
  by (simp add: domain_resources_def) (simp add: set_pte_def)

lemma pte_at_set_pte:
  assumes "Pts d (q div RK_IOMMU_PT_ENTRIES) \<noteq> None"
  shows "pte_at (set_pte d (q div RK_IOMMU_PT_ENTRIES) (q mod RK_IOMMU_PT_ENTRIES) v) p
    = (if p = q then v else pte_at d p)"
proof -
  have "p = q" if "p div RK_IOMMU_PT_ENTRIES = q div RK_IOMMU_PT_ENTRIES"
    "p mod RK_IOMMU_PT_ENTRIES = q mod RK_IOMMU_PT_ENTRIES"
    using that by (metis div_mult_mod_eq)
  with assms show ?thesis by (auto simp: pte_at_def set_pte_def)
qed

lemma pd_consistent_set_pte [simp]: "pd_consistent (set_pte d i j v) \<longleftrightarrow> pd_consistent d"
  by (simp add: pd_consistent_def)

section \<open>Unmapping\<close>

lemma unmap_loop_frame [simp]:
  "IsAv1d (unmap_loop d Iova i n) = IsAv1d d"
  "IovaBitmap (unmap_loop d Iova i n) = IovaBitmap d"
  "IovaStartBitmap (unmap_loop d Iova i n) = IovaStartBitmap d"
  "IovaEndBitmap (unmap_loop d Iova i n) = IovaEndBitmap d"
  "domain_resources (unmap_loop d Iova i n) = domain_resources d"
  "pd_consistent (unmap_loop d Iova i n) = pd_consistent d"
  by (induction d Iova i n rule: unmap_loop.induct) simp_all

lemma pte_at_unmap_loop:
  "p < RK_IOMMU_IOVA_PAGES \<Longrightarrow>
   pte_at (unmap_loop d Iova i n) p =
     (if first_page Iova + i \<le> p \<and> p < first_page Iova + i + n then 0 else pte_at d p)"
proof (induction d Iova i n rule: unmap_loop.induct)
  case (2 d Iova i n)
  show ?case
  proof (cases "RK_IOMMU_PD_ENTRIES \<le> pdi_at Iova i \<or> Pts d (pdi_at Iova i) = None")
    case True
    moreover have "pte_at d p = 0" if "Pts d (pdi_at Iova i) = None" "p = first_page Iova + i"
      using that by (simp add: pte_at_def page_index)
    moreover have "p = first_page Iova + i \<or> (first_page Iova + i \<le> p \<longleftrightarrow> first_page Iova + (i + 1) \<le> p)"
      by auto
    ultimately show ?thesis using 2 by (auto simp: pdi_overflow)
  next
    case False
    have q: "pte_at (set_pte d (pdi_at Iova i) (pti_at Iova i) 0) p
        = (if p = first_page Iova + i then 0 else pte_at d p)" for p
      using pte_at_set_pte[of d "first_page Iova + i" 0 p] False by (simp add: page_index)
    from False 2 show ?thesis by (auto simp: q)
  qed
qed auto

lemma iova_abs_cong:
  "IovaBitmap d' = IovaBitmap d \<Longrightarrow> IovaStartBitmap d' = IovaStartBitmap d \<Longrightarrow>
   IovaEndBitmap d' = IovaEndBitmap d \<Longrightarrow> iova_abs d' A \<longleftrightarrow> iova_abs d A"
  by (simp add: iova_abs_def)

section \<open>Mapping\<close>

text \<open>
  What a mapping operation may change besides entries: it may install second-level tables, and then
  owns exactly the pages it took from the kernel.
\<close>

definition tables_grow :: "RKIOMMU_DOMAIN \<Rightarrow> history \<Rightarrow> RKIOMMU_DOMAIN \<Rightarrow> history \<Rightarrow> bool" where
  "tables_grow d h d' h' \<longleftrightarrow>
     IsAv1d d' = IsAv1d d \<and> IovaBitmap d' = IovaBitmap d \<and>
     IovaStartBitmap d' = IovaStartBitmap d \<and> IovaEndBitmap d' = IovaEndBitmap d \<and>
     (pd_consistent d \<longrightarrow> pd_consistent d') \<and>
     (\<exists>R. live h' = R + live h \<and> mset (domain_resources d') = R + mset (domain_resources d))"

lemma tables_grow_refl [simp, intro]: "tables_grow d h d h"
  by (simp add: tables_grow_def)

lemma tables_grow_trans:
  "tables_grow d h d' h' \<Longrightarrow> tables_grow d' h' d'' h'' \<Longrightarrow> tables_grow d h d'' h''"
  unfolding tables_grow_def by (auto simp: add.assoc)

lemma tables_grow_set_pte [simp]: "tables_grow d h (set_pte d' i j v) h' \<longleftrightarrow> tables_grow d h d' h'"
  by (simp add: tables_grow_def)

lemma tables_grow_unmap [simp]:
  "tables_grow d h (RkIommuUnmapAt d' Iova n) h' \<longleftrightarrow> tables_grow d h d' h'"
  by (simp add: tables_grow_def RkIommuUnmapAt_def)

lemma map_option_fst_upd:
  "map_option fst ((f(k := Some (a, t))) i) = (if i = k then Some a else map_option fst (f i))"
  by simp

lemma mset_concat_insert:
  assumes "k \<in> set ks" "distinct ks" "f k = []"
  shows "mset (concat (map (\<lambda>i. if i = k then [r] else f i) ks)) = add_mset r (mset (concat (map f ks)))"
  using assms
proof (induction ks)
  case (Cons x ks)
  show ?case
  proof (cases "x = k")
    case True
    then have "map (\<lambda>i. if i = k then [r] else f i) ks = map f ks" using Cons.prems by auto
    with True Cons.prems show ?thesis by (simp only: list.map) simp
  next
    case False
    with Cons show ?thesis by simp
  qed
qed simp

lemma ensure_pt_grows:
  assumes "ensure_pt K d k h = (b, d', h')" "k < RK_IOMMU_PD_ENTRIES"
  shows "tables_grow d h d' h' \<and> (b \<longrightarrow> Pts d' k \<noteq> None) \<and> (\<forall>p. pte_at d' p = pte_at d p)"
proof (cases "Pts d k")
  case (Some a)
  with assms show ?thesis by (auto simp: ensure_pt_def)
next
  case None
  show ?thesis
  proof (cases "k_contig K h RK_IOMMU_PAGE_SIZE")
    case c: None
    with None assms show ?thesis
      by (auto simp: ensure_pt_def AllocPageBelow4G_def tables_grow_def domain_resources_def
          pd_consistent_def pte_at_def)
  next
    case (Some x)
    obtain va ph where x: "x = (va, ph)" by fastforce
    let ?f = "\<lambda>i. opt_res Contig (map_option fst (Pts d i))"
    have "mset (domain_resources d') = add_mset (Contig va) (mset (domain_resources d))"
    proof -
      have l: "map (\<lambda>i. opt_res Contig (map_option fst (Pts d' i))) [0..<RK_IOMMU_PD_ENTRIES]
          = map (\<lambda>i. if i = k then [Contig va] else ?f i) [0..<RK_IOMMU_PD_ENTRIES]"
        using Some x None assms(1) by (auto simp: ensure_pt_def AllocPageBelow4G_def)
      have c: "mset (concat (map (\<lambda>i. if i = k then [Contig va] else ?f i) [0..<RK_IOMMU_PD_ENTRIES]))
          = add_mset (Contig va) (mset (concat (map ?f [0..<RK_IOMMU_PD_ENTRIES])))"
        using None assms(2) by (intro mset_concat_insert) auto
      have f: "PdPtr d' = PdPtr d" "Pta d' = Pta d" "IovaBitmapPtr d' = IovaBitmapPtr d"
        "IovaStartBitmapPtr d' = IovaStartBitmapPtr d" "IovaEndBitmapPtr d' = IovaEndBitmapPtr d"
        "DomainPtr d' = DomainPtr d"
        using Some x None assms(1) by (auto simp: ensure_pt_def AllocPageBelow4G_def)
      show ?thesis unfolding domain_resources_def mset_append l c f by simp
    qed
    with Some x None assms(1) show ?thesis
      by (auto simp: ensure_pt_def AllocPageBelow4G_def tables_grow_def pd_consistent_def pte_at_def
          intro!: exI[of _ "{#Contig va#}"])
  qed
qed

lemma map_loop_grows:
  "map_loop K Iova PhysAddr Flags i n d h = (s, d', h') \<Longrightarrow> tables_grow d h d' h'"
proof (induction K Iova PhysAddr Flags i n d h rule: map_loop.induct)
  case (2 K Iova PhysAddr Flags i n d h)
  show ?case
  proof (cases "RK_IOMMU_PD_ENTRIES \<le> pdi_at Iova i")
    case False
    obtain b d1 h1 where e: "ensure_pt K d (pdi_at Iova i) h = (b, d1, h1)"
      by (metis prod_cases3)
    then have g: "tables_grow d h d1 h1" using ensure_pt_grows False by (simp add: not_le)
    show ?thesis
    proof (cases b)
      case True
      with 2(1)[OF False e[symmetric] _ refl] 2(2) False e have "tables_grow d1 h1 d' h'"
        by (auto simp: tables_grow_def)
      with g show ?thesis by (rule tables_grow_trans)
    qed (use 2 False e g in \<open>auto split: if_splits\<close>)
  qed (use 2 in \<open>auto split: if_splits\<close>)
qed auto

text \<open>The entries after the loop: all new ones on success, none of them otherwise.\<close>

lemma map_loop_ptes:
  assumes "map_loop K Iova PhysAddr Flags i n d h = (s, d', h')" "p < RK_IOMMU_IOVA_PAGES"
  shows "(s = STATUS_SUCCESS \<longrightarrow>
      pte_at d' p =
        (if first_page Iova + i \<le> p \<and> p < first_page Iova + i + n
         then make_pte (IsAv1d d) (PhysAddr + of_nat (p - first_page Iova) * of_nat RK_IOMMU_PAGE_SIZE) Flags
         else pte_at d p)) \<and>
    (s \<noteq> STATUS_SUCCESS \<longrightarrow>
      (first_page Iova \<le> p \<and> p < first_page Iova + i \<longrightarrow> pte_at d' p = 0) \<and>
      (\<not> (first_page Iova \<le> p \<and> p < first_page Iova + i + n) \<longrightarrow> pte_at d' p = pte_at d p) \<and>
      (pte_at d' p = 0 \<or> pte_at d' p = pte_at d p))"
  using assms
proof (induction K Iova PhysAddr Flags i n d h rule: map_loop.induct)
  case (2 K Iova PhysAddr Flags i n d h)
  have unm: "pte_at (if 0 < i then RkIommuUnmapAt e Iova i else e) p =
      (if first_page Iova \<le> p \<and> p < first_page Iova + i then 0 else pte_at e p)" for e
    using 2(3) by (simp add: RkIommuUnmapAt_def pte_at_unmap_loop)
  show ?case
  proof (cases "RK_IOMMU_PD_ENTRIES \<le> pdi_at Iova i")
    case True
    with 2 unm show ?thesis by auto
  next
    case False
    obtain b d1 h1 where e: "ensure_pt K d (pdi_at Iova i) h = (b, d1, h1)"
      by (metis prod_cases3)
    have g: "b \<Longrightarrow> Pts d1 (pdi_at Iova i) \<noteq> None" "pte_at d1 p = pte_at d p" "IsAv1d d1 = IsAv1d d"
      using ensure_pt_grows[OF e] False by (auto simp: tables_grow_def)
    show ?thesis
    proof (cases b)
      case True
      let ?v = "make_pte (IsAv1d d) (PhysAddr + of_nat i * of_nat RK_IOMMU_PAGE_SIZE) Flags"
      have q: "pte_at (set_pte d1 (pdi_at Iova i) (pti_at Iova i) ?v) p
          = (if p = first_page Iova + i then ?v else pte_at d p)"
        using pte_at_set_pte[of d1 "first_page Iova + i" ?v p] g True by (simp add: page_index)
      have l: "map_loop K Iova PhysAddr Flags (i + 1) n
          (set_pte d1 (pdi_at Iova i) (pti_at Iova i) ?v) h1 = (s, d', h')"
        using 2(2) False e True by simp
      show ?thesis
        using 2(1)[OF False e[symmetric] _ refl l 2(3)] True g(3) q by (auto simp: not_less_eq_eq)
    next
      case False
      with 2 e unm g \<open>\<not> RK_IOMMU_PD_ENTRIES \<le> pdi_at Iova i\<close> show ?thesis by auto
    qed
  qed
qed auto

lemma map_loop_succeeds:
  "\<forall>h. k_contig K h RK_IOMMU_PAGE_SIZE \<noteq> None \<Longrightarrow>
   first_page Iova + i + n \<le> RK_IOMMU_IOVA_PAGES \<Longrightarrow>
   fst (map_loop K Iova PhysAddr Flags i n d h) = STATUS_SUCCESS"
proof (induction n arbitrary: i d h)
  case (Suc n)
  have "\<not> RK_IOMMU_PD_ENTRIES \<le> pdi_at Iova i" using Suc.prems(2) by (simp add: pdi_overflow)
  moreover have "\<exists>d' h'. ensure_pt K d (pdi_at Iova i) h = (True, d', h')"
    using Suc.prems(1)[rule_format, of h] by (auto simp: ensure_pt_def AllocPageBelow4G_def)
  ultimately show ?case using Suc.IH[of "i + 1"] Suc.prems by auto
qed simp

lemma map_loop_success_fits:
  "map_loop K Iova PhysAddr Flags i n d h = (STATUS_SUCCESS, d', h') \<Longrightarrow>
   n = 0 \<or> first_page Iova + i + n \<le> RK_IOMMU_IOVA_PAGES"
proof (induction n arbitrary: i d h)
  case (Suc n)
  then have lt: "first_page Iova + i < RK_IOMMU_IOVA_PAGES"
    by (auto simp: pdi_overflow split: if_splits)
  from Suc.prems obtain e h1 where
    "map_loop K Iova PhysAddr Flags (i + 1) n e h1 = (STATUS_SUCCESS, d', h')"
    by (auto split: if_splits prod.splits bool.splits)
  from Suc.IH[OF this] lt show ?case by auto
qed simp

lemma zero_domain_ptes [simp]: "Pts d = (\<lambda>_. None) \<Longrightarrow> pte_at d p = 0"
  by (simp add: pte_at_def)

lemma demo_domain_fields [simp]:
  "Pts demo_domain = (\<lambda>_. None)" "Pd demo_domain = (\<lambda>_. 0)" "IsAv1d demo_domain = False"
  by (simp_all add: demo_domain_def demo_kernel_def RkIommuDomainCreateVdec_def kernel_alloc_defs
      zero_domain_def)

lemma demo_domain_consistent: "pd_consistent demo_domain"
  by (simp add: pd_consistent_def)

text \<open>The bits of the constants and of the two entry formats.\<close>

lemma bit_addr_mask: "bit (0xfffff000 :: int) n \<longleftrightarrow> 12 \<le> n \<and> n < 32"
proof -
  have m: "(0xfffff000 :: int) = mask 32 AND NOT (mask 12)" by (simp add: mask_eq_exp_minus_1)
  show ?thesis unfolding m by (auto simp: bit_simps)
qed

lemma bit_small_consts:
  "bit (2 :: int) n \<longleftrightarrow> n = 1" "bit (4 :: int) n \<longleftrightarrow> n = 2" "bit (6 :: int) n \<longleftrightarrow> n = 1 \<or> n = 2"
proof -
  have c: "(2 :: int) = 2 ^ 1" "(4 :: int) = 2 ^ 2" "(6 :: int) = 2 ^ 1 OR 2 ^ 2" by simp_all
  show "bit (2 :: int) n \<longleftrightarrow> n = 1" by (subst c(1)) (simp only: bit_exp_iff, auto)
  show "bit (4 :: int) n \<longleftrightarrow> n = 2" by (subst c(2)) (simp only: bit_exp_iff, auto)
  show "bit (6 :: int) n \<longleftrightarrow> n = 1 \<or> n = 2"
    by (subst c(3)) (simp only: bit_or_iff bit_exp_iff, auto)
qed

lemma bit_make_pte_vdec:
  "bit (make_pte False pagePhys Flags) n \<longleftrightarrow>
     (12 \<le> n \<and> n < 32 \<and> bit pagePhys n) \<or> ((n = 1 \<or> n = 2) \<and> bit Flags n) \<or> n = 0"
  by (auto simp: make_pte_def bit_or_iff bit_and_iff bit_ucast_iff bit_1_iff bit_addr_mask bit_small_consts)

lemma flag_writable: "Flags AND 4 \<noteq> 0 \<longleftrightarrow> bit (Flags :: ULONG) 2"
  by (auto simp: bit_eq_iff [where 'a = ULONG] bit_and_iff bit_small_consts)

lemma bit_make_pte_av1:
  assumes "pagePhys < 0x100000000"
  shows "bit (make_pte True pagePhys Flags) n \<longleftrightarrow>
     (12 \<le> n \<and> n < 32 \<and> bit pagePhys n) \<or> (n = 2 \<and> bit Flags 2) \<or> n = 0"
proof -
  have "drop_bit 32 pagePhys = 0"
    using assms by (simp add: word_unat_eq_iff unat_drop_bit_eq drop_bit_eq_div [where 'a = nat]
        word_less_nat_alt)
  then show ?thesis
    by (auto simp: make_pte_def Let_def flag_writable bit_or_iff bit_and_iff bit_ucast_iff bit_addr_mask
        bit_1_iff bit_small_consts)
qed

section \<open>Properties\<close>

text \<open>RkIommuMapAt, when it succeeds, installs exactly the entries of the requested range, with
  the physical pages in order, and changes no other entry; the directory stays consistent with the
  second-level tables, the IOVA bitmaps are untouched, and every page taken from the kernel for a new
  table is owned by the domain afterwards.\<close>

theorem map_at_installs:
  assumes "RkIommuMapAt K d (page_iova b) PhysAddr n Flags h = (STATUS_SUCCESS, d', h')"
    and "b < RK_IOMMU_IOVA_PAGES" "pd_consistent d"
  shows "(\<forall>p < RK_IOMMU_IOVA_PAGES.
            pte_at d' p = (if b \<le> p \<and> p < b + n
                           then make_pte (IsAv1d d) (PhysAddr + of_nat (p - b) * 0x1000) Flags
                           else pte_at d p)) \<and>
         pd_consistent d' \<and> (\<forall>A. iova_abs d' A = iova_abs d A) \<and>
         (\<exists>R. live h' = R + live h \<and> mset (domain_resources d') = R + mset (domain_resources d))"
proof (intro conjI)
  show "\<forall>p < RK_IOMMU_IOVA_PAGES.
            pte_at d' p = (if b \<le> p \<and> p < b + n
                           then make_pte (IsAv1d d) (PhysAddr + of_nat (p - b) * 0x1000) Flags
                           else pte_at d p)"
    using map_loop_ptes[OF assms(1)[unfolded RkIommuMapAt_def]] first_page_iova[OF assms(2)] by simp
  have g: "tables_grow d h d' h'"
    using assms(1) unfolding RkIommuMapAt_def by (rule map_loop_grows)
  with assms(3) show "pd_consistent d'"
    "\<exists>R. live h' = R + live h \<and> mset (domain_resources d') = R + mset (domain_resources d)"
    by (simp_all add: tables_grow_def)
  show "\<forall>A. iova_abs d' A = iova_abs d A"
    using g by (intro allI iova_abs_cong) (simp_all add: tables_grow_def)
qed

theorem map_at_installs_witness:
  "\<exists>d' h'. RkIommuMapAt demo_kernel demo_domain (page_iova 0xFFEF0) 0x20000000 16 6 []
            = (STATUS_SUCCESS, d', h') \<and>
          pte_at d' 0xFFEF3 = make_pte False 0x20003000 6 \<and> pte_at d' 0xFFEEF = 0"
proof -
  let ?m = "RkIommuMapAt demo_kernel demo_domain (page_iova 0xFFEF0) 0x20000000 16 6 []"
  have "fst ?m = STATUS_SUCCESS"
    unfolding RkIommuMapAt_def
    by (rule map_loop_succeeds) (simp_all add: demo_kernel_def first_page_iova)
  then obtain d' h' where m: "?m = (STATUS_SUCCESS, d', h')" by (metis prod.collapse)
  from map_at_installs[OF m _ demo_domain_consistent] m show ?thesis by auto
qed

text \<open>When RkIommuMapAt fails on a range that had no mappings, the rollback leaves every entry of
  the address space as it was, whichever page failed and for whichever reason; new second-level
  tables stay owned by the domain.\<close>

theorem map_at_rolls_back:
  assumes "RkIommuMapAt K d (page_iova b) PhysAddr n Flags h = (s, d', h')" "s \<noteq> STATUS_SUCCESS"
    and "b < RK_IOMMU_IOVA_PAGES"
    and "\<forall>p. b \<le> p \<and> p < b + n \<longrightarrow> pte_at d p = 0"
  shows "(\<forall>p < RK_IOMMU_IOVA_PAGES. pte_at d' p = pte_at d p) \<and>
    (\<exists>R. live h' = R + live h \<and> mset (domain_resources d') = R + mset (domain_resources d))"
proof
  have "pte_at d' p = pte_at d p" if p: "p < RK_IOMMU_IOVA_PAGES" for p
  proof -
    have m: "\<not> (b \<le> p \<and> p < b + n) \<Longrightarrow> pte_at d' p = pte_at d p"
      "pte_at d' p = 0 \<or> pte_at d' p = pte_at d p"
      using map_loop_ptes[OF assms(1)[unfolded RkIommuMapAt_def] p] assms(2)
        first_page_iova[OF assms(3)] by simp_all
    with assms(4) show ?thesis by (cases "b \<le> p \<and> p < b + n") auto
  qed
  then show "\<forall>p < RK_IOMMU_IOVA_PAGES. pte_at d' p = pte_at d p" by blast
  have "tables_grow d h d' h'"
    using assms(1) unfolding RkIommuMapAt_def by (rule map_loop_grows)
  then show "\<exists>R. live h' = R + live h \<and> mset (domain_resources d') = R + mset (domain_resources d)"
    by (simp add: tables_grow_def)
qed

theorem map_at_rolls_back_witness:
  "\<exists>s d' h'. RkIommuMapAt demo_kernel demo_domain (page_iova 0xFFFF0) 0 32 2 [] = (s, d', h') \<and>
     s \<noteq> STATUS_SUCCESS \<and> pte_at d' 0xFFFF3 = pte_at demo_domain 0xFFFF3"
proof -
  obtain s d' h' where
    m: "RkIommuMapAt demo_kernel demo_domain (page_iova 0xFFFF0) 0 32 2 [] = (s, d', h')"
    by (metis prod_cases3)
  have "s \<noteq> STATUS_SUCCESS"
  proof
    assume "s = STATUS_SUCCESS"
    with m have l: "map_loop demo_kernel (page_iova 0xFFFF0) 0 2 0 32 demo_domain []
        = (STATUS_SUCCESS, d', h')" by (simp add: RkIommuMapAt_def)
    show False using map_loop_success_fits[OF l] by (simp add: first_page_iova)
  qed
  with map_at_rolls_back[OF m] m show ?thesis by auto
qed

text \<open>Unmapping the range just mapped restores the translation of every page.\<close>

theorem map_unmap_roundtrip:
  assumes "RkIommuMapAt K d (page_iova b) PhysAddr n Flags h = (STATUS_SUCCESS, d', h')"
    and "b < RK_IOMMU_IOVA_PAGES" "\<forall>p. b \<le> p \<and> p < b + n \<longrightarrow> pte_at d p = 0"
    and "p < RK_IOMMU_IOVA_PAGES"
  shows "pte_at (RkIommuUnmapAt d' (page_iova b) n) p = pte_at d p"
  using map_loop_ptes[OF assms(1)[unfolded RkIommuMapAt_def] assms(4)] first_page_iova[OF assms(2)]
    assms(3,4)
  by (auto simp: RkIommuUnmapAt_def pte_at_unmap_loop)

theorem map_unmap_roundtrip_witness:
  "\<exists>d' h'. RkIommuMapAt demo_kernel demo_domain (page_iova 0xFFEF0) 0x20000000 16 6 []
            = (STATUS_SUCCESS, d', h') \<and>
          pte_at (RkIommuUnmapAt d' (page_iova 0xFFEF0) 16) 0xFFEF3 = 0"
proof -
  let ?m = "RkIommuMapAt demo_kernel demo_domain (page_iova 0xFFEF0) 0x20000000 16 6 []"
  have "fst ?m = STATUS_SUCCESS"
    unfolding RkIommuMapAt_def
    by (rule map_loop_succeeds) (simp_all add: demo_kernel_def first_page_iova)
  then obtain d' h' where m: "?m = (STATUS_SUCCESS, d', h')" by (metis prod.collapse)
  from map_unmap_roundtrip[OF m, where p = "0xFFEF3"] m show ?thesis by auto
qed

text \<open>RkIommuMapAt returns a success whenever the range fits the 32-bit window and the kernel
  hands out pages; a range that runs past the window is refused.\<close>

theorem map_at_total:
  assumes "b < RK_IOMMU_IOVA_PAGES" "\<forall>h. k_contig K h RK_IOMMU_PAGE_SIZE \<noteq> None"
  shows "fst (RkIommuMapAt K d (page_iova b) PhysAddr n Flags h) = STATUS_SUCCESS \<longleftrightarrow>
         b + n \<le> RK_IOMMU_IOVA_PAGES"
proof
  assume "fst (RkIommuMapAt K d (page_iova b) PhysAddr n Flags h) = STATUS_SUCCESS"
  then obtain d' h' where "map_loop K (page_iova b) PhysAddr Flags 0 n d h = (STATUS_SUCCESS, d', h')"
    unfolding RkIommuMapAt_def by (metis prod.collapse)
  from map_loop_success_fits[OF this] assms(1) show "b + n \<le> RK_IOMMU_IOVA_PAGES"
    by (auto simp: first_page_iova)
next
  assume "b + n \<le> RK_IOMMU_IOVA_PAGES"
  with assms show "fst (RkIommuMapAt K d (page_iova b) PhysAddr n Flags h) = STATUS_SUCCESS"
    unfolding RkIommuMapAt_def by (intro map_loop_succeeds) (simp_all add: first_page_iova)
qed

theorem map_at_total_witness:
  "fst (RkIommuMapAt demo_kernel demo_domain (page_iova 0xFFFF0) 0 16 2 []) = STATUS_SUCCESS \<and>
   fst (RkIommuMapAt demo_kernel demo_domain (page_iova 0xFFFF0) 0 17 2 []) \<noteq> STATUS_SUCCESS"
proof -
  have "fst (RkIommuMapAt demo_kernel demo_domain (page_iova 0xFFFF0) 0 n 2 []) = STATUS_SUCCESS
      \<longleftrightarrow> 0xFFFF0 + n \<le> RK_IOMMU_IOVA_PAGES" for n
    by (rule map_at_total) (simp_all add: demo_kernel_def)
  then show ?thesis by simp
qed


text \<open>The entry formats. A vdec entry carries the 4 KiB-aligned low 32 bits of the physical
  address, the valid bit, and exactly the readable and writable bits of the flags; an AV1D entry of a
  page below 4 GiB carries its address, the valid bit and the writable bit, and no readable bit.\<close>

theorem make_pte_fields:
  "make_pte False pagePhys Flags AND 0xfffff000 = ucast pagePhys AND 0xfffff000 \<and>
   bit (make_pte False pagePhys Flags) 0 \<and>
   (bit (make_pte False pagePhys Flags) 1 \<longleftrightarrow> bit Flags 1) \<and>
   (bit (make_pte False pagePhys Flags) 2 \<longleftrightarrow> bit Flags 2) \<and>
   (pagePhys < 0x100000000 \<longrightarrow>
      make_pte True pagePhys Flags AND 0xfffff000 = ucast pagePhys AND 0xfffff000 \<and>
      bit (make_pte True pagePhys Flags) 0 \<and> \<not> bit (make_pte True pagePhys Flags) 1 \<and>
      (bit (make_pte True pagePhys Flags) 2 \<longleftrightarrow> bit Flags 2))"
proof (intro conjI impI)
  show "make_pte False pagePhys Flags AND 0xfffff000 = ucast pagePhys AND 0xfffff000"
    by (rule bit_word_eqI) (auto simp: bit_make_pte_vdec bit_and_iff bit_addr_mask bit_ucast_iff)
  assume "pagePhys < 0x100000000"
  note av1 = bit_make_pte_av1[OF this]
  show "make_pte True pagePhys Flags AND 0xfffff000 = ucast pagePhys AND 0xfffff000"
    by (rule bit_word_eqI) (auto simp: av1 bit_and_iff bit_addr_mask bit_ucast_iff)
  show "bit (make_pte True pagePhys Flags) 0" "\<not> bit (make_pte True pagePhys Flags) 1"
    "bit (make_pte True pagePhys Flags) 2 = bit Flags 2"
    by (simp_all add: av1)
qed (simp_all add: bit_make_pte_vdec)

theorem make_pte_fields_witness:
  "make_pte True 0x20003000 6 AND 0xfffff000 = 0x20003000 \<and> bit (make_pte True 0x20003000 6) 2"
  using make_pte_fields[of "0x20003000" 6] by (simp add: bit_numeral_rec)

text \<open>
  The bound of the AV1D case is needed: the shift by 28 drops address bits 39:36 and puts bits 35:32
  over bits 31:28, so distinct physical pages share one entry.
\<close>

lemma av1_pte_high_bits_lost: "make_pte True 0x1000000000 Flags = make_pte True 0 Flags"
  by (simp add: make_pte_def)

end
