(* ===== verification/Iommu_Device.thy ===== *)
theory Iommu_Device
  imports Page_Table
begin

text \<open>
  The vdec IOMMU instance of \<^verbatim>\<open>driver/rkiommu_vdec\<close>: the device context (device.h), the register
  sequences that enable, disable and reset the MMUs (device.c, ifc.c), the mapping interface the
  codec drivers call (ifc.c) and the fault interrupt (fault.c).
\<close>

section \<open>Device context\<close>

text \<open>
  \<^verbatim>\<open>MmioBase\<close> is whether the registers are mapped; register offsets are relative to it. A consumer
  slot holds the consumer's context pointer and its callback, NULL as None.
\<close>

record RKIOMMU_DEVICE =
  Hid :: ULONG
  Uid :: ULONG
  MmioBase :: bool
  MmioLength :: ULONG
  Domain :: "RKIOMMU_DOMAIN option"
  PagingEnabled :: bool
  FlagDisableMmuReset :: bool
  FlagEnableCmdRetry :: bool
  FlagShootdownEntire :: bool
  FaultCb :: "ptr option"
  FaultCbCookie :: "ptr option"
  FaultIova :: ULONG
  FaultIntStatus :: ULONG
  Interrupt :: bool
  IsMaster :: bool
  IsCodecSlave :: bool
  PtAttached :: bool
  PtAttachedEvent :: bool
  Tearing :: bool
  Consumers :: "nat \<Rightarrow> ptr option \<times> ptr option"
  ConsumerCount :: nat
  MasterWatch :: bool
  MasterOpen :: bool
  MasterIfcCtx :: "ptr option"
  MasterUnregisterFn :: bool
  MasterFileObj :: "ptr option"
  ShadowDomain :: "RKIOMMU_DOMAIN option"

section \<open>Registers and commands\<close>

abbreviation RK_MMU_DTE_ADDR :: nat where "RK_MMU_DTE_ADDR \<equiv> 0x00"
abbreviation RK_MMU_STATUS :: nat where "RK_MMU_STATUS \<equiv> 0x04"
abbreviation RK_MMU_COMMAND :: nat where "RK_MMU_COMMAND \<equiv> 0x08"
abbreviation RK_MMU_PAGE_FAULT_ADDR :: nat where "RK_MMU_PAGE_FAULT_ADDR \<equiv> 0x0C"
abbreviation RK_MMU_INT_RAWSTAT :: nat where "RK_MMU_INT_RAWSTAT \<equiv> 0x14"
abbreviation RK_MMU_INT_CLEAR :: nat where "RK_MMU_INT_CLEAR \<equiv> 0x18"
abbreviation RK_MMU_INT_MASK :: nat where "RK_MMU_INT_MASK \<equiv> 0x1C"
abbreviation RK_MMU_INT_STATUS :: nat where "RK_MMU_INT_STATUS \<equiv> 0x20"
abbreviation RK_MMU_AUTO_GATING :: nat where "RK_MMU_AUTO_GATING \<equiv> 0x24"

abbreviation RK_MMU_STATUS_PAGING_ENABLED :: ULONG where "RK_MMU_STATUS_PAGING_ENABLED \<equiv> 1"

abbreviation RK_MMU_CMD_ENABLE_PAGING :: ULONG where "RK_MMU_CMD_ENABLE_PAGING \<equiv> 0"
abbreviation RK_MMU_CMD_DISABLE_PAGING :: ULONG where "RK_MMU_CMD_DISABLE_PAGING \<equiv> 1"
abbreviation RK_MMU_CMD_ENABLE_STALL :: ULONG where "RK_MMU_CMD_ENABLE_STALL \<equiv> 2"
abbreviation RK_MMU_CMD_DISABLE_STALL :: ULONG where "RK_MMU_CMD_DISABLE_STALL \<equiv> 3"
abbreviation RK_MMU_CMD_ZAP_CACHE :: ULONG where "RK_MMU_CMD_ZAP_CACHE \<equiv> 4"
abbreviation RK_MMU_CMD_PAGE_FAULT_DONE :: ULONG where "RK_MMU_CMD_PAGE_FAULT_DONE \<equiv> 5"
abbreviation RK_MMU_CMD_FORCE_RESET :: ULONG where "RK_MMU_CMD_FORCE_RESET \<equiv> 6"
abbreviation RK_MMU_CMD_RESET :: ULONG where "RK_MMU_CMD_RESET \<equiv> 1"
abbreviation RK_MMU_IRQ_PAGE_FAULT :: ULONG where "RK_MMU_IRQ_PAGE_FAULT \<equiv> 1"
abbreviation RK_MMU_IRQ_MASK :: ULONG where "RK_MMU_IRQ_MASK \<equiv> 3"

definition WRITE_REGISTER_ULONG :: "nat \<Rightarrow> ULONG \<Rightarrow> history \<Rightarrow> history" where
  "WRITE_REGISTER_ULONG off v h = WriteReg off v # h"

definition READ_REGISTER_ULONG :: "kernel \<Rightarrow> nat \<Rightarrow> history \<Rightarrow> ULONG \<times> history" where
  "READ_REGISTER_ULONG K off h = (k_read K h off, ReadReg off (k_read K h off) # h)"

text \<open>The number of MMUs behind the register window, and a command to each of them.\<close>

definition n_mmu :: "RKIOMMU_DEVICE \<Rightarrow> nat" where
  "n_mmu dev = (if MmioLength dev \<ge> 0x80 then 2 else 1)"

definition command_all :: "nat \<Rightarrow> ULONG \<Rightarrow> history \<Rightarrow> history" where
  "command_all n cmd h = fold (\<lambda>mi. WRITE_REGISTER_ULONG (mi * 0x40 + RK_MMU_COMMAND) cmd) [0..<n] h"

definition stall_all :: "nat \<Rightarrow> nat \<Rightarrow> history \<Rightarrow> history" where
  "stall_all n us h =
     fold (\<lambda>mi h. StallUs us #
             WRITE_REGISTER_ULONG (mi * 0x40 + RK_MMU_COMMAND) RK_MMU_CMD_ENABLE_STALL h) [0..<n] h"

section \<open>Enabling and disabling paging\<close>

text \<open>The body of the disable loop for one MMU.\<close>

definition disable_one :: "nat \<Rightarrow> history \<Rightarrow> history" where
  "disable_one mi h =
     WRITE_REGISTER_ULONG (mi * 0x40 + RK_MMU_DTE_ADDR) 0
       (StallUs 20 #
          WRITE_REGISTER_ULONG (mi * 0x40 + RK_MMU_COMMAND) RK_MMU_CMD_DISABLE_PAGING
            (WRITE_REGISTER_ULONG (mi * 0x40 + RK_MMU_INT_MASK) 0 h))"

definition RkIommuDisableHw :: "RKIOMMU_DEVICE \<Rightarrow> history \<Rightarrow> NTSTATUS \<times> RKIOMMU_DEVICE \<times> history" where
  "RkIommuDisableHw dev h =
     (if \<not> MmioBase dev then (STATUS_DEVICE_NOT_READY, dev, h)
      else if \<not> PagingEnabled dev then (STATUS_SUCCESS, dev, h)
      else
        (let n = n_mmu dev;
             h1 = stall_all n 20 h;
             h2 = fold disable_one [0..<n] h1
         in (STATUS_SUCCESS, dev\<lparr>PagingEnabled := False\<rparr>,
             command_all n RK_MMU_CMD_DISABLE_STALL h2)))"

text \<open>The configuration of one MMU: steps 1 to 5 of the source.\<close>

definition configure_one :: "kernel \<Rightarrow> RKIOMMU_DEVICE \<Rightarrow> ULONG \<Rightarrow> nat \<Rightarrow> history \<Rightarrow> history" where
  "configure_one K dev pd mi h0 =
     (let base = mi * 0x40;
          h1 = (if \<not> FlagDisableMmuReset dev
                then StallUs 50 # WRITE_REGISTER_ULONG (base + RK_MMU_COMMAND) RK_MMU_CMD_RESET h0
                else h0);
          h2 = WRITE_REGISTER_ULONG (base + RK_MMU_DTE_ADDR) pd h1;
          h3 = WRITE_REGISTER_ULONG (base + RK_MMU_COMMAND) RK_MMU_CMD_ZAP_CACHE h2;
          h4 = WRITE_REGISTER_ULONG (base + RK_MMU_INT_MASK) RK_MMU_IRQ_MASK h3;
          (ag, h5) = READ_REGISTER_ULONG K (base + RK_MMU_AUTO_GATING) h4
      in WRITE_REGISTER_ULONG (base + RK_MMU_AUTO_GATING) (ag OR 0x80000000) h5)"

text \<open>
  Step 6: up to \<open>attempts\<close> rounds of ENABLE\_PAGING on every MMU; the status of MMU 0 decides, that of
  MMU 1 is read and ignored.
\<close>

fun enable_attempts :: "kernel \<Rightarrow> nat \<Rightarrow> nat \<Rightarrow> history \<Rightarrow> bool \<times> history" where
  "enable_attempts K n 0 h = (False, h)"
| "enable_attempts K n (Suc a) h =
     (let h1 = command_all n RK_MMU_CMD_ENABLE_PAGING h;
          (st0, h2) = READ_REGISTER_ULONG K RK_MMU_STATUS h1;
          h3 = (if 1 < n then snd (READ_REGISTER_ULONG K (0x40 + RK_MMU_STATUS) h2) else h2)
      in if st0 AND RK_MMU_STATUS_PAGING_ENABLED \<noteq> 0 then (True, h3)
         else enable_attempts K n a (StallUs 20 # h3))"

definition RkIommuEnableHw ::
    "kernel \<Rightarrow> RKIOMMU_DEVICE \<Rightarrow> history \<Rightarrow> NTSTATUS \<times> RKIOMMU_DEVICE \<times> history" where
  "RkIommuEnableHw K dev h =
     (if \<not> MmioBase dev then (STATUS_DEVICE_NOT_READY, dev, h)
      else case Domain dev of
        None \<Rightarrow> (STATUS_DEVICE_NOT_READY, dev, h)
      | Some d \<Rightarrow>
          if PagingEnabled dev then (STATUS_SUCCESS, dev, h)
          else
            (let n = n_mmu dev;
                 h1 = stall_all n 50 h;
                 h2 = fold (configure_one K dev (PdPhys d)) [0..<n] h1;
                 (ok, h3) = enable_attempts K n (if FlagEnableCmdRetry dev then 3 else 1) h2;
                 h4 = command_all n RK_MMU_CMD_DISABLE_STALL h3
             in if ok then (STATUS_SUCCESS, dev\<lparr>PagingEnabled := True\<rparr>, h4)
                else (STATUS_DEVICE_HARDWARE_ERROR, dev, h4)))"

section \<open>The public interface\<close>

text \<open>
  Every entry point resolves its provider context to a device; None is a context that does not
  resolve (\<^verbatim>\<open>DevFromContext\<close> returning NULL).
\<close>

definition zap_all :: "RKIOMMU_DEVICE \<Rightarrow> history \<Rightarrow> history" where
  "zap_all dev h =
     (if PagingEnabled dev \<and> MmioBase dev then command_all (n_mmu dev) RK_MMU_CMD_ZAP_CACHE h else h)"

record MDL =
  MdlVa :: ULONG64
  MdlByteCount :: ULONG
  MdlPfns :: "nat \<Rightarrow> ULONG64"

definition ADDRESS_AND_SIZE_TO_SPAN_PAGES :: "ULONG64 \<Rightarrow> ULONG \<Rightarrow> nat" where
  "ADDRESS_AND_SIZE_TO_SPAN_PAGES va sz = (unat va mod 4096 + unat sz + 4095) div 4096"

abbreviation RkMppBufferUsageBitstreamInput :: ULONG where "RkMppBufferUsageBitstreamInput \<equiv> 1"

definition pte_flags :: "ULONG \<Rightarrow> ULONG" where
  "pte_flags Role = (if Role \<noteq> RkMppBufferUsageBitstreamInput
                     then RK_PTE_PAGE_READABLE OR RK_PTE_PAGE_WRITABLE else RK_PTE_PAGE_READABLE)"

definition map_rollback :: "RKIOMMU_DOMAIN \<Rightarrow> ULONG64 \<Rightarrow> nat \<Rightarrow> nat \<Rightarrow> RKIOMMU_DOMAIN" where
  "map_rollback d baseIova i pageCount =
     RkIommuFreeIova (if 0 < i then RkIommuUnmapAt d baseIova i else d) baseIova (of_nat pageCount)"

text \<open>The loop over the MDL's page frames; \<open>n\<close> pages are left.\<close>

fun map_pages :: "kernel \<Rightarrow> ULONG64 \<Rightarrow> nat \<Rightarrow> ULONG \<Rightarrow> (nat \<Rightarrow> ULONG64) \<Rightarrow> nat \<Rightarrow> nat \<Rightarrow> ULONG64 \<Rightarrow>
    RKIOMMU_DOMAIN \<Rightarrow> history \<Rightarrow> NTSTATUS \<times> RKIOMMU_DOMAIN \<times> history" where
  "map_pages K baseIova pageCount flags pfns i 0 iova d h = (STATUS_SUCCESS, d, h)"
| "map_pages K baseIova pageCount flags pfns i (Suc n) iova d h =
     (let phys = push_bit 12 (pfns i)
      in if drop_bit 32 phys \<noteq> 0
         then (STATUS_INVALID_PARAMETER, map_rollback d baseIova i pageCount, h)
         else case RkIommuMapAt K d iova phys 1 flags h of
                (status, d', h') \<Rightarrow>
                  if \<not> NT_SUCCESS status then (status, map_rollback d' baseIova i pageCount, h')
                  else map_pages K baseIova pageCount flags pfns (i + 1) n
                         (iova + of_nat RK_IOMMU_PAGE_SIZE) d' h')"

definition RkIommuMapMdl :: "kernel \<Rightarrow> RKIOMMU_DEVICE option \<Rightarrow> MDL \<Rightarrow> ULONG \<Rightarrow> history \<Rightarrow>
    (NTSTATUS + ULONG64) \<times> RKIOMMU_DEVICE option \<times> history" where
  "RkIommuMapMdl K odev Mdl Role h =
     (case odev of
        None \<Rightarrow> (Inl STATUS_DEVICE_NOT_READY, None, h)
      | Some dev \<Rightarrow>
          if \<not> IsMaster dev then (Inl STATUS_NOT_SUPPORTED, odev, h)
          else case Domain dev of
            None \<Rightarrow> (Inl STATUS_DEVICE_NOT_READY, odev, h)
          | Some d \<Rightarrow>
              (let pageCount = ADDRESS_AND_SIZE_TO_SPAN_PAGES (MdlVa Mdl) (MdlByteCount Mdl)
               in if pageCount = 0 then (Inl STATUS_INVALID_PARAMETER, odev, h)
                  else case RkIommuAllocIova d (of_nat pageCount) of
                    (Inl status, d1) \<Rightarrow> (Inl status, Some (dev\<lparr>Domain := Some d1\<rparr>), h)
                  | (Inr baseIova, d1) \<Rightarrow>
                      (case map_pages K baseIova pageCount (pte_flags Role) (MdlPfns Mdl) 0
                              pageCount baseIova d1 h of
                         (status, d2, h2) \<Rightarrow>
                           (let dev2 = dev\<lparr>Domain := Some d2\<rparr>
                            in if \<not> NT_SUCCESS status then (Inl status, Some dev2, h2)
                               else case RkIommuEnableHw K dev2 (zap_all dev2 h2) of
                                 (_, dev3, h3) \<Rightarrow> (Inr baseIova, Some dev3, h3)))))"

definition RkIommuUnmapMdl :: "RKIOMMU_DEVICE option \<Rightarrow> ULONG64 \<Rightarrow> history \<Rightarrow>
    NTSTATUS \<times> RKIOMMU_DEVICE option \<times> history" where
  "RkIommuUnmapMdl odev Iova h =
     (case odev of
        None \<Rightarrow> (STATUS_DEVICE_NOT_READY, None, h)
      | Some dev \<Rightarrow>
          if \<not> IsMaster dev then (STATUS_NOT_SUPPORTED, odev, h)
          else case Domain dev of
            None \<Rightarrow> (STATUS_DEVICE_NOT_READY, odev, h)
          | Some d \<Rightarrow>
              if Iova \<ge> push_bit 12 0x100000 then (STATUS_INVALID_PARAMETER, odev, h)
              else if Iova AND 0xFFF \<noteq> 0 then (STATUS_INVALID_PARAMETER, odev, h)
              else
                (let startPage = unat (drop_bit 12 Iova)
                 in if \<not> bm_test (IovaStartBitmap d) startPage
                    then (STATUS_INVALID_PARAMETER, odev, h)
                    else
                      (let pageCount = end_scan (IovaEndBitmap d) startPage (startPage + 1)
                       in if pageCount = 0 then (STATUS_INVALID_PARAMETER, odev, h)
                          else
                            (let d' = RkIommuFreeIova (RkIommuUnmapAt d Iova pageCount) Iova
                                        (of_nat pageCount);
                                 dev' = dev\<lparr>Domain := Some d'\<rparr>
                             in (STATUS_SUCCESS, Some dev', zap_all dev' h)))))"

definition RkIommuRegisterFaultHandler ::
    "RKIOMMU_DEVICE option \<Rightarrow> ptr option \<Rightarrow> ptr option \<Rightarrow> NTSTATUS \<times> RKIOMMU_DEVICE option" where
  "RkIommuRegisterFaultHandler odev ConsumerContext Callback =
     (case odev of
        None \<Rightarrow> (STATUS_DEVICE_NOT_READY, None)
      | Some dev \<Rightarrow>
          (STATUS_SUCCESS, Some (dev\<lparr>FaultCb := Callback, FaultCbCookie := ConsumerContext\<rparr>)))"

record RKIOMMU_FAULT_SNAPSHOT =
  Status :: ULONG
  IntRawStat :: ULONG
  IntStatus :: ULONG
  PageFaultAddr :: ULONG
  DteAddr :: ULONG
  Status1 :: ULONG
  IntRawStat1 :: ULONG
  IntStatus1 :: ULONG
  PageFaultAddr1 :: ULONG
  DteAddr1 :: ULONG

text \<open>The structure is zeroed first, so the second MMU's fields are 0 on a single-MMU instance.\<close>

definition RkIommuSnapshot :: "kernel \<Rightarrow> RKIOMMU_DEVICE option \<Rightarrow> history \<Rightarrow>
    (NTSTATUS + RKIOMMU_FAULT_SNAPSHOT) \<times> history" where
  "RkIommuSnapshot K odev h0 =
     (case odev of
        None \<Rightarrow> (Inl STATUS_DEVICE_NOT_READY, h0)
      | Some dev \<Rightarrow>
          if \<not> MmioBase dev then (Inl STATUS_DEVICE_NOT_READY, h0)
          else
            (let (st, h1) = READ_REGISTER_ULONG K RK_MMU_STATUS h0;
                 (raw, h2) = READ_REGISTER_ULONG K RK_MMU_INT_RAWSTAT h1;
                 (ist, h3) = READ_REGISTER_ULONG K RK_MMU_INT_STATUS h2;
                 (pfa, h4) = READ_REGISTER_ULONG K RK_MMU_PAGE_FAULT_ADDR h3;
                 (dte, h5) = READ_REGISTER_ULONG K RK_MMU_DTE_ADDR h4;
                 out = \<lparr>Status = st, IntRawStat = raw, IntStatus = ist, PageFaultAddr = pfa,
                        DteAddr = dte, Status1 = 0, IntRawStat1 = 0, IntStatus1 = 0,
                        PageFaultAddr1 = 0, DteAddr1 = 0\<rparr>
             in if MmioLength dev \<ge> 0x80
                then
                  (let (st1, h6) = READ_REGISTER_ULONG K (0x40 + RK_MMU_STATUS) h5;
                       (raw1, h7) = READ_REGISTER_ULONG K (0x40 + RK_MMU_INT_RAWSTAT) h6;
                       (ist1, h8) = READ_REGISTER_ULONG K (0x40 + RK_MMU_INT_STATUS) h7;
                       (pfa1, h9) = READ_REGISTER_ULONG K (0x40 + RK_MMU_PAGE_FAULT_ADDR) h8;
                       (dte1, h10) = READ_REGISTER_ULONG K (0x40 + RK_MMU_DTE_ADDR) h9
                   in (Inr (out\<lparr>Status1 := st1, IntRawStat1 := raw1, IntStatus1 := ist1,
                                PageFaultAddr1 := pfa1, DteAddr1 := dte1\<rparr>), h10))
                else (Inr out, h5)))"

definition RkIommuFlushTlb :: "RKIOMMU_DEVICE option \<Rightarrow> history \<Rightarrow> NTSTATUS \<times> history" where
  "RkIommuFlushTlb odev h =
     (case odev of
        None \<Rightarrow> (STATUS_DEVICE_NOT_READY, h)
      | Some dev \<Rightarrow>
          if \<not> MmioBase dev then (STATUS_DEVICE_NOT_READY, h)
          else if \<not> PagingEnabled dev then (STATUS_SUCCESS, h)
          else (STATUS_SUCCESS, command_all (n_mmu dev) RK_MMU_CMD_ZAP_CACHE h))"

definition RkIommuReattach :: "kernel \<Rightarrow> RKIOMMU_DEVICE option \<Rightarrow> history \<Rightarrow>
    NTSTATUS \<times> RKIOMMU_DEVICE option \<times> history" where
  "RkIommuReattach K odev h =
     (case odev of
        None \<Rightarrow> (STATUS_DEVICE_NOT_READY, None, h)
      | Some dev \<Rightarrow>
          if \<not> MmioBase dev then (STATUS_DEVICE_NOT_READY, odev, h)
          else if Domain dev = None then (STATUS_DEVICE_NOT_READY, odev, h)
          else case RkIommuDisableHw dev h of
                 (s, dev1, h1) \<Rightarrow>
                   if \<not> NT_SUCCESS s then (s, Some dev1, h1)
                   else case RkIommuEnableHw K dev1 h1 of
                          (s', dev2, h2) \<Rightarrow>
                            if \<not> NT_SUCCESS s' then (s', Some dev2, h2)
                            else (STATUS_SUCCESS, Some dev2, h2))"

text \<open>The DTE\_ADDR poll of one MMU: True when it read 0 within the remaining polls.\<close>

fun reset_poll :: "kernel \<Rightarrow> nat \<Rightarrow> nat \<Rightarrow> history \<Rightarrow> bool \<times> history" where
  "reset_poll K mi 0 h = (False, h)"
| "reset_poll K mi (Suc n) h =
     (let (dte, h1) = READ_REGISTER_ULONG K (mi * 0x40 + RK_MMU_DTE_ADDR) h
      in if dte = 0 then (True, h1) else reset_poll K mi n (DelayMs 1 # h1))"

definition reset_poll_all :: "kernel \<Rightarrow> nat \<Rightarrow> history \<Rightarrow> NTSTATUS \<times> history" where
  "reset_poll_all K n h =
     fold (\<lambda>mi (rs, h). case reset_poll K mi 100 h of
                          (ok, h') \<Rightarrow> (if ok then rs else STATUS_TIMEOUT, h'))
       [0..<n] (STATUS_SUCCESS, h)"

text \<open>
  STATUS\_TIMEOUT passes NT\_SUCCESS, so PagingEnabled is cleared on both outcomes of the poll.
\<close>

definition RkIommuForceReset :: "kernel \<Rightarrow> RKIOMMU_DEVICE option \<Rightarrow> history \<Rightarrow>
    NTSTATUS \<times> RKIOMMU_DEVICE option \<times> history" where
  "RkIommuForceReset K odev h =
     (case odev of
        None \<Rightarrow> (STATUS_DEVICE_NOT_READY, None, h)
      | Some dev \<Rightarrow>
          if \<not> MmioBase dev then (STATUS_DEVICE_NOT_READY, odev, h)
          else
            (let n = n_mmu dev;
                 h1 = stall_all n 20 h;
                 h2 = command_all n RK_MMU_CMD_FORCE_RESET h1;
                 (rs, h3) = reset_poll_all K n h2;
                 h4 = command_all n RK_MMU_CMD_DISABLE_STALL h3
             in (rs, Some (if NT_SUCCESS rs then dev\<lparr>PagingEnabled := False\<rparr> else dev), h4)))"

definition RkIommuEnable :: "kernel \<Rightarrow> RKIOMMU_DEVICE option \<Rightarrow> history \<Rightarrow>
    NTSTATUS \<times> RKIOMMU_DEVICE option \<times> history" where
  "RkIommuEnable K odev h =
     (case odev of
        None \<Rightarrow> (STATUS_DEVICE_NOT_READY, None, h)
      | Some dev \<Rightarrow> (case RkIommuEnableHw K dev h of (s, dev', h') \<Rightarrow> (s, Some dev', h')))"

definition RkIommuDisable :: "RKIOMMU_DEVICE option \<Rightarrow> history \<Rightarrow>
    NTSTATUS \<times> RKIOMMU_DEVICE option \<times> history" where
  "RkIommuDisable odev h =
     (case odev of
        None \<Rightarrow> (STATUS_DEVICE_NOT_READY, None, h)
      | Some dev \<Rightarrow> (case RkIommuDisableHw dev h of (s, dev', h') \<Rightarrow> (s, Some dev', h')))"

definition RkIommuIfcIsPtAttached :: "RKIOMMU_DEVICE option \<Rightarrow> bool" where
  "RkIommuIfcIsPtAttached odev = (case odev of None \<Rightarrow> False | Some dev \<Rightarrow> PtAttached dev)"

text \<open>\<open>wait\<close> is what KeWaitForSingleObject returns on the attach event for the given timeout.\<close>

definition RkIommuIfcWaitPtAttached ::
    "(ULONG \<Rightarrow> NTSTATUS) \<Rightarrow> RKIOMMU_DEVICE option \<Rightarrow> ULONG \<Rightarrow> NTSTATUS" where
  "RkIommuIfcWaitPtAttached wait odev TimeoutMs =
     (case odev of
        None \<Rightarrow> STATUS_DEVICE_NOT_READY
      | Some dev \<Rightarrow>
          if \<not> IsCodecSlave dev then STATUS_SUCCESS
          else if PtAttached dev then STATUS_SUCCESS
          else wait TimeoutMs)"

section \<open>Fault interrupt\<close>

text \<open>
  One pass of the ISR loop over an MMU. The accumulator holds \<open>handled\<close>, the merged status and the
  fault address.
\<close>

definition isr_one :: "kernel \<Rightarrow> nat \<Rightarrow> (bool \<times> ULONG \<times> ULONG) \<times> history \<Rightarrow>
    (bool \<times> ULONG \<times> ULONG) \<times> history" where
  "isr_one K mi acc =
     (case acc of ((handled, merged, iova), h0) \<Rightarrow>
       (let base = mi * 0x40;
            (intStatus, h1) = READ_REGISTER_ULONG K (base + RK_MMU_INT_STATUS) h0
        in if intStatus AND RK_MMU_IRQ_MASK = 0 then ((handled, merged, iova), h1)
           else
             (let (iova', h2) = (if mi = 0 \<or> iova = 0
                                 then READ_REGISTER_ULONG K (base + RK_MMU_PAGE_FAULT_ADDR) h1
                                 else (iova, h1));
                  h3 = (if intStatus AND RK_MMU_IRQ_PAGE_FAULT \<noteq> 0
                        then WRITE_REGISTER_ULONG (base + RK_MMU_COMMAND) RK_MMU_CMD_PAGE_FAULT_DONE
                               (WRITE_REGISTER_ULONG (base + RK_MMU_COMMAND) RK_MMU_CMD_ZAP_CACHE h2)
                        else h2);
                  h4 = WRITE_REGISTER_ULONG (base + RK_MMU_INT_CLEAR)
                         (intStatus AND RK_MMU_IRQ_MASK) h3
              in ((True, merged OR intStatus, iova'), h4))))"

text \<open>The first component is whether the interrupt was ours, in which case the DPC is queued.\<close>

definition RkIommuEvtIsr :: "kernel \<Rightarrow> RKIOMMU_DEVICE \<Rightarrow> history \<Rightarrow> bool \<times> RKIOMMU_DEVICE \<times> history" where
  "RkIommuEvtIsr K ctx h =
     (if \<not> MmioBase ctx then (False, ctx, h)
      else case fold (isr_one K) [0..<n_mmu ctx] ((False, 0, 0), h) of
             ((handled, merged, iova), h') \<Rightarrow>
               if \<not> handled then (False, ctx, h')
               else (True, ctx\<lparr>FaultIntStatus := merged, FaultIova := iova\<rparr>, h'))"

text \<open>The callback the DPC makes, with its cookie, fault address and status; None without a handler.\<close>

definition RkIommuEvtDpc :: "RKIOMMU_DEVICE \<Rightarrow> (ptr \<times> ptr option \<times> ULONG64 \<times> ULONG) option" where
  "RkIommuEvtDpc ctx =
     (case FaultCb ctx of
        None \<Rightarrow> None
      | Some cb \<Rightarrow> Some (cb, FaultCbCookie ctx, ucast (FaultIova ctx), FaultIntStatus ctx))"

section \<open>The writes one MMU sees\<close>

text \<open>The register writes that land in the window of MMU \<open>mi\<close>, with offsets relative to it.\<close>

definition mmu_writes :: "nat \<Rightarrow> history \<Rightarrow> (nat \<times> ULONG) list" where
  "mmu_writes mi h =
     map (\<lambda>(off, v). (off mod 0x40, v)) (filter (\<lambda>(off, v). off div 0x40 = mi) (reg_writes h))"

lemma mmu_writes_simps [simp]:
  "mmu_writes mi (StallUs n # h) = mmu_writes mi h"
  "mmu_writes mi (DelayMs n # h) = mmu_writes mi h"
  "mmu_writes mi (ReadReg off v # h) = mmu_writes mi h"
  "mmu_writes mi (snd (READ_REGISTER_ULONG K off h)) = mmu_writes mi h"
  by (simp_all add: mmu_writes_def READ_REGISTER_ULONG_def)

lemma mmu_writes_write:
  "r < 0x40 \<Longrightarrow> mmu_writes mi (WRITE_REGISTER_ULONG (m * 0x40 + r) v h)
     = mmu_writes mi h @ (if m = mi then [(r, v)] else [])"
  by (auto simp: mmu_writes_def WRITE_REGISTER_ULONG_def)

lemma mmu_writes_write0:
  "mmu_writes mi (WRITE_REGISTER_ULONG (m * 0x40) v h)
     = mmu_writes mi h @ (if m = mi then [(RK_MMU_DTE_ADDR, v)] else [])"
  using mmu_writes_write[of 0 mi m v h] by simp

text \<open>A loop whose pass \<open>m\<close> writes only to MMU \<open>m\<close> shows MMU \<open>mi\<close> the writes of one pass.\<close>

lemma mmu_writes_fold:
  assumes "\<And>m h. mmu_writes mi (f m h) = mmu_writes mi h @ (if m = mi then w h else [])"
  shows "\<exists>h0. mmu_writes mi (fold f [0..<n] h) = mmu_writes mi h @ (if mi < n then w h0 else [])"
proof (induction n)
  case (Suc n)
  then show ?case using assms by (cases "mi = n") auto
qed simp

lemma mmu_writes_command_all [simp]:
  "mmu_writes mi (command_all n c h) = mmu_writes mi h @ (if mi < n then [(RK_MMU_COMMAND, c)] else [])"
  unfolding command_all_def
  using mmu_writes_fold[where w = "\<lambda>_. [(RK_MMU_COMMAND, c)]"] mmu_writes_write[of RK_MMU_COMMAND]
  by auto

lemma mmu_writes_stall_all [simp]:
  "mmu_writes mi (stall_all n us h)
     = mmu_writes mi h @ (if mi < n then [(RK_MMU_COMMAND, RK_MMU_CMD_ENABLE_STALL)] else [])"
  unfolding stall_all_def
  using mmu_writes_fold[where w = "\<lambda>_. [(RK_MMU_COMMAND, RK_MMU_CMD_ENABLE_STALL)]" and
      f = "\<lambda>m h. StallUs us # WRITE_REGISTER_ULONG (m * 0x40 + RK_MMU_COMMAND) RK_MMU_CMD_ENABLE_STALL h"]
    mmu_writes_write[of RK_MMU_COMMAND] by auto

lemma mmu_writes_disable [simp]:
  "mmu_writes mi (fold disable_one [0..<n] h) = mmu_writes mi h @
     (if mi < n then [(RK_MMU_INT_MASK, 0), (RK_MMU_COMMAND, RK_MMU_CMD_DISABLE_PAGING),
                      (RK_MMU_DTE_ADDR, 0)] else [])"
  using mmu_writes_fold[where f = disable_one and
      w = "\<lambda>_. [(RK_MMU_INT_MASK, 0), (RK_MMU_COMMAND, RK_MMU_CMD_DISABLE_PAGING), (RK_MMU_DTE_ADDR, 0)]"]
  by (auto simp: disable_one_def mmu_writes_write mmu_writes_write0)

text \<open>The writes of the configuration steps, for a directory base and the value read from AUTO\_GATING.\<close>

definition configure_writes :: "bool \<Rightarrow> ULONG \<Rightarrow> ULONG \<Rightarrow> (nat \<times> ULONG) list" where
  "configure_writes noreset pd ag =
     (if noreset then [] else [(RK_MMU_COMMAND, RK_MMU_CMD_RESET)]) @
     [(RK_MMU_DTE_ADDR, pd), (RK_MMU_COMMAND, RK_MMU_CMD_ZAP_CACHE),
      (RK_MMU_INT_MASK, RK_MMU_IRQ_MASK), (RK_MMU_AUTO_GATING, ag OR 0x80000000)]"

lemma mmu_writes_configure_one:
  "\<exists>ag. mmu_writes mi (configure_one K dev pd m h)
      = mmu_writes mi h @ (if m = mi then configure_writes (FlagDisableMmuReset dev) pd ag else [])"
  by (auto simp: configure_one_def configure_writes_def Let_def READ_REGISTER_ULONG_def
      mmu_writes_write mmu_writes_write0)

lemma mmu_writes_configure:
  "\<exists>ag. mmu_writes mi (fold (configure_one K dev pd) [0..<n] h) = mmu_writes mi h @
     (if mi < n then configure_writes (FlagDisableMmuReset dev) pd ag else [])"
proof (induction n)
  case (Suc n)
  then obtain ag where ag: "mmu_writes mi (fold (configure_one K dev pd) [0..<n] h) = mmu_writes mi h @
     (if mi < n then configure_writes (FlagDisableMmuReset dev) pd ag else [])" by blast
  obtain ag' where "mmu_writes mi (configure_one K dev pd n (fold (configure_one K dev pd) [0..<n] h))
      = mmu_writes mi (fold (configure_one K dev pd) [0..<n] h) @
        (if n = mi then configure_writes (FlagDisableMmuReset dev) pd ag' else [])"
    using mmu_writes_configure_one by blast
  with ag show ?case by (cases "mi = n") auto
qed simp

lemma enable_attempts_writes:
  assumes "enable_attempts K n a h = (ok, h')" "0 < a" "mi < n"
  shows "\<exists>k. 1 \<le> k \<and> k \<le> a \<and>
    mmu_writes mi h' = mmu_writes mi h @ replicate k (RK_MMU_COMMAND, RK_MMU_CMD_ENABLE_PAGING)"
  using assms
proof (induction K n a h rule: enable_attempts.induct)
  case (2 K n a h)
  let ?h1 = "command_all n RK_MMU_CMD_ENABLE_PAGING h"
  obtain st0 h2 where r: "READ_REGISTER_ULONG K RK_MMU_STATUS ?h1 = (st0, h2)" by fastforce
  define h3 where "h3 = (if 1 < n then snd (READ_REGISTER_ULONG K (0x40 + RK_MMU_STATUS) h2) else h2)"
  have h3: "mmu_writes mi h3 = mmu_writes mi h @ [(RK_MMU_COMMAND, RK_MMU_CMD_ENABLE_PAGING)]"
    using r 2(4) unfolding h3_def by (auto simp: READ_REGISTER_ULONG_def)
  show ?case
  proof (cases "st0 AND RK_MMU_STATUS_PAGING_ENABLED \<noteq> 0 \<or> a = 0")
    case True
    then have "mmu_writes mi h' = mmu_writes mi h3"
      using 2(2) r by (auto simp: h3_def Let_def split: if_splits)
    with h3 show ?thesis by (intro exI[of _ 1]) simp
  next
    case False
    have "enable_attempts K n a (StallUs 20 # h3) = (ok, h')"
      using 2(2) r False by (simp add: h3_def Let_def)
    from 2(1)[OF refl refl r[symmetric] h3_def _ this] False 2(4) obtain k where
      "1 \<le> k \<and> k \<le> a" "mmu_writes mi h' = mmu_writes mi (StallUs 20 # h3) @
        replicate k (RK_MMU_COMMAND, RK_MMU_CMD_ENABLE_PAGING)" by auto
    with h3 show ?thesis by (intro exI[of _ "Suc k"]) auto
  qed
qed simp

lemma reset_poll_writes: "reset_poll K m n h = (ok, h') \<Longrightarrow> mmu_writes mi h' = mmu_writes mi h"
  by (induction K m n h rule: reset_poll.induct)
    (auto simp: READ_REGISTER_ULONG_def Let_def split: if_splits prod.splits)

lemma reset_poll_all_inv:
  "reset_poll_all K n h = (rs, h') \<Longrightarrow>
   mmu_writes mi h' = mmu_writes mi h \<and> (rs = STATUS_SUCCESS \<or> rs = STATUS_TIMEOUT)"
  unfolding reset_poll_all_def
proof (induction n arbitrary: rs h')
  case (Suc n)
  obtain rs1 h1 where f: "fold (\<lambda>mi (rs, h). case reset_poll K mi 100 h of
      (ok, h') \<Rightarrow> (if ok then rs else STATUS_TIMEOUT, h')) [0..<n] (STATUS_SUCCESS, h) = (rs1, h1)"
    by fastforce
  obtain ok h2 where p: "reset_poll K n 100 h1 = (ok, h2)" by fastforce
  from Suc.prems f p have "h' = h2" "rs = (if ok then rs1 else STATUS_TIMEOUT)" by auto
  with Suc.IH[OF f] reset_poll_writes[OF p, of mi] show ?case by simp
qed simp

text \<open>What the ISR writes to an MMU whose interrupt status reads \<open>st\<close>.\<close>

definition isr_writes :: "ULONG \<Rightarrow> (nat \<times> ULONG) list" where
  "isr_writes st =
     (if st AND RK_MMU_IRQ_MASK = 0 then []
      else (if st AND RK_MMU_IRQ_PAGE_FAULT \<noteq> 0
            then [(RK_MMU_COMMAND, RK_MMU_CMD_ZAP_CACHE), (RK_MMU_COMMAND, RK_MMU_CMD_PAGE_FAULT_DONE)]
            else []) @ [(RK_MMU_INT_CLEAR, st AND RK_MMU_IRQ_MASK)])"

lemma isr_one_step:
  assumes "isr_one K m ((hd0, mg, iv), h) = ((hd1, mg', iv'), h')"
  shows "\<exists>st new. h' = new @ h \<and> ReadReg (m * 0x40 + RK_MMU_INT_STATUS) st \<in> set new \<and>
      hd1 = (hd0 \<or> st AND RK_MMU_IRQ_MASK \<noteq> 0) \<and>
      (\<forall>mi. mmu_writes mi h' = mmu_writes mi h @ (if m = mi then isr_writes st else []))"
proof -
  define st where "st = k_read K h (m * 0x40 + RK_MMU_INT_STATUS)"
  define h1 where "h1 = ReadReg (m * 0x40 + RK_MMU_INT_STATUS) st # h"
  define h2 where "h2 = (if m = 0 \<or> iv = 0
    then snd (READ_REGISTER_ULONG K (m * 0x40 + RK_MMU_PAGE_FAULT_ADDR) h1) else h1)"
  have h2: "\<exists>new. h2 = new @ h1" "mmu_writes mi h2 = mmu_writes mi h" for mi
    by (auto simp: h2_def h1_def READ_REGISTER_ULONG_def)
  show ?thesis
  proof (cases "st AND RK_MMU_IRQ_MASK = 0")
    case True
    with assms have "h' = h1" "hd1 = hd0"
      by (simp_all add: isr_one_def READ_REGISTER_ULONG_def h1_def Let_def flip: st_def)
    with True show ?thesis
      by (intro exI[of _ st] exI[of _ "[ReadReg (m * 0x40 + RK_MMU_INT_STATUS) st]"])
        (simp add: h1_def isr_writes_def)
  next
    case False
    define h3 where "h3 = (if st AND RK_MMU_IRQ_PAGE_FAULT \<noteq> 0
      then WRITE_REGISTER_ULONG (m * 0x40 + RK_MMU_COMMAND) RK_MMU_CMD_PAGE_FAULT_DONE
             (WRITE_REGISTER_ULONG (m * 0x40 + RK_MMU_COMMAND) RK_MMU_CMD_ZAP_CACHE h2)
      else h2)"
    have r: "h' = WRITE_REGISTER_ULONG (m * 0x40 + RK_MMU_INT_CLEAR) (st AND RK_MMU_IRQ_MASK) h3" "hd1"
      using assms False
      by (auto simp: isr_one_def READ_REGISTER_ULONG_def h1_def h2_def h3_def Let_def
          simp flip: st_def split: prod.splits if_splits)
    have "\<exists>new. h3 = new @ h1"
      using h2(1) by (auto simp: h3_def WRITE_REGISTER_ULONG_def)
    then obtain new where "h3 = new @ h1" ..
    then have "h' = (WriteReg (m * 0x40 + RK_MMU_INT_CLEAR) (st AND RK_MMU_IRQ_MASK) # new @
        [ReadReg (m * 0x40 + RK_MMU_INT_STATUS) st]) @ h"
      using r(1) by (simp add: h1_def WRITE_REGISTER_ULONG_def)
    moreover have "mmu_writes mi h' = mmu_writes mi h @ (if m = mi then isr_writes st else [])" for mi
      using False by (auto simp: r(1) h3_def h2(2) mmu_writes_write isr_writes_def)
    ultimately show ?thesis using False r(2) by (intro exI[of _ st] exI conjI) auto
  qed
qed

lemma isr_fold:
  assumes "fold (isr_one K) [0..<n] ((False, 0, 0), h) = ((hd1, mg, iv), h')"
  shows "\<exists>new st. h' = new @ h \<and>
      (\<forall>mi < n. ReadReg (mi * 0x40 + RK_MMU_INT_STATUS) (st mi) \<in> set new \<and>
                mmu_writes mi h' = mmu_writes mi h @ isr_writes (st mi)) \<and>
      (\<forall>mi \<ge> n. mmu_writes mi h' = mmu_writes mi h) \<and>
      (hd1 \<longleftrightarrow> (\<exists>mi < n. st mi AND RK_MMU_IRQ_MASK \<noteq> 0))"
  using assms
proof (induction n arbitrary: hd1 mg iv h')
  case (Suc n)
  obtain hd0 mg0 iv0 h0 where f: "fold (isr_one K) [0..<n] ((False, 0, 0), h) = ((hd0, mg0, iv0), h0)"
    by (metis prod_cases3 surj_pair)
  from Suc.prems f have one: "isr_one K n ((hd0, mg0, iv0), h0) = ((hd1, mg, iv), h')" by simp
  obtain new st where n: "h0 = new @ h"
    "\<forall>mi < n. ReadReg (mi * 0x40 + RK_MMU_INT_STATUS) (st mi) \<in> set new \<and>
              mmu_writes mi h0 = mmu_writes mi h @ isr_writes (st mi)"
    "\<forall>mi \<ge> n. mmu_writes mi h0 = mmu_writes mi h"
    "hd0 \<longleftrightarrow> (\<exists>mi < n. st mi AND RK_MMU_IRQ_MASK \<noteq> 0)"
    using Suc.IH[OF f] by blast
  obtain st1 new1 where o: "h' = new1 @ h0" "ReadReg (n * 0x40 + RK_MMU_INT_STATUS) st1 \<in> set new1"
    "hd1 = (hd0 \<or> st1 AND RK_MMU_IRQ_MASK \<noteq> 0)"
    "\<forall>mi. mmu_writes mi h' = mmu_writes mi h0 @ (if n = mi then isr_writes st1 else [])"
    using isr_one_step[OF one] by blast
  show ?case
    using n o by (intro exI[of _ "new1 @ new"] exI[of _ "st(n := st1)"]) (auto simp: less_Suc_eq)
qed simp

text \<open>A vdec master with two MMUs, used in examples.\<close>

definition demo_dev :: RKIOMMU_DEVICE where
  "demo_dev = \<lparr>Hid = 0x3570, Uid = 9, MmioBase = True, MmioLength = 0x80, Domain = Some demo_domain,
     PagingEnabled = False, FlagDisableMmuReset = True, FlagEnableCmdRetry = True,
     FlagShootdownEntire = True, FaultCb = None, FaultCbCookie = None, FaultIova = 0,
     FaultIntStatus = 0, Interrupt = True, IsMaster = True, IsCodecSlave = False, PtAttached = True,
     PtAttachedEvent = True, Tearing = False, Consumers = (\<lambda>_. (None, None)), ConsumerCount = 0,
     MasterWatch = False, MasterOpen = False, MasterIfcCtx = None, MasterUnregisterFn = False,
     MasterFileObj = None, ShadowDomain = None\<rparr>"

lemma enable_hw_bracket:
  assumes "MmioBase dev" "Domain dev = Some d" "\<not> PagingEnabled dev" "mi < n_mmu dev"
    and "RkIommuEnableHw K dev h = (s, dev', h')"
  shows "(\<exists>k ag. 1 \<le> k \<and> k \<le> (if FlagEnableCmdRetry dev then 3 else 1) \<and>
      mmu_writes mi h' = mmu_writes mi h @ [(RK_MMU_COMMAND, RK_MMU_CMD_ENABLE_STALL)] @
        configure_writes (FlagDisableMmuReset dev) (PdPhys d) ag @
        replicate k (RK_MMU_COMMAND, RK_MMU_CMD_ENABLE_PAGING) @
        [(RK_MMU_COMMAND, RK_MMU_CMD_DISABLE_STALL)]) \<and>
    (PagingEnabled dev' \<longleftrightarrow> s = STATUS_SUCCESS) \<and>
    (s = STATUS_SUCCESS \<or> s = STATUS_DEVICE_HARDWARE_ERROR)"
proof -
  let ?n = "n_mmu dev" and ?a = "if FlagEnableCmdRetry dev then 3 else 1 :: nat"
  define h2 where "h2 = fold (configure_one K dev (PdPhys d)) [0..<?n] (stall_all ?n 50 h)"
  obtain ok h3 where e: "enable_attempts K ?n ?a h2 = (ok, h3)" by fastforce
  have r: "h' = command_all ?n RK_MMU_CMD_DISABLE_STALL h3"
    "s = (if ok then STATUS_SUCCESS else STATUS_DEVICE_HARDWARE_ERROR)"
    "PagingEnabled dev' = ok"
    using assms(1,2,3,5) e by (auto simp: RkIommuEnableHw_def Let_def h2_def split: if_splits)
  obtain ag where "mmu_writes mi h2 = mmu_writes mi h @ [(RK_MMU_COMMAND, RK_MMU_CMD_ENABLE_STALL)]
      @ configure_writes (FlagDisableMmuReset dev) (PdPhys d) ag"
    using mmu_writes_configure[of mi K dev "PdPhys d" ?n "stall_all ?n 50 h"] assms(4)
    by (auto simp: h2_def)
  moreover have "0 < ?a" by simp
  from enable_attempts_writes[OF e this assms(4)] obtain k where "1 \<le> k" "k \<le> ?a"
    "mmu_writes mi h3 = mmu_writes mi h2 @ replicate k (RK_MMU_COMMAND, RK_MMU_CMD_ENABLE_PAGING)"
    by blast
  ultimately show ?thesis using r assms(4) by auto
qed

section \<open>Properties\<close>

text \<open>An enable that runs shows every MMU the whole bracket: stall, the optional reset, the
  directory base, a TLB zap, the interrupt mask and the gating workaround, then between one and three
  ENABLE\_PAGING commands, and the un-stall last, on success and on failure alike. The status is a
  success exactly when the device is marked as paging.\<close>

theorem enable_hw_sequence:
  assumes "MmioBase dev" "Domain dev = Some d" "\<not> PagingEnabled dev" "mi < n_mmu dev"
    and "RkIommuEnableHw K dev h = (s, dev', h')"
  shows "(\<exists>k ag. 1 \<le> k \<and> k \<le> (if FlagEnableCmdRetry dev then 3 else 1) \<and>
      mmu_writes mi h' = mmu_writes mi h @ [(RK_MMU_COMMAND, RK_MMU_CMD_ENABLE_STALL)] @
        configure_writes (FlagDisableMmuReset dev) (PdPhys d) ag @
        replicate k (RK_MMU_COMMAND, RK_MMU_CMD_ENABLE_PAGING) @
        [(RK_MMU_COMMAND, RK_MMU_CMD_DISABLE_STALL)]) \<and>
    (PagingEnabled dev' \<longleftrightarrow> s = STATUS_SUCCESS) \<and>
    (s = STATUS_SUCCESS \<or> s = STATUS_DEVICE_HARDWARE_ERROR)"
  using assms by (rule enable_hw_bracket)

theorem enable_hw_sequence_witness:
  "\<exists>s dev' h' k ag. RkIommuEnableHw demo_kernel demo_dev [] = (s, dev', h') \<and> 1 \<le> k \<and>
     mmu_writes 1 h' = (RK_MMU_COMMAND, RK_MMU_CMD_ENABLE_STALL) #
        configure_writes True (PdPhys demo_domain) ag @
        replicate k (RK_MMU_COMMAND, RK_MMU_CMD_ENABLE_PAGING) @
        [(RK_MMU_COMMAND, RK_MMU_CMD_DISABLE_STALL)]"
proof -
  obtain s dev' h' where e: "RkIommuEnableHw demo_kernel demo_dev [] = (s, dev', h')"
    by (metis prod_cases3)
  have "mmu_writes 1 [] = []" by (simp add: mmu_writes_def)
  with enable_hw_sequence[OF _ _ _ _ e, of demo_domain 1] e show ?thesis
    by (auto simp: demo_dev_def n_mmu_def)
qed

text \<open>A disable that runs shows every MMU the bracket stall, interrupts masked, DISABLE\_PAGING,
  directory base zeroed, un-stall; and a reattach of a paging device is that followed by the whole
  enable bracket, so no MMU keeps its directory base across it.\<close>

theorem reattach_sequence:
  assumes "MmioBase dev" "Domain dev = Some d" "PagingEnabled dev" "mi < n_mmu dev"
    and "RkIommuReattach K (Some dev) h = (s, dev', h')"
  shows "\<exists>k ag. 1 \<le> k \<and> k \<le> (if FlagEnableCmdRetry dev then 3 else 1) \<and>
      mmu_writes mi h' = mmu_writes mi h @
        [(RK_MMU_COMMAND, RK_MMU_CMD_ENABLE_STALL), (RK_MMU_INT_MASK, 0),
         (RK_MMU_COMMAND, RK_MMU_CMD_DISABLE_PAGING), (RK_MMU_DTE_ADDR, 0),
         (RK_MMU_COMMAND, RK_MMU_CMD_DISABLE_STALL), (RK_MMU_COMMAND, RK_MMU_CMD_ENABLE_STALL)] @
        configure_writes (FlagDisableMmuReset dev) (PdPhys d) ag @
        replicate k (RK_MMU_COMMAND, RK_MMU_CMD_ENABLE_PAGING) @
        [(RK_MMU_COMMAND, RK_MMU_CMD_DISABLE_STALL)]"
proof -
  obtain h1 where dis: "RkIommuDisableHw dev h = (STATUS_SUCCESS, dev\<lparr>PagingEnabled := False\<rparr>, h1)"
    and w: "mmu_writes mi h1 = mmu_writes mi h @
        [(RK_MMU_COMMAND, RK_MMU_CMD_ENABLE_STALL), (RK_MMU_INT_MASK, 0),
         (RK_MMU_COMMAND, RK_MMU_CMD_DISABLE_PAGING), (RK_MMU_DTE_ADDR, 0),
         (RK_MMU_COMMAND, RK_MMU_CMD_DISABLE_STALL)]"
    using assms(1,3,4) by (simp add: RkIommuDisableHw_def Let_def)
  obtain s2 dev2 where en: "RkIommuEnableHw K (dev\<lparr>PagingEnabled := False\<rparr>) h1 = (s2, dev2, h')"
    using assms(1,2,5) dis by (auto simp: RkIommuReattach_def split: prod.splits if_splits)
  from enable_hw_bracket[OF _ _ _ _ en, of d mi] assms(1,2,4) w show ?thesis
    by (auto simp: n_mmu_def)
qed

theorem reattach_sequence_witness:
  "\<exists>s dev' h'. RkIommuReattach demo_kernel (Some (demo_dev\<lparr>PagingEnabled := True\<rparr>)) [] = (s, dev', h') \<and>
     (RK_MMU_DTE_ADDR, 0) \<in> set (mmu_writes 1 h') \<and>
     (RK_MMU_DTE_ADDR, PdPhys demo_domain) \<in> set (mmu_writes 1 h')"
proof -
  obtain s dev' h' where
    e: "RkIommuReattach demo_kernel (Some (demo_dev\<lparr>PagingEnabled := True\<rparr>)) [] = (s, dev', h')"
    by (metis prod_cases3)
  from reattach_sequence[OF _ _ _ _ e, of demo_domain 1] e show ?thesis
    by (auto simp: demo_dev_def n_mmu_def configure_writes_def)
qed

text \<open>RkIommuForceReset always leaves every MMU un-stalled after exactly one FORCE\_RESET, and
  always clears PagingEnabled, on a poll that times out too, because STATUS\_TIMEOUT passes NT\_SUCCESS;
  the following enable therefore never short-circuits.\<close>

theorem force_reset_sequence:
  assumes "MmioBase dev" "mi < n_mmu dev" "RkIommuForceReset K (Some dev) h = (s, odev, h')"
  shows "mmu_writes mi h' = mmu_writes mi h @
        [(RK_MMU_COMMAND, RK_MMU_CMD_ENABLE_STALL), (RK_MMU_COMMAND, RK_MMU_CMD_FORCE_RESET),
         (RK_MMU_COMMAND, RK_MMU_CMD_DISABLE_STALL)] \<and>
      odev = Some (dev\<lparr>PagingEnabled := False\<rparr>) \<and> (s = STATUS_SUCCESS \<or> s = STATUS_TIMEOUT)"
proof -
  obtain rs h3 where p: "reset_poll_all K (n_mmu dev)
      (command_all (n_mmu dev) RK_MMU_CMD_FORCE_RESET (stall_all (n_mmu dev) 20 h)) = (rs, h3)"
    by fastforce
  from reset_poll_all_inv[OF p, of mi] assms p show ?thesis
    by (auto simp: RkIommuForceReset_def Let_def)
qed

theorem force_reset_sequence_witness:
  "\<exists>s h'. RkIommuForceReset demo_kernel (Some (demo_dev\<lparr>PagingEnabled := True\<rparr>)) []
            = (s, Some (demo_dev\<lparr>PagingEnabled := True, PagingEnabled := False\<rparr>), h')"
proof -
  obtain s d h' where
    e: "RkIommuForceReset demo_kernel (Some (demo_dev\<lparr>PagingEnabled := True\<rparr>)) [] = (s, d, h')"
    by (metis prod_cases3)
  from force_reset_sequence[OF _ _ e, of 0] e show ?thesis by (simp add: demo_dev_def n_mmu_def)
qed

text \<open>The fault ISR reads the interrupt status of every MMU behind the window and acknowledges each
  one that raised a bit, with exactly the bits it raised and, for a page fault, after ZAP\_CACHE and
  PAGE\_FAULT\_DONE; it claims the interrupt exactly when some MMU raised one, and writes nothing
  otherwise.\<close>

theorem isr_acknowledges:
  assumes "MmioBase ctx" "RkIommuEvtIsr K ctx h = (claimed, ctx', h')"
  shows "\<exists>new st. h' = new @ h \<and>
      (\<forall>mi < n_mmu ctx. ReadReg (mi * 0x40 + RK_MMU_INT_STATUS) (st mi) \<in> set new \<and>
                mmu_writes mi h' = mmu_writes mi h @ isr_writes (st mi)) \<and>
      (claimed \<longleftrightarrow> (\<exists>mi < n_mmu ctx. st mi AND RK_MMU_IRQ_MASK \<noteq> 0))"
proof -
  obtain c mg iv h1 where f: "fold (isr_one K) [0..<n_mmu ctx] ((False, 0, 0), h) = ((c, mg, iv), h1)"
    by (metis prod_cases3 surj_pair)
  with assms have "h1 = h'" "c = claimed" by (auto simp: RkIommuEvtIsr_def split: if_splits)
  with isr_fold[OF f] show ?thesis by blast
qed

theorem isr_acknowledges_witness:
  "\<exists>claimed ctx' h' st. RkIommuEvtIsr demo_kernel demo_dev [] = (claimed, ctx', h') \<and>
     mmu_writes 1 h' = mmu_writes 1 [] @ isr_writes st"
proof -
  obtain c x h' where e: "RkIommuEvtIsr demo_kernel demo_dev [] = (c, x, h')" by (metis prod_cases3)
  have "MmioBase demo_dev" "n_mmu demo_dev = 2" by (simp_all add: demo_dev_def n_mmu_def)
  with isr_acknowledges[OF _ e] e show ?thesis by fastforce
qed

end
