(* ===== verification/Iommu_Map.thy ===== *)
theory Iommu_Map
  imports Iommu_Device
begin

text \<open>
  Correctness of the mapping interface of \<^verbatim>\<open>driver/rkiommu_vdec/ifc.c\<close>: MapMdl and UnmapMdl keep the
  allocation map, the page tables and the directory in step.
\<close>

section \<open>The domain invariant\<close>

text \<open>
  The bitmaps describe the allocation map, the directory matches the tables, and every installed
  entry lies inside a live allocation.
\<close>

definition dom_inv :: "RKIOMMU_DOMAIN \<Rightarrow> (nat \<rightharpoonup> nat) \<Rightarrow> bool" where
  "dom_inv d A \<longleftrightarrow>
     iova_abs d A \<and> pd_consistent d \<and> (\<forall>p < RK_IOMMU_IOVA_PAGES. pte_at d p \<noteq> 0 \<longrightarrow> covered A p)"

lemma RkIommuFreeIova_frame [simp]:
  "pte_at (RkIommuFreeIova d Iova pc) = pte_at d"
  "pd_consistent (RkIommuFreeIova d Iova pc) = pd_consistent d"
  "IsAv1d (RkIommuFreeIova d Iova pc) = IsAv1d d"
  "domain_resources (RkIommuFreeIova d Iova pc) = domain_resources d"
  by (auto simp: RkIommuFreeIova_def pte_at_def pd_consistent_def domain_resources_def Let_def fun_eq_iff)

lemma RkIommuAllocIova_frame:
  assumes "RkIommuAllocIova d pc = (r, d')"
  shows "pte_at d' = pte_at d" "pd_consistent d' = pd_consistent d" "IsAv1d d' = IsAv1d d"
    "domain_resources d' = domain_resources d"
proof -
  have "\<exists>b s e. d' = d\<lparr>IovaBitmap := b, IovaStartBitmap := s, IovaEndBitmap := e\<rparr>"
    using assms by (cases d) (auto simp: RkIommuAllocIova_def split: option.splits)
  then obtain b s e where "d' = d\<lparr>IovaBitmap := b, IovaStartBitmap := s, IovaEndBitmap := e\<rparr>" by blast
  then show "pte_at d' = pte_at d" "pd_consistent d' = pd_consistent d" "IsAv1d d' = IsAv1d d"
    "domain_resources d' = domain_resources d"
    by (simp_all add: pte_at_def pd_consistent_def domain_resources_def fun_eq_iff)
qed

lemma RkIommuUnmapAt_frame [simp]:
  "pd_consistent (RkIommuUnmapAt d Iova n) = pd_consistent d"
  "domain_resources (RkIommuUnmapAt d Iova n) = domain_resources d"
  "iova_abs (RkIommuUnmapAt d Iova n) A = iova_abs d A"
  by (simp_all add: RkIommuUnmapAt_def iova_abs_def)

lemma pte_at_unmap:
  assumes "b < RK_IOMMU_IOVA_PAGES" "p < RK_IOMMU_IOVA_PAGES"
  shows "pte_at (RkIommuUnmapAt d (page_iova b) n) p = (if b \<le> p \<and> p < b + n then 0 else pte_at d p)"
  using assms by (simp add: RkIommuUnmapAt_def pte_at_unmap_loop first_page_iova)

section \<open>The page loop\<close>

lemma map_one_page:
  assumes "RkIommuMapAt K d (page_iova b) phys 1 flags h = (s, d', h')" "b < RK_IOMMU_IOVA_PAGES"
  shows "tables_grow d h d' h'"
    "s = STATUS_SUCCESS \<Longrightarrow> p < RK_IOMMU_IOVA_PAGES \<Longrightarrow>
       pte_at d' p = (if p = b then make_pte (IsAv1d d) phys flags else pte_at d p)"
    "s \<noteq> STATUS_SUCCESS \<Longrightarrow> p < RK_IOMMU_IOVA_PAGES \<Longrightarrow> pte_at d b = 0 \<Longrightarrow> pte_at d' p = pte_at d p"
    "s = STATUS_SUCCESS \<or> \<not> NT_SUCCESS s"
proof -
  note l = assms(1)[unfolded RkIommuMapAt_def]
  show "tables_grow d h d' h'" using l by (rule map_loop_grows)
  show "s = STATUS_SUCCESS \<Longrightarrow> p < RK_IOMMU_IOVA_PAGES \<Longrightarrow>
       pte_at d' p = (if p = b then make_pte (IsAv1d d) phys flags else pte_at d p)"
    using map_loop_ptes[OF l, of p] first_page_iova[OF assms(2)] by (auto simp: less_Suc_eq_le)
  show "s \<noteq> STATUS_SUCCESS \<Longrightarrow> p < RK_IOMMU_IOVA_PAGES \<Longrightarrow> pte_at d b = 0 \<Longrightarrow> pte_at d' p = pte_at d p"
    using map_loop_ptes[OF l, of p] first_page_iova[OF assms(2)]
    by (cases "p = b") (auto simp: less_Suc_eq_le)
  show "s = STATUS_SUCCESS \<or> \<not> NT_SUCCESS s"
    using l by (auto split: if_splits prod.splits bool.splits)
qed

lemma page_iova_next: "page_iova b + of_nat RK_IOMMU_PAGE_SIZE = page_iova (Suc b)"
  by (simp add: page_iova_def algebra_simps)

text \<open>
  What the loop over the frames establishes from page \<open>i\<close> on, when the remaining pages of the range
  have no entries yet: all entries on success, a rolled-back domain otherwise.
\<close>

lemma map_pages_spec:
  assumes "map_pages K (page_iova base) pc flags pfns i n (page_iova (base + i)) d h = (s, d', h')"
    and "i + n = pc" "base + pc \<le> RK_IOMMU_IOVA_PAGES" "0 < pc"
    and "\<forall>p. base + i \<le> p \<and> p < base + pc \<longrightarrow> pte_at d p = 0"
  shows "(s = STATUS_SUCCESS \<and> tables_grow d h d' h' \<and>
          (\<forall>p < RK_IOMMU_IOVA_PAGES. pte_at d' p =
             (if base + i \<le> p \<and> p < base + pc
              then make_pte (IsAv1d d) (push_bit 12 (pfns (p - base))) flags else pte_at d p))) \<or>
     (\<not> NT_SUCCESS s \<and>
          (\<exists>e. d' = RkIommuFreeIova e (page_iova base) (of_nat pc) \<and> tables_grow d h e h' \<and>
             (\<forall>p < RK_IOMMU_IOVA_PAGES. pte_at e p =
                (if base \<le> p \<and> p < base + i then 0 else pte_at d p))))"
  using assms
proof (induction n arbitrary: i d h)
  case (Suc n)
  have lt: "base < RK_IOMMU_IOVA_PAGES" "base + i < RK_IOMMU_IOVA_PAGES" using Suc.prems by auto
  let ?e = "\<lambda>x. if 0 < i then RkIommuUnmapAt x (page_iova base) i else x"
  have roll: "tables_grow d h x hx \<Longrightarrow> (\<forall>p < RK_IOMMU_IOVA_PAGES. pte_at x p = pte_at d p) \<Longrightarrow>
      tables_grow d h (?e x) hx \<and> (\<forall>p < RK_IOMMU_IOVA_PAGES. pte_at (?e x) p =
                (if base \<le> p \<and> p < base + i then 0 else pte_at d p))" for x hx
    using pte_at_unmap[OF lt(1)] by auto
  show ?case
  proof (cases "drop_bit 32 (push_bit 12 (pfns i)) \<noteq> 0")
    case True
    then have "s = STATUS_INVALID_PARAMETER" "d' = map_rollback d (page_iova base) i pc" "h' = h"
      using Suc.prems(1) by simp_all
    with roll[OF tables_grow_refl] show ?thesis by (auto simp: map_rollback_def)
  next
    case False
    obtain s1 d1 h1 where m:
      "RkIommuMapAt K d (page_iova (base + i)) (push_bit 12 (pfns i)) 1 flags h = (s1, d1, h1)"
      by (metis prod_cases3)
    note one = map_one_page[OF m lt(2)]
    show ?thesis
    proof (cases "s1 = STATUS_SUCCESS")
      case True
      have l: "map_pages K (page_iova base) pc flags pfns (Suc i) n (page_iova (base + Suc i)) d1 h1
          = (s, d', h')"
        using Suc.prems(1) False m True page_iova_next[of "base + i"] by simp
      have z: "\<forall>p. base + Suc i \<le> p \<and> p < base + pc \<longrightarrow> pte_at d1 p = 0"
        using one(2)[OF True] Suc.prems(3,5) by (auto simp: Suc_le_eq)
      have av: "IsAv1d d1 = IsAv1d d" using one(1) by (simp add: tables_grow_def)
      from Suc.IH[OF l _ Suc.prems(3,4) z] Suc.prems(2) consider
        (ok) "s = STATUS_SUCCESS" "tables_grow d1 h1 d' h'" "\<forall>p < RK_IOMMU_IOVA_PAGES. pte_at d' p =
             (if base + Suc i \<le> p \<and> p < base + pc
              then make_pte (IsAv1d d1) (push_bit 12 (pfns (p - base))) flags else pte_at d1 p)"
      | (bad) e where "\<not> NT_SUCCESS s" "d' = RkIommuFreeIova e (page_iova base) (of_nat pc)"
          "tables_grow d1 h1 e h'" "\<forall>p < RK_IOMMU_IOVA_PAGES. pte_at e p =
                (if base \<le> p \<and> p < base + Suc i then 0 else pte_at d1 p)"
        by auto
      then show ?thesis
      proof cases
        case ok
        with one(1) one(2)[OF True] av Suc.prems(2) show ?thesis
          by (auto intro: tables_grow_trans simp: Suc_le_eq)
      next
        case bad
        have "pte_at e p = (if base \<le> p \<and> p < base + i then 0 else pte_at d p)"
          if "p < RK_IOMMU_IOVA_PAGES" for p
          using bad(4) that one(2)[OF True that] Suc.prems(2,5) by (auto simp: less_Suc_eq)
        with bad one(1) show ?thesis by (blast intro: tables_grow_trans)
      qed
    next
      case bad: False
      with one(4) Suc.prems(1) False m have r: "s = s1" "\<not> NT_SUCCESS s"
        "d' = map_rollback d1 (page_iova base) i pc" "h' = h1" by auto
      have "pte_at d (base + i) = 0" using Suc.prems(2,5) by simp
      with one(3)[OF bad] roll[OF one(1)] r show ?thesis by (auto simp: map_rollback_def)
    qed
  qed
qed auto

section \<open>MapMdl and UnmapMdl\<close>

lemma span_pages_bound: "ADDRESS_AND_SIZE_TO_SPAN_PAGES va sz \<le> 2 ^ 20 + 1"
proof -
  have "unat sz < 2 ^ 32" using unsigned_less[of sz] by simp
  moreover have "unat va mod 4096 < 4096" by simp
  ultimately show ?thesis unfolding ADDRESS_AND_SIZE_TO_SPAN_PAGES_def by simp
qed

lemma unat_span_pages:
  "unat (of_nat (ADDRESS_AND_SIZE_TO_SPAN_PAGES va sz) :: ULONG) = ADDRESS_AND_SIZE_TO_SPAN_PAGES va sz"
  using span_pages_bound[of va sz] by (simp add: unsigned_of_nat take_bit_nat_eq_self)

lemma EnableHw_Domain:
  "RkIommuEnableHw K dev h = (s, dev', h') \<Longrightarrow> dev' = dev \<or> dev' = dev\<lparr>PagingEnabled := True\<rparr>"
  by (auto simp: RkIommuEnableHw_def Let_def split: if_splits option.splits prod.splits)

lemma dom_inv_fresh_empty:
  "dom_inv d A \<Longrightarrow> alloc_spec A base pc \<Longrightarrow> \<forall>p. base \<le> p \<and> p < base + pc \<longrightarrow> pte_at d p = 0"
  unfolding dom_inv_def alloc_spec_def by (meson less_le_trans)

lemma iova_abs_grow: "tables_grow d h d' h' \<Longrightarrow> iova_abs d' A = iova_abs d A"
  by (rule iova_abs_cong) (simp_all add: tables_grow_def)

text \<open>A successful page loop over a fresh range extends the allocation map by it.\<close>

lemma dom_inv_mapped:
  assumes "dom_inv d A" "alloc_spec A base pc" "iova_abs d1 (A(base \<mapsto> pc))"
    and "pte_at d1 = pte_at d" "pd_consistent d1" "tables_grow d1 h d2 h2"
    and "\<forall>p < RK_IOMMU_IOVA_PAGES. pte_at d2 p = (if base \<le> p \<and> p < base + pc then f p else pte_at d1 p)"
  shows "dom_inv d2 (A(base \<mapsto> pc))"
proof -
  have "A base = None" using assms(1,2) by (auto simp: dom_inv_def iova_abs_def alloc_spec_fresh)
  moreover have "iova_abs d2 (A(base \<mapsto> pc))" using assms(3,6) by (simp add: iova_abs_grow)
  ultimately show ?thesis
    using assms(1,4,5,6,7) by (simp add: dom_inv_def covered_update tables_grow_def)
qed

text \<open>A rolled-back page loop over a fresh range gives the allocation map back.\<close>

lemma dom_inv_rolled_back:
  assumes "dom_inv d A" "alloc_spec A base (unat pc)" "iova_abs d1 (A(base \<mapsto> unat pc))"
    and "pte_at d1 = pte_at d" "pd_consistent d1" "tables_grow d1 h e h2"
    and "\<forall>p < RK_IOMMU_IOVA_PAGES. pte_at e p = pte_at d p"
  shows "dom_inv (RkIommuFreeIova e (page_iova base) pc) A"
proof -
  have "A base = None" using assms(1,2) by (auto simp: dom_inv_def iova_abs_def alloc_spec_fresh)
  moreover have "iova_abs e (A(base \<mapsto> unat pc))" using assms(3,6) by (simp add: iova_abs_grow)
  from RkIommuFreeIova_abs[OF this, of base "unat pc"]
  have "iova_abs (RkIommuFreeIova e (page_iova base) pc) (A(base := None))" by simp
  ultimately have "iova_abs (RkIommuFreeIova e (page_iova base) pc) A" by (simp add: fun_upd_idem)
  with assms show ?thesis by (simp add: dom_inv_def tables_grow_def)
qed

lemma map_pages_succeeds:
  "\<forall>h. k_contig K h RK_IOMMU_PAGE_SIZE \<noteq> None \<Longrightarrow> base + i + n \<le> RK_IOMMU_IOVA_PAGES \<Longrightarrow>
   \<forall>j. i \<le> j \<and> j < i + n \<longrightarrow> drop_bit 32 (push_bit 12 (pfns j)) = 0 \<Longrightarrow>
   fst (map_pages K bi pc flags pfns i n (page_iova (base + i)) d h) = STATUS_SUCCESS"
proof (induction n arbitrary: i d h)
  case (Suc n)
  obtain s d1 h1 where m:
    "RkIommuMapAt K d (page_iova (base + i)) (push_bit 12 (pfns i)) 1 flags h = (s, d1, h1)"
    by (metis prod_cases3)
  have "fst (RkIommuMapAt K d (page_iova (base + i)) (push_bit 12 (pfns i)) 1 flags h) = STATUS_SUCCESS"
    unfolding RkIommuMapAt_def using Suc.prems(1,2)
    by (intro map_loop_succeeds) (simp_all add: first_page_iova)
  with m have "s = STATUS_SUCCESS" by simp
  moreover have "drop_bit 32 (push_bit 12 (pfns i)) = 0" using Suc.prems(3) by simp
  moreover have "fst (map_pages K bi pc flags pfns (Suc i) n (page_iova (base + Suc i)) d1 h1)
      = STATUS_SUCCESS"
    using Suc.prems by (intro Suc.IH) auto
  ultimately show ?case using m page_iova_next[of "base + i"] by simp
qed simp

lemma UnmapMdl_hit:
  assumes "IsMaster dev" "Domain dev = Some d" "dom_inv d A" "A b = Some c"
  shows "\<exists>d' h'. RkIommuUnmapMdl (Some dev) (page_iova b) h
        = (STATUS_SUCCESS, Some (dev\<lparr>Domain := Some d'\<rparr>), h') \<and>
      dom_inv d' (A(b := None)) \<and>
      (\<forall>p < RK_IOMMU_IOVA_PAGES. pte_at d' p = (if b \<le> p \<and> p < b + c then 0 else pte_at d p))"
proof -
  have abs: "iova_abs d A" using assms(3) by (simp add: dom_inv_def)
  have bc: "b < RK_IOMMU_IOVA_PAGES" "0 < c" "b + c \<le> RK_IOMMU_IOVA_PAGES"
    using abs assms(4) unfolding iova_abs_def disjoint_allocs_def by fastforce+
  have st: "bm_test (IovaStartBitmap d) b" using abs assms(4) bc(1) by (auto simp: iova_abs_def)
  have es: "end_scan (IovaEndBitmap d) b (b + 1) = c" using abs assms(4) by (rule end_scan_exact)
  have pg: "unat (drop_bit 12 (page_iova b)) = b"
    using unat_page_iova[of b] bc(1) by (simp add: unat_drop_bit_eq drop_bit_eq_div [where 'a = nat])
  have "disjoint_allocs A" using abs by (simp add: iova_abs_def)
  note cr = covered_remove[OF this assms(4)]
  define d' where "d' = RkIommuFreeIova (RkIommuUnmapAt d (page_iova b) c) (page_iova b) (of_nat c)"
  have pte: "\<forall>p < RK_IOMMU_IOVA_PAGES. pte_at d' p = (if b \<le> p \<and> p < b + c then 0 else pte_at d p)"
    using pte_at_unmap[OF bc(1)] by (simp add: d'_def)
  have "iova_abs d' (A(b := None))"
    unfolding d'_def using abs assms(4) by (intro RkIommuFreeIova_abs) simp_all
  then have "dom_inv d' (A(b := None))"
    using assms(3) pte cr by (auto simp: dom_inv_def d'_def)
  moreover have "RkIommuUnmapMdl (Some dev) (page_iova b) h = (STATUS_SUCCESS,
      Some (dev\<lparr>Domain := Some d'\<rparr>), zap_all (dev\<lparr>Domain := Some d'\<rparr>) h)"
    using assms(1,2) st es pg bc page_iova_bound[OF bc(1)] page_iova_aligned[of b]
    by (simp add: RkIommuUnmapMdl_def Let_def d'_def)
  ultimately show ?thesis using pte by blast
qed

section \<open>Kernel memory\<close>

text \<open>Register traffic holds no kernel resources.\<close>

lemma live_registers [simp]:
  "live (WRITE_REGISTER_ULONG off v h) = live h"
  "live (snd (READ_REGISTER_ULONG K off h)) = live h"
  by (simp_all add: WRITE_REGISTER_ULONG_def READ_REGISTER_ULONG_def)

lemma live_fold: "(\<And>m h. live (f m h) = live h) \<Longrightarrow> live (fold f ms h) = live h"
  by (induction ms arbitrary: h) simp_all

lemma live_mmu_loops [simp]:
  "live (command_all n c h) = live h" "live (stall_all n us h) = live h"
  "live (fold (configure_one K dev pd) ms h) = live h" "live (fold disable_one ms h) = live h"
  by (simp_all add: command_all_def stall_all_def live_fold configure_one_def disable_one_def Let_def
      READ_REGISTER_ULONG_def WRITE_REGISTER_ULONG_def)

lemma live_enable_attempts: "enable_attempts K n a h = (ok, h') \<Longrightarrow> live h' = live h"
  by (induction K n a h rule: enable_attempts.induct)
    (auto simp: Let_def READ_REGISTER_ULONG_def split: if_splits prod.splits)

lemma live_EnableHw: "RkIommuEnableHw K dev h = (s, dev', h') \<Longrightarrow> live h' = live h"
  by (auto simp: RkIommuEnableHw_def Let_def simp del: enable_attempts.simps
      split: if_splits option.splits prod.splits dest!: live_enable_attempts)

lemma live_zap_all [simp]: "live (zap_all dev h) = live h"
  by (simp add: zap_all_def)

lemma map_pages_grow:
  "map_pages K base pc flags pfns i n iova d h = (s, d', h') \<Longrightarrow>
   \<exists>R. live h' = R + live h \<and> mset (domain_resources d') = R + mset (domain_resources d)"
proof (induction n arbitrary: i iova d h)
  case (Suc n)
  obtain s1 d1 h1 where m: "RkIommuMapAt K d iova (push_bit 12 (pfns i)) 1 flags h = (s1, d1, h1)"
    by (metis prod_cases3)
  have "tables_grow d h d1 h1" using m unfolding RkIommuMapAt_def by (rule map_loop_grows)
  then obtain R where R: "live h1 = R + live h" "mset (domain_resources d1) = R + mset (domain_resources d)"
    by (auto simp: tables_grow_def)
  have roll: "domain_resources (map_rollback x base i pc) = domain_resources x" for x
    by (simp add: map_rollback_def)
  show ?case
  proof (cases "drop_bit 32 (push_bit 12 (pfns i)) = 0 \<and> NT_SUCCESS s1")
    case True
    with Suc.prems m have "map_pages K base pc flags pfns (i + 1) n (iova + of_nat RK_IOMMU_PAGE_SIZE) d1 h1
        = (s, d', h')" by simp
    from Suc.IH[OF this] R show ?thesis by (auto simp: add.assoc[symmetric])
  next
    case False
    with Suc.prems m R roll show ?thesis by (auto simp: Let_def split: if_splits)
  qed
qed auto

lemma MapMdl_grow:
  assumes "Domain dev = Some d" "RkIommuMapMdl K (Some dev) M Role h = (r, odev, h')"
  shows "\<exists>dev' d' R. odev = Some dev' \<and> Domain dev' = Some d' \<and> live h' = R + live h \<and>
    mset (domain_resources d') = R + mset (domain_resources d)"
proof (cases "\<not> IsMaster dev \<or> ADDRESS_AND_SIZE_TO_SPAN_PAGES (MdlVa M) (MdlByteCount M) = 0")
  case True
  with assms show ?thesis by (auto simp: RkIommuMapMdl_def Let_def split: if_splits)
next
  case False
  define pc where "pc = ADDRESS_AND_SIZE_TO_SPAN_PAGES (MdlVa M) (MdlByteCount M)"
  obtain a d1 where al: "RkIommuAllocIova d (of_nat pc) = (a, d1)" by fastforce
  note fr = RkIommuAllocIova_frame(4)[OF al]
  show ?thesis
  proof (cases a)
    case (Inl e)
    with assms False al fr show ?thesis by (auto simp: RkIommuMapMdl_def Let_def simp flip: pc_def)
  next
    case (Inr b)
    obtain s d2 h2 where mp: "map_pages K b pc (pte_flags Role) (MdlPfns M) 0 pc b d1 h = (s, d2, h2)"
      by (metis prod_cases3)
    let ?dev = "dev\<lparr>Domain := Some d2\<rparr>"
    obtain x dev3 h3 where en: "RkIommuEnableHw K ?dev (zap_all ?dev h2) = (x, dev3, h3)"
      by (metis prod_cases3)
    have "odev = Some (if NT_SUCCESS s then dev3 else ?dev)" "h' = (if NT_SUCCESS s then h3 else h2)"
      using assms False al Inr mp en by (auto simp: RkIommuMapMdl_def Let_def simp flip: pc_def)
    moreover have "Domain dev3 = Some d2" using EnableHw_Domain[OF en] by auto
    moreover have "live h3 = live h2" using live_EnableHw[OF en] by simp
    ultimately show ?thesis using map_pages_grow[OF mp] fr by auto
  qed
qed

lemma fresh_domain_inv:
  assumes "RkIommuDomainCreateVdec K h = (Inr d, h')"
  shows "dom_inv d initial_allocs_vdec"
proof -
  have "Pts d = (\<lambda>_. None)" "Pd d = (\<lambda>_. 0)"
    using assms by (auto simp: RkIommuDomainCreateVdec_def zero_domain_def
        split: option.splits prod.splits)
  with DomainCreateVdec_abs[OF assms] show ?thesis by (simp add: dom_inv_def pd_consistent_def)
qed

lemma demo_domain_inv: "dom_inv demo_domain initial_allocs_vdec"
  using demo_domain_create fresh_domain_inv by blast

lemma MapMdl_spec:
  assumes "IsMaster dev" "Domain dev = Some d" "dom_inv d A"
    and "pc = ADDRESS_AND_SIZE_TO_SPAN_PAGES (MdlVa M) (MdlByteCount M)"
  shows "case RkIommuMapMdl K (Some dev) M Role h of
      (Inl s, odev, h') \<Rightarrow>
        \<exists>d'. odev = Some (dev\<lparr>Domain := Some d'\<rparr>) \<and> dom_inv d' A \<and>
             (\<forall>p < RK_IOMMU_IOVA_PAGES. pte_at d' p = pte_at d p)
    | (Inr iova, odev, h') \<Rightarrow>
        \<exists>base dev' d'. iova = page_iova base \<and> alloc_spec A base pc \<and>
             odev = Some dev' \<and> Domain dev' = Some d' \<and> IsMaster dev' \<and> dom_inv d' (A(base \<mapsto> pc)) \<and>
             (\<forall>p < RK_IOMMU_IOVA_PAGES. pte_at d' p =
                (if base \<le> p \<and> p < base + pc
                 then make_pte (IsAv1d d) (push_bit 12 (MdlPfns M (p - base))) (pte_flags Role)
                 else pte_at d p))"
proof (cases "pc = 0")
  case True
  with assms show ?thesis by (auto simp: RkIommuMapMdl_def intro!: exI[of _ d])
next
  case pos: False
  have u: "unat (of_nat pc :: ULONG) = pc" using unat_span_pages assms(4) by simp
  have abs: "iova_abs d A" using assms(3) by (simp add: dom_inv_def)
  obtain r d1 where al: "RkIommuAllocIova d (of_nat pc) = (r, d1)" by fastforce
  show ?thesis
  proof (cases r)
    case (Inl s)
    with al have "d1 = d" by (simp add: RkIommuAllocIova_fail)
    with al Inl pos assms show ?thesis
      by (auto simp: RkIommuMapMdl_def Let_def intro!: exI[of _ d])
  next
    case (Inr iova)
    obtain base where b: "iova = page_iova base" "alloc_spec A base pc" "iova_abs d1 (A(base \<mapsto> pc))"
      using RkIommuAllocIova_ok[OF abs al[unfolded Inr]] u by auto
    have fr: "pte_at d1 = pte_at d" "pd_consistent d1" "IsAv1d d1 = IsAv1d d"
      using RkIommuAllocIova_frame[OF al] assms(3) by (auto simp: dom_inv_def)
    obtain s d2 h2 where mp: "map_pages K (page_iova base) pc (pte_flags Role) (MdlPfns M) 0 pc
        (page_iova base) d1 h = (s, d2, h2)" by (metis prod_cases3)
    have "base + pc \<le> RK_IOMMU_IOVA_PAGES" using b(2) by (simp add: alloc_spec_def)
    note sp = map_pages_spec[where i = 0, simplified, OF mp refl this]
    from sp pos dom_inv_fresh_empty[OF assms(3) b(2)] fr consider
      (ok) "s = STATUS_SUCCESS" "tables_grow d1 h d2 h2" "\<forall>p < RK_IOMMU_IOVA_PAGES. pte_at d2 p =
             (if base \<le> p \<and> p < base + pc
              then make_pte (IsAv1d d) (push_bit 12 (MdlPfns M (p - base))) (pte_flags Role)
              else pte_at d1 p)"
    | (bad) e where "\<not> NT_SUCCESS s" "d2 = RkIommuFreeIova e (page_iova base) (of_nat pc)"
        "tables_grow d1 h e h2" "\<forall>p < RK_IOMMU_IOVA_PAGES. pte_at e p = pte_at d p"
      by auto
    then show ?thesis
    proof cases
      case ok
      obtain s3 dev3 h3 where en: "RkIommuEnableHw K (dev\<lparr>Domain := Some d2\<rparr>)
          (zap_all (dev\<lparr>Domain := Some d2\<rparr>) h2) = (s3, dev3, h3)" by (metis prod_cases3)
      have "Domain dev3 = Some d2" "IsMaster dev3" using EnableHw_Domain[OF en] assms(1) by auto
      moreover have "RkIommuMapMdl K (Some dev) M Role h = (Inr iova, Some dev3, h3)"
        using assms pos al Inr mp ok en b(1) by (simp add: RkIommuMapMdl_def Let_def)
      ultimately show ?thesis
        using b dom_inv_mapped[OF assms(3) b(2,3) fr(1,2) ok(2,3)] ok(3) fr(1) by auto
    next
      case bad
      have "RkIommuMapMdl K (Some dev) M Role h = (Inl s, Some (dev\<lparr>Domain := Some d2\<rparr>), h2)"
        using assms pos al Inr mp bad b(1) by (simp add: RkIommuMapMdl_def Let_def)
      moreover have "dom_inv d2 A"
        using dom_inv_rolled_back[OF assms(3), where pc = "of_nat pc"] b fr bad u by simp
      ultimately show ?thesis using bad by auto
    qed
  qed
qed

text \<open>The states a master reaches when its interface is called in any order.\<close>

inductive iommu_reach :: "kernel \<Rightarrow> RKIOMMU_DEVICE \<Rightarrow> bool" for K where
  start: "RkIommuDomainCreateVdec K h = (Inr d, h') \<Longrightarrow> Domain dev = Some d \<Longrightarrow> IsMaster dev \<Longrightarrow>
      iommu_reach K dev"
| map: "iommu_reach K dev \<Longrightarrow> RkIommuMapMdl K (Some dev) M Role h = (r, Some dev', h') \<Longrightarrow>
      iommu_reach K dev'"
| unmap: "iommu_reach K dev \<Longrightarrow> RkIommuUnmapMdl (Some dev) Iova h = (s, Some dev', h') \<Longrightarrow>
      iommu_reach K dev'"
| reattach: "iommu_reach K dev \<Longrightarrow> RkIommuReattach K (Some dev) h = (s, Some dev', h') \<Longrightarrow>
      iommu_reach K dev'"
| reset: "iommu_reach K dev \<Longrightarrow> RkIommuForceReset K (Some dev) h = (s, Some dev', h') \<Longrightarrow>
      iommu_reach K dev'"
| enable: "iommu_reach K dev \<Longrightarrow> RkIommuEnable K (Some dev) h = (s, Some dev', h') \<Longrightarrow>
      iommu_reach K dev'"
| disable: "iommu_reach K dev \<Longrightarrow> RkIommuDisable (Some dev) h = (s, Some dev', h') \<Longrightarrow>
      iommu_reach K dev'"

lemma DisableHw_Domain:
  "RkIommuDisableHw dev h = (s, dev', h') \<Longrightarrow> dev' = dev \<or> dev' = dev\<lparr>PagingEnabled := False\<rparr>"
  by (auto simp: RkIommuDisableHw_def Let_def split: if_splits)

text \<open>The register operations leave the address space alone.\<close>

definition same_space :: "RKIOMMU_DEVICE \<Rightarrow> RKIOMMU_DEVICE \<Rightarrow> bool" where
  "same_space dev dev' \<longleftrightarrow> Domain dev' = Domain dev \<and> IsMaster dev' = IsMaster dev"

lemma register_ops_same_space:
  "RkIommuReattach K (Some dev) h = (s, Some dev', h') \<Longrightarrow> same_space dev dev'"
  "RkIommuForceReset K (Some dev) h = (s, Some dev', h') \<Longrightarrow> same_space dev dev'"
  "RkIommuEnable K (Some dev) h = (s, Some dev', h') \<Longrightarrow> same_space dev dev'"
  "RkIommuDisable (Some dev) h = (s, Some dev', h') \<Longrightarrow> same_space dev dev'"
proof -
  have e: "RkIommuEnableHw K dev h = (s, dev', h') \<Longrightarrow> same_space dev dev'" for dev dev' h s h'
    using EnableHw_Domain by (fastforce simp: same_space_def)
  have d: "RkIommuDisableHw dev h = (s, dev', h') \<Longrightarrow> same_space dev dev'" for dev dev' h s h'
    using DisableHw_Domain by (fastforce simp: same_space_def)
  show "RkIommuReattach K (Some dev) h = (s, Some dev', h') \<Longrightarrow> same_space dev dev'"
    using e d by (fastforce simp: RkIommuReattach_def same_space_def split: if_splits prod.splits)
  show "RkIommuForceReset K (Some dev) h = (s, Some dev', h') \<Longrightarrow> same_space dev dev'"
    by (auto simp: RkIommuForceReset_def same_space_def Let_def split: if_splits prod.splits)
  show "RkIommuEnable K (Some dev) h = (s, Some dev', h') \<Longrightarrow> same_space dev dev'"
    using e by (auto simp: RkIommuEnable_def split: prod.splits)
  show "RkIommuDisable (Some dev) h = (s, Some dev', h') \<Longrightarrow> same_space dev dev'"
    using d by (auto simp: RkIommuDisable_def split: prod.splits)
qed

lemma MapMdl_succeeds:
  assumes "IsMaster dev" "Domain dev = Some d" "dom_inv d A"
    and pc: "pc = ADDRESS_AND_SIZE_TO_SPAN_PAGES (MdlVa M) (MdlByteCount M)"
    and "alloc_spec A base pc" "\<forall>h. k_contig K h RK_IOMMU_PAGE_SIZE \<noteq> None"
    and fr: "\<forall>i < pc. drop_bit 32 (push_bit 12 (MdlPfns M i)) = 0"
  shows "\<exists>top dev' h'. RkIommuMapMdl K (Some dev) M Role h = (Inr (page_iova top), Some dev', h') \<and>
    base \<le> top \<and> top < RK_IOMMU_IOVA_PAGES"
proof -
  have u: "unat (of_nat pc :: ULONG) = pc" using unat_span_pages pc by simp
  have abs: "iova_abs d A" using assms(3) by (simp add: dom_inv_def)
  from RkIommuAllocIova_top[OF abs, of base "of_nat pc"] assms(5) u obtain top d1 where
    al: "RkIommuAllocIova d (of_nat pc) = (Inr (page_iova top), d1)" "base \<le> top" "top < RK_IOMMU_IOVA_PAGES"
    by auto
  from RkIommuAllocIova_ok[OF abs al(1)] u obtain b where
    b: "page_iova top = page_iova b" "alloc_spec A b pc" by auto
  have "b < RK_IOMMU_IOVA_PAGES" using b(2) by (auto simp: alloc_spec_def)
  with b(1) al(3) have "top = b" by (intro page_iova_inj)
  then have "top + pc \<le> RK_IOMMU_IOVA_PAGES" "0 < pc" using b(2) by (auto simp: alloc_spec_def)
  then have "fst (map_pages K (page_iova top) pc (pte_flags Role) (MdlPfns M) 0 pc (page_iova (top + 0)) d1 h)
      = STATUS_SUCCESS"
    using fr assms(6) by (intro map_pages_succeeds) auto
  then obtain d2 h2 where mp: "map_pages K (page_iova top) pc (pte_flags Role) (MdlPfns M) 0 pc (page_iova top) d1 h
      = (STATUS_SUCCESS, d2, h2)" by (metis add_0_right prod.collapse)
  obtain s3 dev3 h3 where en: "RkIommuEnableHw K (dev\<lparr>Domain := Some d2\<rparr>)
      (zap_all (dev\<lparr>Domain := Some d2\<rparr>) h2) = (s3, dev3, h3)" by (metis prod_cases3)
  have "RkIommuMapMdl K (Some dev) M Role h = (Inr (page_iova top), Some dev3, h3)"
    using assms(1,2) \<open>0 < pc\<close> al(1) mp en by (simp add: RkIommuMapMdl_def Let_def flip: pc)
  with al show ?thesis by blast
qed

lemma MapMdl_inv:
  assumes "IsMaster dev" "Domain dev = Some d" "dom_inv d A"
    and "RkIommuMapMdl K (Some dev) M Role h = (r, Some dev', h')"
  shows "IsMaster dev' \<and> (\<exists>d' A'. Domain dev' = Some d' \<and> dom_inv d' A')"
  using MapMdl_spec[OF assms(1-3) refl, where K = K and M = M and Role = Role and h = h] assms(1,4) by (cases r) auto

lemma UnmapMdl_miss:
  assumes "IsMaster dev" "Domain dev = Some d" "dom_inv d A" "\<forall>b. Iova = page_iova b \<longrightarrow> A b = None"
  shows "RkIommuUnmapMdl (Some dev) Iova h = (STATUS_INVALID_PARAMETER, Some dev, h)"
proof (cases "Iova \<ge> push_bit 12 0x100000 \<or> Iova AND 0xFFF \<noteq> 0")
  case True
  with assms(1,2) show ?thesis by (auto simp: RkIommuUnmapMdl_def)
next
  case False
  then obtain b where b: "b < RK_IOMMU_IOVA_PAGES" "Iova = page_iova b"
    using aligned_iova_is_page by blast
  have "\<not> bm_test (IovaStartBitmap d) b" using assms(3,4) b by (auto simp: dom_inv_def iova_abs_def)
  moreover have "unat (drop_bit 12 Iova) = b"
    using unat_page_iova[of b] b by (simp add: unat_drop_bit_eq drop_bit_eq_div [where 'a = nat])
  ultimately show ?thesis using assms(1,2) by (simp add: RkIommuUnmapMdl_def Let_def)
qed

lemma UnmapMdl_inv:
  assumes "IsMaster dev" "Domain dev = Some d" "dom_inv d A"
    and "RkIommuUnmapMdl (Some dev) Iova h = (s, Some dev', h')"
  shows "IsMaster dev' \<and> (\<exists>d' A'. Domain dev' = Some d' \<and> dom_inv d' A')"
proof (cases "\<exists>b c. Iova = page_iova b \<and> A b = Some c")
  case True
  then obtain b c where b: "Iova = page_iova b" "A b = Some c" by blast
  from UnmapMdl_hit[OF assms(1-3) b(2), of h] b(1) assms(1,4) show ?thesis by auto
next
  case False
  then have "\<forall>b. Iova = page_iova b \<longrightarrow> A b = None" by auto
  from UnmapMdl_miss[OF assms(1-3) this, of h] assms show ?thesis by auto
qed

lemma iommu_reach_inv:
  "iommu_reach K dev \<Longrightarrow> IsMaster dev \<and> (\<exists>d A. Domain dev = Some d \<and> dom_inv d A)"
proof (induction rule: iommu_reach.induct)
  case (start h d h' dev)
  then show ?case using fresh_domain_inv by blast
next
  case (map dev M Role h r dev' h')
  then show ?case using MapMdl_inv by blast
next
  case (unmap dev Iova h s dev' h')
  then show ?case using UnmapMdl_inv by blast
qed (use register_ops_same_space in \<open>fastforce simp: same_space_def\<close>)+

section \<open>Properties\<close>

text \<open>MapMdl on a master. A success returns the first page of a range disjoint from every live
  allocation, with the MDL's frames installed in order and with write permission exactly for the
  roles other than bitstream input, every other translation unchanged and the invariant kept. Any
  failure, from the allocator, from a frame above 4 GiB or from a page-table allocation in the middle,
  leaves the allocations and every translation as they were.\<close>

theorem map_mdl_correct:
  assumes "IsMaster dev" "Domain dev = Some d" "dom_inv d A"
    and "pc = ADDRESS_AND_SIZE_TO_SPAN_PAGES (MdlVa M) (MdlByteCount M)"
  shows "case RkIommuMapMdl K (Some dev) M Role h of
      (Inl s, odev, h') \<Rightarrow>
        \<exists>d'. odev = Some (dev\<lparr>Domain := Some d'\<rparr>) \<and> dom_inv d' A \<and>
             (\<forall>p < RK_IOMMU_IOVA_PAGES. pte_at d' p = pte_at d p)
    | (Inr iova, odev, h') \<Rightarrow>
        \<exists>base dev' d'. iova = page_iova base \<and> alloc_spec A base pc \<and>
             odev = Some dev' \<and> Domain dev' = Some d' \<and> IsMaster dev' \<and> dom_inv d' (A(base \<mapsto> pc)) \<and>
             (\<forall>p < RK_IOMMU_IOVA_PAGES. pte_at d' p =
                (if base \<le> p \<and> p < base + pc
                 then make_pte (IsAv1d d) (push_bit 12 (MdlPfns M (p - base))) (pte_flags Role)
                 else pte_at d p))"
  using assms by (rule MapMdl_spec)

theorem map_mdl_correct_witness:
  "\<exists>d'. case RkIommuMapMdl demo_kernel (Some demo_dev)
            \<lparr>MdlVa = 0, MdlByteCount = 0x10000, MdlPfns = (\<lambda>i. if i = 3 then 0x20003 else 0x20000)\<rparr> 3 [] of
       (Inl s, odev, h') \<Rightarrow> False
     | (Inr iova, odev, h') \<Rightarrow> iova = page_iova 0xFFEF0 \<and>
         (\<exists>dev'. odev = Some dev' \<and> Domain dev' = Some d' \<and>
            pte_at d' 0xFFEF3 = make_pte False 0x20003000 6)"
proof -
  let ?M = "\<lparr>MdlVa = 0, MdlByteCount = 0x10000, MdlPfns = (\<lambda>i. if i = 3 then 0x20003 else 0x20000)\<rparr> :: MDL"
  have pc: "ADDRESS_AND_SIZE_TO_SPAN_PAGES (MdlVa ?M) (MdlByteCount ?M) = 16"
    by (simp add: ADDRESS_AND_SIZE_TO_SPAN_PAGES_def)
  obtain r od h' where e: "RkIommuMapMdl demo_kernel (Some demo_dev) ?M 3 [] = (r, od, h')"
    by (metis prod_cases3)
  have dd: "IsMaster demo_dev" "Domain demo_dev = Some demo_domain" by (simp_all add: demo_dev_def)
  have "alloc_spec initial_allocs_vdec 0xFFEF0 16"
    by (auto simp: alloc_spec_def covered_def initial_allocs_vdec_def split: if_splits)
  moreover have "\<forall>h. k_contig demo_kernel h RK_IOMMU_PAGE_SIZE \<noteq> None" by (simp add: demo_kernel_def)
  moreover have "\<forall>i < 16. drop_bit 32 (push_bit 12 (MdlPfns ?M i)) = 0" by simp
  ultimately obtain top where
    ok: "r = Inr (page_iova top)" "0xFFEF0 \<le> top" "top < RK_IOMMU_IOVA_PAGES"
    using MapMdl_succeeds[OF dd demo_domain_inv pc[symmetric], of "0xFFEF0" demo_kernel 3 "[]"] e by auto
  from map_mdl_correct[OF dd demo_domain_inv pc[symmetric], where K = demo_kernel and Role = 3 and h = "[]"] e ok(1)
  obtain base dev' d' where r: "page_iova top = page_iova base" "alloc_spec initial_allocs_vdec base 16"
    "od = Some dev'" "Domain dev' = Some d'"
    "\<forall>p < RK_IOMMU_IOVA_PAGES. pte_at d' p = (if base \<le> p \<and> p < base + 16
       then make_pte False (push_bit 12 (if p - base = 3 then 0x20003 else 0x20000)) (pte_flags 3)
       else pte_at demo_domain p)" by auto
  have "base < RK_IOMMU_IOVA_PAGES" using r(2) by (auto simp: alloc_spec_def)
  from page_iova_inj[OF this r(1) ok(3)] have "top = base" .
  with initial_vdec_window[OF r(2)] ok(2) have "base = 0xFFEF0" "top = 0xFFEF0" by simp_all
  with r e ok show ?thesis by (intro exI[of _ d']) (simp add: pte_flags_def)
qed

text \<open>UnmapMdl on a master clears exactly the entries of the allocation that starts at the given
  IOVA and releases exactly that allocation; an IOVA that starts no live allocation (a stray pointer, a
  second unmap, an unaligned or out-of-window value) is refused and changes nothing.\<close>

theorem unmap_mdl_correct:
  assumes "IsMaster dev" "Domain dev = Some d" "dom_inv d A"
  shows "(\<forall>b c. A b = Some c \<longrightarrow>
            (\<exists>d' h'. RkIommuUnmapMdl (Some dev) (page_iova b) h
               = (STATUS_SUCCESS, Some (dev\<lparr>Domain := Some d'\<rparr>), h') \<and>
             dom_inv d' (A(b := None)) \<and>
             (\<forall>p < RK_IOMMU_IOVA_PAGES.
                pte_at d' p = (if b \<le> p \<and> p < b + c then 0 else pte_at d p)))) \<and>
         ((\<forall>b. Iova = page_iova b \<longrightarrow> A b = None) \<longrightarrow>
            RkIommuUnmapMdl (Some dev) Iova h = (STATUS_INVALID_PARAMETER, Some dev, h))"
proof (intro conjI impI)
  show "\<forall>b c. A b = Some c \<longrightarrow>
            (\<exists>d' h'. RkIommuUnmapMdl (Some dev) (page_iova b) h
               = (STATUS_SUCCESS, Some (dev\<lparr>Domain := Some d'\<rparr>), h') \<and>
             dom_inv d' (A(b := None)) \<and>
             (\<forall>p < RK_IOMMU_IOVA_PAGES.
                pte_at d' p = (if b \<le> p \<and> p < b + c then 0 else pte_at d p)))"
    using UnmapMdl_hit[OF assms] by blast
  assume "\<forall>b. Iova = page_iova b \<longrightarrow> A b = None"
  with assms show "RkIommuUnmapMdl (Some dev) Iova h = (STATUS_INVALID_PARAMETER, Some dev, h)"
    by (rule UnmapMdl_miss)
qed

theorem unmap_mdl_correct_witness:
  "\<exists>d' h'. RkIommuUnmapMdl (Some demo_dev) (page_iova kRcbPage) []
      = (STATUS_SUCCESS, Some (demo_dev\<lparr>Domain := Some d'\<rparr>), h') \<and>
    dom_inv d' (initial_allocs_vdec(kRcbPage := None))"
proof -
  have "IsMaster demo_dev" "Domain demo_dev = Some demo_domain" by (simp_all add: demo_dev_def)
  moreover have "initial_allocs_vdec kRcbPage = Some kRcbCount" by (simp add: initial_allocs_vdec_def)
  ultimately show ?thesis using unmap_mdl_correct[OF _ _ demo_domain_inv, of demo_dev "[]" 0] by blast
qed

text \<open>C14: whatever sequence of map, unmap, reattach, force-reset, enable and disable calls a master has
  served, and whichever of them failed, it still owns a domain whose bitmaps describe a set of disjoint
  allocations, whose directory agrees with its tables, and in which every installed translation belongs
  to a live allocation.\<close>

theorem iommu_reach_sound:
  assumes "iommu_reach K dev"
  shows "\<exists>d A. Domain dev = Some d \<and> dom_inv d A \<and> disjoint_allocs A \<and>
    (\<forall>p < RK_IOMMU_IOVA_PAGES. pte_at d p \<noteq> 0 \<longrightarrow> bm_test (IovaBitmap d) p)"
proof -
  obtain d A where "Domain dev = Some d" "dom_inv d A" using iommu_reach_inv[OF assms] by blast
  then show ?thesis by (intro exI[of _ d] exI[of _ A]) (auto simp: dom_inv_def iova_abs_def)
qed

theorem iommu_reach_sound_witness:
  "iommu_reach demo_kernel demo_dev \<and> (\<exists>A. dom_inv demo_domain A)"
proof -
  obtain h where h: "RkIommuDomainCreateVdec demo_kernel [] = (Inr demo_domain, h)"
    using demo_domain_create by blast
  have r: "iommu_reach demo_kernel demo_dev"
    by (rule iommu_reach.start[OF h]) (simp_all add: demo_dev_def)
  from iommu_reach_sound[OF r] r show ?thesis by (auto simp: demo_dev_def)
qed

end
