(* ===== verification/Buf_Pool.thy ===== *)
theory Buf_Pool
  imports Iommu_Map
begin

text \<open>
  The DMA buffer pool of \<^verbatim>\<open>driver/shared/rkmpp/bufpool.{h,c}\<close>: size and usage validation, the per-file and
  global quotas, allocation with its unwinding, lookup, and release.
\<close>

section \<open>Buffers, file contexts and the driver's globals\<close>

record RKMPP_BUFFER =
  BufPtr :: ptr
  BufCookie :: ULONG64
  KernelVa :: "ptr option"
  BufMdl :: "ptr option"
  UserVa :: "ptr option"
  BufIova :: ULONG64
  BufSize :: ULONG
  OwnerProcess :: "ptr option"

text \<open>The list \<^verbatim>\<open>Buffers\<close> in link order; insertion is at the tail.\<close>

record RKMPP_FILE_CTX =
  Buffers :: "RKMPP_BUFFER list"
  AllocatedBytes :: ULONG64
  BufferCount :: ULONG
  ErrorCount :: ULONG

text \<open>
  The two static counters of the pool, the file contexts by file object, and the state of the IOMMU the
  device has opened.
\<close>

record 's pool =
  g_nextCookie :: ULONG64
  g_totalAllocatedBytes :: ULONG64
  files :: "ptr \<Rightarrow> RKMPP_FILE_CTX"
  iommu_st :: 's

text \<open>The function table a codec driver gets from \<^verbatim>\<open>RkMppGetIommuIfc\<close>; None is a NULL table or entry.\<close>

record 's iommu_ifc =
  MapMdl :: "kernel \<Rightarrow> 's \<Rightarrow> MDL \<Rightarrow> ULONG \<Rightarrow> history \<Rightarrow> (NTSTATUS + ULONG64) \<times> 's \<times> history"
  UnmapMdl :: "'s \<Rightarrow> ULONG64 \<Rightarrow> history \<Rightarrow> NTSTATUS \<times> 's \<times> history"

abbreviation RKMPP_MAX_BUFFER_BYTES :: ULONG where "RKMPP_MAX_BUFFER_BYTES \<equiv> 134217728"
abbreviation RKMPP_MAX_FILE_BYTES :: ULONG64 where "RKMPP_MAX_FILE_BYTES \<equiv> 2147483648"
abbreviation RKMPP_MAX_GLOBAL_BYTES :: int where "RKMPP_MAX_GLOBAL_BYTES \<equiv> 4294967296"
abbreviation RKMPP_MAX_FILE_BUFFER_COUNT :: ULONG where "RKMPP_MAX_FILE_BUFFER_COUNT \<equiv> 128"

section \<open>Validation and quotas\<close>

definition RkMppBufUsageValid :: "ULONG \<Rightarrow> bool" where
  "RkMppBufUsageValid Usage \<longleftrightarrow> Usage = 1 \<or> Usage = 2 \<or> Usage = 3 \<or> Usage = 4"

definition RkMppBufRoundSize :: "ULONG \<Rightarrow> NTSTATUS + ULONG" where
  "RkMppBufRoundSize sz =
     (if sz = 0 \<or> sz > RKMPP_MAX_BUFFER_BYTES then Inl STATUS_INVALID_PARAMETER
      else if sz > 0xFFFFFFFF - (4096 - 1) then Inl STATUS_INVALID_PARAMETER
      else
        (let Rounded = (sz + 4096 - 1) AND NOT (4096 - 1)
         in if Rounded = 0 \<or> Rounded > RKMPP_MAX_BUFFER_BYTES then Inl STATUS_INVALID_PARAMETER
            else Inr Rounded))"

text \<open>Take a charge back from a file, never below zero.\<close>

definition uncharge :: "RKMPP_FILE_CTX \<Rightarrow> ULONG \<Rightarrow> RKMPP_FILE_CTX" where
  "uncharge c sz =
     c\<lparr>AllocatedBytes := (if AllocatedBytes c \<ge> ucast sz then AllocatedBytes c - ucast sz else 0),
       BufferCount := (if BufferCount c > 0 then BufferCount c - 1 else BufferCount c)\<rparr>"

text \<open>
  The compare-and-swap loop on the global counter takes effect in the round that wins, which is one
  step here; a round that loses only reads again. The comparison is on signed 64-bit values.
\<close>

definition RkMppBufReserveQuota :: "'s pool \<Rightarrow> ptr \<Rightarrow> ULONG \<Rightarrow> NTSTATUS \<times> 's pool" where
  "RkMppBufReserveQuota P File sz =
     (if (ucast sz :: ULONG64) > RKMPP_MAX_FILE_BYTES then (STATUS_QUOTA_EXCEEDED, P)
      else
        (let c = files P File
         in if BufferCount c \<ge> RKMPP_MAX_FILE_BUFFER_COUNT \<or>
               AllocatedBytes c > RKMPP_MAX_FILE_BYTES - ucast sz
            then (STATUS_QUOTA_EXCEEDED, P)
            else
              (let c1 = c\<lparr>AllocatedBytes := AllocatedBytes c + ucast sz,
                          BufferCount := BufferCount c + 1\<rparr>;
                   next = g_totalAllocatedBytes P + ucast sz
               in if sint next > RKMPP_MAX_GLOBAL_BYTES
                  then (STATUS_QUOTA_EXCEEDED, P\<lparr>files := (files P)(File := uncharge c1 sz)\<rparr>)
                  else (STATUS_SUCCESS,
                        P\<lparr>files := (files P)(File := c1), g_totalAllocatedBytes := next\<rparr>))))"

definition RkMppBufReleaseQuota :: "'s pool \<Rightarrow> ptr \<Rightarrow> ULONG \<Rightarrow> 's pool" where
  "RkMppBufReleaseQuota P File sz =
     P\<lparr>files := (files P)(File := uncharge (files P File) sz),
       g_totalAllocatedBytes := g_totalAllocatedBytes P + - ucast sz\<rparr>"

definition RkMppBufFileCtxInit :: "'s pool \<Rightarrow> ptr \<Rightarrow> NTSTATUS \<times> 's pool" where
  "RkMppBufFileCtxInit P File =
     (STATUS_SUCCESS,
      P\<lparr>files := (files P)(File := (files P File)\<lparr>Buffers := [], AllocatedBytes := 0, BufferCount := 0\<rparr>)\<rparr>)"

section \<open>Releasing one buffer\<close>

text \<open>
  The user mapping is taken down only while the owner process cannot exit; otherwise the process's own
  teardown reclaims it.
\<close>

definition RkMppBufFreeOne ::
    "kernel \<Rightarrow> 's iommu_ifc option \<Rightarrow> RKMPP_BUFFER \<Rightarrow> 's \<Rightarrow> history \<Rightarrow> 's \<times> history" where
  "RkMppBufFreeOne K ifc b s h0 =
     (let h1 = (case (UserVa b, BufMdl b, OwnerProcess b) of
                  (Some va, Some mdl, Some p) \<Rightarrow>
                    (if k_exitsync K h0 p then Release (UserMap va) # h0 else h0)
                | _ \<Rightarrow> h0);
          (s2, h2) = (if BufIova b \<noteq> 0
                      then (case ifc of
                              None \<Rightarrow> (s, h1)
                            | Some i \<Rightarrow> (case UnmapMdl i s (BufIova b) h1 of (_, s', h') \<Rightarrow> (s', h')))
                      else (s, h1));
          h3 = (case BufMdl b of None \<Rightarrow> h2 | Some mdl \<Rightarrow> Release (MdlRes mdl) # h2);
          h4 = (case KernelVa b of None \<Rightarrow> h3 | Some va \<Rightarrow> Release (Contig va) # h3);
          h5 = (case OwnerProcess b of None \<Rightarrow> h4 | Some p \<Rightarrow> Release (ProcRef p) # h4)
      in (s2, ExFreePoolWithTag ''BppR'' (BufPtr b) h5))"

section \<open>Lookup\<close>

fun find_cookie :: "ULONG64 \<Rightarrow> RKMPP_BUFFER list \<Rightarrow> RKMPP_BUFFER option" where
  "find_cookie Cookie [] = None"
| "find_cookie Cookie (b # bs) = (if BufCookie b = Cookie then Some b else find_cookie Cookie bs)"

definition RkMppBufLookupIovaLocked :: "RKMPP_FILE_CTX \<Rightarrow> ULONG64 \<Rightarrow> NTSTATUS + ULONG64 \<times> ULONG" where
  "RkMppBufLookupIovaLocked ctx Cookie =
     (case find_cookie Cookie (Buffers ctx) of
        None \<Rightarrow> Inl STATUS_NOT_FOUND
      | Some b \<Rightarrow> Inr (BufIova b, BufSize b))"

definition RkMppBufLookupMdlLocked :: "RKMPP_FILE_CTX \<Rightarrow> ULONG64 \<Rightarrow> NTSTATUS + ptr option" where
  "RkMppBufLookupMdlLocked ctx Cookie =
     (case find_cookie Cookie (Buffers ctx) of
        None \<Rightarrow> Inl STATUS_NOT_FOUND
      | Some b \<Rightarrow> Inr (BufMdl b))"

definition RkMppBufLookupIova :: "'s pool \<Rightarrow> ptr \<Rightarrow> ULONG64 \<Rightarrow> NTSTATUS + ULONG64 \<times> ULONG" where
  "RkMppBufLookupIova P File Cookie = RkMppBufLookupIovaLocked (files P File) Cookie"

definition RkMppBufLookupMdl :: "'s pool \<Rightarrow> ptr \<Rightarrow> ULONG64 \<Rightarrow> NTSTATUS + ptr option" where
  "RkMppBufLookupMdl P File Cookie = RkMppBufLookupMdlLocked (files P File) Cookie"

section \<open>Allocation\<close>

record RKMPP_ALLOC_BUFFER_OUT =
  BufferHandle :: ULONG64
  OutIova :: ULONG64
  OutUserVa :: ptr
  SizeRoundedUp :: ULONG

text \<open>The counter is incremented until it is not the reserved value 0, which takes at most two rounds.\<close>

definition take_cookie :: "ULONG64 \<Rightarrow> ULONG64" where
  "take_cookie n = (if n + 1 = 0 then n + 1 + 1 else n + 1)"

text \<open>The MDL of a block of physically contiguous, page-aligned memory.\<close>

definition MmBuildMdlForNonPagedPool :: "ULONG64 \<Rightarrow> ULONG \<Rightarrow> MDL" where
  "MmBuildMdlForNonPagedPool phys sz =
     \<lparr>MdlVa = 0, MdlByteCount = sz, MdlPfns = (\<lambda>i. drop_bit 12 phys + of_nat i)\<rparr>"

text \<open>
  Steps 5 to 8: the user mapping, the cookie, the tracking node, the insertion. \<open>P\<close> carries the reserved
  quota and the IOMMU state after the mapping.
\<close>

definition alloc_track :: "kernel \<Rightarrow> 's iommu_ifc \<Rightarrow> ptr \<Rightarrow> 's pool \<Rightarrow> ptr \<Rightarrow> ULONG \<Rightarrow> ptr \<Rightarrow> ptr \<Rightarrow> ULONG64 \<Rightarrow>
    history \<Rightarrow> (NTSTATUS + RKMPP_ALLOC_BUFFER_OUT) \<times> 's pool \<times> history" where
  "alloc_track K i proc P File sizeRounded kernelVa mdl iova h3 =
    (case k_usermap K h3 mdl of
       None \<Rightarrow>
         (case UnmapMdl i (iommu_st P) iova h3 of (_, s4, h4) \<Rightarrow>
            (Inl STATUS_INSUFFICIENT_RESOURCES,
             RkMppBufReleaseQuota (P\<lparr>iommu_st := s4\<rparr>) File sizeRounded,
             Release (Contig kernelVa) # Release (MdlRes mdl) # h4))
     | Some userVa \<Rightarrow>
    (let h4 = Acquire (UserMap userVa) # h3;
         cookie = take_cookie (g_nextCookie P);
         P4 = P\<lparr>g_nextCookie := cookie\<rparr> in
     case ExAllocatePool2 K ''BppR'' h4 of
       (None, h5) \<Rightarrow>
         (case UnmapMdl i (iommu_st P4) iova (Release (UserMap userVa) # h5) of (_, s6, h6) \<Rightarrow>
            (Inl STATUS_INSUFFICIENT_RESOURCES,
             RkMppBufReleaseQuota (P4\<lparr>iommu_st := s6\<rparr>) File sizeRounded,
             Release (Contig kernelVa) # Release (MdlRes mdl) # h6))
     | (Some bp, h5) \<Rightarrow>
         (let buf = \<lparr>BufPtr = bp, BufCookie = cookie, KernelVa = Some kernelVa, BufMdl = Some mdl,
                     UserVa = Some userVa, BufIova = iova, BufSize = sizeRounded,
                     OwnerProcess = Some proc\<rparr>;
              c = files P4 File
          in (Inr \<lparr>BufferHandle = cookie, OutIova = iova, OutUserVa = userVa,
                   SizeRoundedUp = sizeRounded\<rparr>,
              P4\<lparr>files := (files P4)(File := c\<lparr>Buffers := Buffers c @ [buf]\<rparr>)\<rparr>,
              Acquire (ProcRef proc) # h5))))"

text \<open>Steps 2 to 4: the memory block, its MDL and the IOMMU mapping.\<close>

definition alloc_block :: "kernel \<Rightarrow> 's iommu_ifc option \<Rightarrow> ptr \<Rightarrow> 's pool \<Rightarrow> ptr \<Rightarrow> ULONG \<Rightarrow> ULONG \<Rightarrow> history \<Rightarrow>
    (NTSTATUS + RKMPP_ALLOC_BUFFER_OUT) \<times> 's pool \<times> history" where
  "alloc_block K ifc proc P File Usage sizeRounded h0 =
    (case k_contig K h0 (unat sizeRounded) of
       None \<Rightarrow> (Inl STATUS_INSUFFICIENT_RESOURCES, RkMppBufReleaseQuota P File sizeRounded, h0)
     | Some (kernelVa, phys) \<Rightarrow>
    (let h1 = Acquire (Contig kernelVa) # h0 in
     case k_mdl K h1 kernelVa of
       None \<Rightarrow> (Inl STATUS_INSUFFICIENT_RESOURCES, RkMppBufReleaseQuota P File sizeRounded,
                Release (Contig kernelVa) # h1)
     | Some mdl \<Rightarrow>
    (let h2 = Acquire (MdlRes mdl) # h1 in
     case ifc of
       None \<Rightarrow> (Inl STATUS_DEVICE_NOT_READY, RkMppBufReleaseQuota P File sizeRounded,
                Release (Contig kernelVa) # Release (MdlRes mdl) # h2)
     | Some i \<Rightarrow>
    (case MapMdl i K (iommu_st P) (MmBuildMdlForNonPagedPool phys sizeRounded) Usage h2 of
       (Inl status, s3, h3) \<Rightarrow>
         (Inl status, RkMppBufReleaseQuota (P\<lparr>iommu_st := s3\<rparr>) File sizeRounded,
          Release (Contig kernelVa) # Release (MdlRes mdl) # h3)
     | (Inr iova, s3, h3) \<Rightarrow>
         alloc_track K i proc (P\<lparr>iommu_st := s3\<rparr>) File sizeRounded kernelVa mdl iova h3))))"

definition RkMppBufAlloc :: "kernel \<Rightarrow> 's iommu_ifc option \<Rightarrow> ptr \<Rightarrow> 's pool \<Rightarrow> ptr \<Rightarrow> ULONG \<Rightarrow> ULONG \<Rightarrow> history \<Rightarrow>
    (NTSTATUS + RKMPP_ALLOC_BUFFER_OUT) \<times> 's pool \<times> history" where
  "RkMppBufAlloc K ifc proc P File Usage sz h0 =
    (if \<not> RkMppBufUsageValid Usage then (Inl STATUS_INVALID_PARAMETER, P, h0)
     else case RkMppBufRoundSize sz of
       Inl status \<Rightarrow> (Inl status, P, h0)
     | Inr sizeRounded \<Rightarrow>
         (case RkMppBufReserveQuota P File sizeRounded of (status, P1) \<Rightarrow>
            if \<not> NT_SUCCESS status then (Inl status, P1, h0)
            else alloc_block K ifc proc P1 File Usage sizeRounded h0))"

section \<open>Release\<close>

text \<open>\<open>InUse\<close> is the predicate the caller supplies, evaluated under the file lock.\<close>

definition RkMppBufFreeIfNotInUse :: "kernel \<Rightarrow> 's iommu_ifc option \<Rightarrow> 's pool \<Rightarrow> ptr \<Rightarrow> ULONG64 \<Rightarrow>
    (ULONG64 \<Rightarrow> bool) option \<Rightarrow> history \<Rightarrow> NTSTATUS \<times> 's pool \<times> history" where
  "RkMppBufFreeIfNotInUse K ifc P File Cookie InUse h =
     (if (case InUse of None \<Rightarrow> False | Some f \<Rightarrow> f Cookie) then (STATUS_DEVICE_BUSY, P, h)
      else case find_cookie Cookie (Buffers (files P File)) of
        None \<Rightarrow> (STATUS_NOT_FOUND, P, h)
      | Some b \<Rightarrow>
          (let c = files P File;
               P1 = P\<lparr>files := (files P)(File := c\<lparr>Buffers := remove1 b (Buffers c)\<rparr>)\<rparr>;
               P2 = RkMppBufReleaseQuota P1 File (BufSize b)
           in case RkMppBufFreeOne K ifc b (iommu_st P2) h of
                (s, h') \<Rightarrow> (STATUS_SUCCESS, P2\<lparr>iommu_st := s\<rparr>, h')))"

text \<open>The drain loop of file cleanup, over the list as it stands on entry: nothing inserts meanwhile.\<close>

fun free_all_loop :: "kernel \<Rightarrow> 's iommu_ifc option \<Rightarrow> ptr \<Rightarrow> RKMPP_BUFFER list \<Rightarrow> 's pool \<Rightarrow> history \<Rightarrow>
    's pool \<times> history" where
  "free_all_loop K ifc File [] P h = (P, h)"
| "free_all_loop K ifc File (b # bs) P h =
     (let P1 = P\<lparr>files := (files P)(File := (files P File)\<lparr>Buffers := bs\<rparr>)\<rparr>;
          P2 = RkMppBufReleaseQuota P1 File (BufSize b)
      in case RkMppBufFreeOne K ifc b (iommu_st P2) h of
           (s, h') \<Rightarrow> free_all_loop K ifc File bs (P2\<lparr>iommu_st := s\<rparr>) h')"

definition RkMppBufFreeAll :: "kernel \<Rightarrow> 's iommu_ifc option \<Rightarrow> 's pool \<Rightarrow> ptr \<Rightarrow> history \<Rightarrow> 's pool \<times> history" where
  "RkMppBufFreeAll K ifc P File h = free_all_loop K ifc File (Buffers (files P File)) P h"

section \<open>Rounding and quota arithmetic\<close>

lemma unat_and_not_4095: "unat ((x :: ULONG) AND NOT (4096 - 1)) = unat x div 4096 * 4096"
proof -
  have m: "(4096 - 1 :: ULONG) = mask 12" by (simp add: mask_eq_exp_minus_1)
  have "x AND NOT (mask 12) = push_bit 12 (drop_bit 12 x)"
    by (simp add: bit_eq_iff [where 'a = ULONG] bit_simps) auto
  then have "x AND NOT (mask 12) = x div 4096 * 4096"
    by (simp add: push_bit_eq_mult drop_bit_eq_div)
  moreover have "unat x div 4096 * 4096 < 2 ^ 32"
    using unsigned_less[where w = x] by (intro le_less_trans[OF div_times_less_eq_dividend]) simp
  ultimately show ?thesis unfolding m by (simp add: unat_word_ariths unat_div_distrib)
qed

lemma round_size_spec:
  "RkMppBufRoundSize sz =
     (if sz = 0 \<or> sz > RKMPP_MAX_BUFFER_BYTES then Inl STATUS_INVALID_PARAMETER
      else Inr (of_nat ((unat sz + 4095) div 4096 * 4096)))"
proof (cases "sz = 0 \<or> sz > RKMPP_MAX_BUFFER_BYTES")
  case False
  define r where "r = (sz + 4096 - 1) AND NOT (4096 - 1)"
  have sz: "0 < unat sz" "unat sz \<le> 134217728"
    using False by (auto simp: word_less_nat_alt word_le_nat_alt not_less unat_gt_0)
  have "unat (sz + 4096 - 1) = unat sz + 4095"
  proof -
    have "sz + 4096 - 1 = sz + 4095" by simp
    then show ?thesis using sz by (simp add: unat_word_ariths)
  qed
  then have u: "unat r = (unat sz + 4095) div 4096 * 4096"
    unfolding r_def by (simp only: unat_and_not_4095)
  have b: "0 < unat r" "unat r \<le> 134217728" using sz unfolding u by auto
  have g: "\<not> sz > 0xFFFFFFFF - (4096 - 1)" using sz(2) by (simp add: word_less_nat_alt)
  have c: "\<not> (r = 0 \<or> r > RKMPP_MAX_BUFFER_BYTES)"
    using b by (auto simp: word_less_nat_alt not_less)
  have "RkMppBufRoundSize sz = Inr r"
    unfolding RkMppBufRoundSize_def Let_def r_def[symmetric] using False g c by (simp only: if_False)
  moreover have "r = of_nat (unat r)" by simp
  ultimately show ?thesis using False u by (simp only: if_False)
qed (auto simp: RkMppBufRoundSize_def)

section \<open>The quota invariant\<close>

text \<open>
  What a file is charged equals what is on its list, and both stay within the per-file caps; the global
  counter is the sum over the files and stays within the global cap.
\<close>

definition valid_size :: "ULONG \<Rightarrow> bool" where
  "valid_size sz \<longleftrightarrow> 0 < unat sz \<and> unat sz \<le> 134217728 \<and> 4096 dvd unat sz"

definition bytes_of :: "RKMPP_BUFFER list \<Rightarrow> nat" where
  "bytes_of bs = (\<Sum>b \<leftarrow> bs. unat (BufSize b))"

definition charged :: "RKMPP_FILE_CTX \<Rightarrow> bool" where
  "charged c \<longleftrightarrow>
     unat (BufferCount c) = length (Buffers c) \<and> length (Buffers c) \<le> 128 \<and>
     unat (AllocatedBytes c) = bytes_of (Buffers c) \<and> bytes_of (Buffers c) \<le> 2 ^ 31 \<and>
     (\<forall>b \<in> set (Buffers c). valid_size (BufSize b))"

definition pool_quota :: "'s pool \<Rightarrow> bool" where
  "pool_quota P \<longleftrightarrow>
     (\<forall>f. charged (files P f)) \<and>
     (\<exists>F. finite F \<and> (\<forall>f. f \<notin> F \<longrightarrow> Buffers (files P f) = []) \<and>
          unat (g_totalAllocatedBytes P) = (\<Sum>f \<in> F. bytes_of (Buffers (files P f)))) \<and>
     unat (g_totalAllocatedBytes P) \<le> 2 ^ 32"

lemma bytes_of_simps [simp]:
  "bytes_of [] = 0" "bytes_of (b # bs) = unat (BufSize b) + bytes_of bs"
  "bytes_of (bs @ cs) = bytes_of bs + bytes_of cs"
  by (simp_all add: bytes_of_def)

lemma bytes_of_remove1: "b \<in> set bs \<Longrightarrow> bytes_of bs = unat (BufSize b) + bytes_of (remove1 b bs)"
  by (induction bs) auto

lemma unat_ucast64: "unat (ucast (sz :: ULONG) :: ULONG64) = unat sz"
  by (simp add: unsigned_ucast_eq take_bit_nat_eq_self less_trans[OF unsigned_less])

definition charge :: "RKMPP_FILE_CTX \<Rightarrow> ULONG \<Rightarrow> RKMPP_FILE_CTX" where
  "charge c sz = c\<lparr>AllocatedBytes := AllocatedBytes c + ucast sz, BufferCount := BufferCount c + 1\<rparr>"

lemma charge_values:
  assumes "charged c" "\<not> BufferCount c \<ge> RKMPP_MAX_FILE_BUFFER_COUNT"
    "\<not> AllocatedBytes c > RKMPP_MAX_FILE_BYTES - ucast sz" "valid_size sz"
  shows "unat (AllocatedBytes (charge c sz)) = unat (AllocatedBytes c) + unat sz"
    "unat (AllocatedBytes c) + unat sz \<le> 2 ^ 31"
    "unat (BufferCount (charge c sz)) = unat (BufferCount c) + 1"
    "unat (BufferCount c) < 128"
proof -
  have sz: "unat sz \<le> 134217728" using assms(4) by (simp add: valid_size_def)
  have "unat (RKMPP_MAX_FILE_BYTES - ucast sz) = 2 ^ 31 - unat sz"
    using sz by (simp add: unat_sub word_le_nat_alt unat_ucast64)
  then show le: "unat (AllocatedBytes c) + unat sz \<le> 2 ^ 31"
    using assms(3) sz by (simp add: word_less_nat_alt)
  then show "unat (AllocatedBytes (charge c sz)) = unat (AllocatedBytes c) + unat sz"
    by (simp add: charge_def unat_word_ariths unat_ucast64)
  show bc: "unat (BufferCount c) < 128" using assms(2) by (simp add: word_le_nat_alt)
  then show "unat (BufferCount (charge c sz)) = unat (BufferCount c) + 1"
    by (simp add: charge_def unat_word_ariths)
qed

lemma uncharge_charge:
  assumes "unat (AllocatedBytes (charge c sz)) = unat (AllocatedBytes c) + unat sz"
    "unat (BufferCount (charge c sz)) = unat (BufferCount c) + 1"
  shows "uncharge (charge c sz) sz = c"
proof -
  have "ucast sz \<le> AllocatedBytes (charge c sz)"
    using assms(1) by (simp add: word_le_nat_alt unat_ucast64)
  moreover have "0 < BufferCount (charge c sz)" using assms(2) by (simp add: word_less_nat_alt)
  ultimately show ?thesis by (cases c) (simp add: uncharge_def charge_def)
qed

lemma sint_small64:
  assumes "unat (x :: ULONG64) < 2 ^ 63" shows "sint x = int (unat x)"
proof -
  have u: "int (unat x) = uint x" by simp
  have "int (unat x) < int (2 ^ 63)" using assms by (simp only: of_nat_less_iff)
  then have "uint x < 2 ^ 63" unfolding u by simp
  then have "signed_take_bit 63 (uint x) = uint x"
    using unsigned_greater_eq[where w = x] by (intro signed_take_bit_int_eq_self) (simp_all add: order_trans[of _ 0])
  then show ?thesis unfolding u by (simp add: sint_uint)
qed

lemma reserve_quota_cases:
  assumes "pool_quota P" "valid_size sz" "RkMppBufReserveQuota P File sz = (st, P1)"
  shows "(st = STATUS_QUOTA_EXCEEDED \<and> P1 = P) \<or>
    (st = STATUS_SUCCESS \<and>
     P1 = P\<lparr>files := (files P)(File := charge (files P File) sz),
            g_totalAllocatedBytes := g_totalAllocatedBytes P + ucast sz\<rparr> \<and>
     uncharge (charge (files P File) sz) sz = files P File \<and>
     bytes_of (Buffers (files P File)) + unat sz \<le> 2 ^ 31 \<and> length (Buffers (files P File)) < 128 \<and>
     unat (AllocatedBytes (charge (files P File) sz)) = bytes_of (Buffers (files P File)) + unat sz \<and>
     unat (BufferCount (charge (files P File) sz)) = length (Buffers (files P File)) + 1 \<and>
     unat (g_totalAllocatedBytes P + ucast sz) = unat (g_totalAllocatedBytes P) + unat sz \<and>
     unat (g_totalAllocatedBytes P) + unat sz \<le> 2 ^ 32)"
proof (cases "BufferCount (files P File) \<ge> RKMPP_MAX_FILE_BUFFER_COUNT \<or>
    AllocatedBytes (files P File) > RKMPP_MAX_FILE_BYTES - ucast sz")
  case True
  with assms(3) show ?thesis by (auto simp: RkMppBufReserveQuota_def Let_def split: if_splits)
next
  case False
  let ?c = "files P File"
  have ch: "charged ?c" using assms(1) by (simp add: pool_quota_def)
  note v = charge_values[OF ch _ _ assms(2)]
  have un: "uncharge (charge ?c sz) sz = ?c" using False v by (intro uncharge_charge) auto
  have szb: "unat sz \<le> 134217728" using assms(2) by (simp add: valid_size_def)
  have "unat (g_totalAllocatedBytes P) \<le> 2 ^ 32" using assms(1) by (simp add: pool_quota_def)
  then have tot: "unat (g_totalAllocatedBytes P + ucast sz) = unat (g_totalAllocatedBytes P) + unat sz"
    using szb by (simp add: unat_word_ariths unat_ucast64)
  have fits: "\<not> (ucast sz :: ULONG64) > RKMPP_MAX_FILE_BYTES"
    using szb by (simp add: word_less_nat_alt unat_ucast64)
  have si: "sint (g_totalAllocatedBytes P + ucast sz) = int (unat (g_totalAllocatedBytes P) + unat sz)"
    using sint_small64[of "g_totalAllocatedBytes P + ucast sz"] tot szb
      \<open>unat (g_totalAllocatedBytes P) \<le> 2 ^ 32\<close> by simp
  show ?thesis
  proof (cases "sint (g_totalAllocatedBytes P + ucast sz) > RKMPP_MAX_GLOBAL_BYTES")
    case True
    with assms(3) False fits un have "st = STATUS_QUOTA_EXCEEDED" "P1 = P"
      by (auto simp: RkMppBufReserveQuota_def Let_def fun_upd_idem simp flip: charge_def)
    then show ?thesis by simp
  next
    case ok: False
    then have "int (unat (g_totalAllocatedBytes P) + unat sz) \<le> int (2 ^ 32)"
      unfolding si not_less by simp
    then have le: "unat (g_totalAllocatedBytes P) + unat sz \<le> 2 ^ 32" by (simp only: of_nat_le_iff)
    from ok assms(3) False fits have "st = STATUS_SUCCESS"
      "P1 = P\<lparr>files := (files P)(File := charge ?c sz),
              g_totalAllocatedBytes := g_totalAllocatedBytes P + ucast sz\<rparr>"
      by (auto simp: RkMppBufReserveQuota_def Let_def simp flip: charge_def)
    with le tot un False v ch show ?thesis by (auto simp: charged_def)
  qed
qed

text \<open>A release after a reservation gives the pool back as it was.\<close>

lemma release_after_reserve:
  assumes "uncharge (charge (files P File) sz) sz = files P File"
  shows "RkMppBufReleaseQuota (P\<lparr>files := (files P)(File := charge (files P File) sz),
            g_totalAllocatedBytes := g_totalAllocatedBytes P + ucast sz, iommu_st := s\<rparr>) File sz
         = P\<lparr>iommu_st := s\<rparr>"
    and "RkMppBufReleaseQuota (P\<lparr>files := (files P)(File := charge (files P File) sz),
            g_totalAllocatedBytes := g_totalAllocatedBytes P + ucast sz\<rparr>) File sz = P"
    and "RkMppBufReleaseQuota (P\<lparr>files := (files P)(File := charge (files P File) sz),
            g_totalAllocatedBytes := g_totalAllocatedBytes P + ucast sz, g_nextCookie := n, iommu_st := s\<rparr>) File sz
         = P\<lparr>iommu_st := s, g_nextCookie := n\<rparr>"
  using assms by (simp_all add: RkMppBufReleaseQuota_def)

lemma pool_quotaI:
  "\<lbrakk>\<And>f. charged (files P f); finite F; \<And>f. f \<notin> F \<Longrightarrow> Buffers (files P f) = [];
    unat (g_totalAllocatedBytes P) = (\<Sum>f \<in> F. bytes_of (Buffers (files P f)));
    unat (g_totalAllocatedBytes P) \<le> 2 ^ 32\<rbrakk> \<Longrightarrow> pool_quota P"
  unfolding pool_quota_def by blast

text \<open>Removing a buffer from its list and releasing its quota keeps the invariant.\<close>

lemma release_removed:
  assumes "pool_quota P" "b \<in> set (Buffers (files P File))"
  shows "pool_quota (RkMppBufReleaseQuota
    (P\<lparr>files := (files P)(File := (files P File)\<lparr>Buffers := remove1 b (Buffers (files P File))\<rparr>)\<rparr>)
    File (BufSize b))"
proof -
  let ?c = "files P File" and ?sz = "BufSize b"
  let ?bs = "remove1 b (Buffers ?c)"
  have ch: "charged ?c" using assms(1) by (simp add: pool_quota_def)
  have sum: "bytes_of (Buffers ?c) = unat ?sz + bytes_of ?bs" using assms(2) by (rule bytes_of_remove1)
  have ge: "ucast ?sz \<le> AllocatedBytes ?c" using ch sum by (simp add: charged_def word_le_nat_alt unat_ucast64)
  have ab: "unat (AllocatedBytes ?c - ucast ?sz) = bytes_of ?bs"
    using ch sum ge by (simp add: charged_def unat_sub unat_ucast64)
  have pos: "0 < BufferCount ?c"
    using ch assms(2) by (auto simp: charged_def word_less_nat_alt length_pos_if_in_set)
  then have bc: "unat (BufferCount ?c - 1) = length ?bs"
    using ch assms(2) unat_minus_one[of "BufferCount ?c"]
    by (auto simp: charged_def length_remove1)
  let ?c' = "uncharge (?c\<lparr>Buffers := ?bs\<rparr>) ?sz"
  have chg: "charged ?c'"
    using ch ab bc ge pos sum
    by (auto simp: charged_def uncharge_def length_remove1 dest: notin_set_remove1 set_mp[OF set_remove1_subset])
  obtain F where F: "finite F" "\<forall>f. f \<notin> F \<longrightarrow> Buffers (files P f) = []"
    "unat (g_totalAllocatedBytes P) = (\<Sum>f \<in> F. bytes_of (Buffers (files P f)))"
    using assms(1) by (auto simp: pool_quota_def)
  have "File \<in> F" using F(2) assms(2) by fastforce
  then have split: "(\<Sum>f \<in> F. bytes_of (Buffers (((files P)(File := ?c')) f))) + unat ?sz
      = (\<Sum>f \<in> F. bytes_of (Buffers (files P f)))"
    using F(1) sum by (simp add: sum.remove[of F File] uncharge_def)
  have tot: "unat (g_totalAllocatedBytes P - ucast ?sz)
      = (\<Sum>f \<in> F. bytes_of (Buffers (((files P)(File := ?c')) f)))"
    using split F(3) by (subst unat_sub) (auto simp: word_le_nat_alt unat_ucast64)
  show ?thesis
  proof (rule pool_quotaI[OF _ F(1)], goal_cases)
    case (1 f)
    then show ?case using chg assms(1) by (simp add: RkMppBufReleaseQuota_def pool_quota_def)
  next
    case (2 f)
    then show ?case using F(2) \<open>File \<in> F\<close> by (auto simp: RkMppBufReleaseQuota_def)
  next
    case 3
    show ?case using tot by (simp add: RkMppBufReleaseQuota_def)
  next
    case 4
    show ?case using tot split F(3) assms(1) by (simp add: RkMppBufReleaseQuota_def pool_quota_def)
  qed
qed

lemma insert_reserved:
  assumes "pool_quota P" "valid_size (BufSize buf)" "RkMppBufReserveQuota P File (BufSize buf) = (STATUS_SUCCESS, P1)"
  shows "pool_quota (P1\<lparr>iommu_st := s, g_nextCookie := n,
     files := (files P1)(File := (files P1 File)\<lparr>Buffers := Buffers (files P1 File) @ [buf]\<rparr>)\<rparr>)"
proof -
  let ?c = "files P File" and ?sz = "BufSize buf"
  have r: "P1 = P\<lparr>files := (files P)(File := charge ?c ?sz),
            g_totalAllocatedBytes := g_totalAllocatedBytes P + ucast ?sz\<rparr>"
     "bytes_of (Buffers ?c) + unat ?sz \<le> 2 ^ 31" "length (Buffers ?c) < 128"
     "unat (AllocatedBytes (charge ?c ?sz)) = bytes_of (Buffers ?c) + unat ?sz"
     "unat (BufferCount (charge ?c ?sz)) = length (Buffers ?c) + 1"
     "unat (g_totalAllocatedBytes P + ucast ?sz) = unat (g_totalAllocatedBytes P) + unat ?sz"
     "unat (g_totalAllocatedBytes P) + unat ?sz \<le> 2 ^ 32"
    using reserve_quota_cases[OF assms] by auto
  let ?c' = "(charge ?c ?sz)\<lparr>Buffers := Buffers ?c @ [buf]\<rparr>"
  have cb: "Buffers (charge ?c ?sz) = Buffers ?c" by (simp add: charge_def)
  have chg: "charged ?c'"
    using assms(1,2) r by (auto simp: charged_def pool_quota_def)
  obtain F where F: "finite F" "\<forall>f. f \<notin> F \<longrightarrow> Buffers (files P f) = []"
    "unat (g_totalAllocatedBytes P) = (\<Sum>f \<in> F. bytes_of (Buffers (files P f)))"
    using assms(1) by (auto simp: pool_quota_def)
  let ?F = "insert File F"
  have S: "(\<Sum>f \<in> ?F. bytes_of (Buffers (files P f))) = (\<Sum>f \<in> F. bytes_of (Buffers (files P f)))"
    using F(1,2) by (cases "File \<in> F") (auto simp: insert_absorb)
  have split: "(\<Sum>f \<in> ?F. bytes_of (Buffers (((files P)(File := ?c')) f)))
      = (\<Sum>f \<in> ?F. bytes_of (Buffers (files P f))) + unat ?sz"
    using F(1) by (simp add: sum.remove[of ?F File] del: sum.insert)
  have fs: "files (P1\<lparr>iommu_st := s, g_nextCookie := n,
     files := (files P1)(File := (files P1 File)\<lparr>Buffers := Buffers (files P1 File) @ [buf]\<rparr>)\<rparr>)
     = (files P)(File := ?c')" using r(1) cb by simp
  show ?thesis
  proof (rule pool_quotaI[of _ ?F], unfold fs, goal_cases)
    case (1 f)
    then show ?case using chg assms(1) by (simp add: pool_quota_def)
  next
    case 2 then show ?case using F(1) by simp
  next
    case (3 f)
    then show ?case using F(2) by auto
  next
    case 4
    show ?case using split S F(3) r(1,6) by (simp del: sum.insert)
  next
    case 5
    show ?case using r(1,6,7) by simp
  qed
qed

lemma round_size_valid:
  assumes "RkMppBufRoundSize sz = Inr r"
  shows "valid_size r" "unat sz \<le> unat r" "unat r < unat sz + 4096"
proof -
  have c: "0 < unat sz" "unat sz \<le> 134217728" "r = of_nat ((unat sz + 4095) div 4096 * 4096)"
    using assms by (auto simp: round_size_spec word_less_nat_alt not_less unat_gt_0 split: if_splits)
  have "(unat sz + 4095) div 4096 * 4096 \<le> 134217728" using c(2) by simp
  then have u: "unat r = (unat sz + 4095) div 4096 * 4096"
    unfolding c(3) unsigned_of_nat of_nat_id by (intro take_bit_nat_eq_self) simp
  show "valid_size r" using c u by (auto simp: valid_size_def)
  show "unat sz \<le> unat r" "unat r < unat sz + 4096" 
    using div_mult_mod_eq[of "unat sz + 4095" 4096] mod_less_divisor[of 4096 "unat sz + 4095"]
    unfolding u by linarith+
qed

section \<open>The mapping invariant\<close>

text \<open>A buffer on a list is complete: every field the allocator fills is set.\<close>

definition complete :: "RKMPP_BUFFER \<Rightarrow> bool" where
  "complete b \<longleftrightarrow> KernelVa b \<noteq> None \<and> BufMdl b \<noteq> None \<and> UserVa b \<noteq> None \<and> OwnerProcess b \<noteq> None \<and>
     BufIova b \<noteq> 0"

text \<open>Every buffer of every file has a mapping of its own among the live ones.\<close>

definition pool_maps :: "ULONG64 set \<Rightarrow> (ptr \<Rightarrow> RKMPP_FILE_CTX) \<Rightarrow> bool" where
  "pool_maps live_maps fs \<longleftrightarrow>
     (\<forall>f. \<forall>b \<in> set (Buffers (fs f)). complete b \<and> BufIova b \<in> live_maps) \<and>
     (\<forall>f. distinct (map BufIova (Buffers (fs f)))) \<and>
     (\<forall>f g. f \<noteq> g \<longrightarrow> BufIova ` set (Buffers (fs f)) \<inter> BufIova ` set (Buffers (fs g)) = {})"

lemma pool_maps_insert:
  assumes "pool_maps M fs" "complete b" "BufIova b \<notin> M"
    and "\<And>f. Buffers (fs' f) = (if f = File then Buffers (fs f) @ [b] else Buffers (fs f))"
  shows "pool_maps (insert (BufIova b) M) fs'"
  using assms unfolding pool_maps_def by (auto split: if_splits)

lemma pool_maps_remove:
  assumes "pool_maps M fs" "b \<in> set (Buffers (fs File))"
    and "\<And>f. Buffers (fs' f) = (if f = File then remove1 b (Buffers (fs f)) else Buffers (fs f))"
  shows "pool_maps (M - {BufIova b}) fs'"
proof -
  have d: "distinct (map BufIova (Buffers (fs File)))" using assms(1) by (auto simp: pool_maps_def)
  have sub: "set (Buffers (fs' f)) \<subseteq> set (Buffers (fs f))" for f
    using assms(3)[of f] set_remove1_subset[of b "Buffers (fs f)"] by (cases "f = File") simp_all
  have ne: "BufIova x \<noteq> BufIova b" if "x \<in> set (Buffers (fs' f))" for x f
  proof (cases "f = File")
    case True
    then have "x \<in> set (Buffers (fs File))" "x \<noteq> b"
      using that assms(3) sub d by (auto simp: distinct_map)
    with d assms(2) show ?thesis by (auto simp: distinct_map inj_on_def)
  next
    case False
    with that sub assms(1,2) show ?thesis unfolding pool_maps_def by (metis disjoint_iff imageI subsetD)
  qed
  have "distinct (map BufIova (Buffers (fs' f)))" for f
    using assms(1,3) by (auto simp: pool_maps_def distinct_map intro: inj_on_diff)
  moreover have "BufIova ` set (Buffers (fs' f)) \<inter> BufIova ` set (Buffers (fs' g)) = {}" if "f \<noteq> g" for f g
  proof -
    have "BufIova ` set (Buffers (fs f)) \<inter> BufIova ` set (Buffers (fs g)) = {}"
      using assms(1) that by (auto simp: pool_maps_def)
    with image_mono[OF sub, of BufIova f] image_mono[OF sub, of BufIova g] show ?thesis by blast
  qed
  moreover have "complete x \<and> BufIova x \<in> M - {BufIova b}" if "x \<in> set (Buffers (fs' f))" for x f
    using that ne subsetD[OF sub that] assms(1) by (auto simp: pool_maps_def)
  ultimately show ?thesis unfolding pool_maps_def by blast
qed

section \<open>The IOMMU as the pool sees it\<close>

text \<open>
  What the pool relies on: a mapping is a new non-zero IOVA, a failed mapping leaves the set of mappings
  alone, and unmapping a live mapping removes it. The provider may take kernel memory of its own for page
  tables when it maps; \<open>own\<close> is what it holds.
\<close>

locale iommu_provider =
  fixes ifc :: "'s iommu_ifc"
    and inv :: "'s \<Rightarrow> bool"
    and maps :: "'s \<Rightarrow> ULONG64 set"
    and own :: "'s \<Rightarrow> kres multiset"
  assumes map_ok: "inv s \<Longrightarrow> MapMdl ifc K s M role h = (Inr iova, s', h') \<Longrightarrow>
      inv s' \<and> iova \<noteq> 0 \<and> iova \<notin> maps s \<and> maps s' = insert iova (maps s) \<and>
      (\<exists>R. live h' = R + live h \<and> own s' = R + own s)"
    and map_fail: "inv s \<Longrightarrow> MapMdl ifc K s M role h = (Inl e, s', h') \<Longrightarrow>
      inv s' \<and> maps s' = maps s \<and> (\<exists>R. live h' = R + live h \<and> own s' = R + own s)"
    and unmap_ok: "inv s \<Longrightarrow> iova \<in> maps s \<Longrightarrow> UnmapMdl ifc s iova h = (st, s', h') \<Longrightarrow>
      inv s' \<and> maps s' = maps s - {iova} \<and> own s' = own s \<and> live h' = live h"
begin

text \<open>
  The last steps, entered with the block and its MDL held and the mapping live: a failure gives all of it
  back, a success adds the user mapping, the node and the process reference.
\<close>

lemma alloc_track_fails:
  assumes "inv s" "iova \<in> maps s"
    and P: "P = Q\<lparr>files := (files Q)(File := charge (files Q File) r),
            g_totalAllocatedBytes := g_totalAllocatedBytes Q + ucast r, iommu_st := s\<rparr>"
    and "uncharge (charge (files Q File) r) r = files Q File"
    and "alloc_track K ifc proc P File r va mdl iova h = (Inl st, P', h')"
  shows "files P' = files Q \<and> g_totalAllocatedBytes P' = g_totalAllocatedBytes Q \<and>
    inv (iommu_st P') \<and> maps (iommu_st P') = maps s - {iova} \<and> own (iommu_st P') = own s \<and>
    live h' = live h - {#MdlRes mdl#} - {#Contig va#}"
proof (cases "k_usermap K h mdl")
  case None
  obtain x s4 h4 where u: "UnmapMdl ifc s iova h = (x, s4, h4)" by (metis prod_cases3)
  have st: "iommu_st P = s" by (simp add: P)
  from assms(5) None u st have r: "P' = RkMppBufReleaseQuota (P\<lparr>iommu_st := s4\<rparr>) File r"
    "h' = Release (Contig va) # Release (MdlRes mdl) # h4"
    by (simp_all add: alloc_track_def)
  have "P' = Q\<lparr>iommu_st := s4\<rparr>"
    using release_after_reserve(1)[OF assms(4), of s4] by (simp add: r P)
  with unmap_ok[OF assms(1,2) u] r(2) show ?thesis by simp
next
  case (Some uva)
  let ?h4 = "Acquire (UserMap uva) # h"
  have pl: "k_pool K ?h4 ''BppR'' = None"
    using assms(5) Some by (auto simp: alloc_track_def ExAllocatePool2_def Let_def split: option.splits)
  obtain x s6 h6 where u: "UnmapMdl ifc s iova (Release (UserMap uva) # ?h4) = (x, s6, h6)"
    by (metis prod_cases3)
  have st: "iommu_st P = s" by (simp add: P)
  from assms(5) Some u st pl have r:
    "P' = RkMppBufReleaseQuota (P\<lparr>g_nextCookie := take_cookie (g_nextCookie P), iommu_st := s6\<rparr>) File r"
    "h' = Release (Contig va) # Release (MdlRes mdl) # h6"
    by (simp_all add: alloc_track_def ExAllocatePool2_def Let_def)
  have "P' = Q\<lparr>iommu_st := s6, g_nextCookie := take_cookie (g_nextCookie P)\<rparr>"
    using release_after_reserve(3)[OF assms(4), of s6 "take_cookie (g_nextCookie P)"]
    by (simp add: r P)
  with unmap_ok[OF assms(1,2) u] r(2) show ?thesis by simp
qed

lemma alloc_track_succeeds:
  assumes "alloc_track K ifc proc P File r va mdl iova h = (Inr out, P', h')"
  shows "\<exists>uva bp. live h' = {#ProcRef proc, Pool ''BppR'' bp, UserMap uva#} + live h \<and>
    out = \<lparr>BufferHandle = take_cookie (g_nextCookie P), OutIova = iova, OutUserVa = uva, SizeRoundedUp = r\<rparr> \<and>
    P' = P\<lparr>g_nextCookie := take_cookie (g_nextCookie P),
           files := (files P)(File := (files P File)\<lparr>Buffers := Buffers (files P File) @
             [\<lparr>BufPtr = bp, BufCookie = take_cookie (g_nextCookie P), KernelVa = Some va, BufMdl = Some mdl,
               UserVa = Some uva, BufIova = iova, BufSize = r, OwnerProcess = Some proc\<rparr>]\<rparr>)\<rparr>"
  using assms
  by (auto simp: alloc_track_def ExAllocatePool2_def Let_def split: option.splits prod.splits)

lemma alloc_block_fails:
  assumes "inv (iommu_st Q)" "oi = None \<or> oi = Some ifc"
    and P: "P = Q\<lparr>files := (files Q)(File := charge (files Q File) r),
            g_totalAllocatedBytes := g_totalAllocatedBytes Q + ucast r\<rparr>"
    and un: "uncharge (charge (files Q File) r) r = files Q File"
    and ab: "alloc_block K oi proc P File Usage r h = (Inl st, P', h')"
  shows "files P' = files Q \<and> g_totalAllocatedBytes P' = g_totalAllocatedBytes Q \<and>
    inv (iommu_st P') \<and> maps (iommu_st P') = maps (iommu_st Q) \<and>
    (\<exists>R. live h' = R + live h \<and> own (iommu_st P') = R + own (iommu_st Q))"
proof (cases "k_contig K h (unat r)")
  case None
  with assms show ?thesis by (auto simp: alloc_block_def release_after_reserve)
next
  case (Some x)
  then obtain va phys where c: "k_contig K h (unat r) = Some (va, phys)" by (cases x) auto
  let ?h1 = "Acquire (Contig va) # h"
  show ?thesis
  proof (cases "k_mdl K ?h1 va")
    case None
    with assms c show ?thesis by (auto simp: alloc_block_def release_after_reserve Let_def)
  next
    case (Some mdl)
    let ?h2 = "Acquire (MdlRes mdl) # ?h1"
    show ?thesis
    proof (cases oi)
      case None
      with assms c Some show ?thesis by (auto simp: alloc_block_def release_after_reserve Let_def)
    next
      case oi: (Some i)
      with assms(2) have oi: "oi = Some ifc" by simp
      obtain m s3 h3 where mp: "MapMdl ifc K (iommu_st Q) (MmBuildMdlForNonPagedPool phys r) Usage ?h2
          = (m, s3, h3)" by (metis prod_cases3)
      show ?thesis
      proof (cases m)
        case (Inl e)
        have "P' = RkMppBufReleaseQuota (P\<lparr>iommu_st := s3\<rparr>) File r"
          "h' = Release (Contig va) # Release (MdlRes mdl) # h3"
          using Inl mp oi c Some ab P by (simp_all add: alloc_block_def Let_def)
        moreover have "RkMppBufReleaseQuota (P\<lparr>iommu_st := s3\<rparr>) File r = Q\<lparr>iommu_st := s3\<rparr>"
          using release_after_reserve(1)[OF un, of s3] by (simp add: P)
        ultimately show ?thesis using map_fail[OF assms(1) mp[unfolded Inl]] by auto
      next
        case (Inr iova)
        note ok = map_ok[OF assms(1) mp[unfolded Inr]]
        have tr: "alloc_track K ifc proc (P\<lparr>iommu_st := s3\<rparr>) File r va mdl iova h3 = (Inl st, P', h')"
          using Inr mp oi c Some ab P by (simp add: alloc_block_def Let_def)
        from alloc_track_fails[OF _ _ _ un tr, of s3] ok P show ?thesis by auto
      qed
    qed
  qed
qed

lemma alloc_block_succeeds:
  assumes "inv (iommu_st P)" "oi = None \<or> oi = Some ifc"
    and ab: "alloc_block K oi proc P File Usage r h = (Inr out, P', h')"
  shows "\<exists>va mdl uva bp iova s' R.
    live h' = R + {#ProcRef proc, Pool ''BppR'' bp, UserMap uva, MdlRes mdl, Contig va#} + live h \<and>
    own s' = R + own (iommu_st P) \<and> inv s' \<and> iova \<noteq> 0 \<and> iova \<notin> maps (iommu_st P) \<and>
    maps s' = insert iova (maps (iommu_st P)) \<and>
    out = \<lparr>BufferHandle = take_cookie (g_nextCookie P), OutIova = iova, OutUserVa = uva, SizeRoundedUp = r\<rparr> \<and>
    P' = P\<lparr>iommu_st := s', g_nextCookie := take_cookie (g_nextCookie P),
           files := (files P)(File := (files P File)\<lparr>Buffers := Buffers (files P File) @
             [\<lparr>BufPtr = bp, BufCookie = take_cookie (g_nextCookie P), KernelVa = Some va, BufMdl = Some mdl,
               UserVa = Some uva, BufIova = iova, BufSize = r, OwnerProcess = Some proc\<rparr>]\<rparr>)\<rparr>"
proof -
  obtain va phys mdl iova s3 h3 where c: "k_contig K h (unat r) = Some (va, phys)"
    "k_mdl K (Acquire (Contig va) # h) va = Some mdl" "oi = Some ifc"
    "MapMdl ifc K (iommu_st P) (MmBuildMdlForNonPagedPool phys r) Usage
        (Acquire (MdlRes mdl) # Acquire (Contig va) # h) = (Inr iova, s3, h3)"
    using ab assms(2)
    by (auto simp: alloc_block_def Let_def split: option.splits prod.splits sum.splits)
  then have tr: "alloc_track K ifc proc (P\<lparr>iommu_st := s3\<rparr>) File r va mdl iova h3 = (Inr out, P', h')"
    using ab by (simp add: alloc_block_def Let_def)
  obtain R where ok: "inv s3" "iova \<noteq> 0" "iova \<notin> maps (iommu_st P)"
    "maps s3 = insert iova (maps (iommu_st P))" "own s3 = R + own (iommu_st P)"
    "live h3 = R + live (Acquire (MdlRes mdl) # Acquire (Contig va) # h)"
    using map_ok[OF assms(1) c(4)] by blast
  obtain uva bp where t: "live h' = {#ProcRef proc, Pool ''BppR'' bp, UserMap uva#} + live h3"
    "out = \<lparr>BufferHandle = take_cookie (g_nextCookie P), OutIova = iova, OutUserVa = uva, SizeRoundedUp = r\<rparr>"
    "P' = P\<lparr>iommu_st := s3, g_nextCookie := take_cookie (g_nextCookie P),
           files := (files P)(File := (files P File)\<lparr>Buffers := Buffers (files P File) @
             [\<lparr>BufPtr = bp, BufCookie = take_cookie (g_nextCookie P), KernelVa = Some va, BufMdl = Some mdl,
               UserVa = Some uva, BufIova = iova, BufSize = r, OwnerProcess = Some proc\<rparr>]\<rparr>)\<rparr>"
    using alloc_track_succeeds[OF tr] by auto
  have "live h' = R + {#ProcRef proc, Pool ''BppR'' bp, UserMap uva, MdlRes mdl, Contig va#} + live h"
    using t(1) ok(6) by simp
  with ok t show ?thesis by blast
qed

text \<open>Releasing one complete, mapped buffer.\<close>

lemma free_one:
  assumes "inv s" "complete b" "BufIova b \<in> maps s" "oi = Some ifc"
    and "RkMppBufFreeOne K oi b s h = (s', h')"
  shows "inv s' \<and> maps s' = maps s - {BufIova b} \<and> own s' = own s \<and>
    (\<exists>va mdl uva p. KernelVa b = Some va \<and> BufMdl b = Some mdl \<and> UserVa b = Some uva \<and> OwnerProcess b = Some p \<and>
      live h' = live h - (if k_exitsync K h p then {#UserMap uva#} else {#}) - {#MdlRes mdl#} - {#Contig va#}
        - {#ProcRef p#} - {#Pool ''BppR'' (BufPtr b)#})"
proof -
  obtain va mdl uva p where f: "KernelVa b = Some va" "BufMdl b = Some mdl" "UserVa b = Some uva"
    "OwnerProcess b = Some p" using assms(2) by (auto simp: complete_def)
  define h1 where "h1 = (if k_exitsync K h p then Release (UserMap uva) # h else h)"
  obtain x s2 h2 where u: "UnmapMdl ifc s (BufIova b) h1 = (x, s2, h2)" by (metis prod_cases3)
  have "s' = s2" "h' = Release (Pool ''BppR'' (BufPtr b)) # Release (ProcRef p) # Release (Contig va) #
      Release (MdlRes mdl) # h2"
    using assms(2,4,5) f u by (simp_all add: RkMppBufFreeOne_def complete_def ExFreePoolWithTag_def flip: h1_def)
  with unmap_ok[OF assms(1,3) u] f show ?thesis by (simp add: h1_def)
qed

text \<open>One step of release: off the list, quota back, resources back.\<close>

lemma free_step:
  assumes "pool_quota P" "inv (iommu_st P)" "pool_maps (maps (iommu_st P)) (files P)"
    and "b \<in> set (Buffers (files P File))"
    and P2: "P2 = RkMppBufReleaseQuota
      (P\<lparr>files := (files P)(File := (files P File)\<lparr>Buffers := remove1 b (Buffers (files P File))\<rparr>)\<rparr>)
      File (BufSize b)"
    and "RkMppBufFreeOne K (Some ifc) b (iommu_st P2) h = (s', h')"
  shows "pool_quota (P2\<lparr>iommu_st := s'\<rparr>) \<and> inv s' \<and> own s' = own (iommu_st P) \<and>
    maps s' = maps (iommu_st P) - {BufIova b} \<and> pool_maps (maps s') (files P2) \<and>
    (\<forall>f. Buffers (files P2 f) = (if f = File then remove1 b (Buffers (files P f)) else Buffers (files P f)))"
proof -
  have bs: "Buffers (files P2 f) = (if f = File then remove1 b (Buffers (files P f)) else Buffers (files P f))" for f
    by (simp add: P2 RkMppBufReleaseQuota_def uncharge_def)
  have st: "iommu_st P2 = iommu_st P" by (simp add: P2 RkMppBufReleaseQuota_def)
  have cb: "complete b" "BufIova b \<in> maps (iommu_st P)" using assms(3,4) by (auto simp: pool_maps_def)
  have f: "inv s'" "maps s' = maps (iommu_st P) - {BufIova b}" "own s' = own (iommu_st P)"
    using free_one[OF assms(2) cb refl assms(6)[unfolded st]] by auto
  have "pool_quota P2" using release_removed[OF assms(1,4)] P2 by simp
  then have "pool_quota (P2\<lparr>iommu_st := s'\<rparr>)" by (simp add: pool_quota_def)
  moreover have "pool_maps (maps s') (files P2)"
    using pool_maps_remove[OF assms(3,4) bs] f(2) by simp
  ultimately show ?thesis using f bs by blast
qed

lemma free_all_drains:
  assumes "pool_quota P" "inv (iommu_st P)" "pool_maps (maps (iommu_st P)) (files P)"
    and "Buffers (files P File) = bs"
    and "free_all_loop K (Some ifc) File bs P h = (P', h')"
  shows "Buffers (files P' File) = [] \<and> (\<forall>f. f \<noteq> File \<longrightarrow> Buffers (files P' f) = Buffers (files P f)) \<and>
    pool_quota P' \<and> inv (iommu_st P') \<and> pool_maps (maps (iommu_st P')) (files P') \<and>
    own (iommu_st P') = own (iommu_st P) \<and>
    maps (iommu_st P') = maps (iommu_st P) - BufIova ` set bs"
  using assms
proof (induction bs arbitrary: P h)
  case (Cons b bs)
  define P2 where "P2 = RkMppBufReleaseQuota
      (P\<lparr>files := (files P)(File := (files P File)\<lparr>Buffers := bs\<rparr>)\<rparr>) File (BufSize b)"
  obtain s1 h1 where f: "RkMppBufFreeOne K (Some ifc) b (iommu_st P2) h = (s1, h1)" by fastforce
  have bmem: "b \<in> set (Buffers (files P File))" using Cons.prems(4) by simp
  have P2': "P2 = RkMppBufReleaseQuota
      (P\<lparr>files := (files P)(File := (files P File)\<lparr>Buffers := remove1 b (Buffers (files P File))\<rparr>)\<rparr>)
      File (BufSize b)" using Cons.prems(4) by (simp add: P2_def)
  note st = free_step[OF Cons.prems(1-3) bmem P2' f]
  have l: "free_all_loop K (Some ifc) File bs (P2\<lparr>iommu_st := s1\<rparr>) h1 = (P', h')"
    using Cons.prems(5) f by (simp add: P2_def[symmetric] Let_def)
  have "Buffers (files (P2\<lparr>iommu_st := s1\<rparr>) File) = bs" using st Cons.prems(4) by simp
  from Cons.IH[OF _ _ _ this l] st show ?case by (auto simp: insert_commute)
qed simp

end

section \<open>The vdec IOMMU provides the interface\<close>

definition vdec_ifc :: "RKIOMMU_DEVICE iommu_ifc" where
  "vdec_ifc =
     \<lparr>MapMdl = (\<lambda>K dev M Role h. case RkIommuMapMdl K (Some dev) M Role h of
                 (r, odev, h') \<Rightarrow> (r, the odev, h')),
      UnmapMdl = (\<lambda>dev Iova h. case RkIommuUnmapMdl (Some dev) Iova h of
                 (s, odev, h') \<Rightarrow> (s, the odev, h'))\<rparr>"

text \<open>A master with a sound domain whose page 0 is still reserved.\<close>

definition vdec_inv :: "RKIOMMU_DEVICE \<Rightarrow> bool" where
  "vdec_inv dev \<longleftrightarrow> IsMaster dev \<and> (\<exists>d A. Domain dev = Some d \<and> dom_inv d A \<and> A 0 \<noteq> None)"

definition vdec_maps :: "RKIOMMU_DEVICE \<Rightarrow> ULONG64 set" where
  "vdec_maps dev = (case Domain dev of None \<Rightarrow> {}
     | Some d \<Rightarrow> {page_iova b |b. 0 < b \<and> b < RK_IOMMU_IOVA_PAGES \<and> bm_test (IovaStartBitmap d) b})"

definition vdec_own :: "RKIOMMU_DEVICE \<Rightarrow> kres multiset" where
  "vdec_own dev = (case Domain dev of None \<Rightarrow> {#} | Some d \<Rightarrow> mset (domain_resources d))"

lemma vdec_maps_abs:
  assumes "Domain dev = Some d" "iova_abs d A"
  shows "vdec_maps dev = page_iova ` {b. 0 < b \<and> A b \<noteq> None}"
proof -
  have "b < RK_IOMMU_IOVA_PAGES" if "A b = Some c" for b c
    using iova_abs_bounds(3)[OF assms(2) that] .
  with assms show ?thesis unfolding vdec_maps_def iova_abs_def by auto
qed

lemma vdec_map_ok:
  assumes "vdec_inv s" "MapMdl vdec_ifc K s M role h = (Inr iova, s', h')"
  shows "vdec_inv s' \<and> iova \<noteq> 0 \<and> iova \<notin> vdec_maps s \<and> vdec_maps s' = insert iova (vdec_maps s)"
proof -
  obtain d A where i: "IsMaster s" "Domain s = Some d" "dom_inv d A" "A 0 \<noteq> None"
    using assms(1) by (auto simp: vdec_inv_def)
  define pc where "pc = ADDRESS_AND_SIZE_TO_SPAN_PAGES (MdlVa M) (MdlByteCount M)"
  obtain r od hx where e: "RkIommuMapMdl K (Some s) M role h = (r, od, hx)" by (metis prod_cases3)
  with assms(2) have r: "r = Inr iova" "s' = the od" by (auto simp: vdec_ifc_def)
  from MapMdl_spec[OF i(1-3) pc_def, where K = K and Role = role and h = h] e r obtain base d' where
    b: "iova = page_iova base" "alloc_spec A base pc" "Domain s' = Some d'" "IsMaster s'"
      "dom_inv d' (A(base \<mapsto> pc))" by auto
  have D: "disjoint_allocs A" "iova_abs d A" using i(3) by (auto simp: dom_inv_def iova_abs_def)
  have fresh: "A base = None" using alloc_spec_fresh[OF D(1) b(2)] .
  have base: "0 < base" "base < RK_IOMMU_IOVA_PAGES"
    using fresh i(4) b(2) by (auto simp: alloc_spec_def intro: gr0I)
  have abs': "iova_abs d' (A(base \<mapsto> pc))" using b(5) by (simp add: dom_inv_def)
  have "iova \<noteq> 0"
    using base b(1) unat_page_iova[of base] by auto
  moreover have "iova \<notin> vdec_maps s"
  proof
    assume "iova \<in> vdec_maps s"
    then obtain b' where "page_iova base = page_iova b'" "A b' \<noteq> None"
      using vdec_maps_abs[OF i(2) D(2)] b(1) by auto
    moreover from this have "b' < RK_IOMMU_IOVA_PAGES" using iova_abs_bounds(3)[OF D(2)] by blast
    ultimately have "base = b'" using base(2) page_iova_inj by blast
    with fresh \<open>A b' \<noteq> None\<close> show False by simp
  qed
  moreover have "vdec_maps s' = insert iova (vdec_maps s)"
    using vdec_maps_abs[OF i(2) D(2)] vdec_maps_abs[OF b(3) abs'] base(1) b(1) by (auto split: if_splits)
  moreover have "vdec_inv s'"
    using b(3,4,5) i(4) by (auto simp: vdec_inv_def intro!: exI[of _ "A(base \<mapsto> pc)"])
  ultimately show ?thesis by simp
qed

lemma vdec_map_fail:
  assumes "vdec_inv s" "MapMdl vdec_ifc K s M role h = (Inl e, s', h')"
  shows "vdec_inv s' \<and> vdec_maps s' = vdec_maps s"
proof -
  obtain d A where i: "IsMaster s" "Domain s = Some d" "dom_inv d A" "A 0 \<noteq> None"
    using assms(1) by (auto simp: vdec_inv_def)
  obtain r od hx where m: "RkIommuMapMdl K (Some s) M role h = (r, od, hx)" by (metis prod_cases3)
  with assms(2) have r: "r = Inl e" "s' = the od" by (auto simp: vdec_ifc_def)
  from MapMdl_spec[OF i(1-3) refl, where K = K and M = M and Role = role and h = h] m r obtain d' where
    d: "s' = s\<lparr>Domain := Some d'\<rparr>" "dom_inv d' A" by auto
  then have "vdec_maps s' = vdec_maps s"
    using vdec_maps_abs[OF i(2), of A] vdec_maps_abs[of s' d' A] i(3) by (simp add: dom_inv_def)
  with d i show ?thesis by (auto simp: vdec_inv_def)
qed

lemma vdec_map_grow:
  assumes "vdec_inv s" "MapMdl vdec_ifc K s M role h = (r, s', h')"
  shows "\<exists>R. live h' = R + live h \<and> vdec_own s' = R + vdec_own s"
proof -
  obtain d where i: "Domain s = Some d" using assms(1) by (auto simp: vdec_inv_def)
  obtain r' od hx where m: "RkIommuMapMdl K (Some s) M role h = (r', od, hx)" by (metis prod_cases3)
  from MapMdl_grow[OF i m] m assms(2) i show ?thesis by (auto simp: vdec_ifc_def vdec_own_def)
qed

lemma UnmapMdl_memory:
  assumes "Domain dev = Some d" "RkIommuUnmapMdl (Some dev) Iova h = (s, Some dev', h')"
  shows "live h' = live h \<and> map_option domain_resources (Domain dev') = Some (domain_resources d)"
  using assms by (auto simp: RkIommuUnmapMdl_def Let_def split: if_splits)

lemma vdec_unmap:
  assumes "vdec_inv s" "iova \<in> vdec_maps s" "UnmapMdl vdec_ifc s iova h = (st, s', h')"
  shows "vdec_inv s' \<and> vdec_maps s' = vdec_maps s - {iova} \<and> vdec_own s' = vdec_own s \<and> live h' = live h"
proof -
  obtain d A where i: "IsMaster s" "Domain s = Some d" "dom_inv d A" "A 0 \<noteq> None"
    using assms(1) by (auto simp: vdec_inv_def)
  have D: "iova_abs d A" using i(3) by (simp add: dom_inv_def)
  obtain b c where b: "iova = page_iova b" "0 < b" "A b = Some c"
    using assms(2) vdec_maps_abs[OF i(2) D] by auto
  have bl: "b < RK_IOMMU_IOVA_PAGES" using iova_abs_bounds(3)[OF D b(3)] .
  obtain d' hx where u: "RkIommuUnmapMdl (Some s) iova h = (STATUS_SUCCESS, Some (s\<lparr>Domain := Some d'\<rparr>), hx)"
    "dom_inv d' (A(b := None))" using UnmapMdl_hit[OF i(1-3) b(3), of h] b(1) by auto
  have s': "s' = s\<lparr>Domain := Some d'\<rparr>" "h' = hx" using assms(3) u(1) by (auto simp: vdec_ifc_def)
  have fr: "domain_resources d' = domain_resources d \<and> live hx = live h"
    using UnmapMdl_memory[OF i(2) u(1)] by simp
  have abs': "iova_abs d' (A(b := None))" using u(2) by (simp add: dom_inv_def)
  have "vdec_maps s' = vdec_maps s - {iova}"
  proof -
    let ?S = "{x. 0 < x \<and> A x \<noteq> None}"
    have "x < RK_IOMMU_IOVA_PAGES" if "x \<in> ?S" for x using that iova_abs_bounds(3)[OF D] by blast
    then have "inj_on page_iova ?S" using page_iova_inj by (intro inj_onI) blast
    then have "page_iova ` (?S - {b}) = page_iova ` ?S - page_iova ` {b}"
      by (rule inj_on_image_set_diff) (use b in auto)
    moreover have "{x. 0 < x \<and> (A(b := None)) x \<noteq> None} = ?S - {b}" by auto
    moreover have "Domain s' = Some d'" by (simp add: s')
    ultimately show ?thesis using vdec_maps_abs[OF _ abs', of s'] vdec_maps_abs[OF i(2) D] b(1) by simp
  qed
  moreover have "vdec_inv s'"
    using s' i u(2) b(2) by (auto simp: vdec_inv_def intro!: exI[of _ "A(b := None)"])
  ultimately show ?thesis using s' fr i(2) by (simp add: vdec_own_def)
qed

interpretation vdec: iommu_provider vdec_ifc vdec_inv vdec_maps vdec_own
proof (unfold_locales, goal_cases)
  case 1 then show ?case using vdec_map_ok vdec_map_grow by blast
next
  case 2 then show ?case using vdec_map_fail vdec_map_grow by blast
next
  case 3 then show ?case by (rule vdec_unmap)
qed

end
