(* ===== verification/Buf_Props.thy ===== *)
theory Buf_Props
  imports Buf_Pool
begin

text \<open>
  The buffer pool over the vdec IOMMU: what allocation, release and file cleanup guarantee, and the
  invariant every sequence of them keeps.
\<close>

section \<open>Cookies\<close>

text \<open>Cookies in use are non-zero, were handed out by the counter, and are unique over all files.\<close>

definition cookies_ok :: "'s pool \<Rightarrow> bool" where
  "cookies_ok P \<longleftrightarrow>
     (\<forall>f. \<forall>b \<in> set (Buffers (files P f)). BufCookie b \<noteq> 0 \<and> unat (BufCookie b) \<le> unat (g_nextCookie P)) \<and>
     (\<forall>f. distinct (map BufCookie (Buffers (files P f)))) \<and>
     (\<forall>f g. f \<noteq> g \<longrightarrow> BufCookie ` set (Buffers (files P f)) \<inter> BufCookie ` set (Buffers (files P g)) = {})"

lemma take_cookie_fresh:
  assumes "n + 1 \<noteq> 0"
  shows "take_cookie n \<noteq> 0" "unat (take_cookie n) = unat n + 1"
proof -
  show "take_cookie n \<noteq> 0" using assms by (simp add: take_cookie_def)
  show "unat (take_cookie n) = unat n + 1" using assms unatSuc[of n] by (simp add: take_cookie_def add.commute)
qed

lemma cookies_ok_insert:
  assumes "cookies_ok P" "BufCookie b = take_cookie (g_nextCookie P)" "g_nextCookie P + 1 \<noteq> 0"
    and "g_nextCookie P' = take_cookie (g_nextCookie P)"
    and bs: "\<And>f. Buffers (files P' f) = (if f = File then Buffers (files P f) @ [b] else Buffers (files P f))"
  shows "cookies_ok P'"
proof -
  note t = take_cookie_fresh[OF assms(3)]
  have old: "BufCookie x \<noteq> 0 \<and> unat (BufCookie x) \<le> unat (g_nextCookie P)"
    if "x \<in> set (Buffers (files P f))" for x f using assms(1) that by (auto simp: cookies_ok_def)
  have ne: "BufCookie x \<noteq> BufCookie b" if "x \<in> set (Buffers (files P f))" for x f
    using old[OF that] t assms(2) by auto
  have nin: "BufCookie b \<notin> BufCookie ` set (Buffers (files P f))" for f using ne by (metis imageE)
  show ?thesis
    unfolding cookies_ok_def
  proof (intro conjI allI ballI impI)
    fix f x assume "x \<in> set (Buffers (files P' f))"
    then have "x = b \<or> x \<in> set (Buffers (files P f))" using bs by (auto split: if_splits)
    then show "BufCookie x \<noteq> 0" "unat (BufCookie x) \<le> unat (g_nextCookie P')"
      using old[of x f] t assms(2,4) by auto
  next
    fix f show "distinct (map BufCookie (Buffers (files P' f)))"
      using assms(1) nin by (simp add: bs cookies_ok_def)
  next
    fix f g :: ptr assume "f \<noteq> g"
    then show "BufCookie ` set (Buffers (files P' f)) \<inter> BufCookie ` set (Buffers (files P' g)) = {}"
      using assms(1) nin by (auto simp: bs cookies_ok_def)
  qed
qed

lemma cookies_ok_shrink:
  assumes "cookies_ok P" "g_nextCookie P' = g_nextCookie P"
    and "\<And>f. Buffers (files P' f) = Buffers (files P f) \<or> Buffers (files P' f) = [] \<or>
              (\<exists>n. Buffers (files P' f) = remove1 n (Buffers (files P f)))"
  shows "cookies_ok P'"
proof -
  have sub: "set (Buffers (files P' f)) \<subseteq> set (Buffers (files P f))" for f
    using assms(3)[of f] by (auto dest: set_mp[OF set_remove1_subset])
  have "distinct (map BufCookie (Buffers (files P' f)))" for f
    using assms(3)[of f] assms(1) unfolding cookies_ok_def
    by (auto simp: distinct_map intro: inj_on_diff inj_on_subset)
  moreover have "BufCookie ` set (Buffers (files P' f)) \<inter> BufCookie ` set (Buffers (files P' g)) = {}"
    if "f \<noteq> g" for f g
  proof -
    have "BufCookie ` set (Buffers (files P f)) \<inter> BufCookie ` set (Buffers (files P g)) = {}"
      using assms(1) that by (auto simp: cookies_ok_def)
    with image_mono[OF sub, of BufCookie f] image_mono[OF sub, of BufCookie g] show ?thesis by blast
  qed
  moreover have "BufCookie b \<noteq> 0 \<and> unat (BufCookie b) \<le> unat (g_nextCookie P')"
    if "b \<in> set (Buffers (files P' f))" for b f
    using subsetD[OF sub that] assms(1,2) by (auto simp: cookies_ok_def)
  ultimately show ?thesis unfolding cookies_ok_def by blast
qed

section \<open>The pool invariant\<close>

definition vdec_pool_ok :: "RKIOMMU_DEVICE pool \<Rightarrow> bool" where
  "vdec_pool_ok P \<longleftrightarrow> pool_quota P \<and> vdec_inv (iommu_st P) \<and>
     pool_maps (vdec_maps (iommu_st P)) (files P) \<and> cookies_ok P"

lemma alloc_split:
  assumes "RkMppBufAlloc K oi proc P File Usage sz h = (res, P', h')" "pool_quota P"
  shows "(\<exists>e. res = Inl e \<and> P' = P \<and> h' = h) \<or>
    (\<exists>r. RkMppBufUsageValid Usage \<and> RkMppBufRoundSize sz = Inr r \<and> valid_size r \<and>
      RkMppBufReserveQuota P File r = (STATUS_SUCCESS,
        P\<lparr>files := (files P)(File := charge (files P File) r),
          g_totalAllocatedBytes := g_totalAllocatedBytes P + ucast r\<rparr>) \<and>
      uncharge (charge (files P File) r) r = files P File \<and>
      alloc_block K oi proc (P\<lparr>files := (files P)(File := charge (files P File) r),
          g_totalAllocatedBytes := g_totalAllocatedBytes P + ucast r\<rparr>) File Usage r h = (res, P', h'))"
proof (cases "RkMppBufUsageValid Usage")
  case False
  with assms(1) show ?thesis by (auto simp: RkMppBufAlloc_def)
next
  case True
  show ?thesis
  proof (cases "RkMppBufRoundSize sz")
    case (Inl e)
    with True assms(1) show ?thesis by (auto simp: RkMppBufAlloc_def)
  next
    case (Inr r)
    note vs = round_size_valid(1)[OF Inr]
    obtain st P1 where q: "RkMppBufReserveQuota P File r = (st, P1)" by fastforce
    have b: "(res, P', h') = (if \<not> NT_SUCCESS st then (Inl st, P1, h)
        else alloc_block K oi proc P1 File Usage r h)"
      using assms(1) True Inr q by (simp add: RkMppBufAlloc_def)
    from reserve_quota_cases[OF assms(2) vs q] show ?thesis
    proof (elim disjE conjE)
      assume "st = STATUS_QUOTA_EXCEEDED" "P1 = P"
      with b show ?thesis by simp
    next
      assume "st = STATUS_SUCCESS" "P1 = P\<lparr>files := (files P)(File := charge (files P File) r),
          g_totalAllocatedBytes := g_totalAllocatedBytes P + ucast r\<rparr>"
        "uncharge (charge (files P File) r) r = files P File"
      with b True Inr vs q show ?thesis by auto
    qed
  qed
qed

lemma alloc_fail_keeps:
  assumes "vdec_pool_ok P" "oi = None \<or> oi = Some vdec_ifc"
    and "RkMppBufAlloc K oi proc P File Usage sz h = (Inl st, P', h')"
  shows "files P' = files P \<and> g_totalAllocatedBytes P' = g_totalAllocatedBytes P \<and>
    vdec_inv (iommu_st P') \<and> vdec_maps (iommu_st P') = vdec_maps (iommu_st P) \<and>
    (\<exists>R. live h' = R + live h \<and> vdec_own (iommu_st P') = R + vdec_own (iommu_st P))"
proof -
  have i: "pool_quota P" "vdec_inv (iommu_st P)" using assms(1) by (simp_all add: vdec_pool_ok_def)
  from alloc_split[OF assms(3) i(1)] show ?thesis
  proof (elim disjE exE conjE)
    fix e assume "Inl st = Inl e" "P' = P" "h' = h"
    with i show ?thesis by simp
  next
    fix r assume "uncharge (charge (files P File) r) r = files P File"
      "alloc_block K oi proc (P\<lparr>files := (files P)(File := charge (files P File) r),
          g_totalAllocatedBytes := g_totalAllocatedBytes P + ucast r\<rparr>) File Usage r h = (Inl st, P', h')"
    then show ?thesis using vdec.alloc_block_fails[OF i(2) assms(2) refl] by blast
  qed
qed

lemma alloc_success:
  assumes "vdec_pool_ok P" "oi = None \<or> oi = Some vdec_ifc" "g_nextCookie P + 1 \<noteq> 0"
    and "RkMppBufAlloc K oi proc P File Usage sz h = (Inr out, P', h')"
  shows "vdec_pool_ok P' \<and> (\<forall>f. f \<noteq> File \<longrightarrow> files P' f = files P f) \<and>
    (\<exists>b. Buffers (files P' File) = Buffers (files P File) @ [b] \<and>
       BufCookie b = BufferHandle out \<and> BufferHandle out = take_cookie (g_nextCookie P) \<and>
       BufIova b = OutIova out \<and> OutIova out \<notin> vdec_maps (iommu_st P) \<and>
       BufSize b = SizeRoundedUp out \<and> RkMppBufRoundSize sz = Inr (SizeRoundedUp out) \<and>
       (\<exists>R va mdl p. KernelVa b = Some va \<and> BufMdl b = Some mdl \<and> UserVa b = Some (OutUserVa out) \<and>
          OwnerProcess b = Some p \<and> p = proc \<and>
          live h' = R + {#ProcRef proc, Pool ''BppR'' (BufPtr b), UserMap (OutUserVa out), MdlRes mdl, Contig va#} + live h \<and>
          vdec_own (iommu_st P') = R + vdec_own (iommu_st P)))"
proof -
  have i: "pool_quota P" "vdec_inv (iommu_st P)" "pool_maps (vdec_maps (iommu_st P)) (files P)" "cookies_ok P"
    using assms(1) by (simp_all add: vdec_pool_ok_def)
  from alloc_split[OF assms(4) i(1)] obtain r where r: "RkMppBufRoundSize sz = Inr r" "valid_size r"
    "RkMppBufReserveQuota P File r = (STATUS_SUCCESS, P\<lparr>files := (files P)(File := charge (files P File) r),
          g_totalAllocatedBytes := g_totalAllocatedBytes P + ucast r\<rparr>)"
    "alloc_block K oi proc (P\<lparr>files := (files P)(File := charge (files P File) r),
          g_totalAllocatedBytes := g_totalAllocatedBytes P + ucast r\<rparr>) File Usage r h = (Inr out, P', h')"
    by blast
  define P1 where "P1 = P\<lparr>files := (files P)(File := charge (files P File) r),
          g_totalAllocatedBytes := g_totalAllocatedBytes P + ucast r\<rparr>"
  have P1: "iommu_st P1 = iommu_st P" "g_nextCookie P1 = g_nextCookie P" by (simp_all add: P1_def)
  have inv1: "vdec_inv (iommu_st P1)" using i(2) P1 by simp
  obtain va mdl uva bp iova s' R where a:
    "live h' = R + {#ProcRef proc, Pool ''BppR'' bp, UserMap uva, MdlRes mdl, Contig va#} + live h"
    "vdec_own s' = R + vdec_own (iommu_st P)" "vdec_inv s'" "iova \<noteq> 0" "iova \<notin> vdec_maps (iommu_st P)"
    "vdec_maps s' = insert iova (vdec_maps (iommu_st P))"
    "out = \<lparr>BufferHandle = take_cookie (g_nextCookie P), OutIova = iova, OutUserVa = uva, SizeRoundedUp = r\<rparr>"
    "P' = P1\<lparr>iommu_st := s', g_nextCookie := take_cookie (g_nextCookie P),
           files := (files P1)(File := (files P1 File)\<lparr>Buffers := Buffers (files P1 File) @
             [\<lparr>BufPtr = bp, BufCookie = take_cookie (g_nextCookie P), KernelVa = Some va, BufMdl = Some mdl,
               UserVa = Some uva, BufIova = iova, BufSize = r, OwnerProcess = Some proc\<rparr>]\<rparr>)\<rparr>"
    using vdec.alloc_block_succeeds[OF inv1 assms(2) r(4)[folded P1_def]] unfolding P1 by blast
  define b where "b = \<lparr>BufPtr = bp, BufCookie = take_cookie (g_nextCookie P), KernelVa = Some va, BufMdl = Some mdl,
               UserVa = Some uva, BufIova = iova, BufSize = r, OwnerProcess = Some proc\<rparr>"
  have P': "P' = P1\<lparr>iommu_st := s', g_nextCookie := take_cookie (g_nextCookie P),
     files := (files P1)(File := (files P1 File)\<lparr>Buffers := Buffers (files P1 File) @ [b]\<rparr>)\<rparr>"
    using a(8) by (simp add: b_def)
  have bs: "Buffers (files P' f) = (if f = File then Buffers (files P f) @ [b] else Buffers (files P f))" for f
    by (simp add: P' P1_def charge_def)
  have "pool_quota P'"
    unfolding P' by (rule insert_reserved[of P b File P1]) (use i(1) r(2,3) in \<open>simp_all add: b_def P1_def\<close>)
  moreover have "cookies_ok P'"
    by (rule cookies_ok_insert[OF i(4) _ assms(3) _ bs]) (simp_all add: b_def P')
  moreover have "pool_maps (vdec_maps (iommu_st P')) (files P')"
    using pool_maps_insert[OF i(3), of b "files P'" File] bs a(4,5,6) P' by (simp add: complete_def b_def)
  moreover have "\<forall>f. f \<noteq> File \<longrightarrow> files P' f = files P f" by (simp add: P' P1_def)
  ultimately show ?thesis
    using a P' bs[of File] r(1) by (simp add: vdec_pool_ok_def b_def)
qed

lemma find_cookie_Some: "find_cookie k bs = Some b \<Longrightarrow> b \<in> set bs \<and> BufCookie b = k"
  by (induction bs) (auto split: if_splits)

lemma find_cookie_None: "find_cookie k bs = None \<longleftrightarrow> k \<notin> BufCookie ` set bs"
  by (induction bs) auto

lemma find_cookie_append: "k \<notin> BufCookie ` set bs \<Longrightarrow> BufCookie b = k \<Longrightarrow> find_cookie k (bs @ [b]) = Some b"
  by (induction bs) auto

lemma find_cookie_removed:
  "distinct (map BufCookie bs) \<Longrightarrow> b \<in> set bs \<Longrightarrow> find_cookie (BufCookie b) (remove1 b bs) = None"
  by (auto simp: find_cookie_None distinct_map inj_on_def)

text \<open>Releasing a buffer that is on a list, under the whole invariant.\<close>

lemma vdec_free_step:
  assumes "vdec_pool_ok P" "b \<in> set (Buffers (files P File))"
    and P2: "P2 = RkMppBufReleaseQuota
      (P\<lparr>files := (files P)(File := (files P File)\<lparr>Buffers := remove1 b (Buffers (files P File))\<rparr>)\<rparr>)
      File (BufSize b)"
    and f: "RkMppBufFreeOne K (Some vdec_ifc) b (iommu_st P2) h = (s', h')"
  shows "vdec_pool_ok (P2\<lparr>iommu_st := s'\<rparr>) \<and> vdec_maps s' = vdec_maps (iommu_st P) - {BufIova b} \<and>
    vdec_own s' = vdec_own (iommu_st P) \<and>
    (\<forall>f. Buffers (files P2 f) = (if f = File then remove1 b (Buffers (files P f)) else Buffers (files P f)))"
proof -
  have i: "pool_quota P" "vdec_inv (iommu_st P)" "pool_maps (vdec_maps (iommu_st P)) (files P)" "cookies_ok P"
    using assms(1) by (simp_all add: vdec_pool_ok_def)
  note st = vdec.free_step[OF i(1-3) assms(2) P2 f]
  have "cookies_ok (P2\<lparr>iommu_st := s'\<rparr>)"
    using st i(4) by (intro cookies_ok_shrink[OF i(4)]) (auto simp: P2 RkMppBufReleaseQuota_def)
  with st show ?thesis by (elim conjE) (simp add: vdec_pool_ok_def)
qed

section \<open>A concrete pool\<close>

definition demo_pool :: "RKIOMMU_DEVICE pool" where
  "demo_pool = \<lparr>g_nextCookie = 1, g_totalAllocatedBytes = 0,
     files = (\<lambda>_. \<lparr>Buffers = [], AllocatedBytes = 0, BufferCount = 0, ErrorCount = 0\<rparr>), iommu_st = demo_dev\<rparr>"

lemma demo_dev_inv: "vdec_inv demo_dev"
proof -
  have "initial_allocs_vdec 0 \<noteq> None" by (simp add: initial_allocs_vdec_def)
  moreover have "IsMaster demo_dev" "Domain demo_dev = Some demo_domain" by (simp_all add: demo_dev_def)
  ultimately show ?thesis using demo_domain_inv unfolding vdec_inv_def by blast
qed

lemma load_inv:
  "\<lbrakk>\<And>f. Buffers (files P f) = []; \<And>f. AllocatedBytes (files P f) = 0; \<And>f. BufferCount (files P f) = 0;
    g_totalAllocatedBytes P = 0; vdec_inv (iommu_st P)\<rbrakk> \<Longrightarrow> vdec_pool_ok P"
  by (auto simp: vdec_pool_ok_def pool_quota_def charged_def pool_maps_def cookies_ok_def
      intro!: exI[of _ "{}"])

lemma demo_pool_ok: "vdec_pool_ok demo_pool"
  by (rule load_inv) (simp_all add: demo_pool_def demo_dev_inv)

lemma demo_round: "RkMppBufRoundSize 0x10000 = Inr 0x10000"
  by (simp add: round_size_spec)

lemma demo_map: "\<exists>iova dev' h'. MapMdl vdec_ifc demo_kernel demo_dev (MmBuildMdlForNonPagedPool 0x10000000 0x10000) 3 h
    = (Inr iova, dev', h')"
proof -
  let ?M = "MmBuildMdlForNonPagedPool 0x10000000 0x10000"
  have pc: "16 = ADDRESS_AND_SIZE_TO_SPAN_PAGES (MdlVa ?M) (MdlByteCount ?M)"
    by (simp add: ADDRESS_AND_SIZE_TO_SPAN_PAGES_def MmBuildMdlForNonPagedPool_def)
  have "alloc_spec initial_allocs_vdec 0xFFEF0 16"
    by (auto simp: alloc_spec_def covered_def initial_allocs_vdec_def split: if_splits)
  moreover have "\<forall>h. k_contig demo_kernel h RK_IOMMU_PAGE_SIZE \<noteq> None" by (simp add: demo_kernel_def)
  moreover have "\<forall>i < 16. drop_bit 32 (push_bit 12 (MdlPfns ?M i)) = 0"
  proof (intro allI impI)
    fix i :: nat assume "i < 16"
    then have "unat (MdlPfns ?M i) = 0x10000 + i"
      by (simp add: MmBuildMdlForNonPagedPool_def unat_word_ariths unsigned_of_nat take_bit_nat_eq_self)
    with \<open>i < 16\<close> show "drop_bit 32 (push_bit 12 (MdlPfns ?M i)) = 0"
      by (simp add: word_unat_eq_iff unat_drop_bit_eq unsigned_push_bit_eq push_bit_eq_mult take_bit_eq_mod
          drop_bit_eq_div [where 'a = nat] unat_word_ariths)
  qed
  moreover have "IsMaster demo_dev" "Domain demo_dev = Some demo_domain" by (simp_all add: demo_dev_def)
  ultimately obtain top dev' h' where "RkIommuMapMdl demo_kernel (Some demo_dev) ?M 3 h
      = (Inr (page_iova top), Some dev', h')"
    using MapMdl_succeeds[OF _ _ demo_domain_inv pc] by blast
  then show ?thesis by (simp add: vdec_ifc_def)
qed

lemma demo_alloc:
  "\<exists>out P' h'. RkMppBufAlloc demo_kernel (Some vdec_ifc) 7 demo_pool 1 3 0x10000 [] = (Inr out, P', h')"
proof -
  obtain iova dev' h' where m: "MapMdl vdec_ifc demo_kernel demo_dev (MmBuildMdlForNonPagedPool 0x10000000 0x10000) 3
      [Acquire (MdlRes (Suc 0)), Acquire (Contig 0)] = (Inr iova, dev', h')" using demo_map by blast
  have "fst (RkMppBufReserveQuota demo_pool 1 0x10000) = STATUS_SUCCESS"
    "iommu_st (snd (RkMppBufReserveQuota demo_pool 1 0x10000)) = demo_dev"
    by (simp_all add: RkMppBufReserveQuota_def demo_pool_def)
  then obtain P1 where q: "RkMppBufReserveQuota demo_pool 1 0x10000 = (STATUS_SUCCESS, P1)" "iommu_st P1 = demo_dev"
    by (metis prod.collapse)
  show ?thesis
    using m q by (simp add: RkMppBufAlloc_def RkMppBufUsageValid_def demo_round alloc_block_def alloc_track_def
        demo_kernel_def ExAllocatePool2_def Let_def)
qed

section \<open>Properties\<close>

text \<open>C37: an allocation that fails at any of its eight steps, a refused quota, no memory, no MDL, no IOMMU,
  a failed IOMMU mapping in its middle, no user mapping, no tracking node, leaves every file context, both
  quota counters and the set of IOMMU mappings as they were, and holds no kernel resource it did not hold
  before, page tables the IOMMU keeps for later use apart.\<close>

theorem alloc_failure_is_clean:
  assumes "vdec_pool_ok P" "oi = None \<or> oi = Some vdec_ifc"
    and "RkMppBufAlloc K oi proc P File Usage sz h = (Inl st, P', h')"
  shows "files P' = files P \<and> g_totalAllocatedBytes P' = g_totalAllocatedBytes P \<and>
    vdec_maps (iommu_st P') = vdec_maps (iommu_st P) \<and>
    (\<exists>R. live h' = R + live h \<and> vdec_own (iommu_st P') = R + vdec_own (iommu_st P))"
  using alloc_fail_keeps[OF assms] by blast

theorem alloc_failure_is_clean_witness:
  "\<exists>P' h'. RkMppBufAlloc (demo_kernel\<lparr>k_mdl := \<lambda>h va. None\<rparr>) (Some vdec_ifc) 7 demo_pool 1 3 0x10000 []
      = (Inl STATUS_INSUFFICIENT_RESOURCES, P', h') \<and> files P' = files demo_pool \<and> h' \<noteq> []"
proof -
  obtain P1 where q: "RkMppBufReserveQuota demo_pool 1 0x10000 = (STATUS_SUCCESS, P1)"
    by (simp add: RkMppBufReserveQuota_def demo_pool_def)
  have "\<exists>P' h'. RkMppBufAlloc (demo_kernel\<lparr>k_mdl := \<lambda>h va. None\<rparr>) (Some vdec_ifc) 7 demo_pool 1 3 0x10000 []
      = (Inl STATUS_INSUFFICIENT_RESOURCES, P', h') \<and> h' \<noteq> []"
    using q by (simp add: RkMppBufAlloc_def RkMppBufUsageValid_def demo_round alloc_block_def demo_kernel_def Let_def)
  with alloc_failure_is_clean[OF demo_pool_ok] show ?thesis by blast
qed

text \<open>A successful allocation appends one buffer to the caller's file and touches no other file; the
  handle is a fresh non-zero cookie that the lookup resolves to the returned IOVA and the rounded size, the
  IOVA was not mapped before, and the kernel holds exactly the five resources of the buffer more.\<close>

theorem alloc_success_registers:
  assumes "vdec_pool_ok P" "g_nextCookie P + 1 \<noteq> 0"
    and "RkMppBufAlloc K (Some vdec_ifc) proc P File Usage sz h = (Inr out, P', h')"
  shows "vdec_pool_ok P' \<and> BufferHandle out \<noteq> 0 \<and> (\<forall>f. f \<noteq> File \<longrightarrow> files P' f = files P f) \<and>
    RkMppBufLookupIova P' File (BufferHandle out) = Inr (OutIova out, SizeRoundedUp out) \<and>
    OutIova out \<notin> vdec_maps (iommu_st P) \<and> RkMppBufRoundSize sz = Inr (SizeRoundedUp out) \<and>
    (\<exists>R va mdl bp. live h' = R + {#ProcRef proc, Pool ''BppR'' bp, UserMap (OutUserVa out), MdlRes mdl, Contig va#}
        + live h \<and> vdec_own (iommu_st P') = R + vdec_own (iommu_st P))"
proof -
  obtain b where b: "Buffers (files P' File) = Buffers (files P File) @ [b]" "BufCookie b = BufferHandle out"
    "BufferHandle out = take_cookie (g_nextCookie P)" "BufIova b = OutIova out" "BufSize b = SizeRoundedUp out"
    using alloc_success[OF assms(1) _ assms(2,3)] by auto
  have "BufferHandle out \<notin> BufCookie ` set (Buffers (files P File))"
  proof
    assume "BufferHandle out \<in> BufCookie ` set (Buffers (files P File))"
    then have "unat (BufferHandle out) \<le> unat (g_nextCookie P)"
      using assms(1) by (auto simp: vdec_pool_ok_def cookies_ok_def)
    with b(3) take_cookie_fresh[OF assms(2)] show False by simp
  qed
  then have "find_cookie (BufferHandle out) (Buffers (files P' File)) = Some b"
    using b(1,2) by (simp add: find_cookie_append)
  then have "RkMppBufLookupIova P' File (BufferHandle out) = Inr (OutIova out, SizeRoundedUp out)"
    using b by (simp add: RkMppBufLookupIova_def RkMppBufLookupIovaLocked_def)
  with alloc_success[OF assms(1) _ assms(2,3)] b(3) take_cookie_fresh(1)[OF assms(2)] show ?thesis by auto
qed

theorem alloc_success_registers_witness:
  "\<exists>out P' h'. RkMppBufAlloc demo_kernel (Some vdec_ifc) 7 demo_pool 1 3 0x10000 [] = (Inr out, P', h') \<and>
     RkMppBufLookupIova P' 1 (BufferHandle out) = Inr (OutIova out, 0x10000)"
proof -
  obtain out P' h' where a:
    "RkMppBufAlloc demo_kernel (Some vdec_ifc) 7 demo_pool 1 3 0x10000 [] = (Inr out, P', h')"
    using demo_alloc by blast
  have "g_nextCookie demo_pool + 1 \<noteq> 0" by (simp add: demo_pool_def)
  from alloc_success_registers[OF demo_pool_ok this a] a demo_round show ?thesis by auto
qed

text \<open>FREE\_BUFFER. A cookie that is in use is refused as busy and a cookie that is not on the caller's
  own list is refused as not found, both without any effect; otherwise the buffer leaves the list, its
  quota is returned, its IOMMU mapping and no other is removed, and the cookie no longer resolves.\<close>

theorem free_buffer_correct:
  assumes "vdec_pool_ok P"
    and "RkMppBufFreeIfNotInUse K (Some vdec_ifc) P File Cookie (Some InUse) h = (st, P', h')"
  shows "(InUse Cookie \<longrightarrow> st = STATUS_DEVICE_BUSY \<and> P' = P \<and> h' = h) \<and>
    (\<not> InUse Cookie \<and> find_cookie Cookie (Buffers (files P File)) = None \<longrightarrow>
       st = STATUS_NOT_FOUND \<and> P' = P \<and> h' = h) \<and>
    (\<forall>b. \<not> InUse Cookie \<and> find_cookie Cookie (Buffers (files P File)) = Some b \<longrightarrow>
       st = STATUS_SUCCESS \<and> vdec_pool_ok P' \<and>
       Buffers (files P' File) = remove1 b (Buffers (files P File)) \<and>
       (\<forall>f. f \<noteq> File \<longrightarrow> Buffers (files P' f) = Buffers (files P f)) \<and>
       vdec_maps (iommu_st P') = vdec_maps (iommu_st P) - {BufIova b} \<and>
       RkMppBufLookupIova P' File Cookie = Inl STATUS_NOT_FOUND)"
proof -
  have hit: "st = STATUS_SUCCESS \<and> vdec_pool_ok P' \<and>
       Buffers (files P' File) = remove1 b (Buffers (files P File)) \<and>
       (\<forall>f. f \<noteq> File \<longrightarrow> Buffers (files P' f) = Buffers (files P f)) \<and>
       vdec_maps (iommu_st P') = vdec_maps (iommu_st P) - {BufIova b} \<and>
       RkMppBufLookupIova P' File Cookie = Inl STATUS_NOT_FOUND"
    if hb: "\<not> InUse Cookie" "find_cookie Cookie (Buffers (files P File)) = Some b" for b
  proof -
    have b: "b \<in> set (Buffers (files P File))" "BufCookie b = Cookie"
      using find_cookie_Some[OF hb(2)] by auto
    define P2 where "P2 = RkMppBufReleaseQuota
        (P\<lparr>files := (files P)(File := (files P File)\<lparr>Buffers := remove1 b (Buffers (files P File))\<rparr>)\<rparr>)
        File (BufSize b)"
    obtain s1 h1 where f: "RkMppBufFreeOne K (Some vdec_ifc) b (iommu_st P2) h = (s1, h1)" by fastforce
    note step = vdec_free_step[OF assms(1) b(1) P2_def f]
    have r: "st = STATUS_SUCCESS" "P' = P2\<lparr>iommu_st := s1\<rparr>"
      using assms(2) hb f by (auto simp: RkMppBufFreeIfNotInUse_def Let_def simp flip: P2_def)
    have "distinct (map BufCookie (Buffers (files P File)))"
      using assms(1) by (simp add: vdec_pool_ok_def cookies_ok_def)
    then have "find_cookie Cookie (Buffers (files P' File)) = None"
      using step r b by (simp add: find_cookie_removed flip: b(2))
    then have "RkMppBufLookupIova P' File Cookie = Inl STATUS_NOT_FOUND"
      by (simp add: RkMppBufLookupIova_def RkMppBufLookupIovaLocked_def)
    with step r show ?thesis by simp
  qed
  from assms(2) have "InUse Cookie \<Longrightarrow> st = STATUS_DEVICE_BUSY \<and> P' = P \<and> h' = h"
    "\<not> InUse Cookie \<Longrightarrow> find_cookie Cookie (Buffers (files P File)) = None \<Longrightarrow>
       st = STATUS_NOT_FOUND \<and> P' = P \<and> h' = h"
    by (auto simp: RkMppBufFreeIfNotInUse_def)
  with hit show ?thesis by blast
qed

theorem free_buffer_correct_witness:
  "\<exists>out P' h' P'' h''. RkMppBufAlloc demo_kernel (Some vdec_ifc) 7 demo_pool 1 3 0x10000 [] = (Inr out, P', h') \<and>
     RkMppBufFreeIfNotInUse demo_kernel (Some vdec_ifc) P' 1 (BufferHandle out) (Some (\<lambda>_. False)) h'
       = (STATUS_SUCCESS, P'', h'') \<and>
     RkMppBufLookupIova P'' 1 (BufferHandle out) = Inl STATUS_NOT_FOUND"
proof -
  obtain out P' h' where a:
    "RkMppBufAlloc demo_kernel (Some vdec_ifc) 7 demo_pool 1 3 0x10000 [] = (Inr out, P', h')"
    using demo_alloc by blast
  have "g_nextCookie demo_pool + 1 \<noteq> 0" by (simp add: demo_pool_def)
  note s = alloc_success[OF demo_pool_ok disjI2[OF refl] this a]
  then obtain b where b: "Buffers (files P' 1) = Buffers (files demo_pool 1) @ [b]" "BufCookie b = BufferHandle out"
    by blast
  then have f: "find_cookie (BufferHandle out) (Buffers (files P' 1)) = Some b" by (simp add: demo_pool_def)
  obtain st P'' h'' where fr: "RkMppBufFreeIfNotInUse demo_kernel (Some vdec_ifc) P' 1 (BufferHandle out)
      (Some (\<lambda>_. False)) h' = (st, P'', h'')" by (metis prod_cases3)
  from free_buffer_correct[OF conjunct1[OF s] fr] f a fr show ?thesis by auto
qed

text \<open>File cleanup. RkMppBufFreeAll empties the file's list, brings its byte and buffer charges to zero,
  removes the mappings of exactly its buffers from the IOMMU, leaves the buffers of every other file, and
  keeps the invariant.\<close>

theorem free_all_correct:
  assumes "vdec_pool_ok P" "RkMppBufFreeAll K (Some vdec_ifc) P File h = (P', h')"
  shows "Buffers (files P' File) = [] \<and> AllocatedBytes (files P' File) = 0 \<and> BufferCount (files P' File) = 0 \<and>
    (\<forall>f. f \<noteq> File \<longrightarrow> Buffers (files P' f) = Buffers (files P f)) \<and>
    vdec_maps (iommu_st P') = vdec_maps (iommu_st P) - BufIova ` set (Buffers (files P File)) \<and>
    vdec_own (iommu_st P') = vdec_own (iommu_st P)"
proof -
  have i: "pool_quota P" "vdec_inv (iommu_st P)" "pool_maps (vdec_maps (iommu_st P)) (files P)"
    using assms(1) by (simp_all add: vdec_pool_ok_def)
  note d = vdec.free_all_drains[OF i refl assms(2)[unfolded RkMppBufFreeAll_def]]
  then have "charged (files P' File)" "Buffers (files P' File) = []" by (simp_all add: pool_quota_def)
  then have "AllocatedBytes (files P' File) = 0" "BufferCount (files P' File) = 0"
    by (simp_all add: charged_def unsigned_eq_0_iff)
  with d show ?thesis by blast
qed

theorem free_all_correct_witness:
  "\<exists>out P' h' P'' h''. RkMppBufAlloc demo_kernel (Some vdec_ifc) 7 demo_pool 1 3 0x10000 [] = (Inr out, P', h') \<and>
     RkMppBufFreeAll demo_kernel (Some vdec_ifc) P' 1 h' = (P'', h'') \<and> Buffers (files P'' 1) = []"
proof -
  obtain out P' h' where a:
    "RkMppBufAlloc demo_kernel (Some vdec_ifc) 7 demo_pool 1 3 0x10000 [] = (Inr out, P', h')"
    using demo_alloc by blast
  have "g_nextCookie demo_pool + 1 \<noteq> 0" by (simp add: demo_pool_def)
  note s = alloc_success[OF demo_pool_ok disjI2[OF refl] this a]
  obtain P'' h'' where fr: "RkMppBufFreeAll demo_kernel (Some vdec_ifc) P' 1 h' = (P'', h'')" by fastforce
  from free_all_correct[OF conjunct1[OF s] fr] a fr show ?thesis by blast
qed

section \<open>Sequences of operations\<close>

text \<open>
  The pool's states under any interleaving of the operations of any number of files; the counter has not
  come round to its last value.
\<close>

inductive pool_reach :: "RKIOMMU_DEVICE pool \<Rightarrow> bool" where
  load: "\<lbrakk>\<And>f. Buffers (files P f) = []; \<And>f. AllocatedBytes (files P f) = 0; \<And>f. BufferCount (files P f) = 0;
     g_totalAllocatedBytes P = 0; g_nextCookie P = 1; vdec_inv (iommu_st P)\<rbrakk> \<Longrightarrow> pool_reach P"
| open_file: "pool_reach P \<Longrightarrow> Buffers (files P File) = [] \<Longrightarrow> pool_reach (snd (RkMppBufFileCtxInit P File))"
| alloc: "pool_reach P \<Longrightarrow> g_nextCookie P + 1 \<noteq> 0 \<Longrightarrow>
     RkMppBufAlloc K (Some vdec_ifc) proc P File Usage sz h = (res, P', h') \<Longrightarrow> pool_reach P'"
| free: "pool_reach P \<Longrightarrow>
     RkMppBufFreeIfNotInUse K (Some vdec_ifc) P File Cookie InUse h = (st, P', h') \<Longrightarrow> pool_reach P'"
| close_file: "pool_reach P \<Longrightarrow> RkMppBufFreeAll K (Some vdec_ifc) P File h = (P', h') \<Longrightarrow> pool_reach P'"

lemma alloc_cookie_counter:
  assumes "RkMppBufAlloc K oi proc P File Usage sz h = (res, P', h')"
  shows "g_nextCookie P' = g_nextCookie P \<or> g_nextCookie P' = take_cookie (g_nextCookie P)"
proof -
  have rel: "g_nextCookie (RkMppBufReleaseQuota Q F z) = g_nextCookie Q" for Q :: "'a pool" and F z
    by (simp add: RkMppBufReleaseQuota_def)
  have res: "RkMppBufReserveQuota Q F z = (st, Q') \<Longrightarrow> g_nextCookie Q' = g_nextCookie Q"
    for Q Q' :: "'a pool" and F z st
    by (auto simp: RkMppBufReserveQuota_def Let_def split: if_splits)
  have tr: "alloc_track K i proc Q File r va mdl iova h = (res, Q', h') \<Longrightarrow>
      g_nextCookie Q' = g_nextCookie Q \<or> g_nextCookie Q' = take_cookie (g_nextCookie Q)"
    for i and Q Q' :: "'a pool" and r va mdl iova h res h'
    by (auto simp: alloc_track_def Let_def rel split: option.splits prod.splits)
  have bl: "alloc_block K oi proc Q File Usage r h = (res, Q', h') \<Longrightarrow>
      g_nextCookie Q' = g_nextCookie Q \<or> g_nextCookie Q' = take_cookie (g_nextCookie Q)"
    for Q Q' :: "'a pool" and r h res h'
    by (auto simp: alloc_block_def Let_def rel split: option.splits prod.splits sum.splits dest!: tr)
  show ?thesis
    using assms by (auto simp: RkMppBufAlloc_def split: if_splits sum.splits prod.splits dest!: res bl)
qed

lemma alloc_inv:
  assumes "vdec_pool_ok P" "g_nextCookie P + 1 \<noteq> 0"
    and "RkMppBufAlloc K (Some vdec_ifc) proc P File Usage sz h = (res, P', h')"
  shows "vdec_pool_ok P'"
proof (cases res)
  case (Inl st)
  note k = alloc_fail_keeps[OF assms(1) _ assms(3)[unfolded Inl]]
  have "unat (g_nextCookie P) \<le> unat (g_nextCookie P')"
    using alloc_cookie_counter[OF assms(3)] take_cookie_fresh(2)[OF assms(2)] by auto
  then have "cookies_ok P'"
    using assms(1) k unfolding vdec_pool_ok_def cookies_ok_def by (auto intro: order_trans)
  with k assms(1) show ?thesis by (auto simp: vdec_pool_ok_def pool_quota_def)
next
  case (Inr out)
  with alloc_success[OF assms(1) _ assms(2)] assms(3) show ?thesis by blast
qed

lemma free_inv:
  assumes "vdec_pool_ok P"
    and "RkMppBufFreeIfNotInUse K (Some vdec_ifc) P File Cookie InUse h = (st, P', h')"
  shows "vdec_pool_ok P'"
proof (cases "(case InUse of None \<Rightarrow> False | Some f \<Rightarrow> f Cookie) \<or> find_cookie Cookie (Buffers (files P File)) = None")
  case True
  with assms show ?thesis by (auto simp: RkMppBufFreeIfNotInUse_def split: if_splits)
next
  case False
  then obtain b where b: "find_cookie Cookie (Buffers (files P File)) = Some b" by auto
  define P2 where "P2 = RkMppBufReleaseQuota
      (P\<lparr>files := (files P)(File := (files P File)\<lparr>Buffers := remove1 b (Buffers (files P File))\<rparr>)\<rparr>)
      File (BufSize b)"
  obtain s1 h1 where f: "RkMppBufFreeOne K (Some vdec_ifc) b (iommu_st P2) h = (s1, h1)" by fastforce
  have "P' = P2\<lparr>iommu_st := s1\<rparr>"
    using assms(2) False b f by (auto simp: RkMppBufFreeIfNotInUse_def Let_def simp flip: P2_def)
  with vdec_free_step[OF assms(1) _ P2_def f] find_cookie_Some[OF b] show ?thesis by blast
qed

lemma free_all_cookie_counter:
  "free_all_loop K oi File bs P h = (P', h') \<Longrightarrow> g_nextCookie P' = g_nextCookie P"
  by (induction K oi File bs P h rule: free_all_loop.induct)
    (auto simp: Let_def RkMppBufReleaseQuota_def split: prod.splits)

lemma free_all_inv:
  assumes "vdec_pool_ok P" "RkMppBufFreeAll K (Some vdec_ifc) P File h = (P', h')"
  shows "vdec_pool_ok P'"
proof -
  have i: "pool_quota P" "vdec_inv (iommu_st P)" "pool_maps (vdec_maps (iommu_st P)) (files P)" "cookies_ok P"
    using assms(1) by (simp_all add: vdec_pool_ok_def)
  note l = assms(2)[unfolded RkMppBufFreeAll_def]
  note d = vdec.free_all_drains[OF i(1-3) refl l]
  have "Buffers (files P' f) = Buffers (files P f) \<or> Buffers (files P' f) = []" for f
    using d by (cases "f = File") auto
  then have "cookies_ok P'"
    using free_all_cookie_counter[OF l] by (intro cookies_ok_shrink[OF i(4)]) blast+
  with d show ?thesis unfolding vdec_pool_ok_def by blast
qed

lemma init_inv:
  assumes "vdec_pool_ok P" "Buffers (files P File) = []"
  shows "vdec_pool_ok (snd (RkMppBufFileCtxInit P File))"
proof -
  have "charged (files P File)" using assms(1) by (simp add: vdec_pool_ok_def pool_quota_def)
  then have "AllocatedBytes (files P File) = 0" "BufferCount (files P File) = 0"
    using assms(2) by (simp_all add: charged_def unsigned_eq_0_iff)
  then have "(files P File)\<lparr>Buffers := [], AllocatedBytes := 0, BufferCount := 0\<rparr> = files P File"
    using assms(2) by simp
  with assms(1) show ?thesis by (simp add: RkMppBufFileCtxInit_def)
qed

lemma pool_reach_inv: "pool_reach P \<Longrightarrow> vdec_pool_ok P"
proof (induction rule: pool_reach.induct)
  case load then show ?case by (intro load_inv)
next
  case open_file then show ?case using init_inv by blast
next
  case alloc then show ?case using alloc_inv by blast
next
  case free then show ?case using free_inv by blast
next
  case close_file then show ?case using free_all_inv by blast
qed



text \<open>The size check accepts exactly 1 byte to 128 MiB and rounds up to the next page; no accepted size
  is rounded past the limit and no 32-bit addition wraps.\<close>

theorem round_size_correct:
  "RkMppBufRoundSize sz =
     (if sz = 0 \<or> sz > RKMPP_MAX_BUFFER_BYTES then Inl STATUS_INVALID_PARAMETER
      else Inr (of_nat ((unat sz + 4095) div 4096 * 4096)))"
  by (rule round_size_spec)

end
