(* ===== verification/Dense_Bank.thy ===== *)
theory Dense_Bank
  imports Buf_Props
begin

text \<open>
  The dense register bank of \<^verbatim>\<open>shared/rkmpp_ioctl.h\<close>, the job descriptor of \<^verbatim>\<open>driver/rkvdec/job.h\<close>, and the part of
  \<^verbatim>\<open>RkMppJobSubmitDense\<close> that resolves buffer handles to device addresses and stamps them into the bank.
\<close>

section \<open>Banks, slots and the submission\<close>

record RKMPP_DENSE_BANK =
  Common :: "ULONG list"
  CodecParams :: "ULONG list"
  CommonAddr :: "ULONG list"
  CodecAddr :: "ULONG list"
  HighPoc :: "ULONG list"
  Stat :: "ULONG list"

abbreviation RKMPP_DENSE_COMMON_FIRST :: ULONG where "RKMPP_DENSE_COMMON_FIRST \<equiv> 8"
abbreviation RKMPP_DENSE_CPARAM_FIRST :: ULONG where "RKMPP_DENSE_CPARAM_FIRST \<equiv> 64"
abbreviation RKMPP_DENSE_CADDR_FIRST :: ULONG where "RKMPP_DENSE_CADDR_FIRST \<equiv> 128"
abbreviation RKMPP_DENSE_CADDR_LAST :: ULONG where "RKMPP_DENSE_CADDR_LAST \<equiv> 142"
abbreviation RKMPP_DENSE_CODADDR_FIRST :: ULONG where "RKMPP_DENSE_CODADDR_FIRST \<equiv> 160"
abbreviation RKMPP_DENSE_CODADDR_LAST :: ULONG where "RKMPP_DENSE_CODADDR_LAST \<equiv> 199"
abbreviation RKMPP_DENSE_HIPOC_FIRST :: ULONG where "RKMPP_DENSE_HIPOC_FIRST \<equiv> 200"
abbreviation RKMPP_DENSE_STAT_FIRST :: ULONG where "RKMPP_DENSE_STAT_FIRST \<equiv> 256"
abbreviation RKMPP_DENSE_KICK_REG_IDX :: ULONG where "RKMPP_DENSE_KICK_REG_IDX \<equiv> 10"

text \<open>The array bounds of the C type.\<close>

definition bank_ok :: "RKMPP_DENSE_BANK \<Rightarrow> bool" where
  "bank_ok b \<longleftrightarrow> length (Common b) = 25 \<and> length (CodecParams b) = 49 \<and> length (CommonAddr b) = 15 \<and>
     length (CodecAddr b) = 40 \<and> length (HighPoc b) = 5 \<and> length (Stat b) = 22"

record RKMPP_DENSE_IOVA_SLOT =
  RegIdx :: ULONG
  IovaOffset :: ULONG
  SlotHandle :: ULONG64

record RKMPP_BUFFER_REF =
  RefHandle :: ULONG64
  Role :: ULONG

record RKMPP_SUBMIT_DENSE_JOB_IN =
  InIovaSlotCount :: ULONG
  InBufRefCount :: ULONG
  InKickValue :: ULONG
  InBank :: RKMPP_DENSE_BANK
  InIovaSlots :: "RKMPP_DENSE_IOVA_SLOT list"
  InBufRefs :: "RKMPP_BUFFER_REF list"

definition RkMppDenseIsAddressReg :: "ULONG \<Rightarrow> bool" where
  "RkMppDenseIsAddressReg r \<longleftrightarrow>
     (if r \<ge> RKMPP_DENSE_CADDR_FIRST \<and> r \<le> RKMPP_DENSE_CADDR_LAST then True
      else if r = 161 \<or> r = 163 then True
      else if r \<ge> 164 \<and> r \<le> 179 then True
      else if r = 180 then True
      else if r \<ge> 181 \<and> r \<le> 196 then True
      else if r = 197 then True
      else if r = 160 then True
      else if r = 162 then True
      else if r = 167 then True
      else if r = 168 then True
      else if r = 169 then True
      else if r = 170 then True
      else if r \<ge> 171 \<and> r \<le> 178 then True
      else if r = 179 then True
      else False)"

section \<open>The job descriptor\<close>

text \<open>
  A count and its array are one list: \<^verbatim>\<open>BufRefs\<close>, \<^verbatim>\<open>CleanMdls\<close>, \<^verbatim>\<open>DenseIovaSlots\<close>. A NULL file object is
  None. \<^verbatim>\<open>Done\<close> is the state of the notification event.
\<close>

record RKMPP_JOB =
  Id :: ULONG64
  Done :: bool
  Result :: NTSTATUS
  HardwareStatus :: ULONG
  StartQpc :: ULONG64
  EndQpc :: ULONG64
  Owner :: "ptr option"
  BufRefs :: "RKMPP_BUFFER_REF list"
  CleanMdls :: "ptr list"
  OutputFrameMdl :: "ptr option"
  ColmvCurMdl :: "ptr option"
  DenseKickValue :: ULONG
  DenseBank :: RKMPP_DENSE_BANK
  DenseIovaSlots :: "RKMPP_DENSE_IOVA_SLOT list"
  KickDecMode :: ULONG
  KickPrevDecMode :: ULONG
  KickPrevOwner :: "ptr option"
  KickSwitchOwner :: bool
  KickSwitchMode :: bool
  KickPrevValid :: bool
  TargetCore :: ULONG
  OrphanOnComplete :: bool
  WaiterPin :: int

definition zero_bank :: RKMPP_DENSE_BANK where
  "zero_bank = \<lparr>Common = replicate 25 0, CodecParams = replicate 49 0, CommonAddr = replicate 15 0,
     CodecAddr = replicate 40 0, HighPoc = replicate 5 0, Stat = replicate 22 0\<rparr>"

text \<open>A freshly zeroed descriptor whose event has been initialised to not signalled.\<close>

definition zero_job :: RKMPP_JOB where
  "zero_job = \<lparr>Id = 0, Done = False, Result = 0, HardwareStatus = 0, StartQpc = 0, EndQpc = 0, Owner = None,
     BufRefs = [], CleanMdls = [], OutputFrameMdl = None, ColmvCurMdl = None, DenseKickValue = 0,
     DenseBank = zero_bank, DenseIovaSlots = [], KickDecMode = 0, KickPrevDecMode = 0, KickPrevOwner = None,
     KickSwitchOwner = False, KickSwitchMode = False, KickPrevValid = False, TargetCore = 0,
     OrphanOnComplete = False, WaiterPin = 0\<rparr>"

definition RkMppJobReferencesBuffer :: "RKMPP_JOB option \<Rightarrow> ptr \<Rightarrow> ULONG64 \<Rightarrow> bool" where
  "RkMppJobReferencesBuffer Job File Cookie =
     (case Job of
        None \<Rightarrow> False
      | Some j \<Rightarrow>
          (if Owner j \<noteq> Some File \<or> Cookie = 0 then False
           else if \<exists>s \<in> set (DenseIovaSlots j). SlotHandle s = Cookie then True
           else \<exists>r \<in> set (BufRefs j). RefHandle r = Cookie))"

section \<open>Resolving the slots\<close>

text \<open>The word of the bank a slot names, when it lies in one of the two address banks.\<close>

definition stamp_bank :: "ULONG \<Rightarrow> ULONG \<Rightarrow> RKMPP_DENSE_BANK \<Rightarrow> RKMPP_DENSE_BANK option" where
  "stamp_bank r v b =
     (if r \<ge> RKMPP_DENSE_CADDR_FIRST \<and> r \<le> RKMPP_DENSE_CADDR_LAST
      then Some (b\<lparr>CommonAddr := (CommonAddr b)[unat (r - RKMPP_DENSE_CADDR_FIRST) := v]\<rparr>)
      else if r \<ge> RKMPP_DENSE_CODADDR_FIRST \<and> r \<le> RKMPP_DENSE_CODADDR_LAST
      then Some (b\<lparr>CodecAddr := (CodecAddr b)[unat (r - RKMPP_DENSE_CODADDR_FIRST) := v]\<rparr>)
      else None)"

text \<open>Append to the array of eight, once per MDL.\<close>

definition add_clean :: "ptr \<Rightarrow> RKMPP_JOB \<Rightarrow> RKMPP_JOB" where
  "add_clean mdl j =
     (if mdl \<in> set (CleanMdls j) then j
      else if length (CleanMdls j) < 8 then j\<lparr>CleanMdls := CleanMdls j @ [mdl]\<rparr>
      else j)"

text \<open>
  The cache-maintenance class of a resolved slot. The handles of reg162 and reg172 are remembered and decided
  after the loop.
\<close>

definition classify_slot :: "ptr option \<Rightarrow> RKMPP_DENSE_IOVA_SLOT \<Rightarrow> RKMPP_JOB \<times> ULONG64 \<times> ULONG64 \<Rightarrow>
    RKMPP_JOB \<times> ULONG64 \<times> ULONG64" where
  "classify_slot omdl s st =
     (case st of (j, h162, h172) \<Rightarrow>
      (case omdl of
         None \<Rightarrow> (j, h162, h172)
       | Some mdl \<Rightarrow>
         (let byteOff = RegIdx s * 4 in
          if byteOff = 0x288 then (j, SlotHandle s, h172)
          else if byteOff = 0x2B0 then (j, h162, SlotHandle s)
          else if byteOff = 0x208 then
            (if OutputFrameMdl j = None then j\<lparr>OutputFrameMdl := Some mdl\<rparr> else j, h162, h172)
          else if byteOff = 0x20C then
            (add_clean mdl (if ColmvCurMdl j = None then j\<lparr>ColmvCurMdl := Some mdl\<rparr> else j), h162, h172)
          else if byteOff = 0x200 \<or> byteOff = 0x204 \<or> byteOff = 0x280 \<or> byteOff = 0x284 \<or> byteOff = 0x28C \<or>
                  byteOff = 0x2D0
          then (add_clean mdl j, h162, h172)
          else (j, h162, h172))))"

fun resolve_slots :: "RKMPP_FILE_CTX \<Rightarrow> RKMPP_DENSE_IOVA_SLOT list \<Rightarrow> RKMPP_JOB \<times> ULONG64 \<times> ULONG64 \<Rightarrow>
    NTSTATUS \<times> RKMPP_JOB \<times> ULONG64 \<times> ULONG64" where
  "resolve_slots ctx [] st = (STATUS_SUCCESS, st)"
| "resolve_slots ctx (s # ss) (j, h162, h172) =
     (let j1 = j\<lparr>DenseIovaSlots := DenseIovaSlots j @ [s]\<rparr> in
      if \<not> RkMppDenseIsAddressReg (RegIdx s) then (STATUS_INVALID_PARAMETER, j1, h162, h172)
      else if SlotHandle s = 0 then (STATUS_INVALID_PARAMETER, j1, h162, h172)
      else case RkMppBufLookupIovaLocked ctx (SlotHandle s) of
        Inl _ \<Rightarrow> (STATUS_INVALID_HANDLE, j1, h162, h172)
      | Inr (iova, bufSize) \<Rightarrow>
          (if IovaOffset s \<ge> bufSize then (STATUS_INVALID_PARAMETER, j1, h162, h172)
           else case stamp_bank (RegIdx s) (ucast (iova + ucast (IovaOffset s))) (DenseBank j1) of
             None \<Rightarrow> (STATUS_INVALID_PARAMETER, j1, h162, h172)
           | Some b \<Rightarrow>
               resolve_slots ctx ss
                 (classify_slot
                    (case RkMppBufLookupMdlLocked ctx (SlotHandle s) of Inl _ \<Rightarrow> None | Inr m \<Rightarrow> m) s
                    (j1\<lparr>DenseBank := b\<rparr>, h162, h172))))"

text \<open>The decision on reg162 after the loop: cleaned unless it names the write-back buffer of reg172.\<close>

definition clean_reg162 :: "RKMPP_FILE_CTX \<Rightarrow> RKMPP_JOB \<times> ULONG64 \<times> ULONG64 \<Rightarrow> RKMPP_JOB" where
  "clean_reg162 ctx st =
     (case st of (j, h162, h172) \<Rightarrow>
      if h162 \<noteq> 0 \<and> h162 \<noteq> h172
      then (case RkMppBufLookupMdlLocked ctx h162 of
              Inr (Some mdl) \<Rightarrow> add_clean mdl j
            | _ \<Rightarrow> j)
      else j)"

text \<open>
  \<^verbatim>\<open>RkMppJobSubmitDense\<close> from the zeroed descriptor to the copied buffer references: the job it will queue,
  or the status it fails with.
\<close>

definition build_job :: "RKMPP_FILE_CTX \<Rightarrow> ptr \<Rightarrow> RKMPP_SUBMIT_DENSE_JOB_IN \<Rightarrow> NTSTATUS + RKMPP_JOB" where
  "build_job ctx File In =
     (let j0 = zero_job\<lparr>Owner := Some File, DenseKickValue := InKickValue In, DenseBank := InBank In\<rparr> in
      case resolve_slots ctx (take (unat (InIovaSlotCount In)) (InIovaSlots In)) (j0, 0, 0) of
        (status, st) \<Rightarrow>
          (if \<not> NT_SUCCESS status then Inl status
           else Inr ((clean_reg162 ctx st)\<lparr>BufRefs := take (unat (InBufRefCount In)) (InBufRefs In)\<rparr>)))"

end
