(* ===== verification/Dense_Props.thy ===== *)
theory Dense_Props
  imports Dense_Bank
begin

text \<open>
  Correctness of the handle resolution: which submissions pass, what ends up in every register of the bank,
  which buffers a job keeps in use, and that every buffer the CPU wrote is cleaned before the codec reads it.
\<close>

section \<open>Address registers\<close>

lemma address_reg_iff:
  "RkMppDenseIsAddressReg r \<longleftrightarrow> 128 \<le> unat r \<and> unat r \<le> 142 \<or> 160 \<le> unat r \<and> unat r \<le> 197"
  unfolding RkMppDenseIsAddressReg_def by (simp add: word_le_nat_alt word_unat_eq_iff) arith

text \<open>The word of a bank at a register index; None outside the six ranges.\<close>

definition bank_word :: "RKMPP_DENSE_BANK \<Rightarrow> nat \<Rightarrow> ULONG option" where
  "bank_word b i =
     (if 8 \<le> i \<and> i \<le> 32 then Some (Common b ! (i - 8))
      else if 64 \<le> i \<and> i \<le> 112 then Some (CodecParams b ! (i - 64))
      else if 128 \<le> i \<and> i \<le> 142 then Some (CommonAddr b ! (i - 128))
      else if 160 \<le> i \<and> i \<le> 199 then Some (CodecAddr b ! (i - 160))
      else if 200 \<le> i \<and> i \<le> 204 then Some (HighPoc b ! (i - 200))
      else if 256 \<le> i \<and> i \<le> 277 then Some (Stat b ! (i - 256))
      else None)"

lemma unat_diff_const: "unat c \<le> unat r \<Longrightarrow> unat (r - c) = unat r - unat (c :: ULONG)"
  by (simp add: unat_sub word_le_nat_alt)

lemma stamp_bank_address:
  assumes "RkMppDenseIsAddressReg r" "bank_ok b"
  obtains b' where "stamp_bank r v b = Some b'" "bank_ok b'"
    "\<And>i. bank_word b' i = (if i = unat r then Some v else bank_word b i)"
proof (cases "128 \<le> unat r \<and> unat r \<le> 142")
  case True
  then have u: "unat (r - 128) = unat r - 128" using unat_diff_const[of 128 r] by simp
  let ?b' = "b\<lparr>CommonAddr := (CommonAddr b)[unat (r - 128) := v]\<rparr>"
  have 1: "stamp_bank r v b = Some ?b'" using True by (simp add: stamp_bank_def word_le_nat_alt)
  have 2: "bank_ok ?b'" using assms(2) by (simp add: bank_ok_def)
  have l: "length (CommonAddr b) = 15" using assms(2) by (simp add: bank_ok_def)
  have "bank_word ?b' i = (if i = unat r then Some v else bank_word b i)" for i
    using True l unfolding bank_word_def u by (auto simp: nth_list_update)
  then show ?thesis using that 1 2 by blast
next
  case False
  then have r: "160 \<le> unat r" "unat r \<le> 197" using assms(1) by (auto simp: address_reg_iff)
  then have u: "unat (r - 160) = unat r - 160" using unat_diff_const[of 160 r] by simp
  let ?b' = "b\<lparr>CodecAddr := (CodecAddr b)[unat (r - 160) := v]\<rparr>"
  have 1: "stamp_bank r v b = Some ?b'" using r False by (simp add: stamp_bank_def word_le_nat_alt)
  have 2: "bank_ok ?b'" using assms(2) by (simp add: bank_ok_def)
  have l: "length (CodecAddr b) = 40" using assms(2) by (simp add: bank_ok_def)
  have "bank_word ?b' i = (if i = unat r then Some v else bank_word b i)" for i
    using r l unfolding bank_word_def u by (auto simp: nth_list_update)
  then show ?thesis using that 1 2 by blast
qed

section \<open>The resolution loop as a fold\<close>

definition slot_ok :: "RKMPP_FILE_CTX \<Rightarrow> RKMPP_DENSE_IOVA_SLOT \<Rightarrow> bool" where
  "slot_ok ctx s \<longleftrightarrow> RkMppDenseIsAddressReg (RegIdx s) \<and> SlotHandle s \<noteq> 0 \<and>
     (case find_cookie (SlotHandle s) (Buffers ctx) of None \<Rightarrow> False | Some b \<Rightarrow> IovaOffset s < BufSize b)"

definition slot_error :: "RKMPP_FILE_CTX \<Rightarrow> RKMPP_DENSE_IOVA_SLOT \<Rightarrow> NTSTATUS" where
  "slot_error ctx s =
     (if RkMppDenseIsAddressReg (RegIdx s) \<and> SlotHandle s \<noteq> 0 \<and> find_cookie (SlotHandle s) (Buffers ctx) = None
      then STATUS_INVALID_HANDLE else STATUS_INVALID_PARAMETER)"

text \<open>The device address a slot resolves to, and the MDL of its buffer.\<close>

definition slot_addr :: "RKMPP_FILE_CTX \<Rightarrow> RKMPP_DENSE_IOVA_SLOT \<Rightarrow> ULONG" where
  "slot_addr ctx s =
     (case find_cookie (SlotHandle s) (Buffers ctx) of
        None \<Rightarrow> 0 | Some b \<Rightarrow> ucast (BufIova b + ucast (IovaOffset s)))"

definition slot_mdl :: "RKMPP_FILE_CTX \<Rightarrow> RKMPP_DENSE_IOVA_SLOT \<Rightarrow> ptr option" where
  "slot_mdl ctx s = (case find_cookie (SlotHandle s) (Buffers ctx) of None \<Rightarrow> None | Some b \<Rightarrow> BufMdl b)"

definition slot_step :: "RKMPP_FILE_CTX \<Rightarrow> RKMPP_DENSE_IOVA_SLOT \<Rightarrow> RKMPP_JOB \<times> ULONG64 \<times> ULONG64 \<Rightarrow>
    RKMPP_JOB \<times> ULONG64 \<times> ULONG64" where
  "slot_step ctx s st =
     (case st of (j, h162, h172) \<Rightarrow>
      classify_slot (slot_mdl ctx s) s
        (j\<lparr>DenseIovaSlots := DenseIovaSlots j @ [s],
           DenseBank := the (stamp_bank (RegIdx s) (slot_addr ctx s) (DenseBank j))\<rparr>, h162, h172))"

lemma stamp_address_Some: "RkMppDenseIsAddressReg r \<Longrightarrow> stamp_bank r v b = Some (the (stamp_bank r v b))"
  by (auto simp: stamp_bank_def address_reg_iff word_le_nat_alt)

lemma stamp_address_not_None: "RkMppDenseIsAddressReg r \<Longrightarrow> stamp_bank r v b \<noteq> None"
  using stamp_address_Some[of r v b] by auto

lemma resolve_slots_Cons:
  "resolve_slots ctx (s # ss) st =
     (if slot_ok ctx s then resolve_slots ctx ss (slot_step ctx s st)
      else (slot_error ctx s, (fst st)\<lparr>DenseIovaSlots := DenseIovaSlots (fst st) @ [s]\<rparr>, snd st))"
proof (cases st)
  case st: (fields j h162 h172)
  show ?thesis
  proof (cases "slot_ok ctx s")
    case True
    then obtain b where b: "find_cookie (SlotHandle s) (Buffers ctx) = Some b" "IovaOffset s < BufSize b"
      "RkMppDenseIsAddressReg (RegIdx s)" "SlotHandle s \<noteq> 0"
      by (auto simp: slot_ok_def split: option.splits)
    obtain B where B: "stamp_bank (RegIdx s) (slot_addr ctx s) (DenseBank j) = Some B"
      using stamp_address_not_None[OF b(3)] by fastforce
    then show ?thesis using True b not_le[of "BufSize b" "IovaOffset s"]
      by (simp add: st slot_step_def slot_mdl_def RkMppBufLookupIovaLocked_def RkMppBufLookupMdlLocked_def
          slot_addr_def Let_def)
  next
    case False
    then show ?thesis
      by (auto simp: st slot_ok_def slot_error_def RkMppBufLookupIovaLocked_def Let_def not_less split: option.splits)
  qed
qed

lemma slot_error_fails: "\<not> NT_SUCCESS (slot_error ctx s)"
  by (simp add: slot_error_def)

text \<open>The loop passes iff every slot is acceptable, and otherwise reports the first one that is not.\<close>

lemma resolve_slots_char:
  "fst (resolve_slots ctx ss st) =
     (case find (\<lambda>s. \<not> slot_ok ctx s) ss of None \<Rightarrow> STATUS_SUCCESS | Some s \<Rightarrow> slot_error ctx s)"
  "\<forall>s \<in> set ss. slot_ok ctx s \<Longrightarrow> resolve_slots ctx ss st = (STATUS_SUCCESS, fold (slot_step ctx) ss st)"
  by (induction ss arbitrary: st) (auto simp: resolve_slots_Cons simp del: resolve_slots.simps(2))

lemma resolve_slots_ok_iff:
  "NT_SUCCESS (fst (resolve_slots ctx ss st)) \<longleftrightarrow> (\<forall>s \<in> set ss. slot_ok ctx s)"
  by (auto simp: resolve_slots_char(1) slot_error_fails find_None_iff find_Some_iff split: option.splits)


section \<open>What the fold leaves in the job\<close>

lemma add_clean_frame [simp]:
  "DenseBank (add_clean m j) = DenseBank j" "DenseIovaSlots (add_clean m j) = DenseIovaSlots j"
  "Owner (add_clean m j) = Owner j" "DenseKickValue (add_clean m j) = DenseKickValue j"
  "OutputFrameMdl (add_clean m j) = OutputFrameMdl j" "ColmvCurMdl (add_clean m j) = ColmvCurMdl j"
  "Id (add_clean m j) = Id j" "Done (add_clean m j) = Done j" "TargetCore (add_clean m j) = TargetCore j"
  "OrphanOnComplete (add_clean m j) = OrphanOnComplete j" "WaiterPin (add_clean m j) = WaiterPin j"
  by (simp_all add: add_clean_def)

text \<open>The fields of a job that resolution does not touch.\<close>

definition job_frame :: "RKMPP_JOB \<Rightarrow> RKMPP_JOB \<Rightarrow> bool" where
  "job_frame j j' \<longleftrightarrow> Owner j' = Owner j \<and> DenseKickValue j' = DenseKickValue j \<and> Id j' = Id j \<and>
     Done j' = Done j \<and> TargetCore j' = TargetCore j \<and> OrphanOnComplete j' = OrphanOnComplete j \<and>
     WaiterPin j' = WaiterPin j"

lemma classify_frame:
  "DenseBank (fst (classify_slot m s st)) = DenseBank (fst st)"
  "DenseIovaSlots (fst (classify_slot m s st)) = DenseIovaSlots (fst st)"
  "job_frame (fst st) (fst (classify_slot m s st))"
  by (auto simp: classify_slot_def job_frame_def Let_def split: prod.splits option.splits)

lemma slot_step_frame:
  "DenseIovaSlots (fst (slot_step ctx s st)) = DenseIovaSlots (fst st) @ [s]"
  "DenseBank (fst (slot_step ctx s st)) = the (stamp_bank (RegIdx s) (slot_addr ctx s) (DenseBank (fst st)))"
  "job_frame (fst st) (fst (slot_step ctx s st))"
  using classify_frame(3) by (auto simp: slot_step_def classify_frame(1,2) job_frame_def split: prod.splits)

lemma fold_slots_frame:
  "DenseIovaSlots (fst (fold (slot_step ctx) ss st)) = DenseIovaSlots (fst st) @ ss"
  "job_frame (fst st) (fst (fold (slot_step ctx) ss st))"
proof (induction ss arbitrary: st)
  case (Cons s ss)
  { case 1 then show ?case using Cons(1) by (simp add: slot_step_frame) }
  { case 2 then show ?case using Cons(2)[of "slot_step ctx s st"] slot_step_frame(3)[of st ctx s]
      by (simp add: job_frame_def) }
qed (simp_all add: job_frame_def)

lemma fold_slots_bank:
  assumes "\<forall>s \<in> set ss. RkMppDenseIsAddressReg (RegIdx s)" "bank_ok (DenseBank (fst st))"
  shows "bank_ok (DenseBank (fst (fold (slot_step ctx) ss st))) \<and>
    (\<forall>i. bank_word (DenseBank (fst (fold (slot_step ctx) ss st))) i =
      (case find (\<lambda>s. unat (RegIdx s) = i) (rev ss) of
         Some s \<Rightarrow> Some (slot_addr ctx s) | None \<Rightarrow> bank_word (DenseBank (fst st)) i))"
  using assms
proof (induction ss rule: rev_induct)
  case (snoc s ss)
  let ?B = "DenseBank (fst (fold (slot_step ctx) ss st))"
  obtain b' where "stamp_bank (RegIdx s) (slot_addr ctx s) ?B = Some b'" "bank_ok b'"
    "\<And>i. bank_word b' i = (if i = unat (RegIdx s) then Some (slot_addr ctx s) else bank_word ?B i)"
    using stamp_bank_address[of "RegIdx s" ?B "slot_addr ctx s"] snoc.IH snoc.prems by auto
  then show ?case using snoc by (auto simp: slot_step_frame)
qed simp

section \<open>Cache maintenance\<close>

text \<open>The registers naming buffers the CPU writes and the codec reads, reg162 apart.\<close>

definition input_regs :: "nat set" where
  "input_regs = {128, 129, 131, 160, 161, 163, 180}"

lemma byte_offset_iff:
  assumes "RkMppDenseIsAddressReg r" "unat w = 4 * n"
  shows "r * 4 = (w :: ULONG) \<longleftrightarrow> unat r = n"
proof -
  have "unat (r * 4) = unat r * 4" using assms(1) by (auto simp: address_reg_iff unat_word_ariths)
  then show ?thesis using assms(2) by (auto simp: word_unat_eq_iff)
qed

lemma classify_slot_simps:
  assumes "RkMppDenseIsAddressReg (RegIdx s)"
  shows "classify_slot (Some m) s (j, a, b) =
     (if unat (RegIdx s) = 162 then (j, SlotHandle s, b)
      else if unat (RegIdx s) = 172 then (j, a, SlotHandle s)
      else if unat (RegIdx s) = 130 then
        (if OutputFrameMdl j = None then j\<lparr>OutputFrameMdl := Some m\<rparr> else j, a, b)
      else if unat (RegIdx s) = 131 then
        (add_clean m (if ColmvCurMdl j = None then j\<lparr>ColmvCurMdl := Some m\<rparr> else j), a, b)
      else if unat (RegIdx s) \<in> input_regs then (add_clean m j, a, b)
      else (j, a, b))"
  using byte_offset_iff[OF assms, where w = "0x288" and n = 162] byte_offset_iff[OF assms, where w = "0x2B0" and n = 172]
    byte_offset_iff[OF assms, where w = "0x208" and n = 130] byte_offset_iff[OF assms, where w = "0x20C" and n = 131]
    byte_offset_iff[OF assms, where w = "0x200" and n = 128] byte_offset_iff[OF assms, where w = "0x204" and n = 129]
    byte_offset_iff[OF assms, where w = "0x280" and n = 160] byte_offset_iff[OF assms, where w = "0x284" and n = 161]
    byte_offset_iff[OF assms, where w = "0x28C" and n = 163] byte_offset_iff[OF assms, where w = "0x2D0" and n = 180]
  by (simp add: classify_slot_def input_regs_def Let_def)

text \<open>
  After the loop over slots with distinct registers: the list of MDLs to clean is exactly what the input
  slots name, and the two remembered handles are those of reg162 and reg172.
\<close>

definition clean_ok :: "RKMPP_FILE_CTX \<Rightarrow> RKMPP_DENSE_IOVA_SLOT list \<Rightarrow> RKMPP_JOB \<times> ULONG64 \<times> ULONG64 \<Rightarrow> bool" where
  "clean_ok ctx ss st \<longleftrightarrow>
     distinct (CleanMdls (fst st)) \<and>
     set (CleanMdls (fst st)) = {m. \<exists>s \<in> set ss. unat (RegIdx s) \<in> input_regs \<and> slot_mdl ctx s = Some m} \<and>
     (\<forall>s \<in> set ss. unat (RegIdx s) = 162 \<and> slot_mdl ctx s \<noteq> None \<longrightarrow> fst (snd st) = SlotHandle s) \<and>
     ((\<forall>s \<in> set ss. unat (RegIdx s) = 162 \<longrightarrow> slot_mdl ctx s = None) \<longrightarrow> fst (snd st) = 0) \<and>
     (\<forall>s \<in> set ss. unat (RegIdx s) = 172 \<and> slot_mdl ctx s \<noteq> None \<longrightarrow> snd (snd st) = SlotHandle s) \<and>
     ((\<forall>s \<in> set ss. unat (RegIdx s) = 172 \<longrightarrow> slot_mdl ctx s = None) \<longrightarrow> snd (snd st) = 0)"

text \<open>Seven input registers, so the array of eight never overflows before reg162 is decided.\<close>

lemma clean_ok_length:
  assumes "distinct (map RegIdx ss)" "clean_ok ctx ss st"
  shows "length (CleanMdls (fst st)) \<le> 7"
proof -
  let ?I = "{s \<in> set ss. unat (RegIdx s) \<in> input_regs}"
  have inj: "inj_on (\<lambda>s. unat (RegIdx s)) (set ss)"
    using assms(1) by (auto simp: distinct_map inj_on_def dest!: word_unat_eq_iff[THEN iffD2])
  have "card ?I = card ((\<lambda>s. unat (RegIdx s)) ` ?I)"
    by (rule card_image[symmetric]) (rule inj_on_subset[OF inj], auto)
  also have "\<dots> \<le> card input_regs" by (rule card_mono) (auto simp: input_regs_def)
  finally have I: "card ?I \<le> 7" by (simp add: input_regs_def)
  have "set (CleanMdls (fst st)) \<subseteq> (\<lambda>s. the (slot_mdl ctx s)) ` ?I"
  proof
    fix m assume "m \<in> set (CleanMdls (fst st))"
    then obtain s where "s \<in> ?I" "slot_mdl ctx s = Some m" using assms(2) unfolding clean_ok_def by blast
    then show "m \<in> (\<lambda>s. the (slot_mdl ctx s)) ` ?I" by (auto simp: image_iff intro!: bexI[of _ s])
  qed
  then have "card (set (CleanMdls (fst st))) \<le> card ?I"
    by (rule surj_card_le[rotated]) simp
  moreover have "card (set (CleanMdls (fst st))) = length (CleanMdls (fst st))"
    using assms(2) unfolding clean_ok_def by (blast intro: distinct_card)
  ultimately show ?thesis using I by simp
qed

lemma add_clean_set:
  "length (CleanMdls j) < 8 \<Longrightarrow> set (CleanMdls (add_clean m j)) = insert m (set (CleanMdls j))"
  "distinct (CleanMdls j) \<Longrightarrow> distinct (CleanMdls (add_clean m j))"
  by (auto simp: add_clean_def)

lemma slot_step_clean:
  assumes "RkMppDenseIsAddressReg (RegIdx s)" "slot_mdl ctx s = Some m"
  shows "CleanMdls (fst (slot_step ctx s st)) =
      (if unat (RegIdx s) \<in> input_regs then CleanMdls (add_clean m (fst st)) else CleanMdls (fst st))"
    "fst (snd (slot_step ctx s st)) = (if unat (RegIdx s) = 162 then SlotHandle s else fst (snd st))"
    "snd (snd (slot_step ctx s st)) = (if unat (RegIdx s) = 172 then SlotHandle s else snd (snd st))"
  by (cases st; simp add: slot_step_def assms(2) classify_slot_simps[OF assms(1)] input_regs_def add_clean_def)+

lemma slot_step_no_mdl:
  assumes "slot_mdl ctx s = None"
  shows "CleanMdls (fst (slot_step ctx s st)) = CleanMdls (fst st)" "snd (slot_step ctx s st) = snd st"
  by (cases st; simp add: slot_step_def assms classify_slot_def)+

lemma clean_ok_step:
  assumes "distinct (map RegIdx (ss @ [s]))" "RkMppDenseIsAddressReg (RegIdx s)" "clean_ok ctx ss st"
  shows "clean_ok ctx (ss @ [s]) (slot_step ctx s st)"
proof (cases "slot_mdl ctx s")
  case None
  then show ?thesis using assms(3) by (auto simp: clean_ok_def slot_step_no_mdl)
next
  case (Some m)
  have len: "length (CleanMdls (fst st)) < 8" using clean_ok_length[of ss ctx st] assms by simp
  have new: "\<And>x. x \<in> set ss \<Longrightarrow> unat (RegIdx x) \<noteq> unat (RegIdx s)"
    using assms(1) by (auto simp: image_iff dest!: word_unat_eq_iff[THEN iffD2])
  note ok = assms(3)[unfolded clean_ok_def] and step = slot_step_clean[OF assms(2) Some]
  show ?thesis unfolding clean_ok_def
  proof (intro conjI)
    show "distinct (CleanMdls (fst (slot_step ctx s st)))" using ok by (simp add: step add_clean_set)
    show "set (CleanMdls (fst (slot_step ctx s st))) =
        {m. \<exists>x \<in> set (ss @ [s]). unat (RegIdx x) \<in> input_regs \<and> slot_mdl ctx x = Some m}"
      using ok by (auto simp: step add_clean_set(1)[OF len] Some)
  qed (use ok new Some in \<open>simp_all only: step, auto\<close>)
qed

lemma clean_ok_fold:
  "distinct (map RegIdx ss) \<Longrightarrow> \<forall>s \<in> set ss. RkMppDenseIsAddressReg (RegIdx s) \<Longrightarrow> CleanMdls j = [] \<Longrightarrow>
   clean_ok ctx ss (fold (slot_step ctx) ss (j, 0, 0))"
proof (induction ss rule: rev_induct)
  case (snoc s ss)
  then show ?case using clean_ok_step[of ss s ctx "fold (slot_step ctx) ss (j, 0, 0)"] by simp
qed (simp add: clean_ok_def)

section \<open>The job a submission builds\<close>

definition in_slots :: "RKMPP_SUBMIT_DENSE_JOB_IN \<Rightarrow> RKMPP_DENSE_IOVA_SLOT list" where
  "in_slots In = take (unat (InIovaSlotCount In)) (InIovaSlots In)"

definition in_refs :: "RKMPP_SUBMIT_DENSE_JOB_IN \<Rightarrow> RKMPP_BUFFER_REF list" where
  "in_refs In = take (unat (InBufRefCount In)) (InBufRefs In)"

definition base_job :: "ptr \<Rightarrow> RKMPP_SUBMIT_DENSE_JOB_IN \<Rightarrow> RKMPP_JOB" where
  "base_job File In = zero_job\<lparr>Owner := Some File, DenseKickValue := InKickValue In, DenseBank := InBank In\<rparr>"

lemma build_job_cases:
  "build_job ctx File In =
     (case find (\<lambda>s. \<not> slot_ok ctx s) (in_slots In) of
        Some s \<Rightarrow> Inl (slot_error ctx s)
      | None \<Rightarrow> Inr ((clean_reg162 ctx (fold (slot_step ctx) (in_slots In) (base_job File In, 0, 0)))
                     \<lparr>BufRefs := in_refs In\<rparr>))"
proof (cases "find (\<lambda>s. \<not> slot_ok ctx s) (in_slots In)")
  case None
  then have "\<forall>s \<in> set (in_slots In). slot_ok ctx s" by (simp add: find_None_iff)
  then have "resolve_slots ctx (in_slots In) (base_job File In, 0, 0) =
      (STATUS_SUCCESS, fold (slot_step ctx) (in_slots In) (base_job File In, 0, 0))"
    by (rule resolve_slots_char(2))
  then show ?thesis
    unfolding build_job_def in_slots_def[symmetric] base_job_def[symmetric] in_refs_def[symmetric] Let_def None
    by simp
next
  case (Some s)
  then show ?thesis
    using resolve_slots_char(1)[of ctx "in_slots In" "(base_job File In, 0, 0)"] slot_error_fails[of ctx s]
    by (auto simp: build_job_def in_slots_def base_job_def split: prod.splits)
qed

lemma clean_reg162_frame:
  "DenseBank (clean_reg162 ctx st) = DenseBank (fst st)"
  "DenseIovaSlots (clean_reg162 ctx st) = DenseIovaSlots (fst st)"
  "job_frame (fst st) (clean_reg162 ctx st)"
  by (auto simp: clean_reg162_def job_frame_def split: prod.splits sum.splits option.splits)

text \<open>What a built job carries over from the submission.\<close>

lemma build_job_fields:
  assumes "build_job ctx File In = Inr j"
  shows "job_frame (base_job File In) j" "DenseIovaSlots j = in_slots In" "BufRefs j = in_refs In"
proof -
  let ?st = "fold (slot_step ctx) (in_slots In) (base_job File In, 0, 0)"
  have j: "j = (clean_reg162 ctx ?st)\<lparr>BufRefs := in_refs In\<rparr>"
    using assms by (auto simp: build_job_cases split: option.splits)
  show "job_frame (base_job File In) j"
    using fold_slots_frame(2)[of "(base_job File In, 0, 0)" ctx "in_slots In"] clean_reg162_frame(3)[of ?st ctx]
    by (simp add: j job_frame_def)
  show "DenseIovaSlots j = in_slots In"
    by (simp add: j clean_reg162_frame fold_slots_frame) (simp add: base_job_def zero_job_def)
  show "BufRefs j = in_refs In" by (simp add: j)
qed

lemma build_job_ok:
  assumes "build_job ctx File In = Inr j"
  shows "\<forall>s \<in> set (in_slots In). slot_ok ctx s"
    "j = (clean_reg162 ctx (fold (slot_step ctx) (in_slots In) (base_job File In, 0, 0)))\<lparr>BufRefs := in_refs In\<rparr>"
  using assms by (auto simp: build_job_cases find_None_iff split: option.splits)

lemma slot_ok_address: "slot_ok ctx s \<Longrightarrow> RkMppDenseIsAddressReg (RegIdx s)"
  by (simp add: slot_ok_def)

lemma base_job_simps [simp]:
  "Owner (base_job File In) = Some File" "DenseKickValue (base_job File In) = InKickValue In"
  "DenseBank (base_job File In) = InBank In" "DenseIovaSlots (base_job File In) = []"
  "CleanMdls (base_job File In) = []" "Done (base_job File In) = False" "TargetCore (base_job File In) = 0"
  "OrphanOnComplete (base_job File In) = False" "WaiterPin (base_job File In) = 0"
  by (simp_all add: base_job_def zero_job_def)

lemma build_job_resolved:
  assumes "build_job ctx File In = Inr j" "bank_ok (InBank In)"
  shows "bank_ok (DenseBank j) \<and> DenseKickValue j = InKickValue In \<and> Owner j = Some File \<and>
    (\<forall>i. bank_word (DenseBank j) i =
      (case find (\<lambda>s. unat (RegIdx s) = i) (rev (in_slots In)) of
         Some s \<Rightarrow> Some (slot_addr ctx s) | None \<Rightarrow> bank_word (InBank In) i)) \<and>
    (\<forall>s \<in> set (in_slots In). RkMppJobReferencesBuffer (Some j) File (SlotHandle s) \<and>
      (\<exists>b \<in> set (Buffers ctx). BufCookie b = SlotHandle s \<and> IovaOffset s < BufSize b \<and>
         slot_addr ctx s = ucast (BufIova b + ucast (IovaOffset s))))"
proof -
  let ?st = "fold (slot_step ctx) (in_slots In) (base_job File In, 0, 0)"
  note ok = build_job_ok[OF assms(1)] and fields = build_job_fields[OF assms(1)]
  have B: "DenseBank j = DenseBank (fst ?st)" by (simp add: ok(2) clean_reg162_frame)
  have addr: "\<forall>s \<in> set (in_slots In). RkMppDenseIsAddressReg (RegIdx s)" using ok(1) slot_ok_address by blast
  have cookie: "find_cookie c bs = Some b \<Longrightarrow> b \<in> set bs \<and> BufCookie b = c" for c bs b
    by (induction bs) (auto split: if_splits)
  have "RkMppJobReferencesBuffer (Some j) File (SlotHandle s) \<and>
      (\<exists>b \<in> set (Buffers ctx). BufCookie b = SlotHandle s \<and> IovaOffset s < BufSize b \<and>
         slot_addr ctx s = ucast (BufIova b + ucast (IovaOffset s)))" if "s \<in> set (in_slots In)" for s
  proof -
    have "slot_ok ctx s" using ok(1) that by blast
    then show ?thesis using that fields cookie
      by (auto simp: slot_ok_def slot_addr_def RkMppJobReferencesBuffer_def job_frame_def split: option.splits)
  qed
  moreover have "bank_ok (DenseBank j) \<and> (\<forall>i. bank_word (DenseBank j) i =
      (case find (\<lambda>s. unat (RegIdx s) = i) (rev (in_slots In)) of
         Some s \<Rightarrow> Some (slot_addr ctx s) | None \<Rightarrow> bank_word (InBank In) i))"
    using fold_slots_bank[OF addr, of "(base_job File In, 0, 0)" ctx] assms(2)
    unfolding B fst_conv base_job_simps by blast
  ultimately show ?thesis using fields(1) by (simp add: job_frame_def)
qed

text \<open>C24: A submission passes resolution with every register of the job's bank known: the last slot naming an
  address register decides it, with the device address of a buffer of the same file at an offset inside that
  buffer, and every other register keeps the submitted word. The job then counts as referencing every buffer it
  names, which is what keeps FREE\_BUFFER away from them.\<close>

theorem submit_bank_resolved:
  assumes "build_job ctx File In = Inr j" "bank_ok (InBank In)"
  shows "bank_ok (DenseBank j) \<and> DenseKickValue j = InKickValue In \<and> Owner j = Some File \<and>
    (\<forall>i. bank_word (DenseBank j) i =
      (case find (\<lambda>s. unat (RegIdx s) = i) (rev (in_slots In)) of
         Some s \<Rightarrow> Some (slot_addr ctx s) | None \<Rightarrow> bank_word (InBank In) i)) \<and>
    (\<forall>s \<in> set (in_slots In). RkMppJobReferencesBuffer (Some j) File (SlotHandle s) \<and>
      (\<exists>b \<in> set (Buffers ctx). BufCookie b = SlotHandle s \<and> IovaOffset s < BufSize b \<and>
         slot_addr ctx s = ucast (BufIova b + ucast (IovaOffset s))))"
  by (rule build_job_resolved[OF assms])

text \<open>Resolution fails exactly when some slot is unacceptable, and reports the first such slot: an invalid
  handle when the slot is well formed but names no buffer of the file, an invalid parameter otherwise (a
  register outside the address banks, a zero handle, an offset past the buffer).\<close>

theorem submit_rejects_first_bad_slot:
  "build_job ctx File In = Inl status \<longleftrightarrow>
     (\<exists>s. find (\<lambda>s. \<not> slot_ok ctx s) (in_slots In) = Some s \<and> status = slot_error ctx s)"
  by (auto simp: build_job_cases split: option.splits)

lemma clean_reg162_set:
  assumes "length (CleanMdls j) < 8"
  shows "set (CleanMdls (clean_reg162 ctx (j, h162, h172))) =
    set (CleanMdls j) \<union>
    {m. h162 \<noteq> 0 \<and> h162 \<noteq> h172 \<and> (\<exists>b. find_cookie h162 (Buffers ctx) = Some b \<and> BufMdl b = Some m)}"
  using assms by (auto simp: clean_reg162_def RkMppBufLookupMdlLocked_def add_clean_set split: option.splits)

text \<open>When no register is named twice, the MDLs cleaned before the kick are exactly those of the buffers
  the CPU wrote: the seven input registers, and reg162 unless it names the write-back buffer of reg172. No
  input is dropped for lack of room in the array of eight, and no write-back buffer is cleaned.\<close>

theorem submit_cleans_inputs:
  assumes "build_job ctx File In = Inr j" "distinct (map RegIdx (in_slots In))"
  shows "set (CleanMdls j) =
    {m. \<exists>s \<in> set (in_slots In). slot_mdl ctx s = Some m \<and>
       (unat (RegIdx s) \<in> input_regs \<or>
        unat (RegIdx s) = 162 \<and>
        \<not> (\<exists>t \<in> set (in_slots In). unat (RegIdx t) = 172 \<and> slot_mdl ctx t \<noteq> None \<and> SlotHandle t = SlotHandle s))}"
    (is "_ = ?M")
proof -
  define st where "st = fold (slot_step ctx) (in_slots In) (base_job File In, 0, 0)"
  note ok = build_job_ok[OF assms(1)]
  have c: "clean_ok ctx (in_slots In) st"
    unfolding st_def using ok(1) assms(2) by (intro clean_ok_fold) (auto simp: slot_ok_address)
  obtain j' a b where st: "st = (j', a, b)" by (cases st) auto
  have len: "length (CleanMdls j') < 8" using clean_ok_length[OF assms(2) c] by (simp add: st)
  have S: "set (CleanMdls j) = set (CleanMdls j') \<union>
      {m. a \<noteq> 0 \<and> a \<noteq> b \<and> (\<exists>x. find_cookie a (Buffers ctx) = Some x \<and> BufMdl x = Some m)}"
    using clean_reg162_set[OF len] by (simp add: ok(2) st_def[symmetric] st)
  show ?thesis
  proof (cases "\<exists>s \<in> set (in_slots In). unat (RegIdx s) = 162 \<and> slot_mdl ctx s \<noteq> None")
    case True
    then obtain s where s: "s \<in> set (in_slots In)" "unat (RegIdx s) = 162" "slot_mdl ctx s \<noteq> None" by blast
    have a: "a = SlotHandle s" using c s by (auto simp: clean_ok_def st)
    have a0: "a \<noteq> 0" using ok(1) s(1) by (auto simp: a slot_ok_def)
    have uniq: "t = s" if "t \<in> set (in_slots In)" "unat (RegIdx t) = 162" for t
      using that s assms(2) by (auto simp: distinct_map inj_on_def word_unat_eq_iff)
    have b: "a = b \<longleftrightarrow> (\<exists>t \<in> set (in_slots In). unat (RegIdx t) = 172 \<and> slot_mdl ctx t \<noteq> None \<and> SlotHandle t = a)"
      using c a0 unfolding clean_ok_def st fst_conv snd_conv by metis
    have m: "(\<exists>x. find_cookie a (Buffers ctx) = Some x \<and> BufMdl x = Some m) \<longleftrightarrow> slot_mdl ctx s = Some m" for m
      by (auto simp: slot_mdl_def a split: option.splits)
    have "set (CleanMdls j') = {m. \<exists>s \<in> set (in_slots In). unat (RegIdx s) \<in> input_regs \<and> slot_mdl ctx s = Some m}"
      using c by (simp add: clean_ok_def st)
    then show ?thesis unfolding S m using a0 b s uniq unfolding a by blast
  next
    case False
    then have "a = 0" using c by (auto simp: clean_ok_def st)
    moreover have "set (CleanMdls j') =
        {m. \<exists>s \<in> set (in_slots In). unat (RegIdx s) \<in> input_regs \<and> slot_mdl ctx s = Some m}"
      using c by (simp add: clean_ok_def st)
    ultimately show ?thesis using False unfolding S by auto
  qed
qed

section \<open>A concrete submission\<close>

definition demo_buf :: "ULONG64 \<Rightarrow> ULONG64 \<Rightarrow> ptr \<Rightarrow> RKMPP_BUFFER" where
  "demo_buf c iova mdl = \<lparr>BufPtr = 1, BufCookie = c, KernelVa = Some 1, BufMdl = Some mdl, UserVa = Some 1,
     BufIova = iova, BufSize = 0x4000, OwnerProcess = Some 1\<rparr>"

definition demo_ctx :: RKMPP_FILE_CTX where
  "demo_ctx = \<lparr>Buffers = [demo_buf 2 0xFFEF0000 20, demo_buf 3 0xFFEE0000 30], AllocatedBytes = 0x8000,
     BufferCount = 2, ErrorCount = 0\<rparr>"

definition demo_in :: RKMPP_SUBMIT_DENSE_JOB_IN where
  "demo_in = \<lparr>InIovaSlotCount = 2, InBufRefCount = 0, InKickValue = 1, InBank = zero_bank,
     InIovaSlots = [\<lparr>RegIdx = 128, IovaOffset = 0x10, SlotHandle = 2\<rparr>, \<lparr>RegIdx = 130, IovaOffset = 0, SlotHandle = 3\<rparr>],
     InBufRefs = []\<rparr>"

lemma demo_in_slots:
  "in_slots demo_in =
     [\<lparr>RegIdx = 128, IovaOffset = 0x10, SlotHandle = 2\<rparr>, \<lparr>RegIdx = 130, IovaOffset = 0, SlotHandle = 3\<rparr>]"
  by (simp add: in_slots_def demo_in_def)

lemma demo_slots_ok: "find (\<lambda>s. \<not> slot_ok demo_ctx s) (in_slots demo_in) = None"
  by (simp add: demo_in_slots slot_ok_def RkMppDenseIsAddressReg_def demo_ctx_def demo_buf_def)

lemma demo_builds: "\<exists>j. build_job demo_ctx 7 demo_in = Inr j"
  by (simp add: build_job_cases demo_slots_ok)

lemma demo_bank_ok: "bank_ok (InBank demo_in)"
  by (simp add: demo_in_def bank_ok_def zero_bank_def)

lemma demo_slot_addr: "slot_addr demo_ctx \<lparr>RegIdx = 128, IovaOffset = 0x10, SlotHandle = 2\<rparr> = 0xFFEF0010"
  by (simp add: slot_addr_def demo_ctx_def demo_buf_def)

lemma demo_slot_mdl:
  "slot_mdl demo_ctx \<lparr>RegIdx = 128, IovaOffset = 0x10, SlotHandle = 2\<rparr> = Some 20"
  "slot_mdl demo_ctx \<lparr>RegIdx = 130, IovaOffset = 0, SlotHandle = 3\<rparr> = Some 30"
  by (simp_all add: slot_mdl_def demo_ctx_def demo_buf_def)

theorem submit_bank_resolved_witness:
  "\<exists>j. build_job demo_ctx 7 demo_in = Inr j \<and> bank_word (DenseBank j) 128 = Some 0xFFEF0010"
proof -
  obtain j where j: "build_job demo_ctx 7 demo_in = Inr j" using demo_builds by blast
  show ?thesis using submit_bank_resolved[OF j demo_bank_ok] j by (simp add: demo_in_slots demo_slot_addr)
qed

theorem submit_cleans_inputs_witness:
  "\<exists>j. build_job demo_ctx 7 demo_in = Inr j \<and> set (CleanMdls j) = {20}"
proof -
  obtain j where j: "build_job demo_ctx 7 demo_in = Inr j" using demo_builds by blast
  have "distinct (map RegIdx (in_slots demo_in))" by (simp add: demo_in_slots)
  from submit_cleans_inputs[OF j this] show ?thesis
    using j by (auto simp: demo_in_slots demo_slot_mdl input_regs_def)
qed

end
