(* ===== verification/Job_Queue.thy ===== *)
theory Job_Queue
  imports Dense_Props
begin

text \<open>
  The job queue of one codec device, \<^verbatim>\<open>driver/rkvdec/job.c\<close>: its state, the choice of the next job and of the
  core to run it, promotion from the pending list to the cores, and the lookups other components use.

  Jobs live in pool memory, so lists and slots hold pointers and \<open>jobs\<close> is the memory behind them. Each function
  that holds the queue lock throughout is one definition and one atomic step; a function that drops the lock is
  split at that point.
\<close>

section \<open>State\<close>

record RKMPP_JOB_QUEUE =
  Pending :: "ptr list"
  Completed :: "ptr list"
  NextId :: ULONG64
  LastIsrHwStatus :: ULONG
  LastOwner :: "ptr option"
  LastDecMode :: ULONG
  LastValid :: bool
  OwnerLru :: "(ptr option \<times> ULONG64) list"
  CoreCount :: nat
  CoreIdle :: ULONG
  CorePending :: "ULONG list"
  InFlightPerCore :: "ptr option list"
  LastKickCore :: int
  PeerOpen :: bool
  PeerFileObj :: "ptr option"
  KickActive :: bool
  KickRearm :: bool

text \<open>
  The device context: the queue, the job memory, the reset flags, the mapped register window (NULL base as
  False), the CCU interface as the entries it provides for a core (NULL as None), and the buffer pool with the
  IOMMU behind it.
\<close>

record 's RKMPP_DEVICE =
  JobQueue :: RKMPP_JOB_QUEUE
  jobs :: "ptr \<Rightarrow> RKMPP_JOB"
  NeedsCoreReset :: bool
  NeedsFullReset :: bool
  LastJobFailed :: bool
  DevUid :: nat
  HasMmio :: bool
  MmioLength :: ULONG
  Ccu :: "(ccu_op \<Rightarrow> nat \<Rightarrow> bool) option"
  bufs :: "'s pool"

definition RkMppJobQueueInit :: "RKMPP_JOB_QUEUE \<Rightarrow> RKMPP_JOB_QUEUE" where
  "RkMppJobQueueInit q =
     q\<lparr>Pending := [], Completed := [], InFlightPerCore := [None, None], CoreCount := 1, CoreIdle := 1,
       CorePending := [0, 0], LastKickCore := -1, PeerOpen := False, PeerFileObj := None, NextId := 0, LastOwner := None,
       LastDecMode := 0, LastValid := False, OwnerLru := replicate 4 (None, 0), KickActive := False,
       KickRearm := False\<rparr>"

definition upd_job :: "ptr \<Rightarrow> (RKMPP_JOB \<Rightarrow> RKMPP_JOB) \<Rightarrow> 's RKMPP_DEVICE \<Rightarrow> 's RKMPP_DEVICE" where
  "upd_job p f D = D\<lparr>jobs := (jobs D)(p := f (jobs D p))\<rparr>"

definition upd_q :: "(RKMPP_JOB_QUEUE \<Rightarrow> RKMPP_JOB_QUEUE) \<Rightarrow> 's RKMPP_DEVICE \<Rightarrow> 's RKMPP_DEVICE" where
  "upd_q f D = D\<lparr>JobQueue := f (JobQueue D)\<rparr>"

text \<open>The flags of \<^verbatim>\<open>device.c\<close>; a full reset request raises the narrow one too.\<close>

definition RkMppSetNeedsCoreReset :: "'s RKMPP_DEVICE \<Rightarrow> 's RKMPP_DEVICE" where
  "RkMppSetNeedsCoreReset D = D\<lparr>NeedsCoreReset := True\<rparr>"

definition RkMppSetNeedsFullReset :: "'s RKMPP_DEVICE \<Rightarrow> 's RKMPP_DEVICE" where
  "RkMppSetNeedsFullReset D = D\<lparr>NeedsFullReset := True, NeedsCoreReset := True\<rparr>"

section \<open>Choosing a job and a core\<close>

text \<open>The last-kick id of an owner; 0 when the table has no entry for it.\<close>

fun lru_score :: "(ptr option \<times> ULONG64) list \<Rightarrow> ptr option \<Rightarrow> ULONG64" where
  "lru_score [] ow = 0"
| "lru_score ((f, k) # L) ow = (if f = ow then k else lru_score L ow)"

text \<open>The scan keeps the first entry of strictly lower score and stops at score 0.\<close>

fun pick_loop :: "(ptr \<Rightarrow> ULONG64) \<Rightarrow> ptr list \<Rightarrow> ptr \<Rightarrow> ULONG64 \<Rightarrow> ptr" where
  "pick_loop score [] chosen best = chosen"
| "pick_loop score (e # es) chosen best =
     (if score e < best
      then (if score e = 0 then e else pick_loop score es e (score e))
      else pick_loop score es chosen best)"

definition PickPendingByOwnerLru :: "(ptr \<Rightarrow> RKMPP_JOB) \<Rightarrow> RKMPP_JOB_QUEUE \<Rightarrow> ptr option \<times> RKMPP_JOB_QUEUE" where
  "PickPendingByOwnerLru js q =
     (case Pending q of
        [] \<Rightarrow> (None, q)
      | e # es \<Rightarrow>
          (let chosen = pick_loop (\<lambda>p. lru_score (OwnerLru q) (Owner (js p))) (e # es) e 0xFFFFFFFFFFFFFFFF
           in (Some chosen, q\<lparr>Pending := remove1 chosen (Pending q)\<rparr>)))"

definition core_step :: "RKMPP_JOB_QUEUE \<Rightarrow> ULONG \<Rightarrow> nat \<Rightarrow> int \<times> ULONG \<Rightarrow> int \<times> ULONG" where
  "core_step q m i st =
     (case st of (best, bestPending) \<Rightarrow>
      if m AND push_bit i 1 = 0 then (best, bestPending)
      else if CorePending q ! i < bestPending then (int i, CorePending q ! i)
      else if CorePending q ! i = bestPending \<and> best \<ge> 0 \<and> int i \<noteq> LastKickCore q \<and> best = LastKickCore q
      then (int i, bestPending)
      else (best, bestPending))"

definition PickTargetCore :: "RKMPP_JOB_QUEUE \<Rightarrow> int" where
  "PickTargetCore q =
     (let m = CoreIdle q AND (push_bit (CoreCount q) 1 - 1)
      in if m = 0 then -1 else fst (fold (core_step q m) [0..<CoreCount q] (-1, 0xFFFFFFFF)))"

section \<open>Promotion\<close>

text \<open>The slot of the owner's entry, or of the oldest entry when it has none.\<close>

fun lru_scan :: "(ptr option \<times> ULONG64) list \<Rightarrow> ptr option \<Rightarrow> nat \<Rightarrow> nat \<Rightarrow> (ptr option \<times> ULONG64) list \<Rightarrow> nat" where
  "lru_scan L ow i evict [] = evict"
| "lru_scan L ow i evict ((f, k) # es) =
     (if f = ow then i else lru_scan L ow (i + 1) (if k < snd (L ! evict) then i else evict) es)"

definition lru_upsert :: "ptr option \<Rightarrow> ULONG64 \<Rightarrow> (ptr option \<times> ULONG64) list \<Rightarrow> (ptr option \<times> ULONG64) list" where
  "lru_upsert ow jid L = L[lru_scan L ow 0 0 L := (ow, jid)]"

text \<open>One round of the loop once a core and a job have been chosen.\<close>

definition promote_one :: "nat \<Rightarrow> ptr \<Rightarrow> 's RKMPP_DEVICE \<Rightarrow> 's RKMPP_DEVICE" where
  "promote_one core job D =
     (let D1 = upd_job job (\<lambda>j. j\<lparr>TargetCore := of_nat core\<rparr>) D;
          j = jobs D1 job
      in upd_q (\<lambda>q. q\<lparr>InFlightPerCore := (InFlightPerCore q)[core := Some job],
                      CoreIdle := CoreIdle q AND NOT (push_bit core 1),
                      CorePending := (CorePending q)[core := CorePending q ! core + 1],
                      LastKickCore := int core,
                      OwnerLru := (if Owner j \<noteq> None then lru_upsert (Owner j) (Id j) (OwnerLru q)
                                   else OwnerLru q)\<rparr>) D1)"

text \<open>The first argument counts the rounds left, \<^verbatim>\<open>CoreCount - n\<close>.\<close>

fun promote_loop :: "nat \<Rightarrow> 's RKMPP_DEVICE \<Rightarrow> (ptr \<times> nat) list \<Rightarrow> (ptr \<times> nat) list \<times> 's RKMPP_DEVICE" where
  "promote_loop 0 D out = (out, D)"
| "promote_loop (Suc n) D out =
     (if Pending (JobQueue D) = [] then (out, D)
      else
        (let core = PickTargetCore (JobQueue D)
         in if core < 0 then (out, D)
            else case PickPendingByOwnerLru (jobs D) (JobQueue D) of
              (None, _) \<Rightarrow> (out, D)
            | (Some job, q1) \<Rightarrow>
                promote_loop n (promote_one (nat core) job (D\<lparr>JobQueue := q1\<rparr>)) (out @ [(job, nat core)])))"

definition PromoteUntilFull :: "'s RKMPP_DEVICE \<Rightarrow> (ptr \<times> nat) list \<times> 's RKMPP_DEVICE" where
  "PromoteUntilFull D = promote_loop (CoreCount (JobQueue D)) D []"

section \<open>Lookups\<close>

text \<open>The jobs in the slots of the active cores.\<close>

definition active_slots :: "RKMPP_JOB_QUEUE \<Rightarrow> ptr option list" where
  "active_slots q = take (CoreCount q) (InFlightPerCore q)"

definition RkMppJobQueueHasOtherOwner :: "'s RKMPP_DEVICE \<Rightarrow> ptr \<Rightarrow> bool" where
  "RkMppJobQueueHasOtherOwner D File =
     (let q = JobQueue D in
      if \<exists>s \<in> set (active_slots q). (case s of None \<Rightarrow> False | Some p \<Rightarrow> Owner (jobs D p) \<noteq> Some File) then True
      else \<exists>p \<in> set (Pending q). Owner (jobs D p) \<noteq> Some File)"

definition RkMppJobBufferInUse :: "'s RKMPP_DEVICE \<Rightarrow> ptr \<Rightarrow> ULONG64 \<Rightarrow> bool" where
  "RkMppJobBufferInUse D File Cookie =
     (let q = JobQueue D in
      if \<exists>s \<in> set (active_slots q). RkMppJobReferencesBuffer (map_option (jobs D) s) File Cookie then True
      else if \<exists>p \<in> set (Pending q). RkMppJobReferencesBuffer (Some (jobs D p)) File Cookie then True
      else \<exists>p \<in> set (Completed q). RkMppJobReferencesBuffer (Some (jobs D p)) File Cookie)"

text \<open>The first entry satisfying a test: the walks of the C lists.\<close>

definition find_slot :: "(ptr \<Rightarrow> bool) \<Rightarrow> RKMPP_JOB_QUEUE \<Rightarrow> ptr option" where
  "find_slot P q = find P (map the (filter (\<lambda>s. s \<noteq> None) (active_slots q)))"

definition RkMppJobPeekDense :: "'s RKMPP_DEVICE \<Rightarrow> ptr \<Rightarrow> ULONG64 \<Rightarrow> NTSTATUS + ULONG \<times> RKMPP_DENSE_BANK" where
  "RkMppJobPeekDense D File JobId =
     (let q = JobQueue D;
          is_job = (\<lambda>p. Id (jobs D p) = JobId);
          job = (case find_slot is_job q of
                   Some p \<Rightarrow> Some p
                 | None \<Rightarrow> (case find is_job (Pending q) of
                              Some p \<Rightarrow> Some p
                            | None \<Rightarrow> find is_job (Completed q)))
      in case job of
           None \<Rightarrow> Inl STATUS_NOT_FOUND
         | Some p \<Rightarrow>
             (if Owner (jobs D p) \<noteq> Some File then Inl STATUS_NOT_FOUND
              else Inr (DenseKickValue (jobs D p), DenseBank (jobs D p))))"

section \<open>The kick worker's wake-up\<close>

definition RkMppEnqueueKickWorker :: "'s RKMPP_DEVICE \<Rightarrow> history \<Rightarrow> 's RKMPP_DEVICE \<times> history" where
  "RkMppEnqueueKickWorker D h =
     (let enqueue = \<not> KickActive (JobQueue D);
          D1 = upd_q (\<lambda>q. q\<lparr>KickRearm := True, KickActive := (if enqueue then True else KickActive q)\<rparr>) D
      in (D1, if enqueue then WorkItemEnqueue # h else h))"

end
