(* ===== verification/Job_Ops.thy ===== *)
theory Job_Ops
  imports Job_Queue
begin

text \<open>
  The operations of \<^verbatim>\<open>driver/rkvdec/job.c\<close> that touch the hardware or move jobs between the lists: completion,
  the register sequence of a kick, dispatch, the kick worker, submission, waiting, draining, and the jobs a peer
  device runs for this one.
\<close>

section \<open>What the queue calls\<close>

text \<open>Entries of the IOMMU interface used around a kick; None is a NULL entry.\<close>

record 's codec_iommu =
  IfcDisable :: "('s \<Rightarrow> history \<Rightarrow> NTSTATUS \<times> 's \<times> history) option"
  IfcEnable :: "(kernel \<Rightarrow> 's \<Rightarrow> history \<Rightarrow> NTSTATUS \<times> 's \<times> history) option"
  IfcFlushTlb :: "('s \<Rightarrow> history \<Rightarrow> NTSTATUS \<times> history) option"

record RKMPP_PEER_KICK_PARAMS =
  PkBank :: RKMPP_DENSE_BANK
  PkKickValue :: ULONG
  PkIovaSlots :: "RKMPP_DENSE_IOVA_SLOT list"
  PkCookie :: ULONG64

text \<open>The kernel, the IOMMU interface of the device and the peer's KickJob entry.\<close>

record 's kick_env =
  env_kernel :: kernel
  env_iommu :: "'s codec_iommu option"
  env_peer :: "(history \<Rightarrow> RKMPP_PEER_KICK_PARAMS \<Rightarrow> NTSTATUS) option"

text \<open>An entry of the CCU interface for this device's core; devices other than 0 and 1 have none.\<close>

definition ccu_has :: "'s RKMPP_DEVICE \<Rightarrow> ccu_op \<Rightarrow> bool" where
  "ccu_has D op = (case Ccu D of None \<Rightarrow> False | Some has \<Rightarrow> DevUid D < 2 \<and> has op (DevUid D))"

definition ccu_call :: "'s RKMPP_DEVICE \<Rightarrow> ccu_op \<Rightarrow> history \<Rightarrow> history" where
  "ccu_call D op h = (if ccu_has D op then CcuCall op (DevUid D) # h else h)"

definition flush_opt :: "ptr option \<Rightarrow> history \<Rightarrow> history" where
  "flush_opt mdl h = (case mdl of None \<Rightarrow> h | Some m \<Rightarrow> FlushMdl m # h)"

section \<open>Completion\<close>

abbreviation RKVDEC2_INT_ERROR_MASK :: ULONG where "RKVDEC2_INT_ERROR_MASK \<equiv> 0xF0"
abbreviation RKVDEC2_INT_DEC_TIMEOUT_STA :: ULONG where "RKVDEC2_INT_DEC_TIMEOUT_STA \<equiv> 0x20"
abbreviation RKVDEC2_INT_STATUS_OFFSET :: nat where "RKVDEC2_INT_STATUS_OFFSET \<equiv> 0x480"

definition job_failed :: "NTSTATUS \<Rightarrow> ULONG \<Rightarrow> bool" where
  "job_failed res hw \<longleftrightarrow> \<not> NT_SUCCESS res \<or> hw AND RKVDEC2_INT_ERROR_MASK \<noteq> 0"

text \<open>A wedge: the codec's own watchdog, or a wait that ran out.\<close>

definition job_stuck :: "NTSTATUS \<Rightarrow> ULONG \<Rightarrow> bool" where
  "job_stuck res hw \<longleftrightarrow> hw AND RKVDEC2_INT_DEC_TIMEOUT_STA \<noteq> 0 \<or> res = STATUS_0xC0000507"

definition charge_error :: "ptr option \<Rightarrow> 's RKMPP_DEVICE \<Rightarrow> 's RKMPP_DEVICE" where
  "charge_error ow D =
     (case ow of
        None \<Rightarrow> D
      | Some f \<Rightarrow>
          D\<lparr>bufs := (bufs D)\<lparr>files :=
              (files (bufs D))(f := (files (bufs D) f)\<lparr>ErrorCount := ErrorCount (files (bufs D) f) + 1\<rparr>)\<rparr>\<rparr>)"

text \<open>The reset escalation and the error charge of a local completion.\<close>

definition account_result :: "NTSTATUS \<Rightarrow> ULONG \<Rightarrow> ptr option \<Rightarrow> 's RKMPP_DEVICE \<Rightarrow> 's RKMPP_DEVICE" where
  "account_result res hw ow D =
     (if job_failed res hw
      then charge_error ow
             ((if job_stuck res hw then RkMppSetNeedsFullReset D else RkMppSetNeedsCoreReset D)
                \<lparr>LastJobFailed := True\<rparr>)
      else D\<lparr>LastJobFailed := False\<rparr>)"

definition flush_outputs :: "RKMPP_JOB \<Rightarrow> history \<Rightarrow> history" where
  "flush_outputs j h = flush_opt (ColmvCurMdl j) (flush_opt (OutputFrameMdl j) h)"

text \<open>Free a core: clear its slot, mark it idle, lower its count but not below zero.\<close>

definition release_core :: "nat \<Rightarrow> RKMPP_JOB_QUEUE \<Rightarrow> RKMPP_JOB_QUEUE" where
  "release_core c q =
     q\<lparr>InFlightPerCore := (InFlightPerCore q)[c := None],
       CoreIdle := CoreIdle q OR push_bit c 1,
       CorePending := (if CorePending q ! c > 0 then (CorePending q)[c := CorePending q ! c - 1]
                       else CorePending q)\<rparr>"

definition RkMppJobComplete :: "kernel \<Rightarrow> NTSTATUS \<Rightarrow> ULONG \<Rightarrow> 's RKMPP_DEVICE \<Rightarrow> history \<Rightarrow>
    's RKMPP_DEVICE \<times> history" where
  "RkMppJobComplete K res hw D h =
     (case InFlightPerCore (JobQueue D) ! 0 of
        None \<Rightarrow> (D, h)
      | Some p \<Rightarrow>
          (let D1 = upd_job p (\<lambda>j. j\<lparr>EndQpc := k_qpc K h, Result := res, HardwareStatus := hw\<rparr>) D;
               D2 = account_result res hw (Owner (jobs D1 p)) D1;
               j = jobs D2 p;
               h1 = flush_outputs j h;
               orphan = OrphanOnComplete j;
               pinned = WaiterPin j > 0;
               freeHere = (orphan \<and> \<not> pinned);
               D3 = (if \<not> orphan \<or> pinned then upd_q (\<lambda>q. q\<lparr>Completed := Completed q @ [p]\<rparr>) D2 else D2);
               D4 = upd_job p (\<lambda>j. j\<lparr>Done := True\<rparr>) D3;
               D5 = upd_q (release_core (unat (TargetCore j))) D4;
               q = JobQueue D5;
               wantKick = (Pending q \<noteq> []);
               idleAfter = (CoreIdle q = push_bit (CoreCount q) 1 - 1 \<and> Pending q = []);
               h2 = (if idleAfter then ccu_call D5 GateLeafClocks h1 else h1);
               h3 = (if freeHere then ExFreePoolWithTag ''JppM'' p h2 else h2)
           in if wantKick then RkMppEnqueueKickWorker D5 h3 else (D5, h3)))"

definition RkMppPeerCompletion :: "kernel \<Rightarrow> ULONG64 \<Rightarrow> NTSTATUS \<Rightarrow> ULONG \<Rightarrow> 's RKMPP_DEVICE \<Rightarrow> history \<Rightarrow>
    's RKMPP_DEVICE \<times> history" where
  "RkMppPeerCompletion K cookie res hw D h =
     (case InFlightPerCore (JobQueue D) ! 1 of
        None \<Rightarrow> (D, h)
      | Some p \<Rightarrow>
          (if Id (jobs D p) \<noteq> cookie then (D, h)
           else
             (let D1 = upd_job p (\<lambda>j. j\<lparr>EndQpc := k_qpc K h, Result := res, HardwareStatus := hw\<rparr>) D;
                  D2 = (if job_failed res hw then charge_error (Owner (jobs D1 p)) D1 else D1);
                  h1 = flush_outputs (jobs D2 p) h;
                  D3 = upd_q (\<lambda>q. (release_core 1 q)\<lparr>Completed := Completed q @ [p]\<rparr>) D2;
                  wantKick = (Pending (JobQueue D3) \<noteq> []);
                  D4 = upd_job p (\<lambda>j. j\<lparr>Done := True\<rparr>) D3
              in if wantKick then RkMppEnqueueKickWorker D4 h1 else (D4, h1))))"

section \<open>Interrupts\<close>

definition RkMppEvtIsr :: "kernel \<Rightarrow> 's RKMPP_DEVICE \<Rightarrow> history \<Rightarrow> bool \<times> 's RKMPP_DEVICE \<times> history" where
  "RkMppEvtIsr K D h =
     (let (hw, h1) = (if HasMmio D
                      then (let v = k_codec_read K h RKVDEC2_INT_STATUS_OFFSET
                            in (v, CodecWrite RKVDEC2_INT_STATUS_OFFSET 0 #
                                   CodecRead RKVDEC2_INT_STATUS_OFFSET v # h))
                      else (0, h))
      in if hw = 0 then (False, D, h1)
         else (True, upd_q (\<lambda>q. q\<lparr>LastIsrHwStatus := hw\<rparr>) D, h1))"

definition flush_tlb :: "'s kick_env \<Rightarrow> 's RKMPP_DEVICE \<Rightarrow> history \<Rightarrow> history" where
  "flush_tlb E D h =
     (case env_iommu E of
        None \<Rightarrow> h
      | Some i \<Rightarrow> (case IfcFlushTlb i of None \<Rightarrow> h | Some f \<Rightarrow> snd (f (iommu_st (bufs D)) h)))"

definition RkMppEvtDpc :: "'s kick_env \<Rightarrow> 's RKMPP_DEVICE \<Rightarrow> history \<Rightarrow> 's RKMPP_DEVICE \<times> history" where
  "RkMppEvtDpc E D h =
     (let hw = LastIsrHwStatus (JobQueue D);
          res = (if hw AND RKVDEC2_INT_ERROR_MASK \<noteq> 0 then STATUS_DEVICE_HARDWARE_ERROR else STATUS_SUCCESS);
          (D1, h1) = (case InFlightPerCore (JobQueue D) ! 0 of
                        None \<Rightarrow> (D, h)
                      | Some _ \<Rightarrow> RkMppJobComplete (env_kernel E) res hw D h)
      in (D1, flush_tlb E D1 h1))"

section \<open>The kick\<close>

text \<open>The scheduling probe: the job remembers what ran before it, the queue remembers the job.\<close>

definition kick_probe :: "ptr \<Rightarrow> 's RKMPP_DEVICE \<Rightarrow> 's RKMPP_DEVICE" where
  "kick_probe p D =
     (let q = JobQueue D; j = jobs D p;
          dec_mode = Common (DenseBank j) ! 1 AND 0x1F
      in upd_q (\<lambda>q. q\<lparr>LastOwner := Owner j, LastDecMode := dec_mode, LastValid := True\<rparr>)
           (upd_job p (\<lambda>j. j\<lparr>KickDecMode := dec_mode,
                              KickPrevDecMode := (if LastValid q then LastDecMode q else 0),
                              KickPrevOwner := (if LastValid q then LastOwner q else None),
                              KickSwitchOwner := (LastValid q \<and> LastOwner q \<noteq> Owner j),
                              KickSwitchMode := (LastValid q \<and> LastDecMode q \<noteq> dec_mode),
                              KickPrevValid := LastValid q\<rparr>) D))"

text \<open>The wide reset: IOMMU off, core reset, IOMMU on; a failure to turn it on again re-raises the request.\<close>

definition full_reset :: "'s kick_env \<Rightarrow> 's RKMPP_DEVICE \<Rightarrow> history \<Rightarrow> 's RKMPP_DEVICE \<times> history" where
  "full_reset E D h =
     (let s = iommu_st (bufs D);
          (s1, h1) = (case env_iommu E of
                        None \<Rightarrow> (s, h)
                      | Some i \<Rightarrow> (case IfcDisable i of None \<Rightarrow> (s, h) | Some f \<Rightarrow> snd (f s h)));
          h2 = ccu_call D FullCoreReset h1;
          (rs, s3, h3) = (case env_iommu E of
                            None \<Rightarrow> (STATUS_SUCCESS, s1, h2)
                          | Some i \<Rightarrow> (case IfcEnable i of
                                         None \<Rightarrow> (STATUS_SUCCESS, s1, h2)
                                       | Some f \<Rightarrow> f (env_kernel E) s1 h2));
          D1 = D\<lparr>bufs := (bufs D)\<lparr>iommu_st := s3\<rparr>\<rparr>;
          D2 = (if NT_SUCCESS rs then D1 else RkMppSetNeedsFullReset D1)
      in (D2\<lparr>NeedsCoreReset := False\<rparr>, h3))"

definition kick_reset :: "'s kick_env \<Rightarrow> 's RKMPP_DEVICE \<Rightarrow> history \<Rightarrow> 's RKMPP_DEVICE \<times> history" where
  "kick_reset E D h =
     (if NeedsFullReset D then full_reset E (D\<lparr>NeedsFullReset := False\<rparr>) h
      else if NeedsCoreReset D
      then (D\<lparr>NeedsCoreReset := False\<rparr>,
            if ccu_has D AssertCoreReset \<and> ccu_has D DeassertCoreReset
            then ccu_call D DeassertCoreReset (ccu_call D AssertCoreReset h) else h)
      else (D, h))"

definition codec_write :: "history \<Rightarrow> nat \<times> ULONG \<Rightarrow> history" where
  "codec_write h w = CodecWrite (fst w) (snd w) # h"

text \<open>The read caches, configured only when the window reaches them.\<close>

definition cache_cfg_writes :: "ULONG \<Rightarrow> (nat \<times> ULONG) list" where
  "cache_cfg_writes mmioLen =
     (if mmioLen \<ge> 0x100 + 0x600
      then [(0x100 + 0x51c, 0x13), (0x100 + 0x55c, 0x13), (0x100 + 0x59c, 0x13),
            (0x100 + 0x510, 1), (0x100 + 0x550, 1), (0x100 + 0x590, 1)]
      else [])"

definition kick_banks :: "RKMPP_JOB \<Rightarrow> (ULONG \<times> ULONG \<times> ULONG list) list" where
  "kick_banks j =
     [(RKMPP_DENSE_COMMON_FIRST, 25, Common (DenseBank j)),
      (RKMPP_DENSE_CPARAM_FIRST, 49, CodecParams (DenseBank j)),
      (RKMPP_DENSE_CADDR_FIRST, 15, CommonAddr (DenseBank j)),
      (RKMPP_DENSE_CODADDR_FIRST, 40, CodecAddr (DenseBank j)),
      (RKMPP_DENSE_HIPOC_FIRST, 5, HighPoc (DenseBank j)),
      (RKMPP_DENSE_STAT_FIRST, 22, Stat (DenseBank j))]"

definition bank_fits :: "ULONG \<Rightarrow> ULONG \<times> ULONG \<times> ULONG list \<Rightarrow> bool" where
  "bank_fits mmioLen b =
     (case b of (firstIdx, cnt, _) \<Rightarrow> \<not> firstIdx * 4 + 0x100 + cnt * 4 > mmioLen)"

text \<open>The words of one bank in ascending order, register 10 left out.\<close>

definition bank_writes :: "ULONG \<times> ULONG \<times> ULONG list \<Rightarrow> (nat \<times> ULONG) list" where
  "bank_writes b =
     (case b of (firstIdx, cnt, src) \<Rightarrow>
      map (\<lambda>p. (unat ((firstIdx + of_nat p) * 4 + 0x100), src ! p))
        (filter (\<lambda>p. firstIdx + of_nat p \<noteq> RKMPP_DENSE_KICK_REG_IDX) [0..<unat cnt]))"

definition kick_program :: "'s kick_env \<Rightarrow> ptr \<Rightarrow> 's RKMPP_DEVICE \<Rightarrow> history \<Rightarrow> 's RKMPP_DEVICE \<times> history" where
  "kick_program E p D h =
     (let j = jobs D p in
      if \<exists>b \<in> set (kick_banks j). \<not> bank_fits (MmioLength D) b
      then RkMppJobComplete (env_kernel E) STATUS_INVALID_PARAMETER 0 D h
      else if RKMPP_DENSE_KICK_REG_IDX * 4 + 0x100 + 4 > MmioLength D
      then RkMppJobComplete (env_kernel E) STATUS_INVALID_PARAMETER 0 D h
      else
        (let h1 = foldl (\<lambda>h m. FlushMdl m # h) h (CleanMdls j);
             h2 = foldl codec_write h1 (concat (map bank_writes (kick_banks j)));
             h3 = flush_tlb E D h2;
             h4 = codec_write h3 (unat (RKMPP_DENSE_KICK_REG_IDX * 4 + 0x100), DenseKickValue j)
         in if DenseKickValue j AND 1 = 0 then RkMppJobComplete (env_kernel E) STATUS_SUCCESS 0 D h4
            else (D, h4)))"

definition JobKickLocalInner :: "'s kick_env \<Rightarrow> ptr \<Rightarrow> 's RKMPP_DEVICE \<Rightarrow> history \<Rightarrow> 's RKMPP_DEVICE \<times> history" where
  "JobKickLocalInner E p D h =
     (let D0 = upd_job p (\<lambda>j. j\<lparr>StartQpc := k_qpc (env_kernel E) h\<rparr>) D in
      if \<not> HasMmio D0 \<or> MmioLength D0 = 0
      then RkMppJobComplete (env_kernel E) STATUS_DEVICE_NOT_READY 0 D0 h
      else
        (let (D2, h2) = kick_reset E (kick_probe p D0) h;
             h3 = ccu_call D2 UngateLeafClocks h2;
             h4 = codec_write h3 (RKVDEC2_INT_STATUS_OFFSET, 0);
             h5 = foldl codec_write h4 (cache_cfg_writes (MmioLength D2))
         in kick_program E p D2 h5))"

section \<open>Dispatch\<close>

text \<open>A peer dispatch that did not start: give the core back if it is still this job's, and complete the job.\<close>

definition fail_peer_kick :: "ptr \<Rightarrow> nat \<Rightarrow> NTSTATUS \<Rightarrow> 's RKMPP_DEVICE \<Rightarrow> 's RKMPP_DEVICE" where
  "fail_peer_kick p core status D =
     upd_job p (\<lambda>j. j\<lparr>Result := status, Done := True\<rparr>)
       (upd_q (\<lambda>q. (if InFlightPerCore q ! core = Some p then release_core core q else q)
                   \<lparr>Completed := Completed q @ [p]\<rparr>) D)"

definition kick_one :: "'s kick_env \<Rightarrow> ptr \<times> nat \<Rightarrow> 's RKMPP_DEVICE \<times> history \<Rightarrow> 's RKMPP_DEVICE \<times> history" where
  "kick_one E pr st =
     (case pr of (p, core) \<Rightarrow> case st of (D, h) \<Rightarrow>
      if core = 0 then JobKickLocalInner E p D h
      else if \<not> PeerOpen (JobQueue D) \<or> env_peer E = None
      then (fail_peer_kick p core STATUS_DEVICE_NOT_READY D, h)
      else
        (let j = jobs D p;
             h1 = flush_opt (ColmvCurMdl j) (foldl (\<lambda>h m. FlushMdl m # h) h (CleanMdls j));
             params = \<lparr>PkBank = DenseBank j, PkKickValue = DenseKickValue j, PkIovaSlots = DenseIovaSlots j,
                       PkCookie = Id j\<rparr>;
             s = the (env_peer E) h1 params;
             h2 = PeerKick (Id j) # h1
         in if \<not> NT_SUCCESS s then (fail_peer_kick p core s D, h2) else (D, h2)))"

definition KickPromotions :: "'s kick_env \<Rightarrow> (ptr \<times> nat) list \<Rightarrow> 's RKMPP_DEVICE \<Rightarrow> history \<Rightarrow>
    's RKMPP_DEVICE \<times> history" where
  "KickPromotions E promos D h = fold (kick_one E) promos (D, h)"

section \<open>The kick worker\<close>

text \<open>
  Each round clears the re-arm flag, promotes under the lock and kicks without it. The loop ends when a round
  finds the flag clear. Within one run only a kick that fails at once sets it again, and such a round has taken
  a job off the pending list.
\<close>

definition worker_round :: "'s kick_env \<Rightarrow> 's RKMPP_DEVICE \<Rightarrow> history \<Rightarrow> 's RKMPP_DEVICE \<times> history" where
  "worker_round E D h =
     (case PromoteUntilFull (upd_q (\<lambda>q. q\<lparr>KickRearm := False\<rparr>) D) of
        (promos, D1) \<Rightarrow> KickPromotions E promos D1 h)"

lemma enqueue_frame [simp]:
  "Pending (JobQueue (fst (RkMppEnqueueKickWorker D h))) = Pending (JobQueue D)"
  by (simp add: RkMppEnqueueKickWorker_def upd_q_def Let_def)

lemma account_result_queue [simp]: "JobQueue (account_result res hw ow D) = JobQueue D"
  by (simp add: account_result_def charge_error_def RkMppSetNeedsFullReset_def RkMppSetNeedsCoreReset_def
      split: option.splits)

lemma upd_job_queue [simp]: "JobQueue (upd_job p f D) = JobQueue D"
  by (simp add: upd_job_def)

lemma upd_q_queue [simp]: "JobQueue (upd_q f D) = f (JobQueue D)" "jobs (upd_q f D) = jobs D"
  by (simp_all add: upd_q_def)

lemma release_core_pending [simp]: "Pending (release_core c q) = Pending q"
  by (simp add: release_core_def)

lemma complete_pending [simp]: "Pending (JobQueue (fst (RkMppJobComplete K res hw D h))) = Pending (JobQueue D)"
  by (simp add: RkMppJobComplete_def Let_def split: option.splits)

lemma kick_reset_queue [simp]: "JobQueue (fst (kick_reset E D h)) = JobQueue D"
  by (simp add: kick_reset_def full_reset_def RkMppSetNeedsFullReset_def Let_def split: prod.splits)

lemma kick_local_pending [simp]:
  "Pending (JobQueue (fst (JobKickLocalInner E p D h))) = Pending (JobQueue D)"
proof -
  have "Pending (JobQueue (fst (kick_program E p D h))) = Pending (JobQueue D)" for D :: "'a RKMPP_DEVICE" and h
    by (simp add: kick_program_def Let_def)
  moreover have "Pending (JobQueue (fst (kick_reset E (kick_probe p (upd_job p f D)) h))) = Pending (JobQueue D)" for f
    by (simp add: kick_probe_def Let_def)
  ultimately show ?thesis by (auto simp: JobKickLocalInner_def Let_def split: prod.splits dest!: arg_cong[where f = fst])
qed

lemma kick_one_pending [simp]: "Pending (JobQueue (fst (kick_one E pr st))) = Pending (JobQueue (fst st))"
  by (cases pr; cases st) (simp add: kick_one_def fail_peer_kick_def Let_def)

lemma kick_promotions_pending [simp]:
  "Pending (JobQueue (fst (KickPromotions E promos D h))) = Pending (JobQueue D)"
proof -
  have "Pending (JobQueue (fst (fold (kick_one E) promos st))) = Pending (JobQueue (fst st))" for st
    by (induction promos arbitrary: st) simp_all
  then show ?thesis by (simp add: KickPromotions_def)
qed

lemma pick_pending_length:
  assumes "PickPendingByOwnerLru js q = (Some p, q')"
  shows "length (Pending q') < length (Pending q)"
proof -
  have loop: "pick_loop score es c best \<in> insert c (set es)" for score es c best
    by (induction es arbitrary: c best) auto
  obtain e es where P: "Pending q = e # es"
    using assms by (cases "Pending q") (auto simp: PickPendingByOwnerLru_def)
  then have "p \<in> set (Pending q)" "Pending q' = remove1 p (Pending q)"
    using assms loop[of "\<lambda>p. lru_score (OwnerLru q) (Owner (js p))" "e # es" e "0xFFFFFFFFFFFFFFFF"]
    by (auto simp: PickPendingByOwnerLru_def Let_def simp del: pick_loop.simps)
  moreover have "x \<in> set xs \<Longrightarrow> length (remove1 x xs) < length xs" for x :: ptr and xs
    by (induction xs) auto
  ultimately show ?thesis by simp
qed

lemma promote_loop_pending:
  "promote_loop n D out = (out', D') \<Longrightarrow>
   length (Pending (JobQueue D')) \<le> length (Pending (JobQueue D)) \<and>
   (length (Pending (JobQueue D')) = length (Pending (JobQueue D)) \<longrightarrow> out' = out \<and> D' = D)"
proof (induction n arbitrary: D out)
  case (Suc n)
  show ?case
  proof (cases "promote_loop (Suc n) D out = (out, D)")
    case False
    then obtain p q1 where p: "PickPendingByOwnerLru (jobs D) (JobQueue D) = (Some p, q1)"
      "promote_loop (Suc n) D out =
         promote_loop n (promote_one (nat (PickTargetCore (JobQueue D))) p (D\<lparr>JobQueue := q1\<rparr>))
           (out @ [(p, nat (PickTargetCore (JobQueue D)))])"
      by (auto simp: Let_def split: if_splits prod.splits option.splits)
    have "Pending (JobQueue (promote_one c p (D\<lparr>JobQueue := q1\<rparr>))) = Pending q1" for c
      by (simp add: promote_one_def Let_def)
    then show ?thesis using Suc.IH[of _ _] Suc.prems pick_pending_length[OF p(1)] unfolding p(2)
      by (metis leD order.strict_trans1 nless_le)
  qed (use Suc.prems in auto)
qed simp

lemma worker_round_measure:
  assumes "KickRearm (JobQueue D)"
  shows "length (Pending (JobQueue (fst (worker_round E D h)))) \<le> length (Pending (JobQueue D))"
    "KickRearm (JobQueue (fst (worker_round E D h))) \<Longrightarrow>
     length (Pending (JobQueue (fst (worker_round E D h)))) < length (Pending (JobQueue D))"
proof -
  let ?D0 = "upd_q (\<lambda>q. q\<lparr>KickRearm := False\<rparr>) D"
  obtain promos D1 where P: "PromoteUntilFull ?D0 = (promos, D1)" by force
  have L: "length (Pending (JobQueue D1)) \<le> length (Pending (JobQueue D))"
    "length (Pending (JobQueue D1)) = length (Pending (JobQueue D)) \<longrightarrow> promos = [] \<and> D1 = ?D0"
    using promote_loop_pending[of _ ?D0 "[]" promos D1] P by (auto simp: PromoteUntilFull_def)
  show "length (Pending (JobQueue (fst (worker_round E D h)))) \<le> length (Pending (JobQueue D))"
    using L by (simp add: worker_round_def P)
  assume "KickRearm (JobQueue (fst (worker_round E D h)))"
  then have "promos \<noteq> [] \<or> D1 \<noteq> ?D0" by (auto simp: worker_round_def P KickPromotions_def)
  then show "length (Pending (JobQueue (fst (worker_round E D h)))) < length (Pending (JobQueue D))"
    using L by (auto simp: worker_round_def P nless_le)
qed

lemma worker_round_decreases:
  assumes "KickRearm (JobQueue D)"
  shows "2 * length (Pending (JobQueue (fst (worker_round E D h)))) +
      (if KickRearm (JobQueue (fst (worker_round E D h))) then 1 else 0) < 2 * length (Pending (JobQueue D)) + 1"
  using worker_round_measure[OF assms, of E h] by (cases "KickRearm (JobQueue (fst (worker_round E D h)))") simp_all

function RkMppKickWorker :: "'s kick_env \<Rightarrow> 's RKMPP_DEVICE \<Rightarrow> history \<Rightarrow> 's RKMPP_DEVICE \<times> history" where
  "RkMppKickWorker E D h =
     (if \<not> KickRearm (JobQueue D) then (upd_q (\<lambda>q. q\<lparr>KickActive := False\<rparr>) D, h)
      else RkMppKickWorker E (fst (worker_round E D h)) (snd (worker_round E D h)))"
  by pat_completeness auto

termination
  by (relation "measure (\<lambda>(E, D, h). 2 * length (Pending (JobQueue D)) + (if KickRearm (JobQueue D) then 1 else 0))")
     (simp_all add: worker_round_decreases case_prod_beta del: One_nat_def)

declare RkMppKickWorker.simps [simp del]

section \<open>Submission\<close>

text \<open>The count over the pending list stops early once both limits are reached.\<close>

fun admission_loop :: "(ptr \<Rightarrow> bool) \<Rightarrow> ptr list \<Rightarrow> nat \<Rightarrow> nat \<Rightarrow> nat \<times> nat" where
  "admission_loop mine [] pendingCount ownerCount = (pendingCount, ownerCount)"
| "admission_loop mine (e # es) pendingCount ownerCount =
     (let pc = pendingCount + 1; oc = (if mine e then ownerCount + 1 else ownerCount)
      in if pc \<ge> 8 \<and> oc \<ge> 4 then (pc, oc) else admission_loop mine es pc oc)"

definition admission_full :: "'s RKMPP_DEVICE \<Rightarrow> ptr \<Rightarrow> bool" where
  "admission_full D File =
     (let q = JobQueue D;
          mine = (\<lambda>p. Owner (jobs D p) = Some File);
          inflight = length (filter (\<lambda>s. case s of None \<Rightarrow> False | Some p \<Rightarrow> mine p) (active_slots q));
          (pc, oc) = admission_loop mine (Pending q) 0 inflight
      in pc \<ge> 8 \<or> oc \<ge> 4)"

text \<open>
  Everything up to the release of the two locks. The result is the job id and the promotions to kick.
\<close>

definition submit_locked :: "kernel \<Rightarrow> ptr \<Rightarrow> RKMPP_SUBMIT_DENSE_JOB_IN \<Rightarrow> 's RKMPP_DEVICE \<Rightarrow> history \<Rightarrow>
    (NTSTATUS + ULONG64 \<times> (ptr \<times> nat) list) \<times> 's RKMPP_DEVICE \<times> history" where
  "submit_locked K File In D h =
     (if InIovaSlotCount In > 64 \<or> InBufRefCount In > 16 then (Inl STATUS_INVALID_PARAMETER, D, h)
      else if InKickValue In AND 1 = 0 then (Inl STATUS_INVALID_PARAMETER, D, h)
      else case ExAllocatePool2 K ''JppM'' h of
        (None, h1) \<Rightarrow> (Inl STATUS_INSUFFICIENT_RESOURCES, D, h1)
      | (Some p, h1) \<Rightarrow>
          (case build_job (files (bufs D) File) File In of
             Inl status \<Rightarrow> (Inl status, D, ExFreePoolWithTag ''JppM'' p h1)
           | Inr j \<Rightarrow>
               (let D1 = upd_q (\<lambda>q. q\<lparr>NextId := NextId q + 1\<rparr>) D;
                    jid = NextId (JobQueue D1);
                    D2 = upd_job p (\<lambda>_. j\<lparr>Id := jid\<rparr>) D1
                in if admission_full D2 File
                   then (Inl STATUS_DEVICE_BUSY, D2, ExFreePoolWithTag ''JppM'' p h1)
                   else (case PromoteUntilFull (upd_q (\<lambda>q. q\<lparr>Pending := Pending q @ [p]\<rparr>) D2) of
                           (promos, D3) \<Rightarrow> (Inr (jid, promos), D3, h1)))))"

definition RkMppJobSubmitDense :: "'s kick_env \<Rightarrow> ptr \<Rightarrow> RKMPP_SUBMIT_DENSE_JOB_IN \<Rightarrow> 's RKMPP_DEVICE \<Rightarrow> history \<Rightarrow>
    (NTSTATUS + ULONG64) \<times> 's RKMPP_DEVICE \<times> history" where
  "RkMppJobSubmitDense E File In D h =
     (case submit_locked (env_kernel E) File In D h of
        (Inl status, D1, h1) \<Rightarrow> (Inl status, D1, h1)
      | (Inr (jid, promos), D1, h1) \<Rightarrow>
          (case KickPromotions E promos D1 h1 of (D2, h2) \<Rightarrow> (Inr jid, D2, h2)))"

section \<open>Waiting for a job\<close>

text \<open>
  \<^verbatim>\<open>KeWaitForSingleObject\<close> on a job's event, with everything the other threads do meanwhile, is a parameter: it
  gets the timeout (in 100 ns, negative for relative; None waits forever), the job, the state and the history,
  and returns the wait status and what the others left behind.
\<close>

type_synonym 's waiter = "int option \<Rightarrow> ptr \<Rightarrow> 's RKMPP_DEVICE \<Rightarrow> history \<Rightarrow> NTSTATUS \<times> 's RKMPP_DEVICE \<times> history"

record RKMPP_WAIT_JOB_OUT =
  OutStatus :: NTSTATUS
  OutHardwareStatus :: ULONG
  OutElapsedQpc :: ULONG64

definition wait_out :: "RKMPP_JOB \<Rightarrow> RKMPP_WAIT_JOB_OUT" where
  "wait_out j =
     \<lparr>OutStatus = Result j, OutHardwareStatus = HardwareStatus j,
      OutElapsedQpc = (if sint (EndQpc j - StartQpc j) < 0 then 0 else EndQpc j - StartQpc j)\<rparr>"

text \<open>The lookup: completed jobs first, then this file's jobs on the cores, then pending ones.\<close>

definition wait_lookup :: "'s RKMPP_DEVICE \<Rightarrow> ptr \<Rightarrow> ULONG64 \<Rightarrow> (ptr \<times> bool) option" where
  "wait_lookup D File JobId =
     (let q = JobQueue D;
          is_job = (\<lambda>p. Id (jobs D p) = JobId);
          found = (case find is_job (Completed q) of
                     Some p \<Rightarrow> Some (p, True)
                   | None \<Rightarrow>
                       (case find_slot (\<lambda>p. Id (jobs D p) = JobId \<and> Owner (jobs D p) = Some File) q of
                          Some p \<Rightarrow> Some (p, False)
                        | None \<Rightarrow> (case find is_job (Pending q) of
                                     Some p \<Rightarrow> Some (p, False)
                                   | None \<Rightarrow> None)))
      in case found of
           None \<Rightarrow> None
         | Some (p, done) \<Rightarrow> (if Owner (jobs D p) \<noteq> Some File then None else Some (p, done)))"

definition pin :: "ptr \<Rightarrow> 's RKMPP_DEVICE \<Rightarrow> 's RKMPP_DEVICE" where
  "pin p = upd_job p (\<lambda>j. j\<lparr>WaiterPin := WaiterPin j + 1\<rparr>)"

definition unpin :: "ptr \<Rightarrow> 's RKMPP_DEVICE \<Rightarrow> 's RKMPP_DEVICE" where
  "unpin p = upd_job p (\<lambda>j. j\<lparr>WaiterPin := WaiterPin j - 1\<rparr>)"

text \<open>After a wait that ran out: the last waiter removes the job from a list, or leaves it to its completion.\<close>

definition wait_timeout :: "ptr \<Rightarrow> 's RKMPP_DEVICE \<Rightarrow> history \<Rightarrow> 's RKMPP_DEVICE \<times> history" where
  "wait_timeout p D h =
     (let D1 = unpin p D; q = JobQueue D1 in
      if WaiterPin (jobs D1 p) \<noteq> 0 then (D1, h)
      else if p \<in> set (Pending q)
      then (upd_q (\<lambda>q. q\<lparr>Pending := remove1 p (Pending q)\<rparr>) D1, ExFreePoolWithTag ''JppM'' p h)
      else if p \<in> set (Completed q)
      then (upd_q (\<lambda>q. q\<lparr>Completed := remove1 p (Completed q)\<rparr>) D1, ExFreePoolWithTag ''JppM'' p h)
      else if Some p \<in> set (active_slots q)
      then (upd_job p (\<lambda>j. j\<lparr>OrphanOnComplete := True\<rparr>) D1, h)
      else (D1, h))"

text \<open>After the event was signalled: the job is on the completed list, and the last waiter takes it off.\<close>

definition wait_done :: "ptr \<Rightarrow> 's RKMPP_DEVICE \<Rightarrow> history \<Rightarrow> 's RKMPP_DEVICE \<times> history" where
  "wait_done p D h =
     (let D1 = unpin p D in
      if WaiterPin (jobs D1 p) = 0
      then (upd_q (\<lambda>q. q\<lparr>Completed := remove1 p (Completed q)\<rparr>) D1, ExFreePoolWithTag ''JppM'' p h)
      else (D1, h))"

definition wait_time :: "ULONG \<Rightarrow> int option" where
  "wait_time TimeoutMs =
     (if TimeoutMs \<noteq> 0 \<and> TimeoutMs \<noteq> 0xFFFFFFFF then Some (- (uint TimeoutMs * 10000)) else None)"

definition RkMppJobWait :: "'s waiter \<Rightarrow> ptr \<Rightarrow> ULONG64 \<Rightarrow> ULONG \<Rightarrow> 's RKMPP_DEVICE \<Rightarrow> history \<Rightarrow>
    (NTSTATUS \<times> RKMPP_WAIT_JOB_OUT option) \<times> 's RKMPP_DEVICE \<times> history" where
  "RkMppJobWait W File JobId TimeoutMs D h =
     (case wait_lookup D File JobId of
        None \<Rightarrow> ((STATUS_NOT_FOUND, None), D, h)
      | Some (p, True) \<Rightarrow>
          ((STATUS_SUCCESS, Some (wait_out (jobs D p))),
           upd_q (\<lambda>q. q\<lparr>Completed := remove1 p (Completed q)\<rparr>) D, ExFreePoolWithTag ''JppM'' p h)
      | Some (p, False) \<Rightarrow>
          (case W (wait_time TimeoutMs) p (pin p D) h of (w, D1, h1) \<Rightarrow>
             (if w = STATUS_TIMEOUT
              then (case wait_timeout p D1 h1 of (D2, h2) \<Rightarrow>
                      ((STATUS_TIMEOUT,
                        Some \<lparr>OutStatus = STATUS_TIMEOUT, OutHardwareStatus = 0, OutElapsedQpc = 0\<rparr>), D2, h2))
              else (case wait_done p D1 h1 of (D2, h2) \<Rightarrow>
                      ((STATUS_SUCCESS, Some (wait_out (jobs D1 p))), D2, h2)))))"

section \<open>Draining a closing file\<close>

definition free_jobs :: "ptr list \<Rightarrow> history \<Rightarrow> history" where
  "free_jobs ps h = foldl (\<lambda>h p. ExFreePoolWithTag ''JppM'' p h) h ps"

text \<open>Phases 1 and 2: take the file's jobs off both lists and free them.\<close>

definition drain_lists :: "ptr \<Rightarrow> 's RKMPP_DEVICE \<Rightarrow> history \<Rightarrow> 's RKMPP_DEVICE \<times> history" where
  "drain_lists File D h =
     (let q = JobQueue D; mine = (\<lambda>p. Owner (jobs D p) = Some File) in
      (upd_q (\<lambda>q. q\<lparr>Pending := filter (\<lambda>p. \<not> mine p) (Pending q),
                      Completed := filter (\<lambda>p. \<not> mine p) (Completed q)\<rparr>) D,
       free_jobs (filter mine (Pending q) @ filter mine (Completed q)) h))"

text \<open>The section after a wait: unpin, give up on a stalled core, reap what is on the completed list unpinned.\<close>

definition orphan_slots :: "ptr \<Rightarrow> 's RKMPP_DEVICE \<Rightarrow> 's RKMPP_DEVICE" where
  "orphan_slots File D =
     fold (\<lambda>s D. case s of
                   None \<Rightarrow> D
                 | Some p \<Rightarrow>
                     (if Owner (jobs D p) = Some File
                      then upd_job p (\<lambda>j. j\<lparr>OutputFrameMdl := None, ColmvCurMdl := None,
                                            OrphanOnComplete := True\<rparr>) D
                      else D)) (active_slots (JobQueue D)) D"

definition drain_after_wait :: "ptr \<Rightarrow> ptr \<Rightarrow> bool \<Rightarrow> 's RKMPP_DEVICE \<Rightarrow> history \<Rightarrow> 's RKMPP_DEVICE \<times> history" where
  "drain_after_wait File p timedOut D h =
     (let D1 = unpin p D;
          D2 = (if timedOut then orphan_slots File D1 else D1);
          reap = (\<lambda>c. Owner (jobs D2 c) = Some File \<and> WaiterPin (jobs D2 c) = 0)
      in (upd_q (\<lambda>q. q\<lparr>Completed := filter (\<lambda>c. \<not> reap c) (Completed q)\<rparr>) D2,
          free_jobs (filter reap (Completed (JobQueue D2))) h))"

text \<open>
  Phase 3. Each round pins one job of the file that is on a core, waits for it and cleans up; a wait that ran
  out ends the loop. The first argument bounds the rounds, None being a loop that has not ended within them.
\<close>

fun drain_loop :: "nat \<Rightarrow> 's waiter \<Rightarrow> ULONG \<Rightarrow> ptr \<Rightarrow> 's RKMPP_DEVICE \<Rightarrow> history \<Rightarrow>
    (bool \<times> 's RKMPP_DEVICE \<times> history) option" where
  "drain_loop 0 W TimeoutMs File D h = None"
| "drain_loop (Suc n) W TimeoutMs File D h =
     (case find_slot (\<lambda>p. Owner (jobs D p) = Some File) (JobQueue D) of
        None \<Rightarrow> Some (False, D, h)
      | Some p \<Rightarrow>
          (case W (Some (- (uint TimeoutMs * 10000))) p (pin p D) h of (w, D1, h1) \<Rightarrow>
             (case drain_after_wait File p (w = STATUS_TIMEOUT) D1 h1 of (D2, h2) \<Rightarrow>
                (if w = STATUS_TIMEOUT then Some (True, RkMppSetNeedsFullReset D2, h2)
                 else drain_loop n W TimeoutMs File D2 h2))))"

definition RkMppJobsDrainOwner :: "nat \<Rightarrow> 's waiter \<Rightarrow> ULONG \<Rightarrow> ptr \<Rightarrow> 's RKMPP_DEVICE \<Rightarrow> history \<Rightarrow>
    (bool \<times> 's RKMPP_DEVICE \<times> history) option" where
  "RkMppJobsDrainOwner n W TimeoutMs File D h =
     (case drain_lists File D h of (D1, h1) \<Rightarrow> drain_loop n W TimeoutMs File D1 h1)"

section \<open>Jobs run for a peer device\<close>

text \<open>
  The result is the returned status and, when the callback is invoked, its result and hardware status
  arguments. Bank sizes other than that of the C type are refused before the model's typed bank exists.
\<close>

definition RkMppJobRunForeign :: "'s kick_env \<Rightarrow> 's waiter \<Rightarrow> RKMPP_PEER_KICK_PARAMS \<Rightarrow> 's RKMPP_DEVICE \<Rightarrow> history \<Rightarrow>
    (NTSTATUS \<times> (NTSTATUS \<times> ULONG) option) \<times> 's RKMPP_DEVICE \<times> history" where
  "RkMppJobRunForeign E W P D h =
     (if length (PkIovaSlots P) > 64 then ((STATUS_INVALID_PARAMETER, None), D, h)
      else case ExAllocatePool2 (env_kernel E) ''gFKR'' h of
        (None, h1) \<Rightarrow> ((STATUS_INSUFFICIENT_RESOURCES, None), D, h1)
      | (Some p, h1) \<Rightarrow>
          (let D1 = upd_q (\<lambda>q. q\<lparr>NextId := NextId q + 1\<rparr>) D;
               D2 = upd_job p (\<lambda>_. zero_job\<lparr>Result := STATUS_PENDING, DenseKickValue := PkKickValue P,
                                     DenseBank := PkBank P, DenseIovaSlots := PkIovaSlots P,
                                     Id := NextId (JobQueue D1)\<rparr>) D1
           in if InFlightPerCore (JobQueue D2) ! 0 \<noteq> None
              then ((STATUS_DEVICE_BUSY, None), D2, ExFreePoolWithTag ''gFKR'' p h1)
              else
                (let D3 = upd_q (\<lambda>q. q\<lparr>InFlightPerCore := (InFlightPerCore q)[0 := Some p],
                                       CoreIdle := CoreIdle q AND NOT 1\<rparr>) D2
                 in case JobKickLocalInner E p D3 h1 of (D4, h4) \<Rightarrow>
                    case W (Some (- 1000000)) p D4 h4 of (w, D5, h5) \<Rightarrow>
                      (if w = STATUS_TIMEOUT
                       then ((STATUS_0xC0000507, Some (STATUS_0xC0000507, 0)),
                             RkMppSetNeedsFullReset (upd_job p (\<lambda>j. j\<lparr>OrphanOnComplete := True\<rparr>) D5), h5)
                       else ((STATUS_SUCCESS, Some (Result (jobs D5 p), HardwareStatus (jobs D5 p))),
                             upd_q (\<lambda>q. q\<lparr>Completed := remove1 p (Completed q)\<rparr>) D5,
                             ExFreePoolWithTag ''gFKR'' p h5)))))"

section \<open>Attaching and detaching the peer\<close>

text \<open>\<open>found\<close> is what the interface query of an arrival returned: hardware id, unit id and file object.\<close>

definition RkMppPeerArrival :: "(ULONG \<times> ULONG \<times> ptr) option \<Rightarrow> 's RKMPP_DEVICE \<Rightarrow> history \<Rightarrow>
    's RKMPP_DEVICE \<times> history" where
  "RkMppPeerArrival found D h =
     (if DevUid D \<noteq> 0 then (D, h)
      else case found of
        None \<Rightarrow> (D, h)
      | Some (hid, uid, fo) \<Rightarrow>
          (let h1 = Acquire (IfcRef fo) # Acquire (FileRef fo) # h;
               h2 = Release (FileRef fo) # Release (IfcRef fo) # h1
           in if hid \<noteq> 0x3550 \<or> uid \<noteq> 1 then (D, h2)
              else if PeerOpen (JobQueue D) then (D, h2)
              else (upd_q (\<lambda>q. q\<lparr>PeerFileObj := Some fo, PeerOpen := True, CoreCount := 2,
                                  CoreIdle := CoreIdle q OR push_bit 1 1,
                                  CorePending := (CorePending q)[1 := 0]\<rparr>) D, h1)))"

definition RkMppDetachPeer :: "'s waiter \<Rightarrow> 's RKMPP_DEVICE \<Rightarrow> history \<Rightarrow> 's RKMPP_DEVICE \<times> history" where
  "RkMppDetachPeer W D h =
     (let wasOpen = PeerOpen (JobQueue D);
          peerFo = PeerFileObj (JobQueue D);
          peerJob = InFlightPerCore (JobQueue D) ! 1;
          D1 = upd_q (\<lambda>q. q\<lparr>PeerOpen := False, CoreCount := 1, CoreIdle := CoreIdle q AND 1,
                             CorePending := (CorePending q)[1 := 0], PeerFileObj := None\<rparr>) D
      in if \<not> wasOpen then (D1, h)
         else
           (let (D2, h2) = (case peerJob of None \<Rightarrow> (D1, h) | Some p \<Rightarrow> snd (W (Some (- 5000000)) p D1 h))
            in (D2, case peerFo of
                      None \<Rightarrow> h2
                    | Some fo \<Rightarrow> Release (FileRef fo) # Release (IfcRef fo) # h2)))"

end
