(* ===== verification/Job_Sched.thy ===== *)
theory Job_Sched
  imports Job_Ops
begin

text \<open>
  The scheduling decisions of the queue: which pending job is next, which core runs it, and that promotion fills
  every idle core it can.
\<close>

section \<open>The next job\<close>

lemma pick_loop_spec:
  "let r = pick_loop score es c best in
     (r = c \<and> (\<forall>e \<in> set es. best \<le> score e)) \<or>
     (\<exists>ys zs. es = ys @ r # zs \<and> score r < best \<and> (\<forall>y \<in> set ys. score r < score y) \<and>
        (\<forall>z \<in> set zs. score r \<le> score z))"
proof (induction es arbitrary: c best)
  case (Cons e es)
  show ?case
  proof (cases "score e < best")
    case lt: True
    show ?thesis
    proof (cases "score e = 0")
      case True
      then show ?thesis using lt unfolding Let_def by (intro disjI2 exI[of _ "[]"] exI[of _ es]) simp
    next
      case False
      define r where "r = pick_loop score es e (score e)"
      have r: "pick_loop score (e # es) c best = r" using lt False by (simp add: r_def)
      from Cons[of e "score e", unfolded Let_def r_def[symmetric]] show ?thesis unfolding r Let_def
      proof (elim disjE)
        assume "r = e \<and> (\<forall>x \<in> set es. score e \<le> score x)"
        then show "r = c \<and> (\<forall>e \<in> set (e # es). best \<le> score e) \<or> (\<exists>ys zs. e # es = ys @ r # zs \<and> score r < best \<and>
            (\<forall>y \<in> set ys. score r < score y) \<and> (\<forall>z \<in> set zs. score r \<le> score z))"
          using lt by (intro disjI2 exI[of _ "[]"] exI[of _ es]) simp
      next
        assume "\<exists>ys zs. es = ys @ r # zs \<and> score r < score e \<and> (\<forall>y \<in> set ys. score r < score y) \<and>
            (\<forall>z \<in> set zs. score r \<le> score z)"
        then obtain ys zs where "es = ys @ r # zs" "score r < score e" "\<forall>y \<in> set ys. score r < score y"
          "\<forall>z \<in> set zs. score r \<le> score z" by blast
        then show "r = c \<and> (\<forall>e \<in> set (e # es). best \<le> score e) \<or> (\<exists>ys zs. e # es = ys @ r # zs \<and> score r < best \<and>
            (\<forall>y \<in> set ys. score r < score y) \<and> (\<forall>z \<in> set zs. score r \<le> score z))"
          using lt by (intro disjI2 exI[of _ "e # ys"] exI[of _ zs]) auto
      qed
    qed
  next
    case False
    define r where "r = pick_loop score es c best"
    have r: "pick_loop score (e # es) c best = r" using False by (simp add: r_def)
    from Cons[of c best, unfolded Let_def r_def[symmetric]] show ?thesis unfolding r Let_def
    proof (elim disjE)
      assume "\<exists>ys zs. es = ys @ r # zs \<and> score r < best \<and> (\<forall>y \<in> set ys. score r < score y) \<and>
          (\<forall>z \<in> set zs. score r \<le> score z)"
      then obtain ys zs where "es = ys @ r # zs" "score r < best" "\<forall>y \<in> set ys. score r < score y"
        "\<forall>z \<in> set zs. score r \<le> score z" by blast
      then show "r = c \<and> (\<forall>e \<in> set (e # es). best \<le> score e) \<or> (\<exists>ys zs. e # es = ys @ r # zs \<and> score r < best \<and>
          (\<forall>y \<in> set ys. score r < score y) \<and> (\<forall>z \<in> set zs. score r \<le> score z))"
        using False by (intro disjI2 exI[of _ "e # ys"] exI[of _ zs]) auto
    qed (use False in auto)
  qed
qed (simp add: Let_def)

abbreviation job_score :: "(ptr \<Rightarrow> RKMPP_JOB) \<Rightarrow> RKMPP_JOB_QUEUE \<Rightarrow> ptr \<Rightarrow> ULONG64" where
  "job_score js q p \<equiv> lru_score (OwnerLru q) (Owner (js p))"

lemma word64_le_max: "(x :: ULONG64) \<le> 0xFFFFFFFFFFFFFFFF"
  using unsigned_less[where 'a = nat and w = x] by (simp add: word_le_nat_alt)

lemma pick_pending_spec:
  assumes "PickPendingByOwnerLru js q = (Some p, q')"
  obtains ys zs where "Pending q = ys @ p # zs" "q' = q\<lparr>Pending := remove1 p (Pending q)\<rparr>"
    "\<forall>y \<in> set ys. job_score js q p < job_score js q y" "\<forall>z \<in> set zs. job_score js q p \<le> job_score js q z"
proof -
  obtain e es where P: "Pending q = e # es"
    using assms by (cases "Pending q") (auto simp: PickPendingByOwnerLru_def)
  have p: "p = pick_loop (job_score js q) (e # es) e 0xFFFFFFFFFFFFFFFF" "q' = q\<lparr>Pending := remove1 p (Pending q)\<rparr>"
    using assms by (auto simp: PickPendingByOwnerLru_def P Let_def simp del: pick_loop.simps)
  from pick_loop_spec[of "job_score js q" "e # es" e "0xFFFFFFFFFFFFFFFF", unfolded Let_def p(1)[symmetric]]
  show ?thesis
  proof (elim disjE)
    assume "p = e \<and> (\<forall>x \<in> set (e # es). 0xFFFFFFFFFFFFFFFF \<le> job_score js q x)"
    then have "p = e" "\<forall>z \<in> set es. job_score js q p \<le> job_score js q z"
      by (auto intro: order_trans[OF word64_le_max])
    then show ?thesis using that[of "[]" es] P p(2) by simp
  qed (use that P p(2) in auto)
qed

text \<open>C33: The job promoted next is one whose owner was kicked longest ago (never, if possible): no pending job has
  a lower last-kick score, and every job in front of it in the list has a strictly higher one. Jobs of one
  owner share a score, so each owner's jobs are promoted in the order they were submitted.\<close>

theorem pick_pending_oldest_owner:
  assumes "PickPendingByOwnerLru js q = (Some p, q')"
  shows "\<exists>ys zs. Pending q = ys @ p # zs \<and> Pending q' = remove1 p (Pending q) \<and>
    (\<forall>x \<in> set (Pending q). job_score js q p \<le> job_score js q x) \<and> (\<forall>y \<in> set ys. Owner (js y) \<noteq> Owner (js p))"
proof -
  obtain ys zs where s: "Pending q = ys @ p # zs" "q' = q\<lparr>Pending := remove1 p (Pending q)\<rparr>"
    "\<forall>y \<in> set ys. job_score js q p < job_score js q y" "\<forall>z \<in> set zs. job_score js q p \<le> job_score js q z"
    by (rule pick_pending_spec[OF assms])
  have "\<forall>x \<in> set (Pending q). job_score js q p \<le> job_score js q x" unfolding s(1) using s(3,4) by auto
  moreover have "\<forall>y \<in> set ys. Owner (js y) \<noteq> Owner (js p)" using s(3) by auto
  ultimately show ?thesis using s(1,2) by (intro exI[of _ ys] exI[of _ zs]) simp
qed

section \<open>The core\<close>

definition shape_ok :: "RKMPP_JOB_QUEUE \<Rightarrow> bool" where
  "shape_ok q \<longleftrightarrow> length (InFlightPerCore q) = 2 \<and> length (CorePending q) = 2 \<and> length (OwnerLru q) = 4 \<and>
     (CoreCount q = 1 \<or> CoreCount q = 2)"

lemma upt_two: "[0..<2] = [0, 1 :: nat]"
  by (simp add: upt_rec numeral_2_eq_2)

lemma test_core_bit: "c < 2 \<Longrightarrow> (w :: ULONG) AND push_bit c 1 = 0 \<longleftrightarrow> \<not> bit w c"
  by (simp add: and_exp_eq_0_iff_not_bit)

lemma core_mask_bit: "n \<le> 2 \<Longrightarrow> c < 2 \<Longrightarrow> bit ((w :: ULONG) AND (push_bit n 1 - 1)) c \<longleftrightarrow> c < n \<and> bit w c"
  by (auto simp: bit_and_iff bit_mask_iff mask_eq_exp_minus_1[symmetric])

lemma core_mask_zero:
  assumes "n \<le> 2"
  shows "(w :: ULONG) AND (push_bit n 1 - 1) = 0 \<longleftrightarrow> (\<forall>c < n. \<not> bit w c)"
proof -
  have "c < n \<Longrightarrow> c < 32" for c using assms by simp
  then show ?thesis
    by (auto simp: bit_eq_iff [where 'a = ULONG] bit_and_iff bit_mask_iff mask_eq_exp_minus_1[symmetric])
qed

lemma word32_less_max: "(x :: ULONG) \<noteq> 0xFFFFFFFF \<Longrightarrow> x < 0xFFFFFFFF"
  using unsigned_less[where 'a = nat and w = x] by (simp add: word_less_nat_alt word_unat_eq_iff)

text \<open>The scan over one or two cores, with the tests on the mask as tests of a bit.\<close>

lemma pick_core_cases:
  assumes "shape_ok q" "\<forall>c < CoreCount q. CorePending q ! c \<noteq> 0xFFFFFFFF"
  shows "PickTargetCore q =
    (let i0 = bit (CoreIdle q) 0; i1 = (CoreCount q = 2 \<and> bit (CoreIdle q) 1);
         p0 = CorePending q ! 0; p1 = CorePending q ! 1
     in if i0 \<and> i1 then (if p1 < p0 \<or> p1 = p0 \<and> LastKickCore q = 0 then 1 else 0)
        else if i0 then 0 else if i1 then 1 else -1)"
proof -
  have m: "c < 2 \<Longrightarrow> (CoreIdle q AND (push_bit n 1 - 1)) AND push_bit c 1 = 0 \<longleftrightarrow> \<not> (c < n \<and> bit (CoreIdle q) c)"
    if "n \<le> 2" for n c
    by (simp add: test_core_bit core_mask_bit that del: push_bit_of_1)
  have lt: "c < CoreCount q \<Longrightarrow> CorePending q ! c < 0xFFFFFFFF" for c using assms(2) word32_less_max by blast
  from assms(1) have "CoreCount q = 1 \<or> CoreCount q = 2" by (simp add: shape_ok_def)
  then show ?thesis
  proof
    assume one: "CoreCount q = 1"
    have "PickTargetCore q = (if \<not> bit (CoreIdle q) 0 then -1 else 0)"
      using m[of 1 0] core_mask_zero[of 1 "CoreIdle q"] lt[of 0] one
      by (simp add: PickTargetCore_def core_step_def Let_def)
    then show ?thesis using one by (simp add: Let_def)
  next
    assume two: "CoreCount q = 2"
    have z: "CoreIdle q AND (push_bit 2 1 - 1) = 0 \<longleftrightarrow> \<not> bit (CoreIdle q) 0 \<and> \<not> bit (CoreIdle q) 1"
      using core_mask_zero[of 2 "CoreIdle q"] by (auto simp: less_2_cases_iff)
    show ?thesis
      using m[of 2 0] m[of 2 1] lt[of 0] lt[of 1] two
      unfolding PickTargetCore_def two z upt_two Let_def
      by (auto simp: core_step_def)
  qed
qed

text \<open>The target core is an active idle core with the fewest jobs, and -1 exactly when no active core is idle;
  when two idle cores are tied it is not the one that was kicked last, so a lone submitter alternates.\<close>

theorem pick_core_correct:
  assumes "shape_ok q" "\<forall>c < CoreCount q. CorePending q ! c \<noteq> 0xFFFFFFFF"
  shows "(PickTargetCore q = -1 \<longleftrightarrow> (\<forall>c < CoreCount q. \<not> bit (CoreIdle q) c)) \<and>
    (PickTargetCore q \<noteq> -1 \<longrightarrow>
       (\<exists>c < CoreCount q. PickTargetCore q = int c \<and> bit (CoreIdle q) c \<and>
          (\<forall>d < CoreCount q. bit (CoreIdle q) d \<longrightarrow> CorePending q ! c \<le> CorePending q ! d) \<and>
          (\<forall>d < CoreCount q. d \<noteq> c \<and> bit (CoreIdle q) d \<and> CorePending q ! d = CorePending q ! c \<longrightarrow>
             LastKickCore q \<noteq> int c)))"
proof -
  from assms(1) have "CoreCount q = 1 \<or> CoreCount q = 2" by (simp add: shape_ok_def)
  moreover have two: "(\<forall>c < 2. P c) \<longleftrightarrow> P 0 \<and> P 1" "(\<exists>c < 2. P c) \<longleftrightarrow> P 0 \<or> P 1" for P :: "nat \<Rightarrow> bool"
    by (auto simp: less_2_cases_iff)
  ultimately show ?thesis
    by (elim disjE) (auto simp: pick_core_cases[OF assms] Let_def two)
qed

section \<open>The invariant of the queue\<close>

text \<open>The jobs the queue holds: on the two lists and in the two slots.\<close>

definition slot_mset :: "ptr option \<Rightarrow> ptr multiset" where
  "slot_mset s = (case s of None \<Rightarrow> {#} | Some p \<Rightarrow> {#p#})"

lemma slot_mset_simps [simp]: "slot_mset None = {#}" "slot_mset (Some p) = {#p#}"
  by (simp_all add: slot_mset_def)

definition jobs_mset :: "RKMPP_JOB_QUEUE \<Rightarrow> ptr multiset" where
  "jobs_mset q = mset (Pending q) + mset (Completed q) + slot_mset (InFlightPerCore q ! 0) +
     slot_mset (InFlightPerCore q ! 1)"

text \<open>
  A core's idle bit, its count and its slot tell the same story, inactive cores are empty, and a job in a slot
  knows its core.
\<close>

definition core_ok :: "(ptr \<Rightarrow> RKMPP_JOB) \<Rightarrow> RKMPP_JOB_QUEUE \<Rightarrow> nat \<Rightarrow> bool" where
  "core_ok js q c \<longleftrightarrow> CorePending q ! c = (if InFlightPerCore q ! c = None then 0 else 1) \<and>
     (\<forall>p. InFlightPerCore q ! c = Some p \<longrightarrow> c < CoreCount q \<and> TargetCore (js p) = of_nat c)"

definition cores_ok :: "'s RKMPP_DEVICE \<Rightarrow> bool" where
  "cores_ok D \<longleftrightarrow> core_ok (jobs D) (JobQueue D) 0 \<and> core_ok (jobs D) (JobQueue D) 1 \<and>
     (\<forall>c. bit (CoreIdle (JobQueue D)) c \<longleftrightarrow>
        c < CoreCount (JobQueue D) \<and> InFlightPerCore (JobQueue D) ! c = None)"

definition done_ok :: "'s RKMPP_DEVICE \<Rightarrow> bool" where
  "done_ok D \<longleftrightarrow> (\<forall>p \<in># jobs_mset (JobQueue D). Done (jobs D p) \<longleftrightarrow> p \<in> set (Completed (JobQueue D)))"

definition queue_inv :: "'s RKMPP_DEVICE \<Rightarrow> bool" where
  "queue_inv D \<longleftrightarrow> shape_ok (JobQueue D) \<and> cores_ok D \<and> (\<forall>p. count (jobs_mset (JobQueue D)) p \<le> 1) \<and> done_ok D"

text \<open>What the invariant looks at; everything else may change freely.\<close>

definition qview :: "RKMPP_JOB_QUEUE \<Rightarrow> _" where
  "qview q = (Pending q, Completed q, InFlightPerCore q, CoreIdle q, CorePending q, CoreCount q, length (OwnerLru q),
     NextId q, PeerOpen q)"

definition jview :: "RKMPP_JOB \<Rightarrow> _" where
  "jview j = (Id j, Done j, Owner j, TargetCore j, OrphanOnComplete j, WaiterPin j, DenseBank j, DenseIovaSlots j, BufRefs j)"

definition same_view :: "'s RKMPP_DEVICE \<Rightarrow> 's RKMPP_DEVICE \<Rightarrow> bool" where
  "same_view D D' \<longleftrightarrow> qview (JobQueue D') = qview (JobQueue D) \<and> (\<forall>p. jview (jobs D' p) = jview (jobs D p))"

lemma same_view_refl [simp]: "same_view D D"
  by (simp add: same_view_def)

lemma same_view_trans: "same_view D D' \<Longrightarrow> same_view D' D'' \<Longrightarrow> same_view D D''"
  by (simp add: same_view_def)

lemma same_viewD:
  assumes "same_view D D'"
  shows "Pending (JobQueue D') = Pending (JobQueue D)" "Completed (JobQueue D') = Completed (JobQueue D)"
    "InFlightPerCore (JobQueue D') = InFlightPerCore (JobQueue D)" "CoreIdle (JobQueue D') = CoreIdle (JobQueue D)"
    "CorePending (JobQueue D') = CorePending (JobQueue D)" "CoreCount (JobQueue D') = CoreCount (JobQueue D)"
    "length (OwnerLru (JobQueue D')) = length (OwnerLru (JobQueue D))" "NextId (JobQueue D') = NextId (JobQueue D)"
    "PeerOpen (JobQueue D') = PeerOpen (JobQueue D)"
    "Id (jobs D' p) = Id (jobs D p)" "Done (jobs D' p) = Done (jobs D p)" "Owner (jobs D' p) = Owner (jobs D p)"
    "TargetCore (jobs D' p) = TargetCore (jobs D p)"
    "OrphanOnComplete (jobs D' p) = OrphanOnComplete (jobs D p)" "WaiterPin (jobs D' p) = WaiterPin (jobs D p)"
    "DenseIovaSlots (jobs D' p) = DenseIovaSlots (jobs D p)" "BufRefs (jobs D' p) = BufRefs (jobs D p)"
  using assms by (auto simp: same_view_def qview_def jview_def)

lemma same_view_inv: "same_view D D' \<Longrightarrow> queue_inv D' \<longleftrightarrow> queue_inv D"
  by (simp add: queue_inv_def shape_ok_def cores_ok_def core_ok_def done_ok_def jobs_mset_def same_viewD)

lemma same_view_jobs: "same_view D D' \<Longrightarrow> jobs_mset (JobQueue D') = jobs_mset (JobQueue D)"
  by (simp add: jobs_mset_def same_viewD)

section \<open>Promotion keeps the invariant and fills the cores\<close>

lemma core_count_cases:
  "shape_ok q \<Longrightarrow> c < CoreCount q \<Longrightarrow> c = 0 \<or> c = 1 \<and> CoreCount q = 2"
  by (auto simp: shape_ok_def)

lemma shape_ok_slots:
  assumes "shape_ok q"
  obtains a b x y where "InFlightPerCore q = [a, b]" "CorePending q = [x, y]"
  using assms by (auto simp: shape_ok_def length_Suc_conv numeral_2_eq_2)

lemma lru_upsert_length [simp]: "length (lru_upsert ow i L) = length L"
  by (simp add: lru_upsert_def)

lemma bit_clear_core: "c < 2 \<Longrightarrow> bit ((w :: ULONG) AND NOT (push_bit c 1)) d \<longleftrightarrow> d \<noteq> c \<and> bit w d"
  by (auto simp: bit_simps possible_bit_def dest: bit_imp_le_length)

lemma bit_set_core: "c < 2 \<Longrightarrow> bit ((w :: ULONG) OR push_bit c 1) d \<longleftrightarrow> d = c \<or> bit w d"
  by (auto simp: bit_simps possible_bit_def)

lemma promote_one_inv:
  assumes inv: "queue_inv D" and p: "p \<in> set (Pending (JobQueue D))"
    and c: "c < CoreCount (JobQueue D)" "bit (CoreIdle (JobQueue D)) c"
  defines "D1 \<equiv> D\<lparr>JobQueue := (JobQueue D)\<lparr>Pending := remove1 p (Pending (JobQueue D))\<rparr>\<rparr>"
  shows "queue_inv (promote_one c p D1)" "jobs_mset (JobQueue (promote_one c p D1)) = jobs_mset (JobQueue D)"
proof -
  let ?q = "JobQueue D" and ?D' = "promote_one c p D1"
  have shape: "shape_ok ?q" and cores: "cores_ok D" and one: "\<And>x. count (jobs_mset ?q) x \<le> 1"
    and don: "done_ok D" using inv by (simp_all add: queue_inv_def)
  obtain a b x y where s: "InFlightPerCore ?q = [a, b]" "CorePending ?q = [x, y]" by (rule shape_ok_slots[OF shape])
  have free: "InFlightPerCore ?q ! c = None" using cores c by (simp add: cores_ok_def)
  have c01: "c = 0 \<or> c = 1" "c < 2" using core_count_cases[OF shape c(1)] by auto
  have q': "Pending (JobQueue ?D') = remove1 p (Pending ?q)" "Completed (JobQueue ?D') = Completed ?q"
    "InFlightPerCore (JobQueue ?D') = (InFlightPerCore ?q)[c := Some p]"
    "CorePending (JobQueue ?D') = (CorePending ?q)[c := CorePending ?q ! c + 1]"
    "CoreIdle (JobQueue ?D') = CoreIdle ?q AND NOT (push_bit c 1)" "CoreCount (JobQueue ?D') = CoreCount ?q"
    "length (OwnerLru (JobQueue ?D')) = length (OwnerLru ?q)"
    by (simp_all add: promote_one_def D1_def Let_def upd_job_def)
  define R where "R = mset (remove1 p (Pending ?q))"
  have P: "mset (Pending ?q) = add_mset p R" using p by (simp add: R_def)
  show J: "jobs_mset (JobQueue ?D') = jobs_mset ?q"
    using c01(1) free s unfolding jobs_mset_def q' R_def[symmetric] P by auto
  have j': "jobs ?D' = (jobs D)(p := (jobs D p)\<lparr>TargetCore := of_nat c\<rparr>)"
    by (simp add: promote_one_def D1_def Let_def upd_job_def)
  have elsewhere: "InFlightPerCore ?q ! d \<noteq> Some p" if "d < 2" for d
  proof
    assume "InFlightPerCore ?q ! d = Some p"
    then have "count (jobs_mset ?q) p \<ge> 2" using that p s count_greater_zero_iff[of "mset (Pending ?q)" p]
      by (cases d) (auto simp: jobs_mset_def less_2_cases_iff simp del: count_greater_zero_iff)
    then show False using one[of p] by simp
  qed
  have core: "core_ok (jobs ?D') (JobQueue ?D') d" if "d < 2" for d
  proof -
    have old: "core_ok (jobs D) ?q d" using cores that by (auto simp: cores_ok_def less_2_cases_iff)
    have len: "length (InFlightPerCore ?q) = 2" "length (CorePending ?q) = 2" using shape by (simp_all add: shape_ok_def)
    show ?thesis
    proof (cases "d = c")
      case True
      then show ?thesis using old free c(1) len that by (simp add: core_ok_def q' j')
    next
      case False
      then show ?thesis using old elsewhere[OF that] by (auto simp: core_ok_def q' j')
    qed
  qed
  have "cores_ok ?D'"
    unfolding cores_ok_def
  proof (intro conjI allI)
    fix d
    have "bit (CoreIdle (JobQueue ?D')) d \<longleftrightarrow> d \<noteq> c \<and> bit (CoreIdle ?q) d"
      unfolding q' by (rule bit_clear_core[OF c01(2)])
    moreover have "bit (CoreIdle ?q) d \<longleftrightarrow> d < CoreCount ?q \<and> InFlightPerCore ?q ! d = None"
      using cores unfolding cores_ok_def by blast
    moreover have "(InFlightPerCore ?q)[c := Some p] ! c = Some p" using s c01(1) by auto
    ultimately show "bit (CoreIdle (JobQueue ?D')) d \<longleftrightarrow>
        d < CoreCount (JobQueue ?D') \<and> InFlightPerCore (JobQueue ?D') ! d = None"
      unfolding q'(3,6) by (cases "d = c") simp_all
  qed (use core in simp_all)
  moreover have "done_ok ?D'"
  proof -
    have "p \<notin> set (Completed ?q)"
    proof
      assume "p \<in> set (Completed ?q)"
      then have "count (jobs_mset ?q) p \<ge> 2"
        using p count_greater_zero_iff[of "mset (Pending ?q)" p] count_greater_zero_iff[of "mset (Completed ?q)" p]
        by (auto simp: jobs_mset_def simp del: count_greater_zero_iff)
      then show False using one[of p] by simp
    qed
    then show ?thesis using don by (auto simp: done_ok_def J q' j')
  qed
  moreover have "shape_ok (JobQueue ?D')" using shape by (simp add: shape_ok_def q')
  ultimately show "queue_inv ?D'" using one by (simp add: queue_inv_def J)
qed

lemma queue_inv_pending:
  "queue_inv D \<Longrightarrow> \<forall>c < CoreCount (JobQueue D). CorePending (JobQueue D) ! c \<noteq> 0xFFFFFFFF"
  using core_count_cases[of "JobQueue D"]
  by (fastforce simp: queue_inv_def cores_ok_def core_ok_def split: if_splits)

lemma queue_inv_idle:
  "queue_inv D \<Longrightarrow> bit (CoreIdle (JobQueue D)) c \<longleftrightarrow>
     c < CoreCount (JobQueue D) \<and> InFlightPerCore (JobQueue D) ! c = None"
  by (simp add: queue_inv_def cores_ok_def)

lemma queue_inv_shape: "queue_inv D \<Longrightarrow> shape_ok (JobQueue D)"
  by (simp add: queue_inv_def)

lemma job_self: "\<exists>c. j = (j :: RKMPP_JOB)\<lparr>TargetCore := c\<rparr>"
  by (rule exI[of _ "TargetCore j"]) simp

lemma pick_core_idle:
  assumes "queue_inv D" "\<not> PickTargetCore (JobQueue D) < 0"
  shows "nat (PickTargetCore (JobQueue D)) < CoreCount (JobQueue D)"
    "bit (CoreIdle (JobQueue D)) (nat (PickTargetCore (JobQueue D)))"
proof -
  let ?q = "JobQueue D"
  have sh: "shape_ok ?q" using assms(1) by (simp add: queue_inv_def)
  from pick_core_cases[OF sh] queue_inv_pending[OF assms(1)] show "nat (PickTargetCore ?q) < CoreCount ?q" "bit (CoreIdle ?q) (nat (PickTargetCore ?q))"
    using assms(2) sh by (auto simp: Let_def shape_ok_def split: if_splits)
qed

lemma pick_core_none:
  assumes "queue_inv D" "PickTargetCore (JobQueue D) < 0" "c < CoreCount (JobQueue D)"
  shows "InFlightPerCore (JobQueue D) ! c \<noteq> None"
proof -
  let ?q = "JobQueue D"
  have sh: "shape_ok ?q" using assms(1) by (simp add: queue_inv_def)
  have neg: "(if a \<and> b then (if x then 1 else 0) else if a then 0 else if b then 1 else -1 :: int) < 0 \<Longrightarrow>
      \<not> a \<and> \<not> b" for a b x by (auto split: if_splits)
  have "\<not> bit (CoreIdle ?q) 0 \<and> \<not> (CoreCount ?q = 2 \<and> bit (CoreIdle ?q) 1)"
    by (rule neg, rule assms(2)[unfolded pick_core_cases[OF sh queue_inv_pending[OF assms(1)]] Let_def])
  then have "\<not> bit (CoreIdle ?q) c" using core_count_cases[OF sh assms(3)] by blast
  then show ?thesis using assms(3) queue_inv_idle[OF assms(1), of c] by simp
qed

text \<open>What a promotion does not touch.\<close>

definition promoted :: "'s RKMPP_DEVICE \<Rightarrow> 's RKMPP_DEVICE \<Rightarrow> (ptr \<times> nat) list \<Rightarrow> bool" where
  "promoted D D' new \<longleftrightarrow>
     jobs_mset (JobQueue D') = jobs_mset (JobQueue D) \<and> Completed (JobQueue D') = Completed (JobQueue D) \<and>
     CoreCount (JobQueue D') = CoreCount (JobQueue D) \<and> NextId (JobQueue D') = NextId (JobQueue D) \<and>
     KickRearm (JobQueue D') = KickRearm (JobQueue D) \<and> KickActive (JobQueue D') = KickActive (JobQueue D) \<and>
     PeerOpen (JobQueue D') = PeerOpen (JobQueue D) \<and>
     (\<forall>p. \<exists>c. jobs D' p = (jobs D p)\<lparr>TargetCore := c\<rparr>) \<and>
     (\<forall>c p. InFlightPerCore (JobQueue D) ! c = Some p \<longrightarrow> InFlightPerCore (JobQueue D') ! c = Some p) \<and>
     (\<forall>(p, c) \<in> set new. c < CoreCount (JobQueue D) \<and> InFlightPerCore (JobQueue D) ! c = None \<and>
        InFlightPerCore (JobQueue D') ! c = Some p \<and> p \<in> set (Pending (JobQueue D))) \<and>
     set (Pending (JobQueue D')) \<subseteq> set (Pending (JobQueue D)) \<and> distinct new"

lemma promoted_refl: "promoted D D []"
  by (auto simp: promoted_def intro: job_self)

lemma promote_one_frame:
  "Pending (JobQueue (promote_one c p D)) = Pending (JobQueue D)"
  "Completed (JobQueue (promote_one c p D)) = Completed (JobQueue D)"
  "CoreCount (JobQueue (promote_one c p D)) = CoreCount (JobQueue D)"
  "NextId (JobQueue (promote_one c p D)) = NextId (JobQueue D)"
  "KickRearm (JobQueue (promote_one c p D)) = KickRearm (JobQueue D)"
  "KickActive (JobQueue (promote_one c p D)) = KickActive (JobQueue D)"
  "PeerOpen (JobQueue (promote_one c p D)) = PeerOpen (JobQueue D)"
  "InFlightPerCore (JobQueue (promote_one c p D)) = (InFlightPerCore (JobQueue D))[c := Some p]"
  "jobs (promote_one c p D) = (jobs D)(p := (jobs D p)\<lparr>TargetCore := of_nat c\<rparr>)"
  by (simp_all add: promote_one_def Let_def upd_job_def)

lemma promote_step:
  assumes "queue_inv D" "PickPendingByOwnerLru (jobs D) (JobQueue D) = (Some p, q1)"
    "c < CoreCount (JobQueue D)" "bit (CoreIdle (JobQueue D)) c"
  shows "queue_inv (promote_one c p (D\<lparr>JobQueue := q1\<rparr>))" "promoted D (promote_one c p (D\<lparr>JobQueue := q1\<rparr>)) [(p, c)]"
    "InFlightPerCore (JobQueue (promote_one c p (D\<lparr>JobQueue := q1\<rparr>))) = (InFlightPerCore (JobQueue D))[c := Some p]"
proof -
  obtain ys zs where "Pending (JobQueue D) = ys @ p # zs"
    and q1: "q1 = (JobQueue D)\<lparr>Pending := remove1 p (Pending (JobQueue D))\<rparr>"
    by (rule pick_pending_spec[OF assms(2)])
  then have p: "p \<in> set (Pending (JobQueue D))" by simp
  note pr = promote_one_inv[OF assms(1) p assms(3,4), folded q1]
  show "queue_inv (promote_one c p (D\<lparr>JobQueue := q1\<rparr>))" by (rule pr)
  show sl: "InFlightPerCore (JobQueue (promote_one c p (D\<lparr>JobQueue := q1\<rparr>))) = (InFlightPerCore (JobQueue D))[c := Some p]"
    by (simp add: promote_one_def Let_def q1)
  have sh: "shape_ok (JobQueue D)" and free: "InFlightPerCore (JobQueue D) ! c = None"
    using assms unfolding queue_inv_def cores_ok_def by blast+
  have len: "c < length (InFlightPerCore (JobQueue D))"
    using core_count_cases[OF sh assms(3)] sh by (auto simp: shape_ok_def)
  have upd: "InFlightPerCore (JobQueue D) ! d = Some x \<Longrightarrow> (InFlightPerCore (JobQueue D))[c := Some p] ! d = Some x" for d x
    using free by (cases "d = c") auto
  show "promoted D (promote_one c p (D\<lparr>JobQueue := q1\<rparr>)) [(p, c)]"
    unfolding promoted_def sl pr(2)
    using p free len upd assms(3) set_remove1_subset[of p "Pending (JobQueue D)"]
    by (auto simp: promote_one_frame q1 intro: job_self)
qed

lemma promoted_trans:
  assumes "promoted D D1 xs" "promoted D1 D2 ys"
  shows "promoted D D2 (xs @ ys)"
proof -
  have "\<exists>c. jobs D2 p = (jobs D p)\<lparr>TargetCore := c\<rparr>" for p
  proof -
    obtain c1 where "jobs D1 p = (jobs D p)\<lparr>TargetCore := c1\<rparr>" using assms(1) unfolding promoted_def by blast
    moreover obtain c2 where "jobs D2 p = (jobs D1 p)\<lparr>TargetCore := c2\<rparr>" using assms(2) unfolding promoted_def by blast
    ultimately show ?thesis by auto
  qed
  moreover have "set xs \<inter> set ys = {}" using assms unfolding promoted_def by fastforce
  moreover have "(p, c) \<in> set (xs @ ys) \<Longrightarrow> c < CoreCount (JobQueue D) \<and> InFlightPerCore (JobQueue D) ! c = None \<and>
      InFlightPerCore (JobQueue D2) ! c = Some p \<and> p \<in> set (Pending (JobQueue D))" for p c
    using assms unfolding promoted_def by (cases "InFlightPerCore (JobQueue D) ! c") fastforce+
  ultimately show ?thesis using assms unfolding promoted_def by auto
qed

definition idle_cores :: "RKMPP_JOB_QUEUE \<Rightarrow> nat set" where
  "idle_cores q = {c. c < CoreCount q \<and> InFlightPerCore q ! c = None}"

lemma promote_loop_inv:
  assumes "queue_inv D" "card (idle_cores (JobQueue D)) \<le> n" "promote_loop n D out = (out', D')"
  shows "queue_inv D' \<and> (\<exists>new. out' = out @ new \<and> promoted D D' new) \<and>
    (Pending (JobQueue D') = [] \<or> idle_cores (JobQueue D') = {})"
  using assms
proof (induction n arbitrary: D out)
  case 0
  have "finite (idle_cores (JobQueue D))" by (simp add: idle_cores_def)
  then show ?case using 0 promoted_refl by auto
next
  case (Suc n)
  let ?q = "JobQueue D" and ?c = "nat (PickTargetCore (JobQueue D))"
  consider (empty) "Pending ?q = []" | (busy) "Pending ?q \<noteq> []" "PickTargetCore ?q < 0"
    | (go) "Pending ?q \<noteq> []" "\<not> PickTargetCore ?q < 0" by blast
  then show ?case
  proof cases
    case busy
    then have "idle_cores ?q = {}" using pick_core_none[OF Suc.prems(1)] by (auto simp: idle_cores_def)
    then show ?thesis using busy Suc.prems promoted_refl by auto
  next
    case go
    obtain p q1 where p: "PickPendingByOwnerLru (jobs D) ?q = (Some p, q1)"
      using go(1) by (cases "Pending ?q") (auto simp: PickPendingByOwnerLru_def Let_def)
    let ?D1 = "promote_one ?c p (D\<lparr>JobQueue := q1\<rparr>)"
    note c = pick_core_idle[OF Suc.prems(1) go(2)]
    note st = promote_step[OF Suc.prems(1) p c]
    have "?c \<in> idle_cores ?q" using c queue_inv_idle[OF Suc.prems(1), of ?c] by (simp add: idle_cores_def)
    moreover have "idle_cores (JobQueue ?D1) \<subseteq> idle_cores ?q - {?c}"
    proof
      fix d assume d: "d \<in> idle_cores (JobQueue ?D1)"
      have C: "CoreCount (JobQueue ?D1) = CoreCount ?q" "InFlightPerCore (JobQueue ?D1) ! ?c = Some p"
        using st(2) unfolding promoted_def by auto
      have "d \<noteq> ?c" using d C(2) by (auto simp: idle_cores_def)
      then show "d \<in> idle_cores ?q - {?c}" using d unfolding idle_cores_def C(1) st(3) by simp
    qed
    moreover have fin: "finite (idle_cores ?q)" by (simp add: idle_cores_def)
    ultimately have "card (idle_cores (JobQueue ?D1)) < card (idle_cores ?q)"
      by (intro psubset_card_mono) auto
    then have "card (idle_cores (JobQueue ?D1)) \<le> n" using Suc.prems(2) by simp
    moreover have "promote_loop n ?D1 (out @ [(p, ?c)]) = (out', D')" using Suc.prems(3) go p by (simp add: Let_def)
    ultimately show ?thesis using Suc.IH[OF st(1)] promoted_trans[OF st(2)] by (metis append_assoc)
  qed (use Suc.prems promoted_refl in auto)
qed

lemma promote_until_full_inv:
  assumes "queue_inv D" "PromoteUntilFull D = (promos, D')"
  shows "queue_inv D'" "promoted D D' promos" "Pending (JobQueue D') = [] \<or> idle_cores (JobQueue D') = {}"
proof -
  have "idle_cores (JobQueue D) \<subseteq> {..<CoreCount (JobQueue D)}" by (auto simp: idle_cores_def)
  then have "card (idle_cores (JobQueue D)) \<le> CoreCount (JobQueue D)"
    by (metis card_lessThan card_mono finite_lessThan)
  from promote_loop_inv[OF assms(1) this] assms(2)
  show "queue_inv D'" "promoted D D' promos" "Pending (JobQueue D') = [] \<or> idle_cores (JobQueue D') = {}"
    by (fastforce simp: PromoteUntilFull_def)+
qed

text \<open>C19: Promotion keeps the invariant and neither loses nor duplicates a job: every job it reports moved from the
  pending list to the slot of an active core that was idle, jobs already on cores and completed jobs stay put,
  and it stops only when nothing is pending or every active core is busy.\<close>

theorem promotion_fills_cores:
  assumes "queue_inv D" "PromoteUntilFull D = (promos, D')"
  shows "queue_inv D' \<and> jobs_mset (JobQueue D') = jobs_mset (JobQueue D) \<and>
    Completed (JobQueue D') = Completed (JobQueue D) \<and>
    (Pending (JobQueue D') = [] \<or> (\<forall>c < CoreCount (JobQueue D). InFlightPerCore (JobQueue D') ! c \<noteq> None)) \<and>
    (\<forall>c p. InFlightPerCore (JobQueue D) ! c = Some p \<longrightarrow> InFlightPerCore (JobQueue D') ! c = Some p) \<and>
    (\<forall>(p, c) \<in> set promos. c < CoreCount (JobQueue D) \<and> InFlightPerCore (JobQueue D) ! c = None \<and>
       InFlightPerCore (JobQueue D') ! c = Some p \<and> p \<in> set (Pending (JobQueue D)))"
  using promote_until_full_inv[OF assms] unfolding promoted_def idle_cores_def by auto

section \<open>A concrete queue\<close>

text \<open>Two cores, three pending jobs of two files.\<close>

definition demo_queue :: RKMPP_JOB_QUEUE where
  "demo_queue = \<lparr>Pending = [101, 102, 103], Completed = [], NextId = 103, LastIsrHwStatus = 0, LastOwner = None,
     LastDecMode = 0, LastValid = False, OwnerLru = replicate 4 (None, 0), CoreCount = 2, CoreIdle = 3,
     CorePending = [0, 0], InFlightPerCore = [None, None], LastKickCore = -1, PeerOpen = True, PeerFileObj = Some 5,
     KickActive = False, KickRearm = False\<rparr>"

definition demo_codec :: "RKIOMMU_DEVICE RKMPP_DEVICE" where
  "demo_codec = \<lparr>JobQueue = demo_queue,
     jobs = (\<lambda>p. zero_job\<lparr>Owner := Some (if p = 103 then 8 else 7), Id := of_nat p, DenseKickValue := 1\<rparr>),
     NeedsCoreReset = False, NeedsFullReset = False, LastJobFailed = False, DevUid = 0, HasMmio = True,
     MmioLength = 0x800, Ccu = Some (\<lambda>_ _. True), bufs = demo_pool\<rparr>"

lemma demo_codec_sel:
  "JobQueue demo_codec = demo_queue" "Owner (jobs demo_codec p) = Some (if p = 103 then 8 else 7)"
  "Id (jobs demo_codec p) = of_nat p" "Done (jobs demo_codec p) = False" "WaiterPin (jobs demo_codec p) = 0"
  "OrphanOnComplete (jobs demo_codec p) = False" "DenseKickValue (jobs demo_codec p) = 1"
  by (simp_all add: demo_codec_def zero_job_def)

lemma bit_three: "bit (3 :: ULONG) c \<longleftrightarrow> c < 2"
proof -
  have "(3 :: ULONG) = mask 2" by (simp add: mask_eq_exp_minus_1)
  then have "bit (3 :: ULONG) c = bit (mask 2 :: ULONG) c" by (simp only:)
  then show ?thesis by (simp only: bit_mask_iff) auto
qed

lemma demo_codec_inv: "queue_inv demo_codec"
  by (auto simp: queue_inv_def demo_codec_sel shape_ok_def cores_ok_def core_ok_def done_ok_def jobs_mset_def
      demo_queue_def bit_three less_2_cases_iff simp del: bit_numeral_word_iff)

lemma demo_pick:
  "PickPendingByOwnerLru (jobs demo_codec) demo_queue = (Some 101, demo_queue\<lparr>Pending := [102, 103]\<rparr>)"
  by (simp add: PickPendingByOwnerLru_def demo_queue_def demo_codec_sel numeral_eq_Suc)

theorem pick_pending_oldest_owner_witness:
  "\<exists>ys zs. Pending demo_queue = ys @ 101 # zs \<and> (\<forall>y \<in> set ys. Owner (jobs demo_codec y) \<noteq> Some 7)"
  using pick_pending_oldest_owner[OF demo_pick] unfolding demo_codec_sel(2)[of 101] by auto

theorem pick_core_correct_witness: "PickTargetCore demo_queue \<noteq> -1"
proof -
  have "shape_ok demo_queue" "\<forall>c < CoreCount demo_queue. CorePending demo_queue ! c \<noteq> 0xFFFFFFFF"
    by (auto simp: shape_ok_def demo_queue_def less_2_cases_iff)
  from pick_core_correct[OF this] show ?thesis by (auto simp: demo_queue_def bit_three less_2_cases_iff simp del: bit_numeral_word_iff)
qed

theorem promotion_fills_cores_witness:
  "\<exists>promos D'. PromoteUntilFull demo_codec = (promos, D') \<and> queue_inv D' \<and>
     jobs_mset (JobQueue D') = {#101, 102, 103#}"
proof -
  obtain promos D' where P: "PromoteUntilFull demo_codec = (promos, D')" by fastforce
  show ?thesis using promotion_fills_cores[OF demo_codec_inv P] P
    by (auto simp: demo_codec_sel jobs_mset_def demo_queue_def add_mset_commute)
qed

end
