(* ===== verification/Job_Inv.thy ===== *)
theory Job_Inv
  imports Job_Sched
begin

text \<open>
  Every atomic section of the queue's operations keeps the invariant and accounts for the job memory: the jobs
  allocated and not freed are exactly those on the lists and in the slots. The vdec IOMMU is shown to be a
  provider a kick may rely on.
\<close>

section \<open>Job memory\<close>

text \<open>Job descriptors allocated under the queue's tag and not yet freed.\<close>

fun job_pool :: "history \<Rightarrow> ptr multiset" where
  "job_pool [] = {#}"
| "job_pool (Acquire (Pool t p) # h) = (if t = ''JppM'' then add_mset p (job_pool h) else job_pool h)"
| "job_pool (Release (Pool t p) # h) = (if t = ''JppM'' then job_pool h - {#p#} else job_pool h)"
| "job_pool (_ # h) = job_pool h"

lemma job_pool_live: "job_pool h = image_mset (\<lambda>r. case r of Pool t p \<Rightarrow> p | _ \<Rightarrow> 0)
    (filter_mset (\<lambda>r. case r of Pool t p \<Rightarrow> t = ''JppM'' | _ \<Rightarrow> False) (live h))"
proof (induction h rule: job_pool.induct)
  case (3 t p h)
  show ?case
  proof (cases "t = ''JppM'' \<and> Pool t p \<in># live h")
    case True
    then obtain M where M: "live h = add_mset (Pool t p) M" by (meson multi_member_split)
    then show ?thesis using 3 True by simp
  next
    case False
    show ?thesis
    proof (cases "t = ''JppM''")
      case True
      then have n: "Pool t p \<notin># live h" using False by simp
      have "p \<notin># job_pool h"
      proof
        assume "p \<in># job_pool h"
        then obtain r where "r \<in># live h" "(case r of Pool t p \<Rightarrow> t = ''JppM'' | _ \<Rightarrow> False)"
          "p = (case r of Pool t p \<Rightarrow> p | _ \<Rightarrow> 0)" unfolding 3(1)[OF True] by auto
        then show False using n True by (auto split: kres.splits)
      qed
      then show ?thesis using 3 n True by simp
    next
      case f: False
      have "filter_mset P (M - {#x#}) = filter_mset P M" if "\<not> P x" for P and M :: "kres multiset" and x
        using that by (simp add: filter_diff_mset)
      then show ?thesis using 3 f by simp
    qed
  qed
qed simp_all

lemma job_pool_free [simp]: "job_pool (ExFreePoolWithTag ''JppM'' p h) = job_pool h - {#p#}"
  by (simp add: ExFreePoolWithTag_def)

lemma job_pool_ccu [simp]: "job_pool (ccu_call D op h) = job_pool h"
  by (simp add: ccu_call_def)

lemma job_pool_flush [simp]: "job_pool (flush_opt m h) = job_pool h"
  by (simp add: flush_opt_def split: option.splits)

lemma job_pool_outputs [simp]: "job_pool (flush_outputs j h) = job_pool h"
  by (simp add: flush_outputs_def)

lemma job_pool_enqueue [simp]: "job_pool (snd (RkMppEnqueueKickWorker D h)) = job_pool h"
  by (simp add: RkMppEnqueueKickWorker_def Let_def)

lemma job_pool_writes [simp]: "job_pool (foldl codec_write h ws) = job_pool h"
  by (induction ws arbitrary: h) (simp_all add: codec_write_def)

lemma job_pool_flushes [simp]: "job_pool (foldl (\<lambda>h m. FlushMdl m # h) h ms) = job_pool h"
  by (induction ms arbitrary: h) simp_all

section \<open>Completion\<close>

definition finish_job :: "bool \<Rightarrow> nat \<Rightarrow> ptr \<Rightarrow> 's RKMPP_DEVICE \<Rightarrow> 's RKMPP_DEVICE" where
  "finish_job keep c p D =
     upd_job p (\<lambda>j. j\<lparr>Done := True\<rparr>)
       (upd_q (\<lambda>q. (release_core c q)\<lparr>Completed := (if keep then Completed q @ [p] else Completed q)\<rparr>) D)"

definition keeps :: "RKMPP_JOB \<Rightarrow> bool" where
  "keeps j \<longleftrightarrow> \<not> OrphanOnComplete j \<or> WaiterPin j > 0"

lemma account_result_jobs [simp]: "jobs (account_result res hw ow D) = jobs D"
  by (simp add: account_result_def charge_error_def RkMppSetNeedsFullReset_def RkMppSetNeedsCoreReset_def
      split: option.splits)

lemma charge_error_frame [simp]: "JobQueue (charge_error ow D) = JobQueue D" "jobs (charge_error ow D) = jobs D"
  by (simp_all add: charge_error_def split: option.splits)

lemma enqueue_view: "same_view D (fst (RkMppEnqueueKickWorker D h))"
  by (simp add: RkMppEnqueueKickWorker_def same_view_def qview_def Let_def)

lemma complete_view:
  assumes "InFlightPerCore (JobQueue D) ! 0 = Some p"
  shows "same_view (finish_job (keeps (jobs D p)) (unat (TargetCore (jobs D p))) p D) (fst (RkMppJobComplete K res hw D h))"
    "job_pool (snd (RkMppJobComplete K res hw D h)) =
       (if keeps (jobs D p) then job_pool h else job_pool h - {#p#})"
  using assms
  by (auto simp: RkMppJobComplete_def finish_job_def keeps_def Let_def same_view_def qview_def jview_def
      upd_job_def release_core_def RkMppEnqueueKickWorker_def)

lemma peer_completion_view:
  assumes "InFlightPerCore (JobQueue D) ! 1 = Some p" "Id (jobs D p) = cookie"
  shows "same_view (finish_job True 1 p D) (fst (RkMppPeerCompletion K cookie res hw D h))"
    "job_pool (snd (RkMppPeerCompletion K cookie res hw D h)) = job_pool h"
  using assms
  by (auto simp: RkMppPeerCompletion_def finish_job_def Let_def same_view_def qview_def jview_def
      upd_job_def release_core_def RkMppEnqueueKickWorker_def)

lemma bit_of_idle: "queue_inv D \<Longrightarrow> InFlightPerCore (JobQueue D) ! c = Some p \<Longrightarrow> \<not> bit (CoreIdle (JobQueue D)) c"
  by (simp add: queue_inv_idle)

lemma finish_job_frame:
  "Pending (JobQueue (finish_job keep c p D)) = Pending (JobQueue D)"
  "Completed (JobQueue (finish_job keep c p D)) = (if keep then Completed (JobQueue D) @ [p] else Completed (JobQueue D))"
  "InFlightPerCore (JobQueue (finish_job keep c p D)) = (InFlightPerCore (JobQueue D))[c := None]"
  "CoreCount (JobQueue (finish_job keep c p D)) = CoreCount (JobQueue D)"
  "CoreIdle (JobQueue (finish_job keep c p D)) = CoreIdle (JobQueue D) OR push_bit c 1"
  "OwnerLru (JobQueue (finish_job keep c p D)) = OwnerLru (JobQueue D)"
  "NextId (JobQueue (finish_job keep c p D)) = NextId (JobQueue D)"
  "PeerOpen (JobQueue (finish_job keep c p D)) = PeerOpen (JobQueue D)"
  "jobs (finish_job keep c p D) = (jobs D)(p := (jobs D p)\<lparr>Done := True\<rparr>)"
  "CorePending (JobQueue (finish_job keep c p D)) =
     (if CorePending (JobQueue D) ! c > 0 then (CorePending (JobQueue D))[c := CorePending (JobQueue D) ! c - 1]
      else CorePending (JobQueue D))"
  by (simp_all add: finish_job_def release_core_def upd_job_def)

lemma slot_core:
  assumes "queue_inv D" "c < 2" "InFlightPerCore (JobQueue D) ! c = Some p"
  shows "c < CoreCount (JobQueue D)" "TargetCore (jobs D p) = of_nat c" "CorePending (JobQueue D) ! c = 1"
    "p \<notin> set (Pending (JobQueue D))" "p \<notin> set (Completed (JobQueue D))" "\<not> Done (jobs D p)"
    "\<And>d. d < 2 \<Longrightarrow> d \<noteq> c \<Longrightarrow> InFlightPerCore (JobQueue D) ! d \<noteq> Some p"
proof -
  let ?q = "JobQueue D"
  have c01: "c = 0 \<or> c = 1" using assms(2) by auto
  have one: "count (jobs_mset ?q) p \<le> 1" using assms(1) by (simp add: queue_inv_def)
  have "core_ok (jobs D) ?q c" using assms(1) c01 by (auto simp: queue_inv_def cores_ok_def)
  then show "c < CoreCount ?q" "TargetCore (jobs D p) = of_nat c" "CorePending ?q ! c = 1"
    using assms(3) by (auto simp: core_ok_def)
  show nP: "p \<notin> set (Pending ?q)" and nC: "p \<notin> set (Completed ?q)"
    using one c01 assms(3) count_eq_zero_iff[of "mset (Pending ?q)" p] count_eq_zero_iff[of "mset (Completed ?q)" p]
    by (auto simp: jobs_mset_def simp del: count_eq_zero_iff)
  have "p \<in># jobs_mset ?q" using c01 assms(3) by (auto simp: jobs_mset_def)
  then show "\<not> Done (jobs D p)" using assms(1) nC by (simp add: queue_inv_def done_ok_def)
  show "InFlightPerCore ?q ! d \<noteq> Some p" if "d < 2" "d \<noteq> c" for d
    using one c01 assms(3) that by (auto simp: jobs_mset_def less_2_cases_iff)
qed

lemma finish_job_mset:
  assumes "queue_inv D" "c < 2" "InFlightPerCore (JobQueue D) ! c = Some p"
  shows "jobs_mset (JobQueue (finish_job keep c p D)) =
    (if keep then jobs_mset (JobQueue D) else jobs_mset (JobQueue D) - {#p#})"
proof -
  obtain a b x y where s: "InFlightPerCore (JobQueue D) = [a, b]" by (rule shape_ok_slots[OF queue_inv_shape[OF assms(1)]])
  have "c = 0 \<or> c = 1" using assms(2) by auto
  then show ?thesis using assms(3) s by (auto simp: jobs_mset_def finish_job_frame)
qed

lemma finish_job_inv:
  assumes inv: "queue_inv D" and c: "c < 2" "InFlightPerCore (JobQueue D) ! c = Some p"
  shows "queue_inv (finish_job keep c p D)"
proof -
  let ?q = "JobQueue D" and ?D' = "finish_job keep c p D"
  note sc = slot_core[OF inv c] and fr = finish_job_frame and M = finish_job_mset[OF inv c]
  have len: "length (InFlightPerCore ?q) = 2" "length (CorePending ?q) = 2"
    using queue_inv_shape[OF inv] by (simp_all add: shape_ok_def)
  have "shape_ok (JobQueue ?D')" using queue_inv_shape[OF inv] by (simp add: shape_ok_def fr)
  moreover have "cores_ok ?D'"
  proof -
    have core: "core_ok (jobs ?D') (JobQueue ?D') d" if "d < 2" for d
    proof -
      have old: "core_ok (jobs D) ?q d" using inv that by (auto simp: queue_inv_def cores_ok_def less_2_cases_iff)
      show ?thesis
      proof (cases "d = c")
        case True
        then show ?thesis using sc(3) len that by (simp add: core_ok_def fr)
      next
        case False
        then show ?thesis using old sc(7)[OF that] by (auto simp: core_ok_def fr)
      qed
    qed
    have "bit (CoreIdle (JobQueue ?D')) d \<longleftrightarrow> d < CoreCount (JobQueue ?D') \<and> InFlightPerCore (JobQueue ?D') ! d = None" for d
    proof -
      have "bit (CoreIdle (JobQueue ?D')) d \<longleftrightarrow> d = c \<or> bit (CoreIdle ?q) d"
        unfolding fr by (rule bit_set_core[OF c(1)])
      then show ?thesis using queue_inv_idle[OF inv, of d] sc(1) len c(1) by (cases "d = c") (simp_all add: fr(3,4))
    qed
    then show ?thesis using core[of 0] core[of 1] by (simp add: cores_ok_def)
  qed
  moreover have "count (jobs_mset (JobQueue ?D')) x \<le> 1" for x
  proof -
    have "count (jobs_mset ?q) x \<le> 1" using inv by (simp add: queue_inv_def)
    then show ?thesis by (simp add: M)
  qed
  moreover have "done_ok ?D'"
    unfolding done_ok_def
  proof
    fix x assume x: "x \<in># jobs_mset (JobQueue ?D')"
    have old: "y \<in># jobs_mset ?q \<Longrightarrow> Done (jobs D y) \<longleftrightarrow> y \<in> set (Completed ?q)" for y
      using inv by (simp add: queue_inv_def done_ok_def)
    show "Done (jobs ?D' x) \<longleftrightarrow> x \<in> set (Completed (JobQueue ?D'))"
    proof (cases "x = p")
      case True
      have "keep"
      proof (rule ccontr)
        assume "\<not> keep"
        then have "p \<in># jobs_mset ?q - {#p#}" using x True M by simp
        then have "count (jobs_mset ?q) p \<ge> 2" by (simp add: in_diff_count)
        moreover have "count (jobs_mset ?q) p \<le> 1" using inv by (simp add: queue_inv_def)
        ultimately show False by simp
      qed
      then show ?thesis using True by (simp add: fr)
    next
      case False
      have "x \<in># jobs_mset ?q" using x by (auto simp: M dest: in_diffD split: if_splits)
      then show ?thesis using old[of x] False by (simp add: fr)
    qed
  qed
  ultimately show ?thesis by (simp add: queue_inv_def)
qed

section \<open>Kicks\<close>

text \<open>
  What the queue relies on from the IOMMU interface around a kick: its entries touch neither kernel memory nor
  the codec's registers.
\<close>

definition quiet :: "history \<Rightarrow> history \<Rightarrow> bool" where
  "quiet h h' \<longleftrightarrow> live h' = live h \<and> codec_writes h' = codec_writes h"

lemma quiet_refl [simp]: "quiet h h"
  by (simp add: quiet_def)

lemma quiet_trans: "quiet h h1 \<Longrightarrow> quiet h1 h2 \<Longrightarrow> quiet h h2"
  by (simp add: quiet_def)

lemma quiet_pool: "quiet h h' \<Longrightarrow> job_pool h' = job_pool h"
  by (simp add: quiet_def job_pool_live)

lemma quiet_ccu [simp]: "quiet h (ccu_call D op h)"
  by (simp add: quiet_def ccu_call_def)

locale quiet_iommu =
  fixes ifc :: "'s codec_iommu"
  assumes disable_quiet: "IfcDisable ifc = Some f \<Longrightarrow> f s h = (r, s', h') \<Longrightarrow> quiet h h'"
    and enable_quiet: "IfcEnable ifc = Some g \<Longrightarrow> g K s h = (r, s', h') \<Longrightarrow> quiet h h'"
    and flush_quiet: "IfcFlushTlb ifc = Some k \<Longrightarrow> k s h = (r, h') \<Longrightarrow> quiet h h'"
begin

lemma flush_tlb_quiet: "env_iommu E = Some ifc \<Longrightarrow> quiet h (flush_tlb E D h)"
  using flush_quiet by (auto simp: flush_tlb_def split: option.splits) (metis prod.collapse)

lemma full_reset_quiet: "env_iommu E = Some ifc \<Longrightarrow> quiet h (snd (full_reset E D h))"
proof -
  assume E: "env_iommu E = Some ifc"
  obtain s1 h1 where 1: "(case IfcDisable ifc of None \<Rightarrow> (iommu_st (bufs D), h) | Some f \<Rightarrow> snd (f (iommu_st (bufs D)) h)) = (s1, h1)"
    by (rule prod.exhaust)
  then have q1: "quiet h h1" using disable_quiet by (auto split: option.splits) (metis prod.collapse snd_conv)
  let ?h2 = "ccu_call D FullCoreReset h1"
  obtain rs s3 h3 where 3: "(case IfcEnable ifc of None \<Rightarrow> (STATUS_SUCCESS, s1, ?h2) | Some f \<Rightarrow> f (env_kernel E) s1 ?h2) = (rs, s3, h3)"
    by (metis prod.collapse)
  then have "quiet ?h2 h3" using enable_quiet by (auto split: option.splits)
  then have "quiet h h3" using q1 quiet_ccu quiet_trans by blast
  then show ?thesis by (simp add: full_reset_def E 1 3 Let_def)
qed

lemma kick_reset_quiet: "env_iommu E = Some ifc \<Longrightarrow> quiet h (snd (kick_reset E D h))"
  using full_reset_quiet quiet_trans[OF quiet_ccu quiet_ccu] by (auto simp: kick_reset_def)

end

lemma same_view_finish: "same_view D D' \<Longrightarrow> same_view (finish_job keep c p D) (finish_job keep c p D')"
  by (auto simp: same_view_def qview_def jview_def finish_job_frame)

lemma kick_reset_jobs [simp]: "jobs (fst (kick_reset E D h)) = jobs D"
  by (simp add: kick_reset_def full_reset_def RkMppSetNeedsFullReset_def Let_def split: prod.splits)

lemma kick_probe_view: "same_view D (kick_probe p D)"
  by (auto simp: kick_probe_def Let_def same_view_def qview_def jview_def upd_job_def)

lemma kick_reset_view: "same_view D (fst (kick_reset E D h))"
  by (simp add: same_view_def)

text \<open>
  The two outcomes of a kick as the queue sees them: the hardware has the job and the lists are untouched, or
  the job failed at once and has been completed on its core.
\<close>

definition kick_outcome :: "nat \<Rightarrow> ptr \<Rightarrow> 's RKMPP_DEVICE \<Rightarrow> history \<Rightarrow> 's RKMPP_DEVICE \<Rightarrow> history \<Rightarrow> bool" where
  "kick_outcome c p D h D' h' \<longleftrightarrow>
     same_view D D' \<and> job_pool h' = job_pool h \<or>
     (\<exists>keep. (keep \<or> WaiterPin (jobs D p) \<le> 0) \<and> same_view (finish_job keep c p D) D' \<and>
        job_pool h' = (if keep then job_pool h else job_pool h - {#p#}))"

lemma kick_outcome_complete:
  assumes "queue_inv D" "InFlightPerCore (JobQueue D) ! 0 = Some p" "same_view D D1" "job_pool h1 = job_pool h"
    "RkMppJobComplete K res hw D1 h1 = (D', h')"
  shows "kick_outcome 0 p D h D' h'"
proof -
  note v = same_viewD[OF assms(3)]
  have "TargetCore (jobs D p) = 0" using slot_core(2)[OF assms(1) _ assms(2)] by simp
  then have t: "unat (TargetCore (jobs D1 p)) = 0" by (simp add: v)
  have i: "InFlightPerCore (JobQueue D1) ! 0 = Some p" using assms(2) by (simp add: v)
  have k: "keeps (jobs D1 p) = keeps (jobs D p)" by (simp add: keeps_def v)
  have "same_view (finish_job (keeps (jobs D p)) 0 p D) D'"
    using complete_view(1)[OF i, of K res hw h1] same_view_trans[OF same_view_finish[OF assms(3)]] assms(5)
    by (simp add: t k)
  moreover have "job_pool h' = (if keeps (jobs D p) then job_pool h else job_pool h - {#p#})"
    using complete_view(2)[OF i, of K res hw h1] assms(4,5) by (simp add: k)
  ultimately show ?thesis unfolding kick_outcome_def
    by (intro disjI2 exI[of _ "keeps (jobs D p)"]) (auto simp: keeps_def)
qed

context quiet_iommu
begin

lemma kick_program_outcome:
  assumes "env_iommu E = Some ifc" "queue_inv D" "InFlightPerCore (JobQueue D) ! 0 = Some p" "same_view D D1"
    "job_pool h1 = job_pool h" "kick_program E p D1 h1 = (D', h')"
  shows "kick_outcome 0 p D h D' h'"
proof -
  note complete = kick_outcome_complete[OF assms(2-4)]
  let ?j = "jobs D1 p"
  let ?h2 = "foldl codec_write (foldl (\<lambda>h m. FlushMdl m # h) h1 (CleanMdls ?j)) (concat (map bank_writes (kick_banks ?j)))"
  define h4 where "h4 = codec_write (flush_tlb E D1 ?h2) (unat (RKMPP_DENSE_KICK_REG_IDX * 4 + 0x100 :: ULONG), DenseKickValue ?j)"
  have pool: "job_pool h4 = job_pool h"
    using quiet_pool[OF flush_tlb_quiet[OF assms(1), of ?h2 D1]] assms(5) by (simp add: codec_write_def h4_def)
  consider "RkMppJobComplete (env_kernel E) STATUS_INVALID_PARAMETER 0 D1 h1 = (D', h')"
    | "RkMppJobComplete (env_kernel E) STATUS_SUCCESS 0 D1 h4 = (D', h')" | "(D1, h4) = (D', h')"
    using assms(6) unfolding kick_program_def Let_def h4_def[symmetric] by (simp only: split: if_split_asm)
  then show ?thesis
  proof cases
    case 3
    then show ?thesis using assms(4) pool by (simp add: kick_outcome_def)
  qed (use complete[OF assms(5)] complete[OF pool] in blast)+
qed

lemma kick_local_outcome:
  assumes "env_iommu E = Some ifc" "queue_inv D" "InFlightPerCore (JobQueue D) ! 0 = Some p"
    "JobKickLocalInner E p D h = (D', h')"
  shows "kick_outcome 0 p D h D' h'"
proof -
  let ?D0 = "upd_job p (\<lambda>j. j\<lparr>StartQpc := k_qpc (env_kernel E) h\<rparr>) D"
  have v0: "same_view D ?D0" by (auto simp: same_view_def jview_def upd_job_def)
  show ?thesis
  proof (cases "\<not> HasMmio ?D0 \<or> MmioLength ?D0 = 0")
    case True
    then have "RkMppJobComplete (env_kernel E) STATUS_DEVICE_NOT_READY 0 ?D0 h = (D', h')"
      using assms(4) by (simp add: JobKickLocalInner_def Let_def)
    then show ?thesis by (rule kick_outcome_complete[OF assms(2,3) v0 refl])
  next
    case False
    obtain D2 h2 where r: "kick_reset E (kick_probe p ?D0) h = (D2, h2)" by (rule prod.exhaust)
    have v2: "same_view D D2"
      using v0 kick_probe_view kick_reset_view[of "kick_probe p ?D0" E h] same_view_trans unfolding r fst_conv by blast
    have q2: "quiet h h2" using kick_reset_quiet[OF assms(1), of h "kick_probe p ?D0"] by (simp add: r)
    let ?h5 = "foldl codec_write (codec_write (ccu_call D2 UngateLeafClocks h2) (RKVDEC2_INT_STATUS_OFFSET, 0))
      (cache_cfg_writes (MmioLength D2))"
    have "job_pool ?h5 = job_pool h" using quiet_pool[OF q2] by (simp add: codec_write_def)
    moreover have "kick_program E p D2 ?h5 = (D', h')"
      using assms(4) False by (simp add: JobKickLocalInner_def Let_def r)
    ultimately show ?thesis using kick_program_outcome[OF assms(1-3) v2] by blast
  qed
qed

lemma kick_one_outcome:
  assumes "env_iommu E = Some ifc" "queue_inv D" "c < 2" "InFlightPerCore (JobQueue D) ! c = Some p"
    "kick_one E (p, c) (D, h) = (D', h')"
  shows "kick_outcome c p D h D' h'"
proof (cases "c = 0")
  case True
  then show ?thesis using kick_local_outcome[OF assms(1,2)] assms(4,5) by (simp add: kick_one_def)
next
  case False
  have fail: "same_view (finish_job True c p D) (fail_peer_kick p c st D)" for st
    using assms(4)
    by (auto simp: fail_peer_kick_def finish_job_def same_view_def qview_def jview_def upd_job_def release_core_def)
  have "same_view D D' \<or> same_view (finish_job True c p D) D'" "job_pool h' = job_pool h"
    using assms(5) False fail by (auto simp: kick_one_def Let_def split: if_splits)
  then show ?thesis unfolding kick_outcome_def by auto
qed

end

section \<open>The vdec IOMMU as provider\<close>

definition vdec_codec_ifc :: "RKIOMMU_DEVICE codec_iommu" where
  "vdec_codec_ifc =
     \<lparr>IfcDisable = Some (\<lambda>s h. case RkIommuDisable (Some s) h of (r, s', h') \<Rightarrow> (r, the s', h')),
      IfcEnable = Some (\<lambda>K s h. case RkIommuEnable K (Some s) h of (r, s', h') \<Rightarrow> (r, the s', h')),
      IfcFlushTlb = Some (\<lambda>s h. RkIommuFlushTlb (Some s) h)\<rparr>"

lemma codec_fold: "(\<And>m h. codec_writes (f m h) = codec_writes h) \<Longrightarrow> codec_writes (fold f ms h) = codec_writes h"
  by (induction ms arbitrary: h) simp_all

lemma codec_mmu_loops [simp]:
  "codec_writes (command_all n c h) = codec_writes h" "codec_writes (stall_all n us h) = codec_writes h"
  "codec_writes (fold (configure_one K dev pd) ms h) = codec_writes h"
  "codec_writes (fold disable_one ms h) = codec_writes h"
  by (simp_all add: command_all_def stall_all_def codec_fold configure_one_def disable_one_def Let_def
      READ_REGISTER_ULONG_def WRITE_REGISTER_ULONG_def)

lemma codec_enable_attempts: "enable_attempts K n a h = (ok, h') \<Longrightarrow> codec_writes h' = codec_writes h"
  by (induction K n a h rule: enable_attempts.induct)
    (auto simp: Let_def READ_REGISTER_ULONG_def split: if_splits prod.splits)

lemma codec_EnableHw: "RkIommuEnableHw K dev h = (s, dev', h') \<Longrightarrow> codec_writes h' = codec_writes h"
  by (auto simp: RkIommuEnableHw_def Let_def simp del: enable_attempts.simps
      split: if_splits option.splits prod.splits dest!: codec_enable_attempts)

interpretation vdecq: quiet_iommu vdec_codec_ifc
proof
  fix f :: "RKIOMMU_DEVICE \<Rightarrow> history \<Rightarrow> NTSTATUS \<times> RKIOMMU_DEVICE \<times> history" and s h r s' h'
  assume "IfcDisable vdec_codec_ifc = Some f" "f s h = (r, s', h')"
  then show "quiet h h'"
    by (auto simp: vdec_codec_ifc_def RkIommuDisable_def RkIommuDisableHw_def quiet_def Let_def
        split: if_splits prod.splits)
next
  fix g :: "kernel \<Rightarrow> RKIOMMU_DEVICE \<Rightarrow> history \<Rightarrow> NTSTATUS \<times> RKIOMMU_DEVICE \<times> history" and K s h r s' h'
  assume "IfcEnable vdec_codec_ifc = Some g" "g K s h = (r, s', h')"
  then show "quiet h h'"
    using live_EnableHw codec_EnableHw
    by (auto simp: vdec_codec_ifc_def RkIommuEnable_def quiet_def split: prod.splits)
next
  fix k :: "RKIOMMU_DEVICE \<Rightarrow> history \<Rightarrow> NTSTATUS \<times> history" and s h r h'
  assume "IfcFlushTlb vdec_codec_ifc = Some k" "k s h = (r, h')"
  then show "quiet h h'"
    by (auto simp: vdec_codec_ifc_def RkIommuFlushTlb_def quiet_def split: if_splits)
qed

end
