(* ===== verification/Job_System.thy ===== *)
theory Job_System
  imports Job_Inv
begin

text \<open>
  The atomic sections of the queue's operations as the steps of a relation in which threads interleave, and the
  invariant of every reachable state: each job is in exactly one place, the allocated job memory is exactly what
  the queue holds, and a job some thread waits on stays allocated.
\<close>

section \<open>The system of threads\<close>

text \<open>
  \<open>job_step E D h todo W D' h' todo' W'\<close>: one atomic section takes the device from state \<open>D\<close> with history \<open>h\<close> to \<open>D'\<close> with
  \<open>h'\<close>. The promotions \<open>todo\<close> have been decided under the lock and not yet kicked, and \<open>W\<close> holds one entry per thread
  waiting on a job. The codec raises its interrupt, and the peer reports completion, only for a job that has been
  kicked. A request is a C structure, so its bank has the bounds of the C arrays. A file is closed only when no other thread waits on one of its jobs that is on a list, and a completed
  job is collected only when no thread waits on it. The peer leaves when its core is idle.
\<close>

inductive job_step :: "'s kick_env \<Rightarrow> 's RKMPP_DEVICE \<Rightarrow> history \<Rightarrow> (ptr \<times> nat) list \<Rightarrow> ptr multiset \<Rightarrow>
    's RKMPP_DEVICE \<Rightarrow> history \<Rightarrow> (ptr \<times> nat) list \<Rightarrow> ptr multiset \<Rightarrow> bool" for E where
  submit: "submit_locked (env_kernel E) File In D h = (Inr (jid, promos), D', h') \<Longrightarrow>
    bank_ok (InBank In) \<Longrightarrow> job_step E D h todo W D' h' (todo @ promos) W"
| submit_fails: "submit_locked (env_kernel E) File In D h = (Inl status, D', h') \<Longrightarrow>
    job_step E D h todo W D' h' todo W"
| kick: "(p, c) \<in> set todo \<Longrightarrow> kick_one E (p, c) (D, h) = (D', h') \<Longrightarrow>
    job_step E D h todo W D' h' (remove1 (p, c) todo) W"
| isr: "RkMppEvtIsr (env_kernel E) D h = (claimed, D', h') \<Longrightarrow> job_step E D h todo W D' h' todo W"
| dpc: "\<forall>p. (p, 0) \<notin> set todo \<Longrightarrow> RkMppEvtDpc E D h = (D', h') \<Longrightarrow>
    job_step E D h todo W D' h' todo W"
| peer_done: "\<forall>p. (p, 1) \<notin> set todo \<Longrightarrow>
    RkMppPeerCompletion (env_kernel E) cookie res hw D h = (D', h') \<Longrightarrow> job_step E D h todo W D' h' todo W"
| worker_promote: "KickRearm (JobQueue D) \<Longrightarrow>
    PromoteUntilFull (upd_q (\<lambda>q. q\<lparr>KickRearm := False\<rparr>) D) = (promos, D') \<Longrightarrow> job_step E D h todo W D' h (todo @ promos) W"
| worker_exit: "\<not> KickRearm (JobQueue D) \<Longrightarrow>
    job_step E D h todo W (upd_q (\<lambda>q. q\<lparr>KickActive := False\<rparr>) D) h todo W"
| wait_begin: "wait_lookup D File jid = Some (p, False) \<Longrightarrow>
    job_step E D h todo W (pin p D) h todo (add_mset p W)"
| wait_collect: "wait_lookup D File jid = Some (p, True) \<Longrightarrow> p \<notin># W \<Longrightarrow>
    job_step E D h todo W (upd_q (\<lambda>q. q\<lparr>Completed := remove1 p (Completed q)\<rparr>) D) (ExFreePoolWithTag ''JppM'' p h) todo W"
| wait_timeout: "p \<in># W \<Longrightarrow> wait_timeout p D h = (D', h') \<Longrightarrow>
    job_step E D h todo W D' h' todo (W - {#p#})"
| wait_done: "p \<in># W \<Longrightarrow> Done (jobs D p) \<Longrightarrow> wait_done p D h = (D', h') \<Longrightarrow>
    job_step E D h todo W D' h' todo (W - {#p#})"
| drain_lists: "\<forall>p \<in> set (Pending (JobQueue D)) \<union> set (Completed (JobQueue D)). Owner (jobs D p) = Some File \<longrightarrow> p \<notin># W \<Longrightarrow>
    drain_lists File D h = (D', h') \<Longrightarrow> job_step E D h todo W D' h' todo W"
| drain_pin: "find_slot (\<lambda>p. Owner (jobs D p) = Some File) (JobQueue D) = Some p \<Longrightarrow>
    job_step E D h todo W (pin p D) h todo (add_mset p W)"
| drain_after: "p \<in># W \<Longrightarrow> drain_after_wait File p timedOut D h = (D', h') \<Longrightarrow>
    job_step E D h todo W D' h' todo (W - {#p#})"
| peer_arrives: "RkMppPeerArrival found D h = (D', h') \<Longrightarrow> job_step E D h todo W D' h' todo W"
| peer_leaves: "InFlightPerCore (JobQueue D) ! 1 = None \<Longrightarrow>
    RkMppDetachPeer wt D h = (D', h') \<Longrightarrow> job_step E D h todo W D' h' todo W"

text \<open>
  \<open>job_reach E D h todo W\<close>: the state is reached from an initialised queue by such steps, among which other threads
  may change the buffer pool and the IOMMU in any way.
\<close>

inductive job_reach :: "'s kick_env \<Rightarrow> 's RKMPP_DEVICE \<Rightarrow> history \<Rightarrow> (ptr \<times> nat) list \<Rightarrow> ptr multiset \<Rightarrow> bool"
  for E where
  start: "JobQueue D = RkMppJobQueueInit q \<Longrightarrow> job_pool h = {#} \<Longrightarrow> job_reach E D h [] {#}"
| step: "job_reach E D h todo W \<Longrightarrow> job_step E D h todo W D' h' todo' W' \<Longrightarrow> job_reach E D' h' todo' W'"
| others: "job_reach E D h todo W \<Longrightarrow> job_pool h' = job_pool h \<Longrightarrow> job_reach E (D\<lparr>bufs := P\<rparr>) h' todo W"

text \<open>What holds in every reachable state.\<close>

definition sys_inv :: "'s RKMPP_DEVICE \<Rightarrow> history \<Rightarrow> (ptr \<times> nat) list \<Rightarrow> ptr multiset \<Rightarrow> bool" where
  "sys_inv D h todo W \<longleftrightarrow>
     queue_inv D \<and> job_pool h = jobs_mset (JobQueue D) \<and>
     (\<forall>p \<in># jobs_mset (JobQueue D). WaiterPin (jobs D p) = int (count W p)) \<and>
     set_mset W \<subseteq> set_mset (jobs_mset (JobQueue D)) \<and>
     (\<forall>(p, c) \<in> set todo. c < 2 \<and> InFlightPerCore (JobQueue D) ! c = Some p) \<and> distinct todo \<and>
     (PeerOpen (JobQueue D) \<longleftrightarrow> CoreCount (JobQueue D) = 2)"

section \<open>Changes of single jobs\<close>

lemma upd_job_sel [simp]: "jobs (upd_job p f D) = (jobs D)(p := f (jobs D p))"
  by (simp add: upd_job_def)

lemma queue_inv_upd_job:
  assumes "queue_inv D" "\<And>j. Done (f j) = Done j" "\<And>j. TargetCore (f j) = TargetCore j"
  shows "queue_inv (upd_job p f D)"
  using assms by (auto simp: queue_inv_def cores_ok_def core_ok_def done_ok_def)

lemma sys_inv_pin:
  assumes "sys_inv D h todo W" "p \<in># jobs_mset (JobQueue D)"
  shows "sys_inv (pin p D) h todo (add_mset p W)"
  using assms queue_inv_upd_job[of D] by (auto simp: sys_inv_def pin_def)

lemma sys_inv_unpin:
  assumes "sys_inv D h todo W" "p \<in># W"
  shows "sys_inv (unpin p D) h todo (W - {#p#})" "WaiterPin (jobs (unpin p D) p) = int (count (W - {#p#}) p)"
proof -
  have c: "count W p > 0" using assms(2) by simp
  have "p \<in># jobs_mset (JobQueue D)" using assms by (auto simp: sys_inv_def)
  then show "WaiterPin (jobs (unpin p D) p) = int (count (W - {#p#}) p)"
    using assms(1) c by (auto simp: sys_inv_def unpin_def)
  show "sys_inv (unpin p D) h todo (W - {#p#})"
    using assms queue_inv_upd_job[of D] c by (auto simp: sys_inv_def unpin_def dest: in_diffD)
qed

lemma sys_inv_upd_job:
  assumes "sys_inv D h todo W" "\<And>j. Done (f j) = Done j" "\<And>j. TargetCore (f j) = TargetCore j"
    "\<And>j. WaiterPin (f j) = WaiterPin j"
  shows "sys_inv (upd_job p f D) h todo W"
  using assms queue_inv_upd_job[of D f p] by (auto simp: sys_inv_def)

lemma sys_inv_view:
  assumes "sys_inv D h todo W" "same_view D D'" "job_pool h' = job_pool h"
  shows "sys_inv D' h' todo W"
  using assms same_view_inv[OF assms(2)] same_view_jobs[OF assms(2)]
  by (auto simp: sys_inv_def same_viewD[OF assms(2)])

section \<open>Completion\<close>

lemma sys_inv_finish:
  assumes inv: "sys_inv D h todo W" and c: "c < 2" "InFlightPerCore (JobQueue D) ! c = Some p"
    and todo: "set todo' \<subseteq> set todo" "distinct todo'" "\<forall>x. (x, c) \<notin> set todo'"
    and keep: "keep \<or> p \<notin># W" and D': "same_view (finish_job keep c p D) D'"
    and h': "job_pool h' = (if keep then job_pool h else job_pool h - {#p#})"
  shows "sys_inv D' h' todo' W"
proof -
  have q: "queue_inv D" using inv by (simp add: sys_inv_def)
  let ?F = "finish_job keep c p D"
  note M = finish_job_mset[OF q c]
  have "sys_inv ?F h' todo' W"
    unfolding sys_inv_def
  proof (intro conjI)
    show "queue_inv ?F" by (rule finish_job_inv[OF q c])
    show "job_pool h' = jobs_mset (JobQueue ?F)" using inv h' by (simp add: M sys_inv_def)
    show "\<forall>x \<in># jobs_mset (JobQueue ?F). WaiterPin (jobs ?F x) = int (count W x)"
      using inv by (auto simp: sys_inv_def M finish_job_frame dest: in_diffD split: if_splits)
    show "set_mset W \<subseteq> set_mset (jobs_mset (JobQueue ?F))"
    proof
      fix x assume x: "x \<in># W"
      then have "x \<in># jobs_mset (JobQueue D)" using inv by (auto simp: sys_inv_def)
      then show "x \<in># jobs_mset (JobQueue ?F)" using keep x by (cases "x = p") (auto simp: M in_diff_count)
    qed
    show "\<forall>(x, d) \<in> set todo'. d < 2 \<and> InFlightPerCore (JobQueue ?F) ! d = Some x"
    proof clarify
      fix x d assume xd: "(x, d) \<in> set todo'"
      then have "d \<noteq> c" using todo(3) by blast
      then show "d < 2 \<and> InFlightPerCore (JobQueue ?F) ! d = Some x"
        using inv xd todo(1) by (auto simp: sys_inv_def finish_job_frame)
    qed
    show "distinct todo'" by (rule todo)
    show "PeerOpen (JobQueue ?F) \<longleftrightarrow> CoreCount (JobQueue ?F) = 2" using inv by (simp add: sys_inv_def finish_job_frame)
  qed
  then show ?thesis by (rule sys_inv_view[OF _ D' refl])
qed

lemma sys_inv_kick:
  assumes inv: "sys_inv D h todo W" and p: "(p, c) \<in> set todo" and k: "kick_outcome c p D h D' h'"
  shows "sys_inv D' h' (remove1 (p, c) todo) W"
proof -
  have c: "c < 2" "InFlightPerCore (JobQueue D) ! c = Some p" and dis: "distinct todo"
    using inv p by (auto simp: sys_inv_def)
  have rest: "\<forall>x. (x, c) \<notin> set (remove1 (p, c) todo)"
  proof (intro allI notI)
    fix x assume "(x, c) \<in> set (remove1 (p, c) todo)"
    then have "(x, c) \<in> set todo" "(x, c) \<noteq> (p, c)" using dis by (simp_all add: set_remove1_eq)
    then show False using inv c by (auto simp: sys_inv_def)
  qed
  have sub: "set (remove1 (p, c) todo) \<subseteq> set todo" "distinct (remove1 (p, c) todo)"
    using dis by (simp_all add: set_remove1_subset)
  from k consider (hw) "same_view D D'" "job_pool h' = job_pool h"
    | (fail) keep where "keep \<or> WaiterPin (jobs D p) \<le> 0" "same_view (finish_job keep c p D) D'"
        "job_pool h' = (if keep then job_pool h else job_pool h - {#p#})"
    unfolding kick_outcome_def by blast
  then show ?thesis
  proof cases
    case hw
    have "sys_inv D h (remove1 (p, c) todo) W" using inv sub unfolding sys_inv_def by blast
    then show ?thesis by (rule sys_inv_view[OF _ hw])
  next
    case fail
    have "p \<in># jobs_mset (JobQueue D)" using c by (auto simp: jobs_mset_def less_2_cases_iff)
    then have "WaiterPin (jobs D p) = int (count W p)" using inv by (simp add: sys_inv_def)
    then have "keep \<or> p \<notin># W" using fail(1) by (auto simp: count_eq_zero_iff)
    then show ?thesis using sys_inv_finish[OF inv c sub rest _ fail(2,3)] by blast
  qed
qed

section \<open>Promotion and submission\<close>

lemma sys_inv_promote:
  assumes inv: "sys_inv D h todo W" and P: "PromoteUntilFull D = (promos, D')"
  shows "sys_inv D' h (todo @ promos) W"
proof -
  have q: "queue_inv D" using inv by (simp add: sys_inv_def)
  note pr = promote_until_full_inv[OF q P]
  have fr: "jobs_mset (JobQueue D') = jobs_mset (JobQueue D)" "CoreCount (JobQueue D') = CoreCount (JobQueue D)"
    "PeerOpen (JobQueue D') = PeerOpen (JobQueue D)" "distinct promos"
    "\<And>c p. InFlightPerCore (JobQueue D) ! c = Some p \<Longrightarrow> InFlightPerCore (JobQueue D') ! c = Some p"
    using pr(2) unfolding promoted_def by auto
  have new: "c < CoreCount (JobQueue D) \<and> InFlightPerCore (JobQueue D) ! c = None \<and>
      InFlightPerCore (JobQueue D') ! c = Some p" if "(p, c) \<in> set promos" for p c
    using pr(2) that unfolding promoted_def by auto
  have pin: "WaiterPin (jobs D' x) = WaiterPin (jobs D x)" for x
  proof -
    obtain t where "jobs D' x = (jobs D x)\<lparr>TargetCore := t\<rparr>" using pr(2) unfolding promoted_def by blast
    then show ?thesis by simp
  qed
  have two: "c < CoreCount (JobQueue D) \<Longrightarrow> c < 2" for c using queue_inv_shape[OF q] by (auto simp: shape_ok_def)
  have "set todo \<inter> set promos = {}" using inv new by (fastforce simp: sys_inv_def)
  then show ?thesis using inv pr(1) new fr two by (fastforce simp: sys_inv_def pin)
qed

lemma sys_inv_enqueue:
  assumes inv: "sys_inv D h todo W" and p: "p \<notin># job_pool h" and j: "\<not> Done j" "WaiterPin j = 0"
    and h': "job_pool h' = add_mset p (job_pool h)"
  shows "sys_inv (upd_q (\<lambda>q. q\<lparr>Pending := Pending q @ [p]\<rparr>) (upd_job p (\<lambda>_. j) D)) h' todo W"
proof -
  let ?q = "JobQueue D" and ?D' = "upd_q (\<lambda>q. q\<lparr>Pending := Pending q @ [p]\<rparr>) (upd_job p (\<lambda>_. j) D)"
  have q: "queue_inv D" using inv by (simp add: sys_inv_def)
  have n: "p \<notin># jobs_mset ?q" using inv p by (simp add: sys_inv_def)
  have M: "jobs_mset (JobQueue ?D') = add_mset p (jobs_mset ?q)" by (simp add: jobs_mset_def)
  have slots: "c < 2 \<Longrightarrow> InFlightPerCore ?q ! c \<noteq> Some p" for c using n by (auto simp: jobs_mset_def less_2_cases_iff)
  have "cores_ok ?D'" using q slots[of 0] slots[of 1] by (auto simp: queue_inv_def cores_ok_def core_ok_def)
  moreover have "done_ok ?D'" using q n j(1)
    unfolding done_ok_def M by (auto simp: queue_inv_def done_ok_def jobs_mset_def)
  moreover have "count (jobs_mset (JobQueue ?D')) x \<le> 1" for x
    using q n unfolding M by (auto simp: queue_inv_def not_in_iff)
  moreover have "shape_ok (JobQueue ?D')" using queue_inv_shape[OF q] by (simp add: shape_ok_def)
  ultimately have Q: "queue_inv ?D'" by (simp add: queue_inv_def)
  have "p \<notin># W" using n inv by (auto simp: sys_inv_def)
  then show ?thesis using inv Q n j(2) h' unfolding sys_inv_def M
    by (auto simp: count_eq_zero_iff[symmetric])
qed

text \<open>A job not in the queue may be written freely, and the id counter is of no concern.\<close>

lemma sys_inv_other:
  assumes "sys_inv D h todo W" "p \<notin># job_pool h"
  shows "sys_inv (upd_job p f (upd_q (\<lambda>q. q\<lparr>NextId := n\<rparr>) D)) h todo W"
proof -
  have n: "p \<notin># jobs_mset (JobQueue D)" using assms by (simp add: sys_inv_def)
  then have "InFlightPerCore (JobQueue D) ! 0 \<noteq> Some p" "InFlightPerCore (JobQueue D) ! 1 \<noteq> Some p"
    by (auto simp: jobs_mset_def)
  then show ?thesis using assms(1) n
    by (auto simp: sys_inv_def queue_inv_def shape_ok_def cores_ok_def core_ok_def done_ok_def jobs_mset_def)
qed

lemma sys_inv_next_id: "sys_inv D h todo W \<Longrightarrow> sys_inv (upd_q (\<lambda>q. q\<lparr>NextId := n\<rparr>) D) h todo W"
  by (simp add: sys_inv_def queue_inv_def shape_ok_def cores_ok_def core_ok_def done_ok_def jobs_mset_def)

text \<open>The ways a submission ends: refused early, refused for lack of room, or on the pending list and promoted.\<close>

lemma submit_cases:
  assumes S: "submit_locked K File In D h = (r, D', h')"
  obtains (early) status where "r = Inl status" "D' = D" "job_pool h' = job_pool h"
      "InIovaSlotCount In > 64 \<or> InBufRefCount In > 16 \<or> InKickValue In AND 1 = 0 \<or> k_pool K h ''JppM'' = None \<or>
       build_job (files (bufs D) File) File In = Inl status"
  | (busy) p j jid where "k_pool K h ''JppM'' = Some p" "r = Inl STATUS_DEVICE_BUSY"
      "D' = upd_job p (\<lambda>_. j) (upd_q (\<lambda>q. q\<lparr>NextId := jid\<rparr>) D)" "job_pool h' = job_pool h" "admission_full D' File"
  | (queued) p j jid promos where "k_pool K h ''JppM'' = Some p" "r = Inr (jid, promos)"
      "build_job (files (bufs D) File) File In = Inr j" "jid = NextId (JobQueue D) + 1"
      "\<not> admission_full (upd_job p (\<lambda>_. j\<lparr>Id := jid\<rparr>) (upd_q (\<lambda>q. q\<lparr>NextId := jid\<rparr>) D)) File"
      "PromoteUntilFull (upd_q (\<lambda>q. q\<lparr>Pending := Pending q @ [p]\<rparr>)
         (upd_job p (\<lambda>_. j\<lparr>Id := jid\<rparr>) (upd_q (\<lambda>q. q\<lparr>NextId := jid\<rparr>) D))) = (promos, D')"
      "h' = Acquire (Pool ''JppM'' p) # h"
proof (cases "InIovaSlotCount In > 64 \<or> InBufRefCount In > 16 \<or> InKickValue In AND 1 = 0 \<or> k_pool K h ''JppM'' = None")
  case True
  then have "\<exists>st. r = Inl st \<and> D' = D \<and> h' = h"
    using S unfolding submit_locked_def ExAllocatePool2_def by (elim disjE) (auto split: if_splits)
  then show thesis using early True by blast
next
  case False
  then obtain p where p: "k_pool K h ''JppM'' = Some p" by blast
  let ?h1 = "Acquire (Pool ''JppM'' p) # h" and ?jid = "NextId (JobQueue D) + 1"
  let ?D1 = "upd_q (\<lambda>q. q\<lparr>NextId := ?jid\<rparr>) D"
  have n: "upd_q (\<lambda>q. q\<lparr>NextId := NextId q + 1\<rparr>) D = ?D1" "NextId (JobQueue ?D1) = ?jid"
    by (simp_all add: upd_q_def)
  have freed: "job_pool (ExFreePoolWithTag ''JppM'' p ?h1) = job_pool h" by simp
  show thesis
  proof (cases "build_job (files (bufs D) File) File In")
    case (Inl status)
    then show thesis using S False p early freed by (auto simp: submit_locked_def ExAllocatePool2_def)
  next
    case (Inr j)
    let ?D2 = "upd_job p (\<lambda>_. j\<lparr>Id := ?jid\<rparr>) ?D1"
    have "(if admission_full ?D2 File then (Inl STATUS_DEVICE_BUSY, ?D2, ExFreePoolWithTag ''JppM'' p ?h1)
        else case PromoteUntilFull (upd_q (\<lambda>q. q\<lparr>Pending := Pending q @ [p]\<rparr>) ?D2) of
          (promos, D3) \<Rightarrow> (Inr (?jid, promos), D3, ?h1)) = (r, D', h')"
      using S False p Inr unfolding submit_locked_def ExAllocatePool2_def Let_def n by simp
    then show thesis using busy[OF p] queued[OF p _ Inr] freed by (auto split: if_splits prod.splits)
  qed
qed

lemma submit_queued_inv:
  assumes "sys_inv D h todo W" "p \<notin># job_pool h" "build_job ctx File In = Inr j"
  shows "sys_inv (upd_q (\<lambda>q. q\<lparr>Pending := Pending q @ [p]\<rparr>)
      (upd_job p (\<lambda>_. j\<lparr>Id := jid\<rparr>) (upd_q (\<lambda>q. q\<lparr>NextId := jid\<rparr>) D))) (Acquire (Pool ''JppM'' p) # h) todo W"
proof -
  have "\<not> Done (j\<lparr>Id := jid\<rparr>)" "WaiterPin (j\<lparr>Id := jid\<rparr>) = 0"
    using build_job_fields(1)[OF assms(3)] by (simp_all add: job_frame_def)
  then show ?thesis using sys_inv_enqueue[OF sys_inv_next_id[OF assms(1)] assms(2)] by simp
qed

lemma sys_inv_submit:
  assumes inv: "sys_inv D h todo W" and S: "submit_locked K File In D h = (r, D', h')"
    and fresh: "\<And>p. k_pool K h ''JppM'' = Some p \<Longrightarrow> p \<notin># job_pool h"
  shows "sys_inv D' h' (todo @ (case r of Inl _ \<Rightarrow> [] | Inr (_, promos) \<Rightarrow> promos)) W"
  using S
proof (cases rule: submit_cases)
  case early
  then show ?thesis using sys_inv_view[OF inv same_view_refl] by simp
next
  case (busy p j jid)
  have "sys_inv D' h todo W" unfolding busy(3) by (rule sys_inv_other[OF inv fresh[OF busy(1)]])
  then show ?thesis using sys_inv_view[OF _ same_view_refl busy(4)] busy(2) by simp
next
  case (queued p j jid promos)
  show ?thesis using sys_inv_promote[OF submit_queued_inv[OF inv fresh[OF queued(1)] queued(3)] queued(6)] queued(2,7) by simp
qed

section \<open>Removing jobs from the lists\<close>

lemma job_pool_free_jobs [simp]: "job_pool (free_jobs ps h) = job_pool h - mset ps"
  unfolding free_jobs_def by (induction ps arbitrary: h) (simp_all add: diff_diff_add_mset)

definition keep_jobs :: "(ptr \<Rightarrow> bool) \<Rightarrow> (ptr \<Rightarrow> bool) \<Rightarrow> 's RKMPP_DEVICE \<Rightarrow> 's RKMPP_DEVICE" where
  "keep_jobs P C D = upd_q (\<lambda>q. q\<lparr>Pending := filter P (Pending q), Completed := filter C (Completed q)\<rparr>) D"

definition gone :: "(ptr \<Rightarrow> bool) \<Rightarrow> (ptr \<Rightarrow> bool) \<Rightarrow> 's RKMPP_DEVICE \<Rightarrow> ptr list" where
  "gone P C D = filter (\<lambda>x. \<not> P x) (Pending (JobQueue D)) @ filter (\<lambda>x. \<not> C x) (Completed (JobQueue D))"

lemma keep_jobs_mset:
  "jobs_mset (JobQueue (keep_jobs P C D)) + mset (gone P C D) = jobs_mset (JobQueue D)"
  by (rule multiset_eqI) (auto simp: keep_jobs_def gone_def jobs_mset_def)

lemma sys_inv_keep:
  assumes inv: "sys_inv D h todo W" and W: "\<forall>x \<in> set (gone P C D). x \<notin># W"
    and h': "job_pool h' = job_pool h - mset (gone P C D)"
  shows "sys_inv (keep_jobs P C D) h' todo W"
proof -
  let ?D' = "keep_jobs P C D" and ?q = "JobQueue D"
  have q: "queue_inv D" using inv by (simp add: sys_inv_def)
  note sum = keep_jobs_mset[of P C D]
  have M: "jobs_mset (JobQueue ?D') = jobs_mset ?q - mset (gone P C D)"
    by (metis add_diff_cancel_right' sum)
  have sub: "x \<in># jobs_mset (JobQueue ?D') \<Longrightarrow> x \<in># jobs_mset ?q" for x by (auto simp: M dest: in_diffD)
  have one: "count (jobs_mset ?q) x \<le> 1" for x using q by (simp add: queue_inv_def)
  have not_gone: "x \<notin> set (gone P C D)" if "x \<in># jobs_mset (JobQueue ?D')" for x
  proof
    assume "x \<in> set (gone P C D)"
    then have "count (mset (gone P C D)) x > 0" by (simp only: count_greater_zero_iff set_mset_mset)
    moreover have "count (jobs_mset (JobQueue ?D')) x > 0" using that by (simp only: count_greater_zero_iff)
    moreover have "count (jobs_mset (JobQueue ?D')) x + count (mset (gone P C D)) x \<le> 1"
      using one[of x] by (simp only: sum[symmetric] count_union)
    ultimately show False by linarith
  qed
  have "done_ok ?D'"
    unfolding done_ok_def
  proof
    fix x assume x: "x \<in># jobs_mset (JobQueue ?D')"
    have "Done (jobs D x) \<longleftrightarrow> x \<in> set (Completed ?q)" using q sub[OF x] by (simp add: queue_inv_def done_ok_def)
    moreover have "x \<in> set (Completed ?q) \<Longrightarrow> C x" using not_gone[OF x] by (auto simp: gone_def)
    ultimately show "Done (jobs ?D' x) \<longleftrightarrow> x \<in> set (Completed (JobQueue ?D'))" by (auto simp: keep_jobs_def)
  qed
  moreover have "cores_ok ?D'" "shape_ok (JobQueue ?D')"
    using q by (auto simp: queue_inv_def cores_ok_def core_ok_def shape_ok_def keep_jobs_def)
  moreover have "count (jobs_mset (JobQueue ?D')) x \<le> 1" for x using one[of x] by (simp add: M)
  ultimately have Q: "queue_inv ?D'" by (simp add: queue_inv_def)
  have "x \<in># jobs_mset (JobQueue ?D')" if "x \<in># W" for x
  proof -
    have "x \<in># jobs_mset ?q" using inv that by (auto simp: sys_inv_def)
    moreover have "x \<notin># mset (gone P C D)" using W that by auto
    ultimately show ?thesis unfolding sum[symmetric] by simp
  qed
  moreover have fr: "jobs ?D' = jobs D" "InFlightPerCore (JobQueue ?D') = InFlightPerCore ?q"
    "PeerOpen (JobQueue ?D') = PeerOpen ?q" "CoreCount (JobQueue ?D') = CoreCount ?q" by (simp_all add: keep_jobs_def)
  ultimately show ?thesis using inv Q sub h' M unfolding sys_inv_def fr by auto
qed

text \<open>A job is on a list at most once, so taking it off is keeping the others.\<close>

lemma remove_is_keep:
  assumes "queue_inv D"
  shows "upd_q (\<lambda>q. q\<lparr>Pending := remove1 p (Pending q)\<rparr>) D = keep_jobs (\<lambda>x. x \<noteq> p) (\<lambda>_. True) D"
    "upd_q (\<lambda>q. q\<lparr>Completed := remove1 p (Completed q)\<rparr>) D = keep_jobs (\<lambda>_. True) (\<lambda>x. x \<noteq> p) D"
    "p \<in> set (Pending (JobQueue D)) \<Longrightarrow> gone (\<lambda>x. x \<noteq> p) (\<lambda>_. True) D = [p]"
    "p \<in> set (Completed (JobQueue D)) \<Longrightarrow> gone (\<lambda>_. True) (\<lambda>x. x \<noteq> p) D = [p]"
proof -
  have le: "count (mset (Pending (JobQueue D))) x \<le> 1" "count (mset (Completed (JobQueue D))) x \<le> 1" for x
    using assms by (auto simp: queue_inv_def jobs_mset_def dest: spec[of _ x])
  have dist: "distinct xs" if "\<And>x. count (mset xs) x \<le> 1" for xs :: "ptr list"
    using that by (auto simp: distinct_count_atmost_1 le_Suc_eq count_mset_0_iff)
  have d: "distinct (Pending (JobQueue D))" "distinct (Completed (JobQueue D))" using le dist by blast+
  have q: "q\<lparr>Pending := Pending q\<rparr> = q" "q\<lparr>Completed := Completed q\<rparr> = q" for q :: RKMPP_JOB_QUEUE by simp_all
  show "upd_q (\<lambda>q. q\<lparr>Pending := remove1 p (Pending q)\<rparr>) D = keep_jobs (\<lambda>x. x \<noteq> p) (\<lambda>_. True) D"
    "upd_q (\<lambda>q. q\<lparr>Completed := remove1 p (Completed q)\<rparr>) D = keep_jobs (\<lambda>_. True) (\<lambda>x. x \<noteq> p) D"
    using d by (simp_all add: upd_q_def keep_jobs_def distinct_remove1_removeAll removeAll_filter_not_eq)
      (simp_all add: eq_commute[of p])
  have f: "x \<in> set xs \<Longrightarrow> distinct xs \<Longrightarrow> filter (\<lambda>y. y = x) xs = [x]" for x :: ptr and xs
    by (induction xs) (auto simp: filter_empty_conv)
  show "p \<in> set (Pending (JobQueue D)) \<Longrightarrow> gone (\<lambda>x. x \<noteq> p) (\<lambda>_. True) D = [p]"
    "p \<in> set (Completed (JobQueue D)) \<Longrightarrow> gone (\<lambda>_. True) (\<lambda>x. x \<noteq> p) D = [p]"
    using f d by (simp_all add: gone_def)
qed

section \<open>Waiting and draining\<close>

lemma find_in_set: "find P xs = Some x \<Longrightarrow> x \<in> set xs \<and> P x"
  by (auto simp: find_Some_iff)

lemma find_slot_in:
  assumes "find_slot P q = Some p" "shape_ok q"
  shows "p \<in># jobs_mset q"
proof -
  have "Some p \<in> set (active_slots q)" using find_in_set[OF assms(1)[unfolded find_slot_def]] by auto
  then have "Some p \<in> set (InFlightPerCore q)" using set_take_subset unfolding active_slots_def by fastforce
  moreover obtain a b x y where "InFlightPerCore q = [a, b]" by (rule shape_ok_slots[OF assms(2)])
  ultimately show ?thesis by (auto simp: jobs_mset_def)
qed

lemma wait_lookup_in:
  assumes "wait_lookup D File jid = Some (p, d)" "shape_ok (JobQueue D)"
  shows "p \<in># jobs_mset (JobQueue D)" "d \<Longrightarrow> p \<in> set (Completed (JobQueue D))" "Owner (jobs D p) = Some File" "Id (jobs D p) = jid"
proof -
  let ?q = "JobQueue D" and ?is = "\<lambda>p. Id (jobs D p) = jid"
  let ?mine = "\<lambda>p. Id (jobs D p) = jid \<and> Owner (jobs D p) = Some File"
  consider (fin) "find ?is (Completed ?q) = Some p" "d"
    | (slot) "find_slot ?mine ?q = Some p" "\<not> d" | (pend) "find ?is (Pending ?q) = Some p" "\<not> d"
    using assms(1) by (auto simp: wait_lookup_def Let_def split: option.splits if_splits prod.splits)
  then have "p \<in># jobs_mset ?q \<and> (d \<longrightarrow> p \<in> set (Completed ?q)) \<and> Id (jobs D p) = jid"
    using find_slot_in[OF _ assms(2)] by cases (auto simp: jobs_mset_def find_slot_def dest: find_in_set)
  then show "p \<in># jobs_mset ?q" "d \<Longrightarrow> p \<in> set (Completed ?q)" "Id (jobs D p) = jid" by blast+
  show "Owner (jobs D p) = Some File"
    using assms(1) by (auto simp: wait_lookup_def Let_def split: option.splits if_splits prod.splits)
qed

lemma sys_inv_shape: "sys_inv D h todo W \<Longrightarrow> shape_ok (JobQueue D)" "sys_inv D h todo W \<Longrightarrow> queue_inv D"
  by (simp_all add: sys_inv_def queue_inv_def)

lemma sys_inv_remove:
  assumes "sys_inv D h todo W" "p \<notin># W"
  shows "p \<in> set (Pending (JobQueue D)) \<Longrightarrow>
      sys_inv (upd_q (\<lambda>q. q\<lparr>Pending := remove1 p (Pending q)\<rparr>) D) (ExFreePoolWithTag ''JppM'' p h) todo W"
    "p \<in> set (Completed (JobQueue D)) \<Longrightarrow>
      sys_inv (upd_q (\<lambda>q. q\<lparr>Completed := remove1 p (Completed q)\<rparr>) D) (ExFreePoolWithTag ''JppM'' p h) todo W"
proof -
  note r = remove_is_keep[OF sys_inv_shape(2)[OF assms(1)], of p]
  show "p \<in> set (Pending (JobQueue D)) \<Longrightarrow>
      sys_inv (upd_q (\<lambda>q. q\<lparr>Pending := remove1 p (Pending q)\<rparr>) D) (ExFreePoolWithTag ''JppM'' p h) todo W"
    unfolding r(1) by (rule sys_inv_keep[OF assms(1)]) (simp_all add: r(3) assms(2))
  show "p \<in> set (Completed (JobQueue D)) \<Longrightarrow>
      sys_inv (upd_q (\<lambda>q. q\<lparr>Completed := remove1 p (Completed q)\<rparr>) D) (ExFreePoolWithTag ''JppM'' p h) todo W"
    unfolding r(2) by (rule sys_inv_keep[OF assms(1)]) (simp_all add: r(4) assms(2))
qed

lemma sys_inv_wait_timeout:
  assumes "sys_inv D h todo W" "p \<in># W" "wait_timeout p D h = (D', h')"
  shows "sys_inv D' h' todo (W - {#p#})"
proof -
  note u = sys_inv_unpin[OF assms(1,2)]
  have orphan: "sys_inv (upd_job p (\<lambda>j. j\<lparr>OrphanOnComplete := True\<rparr>) (unpin p D)) h todo (W - {#p#})"
    by (rule sys_inv_upd_job[OF u(1)]) simp_all
  show ?thesis
  proof (cases "WaiterPin (jobs (unpin p D) p) = 0")
    case True
    then have "p \<notin># W - {#p#}" using u(2) by (simp add: not_in_iff)
    then show ?thesis using assms(3) u(1) sys_inv_remove[OF u(1), of p] orphan True
      by (auto simp: wait_timeout_def Let_def split: if_splits)
  qed (use assms(3) u(1) in \<open>auto simp: wait_timeout_def Let_def\<close>)
qed

lemma sys_inv_wait_done:
  assumes "sys_inv D h todo W" "p \<in># W" "Done (jobs D p)" "wait_done p D h = (D', h')"
  shows "sys_inv D' h' todo (W - {#p#})"
proof -
  note u = sys_inv_unpin[OF assms(1,2)]
  have "p \<in># jobs_mset (JobQueue D)" using assms(1,2) by (auto simp: sys_inv_def)
  then have c: "p \<in> set (Completed (JobQueue (unpin p D)))"
    using assms(1,3) by (simp add: sys_inv_def queue_inv_def done_ok_def unpin_def)
  show ?thesis
  proof (cases "WaiterPin (jobs (unpin p D) p) = 0")
    case True
    then have "p \<notin># W - {#p#}" using u(2) by (simp add: not_in_iff)
    then show ?thesis using assms(4) sys_inv_remove(2)[OF u(1) _ c] True by (auto simp: wait_done_def Let_def)
  qed (use assms(4) u(1) in \<open>auto simp: wait_done_def Let_def\<close>)
qed

lemma sys_inv_drain_lists:
  assumes "sys_inv D h todo W" "drain_lists File D h = (D', h')"
    "\<forall>p \<in> set (Pending (JobQueue D)) \<union> set (Completed (JobQueue D)). Owner (jobs D p) = Some File \<longrightarrow> p \<notin># W"
  shows "sys_inv D' h' todo W"
proof -
  let ?keep = "\<lambda>p. \<not> Owner (jobs D p) = Some File"
  have D': "D' = keep_jobs ?keep ?keep D" "h' = free_jobs (gone ?keep ?keep D) h"
    using assms(2) by (simp_all add: drain_lists_def keep_jobs_def gone_def Let_def)
  have "\<forall>x \<in> set (gone ?keep ?keep D). x \<notin># W" using assms(3) by (auto simp: gone_def)
  then show ?thesis unfolding D' by (rule sys_inv_keep[OF assms(1)]) simp
qed

lemma sys_inv_orphan_slots: "sys_inv D h todo W \<Longrightarrow> sys_inv (orphan_slots File D) h todo W"
proof -
  have "sys_inv (fold (\<lambda>s D. case s of None \<Rightarrow> D | Some p \<Rightarrow>
      (if Owner (jobs D p) = Some File
       then upd_job p (\<lambda>j. j\<lparr>OutputFrameMdl := None, ColmvCurMdl := None, OrphanOnComplete := True\<rparr>) D else D)) ss D) h todo W"
    if "sys_inv D h todo W" for ss and D :: "'a RKMPP_DEVICE"
    using that
  proof (induction ss arbitrary: D)
    case (Cons s ss)
    have "sys_inv (case s of None \<Rightarrow> D | Some p \<Rightarrow> (if Owner (jobs D p) = Some File
        then upd_job p (\<lambda>j. j\<lparr>OutputFrameMdl := None, ColmvCurMdl := None, OrphanOnComplete := True\<rparr>) D else D)) h todo W"
      using Cons.prems sys_inv_upd_job[OF Cons.prems] by (auto split: option.splits)
    then show ?case using Cons.IH by simp
  qed simp
  then show "sys_inv D h todo W \<Longrightarrow> sys_inv (orphan_slots File D) h todo W" by (simp add: orphan_slots_def)
qed

lemma sys_inv_drain_after:
  assumes "sys_inv D h todo W" "p \<in># W" "drain_after_wait File p timedOut D h = (D', h')"
  shows "sys_inv D' h' todo (W - {#p#})"
proof -
  define D2 where "D2 = (if timedOut then orphan_slots File (unpin p D) else unpin p D)"
  have i: "sys_inv D2 h todo (W - {#p#})"
    using sys_inv_unpin(1)[OF assms(1,2)] sys_inv_orphan_slots by (auto simp: D2_def)
  let ?keep = "\<lambda>c. \<not> (Owner (jobs D2 c) = Some File \<and> WaiterPin (jobs D2 c) = 0)"
  have D': "D' = keep_jobs (\<lambda>_. True) ?keep D2" "h' = free_jobs (gone (\<lambda>_. True) ?keep D2) h"
    using assms(3) by (simp_all add: drain_after_wait_def keep_jobs_def gone_def Let_def D2_def)
  have "\<forall>x \<in> set (gone (\<lambda>_. True) ?keep D2). x \<notin># W - {#p#}"
  proof
    fix x assume "x \<in> set (gone (\<lambda>_. True) ?keep D2)"
    then have x: "x \<in> set (Completed (JobQueue D2))" "WaiterPin (jobs D2 x) = 0" by (auto simp: gone_def)
    then have "x \<in># jobs_mset (JobQueue D2)" by (simp add: jobs_mset_def)
    then have "WaiterPin (jobs D2 x) = int (count (W - {#p#}) x)" using i by (auto simp: sys_inv_def)
    then show "x \<notin># W - {#p#}" using x(2) by (simp add: not_in_iff)
  qed
  then show ?thesis unfolding D' by (rule sys_inv_keep[OF i]) simp
qed

section \<open>The peer, the interrupt and the worker\<close>

lemma sys_inv_arrival:
  assumes inv: "sys_inv D h todo W" and A: "RkMppPeerArrival found D h = (D', h')"
  shows "sys_inv D' h' todo W"
proof -
  have same: "D' = D \<and> job_pool h' = job_pool h \<or>
      \<not> PeerOpen (JobQueue D) \<and> job_pool h' = job_pool h \<and>
      (\<exists>fo. D' = upd_q (\<lambda>q. q\<lparr>PeerFileObj := Some fo, PeerOpen := True, CoreCount := 2,
         CoreIdle := CoreIdle q OR push_bit 1 1, CorePending := (CorePending q)[1 := 0]\<rparr>) D)"
    using A by (auto simp: RkMppPeerArrival_def Let_def split: if_splits option.splits)
  show ?thesis
  proof (cases "D' = D")
    case True
    then show ?thesis using same sys_inv_view[OF inv same_view_refl] by auto
  next
    case False
    then obtain fo where D': "D' = upd_q (\<lambda>q. q\<lparr>PeerFileObj := Some fo, PeerOpen := True, CoreCount := 2,
         CoreIdle := CoreIdle q OR push_bit 1 1, CorePending := (CorePending q)[1 := 0]\<rparr>) D"
      and po: "\<not> PeerOpen (JobQueue D)" and h': "job_pool h' = job_pool h" using same by auto
    have q: "queue_inv D" by (rule sys_inv_shape[OF inv])
    have one: "CoreCount (JobQueue D) = 1"
      using inv po sys_inv_shape(1)[OF inv] by (auto simp: sys_inv_def shape_ok_def)
    have "core_ok (jobs D) (JobQueue D) 1" using q by (simp add: queue_inv_def cores_ok_def)
    then have empty: "InFlightPerCore (JobQueue D) ! 1 = None"
      using one by (cases "InFlightPerCore (JobQueue D) ! 1") (auto simp: core_ok_def)
    have bits: "bit (CoreIdle (JobQueue D) OR push_bit 1 1) c \<longleftrightarrow> c < 2 \<and> InFlightPerCore (JobQueue D) ! c = None" for c
    proof -
      have "bit (CoreIdle (JobQueue D) OR push_bit 1 1) c \<longleftrightarrow> c = 1 \<or> bit (CoreIdle (JobQueue D)) c"
        by (rule bit_set_core) simp
      also have "\<dots> \<longleftrightarrow> c = 1 \<or> c = 0 \<and> InFlightPerCore (JobQueue D) ! 0 = None"
        using queue_inv_idle[OF q, of c] one by auto
      finally show ?thesis using empty by (auto simp: less_2_cases_iff)
    qed
    have len: "length (CorePending (JobQueue D)) = 2" using sys_inv_shape(1)[OF inv] by (simp add: shape_ok_def)
    have "cores_ok D'"
      unfolding cores_ok_def D' upd_q_queue using q empty bits len one
      by (simp add: core_ok_def queue_inv_def cores_ok_def)
    then have "queue_inv D'" using q by (simp add: queue_inv_def D' shape_ok_def done_ok_def jobs_mset_def)
    then show ?thesis using inv h' by (simp add: sys_inv_def D' jobs_mset_def)
  qed
qed

lemma sys_inv_detach:
  assumes inv: "sys_inv D h todo W" and e: "InFlightPerCore (JobQueue D) ! 1 = None"
    and A: "RkMppDetachPeer wt D h = (D', h')"
  shows "sys_inv D' h' todo W"
proof -
  have q: "queue_inv D" by (rule sys_inv_shape[OF inv])
  let ?D1 = "upd_q (\<lambda>q. q\<lparr>PeerOpen := False, CoreCount := 1, CoreIdle := CoreIdle q AND 1,
      CorePending := (CorePending q)[1 := 0], PeerFileObj := None\<rparr>) D"
  have D': "D' = ?D1" "job_pool h' = job_pool h"
    using A e by (auto simp: RkMppDetachPeer_def Let_def split: if_splits option.splits)
  have bits: "bit (CoreIdle (JobQueue D) AND 1) c \<longleftrightarrow> c < 1 \<and> InFlightPerCore (JobQueue D) ! c = None" for c
    using queue_inv_idle[OF q, of c] sys_inv_shape(1)[OF inv] by (auto simp: bit_and_iff bit_1_iff shape_ok_def)
  have len: "length (CorePending (JobQueue D)) = 2" using sys_inv_shape(1)[OF inv] by (simp add: shape_ok_def)
  have "cores_ok ?D1"
    unfolding cores_ok_def upd_q_queue using q e bits len
    by (simp add: core_ok_def queue_inv_def cores_ok_def)
  then have "queue_inv ?D1" using q by (simp add: queue_inv_def shape_ok_def done_ok_def jobs_mset_def)
  then show ?thesis using inv by (simp add: sys_inv_def D' jobs_mset_def)
qed

lemma isr_view:
  "RkMppEvtIsr K D h = (claimed, D', h') \<Longrightarrow> same_view D D' \<and> job_pool h' = job_pool h"
  by (auto simp: RkMppEvtIsr_def Let_def same_view_def qview_def split: if_splits)

lemma bufs_view: "same_view D (D\<lparr>bufs := P\<rparr>)"
  by (simp add: same_view_def)

lemma flag_view:
  "same_view D (upd_q (\<lambda>q. q\<lparr>KickRearm := b\<rparr>) D)" "same_view D (upd_q (\<lambda>q. q\<lparr>KickActive := b\<rparr>) D)"
  by (simp_all add: same_view_def qview_def)

lemma sys_inv_start: "JobQueue D = RkMppJobQueueInit q \<Longrightarrow> job_pool h = {#} \<Longrightarrow> sys_inv D h [] {#}"
  by (auto simp: sys_inv_def RkMppJobQueueInit_def queue_inv_def shape_ok_def cores_ok_def core_ok_def done_ok_def
      jobs_mset_def bit_1_iff)

lemma sys_inv_peer_done:
  assumes inv: "sys_inv D h todo W" and t: "\<forall>p. (p, 1) \<notin> set todo"
    and P: "RkMppPeerCompletion K cookie res hw D h = (D', h')"
  shows "sys_inv D' h' todo W"
proof (cases "\<exists>p. InFlightPerCore (JobQueue D) ! 1 = Some p \<and> Id (jobs D p) = cookie")
  case True
  then obtain p where p: "InFlightPerCore (JobQueue D) ! 1 = Some p" "Id (jobs D p) = cookie" by blast
  note v = peer_completion_view[OF p, of K res hw h, unfolded P fst_conv snd_conv]
  have "distinct todo" using inv by (simp add: sys_inv_def)
  then show ?thesis using sys_inv_finish[OF inv _ p(1) subset_refl _ t _ v(1)] v(2) by simp
next
  case False
  then have "D' = D" "h' = h" using P by (auto simp: RkMppPeerCompletion_def split: option.splits)
  then show ?thesis using inv by simp
qed

context quiet_iommu
begin

lemma dpc_outcome:
  assumes E: "env_iommu E = Some ifc" and q: "queue_inv D" and P: "RkMppEvtDpc E D h = (D', h')"
  shows "same_view D D' \<and> job_pool h' = job_pool h \<or>
    (\<exists>p. InFlightPerCore (JobQueue D) ! 0 = Some p \<and> kick_outcome 0 p D h D' h')"
proof (cases "InFlightPerCore (JobQueue D) ! 0")
  case None
  then show ?thesis using P quiet_pool[OF flush_tlb_quiet[OF E]] same_view_refl by (auto simp: RkMppEvtDpc_def Let_def)
next
  case (Some p)
  let ?hw = "LastIsrHwStatus (JobQueue D)"
  let ?res = "if ?hw AND RKVDEC2_INT_ERROR_MASK \<noteq> 0 then STATUS_DEVICE_HARDWARE_ERROR else STATUS_SUCCESS"
  obtain D1 h1 where C: "RkMppJobComplete (env_kernel E) ?res ?hw D h = (D1, h1)" by (rule prod.exhaust)
  have D': "D' = D1" "job_pool h' = job_pool h1"
    using P Some C quiet_pool[OF flush_tlb_quiet[OF E]] by (auto simp: RkMppEvtDpc_def Let_def)
  have "kick_outcome 0 p D h D1 h1" by (rule kick_outcome_complete[OF q Some same_view_refl refl C])
  then show ?thesis using Some by (simp add: D' kick_outcome_def)
qed

lemma sys_inv_dpc:
  assumes E: "env_iommu E = Some ifc" and inv: "sys_inv D h todo W" and t: "\<forall>p. (p, 0) \<notin> set todo"
    and P: "RkMppEvtDpc E D h = (D', h')"
  shows "sys_inv D' h' todo W"
proof -
  have q: "queue_inv D" by (rule sys_inv_shape[OF inv])
  have dis: "distinct todo" using inv by (simp add: sys_inv_def)
  from dpc_outcome[OF E q P] consider (view) "same_view D D'" "job_pool h' = job_pool h"
    | (fin) p keep where "InFlightPerCore (JobQueue D) ! 0 = Some p" "keep \<or> WaiterPin (jobs D p) \<le> 0"
        "same_view (finish_job keep 0 p D) D'" "job_pool h' = (if keep then job_pool h else job_pool h - {#p#})"
    unfolding kick_outcome_def by blast
  then show ?thesis
  proof cases
    case fin
    have "p \<in># jobs_mset (JobQueue D)" using fin(1) by (simp add: jobs_mset_def)
    then have "WaiterPin (jobs D p) = int (count W p)" using inv by (simp add: sys_inv_def)
    then have "keep \<or> p \<notin># W" using fin(2) by (auto simp: count_eq_zero_iff)
    then show ?thesis using sys_inv_finish[OF inv _ fin(1) subset_refl dis t _ fin(3,4)] by simp
  qed (use sys_inv_view[OF inv] in blast)
qed

lemma job_step_inv:
  assumes E: "env_iommu E = Some ifc" and fresh: "\<And>h p. k_pool (env_kernel E) h ''JppM'' = Some p \<Longrightarrow> p \<notin># job_pool h"
  shows "job_step E D h todo W D' h' todo' W' \<Longrightarrow> sys_inv D h todo W \<Longrightarrow> sys_inv D' h' todo' W'"
proof (induction rule: job_step.induct)
  case (submit File In D h jid promos D' h' todo W)
  then show ?case using sys_inv_submit[OF submit.prems submit.hyps(1) fresh] by simp
next
  case (submit_fails File In D h status D' h' todo W)
  then show ?case using sys_inv_submit[OF submit_fails.prems submit_fails.hyps(1) fresh] by simp
next
  case (kick p c todo D h D' h' W)
  then have c: "c < 2" "InFlightPerCore (JobQueue D) ! c = Some p" by (auto simp: sys_inv_def)
  show ?case
    by (rule sys_inv_kick[OF kick.prems kick.hyps(1)])
       (rule kick_one_outcome[OF E sys_inv_shape(2)[OF kick.prems] c kick.hyps(2)])
next
  case (isr D h claimed D' h' todo W)
  then show ?case using isr_view sys_inv_view by blast
next
  case (dpc todo D h D' h' W) then show ?case using sys_inv_dpc[OF E] by blast
next
  case (peer_done todo cookie res hw D h D' h' W) then show ?case using sys_inv_peer_done by blast
next
  case (worker_promote D promos D' h todo W)
  then show ?case using sys_inv_promote sys_inv_view[OF worker_promote.prems flag_view(1) refl] by blast
next
  case (worker_exit D h todo W) then show ?case using sys_inv_view flag_view(2) by blast
next
  case (wait_begin D File jid p h todo W)
  then show ?case using sys_inv_pin wait_lookup_in(1) sys_inv_shape(1) by blast
next
  case (wait_collect D File jid p W h todo)
  then show ?case using sys_inv_remove(2)[OF wait_collect.prems wait_collect.hyps(2)] wait_lookup_in(2) sys_inv_shape(1) by blast
next
  case (wait_timeout p W D h D' h' todo) then show ?case using sys_inv_wait_timeout by blast
next
  case (wait_done p W D h D' h' todo) then show ?case using sys_inv_wait_done by blast
next
  case (drain_lists D File W h D' h' todo) then show ?case using sys_inv_drain_lists by blast
next
  case (drain_pin p D File h todo W)
  then show ?case using sys_inv_pin find_slot_in sys_inv_shape(1) by blast
next
  case (drain_after p W File timedOut D h D' h' todo) then show ?case using sys_inv_drain_after by blast
next
  case (peer_arrives found D h D' h' todo W) then show ?case using sys_inv_arrival by blast
next
  case (peer_leaves D wt h D' h' todo W) then show ?case using sys_inv_detach by blast
qed

lemma job_reach_inv:
  assumes "env_iommu E = Some ifc" "\<And>h p. k_pool (env_kernel E) h ''JppM'' = Some p \<Longrightarrow> p \<notin># job_pool h"
  shows "job_reach E D h todo W \<Longrightarrow> sys_inv D h todo W"
proof (induction rule: job_reach.induct)
  case (start D q h) then show ?case by (rule sys_inv_start)
next
  case (step D h todo W D' h' todo' W') then show ?case using job_step_inv[OF assms] by blast
next
  case (others D h todo W h' P) then show ?case using sys_inv_view[OF _ bufs_view] by blast
qed

end

end
