(* ===== verification/Job_Live.thy ===== *)
theory Job_Live
  imports Job_System
begin

text \<open>
  Two more facts of every reachable state of the job queue: a pending job is always going to be looked at again,
  and the limits on pending and unfinished jobs are kept.
\<close>

section \<open>Progress\<close>

text \<open>
  While a job is pending, core 0 is busy, and its completion will arm the worker, or the worker is armed
  already. An armed worker has a run outstanding.
\<close>

definition lively :: "'s RKMPP_DEVICE \<Rightarrow> bool" where
  "lively D \<longleftrightarrow>
     (Pending (JobQueue D) \<noteq> [] \<longrightarrow> KickRearm (JobQueue D) \<or> InFlightPerCore (JobQueue D) ! 0 \<noteq> None) \<and>
     (KickRearm (JobQueue D) \<longrightarrow> KickActive (JobQueue D))"

text \<open>What liveliness looks at.\<close>

definition lview :: "'s RKMPP_DEVICE \<Rightarrow> _" where
  "lview D = (Pending (JobQueue D), KickRearm (JobQueue D), KickActive (JobQueue D), InFlightPerCore (JobQueue D) ! 0)"

lemma lively_cong: "lview D' = lview D \<Longrightarrow> lively D' = lively D"
  by (simp add: lview_def lively_def)

lemma lview_simps [simp]:
  "lview (upd_job p f D) = lview D" "lview (account_result res hw ow D) = lview D" "lview (charge_error ow D) = lview D"
  "lview (RkMppSetNeedsFullReset D) = lview D" "lview (kick_probe p D) = lview D"
  "lview (fst (kick_reset E D h)) = lview D"
  by (simp_all add: lview_def RkMppSetNeedsFullReset_def kick_probe_def Let_def)

lemma enqueue_lively: "lively (fst (RkMppEnqueueKickWorker D h))"
  by (simp add: lively_def RkMppEnqueueKickWorker_def Let_def)

lemma complete_lively:
  assumes "lively D"
  shows "lively (fst (RkMppJobComplete K res hw D h))"
proof (cases "InFlightPerCore (JobQueue D) ! 0")
  case (Some p)
  have a: "KickRearm (JobQueue D) \<longrightarrow> KickActive (JobQueue D)" using assms by (simp add: lively_def)
  show ?thesis
  proof (cases "Pending (JobQueue D) = []")
    case True
    then show ?thesis using Some a by (simp add: RkMppJobComplete_def Let_def lively_def release_core_def)
  next
    case False
    then show ?thesis using Some by (simp add: RkMppJobComplete_def Let_def enqueue_lively)
  qed
qed (use assms in \<open>simp add: RkMppJobComplete_def\<close>)

lemma peer_completion_lively:
  assumes "lively D"
  shows "lively (fst (RkMppPeerCompletion K cookie res hw D h))"
proof (cases "\<exists>p. InFlightPerCore (JobQueue D) ! 1 = Some p \<and> Id (jobs D p) = cookie")
  case True
  then obtain p where p: "InFlightPerCore (JobQueue D) ! 1 = Some p" "Id (jobs D p) = cookie" by blast
  have a: "KickRearm (JobQueue D) \<longrightarrow> KickActive (JobQueue D)" using assms by (simp add: lively_def)
  show ?thesis
  proof (cases "Pending (JobQueue D) = []")
    case True
    then show ?thesis using p a by (simp add: RkMppPeerCompletion_def Let_def lively_def release_core_def)
  next
    case False
    then show ?thesis using p by (simp add: RkMppPeerCompletion_def Let_def enqueue_lively)
  qed
next
  case False
  then show ?thesis using assms by (auto simp: RkMppPeerCompletion_def split: option.splits)
qed

lemma kick_program_lively: "lively D \<Longrightarrow> lively (fst (kick_program E p D h))"
  by (auto simp: kick_program_def Let_def intro!: complete_lively)

lemma kick_local_lively:
  assumes "lively D"
  shows "lively (fst (JobKickLocalInner E p D h))"
proof -
  let ?D0 = "upd_job p (\<lambda>j. j\<lparr>StartQpc := k_qpc (env_kernel E) h\<rparr>) D"
  have 0: "lively ?D0" using assms lively_cong[of ?D0 D] by simp
  obtain D2 h2 where r: "kick_reset E (kick_probe p ?D0) h = (D2, h2)" by (rule prod.exhaust)
  have "lview D2 = lview D" using lview_simps(6)[of E "kick_probe p ?D0" h] by (simp add: r)
  then have "lively D2" using assms lively_cong by blast
  then show ?thesis using complete_lively[OF 0] kick_program_lively[of D2 E p]
    by (auto simp: JobKickLocalInner_def Let_def r)
qed

lemma kick_one_lively:
  assumes "lively D"
  shows "lively (fst (kick_one E (p, c) (D, h)))"
proof (cases "c = 0")
  case True
  then show ?thesis using kick_local_lively[OF assms] by (simp add: kick_one_def)
next
  case False
  have "lview (fail_peer_kick p c st D) = lview D" for st
    using False by (simp add: fail_peer_kick_def lview_def release_core_def)
  then have "lively (fail_peer_kick p c st D)" for st using assms lively_cong by blast
  then show ?thesis using False assms by (simp add: kick_one_def Let_def)
qed

lemma promote_lively:
  assumes "queue_inv D" "PromoteUntilFull D = (promos, D')" "KickRearm (JobQueue D) \<longrightarrow> KickActive (JobQueue D)"
  shows "lively D'"
proof -
  note pr = promote_until_full_inv[OF assms(1,2)]
  have "CoreCount (JobQueue D') > 0" using queue_inv_shape[OF pr(1)] by (auto simp: shape_ok_def)
  then have "Pending (JobQueue D') \<noteq> [] \<Longrightarrow> InFlightPerCore (JobQueue D') ! 0 \<noteq> None"
    using pr(3) by (auto simp: idle_cores_def)
  then show ?thesis using pr(2) assms(3) by (simp add: lively_def promoted_def)
qed

text \<open>Steps that only take jobs off the lists or touch the flags of single jobs.\<close>

lemma lively_shrink:
  assumes "lively D" "Pending (JobQueue D) = [] \<longrightarrow> Pending (JobQueue D') = []"
    "KickRearm (JobQueue D') = KickRearm (JobQueue D)" "KickActive (JobQueue D') = KickActive (JobQueue D)"
    "InFlightPerCore (JobQueue D') = InFlightPerCore (JobQueue D)"
  shows "lively D'"
  using assms by (auto simp: lively_def)

lemma orphan_slots_queue [simp]: "JobQueue (orphan_slots File D) = JobQueue D"
proof -
  have "JobQueue (fold (\<lambda>s D. case s of None \<Rightarrow> D | Some p \<Rightarrow> (if Owner (jobs D p) = Some File
      then upd_job p (\<lambda>j. j\<lparr>OutputFrameMdl := None, ColmvCurMdl := None, OrphanOnComplete := True\<rparr>) D else D)) ss D)
      = JobQueue D" for ss and D :: "'a RKMPP_DEVICE"
    by (induction ss arbitrary: D) (auto split: option.splits)
  then show ?thesis by (simp add: orphan_slots_def)
qed

lemma lively_same_queue: "lively D \<Longrightarrow> lview D' = lview D \<Longrightarrow> lively D'"
  using lively_cong by blast

lemma submit_lively:
  assumes "submit_locked K File In D h = (r, D', h')" "lively D" "sys_inv D h todo W"
    "\<And>p. k_pool K h ''JppM'' = Some p \<Longrightarrow> p \<notin># job_pool h"
  shows "lively D'"
  using assms(1)
proof (cases rule: submit_cases)
  case (busy p j jid)
  show ?thesis by (rule lively_same_queue[OF assms(2)]) (simp add: lview_def busy(3))
next
  case (queued p j jid promos)
  show ?thesis
    by (rule promote_lively[OF sys_inv_shape(2)[OF submit_queued_inv[OF assms(3) assms(4)[OF queued(1)] queued(3)]] queued(6)])
       (use assms(2) in \<open>simp add: lively_def\<close>)
qed (use assms(2) in simp)

lemma wait_timeout_lively:
  assumes "lively D" "wait_timeout p D h = (D', h')"
  shows "lively D'"
  by (rule lively_shrink[OF assms(1)])
     (use assms(2) in \<open>auto simp: wait_timeout_def Let_def unpin_def split: if_splits\<close>)

lemma dpc_lively:
  assumes "lively D" "RkMppEvtDpc E D h = (D', h')"
  shows "lively D'"
proof (cases "InFlightPerCore (JobQueue D) ! 0")
  case None
  then show ?thesis using assms by (simp add: RkMppEvtDpc_def Let_def)
next
  case (Some p)
  let ?hw = "LastIsrHwStatus (JobQueue D)"
  define res where "res = (if ?hw AND RKVDEC2_INT_ERROR_MASK \<noteq> 0 then STATUS_DEVICE_HARDWARE_ERROR else STATUS_SUCCESS)"
  obtain D1 h1 where C: "RkMppJobComplete (env_kernel E) res ?hw D h = (D1, h1)" by (rule prod.exhaust)
  have "D' = D1" using assms(2) Some C unfolding RkMppEvtDpc_def Let_def res_def[symmetric] by simp
  then show ?thesis using complete_lively[OF assms(1), of "env_kernel E" res ?hw h] C by simp
qed

lemma drain_after_lively:
  assumes "lively D" "drain_after_wait File p timedOut D h = (D', h')"
  shows "lively D'"
proof -
  define D2 where "D2 = (if timedOut then orphan_slots File (unpin p D) else unpin p D)"
  have q: "JobQueue D2 = JobQueue D" by (simp add: D2_def unpin_def)
  have "\<exists>C. D' = upd_q (\<lambda>q. q\<lparr>Completed := filter C (Completed q)\<rparr>) D2"
    using assms(2) by (auto simp: drain_after_wait_def Let_def D2_def)
  then show ?thesis by (auto intro!: lively_shrink[OF assms(1)] simp: q)
qed

context quiet_iommu
begin

lemma job_step_lively:
  assumes E: "env_iommu E = Some ifc" and fresh: "\<And>h p. k_pool (env_kernel E) h ''JppM'' = Some p \<Longrightarrow> p \<notin># job_pool h"
  shows "job_step E D h todo W D' h' todo' W' \<Longrightarrow> sys_inv D h todo W \<Longrightarrow> lively D \<Longrightarrow> lively D'"
proof (induction rule: job_step.induct)
  case (submit File In D h jid promos D' h' todo W)
  then show ?case using submit_lively[OF submit.hyps(1) submit.prems(2,1) fresh] by blast
next
  case (submit_fails File In D h status D' h' todo W)
  then show ?case using submit_lively[OF submit_fails.hyps(1) submit_fails.prems(2,1) fresh] by blast
next
  case (kick p c todo D h D' h' W)
  then show ?case using kick_one_lively[OF kick.prems(2), of E p c h] by simp
next
  case (isr D h claimed D' h' todo W)
  then have "lview D' = lview D" by (auto simp: RkMppEvtIsr_def Let_def lview_def split: if_splits)
  then show ?case by (rule lively_same_queue[OF isr.prems(2)])
next
  case (dpc todo D h D' h' W) then show ?case using dpc_lively by blast
next
  case (peer_done todo cookie res hw D h D' h' W)
  then show ?case using peer_completion_lively[OF peer_done.prems(2), of "env_kernel E" cookie res hw h] by simp
next
  case (worker_promote D promos D' h todo W)
  have "queue_inv (upd_q (\<lambda>q. q\<lparr>KickRearm := False\<rparr>) D)"
    using sys_inv_shape(2)[OF sys_inv_view[OF worker_promote.prems(1) flag_view(1) refl]] .
  then show ?case by (rule promote_lively[OF _ worker_promote.hyps(2)]) simp
next
  case (worker_exit D h todo W) then show ?case by (simp add: lively_def)
next
  case (wait_begin D File jid p h todo W) then show ?case by (simp add: lively_def pin_def)
next
  case (wait_collect D File jid p W h todo) then show ?case by (simp add: lively_def)
next
  case (wait_timeout p W D h D' h' todo) then show ?case using wait_timeout_lively by blast
next
  case (wait_done p W D h D' h' todo)
  show ?case by (rule lively_shrink[OF wait_done.prems(2)]) (use wait_done.hyps(3) in \<open>auto simp: wait_done_def Let_def unpin_def split: if_splits\<close>)
next
  case (drain_lists D File W h D' h' todo)
  show ?case by (rule lively_shrink[OF drain_lists.prems(2)]) (use drain_lists.hyps(2) in \<open>auto simp: drain_lists_def Let_def\<close>)
next
  case (drain_pin p D File h todo W) then show ?case by (simp add: lively_def pin_def)
next
  case (drain_after p W File timedOut D h D' h' todo) then show ?case using drain_after_lively by blast
next
  case (peer_arrives found D h D' h' todo W)
  show ?case by (rule lively_shrink[OF peer_arrives.prems(2)])
    (use peer_arrives.hyps(1) in \<open>auto simp: RkMppPeerArrival_def Let_def split: if_splits option.splits\<close>)
next
  case (peer_leaves D wt h D' h' todo W)
  show ?case by (rule lively_shrink[OF peer_leaves.prems(2)])
    (use peer_leaves.hyps(1,2) in \<open>auto simp: RkMppDetachPeer_def Let_def split: if_splits option.splits\<close>)
qed

lemma job_reach_lively:
  assumes "env_iommu E = Some ifc" "\<And>h p. k_pool (env_kernel E) h ''JppM'' = Some p \<Longrightarrow> p \<notin># job_pool h"
  shows "job_reach E D h todo W \<Longrightarrow> lively D"
proof (induction rule: job_reach.induct)
  case (start D q h) then show ?case by (simp add: lively_def RkMppJobQueueInit_def)
next
  case (step D h todo W D' h' todo' W') then show ?case using job_step_lively[OF assms] job_reach_inv[OF assms] by blast
next
  case (others D h todo W h' P) then show ?case by (simp add: lively_def)
qed

end

section \<open>Admission\<close>

text \<open>The jobs of the queue that have not completed, and how many of them a file owns.\<close>

definition unfinished :: "RKMPP_JOB_QUEUE \<Rightarrow> ptr multiset" where
  "unfinished q = mset (Pending q) + slot_mset (InFlightPerCore q ! 0) + slot_mset (InFlightPerCore q ! 1)"

definition owned :: "'s RKMPP_DEVICE \<Rightarrow> ptr \<Rightarrow> nat" where
  "owned D File = size (filter_mset (\<lambda>p. Owner (jobs D p) = Some File) (unfinished (JobQueue D)))"

lemma admission_loop_full:
  "admission_loop mine xs pc oc = (pc', oc') \<Longrightarrow>
     (pc' \<ge> 8 \<or> oc' \<ge> 4) \<longleftrightarrow> (pc + length xs \<ge> 8 \<or> oc + length (filter mine xs) \<ge> 4)"
  by (induction mine xs pc oc rule: admission_loop.induct) (auto simp: Let_def split: if_splits)

text \<open>The early stop of the count does not change the decision.\<close>

lemma admission_full_iff:
  assumes "queue_inv D"
  shows "admission_full D File \<longleftrightarrow> length (Pending (JobQueue D)) \<ge> 8 \<or> owned D File \<ge> 4"
proof -
  let ?q = "JobQueue D" and ?mine = "\<lambda>p. Owner (jobs D p) = Some File"
  obtain a b x y where s: "InFlightPerCore ?q = [a, b]" by (rule shape_ok_slots[OF queue_inv_shape[OF assms]])
  have "CoreCount ?q = 2 \<or> CoreCount ?q = 1 \<and> b = None"
    using assms s by (cases b) (auto simp: queue_inv_def shape_ok_def cores_ok_def core_ok_def)
  then have "length (filter (\<lambda>s. case s of None \<Rightarrow> False | Some p \<Rightarrow> ?mine p) (active_slots ?q)) =
      size (filter_mset ?mine (slot_mset a + slot_mset b))"
    by (cases a; cases b) (auto simp: active_slots_def s)
  moreover obtain pc oc where L: "admission_loop ?mine (Pending ?q) 0
      (length (filter (\<lambda>s. case s of None \<Rightarrow> False | Some p \<Rightarrow> ?mine p) (active_slots ?q))) = (pc, oc)"
    by (rule prod.exhaust)
  moreover have "size (filter_mset ?mine (mset (Pending ?q))) = length (filter ?mine (Pending ?q))"
    by (metis mset_filter size_mset)
  ultimately show ?thesis using admission_loop_full[OF L]
    by (simp add: admission_full_def Let_def owned_def unfinished_def s add.commute add.left_commute)
qed

text \<open>The two limits, and what keeps them: the unfinished jobs only shrink, outside of submission.\<close>

definition bounded :: "'s RKMPP_DEVICE \<Rightarrow> bool" where
  "bounded D \<longleftrightarrow> length (Pending (JobQueue D)) \<le> 8 \<and> (\<forall>f. owned D f \<le> 4)"

lemma bounded_shrink:
  assumes "bounded D" "unfinished (JobQueue D') \<subseteq># unfinished (JobQueue D)"
    "length (Pending (JobQueue D')) \<le> length (Pending (JobQueue D))" "\<And>p. Owner (jobs D' p) = Owner (jobs D p)"
  shows "bounded D'"
proof -
  have "owned D' f \<le> owned D f" for f
    unfolding owned_def assms(4) by (rule size_mset_mono[OF multiset_filter_mono[OF assms(2)]])
  then show ?thesis using assms(1,3) unfolding bounded_def by (meson order_trans)
qed

lemma bounded_view: "bounded D \<Longrightarrow> same_view D D' \<Longrightarrow> bounded D'"
  by (rule bounded_shrink) (auto simp: same_view_def qview_def jview_def unfinished_def)

lemma bounded_job:
  "bounded D \<Longrightarrow> (\<And>j. Owner (f j) = Owner j) \<Longrightarrow> bounded (upd_job p f D)"
  by (rule bounded_shrink) auto

lemma bounded_finish:
  assumes "bounded D" "queue_inv D" "c < 2" "InFlightPerCore (JobQueue D) ! c = Some p"
  shows "bounded (finish_job keep c p D)"
proof -
  obtain a b x y where s: "InFlightPerCore (JobQueue D) = [a, b]" by (rule shape_ok_slots[OF queue_inv_shape[OF assms(2)]])
  show ?thesis
    by (rule bounded_shrink[OF assms(1)])
       (use assms(3,4) in \<open>auto simp: finish_job_frame unfinished_def s less_2_cases_iff\<close>)
qed

lemma bounded_promote:
  assumes "bounded D" "queue_inv D" "PromoteUntilFull D = (promos, D')"
  shows "bounded D'"
proof -
  have pr: "promoted D D' promos" by (rule promote_until_full_inv[OF assms(2,3)])
  have u: "jobs_mset q = unfinished q + mset (Completed q)" for q by (simp add: jobs_mset_def unfinished_def ac_simps)
  have "unfinished (JobQueue D') + mset (Completed (JobQueue D)) = unfinished (JobQueue D) + mset (Completed (JobQueue D))"
    using pr u[of "JobQueue D"] u[of "JobQueue D'"] unfolding promoted_def by argo
  then have "unfinished (JobQueue D') = unfinished (JobQueue D)" by simp
  moreover have "length (Pending (JobQueue D')) \<le> length (Pending (JobQueue D))"
    using promote_loop_pending assms(3) unfolding PromoteUntilFull_def by blast
  moreover have "Owner (jobs D' p) = Owner (jobs D p)" for p
  proof -
    obtain t where "jobs D' p = (jobs D p)\<lparr>TargetCore := t\<rparr>" using pr unfolding promoted_def by blast
    then show ?thesis by simp
  qed
  ultimately show ?thesis using bounded_shrink[OF assms(1), of D'] by simp
qed

lemma bounded_keep: "bounded D \<Longrightarrow> bounded (keep_jobs P C D)"
  by (rule bounded_shrink) (auto simp: keep_jobs_def unfinished_def multiset_filter_subset)

lemma bounded_remove: "bounded D \<Longrightarrow> queue_inv D \<Longrightarrow>
    bounded (upd_q (\<lambda>q. q\<lparr>Pending := remove1 p (Pending q)\<rparr>) D) \<and>
    bounded (upd_q (\<lambda>q. q\<lparr>Completed := remove1 p (Completed q)\<rparr>) D)"
  by (simp add: remove_is_keep bounded_keep)

lemma bounded_outcome:
  assumes "bounded D" "queue_inv D" "c < 2" "InFlightPerCore (JobQueue D) ! c = Some p" "kick_outcome c p D h D' h'"
  shows "bounded D'"
  using assms(5) bounded_view[OF assms(1)] bounded_view[OF bounded_finish[OF assms(1-4)]] unfolding kick_outcome_def by blast

lemma bounded_enqueue:
  assumes "bounded D" "\<not> admission_full (upd_job p (\<lambda>_. j) D) File" "queue_inv (upd_job p (\<lambda>_. j) D)"
    "Owner j = Some File" "p \<notin># unfinished (JobQueue D)"
  shows "bounded (upd_q (\<lambda>q. q\<lparr>Pending := Pending q @ [p]\<rparr>) (upd_job p (\<lambda>_. j) D))"
proof -
  let ?D1 = "upd_job p (\<lambda>_. j) D" and ?D2 = "upd_q (\<lambda>q. q\<lparr>Pending := Pending q @ [p]\<rparr>) (upd_job p (\<lambda>_. j) D)"
  have room: "length (Pending (JobQueue D)) < 8" "owned ?D1 File < 4"
    using assms(2) admission_full_iff[OF assms(3)] by auto
  have "filter_mset (\<lambda>x. Owner (jobs ?D1 x) = Some f) (unfinished (JobQueue D)) =
      filter_mset (\<lambda>x. Owner (jobs D x) = Some f) (unfinished (JobQueue D))" for f
    by (rule filter_mset_cong[OF refl]) (use assms(5) in auto)
  then have same: "owned ?D1 f = owned D f" for f by (simp add: owned_def)
  have "unfinished (JobQueue ?D2) = add_mset p (unfinished (JobQueue D))" by (simp add: unfinished_def)
  then have "owned ?D2 f = owned ?D1 f + (if f = File then 1 else 0)" for f
    using assms(4) by (auto simp: owned_def)
  then have "owned ?D2 f \<le> 4" for f using room same assms(1) by (auto simp: bounded_def)
  then show ?thesis using room by (simp add: bounded_def)
qed

lemma bounded_wait_timeout:
  assumes "bounded D" "queue_inv D" "wait_timeout p D h = (D', h')"
  shows "bounded D'"
proof -
  have u: "bounded (unpin p D)" "queue_inv (unpin p D)"
    using bounded_job[OF assms(1)] queue_inv_upd_job[OF assms(2)] by (auto simp: unpin_def)
  show ?thesis using assms(3) u(1) bounded_remove[OF u, of p] bounded_job[OF u(1)]
    by (auto simp: wait_timeout_def Let_def split: if_splits)
qed

lemma bounded_drain_after:
  assumes "bounded D" "drain_after_wait File p timedOut D h = (D', h')"
  shows "bounded D'"
proof -
  have fold: "bounded (fold (\<lambda>s D. case s of None \<Rightarrow> D | Some p \<Rightarrow> (if Owner (jobs D p) = Some File
      then upd_job p (\<lambda>j. j\<lparr>OutputFrameMdl := None, ColmvCurMdl := None, OrphanOnComplete := True\<rparr>) D else D)) ss D)"
    if "bounded D" for ss and D :: "'a RKMPP_DEVICE"
    using that by (induction ss arbitrary: D) (auto split: option.splits simp: bounded_job)
  have u: "bounded (unpin p D)" using bounded_job[OF assms(1)] by (simp add: unpin_def)
  define D2 where "D2 = (if timedOut then orphan_slots File (unpin p D) else unpin p D)"
  have b: "bounded D2" using u fold[OF u] by (simp add: D2_def orphan_slots_def)
  have "\<exists>C. D' = keep_jobs (\<lambda>_. True) C D2"
    using assms(2) by (auto simp: drain_after_wait_def keep_jobs_def Let_def D2_def)
  then show ?thesis using bounded_keep[OF b] by blast
qed

context quiet_iommu
begin

lemma job_step_bounded:
  assumes E: "env_iommu E = Some ifc" and fresh: "\<And>h p. k_pool (env_kernel E) h ''JppM'' = Some p \<Longrightarrow> p \<notin># job_pool h"
  shows "job_step E D h todo W D' h' todo' W' \<Longrightarrow> sys_inv D h todo W \<Longrightarrow> bounded D \<Longrightarrow> bounded D'"
proof (induction rule: job_step.induct)
  case (submit File In D h jid promos D' h' todo W)
  note inv = submit.prems(1)
  from submit.hyps(1) show ?case
  proof (cases rule: submit_cases)
    case (queued p j jid' promos')
    let ?D0 = "upd_q (\<lambda>q. q\<lparr>NextId := jid'\<rparr>) D"
    have n: "p \<notin># job_pool h" by (rule fresh[OF queued(1)])
    have b: "bounded ?D0" by (rule bounded_shrink[OF submit.prems(2)]) (simp_all add: unfinished_def)
    have u: "p \<notin># unfinished (JobQueue ?D0)" using n inv by (auto simp: sys_inv_def unfinished_def jobs_mset_def)
    have q: "queue_inv (upd_job p (\<lambda>_. j\<lparr>Id := jid'\<rparr>) ?D0)" by (rule sys_inv_shape(2)[OF sys_inv_other[OF inv n]])
    have o: "Owner (j\<lparr>Id := jid'\<rparr>) = Some File"
      using build_job_fields(1)[OF queued(3)] by (simp add: job_frame_def)
    show ?thesis
      by (rule bounded_promote[OF bounded_enqueue[OF b queued(5) q o u]
            sys_inv_shape(2)[OF submit_queued_inv[OF inv n queued(3)]] queued(6)])
  qed simp_all
next
  case (submit_fails File In D h status D' h' todo W)
  note inv = submit_fails.prems(1)
  from submit_fails.hyps(1) show ?case
  proof (cases rule: submit_cases)
    case (busy p j jid)
    have "p \<notin># unfinished (JobQueue D)" using fresh[OF busy(1)] inv by (auto simp: sys_inv_def unfinished_def jobs_mset_def)
    then have "filter_mset (\<lambda>x. Owner (jobs D' x) = Some f) (unfinished (JobQueue D')) =
        filter_mset (\<lambda>x. Owner (jobs D x) = Some f) (unfinished (JobQueue D))" for f
      by (intro filter_mset_cong) (auto simp: busy(3) unfinished_def)
    then show ?thesis using submit_fails.prems(2) by (simp add: bounded_def owned_def busy(3))
  qed (use submit_fails.prems(2) in auto)
next
  case (kick p c todo D h D' h' W)
  note inv = kick.prems(1)
  have c: "c < 2" "InFlightPerCore (JobQueue D) ! c = Some p" using inv kick.hyps(1) by (auto simp: sys_inv_def)
  note q = sys_inv_shape(2)[OF inv]
  show ?case by (rule bounded_outcome[OF kick.prems(2) q c kick_one_outcome[OF E q c kick.hyps(2)]])
next
  case (isr D h claimed D' h' todo W) then show ?case using isr_view bounded_view by blast
next
  case (dpc todo D h D' h' W)
  note q = sys_inv_shape(2)[OF dpc.prems(1)]
  show ?case using dpc_outcome[OF E q dpc.hyps(2)] bounded_view[OF dpc.prems(2)] bounded_outcome[OF dpc.prems(2) q] by fastforce
next
  case (peer_done todo cookie res hw D h D' h' W)
  note q = sys_inv_shape(2)[OF peer_done.prems(1)]
  show ?case
  proof (cases "\<exists>p. InFlightPerCore (JobQueue D) ! 1 = Some p \<and> Id (jobs D p) = cookie")
    case True
    then obtain p where p: "InFlightPerCore (JobQueue D) ! 1 = Some p" "Id (jobs D p) = cookie" by blast
    show ?thesis
      using bounded_view[OF bounded_finish[OF peer_done.prems(2) q _ p(1)] peer_completion_view(1)[OF p, of "env_kernel E" res hw h]]
        peer_done.hyps(2) by simp
  next
    case False
    then show ?thesis using peer_done by (auto simp: RkMppPeerCompletion_def split: option.splits)
  qed
next
  case (worker_promote D promos D' h todo W)
  note i = sys_inv_view[OF worker_promote.prems(1) flag_view(1) refl]
  show ?case by (rule bounded_promote[OF bounded_view[OF worker_promote.prems(2) flag_view(1)] sys_inv_shape(2)[OF i] worker_promote.hyps(2)])
next
  case (worker_exit D h todo W) then show ?case using bounded_view flag_view(2) by blast
next
  case (wait_begin D File jid p h todo W) then show ?case by (simp add: pin_def bounded_job)
next
  case (wait_collect D File jid p W h todo)
  show ?case using bounded_remove[OF wait_collect.prems(2) sys_inv_shape(2)[OF wait_collect.prems(1)]] by blast
next
  case (wait_timeout p W D h D' h' todo)
  show ?case by (rule bounded_wait_timeout[OF wait_timeout.prems(2) sys_inv_shape(2)[OF wait_timeout.prems(1)] wait_timeout.hyps(2)])
next
  case (wait_done p W D h D' h' todo)
  have "bounded (unpin p D)" "queue_inv (unpin p D)"
    using bounded_job[OF wait_done.prems(2)] queue_inv_upd_job[OF sys_inv_shape(2)[OF wait_done.prems(1)]]
    by (auto simp: unpin_def)
  then show ?case using wait_done.hyps(3) bounded_remove[of "unpin p D" p] by (auto simp: wait_done_def Let_def split: if_splits)
next
  case (drain_lists D File W h D' h' todo)
  then show ?case using bounded_keep[of D] by (auto simp: drain_lists_def keep_jobs_def Let_def)
next
  case (drain_pin p D File h todo W) then show ?case by (simp add: pin_def bounded_job)
next
  case (drain_after p W File timedOut D h D' h' todo) then show ?case using bounded_drain_after by blast
next
  case (peer_arrives found D h D' h' todo W)
  show ?case by (rule bounded_shrink[OF peer_arrives.prems(2)])
    (use peer_arrives.hyps(1) in \<open>auto simp: RkMppPeerArrival_def Let_def unfinished_def split: if_splits option.splits\<close>)
next
  case (peer_leaves D wt h D' h' todo W)
  show ?case by (rule bounded_shrink[OF peer_leaves.prems(2)])
    (use peer_leaves.hyps(1,2) in \<open>auto simp: RkMppDetachPeer_def Let_def unfinished_def split: if_splits option.splits\<close>)
qed

lemma job_reach_bounded:
  assumes "env_iommu E = Some ifc" "\<And>h p. k_pool (env_kernel E) h ''JppM'' = Some p \<Longrightarrow> p \<notin># job_pool h"
  shows "job_reach E D h todo W \<Longrightarrow> bounded D"
proof (induction rule: job_reach.induct)
  case (start D q h) then show ?case by (simp add: bounded_def owned_def unfinished_def RkMppJobQueueInit_def)
next
  case (step D h todo W D' h' todo' W') then show ?case using job_step_bounded[OF assms] job_reach_inv[OF assms] by blast
next
  case (others D h todo W h' P) then show ?case using bounded_view bufs_view by blast
qed

end

end
