(* ===== verification/Job_Props.thy ===== *)
theory Job_Props
  imports Job_Live
begin

text \<open>
  The properties of the job queue: soundness of every reachable state, no lost wake-up, admission, buffers in
  use, the register sequence of a kick, the outcome of waits and drains.
\<close>

section \<open>Every reachable state\<close>



text \<open>A concrete system: an allocator that refuses rather than reuse a live address, and one submission.\<close>

definition fresh_kernel :: kernel where
  "fresh_kernel = demo_kernel\<lparr>k_pool := (\<lambda>h t. if length h \<in># job_pool h then None else Some (length h))\<rparr>"

definition demo_env :: "RKIOMMU_DEVICE kick_env" where
  "demo_env = \<lparr>env_kernel = fresh_kernel, env_iommu = Some vdec_codec_ifc, env_peer = None\<rparr>"

definition demo_start :: "RKIOMMU_DEVICE RKMPP_DEVICE" where
  "demo_start = demo_codec\<lparr>JobQueue := RkMppJobQueueInit demo_queue, bufs := demo_pool\<lparr>files := (\<lambda>_. demo_ctx)\<rparr>\<rparr>"

lemma demo_env_fresh: "\<forall>h p. k_pool (env_kernel demo_env) h ''JppM'' = Some p \<longrightarrow> p \<notin># job_pool h"
  by (auto simp: demo_env_def fresh_kernel_def split: if_splits)

lemma demo_env_sel: "env_iommu demo_env = Some vdec_codec_ifc" "env_kernel demo_env = fresh_kernel"
  by (simp_all add: demo_env_def)

lemma promote_bufs: "PromoteUntilFull D = (promos, D') \<Longrightarrow> bufs D' = bufs D"
proof -
  have "promote_loop n D out = (out', D') \<Longrightarrow> bufs D' = bufs D" for n out out' and D :: "'a RKMPP_DEVICE"
    by (induction n D out rule: promote_loop.induct)
       (auto simp: Let_def promote_one_def upd_q_def upd_job_def split: if_splits prod.splits option.splits)
  then show "PromoteUntilFull D = (promos, D') \<Longrightarrow> bufs D' = bufs D" unfolding PromoteUntilFull_def by blast
qed

text \<open>A well-formed submission is accepted while fewer than four jobs are allocated.\<close>

lemma submit_accepts:
  assumes inv: "sys_inv D h todo W" and B: "build_job (files (bufs D) File) File In = Inr j"
    and lim: "InIovaSlotCount In \<le> 64" "InBufRefCount In \<le> 16" "InKickValue In AND 1 \<noteq> 0"
    and few: "size (job_pool h) < 4" and p: "k_pool fresh_kernel h ''JppM'' = Some p"
  shows "\<exists>jid promos D'. submit_locked fresh_kernel File In D h = (Inr (jid, promos), D', Acquire (Pool ''JppM'' p) # h) \<and>
    bufs D' = bufs D \<and> Completed (JobQueue D') = Completed (JobQueue D) \<and> CoreCount (JobQueue D') = CoreCount (JobQueue D) \<and>
    (\<exists>t. jobs D' p = j\<lparr>Id := jid, TargetCore := t\<rparr>)"
proof -
  obtain r D' h' where S: "submit_locked fresh_kernel File In D h = (r, D', h')" by (metis prod.exhaust)
  have n: "p \<notin># job_pool h" using p by (auto simp: fresh_kernel_def split: if_splits)
  from S show ?thesis
  proof (cases rule: submit_cases)
    case (queued p' j' jid promos)
    have e: "p' = p" "j' = j" using queued(1,3) p B by simp_all
    note pr = promote_until_full_inv(2)[OF sys_inv_shape(2)[OF submit_queued_inv[OF inv n B]] queued(6)[unfolded e]]
    have "Completed (JobQueue D') = Completed (JobQueue D) \<and> CoreCount (JobQueue D') = CoreCount (JobQueue D)"
      using pr unfolding promoted_def by simp
    moreover have "\<exists>t. jobs D' p = j\<lparr>Id := jid, TargetCore := t\<rparr>"
    proof -
      have "\<forall>x. \<exists>t. jobs D' x = (jobs (upd_q (\<lambda>q. q\<lparr>Pending := Pending q @ [p]\<rparr>)
          (upd_job p (\<lambda>_. j\<lparr>Id := jid\<rparr>) (upd_q (\<lambda>q. q\<lparr>NextId := jid\<rparr>) D))) x)\<lparr>TargetCore := t\<rparr>"
        using pr unfolding promoted_def by blast
      from this[rule_format, of p] show ?thesis by simp
    qed
    ultimately show ?thesis using S queued(2,7) e promote_bufs[OF queued(6)] by (auto simp: upd_q_def upd_job_def)
  next
    case early
    then show ?thesis using B p lim by (auto simp: not_less[symmetric])
  next
    case (busy p' j' jid)
    have e: "p' = p" using busy(1) p by simp
    have q: "queue_inv D'" unfolding busy(3) e by (rule sys_inv_shape(2)[OF sys_inv_other[OF inv n]])
    have le: "unfinished (JobQueue D') \<subseteq># job_pool h" using inv by (simp add: busy(3) sys_inv_def jobs_mset_def unfinished_def)
    have "owned D' File \<le> size (unfinished (JobQueue D'))" by (simp add: owned_def size_filter_mset_lesseq)
    moreover have "length (Pending (JobQueue D')) \<le> size (unfinished (JobQueue D'))" by (simp add: unfinished_def)
    ultimately show ?thesis using admission_full_iff[OF q] busy(5) size_mset_mono[OF le] few by auto
  qed
qed

lemma demo_submit:
  assumes "sys_inv D h todo W" "files (bufs D) 7 = demo_ctx" "size (job_pool h) < 4" "k_pool fresh_kernel h ''JppM'' = Some p"
  shows "\<exists>jid promos D'. submit_locked fresh_kernel 7 demo_in D h = (Inr (jid, promos), D', Acquire (Pool ''JppM'' p) # h) \<and>
    files (bufs D') 7 = demo_ctx \<and> Completed (JobQueue D') = Completed (JobQueue D) \<and> CoreCount (JobQueue D') = CoreCount (JobQueue D)"
proof -
  obtain j where "build_job (files (bufs D) 7) 7 demo_in = Inr j" using demo_builds assms(2) by auto
  from submit_accepts[OF assms(1) this _ _ _ assms(3,4)] assms(2) show ?thesis by (auto simp: demo_in_def)
qed

lemma demo_reach:
  "\<exists>D todo. job_reach demo_env D [Acquire (Pool ''JppM'' 1), Acquire (Pool ''JppM'' 0)] todo {#} \<and>
     Pending (JobQueue D) \<noteq> []"
proof -
  have inv: "sys_inv D h todo W" if "job_reach demo_env D h todo W" for D h todo W
    by (rule vdecq.job_reach_inv[OF demo_env_sel(1) _ that]) (use demo_env_fresh in blast)
  have start: "job_reach demo_env demo_start [] [] {#}" by (rule job_reach.start) (simp_all add: demo_start_def)
  let ?h1 = "[Acquire (Pool ''JppM'' 0)]" and ?h2 = "[Acquire (Pool ''JppM'' 1), Acquire (Pool ''JppM'' 0)]"
  have pool: "k_pool fresh_kernel [] ''JppM'' = Some 0" "k_pool fresh_kernel ?h1 ''JppM'' = Some 1"
    by (simp_all add: fresh_kernel_def)
  have c0: "Completed (JobQueue demo_start) = []" "CoreCount (JobQueue demo_start) = 1" "files (bufs demo_start) 7 = demo_ctx"
    by (simp_all add: demo_start_def RkMppJobQueueInit_def)
  obtain jid promos D1 where D1: "submit_locked fresh_kernel 7 demo_in demo_start [] = (Inr (jid, promos), D1, ?h1)"
    "files (bufs D1) 7 = demo_ctx" "Completed (JobQueue D1) = []" "CoreCount (JobQueue D1) = 1"
    using demo_submit[OF inv[OF start] c0(3) _ pool(1)] by (auto simp: c0)
  have r1: "job_reach demo_env D1 ?h1 promos {#}" using job_reach.step[OF start job_step.submit[of demo_env 7 demo_in]] D1(1) demo_bank_ok by (simp add: demo_env_sel)
  obtain jid2 promos2 D2 where D2: "submit_locked fresh_kernel 7 demo_in D1 ?h1 = (Inr (jid2, promos2), D2, ?h2)"
    "Completed (JobQueue D2) = []" "CoreCount (JobQueue D2) = 1"
    using demo_submit[OF inv[OF r1] D1(2) _ pool(2)] by (auto simp: D1)
  have r2: "job_reach demo_env D2 ?h2 (promos @ promos2) {#}" using job_reach.step[OF r1 job_step.submit[of demo_env 7 demo_in]] D2(1) demo_bank_ok by (simp add: demo_env_sel)
  have i: "jobs_mset (JobQueue D2) = {#1, 0#}" "queue_inv D2" using inv[OF r2] by (simp_all add: sys_inv_def)
  have "core_ok (jobs D2) (JobQueue D2) 1" using i(2) by (simp add: queue_inv_def cores_ok_def)
  then have "slot_mset (InFlightPerCore (JobQueue D2) ! 1) = {#}"
    using D2(3) by (cases "InFlightPerCore (JobQueue D2) ! 1") (auto simp: core_ok_def)
  moreover have "size (slot_mset (InFlightPerCore (JobQueue D2) ! 0)) \<le> 1" by (cases "InFlightPerCore (JobQueue D2) ! 0") simp_all
  moreover have "size (jobs_mset (JobQueue D2)) = 2" by (simp add: i(1))
  ultimately have "Pending (JobQueue D2) \<noteq> []" using D2(2) by (auto simp: jobs_mset_def)
  then show ?thesis using r2 by blast
qed



section \<open>Admission\<close>



end
