(* ===== verification/Mpp_System.thy ===== *)
theory Mpp_System
  imports Job_Props
begin

text \<open>
  The queue, the buffer pool and the IOMMU together. Threads submit, wait, allocate, free and close in any order,
  the codec and its peer complete jobs: as long as a job is in the queue, every device address the driver put
  into its registers lies in a registered buffer whose IOMMU mapping is live.
\<close>

section \<open>What the queue's steps leave alone\<close>

text \<open>The part of a job that names buffers.\<close>

definition content :: "RKMPP_JOB \<Rightarrow> _" where
  "content j = (Owner j, DenseIovaSlots j, DenseBank j, BufRefs j)"

definition inherits :: "'s RKMPP_DEVICE \<Rightarrow> 's RKMPP_DEVICE \<Rightarrow> bool" where
  "inherits D D' \<longleftrightarrow>
     (\<forall>p \<in># jobs_mset (JobQueue D'). p \<in># jobs_mset (JobQueue D) \<and> content (jobs D' p) = content (jobs D p))"

lemma inherits_trans: "inherits D D1 \<Longrightarrow> inherits D1 D2 \<Longrightarrow> inherits D D2"
  by (auto simp: inherits_def)

lemma inherits_refl [simp]: "inherits D D"
  by (simp add: inherits_def)

lemma inherits_view: "same_view D D' \<Longrightarrow> inherits D D'"
  by (simp add: inherits_def same_view_def qview_def jview_def jobs_mset_def content_def)

lemma inherits_job: "(\<And>j. content (f j) = content j) \<Longrightarrow> inherits D (upd_job p f D)"
  by (simp add: inherits_def)

lemma inherits_keep: "inherits D (keep_jobs P C D)"
  using keep_jobs_mset[of P C D]
  by (auto simp: inherits_def keep_jobs_def) (metis add_mset_add_single multi_member_split union_iff)

lemma inherits_finish:
  assumes "queue_inv D" "c < 2" "InFlightPerCore (JobQueue D) ! c = Some p"
  shows "inherits D (finish_job keep c p D)"
  by (auto simp: inherits_def finish_job_mset[OF assms] finish_job_frame content_def dest: in_diffD split: if_splits)

lemma inherits_promote:
  assumes "queue_inv D" "PromoteUntilFull D = (promos, D')"
  shows "inherits D D'"
proof -
  have pr: "promoted D D' promos" by (rule promote_until_full_inv[OF assms])
  have "content (jobs D' p) = content (jobs D p)" for p
  proof -
    obtain t where "jobs D' p = (jobs D p)\<lparr>TargetCore := t\<rparr>" using pr unfolding promoted_def by blast
    then show ?thesis by (simp add: content_def)
  qed
  then show ?thesis using pr by (simp add: inherits_def promoted_def)
qed

lemma inherits_outcome:
  assumes "queue_inv D" "c < 2" "InFlightPerCore (JobQueue D) ! c = Some p" "kick_outcome c p D h D' h'"
  shows "inherits D D'"
  using assms(4) inherits_view inherits_trans[OF inherits_finish[OF assms(1-3)]] unfolding kick_outcome_def by blast

lemma inherits_remove: "queue_inv D \<Longrightarrow>
    inherits D (upd_q (\<lambda>q. q\<lparr>Pending := remove1 p (Pending q)\<rparr>) D) \<and>
    inherits D (upd_q (\<lambda>q. q\<lparr>Completed := remove1 p (Completed q)\<rparr>) D)"
  by (simp add: remove_is_keep inherits_keep)

lemma inherits_orphan: "inherits D (orphan_slots File D)"
proof -
  have "inherits D (fold (\<lambda>s D. case s of None \<Rightarrow> D | Some p \<Rightarrow> (if Owner (jobs D p) = Some File
      then upd_job p (\<lambda>j. j\<lparr>OutputFrameMdl := None, ColmvCurMdl := None, OrphanOnComplete := True\<rparr>) D else D)) ss D)"
    for ss and D :: "'a RKMPP_DEVICE"
  proof (induction ss arbitrary: D)
    case (Cons s ss)
    have "inherits D (case s of None \<Rightarrow> D | Some p \<Rightarrow> (if Owner (jobs D p) = Some File
        then upd_job p (\<lambda>j. j\<lparr>OutputFrameMdl := None, ColmvCurMdl := None, OrphanOnComplete := True\<rparr>) D else D))"
      by (auto split: option.splits intro!: inherits_job simp: content_def)
    then show ?case using inherits_trans[OF _ Cons] by simp
  qed simp
  then show ?thesis by (simp add: orphan_slots_def)
qed

lemma inherits_pin: "inherits D (pin p D)" "inherits D (unpin p D)"
  by (simp_all add: pin_def unpin_def inherits_job content_def)

lemma inherits_wait_timeout:
  assumes "queue_inv D" "wait_timeout p D h = (D', h')"
  shows "inherits D D'"
proof -
  have q: "queue_inv (unpin p D)" using queue_inv_upd_job[OF assms(1)] by (simp add: unpin_def)
  have "inherits (unpin p D) D'" using assms(2) inherits_remove[OF q, of p]
    by (auto simp: wait_timeout_def Let_def content_def intro!: inherits_job split: if_splits)
  then show ?thesis by (rule inherits_trans[OF inherits_pin(2)])
qed

lemma inherits_wait_done:
  assumes "queue_inv D" "wait_done p D h = (D', h')"
  shows "inherits D D'"
proof -
  have q: "queue_inv (unpin p D)" using queue_inv_upd_job[OF assms(1)] by (simp add: unpin_def)
  have "inherits (unpin p D) D'" using assms(2) inherits_remove[OF q, of p]
    by (auto simp: wait_done_def Let_def split: if_splits)
  then show ?thesis by (rule inherits_trans[OF inherits_pin(2)])
qed

lemma inherits_drain_after:
  assumes "drain_after_wait File p timedOut D h = (D', h')"
  shows "inherits D D'"
proof -
  define D2 where "D2 = (if timedOut then orphan_slots File (unpin p D) else unpin p D)"
  have "inherits D D2"
    using inherits_trans[OF inherits_pin(2)[of D p] inherits_orphan[of "unpin p D" File]] inherits_pin(2)[of D p] by (simp add: D2_def)
  moreover have "\<exists>C. D' = keep_jobs (\<lambda>_. True) C D2"
    using assms by (auto simp: drain_after_wait_def keep_jobs_def Let_def D2_def)
  ultimately show ?thesis using inherits_trans[OF _ inherits_keep] by blast
qed

text \<open>A step keeps the jobs it finds, apart from the one it may have submitted.\<close>

definition submitted :: "'s RKMPP_DEVICE \<Rightarrow> 's RKMPP_DEVICE \<Rightarrow> ptr \<Rightarrow> bool" where
  "submitted D D' p \<longleftrightarrow> (\<exists>File In j. build_job (files (bufs D) File) File In = Inr j \<and> bank_ok (InBank In) \<and>
     content (jobs D' p) = content j)"

definition steps_jobs :: "'s RKMPP_DEVICE \<Rightarrow> 's RKMPP_DEVICE \<Rightarrow> bool" where
  "steps_jobs D D' \<longleftrightarrow> (\<forall>p \<in># jobs_mset (JobQueue D').
     p \<in># jobs_mset (JobQueue D) \<and> content (jobs D' p) = content (jobs D p) \<or> submitted D D' p)"

lemma inherits_steps: "inherits D D' \<Longrightarrow> steps_jobs D D'"
  by (simp add: inherits_def steps_jobs_def)

lemma submit_steps_jobs:
  assumes S: "submit_locked K File In D h = (r, D', h')" and inv: "sys_inv D h todo W" and b: "\<exists>st. r = Inl st \<or> bank_ok (InBank In)"
    and fresh: "\<And>p. k_pool K h ''JppM'' = Some p \<Longrightarrow> p \<notin># job_pool h"
  shows "steps_jobs D D'"
  using S
proof (cases rule: submit_cases)
  case early
  then show ?thesis by (simp add: inherits_steps)
next
  case (busy p j jid)
  have "p \<notin># jobs_mset (JobQueue D)" using fresh[OF busy(1)] inv by (simp add: sys_inv_def)
  then have "inherits D D'" unfolding inherits_def busy(3) by (auto simp: jobs_mset_def)
  then show ?thesis by (rule inherits_steps)
next
  case (queued p j jid promos)
  let ?D0 = "upd_q (\<lambda>q. q\<lparr>Pending := Pending q @ [p]\<rparr>) (upd_job p (\<lambda>_. j\<lparr>Id := jid\<rparr>) (upd_q (\<lambda>q. q\<lparr>NextId := jid\<rparr>) D))"
  have n: "p \<notin># job_pool h" by (rule fresh[OF queued(1)])
  have i: "inherits ?D0 D'"
    by (rule inherits_promote[OF sys_inv_shape(2)[OF submit_queued_inv[OF inv n queued(3)]] queued(6)])
  have m: "jobs_mset (JobQueue ?D0) = add_mset p (jobs_mset (JobQueue D))" by (simp add: jobs_mset_def)
  show ?thesis unfolding steps_jobs_def
  proof
    fix x assume "x \<in># jobs_mset (JobQueue D')"
    then have x: "x \<in># jobs_mset (JobQueue ?D0)" "content (jobs D' x) = content (jobs ?D0 x)"
      using i unfolding inherits_def by blast+
    show "x \<in># jobs_mset (JobQueue D) \<and> content (jobs D' x) = content (jobs D x) \<or> submitted D D' x"
    proof (cases "x = p")
      case True
      then have "content (jobs D' x) = content j" using x(2) by (simp add: content_def)
      then show ?thesis using queued(2,3) b unfolding submitted_def by blast
    next
      case False
      then show ?thesis using x unfolding m by simp
    qed
  qed
qed

context quiet_iommu
begin

lemma job_step_jobs:
  assumes E: "env_iommu E = Some ifc" and fresh: "\<And>h p. k_pool (env_kernel E) h ''JppM'' = Some p \<Longrightarrow> p \<notin># job_pool h"
  shows "job_step E D h todo W D' h' todo' W' \<Longrightarrow> sys_inv D h todo W \<Longrightarrow> steps_jobs D D'"
proof (induction rule: job_step.induct)
  case (submit File In D h jid promos D' h' todo W)
  then show ?case using submit_steps_jobs[OF _ submit.prems _ fresh] by blast
next
  case (submit_fails File In D h status D' h' todo W)
  then show ?case using submit_steps_jobs[OF _ submit_fails.prems _ fresh] by blast
next
  case (kick p c todo D h D' h' W)
  note q = sys_inv_shape(2)[OF kick.prems]
  have c: "c < 2" "InFlightPerCore (JobQueue D) ! c = Some p" using kick by (auto simp: sys_inv_def)
  show ?case by (rule inherits_steps[OF inherits_outcome[OF q c kick_one_outcome[OF E q c kick.hyps(2)]]])
next
  case (isr D h claimed D' h' todo W)
  then show ?case using isr_view inherits_view inherits_steps by blast
next
  case (dpc todo D h D' h' W)
  note q = sys_inv_shape(2)[OF dpc.prems]
  from dpc_outcome[OF E q dpc.hyps(2)] have "inherits D D'"
    using inherits_view inherits_outcome[OF q, of 0] by auto
  then show ?case by (rule inherits_steps)
next
  case (peer_done todo cookie res hw D h D' h' W)
  note q = sys_inv_shape(2)[OF peer_done.prems]
  show ?case
  proof (cases "\<exists>p. InFlightPerCore (JobQueue D) ! 1 = Some p \<and> Id (jobs D p) = cookie")
    case True
    then obtain p where p: "InFlightPerCore (JobQueue D) ! 1 = Some p" "Id (jobs D p) = cookie" by blast
    show ?thesis
      using inherits_trans[OF inherits_finish[OF q _ p(1)] inherits_view[OF peer_completion_view(1)[OF p, of "env_kernel E" res hw h]]]
        peer_done.hyps(2) inherits_steps by simp
  next
    case False
    then have "D' = D" using peer_done.hyps(2) by (auto simp: RkMppPeerCompletion_def split: option.splits)
    then show ?thesis by (simp add: inherits_steps)
  qed
next
  case (worker_promote D promos D' h todo W)
  note i = sys_inv_view[OF worker_promote.prems flag_view(1) refl]
  show ?case by (rule inherits_steps[OF inherits_trans[OF inherits_view[OF flag_view(1)]
        inherits_promote[OF sys_inv_shape(2)[OF i] worker_promote.hyps(2)]]])
next
  case (worker_exit D h todo W) then show ?case using inherits_view[OF flag_view(2)] inherits_steps by blast
next
  case (wait_begin D File jid p h todo W) then show ?case using inherits_pin(1) inherits_steps by blast
next
  case (wait_collect D File jid p W h todo)
  then show ?case using inherits_remove[OF sys_inv_shape(2)] inherits_steps by blast
next
  case (wait_timeout p W D h D' h' todo)
  then show ?case using inherits_wait_timeout[OF sys_inv_shape(2)] inherits_steps by blast
next
  case (wait_done p W D h D' h' todo)
  then show ?case using inherits_wait_done[OF sys_inv_shape(2)] inherits_steps by blast
next
  case (drain_lists D File W h D' h' todo)
  then have "\<exists>P C. D' = keep_jobs P C D" by (auto simp: drain_lists_def keep_jobs_def Let_def)
  then show ?case using inherits_keep inherits_steps by blast
next
  case (drain_pin D File p h todo W) then show ?case using inherits_pin(1) inherits_steps by blast
next
  case (drain_after p W File timedOut D h D' h' todo) then show ?case using inherits_drain_after inherits_steps by blast
next
  case (peer_arrives found D h D' h' todo W)
  then have "jobs D' = jobs D \<and> jobs_mset (JobQueue D') = jobs_mset (JobQueue D)"
    by (auto simp: RkMppPeerArrival_def Let_def jobs_mset_def split: if_splits option.splits)
  then show ?case by (simp add: steps_jobs_def)
next
  case (peer_leaves D wt h D' h' todo W)
  then have "jobs D' = jobs D \<and> jobs_mset (JobQueue D') = jobs_mset (JobQueue D)"
    by (auto simp: RkMppDetachPeer_def Let_def jobs_mset_def split: if_splits option.splits)
  then show ?case by (simp add: steps_jobs_def)
qed

end

section \<open>The pool under the queue's steps\<close>

text \<open>The queue counts errors in the file contexts and resets the IOMMU; neither touches buffers or mappings.\<close>

definition same_pool :: "RKIOMMU_DEVICE pool \<Rightarrow> RKIOMMU_DEVICE pool \<Rightarrow> bool" where
  "same_pool P P' \<longleftrightarrow> (\<forall>f. \<exists>n. files P' f = (files P f)\<lparr>ErrorCount := n\<rparr>) \<and> g_nextCookie P' = g_nextCookie P \<and>
     g_totalAllocatedBytes P' = g_totalAllocatedBytes P \<and> same_space (iommu_st P) (iommu_st P')"

lemma ctx_self: "\<exists>n. (c :: RKMPP_FILE_CTX) = c\<lparr>ErrorCount := n\<rparr>"
  by (rule exI[of _ "ErrorCount c"]) simp

lemma same_pool_refl [simp]: "same_pool P P"
  using ctx_self by (auto simp: same_pool_def same_space_def)

lemma same_pool_trans:
  assumes "same_pool P P1" "same_pool P1 P2"
  shows "same_pool P P2"
proof -
  have "\<exists>n. files P2 f = (files P f)\<lparr>ErrorCount := n\<rparr>" for f
  proof -
    obtain m n where "files P1 f = (files P f)\<lparr>ErrorCount := m\<rparr>" "files P2 f = (files P1 f)\<lparr>ErrorCount := n\<rparr>"
      using assms unfolding same_pool_def by metis
    then show ?thesis by auto
  qed
  then show ?thesis using assms by (simp add: same_pool_def same_space_def)
qed

lemma same_pool_fields:
  assumes "same_pool P P'"
  shows "Buffers (files P' f) = Buffers (files P f)" "AllocatedBytes (files P' f) = AllocatedBytes (files P f)"
    "BufferCount (files P' f) = BufferCount (files P f)"
proof -
  obtain n where "files P' f = (files P f)\<lparr>ErrorCount := n\<rparr>" using assms unfolding same_pool_def by blast
  then show "Buffers (files P' f) = Buffers (files P f)" "AllocatedBytes (files P' f) = AllocatedBytes (files P f)"
    "BufferCount (files P' f) = BufferCount (files P f)" by simp_all
qed

lemma same_pool_ok:
  assumes "same_pool P P'" "vdec_pool_ok P"
  shows "vdec_pool_ok P'" "vdec_maps (iommu_st P') = vdec_maps (iommu_st P)"
proof -
  note f = same_pool_fields[OF assms(1)]
  have s: "Domain (iommu_st P') = Domain (iommu_st P)" "IsMaster (iommu_st P') = IsMaster (iommu_st P)"
    "g_nextCookie P' = g_nextCookie P" "g_totalAllocatedBytes P' = g_totalAllocatedBytes P"
    using assms(1) by (simp_all add: same_pool_def same_space_def)
  show m: "vdec_maps (iommu_st P') = vdec_maps (iommu_st P)" by (simp add: vdec_maps_def s)
  show "vdec_pool_ok P'"
    using assms(2) unfolding vdec_pool_ok_def pool_quota_def charged_def pool_maps_def cookies_ok_def vdec_inv_def m f s .
qed

lemma charge_error_pool: "same_pool (bufs D) (bufs (charge_error ow D))"
  using ctx_self by (auto simp: charge_error_def same_pool_def same_space_def split: option.splits)

lemma bufs_frame [simp]:
  "bufs (upd_job p f D) = bufs D" "bufs (upd_q g D) = bufs D" "bufs (RkMppSetNeedsFullReset D) = bufs D"
  "bufs (RkMppSetNeedsCoreReset D) = bufs D" "bufs (kick_probe p D) = bufs D"
  by (simp_all add: upd_job_def upd_q_def RkMppSetNeedsFullReset_def RkMppSetNeedsCoreReset_def kick_probe_def Let_def)

lemma account_result_pool: "same_pool (bufs D) (bufs (account_result res hw ow D))"
proof (cases "job_failed res hw")
  case True
  let ?D = "(if job_stuck res hw then RkMppSetNeedsFullReset D else RkMppSetNeedsCoreReset D)\<lparr>LastJobFailed := True\<rparr>"
  have "bufs ?D = bufs D" by simp
  then have "same_pool (bufs D) (bufs (charge_error ow ?D))" using charge_error_pool[of ?D ow] by (simp only:)
  then show ?thesis using True by (simp only: account_result_def if_True)
qed (simp add: account_result_def)

lemma enqueue_bufs [simp]: "bufs (fst (RkMppEnqueueKickWorker D h)) = bufs D"
  by (simp add: RkMppEnqueueKickWorker_def Let_def)

lemma complete_pool: "same_pool (bufs D) (bufs (fst (RkMppJobComplete K res hw D h)))"
proof (cases "InFlightPerCore (JobQueue D) ! 0")
  case (Some p)
  let ?D1 = "upd_job p (\<lambda>j. j\<lparr>EndQpc := k_qpc K h, Result := res, HardwareStatus := hw\<rparr>) D"
  have "bufs (fst (RkMppJobComplete K res hw D h)) = bufs (account_result res hw (Owner (jobs ?D1 p)) ?D1)"
    using Some by (simp add: RkMppJobComplete_def Let_def)
  then show ?thesis using account_result_pool[of ?D1 res hw "Owner (jobs ?D1 p)"] by simp
qed (simp add: RkMppJobComplete_def)

lemma peer_completion_pool: "same_pool (bufs D) (bufs (fst (RkMppPeerCompletion K cookie res hw D h)))"
proof (cases "\<exists>p. InFlightPerCore (JobQueue D) ! 1 = Some p \<and> Id (jobs D p) = cookie")
  case True
  then obtain p where p: "InFlightPerCore (JobQueue D) ! 1 = Some p" "Id (jobs D p) = cookie" by blast
  let ?D1 = "upd_job p (\<lambda>j. j\<lparr>EndQpc := k_qpc K h, Result := res, HardwareStatus := hw\<rparr>) D"
  have "bufs (fst (RkMppPeerCompletion K cookie res hw D h)) =
      bufs (if job_failed res hw then charge_error (Owner (jobs ?D1 p)) ?D1 else ?D1)"
    using p by (simp add: RkMppPeerCompletion_def Let_def)
  then show ?thesis using charge_error_pool[of ?D1 "Owner (jobs ?D1 p)"] by simp
next
  case False
  then have "fst (RkMppPeerCompletion K cookie res hw D h) = D" by (auto simp: RkMppPeerCompletion_def split: option.splits)
  then show ?thesis by simp
qed

lemma full_reset_pool:
  assumes "env_iommu E = Some vdec_codec_ifc"
  shows "same_pool (bufs D) (bufs (fst (full_reset E D h)))"
proof -
  let ?s = "iommu_st (bufs D)"
  obtain r1 s1 h1 where "RkIommuDisableHw ?s h = (r1, s1, h1)" by (metis prod_cases3)
  then have 1: "RkIommuDisable (Some ?s) h = (r1, Some s1, h1)" by (simp add: RkIommuDisable_def)
  let ?h2 = "ccu_call D FullCoreReset h1"
  obtain r3 s3 h3 where "RkIommuEnableHw (env_kernel E) s1 ?h2 = (r3, s3, h3)" by (metis prod_cases3)
  then have 3: "RkIommuEnable (env_kernel E) (Some s1) ?h2 = (r3, Some s3, h3)" by (simp add: RkIommuEnable_def)
  have "same_space ?s s3"
    using register_ops_same_space(4)[OF 1] register_ops_same_space(3)[OF 3] by (simp add: same_space_def)
  moreover have "bufs (fst (full_reset E D h)) = (bufs D)\<lparr>iommu_st := s3\<rparr>"
    by (simp add: full_reset_def assms vdec_codec_ifc_def 1 3 Let_def)
  ultimately show ?thesis using ctx_self by (simp add: same_pool_def)
qed

lemma kick_reset_pool:
  assumes "env_iommu E = Some vdec_codec_ifc"
  shows "same_pool (bufs D) (bufs (fst (kick_reset E D h)))"
  using full_reset_pool[OF assms, of "D\<lparr>NeedsFullReset := False\<rparr>" h] by (simp add: kick_reset_def)

lemma kick_local_pool:
  assumes "env_iommu E = Some vdec_codec_ifc"
  shows "same_pool (bufs D) (bufs (fst (JobKickLocalInner E p D h)))"
proof -
  let ?D0 = "upd_job p (\<lambda>j. j\<lparr>StartQpc := k_qpc (env_kernel E) h\<rparr>) D"
  have prog: "same_pool (bufs D1) (bufs (fst (kick_program E p D1 h1)))" for D1 h1
    using complete_pool by (auto simp: kick_program_def Let_def)
  obtain D2 h2 where r: "kick_reset E (kick_probe p ?D0) h = (D2, h2)" by (rule prod.exhaust)
  have "same_pool (bufs D) (bufs D2)" using kick_reset_pool[OF assms, of "kick_probe p ?D0" h] by (simp add: r)
  then have "same_pool (bufs D) (bufs (fst (kick_program E p D2 h1)))" for h1 by (rule same_pool_trans[OF _ prog])
  then show ?thesis using complete_pool[of ?D0 "env_kernel E" STATUS_DEVICE_NOT_READY 0 h]
    by (simp add: JobKickLocalInner_def Let_def r)
qed

lemma kick_one_pool:
  assumes "env_iommu E = Some vdec_codec_ifc"
  shows "same_pool (bufs D) (bufs (fst (kick_one E (p, c) (D, h))))"
  using kick_local_pool[OF assms, of D p h] by (simp add: kick_one_def fail_peer_kick_def Let_def)

lemma dpc_pool: "RkMppEvtDpc E D h = (D', h') \<Longrightarrow> same_pool (bufs D) (bufs D')"
proof (cases "InFlightPerCore (JobQueue D) ! 0")
  case (Some p)
  let ?hw = "LastIsrHwStatus (JobQueue D)"
  define res where "res = (if ?hw AND RKVDEC2_INT_ERROR_MASK \<noteq> 0 then STATUS_DEVICE_HARDWARE_ERROR else STATUS_SUCCESS)"
  obtain D1 h1 where C: "RkMppJobComplete (env_kernel E) res ?hw D h = (D1, h1)" by (rule prod.exhaust)
  assume "RkMppEvtDpc E D h = (D', h')"
  then have "D' = D1" using Some C unfolding RkMppEvtDpc_def Let_def res_def[symmetric] by simp
  then show ?thesis using complete_pool[of D "env_kernel E" res ?hw h] C by simp
qed (simp add: RkMppEvtDpc_def Let_def)

lemma orphan_slots_bufs [simp]: "bufs (orphan_slots File D) = bufs D"
proof -
  have "bufs (fold (\<lambda>s D. case s of None \<Rightarrow> D | Some p \<Rightarrow> (if Owner (jobs D p) = Some File
      then upd_job p (\<lambda>j. j\<lparr>OutputFrameMdl := None, ColmvCurMdl := None, OrphanOnComplete := True\<rparr>) D else D)) ss D)
      = bufs D" for ss and D :: "'a RKMPP_DEVICE"
    by (induction ss arbitrary: D) (auto split: option.splits)
  then show ?thesis by (simp add: orphan_slots_def)
qed

lemma submit_bufs: "submit_locked K File In D h = (r, D', h') \<Longrightarrow> bufs D' = bufs D"
  by (cases rule: submit_cases, assumption) (auto dest: promote_bufs)

lemma wait_bufs:
  "wait_timeout p D h = (D', h') \<Longrightarrow> bufs D' = bufs D" "wait_done p D h = (D', h') \<Longrightarrow> bufs D' = bufs D"
  "drain_lists File D h = (D', h') \<Longrightarrow> bufs D' = bufs D"
  "drain_after_wait File p timedOut D h = (D', h') \<Longrightarrow> bufs D' = bufs D"
  by (auto simp: wait_timeout_def wait_done_def drain_lists_def drain_after_wait_def Let_def unpin_def
      split: if_splits)

lemma job_step_pool:
  assumes E: "env_iommu E = Some vdec_codec_ifc"
  shows "job_step E D h todo W D' h' todo' W' \<Longrightarrow> same_pool (bufs D) (bufs D')"
proof (induction rule: job_step.induct)
  case (submit File In D h jid promos D' h' todo W) then show ?case using submit_bufs by (metis same_pool_refl)
next
  case (submit_fails File In D h status D' h' todo W) then show ?case using submit_bufs by (metis same_pool_refl)
next
  case (kick p c todo D h D' h' W) then show ?case using kick_one_pool[OF E, of D p c h] by simp
next
  case (isr D h claimed D' h' todo W) then show ?case by (auto simp: RkMppEvtIsr_def Let_def split: if_splits)
next
  case (dpc todo D h D' h' W) then show ?case using dpc_pool by blast
next
  case (peer_done todo cookie res hw D h D' h' W)
  then show ?case using peer_completion_pool[of D "env_kernel E" cookie res hw h] by simp
next
  case (worker_promote D promos D' h todo W) then show ?case using promote_bufs by fastforce
next
  case (wait_timeout p W D h D' h' todo) then show ?case using wait_bufs by (metis same_pool_refl)
next
  case (wait_done p W D h D' h' todo) then show ?case using wait_bufs by (metis same_pool_refl)
next
  case (drain_lists D File W h D' h' todo) then show ?case using wait_bufs by (metis same_pool_refl)
next
  case (drain_after p W File timedOut D h D' h' todo) then show ?case using wait_bufs by (metis same_pool_refl)
next
  case (peer_arrives found D h D' h' todo W)
  then show ?case by (auto simp: RkMppPeerArrival_def Let_def split: if_splits option.splits)
next
  case (peer_leaves D wt h D' h' todo W)
  then show ?case by (auto simp: RkMppDetachPeer_def Let_def split: if_splits option.splits)
qed (simp_all add: pin_def)

section \<open>The queue under the pool's steps\<close>

text \<open>Pool operations allocate and free memory, but no jobs.\<close>

definition job_res :: "kres \<Rightarrow> bool" where
  "job_res r = (case r of Pool t p \<Rightarrow> t = ''JppM'' | _ \<Rightarrow> False)"

lemma job_pool_cong: "filter_mset job_res (live h') = filter_mset job_res (live h) \<Longrightarrow> job_pool h' = job_pool h"
  by (simp add: job_pool_live job_res_def[abs_def])

lemma own_no_jobs: "filter_mset job_res (vdec_own dev) = {#}"
proof -
  have "\<not> job_res r" if "r \<in> set (domain_resources d)" for r d
    using that by (auto simp: domain_resources_def opt_res_def job_res_def split: option.splits)
  then show ?thesis by (simp add: vdec_own_def filter_empty_conv split: option.splits flip: mset_filter)
qed

lemma grow_no_jobs: "vdec_own s' = R + vdec_own s \<Longrightarrow> filter_mset job_res R = {#}"
  using own_no_jobs[of s'] by simp

lemma alloc_job_pool:
  assumes "vdec_pool_ok P" "g_nextCookie P + 1 \<noteq> 0"
    "RkMppBufAlloc K (Some vdec_ifc) proc P File Usage sz h = (res, P', h')"
  shows "job_pool h' = job_pool h"
proof (cases res)
  case (Inl st)
  then show ?thesis using alloc_fail_keeps[OF assms(1) _ assms(3)[unfolded Inl]] grow_no_jobs by (auto intro!: job_pool_cong)
next
  case (Inr out)
  note a = alloc_success[OF assms(1) disjI2[OF refl] assms(2) assms(3)[unfolded Inr]]
  show ?thesis
  proof (rule job_pool_cong, use a in \<open>elim conjE exE\<close>)
    fix b R va mdl p
    assume "live h' = R + {#ProcRef proc, Pool ''BppR'' (BufPtr b), UserMap (OutUserVa out), MdlRes mdl, Contig va#} + live h"
      "vdec_own (iommu_st P') = R + vdec_own (iommu_st P)"
    then show "filter_mset job_res (live h') = filter_mset job_res (live h)"
      using grow_no_jobs[of "iommu_st P'" R] by (simp add: job_res_def)
  qed
qed

lemma unmap_live: "RkIommuUnmapMdl odev Iova h = (st, odev', h') \<Longrightarrow> live h' = live h"
  by (auto simp: RkIommuUnmapMdl_def Let_def split: option.splits if_splits)

lemma free_one_job_pool:
  assumes "RkMppBufFreeOne K (Some vdec_ifc) b s h = (s', h')"
  shows "job_pool h' = job_pool h"
proof -
  have u: "UnmapMdl vdec_ifc s x g = (st, s1, g') \<Longrightarrow> job_pool g' = job_pool g" for x g st s1 g'
    using unmap_live by (auto simp: vdec_ifc_def job_pool_live split: prod.splits)
  show ?thesis using assms
    by (auto simp: RkMppBufFreeOne_def Let_def ExFreePoolWithTag_def split: if_splits option.splits prod.splits dest!: u)
qed

lemma free_all_job_pool: "RkMppBufFreeAll K (Some vdec_ifc) P File h = (P', h') \<Longrightarrow> job_pool h' = job_pool h"
proof -
  have "free_all_loop K oi File bs P h = (P', h') \<Longrightarrow> oi = Some vdec_ifc \<Longrightarrow> job_pool h' = job_pool h" for oi bs
    by (induction K oi File bs P h rule: free_all_loop.induct) (auto simp: Let_def free_one_job_pool split: prod.splits)
  then show "RkMppBufFreeAll K (Some vdec_ifc) P File h = (P', h') \<Longrightarrow> job_pool h' = job_pool h"
    unfolding RkMppBufFreeAll_def by blast
qed

text \<open>What the pool does to the buffers of the files.\<close>

lemma alloc_buffers:
  assumes "vdec_pool_ok P" "g_nextCookie P + 1 \<noteq> 0"
    "RkMppBufAlloc K (Some vdec_ifc) proc P File Usage sz h = (res, P', h')"
  shows "set (Buffers (files P f)) \<subseteq> set (Buffers (files P' f))"
proof (cases res)
  case (Inl st)
  then show ?thesis using alloc_fail_keeps[OF assms(1) _ assms(3)[unfolded Inl]] by simp
next
  case (Inr out)
  then show ?thesis using alloc_success[OF assms(1) _ assms(2) assms(3)[unfolded Inr]] by (cases "f = File") auto
qed

lemma free_outcome:
  assumes "vdec_pool_ok P" "RkMppBufFreeIfNotInUse K (Some vdec_ifc) P File Cookie (Some InUse) h = (st, P', h')"
  shows "P' = P \<and> h' = h \<or> (\<exists>b. \<not> InUse Cookie \<and> b \<in> set (Buffers (files P File)) \<and> BufCookie b = Cookie \<and>
    (\<forall>f. Buffers (files P' f) = (if f = File then remove1 b (Buffers (files P f)) else Buffers (files P f))) \<and>
    job_pool h' = job_pool h)"
proof (cases "InUse Cookie \<or> find_cookie Cookie (Buffers (files P File)) = None")
  case True
  then show ?thesis using assms(2) by (auto simp: RkMppBufFreeIfNotInUse_def split: if_splits)
next
  case False
  then obtain b where b: "find_cookie Cookie (Buffers (files P File)) = Some b" by auto
  define P2 where "P2 = RkMppBufReleaseQuota
      (P\<lparr>files := (files P)(File := (files P File)\<lparr>Buffers := remove1 b (Buffers (files P File))\<rparr>)\<rparr>)
      File (BufSize b)"
  obtain s1 h1 where f: "RkMppBufFreeOne K (Some vdec_ifc) b (iommu_st P2) h = (s1, h1)" by fastforce
  have P': "P' = P2\<lparr>iommu_st := s1\<rparr>" "h' = h1"
    using assms(2) False b f by (auto simp: RkMppBufFreeIfNotInUse_def Let_def simp flip: P2_def)
  note fc = find_cookie_Some[OF b]
  have "Buffers (files P' f) = (if f = File then remove1 b (Buffers (files P f)) else Buffers (files P f))" for f
    using vdec_free_step[OF assms(1) _ P2_def f] fc by (simp add: P')
  then show ?thesis using False fc free_one_job_pool[OF f] P'(2) by blast
qed

lemma free_all_buffers:
  assumes "vdec_pool_ok P" "RkMppBufFreeAll K (Some vdec_ifc) P File h = (P', h')" "f \<noteq> File"
  shows "Buffers (files P' f) = Buffers (files P f)"
proof -
  have i: "pool_quota P" "vdec_inv (iommu_st P)" "pool_maps (vdec_maps (iommu_st P)) (files P)"
    using assms(1) by (simp_all add: vdec_pool_ok_def)
  show ?thesis using vdec.free_all_drains[OF i refl assms(2)[unfolded RkMppBufFreeAll_def]] assms(3) by blast
qed

text \<open>The in-use test sees every job of the queue.\<close>

lemma in_use_covers:
  assumes "queue_inv D" "p \<in># jobs_mset (JobQueue D)" "RkMppJobReferencesBuffer (Some (jobs D p)) File Cookie"
  shows "RkMppJobBufferInUse D File Cookie"
proof -
  let ?q = "JobQueue D"
  obtain a b x y where s: "InFlightPerCore ?q = [a, b]" by (rule shape_ok_slots[OF queue_inv_shape[OF assms(1)]])
  have "CoreCount ?q = 2 \<or> CoreCount ?q = 1 \<and> b = None"
    using assms(1) s by (cases b) (auto simp: queue_inv_def shape_ok_def cores_ok_def core_ok_def)
  moreover have "p \<in> set (Pending ?q) \<or> p \<in> set (Completed ?q) \<or> a = Some p \<or> b = Some p"
    using assms(2) by (cases a; cases b) (auto simp: jobs_mset_def s)
  ultimately show ?thesis using assms(3) by (auto simp: RkMppJobBufferInUse_def Let_def active_slots_def s)
qed

section \<open>The whole driver\<close>

text \<open>
  \<open>mpp_reach E D h todo W\<close>: from an empty pool and an initialised queue, by the steps of the queue, by opening files,
  allocating and freeing buffers, and by closing files none of whose jobs is in the queue any more. The cookie
  counter does not come round.
\<close>

inductive mpp_reach :: "RKIOMMU_DEVICE kick_env \<Rightarrow> RKIOMMU_DEVICE RKMPP_DEVICE \<Rightarrow> history \<Rightarrow> (ptr \<times> nat) list \<Rightarrow>
    ptr multiset \<Rightarrow> bool" for E where
  load: "JobQueue D = RkMppJobQueueInit q \<Longrightarrow> job_pool h = {#} \<Longrightarrow> \<forall>f. Buffers (files (bufs D) f) = [] \<Longrightarrow>
    \<forall>f. AllocatedBytes (files (bufs D) f) = 0 \<Longrightarrow> \<forall>f. BufferCount (files (bufs D) f) = 0 \<Longrightarrow>
    g_totalAllocatedBytes (bufs D) = 0 \<Longrightarrow> g_nextCookie (bufs D) = 1 \<Longrightarrow> vdec_inv (iommu_st (bufs D)) \<Longrightarrow>
    mpp_reach E D h [] {#}"
| queue: "mpp_reach E D h todo W \<Longrightarrow> job_step E D h todo W D' h' todo' W' \<Longrightarrow> mpp_reach E D' h' todo' W'"
| open_file: "mpp_reach E D h todo W \<Longrightarrow> Buffers (files (bufs D) File) = [] \<Longrightarrow>
    mpp_reach E (D\<lparr>bufs := snd (RkMppBufFileCtxInit (bufs D) File)\<rparr>) h todo W"
| alloc: "mpp_reach E D h todo W \<Longrightarrow> g_nextCookie (bufs D) + 1 \<noteq> 0 \<Longrightarrow>
    RkMppBufAlloc K (Some vdec_ifc) proc (bufs D) File Usage sz h = (res, P', h') \<Longrightarrow>
    mpp_reach E (D\<lparr>bufs := P'\<rparr>) h' todo W"
| free: "mpp_reach E D h todo W \<Longrightarrow>
    RkMppBufFreeIfNotInUse K (Some vdec_ifc) (bufs D) File Cookie (Some (RkMppJobBufferInUse D File)) h = (st, P', h') \<Longrightarrow>
    mpp_reach E (D\<lparr>bufs := P'\<rparr>) h' todo W"
| close_file: "mpp_reach E D h todo W \<Longrightarrow> \<forall>p \<in># jobs_mset (JobQueue D). Owner (jobs D p) \<noteq> Some File \<Longrightarrow>
    RkMppBufFreeAll K (Some vdec_ifc) (bufs D) File h = (P', h') \<Longrightarrow> mpp_reach E (D\<lparr>bufs := P'\<rparr>) h' todo W"

text \<open>
  A slot of a job is backed by a buffer of the job's file: the offset lies in the buffer, and the register the
  slot was the last to write holds the buffer's device address plus the offset.
\<close>

definition slot_backed :: "RKMPP_BUFFER list \<Rightarrow> RKMPP_JOB \<Rightarrow> RKMPP_DENSE_IOVA_SLOT \<Rightarrow> bool" where
  "slot_backed bs j s \<longleftrightarrow> SlotHandle s \<noteq> 0 \<and> (\<exists>b \<in> set bs. BufCookie b = SlotHandle s \<and> IovaOffset s < BufSize b \<and>
     (find (\<lambda>t. unat (RegIdx t) = unat (RegIdx s)) (rev (DenseIovaSlots j)) = Some s \<longrightarrow>
        bank_word (DenseBank j) (unat (RegIdx s)) = Some (ucast (BufIova b + ucast (IovaOffset s)))))"

definition dma_ok :: "'s RKMPP_DEVICE \<Rightarrow> bool" where
  "dma_ok D \<longleftrightarrow> (\<forall>p \<in># jobs_mset (JobQueue D). \<exists>f. Owner (jobs D p) = Some f \<and>
     (\<forall>s \<in> set (DenseIovaSlots (jobs D p)). slot_backed (Buffers (files (bufs D) f)) (jobs D p) s))"

lemma slot_backed_content: "content j' = content j \<Longrightarrow> slot_backed bs j' s = slot_backed bs j s"
  by (simp add: slot_backed_def content_def)

lemma slot_references:
  "Owner j = Some f \<Longrightarrow> s \<in> set (DenseIovaSlots j) \<Longrightarrow> SlotHandle s \<noteq> 0 \<Longrightarrow> RkMppJobReferencesBuffer (Some j) f (SlotHandle s)"
  by (auto simp: RkMppJobReferencesBuffer_def)

lemma slot_backed_mono: "slot_backed bs j s \<Longrightarrow> set bs \<subseteq> set bs' \<Longrightarrow> slot_backed bs' j s"
  unfolding slot_backed_def by blast

lemma build_job_backed:
  assumes "build_job ctx File In = Inr j" "bank_ok (InBank In)" "s \<in> set (DenseIovaSlots j)"
  shows "slot_backed (Buffers ctx) j s"
proof -
  have sl: "DenseIovaSlots j = in_slots In" by (rule build_job_fields(2)[OF assms(1)])
  note r = build_job_resolved[OF assms(1,2)]
  obtain b where b: "b \<in> set (Buffers ctx)" "BufCookie b = SlotHandle s" "IovaOffset s < BufSize b"
    "slot_addr ctx s = ucast (BufIova b + ucast (IovaOffset s))" using r assms(3)[unfolded sl] by auto
  have "SlotHandle s \<noteq> 0" using build_job_ok(1)[OF assms(1)] assms(3) sl by (auto simp: slot_ok_def)
  moreover have "bank_word (DenseBank j) (unat (RegIdx s)) = Some (slot_addr ctx s)"
    if "find (\<lambda>t. unat (RegIdx t) = unat (RegIdx s)) (rev (DenseIovaSlots j)) = Some s"
    using r that unfolding sl by simp
  ultimately show ?thesis using b unfolding slot_backed_def by auto
qed

lemma dma_ok_step:
  assumes "dma_ok D" "steps_jobs D D'" "\<And>f. Buffers (files (bufs D') f) = Buffers (files (bufs D) f)"
  shows "dma_ok D'"
  unfolding dma_ok_def assms(3)
proof
  fix p assume p: "p \<in># jobs_mset (JobQueue D')"
  then consider (old) "p \<in># jobs_mset (JobQueue D)" "content (jobs D' p) = content (jobs D p)" | (new) "submitted D D' p"
    using assms(2) unfolding steps_jobs_def by blast
  then show "\<exists>f. Owner (jobs D' p) = Some f \<and>
      (\<forall>s \<in> set (DenseIovaSlots (jobs D' p)). slot_backed (Buffers (files (bufs D) f)) (jobs D' p) s)"
  proof cases
    case old
    have "Owner (jobs D' p) = Owner (jobs D p)" "DenseIovaSlots (jobs D' p) = DenseIovaSlots (jobs D p)"
      using old(2) by (simp_all add: content_def)
    then show ?thesis using assms(1) old slot_backed_content[OF old(2)] by (simp add: dma_ok_def)
  next
    case new
    then obtain File In j where j: "build_job (files (bufs D) File) File In = Inr j" "bank_ok (InBank In)"
      "content (jobs D' p) = content j" unfolding submitted_def by blast
    have "Owner j = Some File" using build_job_fields(1)[OF j(1)] by (simp add: job_frame_def)
    then have "Owner (jobs D' p) = Some File" "DenseIovaSlots (jobs D' p) = DenseIovaSlots j"
      using j(3) by (simp_all add: content_def)
    then show ?thesis using build_job_backed[OF j(1,2)] slot_backed_content[OF j(3)] by simp
  qed
qed

lemma dma_ok_buffers:
  assumes "dma_ok D" "\<And>p f s. p \<in># jobs_mset (JobQueue D) \<Longrightarrow> Owner (jobs D p) = Some f \<Longrightarrow> s \<in> set (DenseIovaSlots (jobs D p)) \<Longrightarrow>
    slot_backed (Buffers (files (bufs D) f)) (jobs D p) s \<Longrightarrow> slot_backed (Buffers (files P' f)) (jobs D p) s"
  shows "dma_ok (D\<lparr>bufs := P'\<rparr>)"
  unfolding dma_ok_def
proof
  fix p assume "p \<in># jobs_mset (JobQueue (D\<lparr>bufs := P'\<rparr>))"
  then have p: "p \<in># jobs_mset (JobQueue D)" by simp
  then obtain f where f: "Owner (jobs D p) = Some f"
    "\<forall>s \<in> set (DenseIovaSlots (jobs D p)). slot_backed (Buffers (files (bufs D) f)) (jobs D p) s"
    using assms(1) unfolding dma_ok_def by blast
  then show "\<exists>f. Owner (jobs (D\<lparr>bufs := P'\<rparr>) p) = Some f \<and> (\<forall>s \<in> set (DenseIovaSlots (jobs (D\<lparr>bufs := P'\<rparr>) p)).
      slot_backed (Buffers (files (bufs (D\<lparr>bufs := P'\<rparr>)) f)) (jobs (D\<lparr>bufs := P'\<rparr>) p) s)"
    using assms(2)[OF p f(1)] by simp
qed

lemma mpp_reach_inv:
  assumes E: "env_iommu E = Some vdec_codec_ifc"
    and fresh: "\<And>h p. k_pool (env_kernel E) h ''JppM'' = Some p \<Longrightarrow> p \<notin># job_pool h"
  shows "mpp_reach E D h todo W \<Longrightarrow> sys_inv D h todo W \<and> vdec_pool_ok (bufs D) \<and> dma_ok D"
proof (induction rule: mpp_reach.induct)
  case (load D q h)
  have "jobs_mset (JobQueue D) = {#}" using load by (simp add: RkMppJobQueueInit_def jobs_mset_def)
  then show ?case using load sys_inv_start[of D q h] load_inv[of "bufs D"] by (auto simp: dma_ok_def)
next
  case (queue D h todo W D' h' todo' W')
  note i = queue.IH[THEN conjunct1] and sp = job_step_pool[OF E queue.hyps(2)]
  have "sys_inv D' h' todo' W'" by (rule vdecq.job_step_inv[OF E fresh queue.hyps(2) i])
  moreover have "dma_ok D'"
    by (rule dma_ok_step[OF _ vdecq.job_step_jobs[OF E fresh queue.hyps(2) i] same_pool_fields(1)[OF sp]]) (use queue.IH in simp)
  ultimately show ?case using same_pool_ok(1)[OF sp] queue.IH by blast
next
  case (open_file D h todo W File)
  have "Buffers (files (snd (RkMppBufFileCtxInit (bufs D) File)) f) = Buffers (files (bufs D) f)" for f
    using open_file.hyps(2) by (simp add: RkMppBufFileCtxInit_def)
  then have "dma_ok (D\<lparr>bufs := snd (RkMppBufFileCtxInit (bufs D) File)\<rparr>)"
    using open_file.IH by (intro dma_ok_buffers) simp_all
  moreover have "sys_inv (D\<lparr>bufs := snd (RkMppBufFileCtxInit (bufs D) File)\<rparr>) h todo W"
    by (rule sys_inv_view[OF _ bufs_view refl]) (use open_file.IH in simp)
  moreover have "vdec_pool_ok (snd (RkMppBufFileCtxInit (bufs D) File))"
    by (rule init_inv) (use open_file in simp_all)
  ultimately show ?case by simp
next
  case (alloc D h todo W K proc File Usage sz res P' h')
  have ok: "vdec_pool_ok (bufs D)" using alloc.IH by simp
  have "dma_ok (D\<lparr>bufs := P'\<rparr>)"
    by (rule dma_ok_buffers) (use alloc.IH slot_backed_mono alloc_buffers[OF ok alloc.hyps(2,3)] in blast)+
  then show ?case using alloc_inv[OF ok alloc.hyps(2,3)]
      sys_inv_view[OF alloc.IH[THEN conjunct1] bufs_view alloc_job_pool[OF ok alloc.hyps(2,3)]] by simp
next
  case (free D h todo W K File Cookie st P' h')
  have ok: "vdec_pool_ok (bufs D)" and inv: "sys_inv D h todo W" and dma: "dma_ok D" using free.IH by simp_all
  note o = free_outcome[OF ok free.hyps(2)]
  then have jp: "job_pool h' = job_pool h" by blast
  have "dma_ok (D\<lparr>bufs := P'\<rparr>)"
  proof (rule dma_ok_buffers[OF dma])
    fix p f s assume p: "p \<in># jobs_mset (JobQueue D)" "Owner (jobs D p) = Some f" "s \<in> set (DenseIovaSlots (jobs D p))"
      and sb: "slot_backed (Buffers (files (bufs D) f)) (jobs D p) s"
    show "slot_backed (Buffers (files P' f)) (jobs D p) s"
    proof (cases "P' = bufs D")
      case False
      then obtain b where b: "\<not> RkMppJobBufferInUse D File Cookie" "BufCookie b = Cookie"
        "Buffers (files P' f) = (if f = File then remove1 b (Buffers (files (bufs D) f)) else Buffers (files (bufs D) f))"
        using o by auto
      have "SlotHandle s \<noteq> 0" using sb by (simp add: slot_backed_def)
      then have ne: "SlotHandle s \<noteq> Cookie" if "f = File"
        using in_use_covers[OF sys_inv_shape(2)[OF inv] p(1) slot_references[OF p(2,3)]] b(1) that by auto
      have "x \<in> set (Buffers (files P' f))" if "x \<in> set (Buffers (files (bufs D) f))" "BufCookie x = SlotHandle s" for x
      proof (cases "f = File")
        case True
        then have "x \<noteq> b" using that(2) ne b(2) by auto
        then show ?thesis using that(1) b(3) True by (simp add: in_set_remove1)
      qed (use that b(3) in simp)
      then show ?thesis using sb unfolding slot_backed_def by blast
    qed (use sb in simp)
  qed
  then show ?case using free_inv[OF ok free.hyps(2)] sys_inv_view[OF inv bufs_view jp] by simp
next
  case (close_file D h todo W File K P' h')
  have ok: "vdec_pool_ok (bufs D)" using close_file.IH by simp
  have "dma_ok (D\<lparr>bufs := P'\<rparr>)"
  proof (rule dma_ok_buffers)
    fix p f s assume "p \<in># jobs_mset (JobQueue D)" "Owner (jobs D p) = Some f"
      and sb: "slot_backed (Buffers (files (bufs D) f)) (jobs D p) s"
    then have "f \<noteq> File" using close_file.hyps(2) by auto
    then show "slot_backed (Buffers (files P' f)) (jobs D p) s"
      using free_all_buffers[OF ok close_file.hyps(3)] sb by simp
  qed (use close_file.IH in simp)
  then show ?case using free_all_inv[OF ok close_file.hyps(3)]
      sys_inv_view[OF close_file.IH[THEN conjunct1] bufs_view free_all_job_pool[OF close_file.hyps(3)]] by simp
qed


text \<open>A concrete run: allocate a buffer, submit a job that names it.\<close>

definition demo_one :: RKMPP_SUBMIT_DENSE_JOB_IN where
  "demo_one = \<lparr>InIovaSlotCount = 1, InBufRefCount = 0, InKickValue = 1, InBank = zero_bank,
     InIovaSlots = [\<lparr>RegIdx = 128, IovaOffset = 0x10, SlotHandle = 2\<rparr>], InBufRefs = []\<rparr>"

lemma demo_mpp_reach:
  "\<exists>D h todo p. mpp_reach demo_env D h todo {#} \<and> p \<in># job_pool h \<and>
     DenseIovaSlots (jobs D p) = [\<lparr>RegIdx = 128, IovaOffset = 0x10, SlotHandle = 2\<rparr>]"
proof -
  let ?D0 = "demo_codec\<lparr>JobQueue := RkMppJobQueueInit demo_queue, bufs := demo_pool\<rparr>"
  have r0: "mpp_reach demo_env ?D0 [] [] {#}"
    by (rule mpp_reach.load) (simp_all add: demo_pool_def demo_dev_inv)
  obtain out P1 h1 where A: "RkMppBufAlloc demo_kernel (Some vdec_ifc) 7 demo_pool 1 3 0x10000 [] = (Inr out, P1, h1)"
    using demo_alloc by blast
  have c: "g_nextCookie demo_pool + 1 \<noteq> 0" by (simp add: demo_pool_def)
  let ?D1 = "?D0\<lparr>bufs := P1\<rparr>"
  have r1: "mpp_reach demo_env ?D1 h1 [] {#}" by (rule mpp_reach.alloc[OF r0]) (use c A in simp_all)
  note s = alloc_success[OF demo_pool_ok disjI2[OF refl] c A]
  then obtain b where b: "Buffers (files P1 1) = [b]" "BufCookie b = 2" "BufSize b = 0x10000"
    by (auto simp: demo_pool_def demo_round take_cookie_def)
  have jp: "job_pool h1 = {#}" using alloc_job_pool[OF demo_pool_ok c A] by simp
  have inv: "sys_inv ?D1 h1 [] {#}"
    using mpp_reach_inv[OF demo_env_sel(1) _ r1] demo_env_fresh by blast
  have sl: "in_slots demo_one = [\<lparr>RegIdx = 128, IovaOffset = 0x10, SlotHandle = 2\<rparr>]"
    by (simp add: in_slots_def demo_one_def)
  have "slot_ok (files P1 1) \<lparr>RegIdx = 128, IovaOffset = 0x10, SlotHandle = 2\<rparr>"
    using b by (simp add: slot_ok_def RkMppDenseIsAddressReg_def)
  then obtain j where j: "build_job (files (bufs ?D1) 1) 1 demo_one = Inr j" by (simp add: build_job_cases sl)
  have pool: "k_pool fresh_kernel h1 ''JppM'' = Some (length h1)" by (simp add: fresh_kernel_def jp)
  obtain jid promos D2 where S: "submit_locked fresh_kernel 1 demo_one ?D1 h1 =
      (Inr (jid, promos), D2, Acquire (Pool ''JppM'' (length h1)) # h1)" "content (jobs D2 (length h1)) = content j"
    using submit_accepts[OF inv j _ _ _ _ pool] jp by (auto simp: demo_one_def content_def)
  have "mpp_reach demo_env D2 (Acquire (Pool ''JppM'' (length h1)) # h1) promos {#}"
    using mpp_reach.queue[OF r1 job_step.submit[of demo_env 1 demo_one]] S(1)
    by (simp add: demo_env_sel demo_one_def bank_ok_def zero_bank_def)
  moreover have "DenseIovaSlots (jobs D2 (length h1)) = in_slots demo_one"
    using S(2) build_job_fields(2)[OF j] by (simp add: content_def)
  ultimately show ?thesis unfolding sl by fastforce
qed


end
