(* ===== verification/Job_Kick.thy ===== *)
theory Job_Kick
  imports Job_Props
begin

text \<open>
  What single operations of the job queue do: the register sequence of a kick, the end state of the kick worker,
  the outcome recorded by a completion, the results of waiting, and the draining of a closing file.
\<close>

section \<open>The register sequence of a kick\<close>

text \<open>The registers a kick writes from the bank, in order: all of the six banks except the kick register.\<close>

definition bank_regs :: "nat list" where
  "bank_regs = filter (\<lambda>i. i \<noteq> 10) ([8..<33] @ [64..<113] @ [128..<143] @ [160..<200] @ [200..<205] @ [256..<278])"

lemma codec_write_list: "codec_writes (foldl codec_write h ws) = codec_writes h @ ws"
  by (induction ws arbitrary: h) (simp_all add: codec_write_def)

lemma codec_flush_list [simp]: "codec_writes (foldl (\<lambda>h m. FlushMdl m # h) h ms) = codec_writes h"
  by (induction ms arbitrary: h) simp_all

lemma filter_upt_shift: "map f (filter P [0..<n]) = map (\<lambda>i. f (i - a)) (filter (\<lambda>i. P (i - a)) [a..<a + n])"
  by (induction n) simp_all

lemma reg_offset:
  assumes "unat (fi :: ULONG) + p < 1000"
  shows "unat ((fi + of_nat p) * 4 + 0x100) = 0x100 + 4 * (unat fi + p)" "fi + of_nat p = 10 \<longleftrightarrow> unat fi + p = 10"
proof -
  have u: "unat (fi + of_nat p) = unat fi + p" using assms by (simp add: unat_word_ariths unat_of_nat)
  have "unat (x * 4 + 0x100) = 0x100 + 4 * unat x" if "unat x < 1000" for x :: ULONG
    using that by (simp add: unat_word_ariths)
  from this[of "fi + of_nat p"] show "unat ((fi + of_nat p) * 4 + 0x100) = 0x100 + 4 * (unat fi + p)"
    using assms by (simp only: u)
  show "fi + of_nat p = 10 \<longleftrightarrow> unat fi + p = 10"
    using u by (simp add: word_unat_eq_iff)
qed

lemma bank_writes_regs:
  assumes "unat fi + unat cnt \<le> 1000"
  shows "bank_writes (fi, cnt, src) =
    map (\<lambda>i. (0x100 + 4 * i, src ! (i - unat fi))) (filter (\<lambda>i. i \<noteq> 10) [unat fi..<unat fi + unat cnt])"
proof -
  have "bank_writes (fi, cnt, src) =
      map (\<lambda>p. (0x100 + 4 * (unat fi + p), src ! p)) (filter (\<lambda>p. unat fi + p \<noteq> 10) [0..<unat cnt])"
    unfolding bank_writes_def prod.case
  proof (intro map_cong filter_cong refl)
    fix p assume "p \<in> set [0..<unat cnt]"
    then have "unat fi + p < 1000" using assms by simp
    then show "fi + of_nat p \<noteq> RKMPP_DENSE_KICK_REG_IDX \<longleftrightarrow> unat fi + p \<noteq> 10" using reg_offset(2)[of fi p] by simp
  next
    fix p assume "p \<in> set (filter (\<lambda>p. unat fi + p \<noteq> 10) [0..<unat cnt])"
    then have "unat fi + p < 1000" using assms by simp
    then show "(unat ((fi + of_nat p) * 4 + 0x100), src ! p) = (0x100 + 4 * (unat fi + p), src ! p)"
      using reg_offset(1)[of fi p] by simp
  qed
  also have "\<dots> = map (\<lambda>i. (0x100 + 4 * i, src ! (i - unat fi))) (filter (\<lambda>i. i \<noteq> 10) [unat fi..<unat fi + unat cnt])"
    unfolding filter_upt_shift[where a = "unat fi"]
    by (intro map_cong filter_cong refl) auto
  finally show ?thesis .
qed

lemma kick_bank_writes:
  "concat (map bank_writes (kick_banks j)) = map (\<lambda>i. (0x100 + 4 * i, the (bank_word (DenseBank j) i))) bank_regs"
proof -
  have b: "map (\<lambda>i. (0x100 + 4 * i, src ! (i - a))) (filter (\<lambda>i. i \<noteq> 10) [a..<e]) =
      map (\<lambda>i. (0x100 + 4 * i, the (bank_word (DenseBank j) i))) (filter (\<lambda>i. i \<noteq> 10) [a..<e])"
    if "\<And>i. a \<le> i \<Longrightarrow> i < e \<Longrightarrow> bank_word (DenseBank j) i = Some (src ! (i - a))" for src :: "ULONG list" and a e
    using that by (intro map_cong refl) simp
  show ?thesis
    unfolding kick_banks_def bank_regs_def filter_append map_append
    by (simp add: bank_writes_regs b bank_word_def)
qed

lemma bank_fits_iff:
  assumes "b \<in> set (kick_banks j)"
  shows "bank_fits len b \<longleftrightarrow> (case b of (fi, cnt, _) \<Rightarrow> 0x100 + 4 * (unat fi + unat cnt) \<le> unat len)"
  using assms by (auto simp: kick_banks_def bank_fits_def not_less word_le_nat_alt)

lemma all_banks_fit: "(\<exists>b \<in> set (kick_banks j). \<not> bank_fits len b) \<longleftrightarrow> unat len < 1368"
proof -
  have "(\<exists>b \<in> set (kick_banks j). \<not> bank_fits len b) \<longleftrightarrow>
      (\<exists>b \<in> set (kick_banks j). \<not> (case b of (fi, cnt, _) \<Rightarrow> 0x100 + 4 * (unat fi + unat cnt) \<le> unat len))"
    using bank_fits_iff by blast
  also have "\<dots> \<longleftrightarrow> unat len < 1368" by (auto simp: kick_banks_def)
  finally show ?thesis .
qed

text \<open>The state and history in which a kick starts to program the codec.\<close>

lemma kick_local_prefix:
  assumes E: "env_iommu E = Some vdec_codec_ifc" and m: "HasMmio D" "MmioLength D \<noteq> 0"
  obtains D2 h2 where "JobKickLocalInner E p D h = kick_program E p D2 h2"
    "codec_writes h2 = codec_writes h @ (0x480, 0) # cache_cfg_writes (MmioLength D)"
    "MmioLength D2 = MmioLength D" "same_view D D2" "DenseKickValue (jobs D2 p) = DenseKickValue (jobs D p)"
proof -
  let ?D0 = "upd_job p (\<lambda>j. j\<lparr>StartQpc := k_qpc (env_kernel E) h\<rparr>) D"
  obtain D2 h2 where r: "kick_reset E (kick_probe p ?D0) h = (D2, h2)" by (rule prod.exhaust)
  let ?h5 = "foldl codec_write (codec_write (ccu_call D2 UngateLeafClocks h2) (0x480, 0)) (cache_cfg_writes (MmioLength D2))"
  have len: "MmioLength (fst (kick_reset E X h)) = MmioLength X" "jobs (fst (kick_reset E X h)) = jobs X" for X
    by (simp_all add: kick_reset_def full_reset_def RkMppSetNeedsFullReset_def Let_def split: prod.splits)
  have f: "MmioLength D2 = MmioLength D" "jobs D2 = jobs (kick_probe p ?D0)" "JobQueue D2 = JobQueue (kick_probe p ?D0)"
    using len[of "kick_probe p ?D0", unfolded r fst_conv] kick_reset_queue[of E "kick_probe p ?D0" h, unfolded r fst_conv]
    by (simp_all add: kick_probe_def Let_def upd_q_def upd_job_def)
  have "codec_writes h2 = codec_writes h" "codec_writes (ccu_call D2 UngateLeafClocks h2) = codec_writes h2"
    using vdecq.kick_reset_quiet[OF E, of h "kick_probe p ?D0"] quiet_ccu[of h2 D2 UngateLeafClocks] by (simp_all add: r quiet_def)
  then have "codec_writes ?h5 = codec_writes h @ (0x480, 0) # cache_cfg_writes (MmioLength D)"
    by (simp add: codec_write_list codec_write_def f(1))
  moreover have "JobKickLocalInner E p D h = kick_program E p D2 ?h5"
  proof -
    have "HasMmio ?D0" "MmioLength ?D0 \<noteq> 0" using m by (simp_all add: upd_job_def)
    then show ?thesis by (simp add: JobKickLocalInner_def Let_def r)
  qed
  moreover have "same_view D D2"
    by (auto simp: same_view_def f kick_probe_def Let_def qview_def jview_def)
  moreover have "DenseKickValue (jobs D2 p) = DenseKickValue (jobs D p)" by (simp add: f kick_probe_def Let_def)
  ultimately show thesis using that f(1) by blast
qed

text \<open>What a local completion records; the accounting of errors, the flags and the history.\<close>

lemma ccu_codec [simp]: "codec_writes (ccu_call D op h) = codec_writes h"
  by (simp add: ccu_call_def)

lemma flush_codec [simp]: "codec_writes (flush_outputs j h) = codec_writes h"
  by (simp add: flush_outputs_def flush_opt_def split: option.splits)

lemma enqueue_frames [simp]:
  "jobs (fst (RkMppEnqueueKickWorker D h)) = jobs D" "codec_writes (snd (RkMppEnqueueKickWorker D h)) = codec_writes h"
  "NeedsFullReset (fst (RkMppEnqueueKickWorker D h)) = NeedsFullReset D"
  "NeedsCoreReset (fst (RkMppEnqueueKickWorker D h)) = NeedsCoreReset D"
  "LastJobFailed (fst (RkMppEnqueueKickWorker D h)) = LastJobFailed D"
  "bufs (fst (RkMppEnqueueKickWorker D h)) = bufs D"
  by (simp_all add: RkMppEnqueueKickWorker_def upd_q_def Let_def)

lemma flags_frame [simp]:
  "NeedsFullReset (upd_q g D) = NeedsFullReset D" "NeedsCoreReset (upd_q g D) = NeedsCoreReset D"
  "LastJobFailed (upd_q g D) = LastJobFailed D" "bufs (upd_q g D) = bufs D"
  "NeedsFullReset (upd_job p f D) = NeedsFullReset D" "NeedsCoreReset (upd_job p f D) = NeedsCoreReset D"
  "LastJobFailed (upd_job p f D) = LastJobFailed D" "bufs (upd_job p f D) = bufs D"
  "NeedsFullReset (charge_error ow D) = NeedsFullReset D" "NeedsCoreReset (charge_error ow D) = NeedsCoreReset D"
  "LastJobFailed (charge_error ow D) = LastJobFailed D"
  by (simp_all add: upd_q_def upd_job_def charge_error_def split: option.splits)

lemma complete_effects:
  assumes "InFlightPerCore (JobQueue D) ! 0 = Some p" "RkMppJobComplete K res hw D h = (D', h')"
  shows "jobs D' = (jobs D)(p := (jobs D p)\<lparr>EndQpc := k_qpc K h, Result := res, HardwareStatus := hw, Done := True\<rparr>)"
    "codec_writes h' = codec_writes h"
    "NeedsFullReset D' \<longleftrightarrow> NeedsFullReset D \<or> job_failed res hw \<and> job_stuck res hw"
    "NeedsCoreReset D' \<longleftrightarrow> NeedsCoreReset D \<or> job_failed res hw"
    "LastJobFailed D' \<longleftrightarrow> job_failed res hw"
    "bufs D' = bufs (if job_failed res hw then charge_error (Owner (jobs D p)) D else D)"
proof -
  let ?D1 = "upd_job p (\<lambda>j. j\<lparr>EndQpc := k_qpc K h, Result := res, HardwareStatus := hw\<rparr>) D"
  define D2 where "D2 = account_result res hw (Owner (jobs D p)) ?D1"
  have a: "jobs D2 = jobs ?D1" "NeedsFullReset D2 \<longleftrightarrow> NeedsFullReset D \<or> job_failed res hw \<and> job_stuck res hw"
    "NeedsCoreReset D2 \<longleftrightarrow> NeedsCoreReset D \<or> job_failed res hw" "LastJobFailed D2 \<longleftrightarrow> job_failed res hw"
    "bufs D2 = bufs (if job_failed res hw then charge_error (Owner (jobs D p)) D else D)"
    by (simp_all add: D2_def account_result_def RkMppSetNeedsFullReset_def RkMppSetNeedsCoreReset_def)
       (simp_all add: charge_error_def upd_job_def split: option.splits)
  have c: "D' = fst (RkMppJobComplete K res hw D h)" "h' = snd (RkMppJobComplete K res hw D h)" using assms(2) by simp_all
  have o: "Owner (jobs ?D1 p) = Owner (jobs D p)" by simp
  note eq = RkMppJobComplete_def[of K res hw D h, unfolded assms(1) option.case Let_def o D2_def[symmetric]]
  show "jobs D' = (jobs D)(p := (jobs D p)\<lparr>EndQpc := k_qpc K h, Result := res, HardwareStatus := hw, Done := True\<rparr>)"
    "codec_writes h' = codec_writes h"
    "NeedsFullReset D' \<longleftrightarrow> NeedsFullReset D \<or> job_failed res hw \<and> job_stuck res hw"
    "NeedsCoreReset D' \<longleftrightarrow> NeedsCoreReset D \<or> job_failed res hw"
    "LastJobFailed D' \<longleftrightarrow> job_failed res hw"
    "bufs D' = bufs (if job_failed res hw then charge_error (Owner (jobs D p)) D else D)"
    unfolding c eq by (simp_all add: a ExFreePoolWithTag_def)
qed

text \<open>
  C34: The register sequence of a local kick. On a window that holds all banks the codec sees, in this order: the
  interrupt status cleared, the read caches configured if the window reaches them, every word of the six banks at
  its own offset with the kick register left out, and last the kick value; the queue is as before. On a smaller
  window the codec sees only the first two, and without a window nothing; in both cases the job is completed
  with an error.
\<close>

theorem kick_register_sequence:
  assumes "env_iommu E = Some vdec_codec_ifc" "JobKickLocalInner E p D h = (D', h')"
    "DenseKickValue (jobs D p) AND 1 \<noteq> 0" "InFlightPerCore (JobQueue D) ! 0 = Some p"
  shows "(HasMmio D \<and> 1368 \<le> unat (MmioLength D) \<longrightarrow> same_view D D' \<and>
      codec_writes h' = codec_writes h @ (0x480, 0) # cache_cfg_writes (MmioLength D) @
        map (\<lambda>i. (0x100 + 4 * i, the (bank_word (DenseBank (jobs D p)) i))) bank_regs @
        [(0x128, DenseKickValue (jobs D p))]) \<and>
    (HasMmio D \<and> 0 < unat (MmioLength D) \<and> unat (MmioLength D) < 1368 \<longrightarrow>
      codec_writes h' = codec_writes h @ (0x480, 0) # cache_cfg_writes (MmioLength D) \<and>
      Done (jobs D' p) \<and> Result (jobs D' p) = STATUS_INVALID_PARAMETER) \<and>
    (\<not> HasMmio D \<or> MmioLength D = 0 \<longrightarrow> codec_writes h' = codec_writes h \<and>
      Done (jobs D' p) \<and> Result (jobs D' p) = STATUS_DEVICE_NOT_READY)"
proof (cases "HasMmio D \<and> MmioLength D \<noteq> 0")
  case False
  let ?D0 = "upd_job p (\<lambda>j. j\<lparr>StartQpc := k_qpc (env_kernel E) h\<rparr>) D"
  have "RkMppJobComplete (env_kernel E) STATUS_DEVICE_NOT_READY 0 ?D0 h = (D', h')"
    using assms(2) False by (auto simp: JobKickLocalInner_def Let_def upd_job_def)
  note e = complete_effects[OF _ this, of p]
  show ?thesis using e(1,2) assms(4) False by auto
next
  case True
  then obtain D2 h2 where r: "JobKickLocalInner E p D h = kick_program E p D2 h2"
    "codec_writes h2 = codec_writes h @ (0x480, 0) # cache_cfg_writes (MmioLength D)"
    "MmioLength D2 = MmioLength D" "same_view D D2" "DenseKickValue (jobs D2 p) = DenseKickValue (jobs D p)"
    using kick_local_prefix[OF assms(1), of D p h] by blast
  have s0: "InFlightPerCore (JobQueue D2) ! 0 = Some p" "DenseBank (jobs D2 p) = DenseBank (jobs D p)"
    using r(4) assms(4) by (simp_all add: same_view_def qview_def jview_def)
  show ?thesis
  proof (cases "unat (MmioLength D) < 1368")
    case small: True
    then have "RkMppJobComplete (env_kernel E) STATUS_INVALID_PARAMETER 0 D2 h2 = (D', h')"
      using assms(2) all_banks_fit[of "jobs D2 p" "MmioLength D"] by (simp add: r(1,3) kick_program_def Let_def)
    note e = complete_effects[OF s0(1) this]
    show ?thesis using e(1,2) True small by (simp add: r(2))
  next
    case False
    then have fits: "\<not> (\<exists>b \<in> set (kick_banks (jobs D2 p)). \<not> bank_fits (MmioLength D) b)" "\<not> 300 > MmioLength D"
      using all_banks_fit by (auto simp: word_less_nat_alt)
    let ?h1 = "foldl (\<lambda>h m. FlushMdl m # h) h2 (CleanMdls (jobs D2 p))"
    let ?h2 = "foldl codec_write ?h1 (concat (map bank_writes (kick_banks (jobs D2 p))))"
    have D': "D' = D2" "h' = codec_write (flush_tlb E D2 ?h2) (0x128, DenseKickValue (jobs D p))"
      using assms(2,3) fits by (auto simp: r(1,3,5) kick_program_def Let_def)
    have "codec_writes (flush_tlb E D2 ?h2) = codec_writes ?h2"
      using vdecq.flush_tlb_quiet[OF assms(1), of ?h2 D2] by (simp add: quiet_def)
    then show ?thesis using r(4) False True
      by (simp add: D' codec_write_def codec_write_list kick_bank_writes s0(2) r(2))
  qed
qed

text \<open>
  What a completion on core 0 records. The job gets its result, the hardware status and the end time, and is
  marked done. A failure (a failing result or an error bit of the hardware) asks for a core reset before the next
  kick, for a full reset when the codec hung, and counts against the job's file; a success clears the failure
  flag and asks for nothing.
\<close>

theorem completion_accounting:
  assumes "InFlightPerCore (JobQueue D) ! 0 = Some p" "RkMppJobComplete K res hw D h = (D', h')"
  shows "Done (jobs D' p) \<and> Result (jobs D' p) = res \<and> HardwareStatus (jobs D' p) = hw \<and>
    EndQpc (jobs D' p) = k_qpc K h \<and> (\<forall>x. x \<noteq> p \<longrightarrow> jobs D' x = jobs D x) \<and>
    (LastJobFailed D' \<longleftrightarrow> \<not> NT_SUCCESS res \<or> hw AND 0xF0 \<noteq> 0) \<and>
    (NeedsCoreReset D' \<longleftrightarrow> NeedsCoreReset D \<or> LastJobFailed D') \<and>
    (NeedsFullReset D' \<longleftrightarrow> NeedsFullReset D \<or> hw AND 0x20 \<noteq> 0 \<or> res = STATUS_0xC0000507) \<and>
    (\<forall>f. ErrorCount (files (bufs D') f) =
       ErrorCount (files (bufs D) f) + (if LastJobFailed D' \<and> Owner (jobs D p) = Some f then 1 else 0))"
proof -
  note e = complete_effects[OF assms]
  have m: "hw AND 0x20 \<noteq> 0 \<Longrightarrow> hw AND 0xF0 \<noteq> 0"
  proof -
    assume a: "hw AND 0x20 \<noteq> 0"
    have "(hw AND 0xF0) AND 0x20 = hw AND 0x20" by (simp add: and.assoc)
    then show "hw AND 0xF0 \<noteq> 0" using a by auto
  qed
  have "job_failed res hw \<and> job_stuck res hw \<longleftrightarrow> hw AND 0x20 \<noteq> 0 \<or> res = STATUS_0xC0000507"
    using m by (auto simp: job_failed_def job_stuck_def)
  moreover have "ErrorCount (files (bufs D') f) =
      ErrorCount (files (bufs D) f) + (if job_failed res hw \<and> Owner (jobs D p) = Some f then 1 else 0)" for f
    by (simp add: e(6) charge_error_def split: option.splits)
  ultimately show ?thesis using e(1,3-5) by (simp add: job_failed_def)
qed

section \<open>The kick worker\<close>

context quiet_iommu
begin

lemma kick_promotions_keep:
  assumes E: "env_iommu E = Some ifc"
  shows "sys_inv D h promos W \<Longrightarrow> lively D \<Longrightarrow> KickPromotions E promos D h = (D', h') \<Longrightarrow> sys_inv D' h' [] W \<and> lively D'"
proof (induction promos arbitrary: D h)
  case (Cons x promos)
  obtain p c where x: "x = (p, c)" by force
  obtain D1 h1 where k: "kick_one E (p, c) (D, h) = (D1, h1)" by (rule prod.exhaust)
  have c: "c < 2" "InFlightPerCore (JobQueue D) ! c = Some p" using Cons.prems(1) by (auto simp: sys_inv_def x)
  have "sys_inv D1 h1 (remove1 (p, c) (x # promos)) W"
    by (rule sys_inv_kick[OF Cons.prems(1)])
       (simp add: x, rule kick_one_outcome[OF E sys_inv_shape(2)[OF Cons.prems(1)] c k])
  moreover have "lively D1" using kick_one_lively[OF Cons.prems(2), of E p c h] by (simp add: k)
  moreover have "KickPromotions E promos D1 h1 = (D', h')" using Cons.prems(3) by (simp add: KickPromotions_def x k)
  ultimately show ?case using Cons.IH by (simp add: x)
qed (simp add: KickPromotions_def)

lemma worker_round_keeps:
  assumes E: "env_iommu E = Some ifc" and inv: "sys_inv D h [] W"
  shows "sys_inv (fst (worker_round E D h)) (snd (worker_round E D h)) [] W \<and> lively (fst (worker_round E D h))"
proof -
  let ?D0 = "upd_q (\<lambda>q. q\<lparr>KickRearm := False\<rparr>) D"
  have i0: "sys_inv ?D0 h [] W" by (rule sys_inv_view[OF inv flag_view(1) refl])
  obtain promos D1 where P: "PromoteUntilFull ?D0 = (promos, D1)" by (rule prod.exhaust)
  obtain D2 h2 where K: "KickPromotions E promos D1 h = (D2, h2)" by (rule prod.exhaust)
  have "sys_inv D1 h promos W" using sys_inv_promote[OF i0 P] by simp
  moreover have "lively D1" by (rule promote_lively[OF sys_inv_shape(2)[OF i0] P]) simp
  ultimately show ?thesis using kick_promotions_keep[OF E _ _ K] by (simp add: worker_round_def P K)
qed

lemma worker_ends:
  "env_iommu E = Some ifc \<Longrightarrow> sys_inv D h [] W \<Longrightarrow> lively D \<Longrightarrow> RkMppKickWorker E D h = (D', h') \<Longrightarrow>
    sys_inv D' h' [] W \<and> lively D' \<and> \<not> KickRearm (JobQueue D') \<and> \<not> KickActive (JobQueue D')"
proof (induction E D h rule: RkMppKickWorker.induct)
  case (1 E D h)
  show ?case
  proof (cases "KickRearm (JobQueue D)")
    case True
    note k = worker_round_keeps[OF 1(2,3)]
    have "RkMppKickWorker E (fst (worker_round E D h)) (snd (worker_round E D h)) = (D', h')"
      using 1(5) True by (subst (asm) RkMppKickWorker.simps) simp
    then show ?thesis using 1(1)[OF _ 1(2)] True k by blast
  next
    case False
    then have "D' = upd_q (\<lambda>q. q\<lparr>KickActive := False\<rparr>) D" "h' = h"
      using 1(5) by (simp_all add: RkMppKickWorker.simps)
    then show ?thesis using sys_inv_view[OF 1(3) flag_view(2) refl] 1(4) False by (simp add: lively_def)
  qed
qed

end



theorem completion_accounting_witness:
  "NeedsFullReset (fst (RkMppJobComplete demo_kernel STATUS_DEVICE_HARDWARE_ERROR 0x20
     (demo_codec\<lparr>JobQueue := demo_queue\<lparr>Pending := [], InFlightPerCore := [Some 101, None]\<rparr>\<rparr>) []))"
proof -
  let ?D = "demo_codec\<lparr>JobQueue := demo_queue\<lparr>Pending := [], InFlightPerCore := [Some 101, None]\<rparr>\<rparr>"
  obtain D' h' where C: "RkMppJobComplete demo_kernel STATUS_DEVICE_HARDWARE_ERROR 0x20 ?D [] = (D', h')" by (rule prod.exhaust)
  show ?thesis using completion_accounting[OF _ C, of 101] by (simp add: C)
qed

theorem kick_register_sequence_witness:
  "\<exists>D' h' ws. JobKickLocalInner demo_env 101
     (demo_codec\<lparr>JobQueue := demo_queue\<lparr>Pending := [], InFlightPerCore := [Some 101, None]\<rparr>\<rparr>) [] = (D', h') \<and>
     codec_writes h' = (0x480, 0) # ws @ [(0x128, 1)]"
proof -
  let ?D = "demo_codec\<lparr>JobQueue := demo_queue\<lparr>Pending := [], InFlightPerCore := [Some 101, None]\<rparr>\<rparr>"
  obtain D' h' where C: "JobKickLocalInner demo_env 101 ?D [] = (D', h')" by (rule prod.exhaust)
  have d: "DenseKickValue (jobs ?D 101) = 1" "HasMmio ?D" "MmioLength ?D = 0x800" by (simp_all add: demo_codec_def)
  let ?ws = "cache_cfg_writes (MmioLength ?D) @
      map (\<lambda>i. (0x100 + 4 * i, the (bank_word (DenseBank (jobs ?D 101)) i))) bank_regs"
  have "1368 \<le> unat (MmioLength ?D)" "InFlightPerCore (JobQueue ?D) ! 0 = Some 101" unfolding d(3) by simp_all
  then have "codec_writes h' = codec_writes [] @ (0x480, 0) # cache_cfg_writes (MmioLength ?D) @
      map (\<lambda>i. (0x100 + 4 * i, the (bank_word (DenseBank (jobs ?D 101)) i))) bank_regs @ [(0x128, 1)]"
    using kick_register_sequence[OF demo_env_sel(1) C, unfolded d(1)] d(2) by simp
  then have "codec_writes h' = (0x480, 0) # ?ws @ [(0x128, 1)]" by simp
  then show ?thesis using C by blast
qed

section \<open>Waiting\<close>

lemma find_unique:
  assumes "x \<in> set xs" "P x" "\<And>y. y \<in> set xs \<Longrightarrow> P y \<Longrightarrow> y = x"
  shows "find P xs = Some x"
proof (cases "find P xs")
  case None
  then show ?thesis using assms(1,2) unfolding find_None_iff by blast
next
  case (Some y)
  then show ?thesis using assms(3) find_in_set[OF Some] by simp
qed

definition ids_unique :: "'s RKMPP_DEVICE \<Rightarrow> bool" where
  "ids_unique D \<longleftrightarrow> (\<forall>p \<in># jobs_mset (JobQueue D). \<forall>q \<in># jobs_mset (JobQueue D). Id (jobs D p) = Id (jobs D q) \<longrightarrow> p = q)"

lemma active_slot_jobs:
  assumes "queue_inv D"
  shows "set (map the (filter (\<lambda>s. s \<noteq> None) (active_slots (JobQueue D)))) =
    {p. InFlightPerCore (JobQueue D) ! 0 = Some p \<or> InFlightPerCore (JobQueue D) ! 1 = Some p}"
proof -
  let ?q = "JobQueue D"
  obtain a b x y where s: "InFlightPerCore ?q = [a, b]" by (rule shape_ok_slots[OF queue_inv_shape[OF assms]])
  have "CoreCount ?q = 2 \<or> CoreCount ?q = 1 \<and> b = None"
    using assms s by (cases b) (auto simp: queue_inv_def shape_ok_def cores_ok_def core_ok_def)
  then have "active_slots ?q = [a, b] \<or> active_slots ?q = [a] \<and> b = None" by (auto simp: active_slots_def s)
  then show ?thesis by (elim disjE; cases a; cases b) (auto simp: s)
qed

lemma in_slot_mset: "p \<in># slot_mset s \<longleftrightarrow> s = Some p"
  by (cases s) auto

lemma wait_lookup_unique:
  assumes q: "queue_inv D" and u: "ids_unique D" and p: "p \<in># jobs_mset (JobQueue D)"
    and o: "Owner (jobs D p) = Some File"
  shows "wait_lookup D File (Id (jobs D p)) = Some (p, p \<in> set (Completed (JobQueue D)))"
    "File' \<noteq> File \<Longrightarrow> wait_lookup D File' (Id (jobs D p)) = None"
proof -
  let ?q = "JobQueue D" and ?is = "\<lambda>x. Id (jobs D x) = Id (jobs D p)"
  let ?on = "map the (filter (\<lambda>s. s \<noteq> None) (active_slots ?q))"
  have only: "x \<in> set (Pending ?q) \<union> set (Completed ?q) \<union> set ?on \<Longrightarrow> ?is x \<Longrightarrow> x = p" for x
    using u p active_slot_jobs[OF q] by (auto simp: ids_unique_def jobs_mset_def in_slot_mset simp del: set_map set_filter)
  have place: "p \<in> set (Pending ?q) \<union> set (Completed ?q) \<union> set ?on"
    using p active_slot_jobs[OF q] by (auto simp: jobs_mset_def in_slot_mset simp del: set_map set_filter)
  have f: "find ?is xs = (if p \<in> set xs then Some p else None)"
    if "set xs \<subseteq> set (Pending ?q) \<union> set (Completed ?q) \<union> set ?on" for xs
  proof (cases "p \<in> set xs")
    case True
    have "find ?is xs = Some p" by (rule find_unique[OF True refl]) (use only that in blast)
    then show ?thesis using True by simp
  next
    case False
    then have "find ?is xs = None" using only that unfolding find_None_iff by blast
    then show ?thesis using False by simp
  qed
  have g: "find (\<lambda>x. ?is x \<and> Owner (jobs D x) = Some F) ?on = (if p \<in> set ?on \<and> F = File then Some p else None)" for F
  proof (cases "p \<in> set ?on \<and> F = File")
    case True
    have "find (\<lambda>x. ?is x \<and> Owner (jobs D x) = Some F) ?on = Some p"
      by (rule find_unique) (use only o True in blast)+
    then show ?thesis using True by simp
  next
    case False
    have "\<not> (\<exists>x. x \<in> set ?on \<and> ?is x \<and> Owner (jobs D x) = Some F)"
    proof
      assume "\<exists>x. x \<in> set ?on \<and> ?is x \<and> Owner (jobs D x) = Some F"
      then obtain x where "x \<in> set ?on" "?is x" "Owner (jobs D x) = Some F" by blast
      then show False using False only[of x] o by auto
    qed
    then show ?thesis using False by (simp only: find_None_iff if_False simp_thms)
  qed
  have fs: "find ?is (Completed ?q) = (if p \<in> set (Completed ?q) then Some p else None)"
    "find ?is (Pending ?q) = (if p \<in> set (Pending ?q) then Some p else None)" by (rule f; blast)+
  show "wait_lookup D File (Id (jobs D p)) = Some (p, p \<in> set (Completed ?q))"
    using place o unfolding wait_lookup_def Let_def find_slot_def fs g by auto
  show "File' \<noteq> File \<Longrightarrow> wait_lookup D File' (Id (jobs D p)) = None"
    using o unfolding wait_lookup_def Let_def find_slot_def fs g by auto
qed

text \<open>
  Waiting for a job. Its owner gets the recorded result of a completed job, which is taken off the queue and
  freed; for a job still on its way, the result recorded when the event was signalled, or a timeout; the elapsed
  time is never negative. Another file is told that the job does not exist, and nothing changes.
\<close>

theorem wait_job_results:
  assumes "queue_inv D" "ids_unique D" "p \<in># jobs_mset (JobQueue D)" "Owner (jobs D p) = Some File"
    "Wt (wait_time TimeoutMs) p (pin p D) h = (w, D1, h1)"
  shows "(p \<in> set (Completed (JobQueue D)) \<longrightarrow>
      RkMppJobWait Wt File (Id (jobs D p)) TimeoutMs D h =
        ((STATUS_SUCCESS, Some (wait_out (jobs D p))),
         upd_q (\<lambda>q. q\<lparr>Completed := remove1 p (Completed q)\<rparr>) D, ExFreePoolWithTag ''JppM'' p h)) \<and>
    (p \<notin> set (Completed (JobQueue D)) \<longrightarrow>
      fst (RkMppJobWait Wt File (Id (jobs D p)) TimeoutMs D h) =
        (if w = STATUS_TIMEOUT then (STATUS_TIMEOUT, Some \<lparr>OutStatus = STATUS_TIMEOUT, OutHardwareStatus = 0, OutElapsedQpc = 0\<rparr>)
         else (STATUS_SUCCESS, Some (wait_out (jobs D1 p))))) \<and>
    (\<forall>j. 0 \<le> sint (OutElapsedQpc (wait_out j))) \<and>
    (\<forall>File'. File' \<noteq> File \<longrightarrow> RkMppJobWait Wt File' (Id (jobs D p)) TimeoutMs D h = ((STATUS_NOT_FOUND, None), D, h))"
proof -
  note l = wait_lookup_unique[OF assms(1-4)]
  have "0 \<le> sint (OutElapsedQpc (wait_out j))" for j by (simp add: wait_out_def)
  then show ?thesis using assms(5) l by (auto simp: RkMppJobWait_def split: prod.splits)
qed

theorem wait_job_results_witness:
  "fst (RkMppJobWait (\<lambda>t p D h. (STATUS_TIMEOUT, D, h)) 7 101 20 demo_codec []) =
     (STATUS_TIMEOUT, Some \<lparr>OutStatus = STATUS_TIMEOUT, OutHardwareStatus = 0, OutElapsedQpc = 0\<rparr>)"
proof -
  have "101 \<in># jobs_mset (JobQueue demo_codec)" "ids_unique demo_codec" "Id (jobs demo_codec 101) = 101"
    "Owner (jobs demo_codec 101) = Some 7" "101 \<notin> set (Completed (JobQueue demo_codec))"
    by (auto simp: ids_unique_def jobs_mset_def demo_codec_sel demo_queue_def word_unat_eq_iff)
  then show ?thesis using wait_job_results[OF demo_codec_inv, of 101 7 "\<lambda>t p D h. (STATUS_TIMEOUT, D, h)" 20 "[]"] by simp
qed

section \<open>Draining a closing file\<close>

text \<open>The cores that run a job of the file.\<close>

definition mine_cores :: "'s RKMPP_DEVICE \<Rightarrow> ptr \<Rightarrow> nat set" where
  "mine_cores D File = {c. c < CoreCount (JobQueue D) \<and> c < length (InFlightPerCore (JobQueue D)) \<and>
     (\<exists>p. InFlightPerCore (JobQueue D) ! c = Some p \<and> Owner (jobs D p) = Some File)}"

definition none_pending :: "'s RKMPP_DEVICE \<Rightarrow> ptr \<Rightarrow> bool" where
  "none_pending D File \<longleftrightarrow> (\<forall>p \<in> set (Pending (JobQueue D)). Owner (jobs D p) \<noteq> Some File)"

text \<open>
  A wait that does not run out returns once the job has left its core, and meanwhile nobody submits for the file
  being closed: what remains of the file on the cores was there before.
\<close>

definition settles :: "'s waiter \<Rightarrow> ptr \<Rightarrow> bool" where
  "settles Wt File \<longleftrightarrow> (\<forall>t p D h w D1 h1. Wt t p D h = (w, D1, h1) \<longrightarrow>
     (none_pending D File \<longrightarrow> none_pending D1 File) \<and>
     (w \<noteq> STATUS_TIMEOUT \<longrightarrow> (\<forall>c \<in> mine_cores D1 File. c \<in> mine_cores D File \<and>
        InFlightPerCore (JobQueue D1) ! c = InFlightPerCore (JobQueue D) ! c \<and> InFlightPerCore (JobQueue D1) ! c \<noteq> Some p)))"

lemma owner_frame:
  "Owner (jobs (pin p D) x) = Owner (jobs D x)" "Owner (jobs (unpin p D) x) = Owner (jobs D x)"
  "Owner (jobs (orphan_slots File D) x) = Owner (jobs D x)"
proof -
  have "Owner (jobs (fold (\<lambda>s D. case s of None \<Rightarrow> D | Some p \<Rightarrow> (if Owner (jobs D p) = Some File
      then upd_job p (\<lambda>j. j\<lparr>OutputFrameMdl := None, ColmvCurMdl := None, OrphanOnComplete := True\<rparr>) D else D)) ss D) x)
      = Owner (jobs D x)" for ss and D :: "'a RKMPP_DEVICE"
    by (induction ss arbitrary: D) (auto split: option.splits)
  then show "Owner (jobs (orphan_slots File D) x) = Owner (jobs D x)" by (simp add: orphan_slots_def)
qed (simp_all add: pin_def unpin_def)

lemma drain_after_frame:
  assumes "drain_after_wait File p timedOut D h = (D', h')"
  shows "mine_cores D' File = mine_cores D File" "none_pending D' File = none_pending D File"
    "InFlightPerCore (JobQueue D') = InFlightPerCore (JobQueue D)" "\<And>x. Owner (jobs D' x) = Owner (jobs D x)"
proof -
  define D2 where "D2 = (if timedOut then orphan_slots File (unpin p D) else unpin p D)"
  have "JobQueue (unpin p D) = JobQueue D" by (simp add: unpin_def)
  then have D2: "JobQueue D2 = JobQueue D" "Owner (jobs D2 x) = Owner (jobs D x)" for x
    by (simp_all add: D2_def owner_frame)
  have "\<exists>C. D' = upd_q (\<lambda>q. q\<lparr>Completed := filter C (Completed q)\<rparr>) D2"
    using assms by (auto simp: drain_after_wait_def Let_def D2_def)
  then show "mine_cores D' File = mine_cores D File" "none_pending D' File = none_pending D File"
    "InFlightPerCore (JobQueue D') = InFlightPerCore (JobQueue D)" "\<And>x. Owner (jobs D' x) = Owner (jobs D x)"
    by (auto simp: mine_cores_def none_pending_def D2)
qed

lemma pin_frame: "mine_cores (pin p D) File = mine_cores D File" "none_pending (pin p D) File = none_pending D File"
  "JobQueue (pin p D) = JobQueue D"
  by (auto simp: mine_cores_def none_pending_def pin_def)

lemma find_slot_mine:
  "find_slot (\<lambda>p. Owner (jobs D p) = Some File) (JobQueue D) = None \<Longrightarrow> mine_cores D File = {}"
  "find_slot (\<lambda>p. Owner (jobs D p) = Some File) (JobQueue D) = Some p \<Longrightarrow>
     \<exists>c \<in> mine_cores D File. InFlightPerCore (JobQueue D) ! c = Some p"
proof -
  let ?q = "JobQueue D"
  have a: "c < CoreCount ?q \<Longrightarrow> c < length (InFlightPerCore ?q) \<Longrightarrow> InFlightPerCore ?q ! c \<in> set (active_slots ?q)" for c
    by (auto simp: active_slots_def in_set_conv_nth intro!: exI[of _ c])
  show "find_slot (\<lambda>p. Owner (jobs D p) = Some File) ?q = None \<Longrightarrow> mine_cores D File = {}"
    using a by (force simp: find_slot_def find_None_iff mine_cores_def)
  assume "find_slot (\<lambda>p. Owner (jobs D p) = Some File) ?q = Some p"
  then have "Some p \<in> set (active_slots ?q)" "Owner (jobs D p) = Some File"
    by (auto simp: find_slot_def dest!: find_in_set)
  then show "\<exists>c \<in> mine_cores D File. InFlightPerCore ?q ! c = Some p"
    by (auto simp: active_slots_def in_set_conv_nth mine_cores_def)
qed

lemma drain_loop_ends:
  assumes "settles Wt File"
  shows "finite (mine_cores D File) \<Longrightarrow> card (mine_cores D File) < n \<Longrightarrow> none_pending D File \<Longrightarrow>
    \<exists>timedOut D' h'. drain_loop n Wt TimeoutMs File D h = Some (timedOut, D', h') \<and> none_pending D' File \<and>
      (if timedOut then NeedsFullReset D' else mine_cores D' File = {})"
proof (induction n arbitrary: D h)
  case (Suc n)
  show ?case
  proof (cases "find_slot (\<lambda>p. Owner (jobs D p) = Some File) (JobQueue D)")
    case None
    then show ?thesis using find_slot_mine(1)[OF None] Suc.prems by auto
  next
    case (Some p)
    obtain c where c: "c \<in> mine_cores D File" "InFlightPerCore (JobQueue D) ! c = Some p" using find_slot_mine(2)[OF Some] by blast
    obtain w D1 h1 where w: "Wt (Some (- (uint TimeoutMs * 10000))) p (pin p D) h = (w, D1, h1)" by (metis prod_cases3)
    obtain D2 h2 where a: "drain_after_wait File p (w = STATUS_TIMEOUT) D1 h1 = (D2, h2)" by (rule prod.exhaust)
    note fr = drain_after_frame[OF a]
    have np: "none_pending D2 File"
      using assms w Suc.prems(3) unfolding settles_def fr(2) by (metis pin_frame(2))
    show ?thesis
    proof (cases "w = STATUS_TIMEOUT")
      case True
      then show ?thesis using Some w a np
        by (auto simp: RkMppSetNeedsFullReset_def none_pending_def)
    next
      case False
      have "\<forall>d \<in> mine_cores D1 File. d \<in> mine_cores D File \<and> InFlightPerCore (JobQueue D) ! d \<noteq> Some p"
        using assms w False unfolding settles_def by (metis pin_frame(1,3))
      then have "mine_cores D2 File \<subset> mine_cores D File" using c unfolding fr(1) by blast
      note ps = this
      have "card (mine_cores D2 File) < n" using psubset_card_mono[OF Suc.prems(1) ps] Suc.prems(2) by linarith
      moreover have "finite (mine_cores D2 File)" by (rule finite_subset[OF psubset_imp_subset[OF ps] Suc.prems(1)])
      ultimately show ?thesis using Suc.IH[OF _ _ np, of h2] Some w a False by simp
    qed
  qed
qed simp



end
