(* ===== verification/Pmu_Domain.thy ===== *)
theory Pmu_Domain
  imports Prelude
begin

text \<open>
  The power domains of \<^verbatim>\<open>driver/rkmpp_ccu/pmu.c\<close>. Register accesses of the clock and reset driver are recorded newest first; the
  values the power management unit returns are a parameter, a function of what happened before. Its writable registers, and
  those of the clock unit, have the hi-word-mask format: the upper half of a written word selects the bits of the lower half
  that change. \<open>reg_val\<close> replays the writes of a history on the boot values.
\<close>

section \<open>Accesses\<close>

datatype ccu_ev =
    CruWrite ULONG ULONG   \<comment> \<open>a write to the clock and reset unit\<close>
  | CruRead ULONG          \<comment> \<open>a read of it, for the log only\<close>
  | PmuWrite ULONG ULONG   \<comment> \<open>a write to the power management unit\<close>
  | PmuRead ULONG ULONG    \<comment> \<open>a read of it and the value returned\<close>
  | CcuStall nat           \<comment> \<open>KeStallExecutionProcessor, in microseconds\<close>

type_synonym trace = "ccu_ev list"

text \<open>What the power management unit answers, and the registers at boot.\<close>

record ccu_env =
  pmu_answer :: "trace \<Rightarrow> ULONG \<Rightarrow> ULONG"
  boot_cru :: "ULONG \<Rightarrow> ULONG"
  boot_pmu :: "ULONG \<Rightarrow> ULONG"

definition pmu_get :: "ccu_env \<Rightarrow> ULONG \<Rightarrow> trace \<Rightarrow> ULONG \<times> trace" where
  "pmu_get K off h = (pmu_answer K h off, PmuRead off (pmu_answer K h off) # h)"

fun is_write :: "ccu_ev \<Rightarrow> bool" where
  "is_write (CruWrite _ _) = True"
| "is_write (PmuWrite _ _) = True"
| "is_write _ = False"

section \<open>Registers with a write mask\<close>

definition hiword :: "ULONG \<Rightarrow> ULONG \<Rightarrow> ULONG" where
  "hiword mk val = (push_bit 16 mk OR (val AND mk))"

definition hiword_apply :: "ULONG \<Rightarrow> ULONG \<Rightarrow> ULONG" where
  "hiword_apply w r = ((r AND NOT (drop_bit 16 w)) OR (w AND drop_bit 16 w))"

lemma hiword_apply_bits:
  assumes "mk < 0x10000"
  shows "hiword_apply (hiword mk val) r = ((r AND NOT mk) OR (val AND mk))"
proof -
  have "take_bit 16 (uint mk) = uint mk" using assms by (intro take_bit_int_eq_self) (simp_all add: word_less_def)
  then have "take_bit 16 mk = mk" by (simp add: word_uint_eq_iff unsigned_take_bit_eq)
  then have hi: "\<not> bit mk n" if "n \<ge> 16" for n using that by (metis bit_take_bit_iff not_le)
  then have lo: "bit mk n \<Longrightarrow> n < 16" for n using not_le by blast
  show ?thesis
    by (rule bit_word_eqI) (auto simp: hiword_apply_def hiword_def bit_simps hi dest: lo)
qed

fun reg_val :: "(ccu_ev \<Rightarrow> (ULONG \<times> ULONG) option) \<Rightarrow> (ULONG \<Rightarrow> ULONG) \<Rightarrow> trace \<Rightarrow> ULONG \<Rightarrow> ULONG" where
  "reg_val sel boot [] off = boot off"
| "reg_val sel boot (e # h) off = (case sel e of
       Some (o', w) \<Rightarrow> if o' = off then hiword_apply w (reg_val sel boot h off) else reg_val sel boot h off
     | None \<Rightarrow> reg_val sel boot h off)"

text \<open>A register file: what a masked write does to any group of bits of any register.\<close>

locale hiword_regs =
  fixes sel :: "ccu_ev \<Rightarrow> (ULONG \<times> ULONG) option" and wr :: "ULONG \<Rightarrow> ULONG \<Rightarrow> ccu_ev"
  assumes sel_wr: "sel (wr off w) = Some (off, w)"
    and sel_read: "\<not> is_write e \<Longrightarrow> sel e = None"
begin

lemma other_reg: "off \<noteq> off' \<Longrightarrow> reg_val sel boot (wr off w # h) off' = reg_val sel boot h off'"
  by (simp add: sel_wr)

lemma bits_inside:
  "mk < 0x10000 \<Longrightarrow> m AND mk = m \<Longrightarrow> reg_val sel boot (wr off (hiword mk val) # h) off AND m = val AND m"
  by (simp add: sel_wr hiword_apply_bits) (auto simp: bit_eq_iff bit_simps)

lemma bits_outside:
  "mk < 0x10000 \<Longrightarrow> m AND mk = 0 \<Longrightarrow> reg_val sel boot (wr off (hiword mk val) # h) off AND m = reg_val sel boot h off AND m"
  by (simp add: sel_wr hiword_apply_bits) (auto simp: bit_eq_iff bit_simps)

lemma quiet_val: "\<forall>e \<in> set es. \<not> is_write e \<Longrightarrow> reg_val sel boot (es @ h) off = reg_val sel boot h off"
  by (induction es) (auto simp: sel_read)

end

fun cru_sel :: "ccu_ev \<Rightarrow> (ULONG \<times> ULONG) option" where
  "cru_sel (CruWrite off w) = Some (off, w)"
| "cru_sel _ = None"

fun pmu_sel :: "ccu_ev \<Rightarrow> (ULONG \<times> ULONG) option" where
  "pmu_sel (PmuWrite off w) = Some (off, w)"
| "pmu_sel _ = None"

abbreviation cru :: "ccu_env \<Rightarrow> trace \<Rightarrow> ULONG \<Rightarrow> ULONG" where "cru K \<equiv> reg_val cru_sel (boot_cru K)"
abbreviation pmu :: "ccu_env \<Rightarrow> trace \<Rightarrow> ULONG \<Rightarrow> ULONG" where "pmu K \<equiv> reg_val pmu_sel (boot_pmu K)"

interpretation crur: hiword_regs cru_sel CruWrite
proof
  show "\<not> is_write e \<Longrightarrow> cru_sel e = None" for e by (cases e) simp_all
qed simp

interpretation pmur: hiword_regs pmu_sel PmuWrite
proof
  show "\<not> is_write e \<Longrightarrow> pmu_sel e = None" for e by (cases e) simp_all
qed simp

section \<open>Power domains\<close>

record RKMPP_PMU_DOMAIN =
  PwrOffset :: ULONG
  PwrBit :: ULONG
  StatusOffset :: ULONG
  StatusBit :: ULONG
  RepairStatusBit :: ULONG
  IdleReqOffset :: ULONG
  IdleReqBit :: ULONG
  IdleAckOffset :: ULONG
  IdleAckBit :: ULONG
  IdleStOffset :: ULONG
  IdleStBit :: ULONG

abbreviation RK3588_PMU_PWR_GATE_CON :: ULONG where "RK3588_PMU_PWR_GATE_CON \<equiv> 0x14C"
abbreviation RK3588_PMU_BUS_IDLE_REQ :: ULONG where "RK3588_PMU_BUS_IDLE_REQ \<equiv> 0x10C"
abbreviation RK3588_PMU_BUS_IDLE_ACK :: ULONG where "RK3588_PMU_BUS_IDLE_ACK \<equiv> 0x118"
abbreviation RK3588_PMU_BUS_IDLE_ST :: ULONG where "RK3588_PMU_BUS_IDLE_ST \<equiv> 0x120"
abbreviation RK3588_PMU_PWR_GATE_STATUS :: ULONG where "RK3588_PMU_PWR_GATE_STATUS \<equiv> 0x180"
abbreviation RK3588_PMU_PWR_REPAIR_STATUS :: ULONG where "RK3588_PMU_PWR_REPAIR_STATUS \<equiv> 0x290"

definition g_pdVcodec :: RKMPP_PMU_DOMAIN where
  "g_pdVcodec = \<lparr>PwrOffset = RK3588_PMU_PWR_GATE_CON, PwrBit = push_bit 2 1, StatusOffset = RK3588_PMU_PWR_GATE_STATUS,
     StatusBit = push_bit 2 1, RepairStatusBit = 0, IdleReqOffset = 0, IdleReqBit = 0, IdleAckOffset = 0, IdleAckBit = 0,
     IdleStOffset = 0, IdleStBit = 0\<rparr>"

definition g_pdVdpu :: RKMPP_PMU_DOMAIN where
  "g_pdVdpu = \<lparr>PwrOffset = RK3588_PMU_PWR_GATE_CON, PwrBit = push_bit 10 1, StatusOffset = 0, StatusBit = 0,
     RepairStatusBit = push_bit 9 1, IdleReqOffset = RK3588_PMU_BUS_IDLE_REQ, IdleReqBit = push_bit 8 1,
     IdleAckOffset = RK3588_PMU_BUS_IDLE_ACK, IdleAckBit = push_bit 8 1, IdleStOffset = RK3588_PMU_BUS_IDLE_ST,
     IdleStBit = push_bit 8 1\<rparr>"

definition g_pdRkvdec0 :: RKMPP_PMU_DOMAIN where
  "g_pdRkvdec0 = \<lparr>PwrOffset = RK3588_PMU_PWR_GATE_CON, PwrBit = push_bit 8 1, StatusOffset = 0, StatusBit = 0,
     RepairStatusBit = push_bit 7 1, IdleReqOffset = RK3588_PMU_BUS_IDLE_REQ, IdleReqBit = push_bit 6 1,
     IdleAckOffset = RK3588_PMU_BUS_IDLE_ACK, IdleAckBit = push_bit 6 1, IdleStOffset = RK3588_PMU_BUS_IDLE_ST,
     IdleStBit = push_bit 6 1\<rparr>"

definition g_pdRkvdec1 :: RKMPP_PMU_DOMAIN where
  "g_pdRkvdec1 = \<lparr>PwrOffset = RK3588_PMU_PWR_GATE_CON, PwrBit = push_bit 9 1, StatusOffset = 0, StatusBit = 0,
     RepairStatusBit = push_bit 8 1, IdleReqOffset = RK3588_PMU_BUS_IDLE_REQ, IdleReqBit = push_bit 7 1,
     IdleAckOffset = RK3588_PMU_BUS_IDLE_ACK, IdleAckBit = push_bit 7 1, IdleStOffset = RK3588_PMU_BUS_IDLE_ST,
     IdleStBit = push_bit 7 1\<rparr>"

definition g_pdAv1 :: RKMPP_PMU_DOMAIN where
  "g_pdAv1 = \<lparr>PwrOffset = RK3588_PMU_PWR_GATE_CON, PwrBit = push_bit 12 1, StatusOffset = 0, StatusBit = 0,
     RepairStatusBit = push_bit 11 1, IdleReqOffset = RK3588_PMU_BUS_IDLE_REQ, IdleReqBit = push_bit 9 1,
     IdleAckOffset = RK3588_PMU_BUS_IDLE_ACK, IdleAckBit = push_bit 9 1, IdleStOffset = RK3588_PMU_BUS_IDLE_ST,
     IdleStBit = push_bit 9 1\<rparr>"

lemmas pd_defs = g_pdVcodec_def g_pdVdpu_def g_pdRkvdec0_def g_pdRkvdec1_def g_pdAv1_def

section \<open>Operations\<close>

definition PmuHiwordWrite :: "ULONG \<Rightarrow> ULONG \<Rightarrow> ULONG \<Rightarrow> trace \<Rightarrow> trace" where
  "PmuHiwordWrite off mk val h = PmuWrite off (hiword mk val) # h"

definition PmuDomainIsOn :: "ccu_env \<Rightarrow> RKMPP_PMU_DOMAIN \<Rightarrow> trace \<Rightarrow> bool \<times> trace" where
  "PmuDomainIsOn K D h =
     (if RepairStatusBit D \<noteq> 0
      then let (v, h1) = pmu_get K RK3588_PMU_PWR_REPAIR_STATUS h in (v AND RepairStatusBit D \<noteq> 0, h1)
      else if StatusBit D \<noteq> 0 then let (v, h1) = pmu_get K (StatusOffset D) h in (v AND StatusBit D = 0, h1)
      else (True, h))"

definition PmuDomainHasStatusPath :: "RKMPP_PMU_DOMAIN \<Rightarrow> bool" where
  "PmuDomainHasStatusPath D \<longleftrightarrow> RepairStatusBit D \<noteq> 0 \<or> StatusBit D \<noteq> 0"

text \<open>A loop that reads a condition up to \<open>n\<close> times, one microsecond apart.\<close>

fun poll_us :: "(trace \<Rightarrow> bool \<times> trace) \<Rightarrow> nat \<Rightarrow> trace \<Rightarrow> bool \<times> trace" where
  "poll_us cond 0 h = (False, h)"
| "poll_us cond (Suc n) h = (let (ok, h1) = cond h in if ok then (True, h1) else poll_us cond n (CcuStall 1 # h1))"

text \<open>The acknowledge bit of a domain has a given value.\<close>

definition ack_is :: "ccu_env \<Rightarrow> RKMPP_PMU_DOMAIN \<Rightarrow> (ULONG \<Rightarrow> bool) \<Rightarrow> trace \<Rightarrow> bool \<times> trace" where
  "ack_is K D P h = (let (v, h1) = pmu_get K (IdleAckOffset D) h in (P (v AND IdleAckBit D), h1))"

definition ack_timeout_dump :: "ccu_env \<Rightarrow> trace \<Rightarrow> trace" where
  "ack_timeout_dump K h = fold (\<lambda>off h. snd (pmu_get K off h))
     [RK3588_PMU_BUS_IDLE_REQ, RK3588_PMU_BUS_IDLE_ACK, RK3588_PMU_BUS_IDLE_ST, RK3588_PMU_PWR_GATE_CON,
      RK3588_PMU_PWR_GATE_STATUS, RK3588_PMU_PWR_REPAIR_STATUS] h"

text \<open>\<open>mapped\<close> is whether \<^verbatim>\<open>g_pmu_mmio\<close> is set.\<close>

definition RkMppPmuPowerOn :: "ccu_env \<Rightarrow> bool \<Rightarrow> RKMPP_PMU_DOMAIN \<Rightarrow> trace \<Rightarrow> NTSTATUS \<times> trace" where
  "RkMppPmuPowerOn K mapped D h =
     (if \<not> mapped then (STATUS_DEVICE_NOT_READY, h)
      else let h1 = PmuHiwordWrite (PwrOffset D) (PwrBit D) 0 h;
               (on, h2) = poll_us (PmuDomainIsOn K D) 10000 h1
           in if \<not> on then (STATUS_DEVICE_HARDWARE_ERROR, h2)
              else if IdleReqOffset D = 0 then (STATUS_SUCCESS, h2)
              else let (idle_st, h3) = pmu_get K (IdleStOffset D) h2
                   in if idle_st AND IdleStBit D = 0 then (STATUS_SUCCESS, h3)
                      else let h4 = PmuHiwordWrite (IdleReqOffset D) (IdleReqBit D) 0 h3;
                               (ok, h5) = poll_us (ack_is K D (\<lambda>a. a = 0)) 10000 h4
                           in if ok then (STATUS_SUCCESS, h5)
                              else (STATUS_DEVICE_HARDWARE_ERROR, ack_timeout_dump K h5))"

text \<open>Step 1 of powering off: ask the bus to go idle; a domain without the handshake is done at once.\<close>

definition bus_idle :: "ccu_env \<Rightarrow> RKMPP_PMU_DOMAIN \<Rightarrow> trace \<Rightarrow> bool \<times> trace" where
  "bus_idle K D h =
     (if IdleReqOffset D = 0 then (True, h)
      else poll_us (ack_is K D (\<lambda>a. a \<noteq> 0)) 10000 (PmuHiwordWrite (IdleReqOffset D) (IdleReqBit D) (IdleReqBit D) h))"

definition RkMppPmuPowerOff :: "ccu_env \<Rightarrow> bool \<Rightarrow> RKMPP_PMU_DOMAIN \<Rightarrow> trace \<Rightarrow> NTSTATUS \<times> trace" where
  "RkMppPmuPowerOff K mapped D h =
     (if \<not> mapped then (STATUS_DEVICE_NOT_READY, h)
      else let (idled, h1) = bus_idle K D h
           in if \<not> idled then (STATUS_DEVICE_HARDWARE_ERROR, h1)
              else let h2 = PmuHiwordWrite (PwrOffset D) (PwrBit D) (PwrBit D) h1
                   in if \<not> PmuDomainHasStatusPath D then (STATUS_SUCCESS, CcuStall 5 # h2)
                      else (STATUS_SUCCESS, snd (poll_us (\<lambda>h. let (on, h1) = PmuDomainIsOn K D h in (\<not> on, h1)) 10000 h2)))"

definition RkMppPmuIdleRequest :: "ccu_env \<Rightarrow> bool \<Rightarrow> RKMPP_PMU_DOMAIN \<Rightarrow> bool \<Rightarrow> trace \<Rightarrow> NTSTATUS \<times> trace" where
  "RkMppPmuIdleRequest K mapped D Idle h =
     (if \<not> mapped then (STATUS_DEVICE_NOT_READY, h)
      else if IdleReqOffset D = 0 then (STATUS_SUCCESS, h)
      else let target = (if Idle then IdleReqBit D else 0)
           in (STATUS_SUCCESS, snd (poll_us (ack_is K D (\<lambda>a. a = target)) 10000
                                      (PmuHiwordWrite (IdleReqOffset D) (IdleReqBit D) target h))))"

section \<open>Polling writes nothing\<close>

text \<open>\<open>quiet h h'\<close>: the history grew from \<open>h\<close> to \<open>h'\<close> by reads and delays only.\<close>

definition quiet :: "trace \<Rightarrow> trace \<Rightarrow> bool" where
  "quiet h h' \<longleftrightarrow> (\<exists>es. h' = es @ h \<and> (\<forall>e \<in> set es. \<not> is_write e))"

lemma pmu_quiet_refl [simp, intro]: "quiet h h" by (auto simp: quiet_def)

lemma pmu_quiet_trans [trans]: "quiet h h1 \<Longrightarrow> quiet h1 h2 \<Longrightarrow> quiet h h2"
  by (auto simp: quiet_def)

lemma quiet_step [intro]: "\<not> is_write e \<Longrightarrow> quiet h h' \<Longrightarrow> quiet h (e # h')"
  by (auto simp: quiet_def intro: exI[of _ "e # _"])

lemma quiet_regs: "quiet h h' \<Longrightarrow> cru K h' off = cru K h off \<and> pmu K h' off = pmu K h off"
  by (auto simp: quiet_def crur.quiet_val pmur.quiet_val)

lemma quiet_get [intro]: "quiet h (snd (pmu_get K off h))" by (auto simp: pmu_get_def)

lemma quiet_is_on: "quiet h (snd (PmuDomainIsOn K D h))"
  by (auto simp: PmuDomainIsOn_def pmu_get_def)

lemma quiet_ack: "quiet h (snd (ack_is K D P h))" by (auto simp: ack_is_def pmu_get_def)

lemma quiet_poll:
  assumes "\<And>h. quiet h (snd (cond h))"
  shows "quiet h (snd (poll_us cond n h))"
proof (induction n arbitrary: h)
  case (Suc n)
  obtain ok h1 where c: "cond h = (ok, h1)" by (cases "cond h")
  then have "quiet h h1" using assms[of h] by simp
  moreover from this have "quiet h (CcuStall 1 # h1)" by (intro quiet_step) simp_all
  ultimately show ?case using pmu_quiet_trans[OF _ Suc[of "CcuStall 1 # h1"]] c by simp
qed simp

lemma quiet_fold:
  assumes "\<And>x h. quiet h (f x h)"
  shows "quiet h (fold f xs h)"
  by (induction xs arbitrary: h) (auto intro: pmu_quiet_trans assms)

lemma quiet_dump: "quiet h (ack_timeout_dump K h)"
  unfolding ack_timeout_dump_def by (rule quiet_fold) (rule quiet_get)

lemma quiet_poll_on: "quiet h (snd (poll_us (PmuDomainIsOn K D) n h))"
  by (rule quiet_poll) (rule quiet_is_on)

lemma quiet_poll_ack: "quiet h (snd (poll_us (ack_is K D P) n h))"
  by (rule quiet_poll) (rule quiet_ack)

text \<open>The writes of the three operations, in their order.\<close>

lemma PowerOn_trace:
  assumes "RkMppPmuPowerOn K True D h = (s, h')"
  shows "quiet (PmuHiwordWrite (PwrOffset D) (PwrBit D) 0 h) h' \<or> IdleReqOffset D \<noteq> 0 \<and>
    (\<exists>h3. quiet (PmuHiwordWrite (PwrOffset D) (PwrBit D) 0 h) h3 \<and> quiet (PmuHiwordWrite (IdleReqOffset D) (IdleReqBit D) 0 h3) h')"
proof -
  let ?h1 = "PmuHiwordWrite (PwrOffset D) (PwrBit D) 0 h"
  obtain on h2 where p: "poll_us (PmuDomainIsOn K D) 10000 ?h1 = (on, h2)" by (cases "poll_us (PmuDomainIsOn K D) 10000 ?h1")
  have q2: "quiet ?h1 h2" using quiet_poll_on[of ?h1 K D 10000] p by simp
  obtain st h3 where g: "pmu_get K (IdleStOffset D) h2 = (st, h3)" by (cases "pmu_get K (IdleStOffset D) h2")
  have q3: "quiet ?h1 h3" using pmu_quiet_trans[OF q2 quiet_get[of h2 K "IdleStOffset D"]] g by simp
  let ?h4 = "PmuHiwordWrite (IdleReqOffset D) (IdleReqBit D) 0 h3"
  obtain ok h5 where a: "poll_us (ack_is K D (\<lambda>a. a = 0)) 10000 ?h4 = (ok, h5)" by (cases "poll_us (ack_is K D (\<lambda>a. a = 0)) 10000 ?h4")
  have q5: "quiet ?h4 h5" "quiet ?h4 (ack_timeout_dump K h5)"
    using quiet_poll_ack[of ?h4 K D "\<lambda>a. a = 0" 10000] pmu_quiet_trans[OF _ quiet_dump[of h5 K]] a by simp_all
  show ?thesis using assms q2 q3 q5 by (auto simp: RkMppPmuPowerOn_def p g a Let_def split: if_splits)
qed

lemma bus_idle_trace:
  assumes "bus_idle K D h = (ok, h1)"
  shows "if IdleReqOffset D = 0 then ok \<and> h1 = h else quiet (PmuHiwordWrite (IdleReqOffset D) (IdleReqBit D) (IdleReqBit D) h) h1"
  using assms quiet_poll_ack[of "PmuHiwordWrite (IdleReqOffset D) (IdleReqBit D) (IdleReqBit D) h" K D "\<lambda>a. a \<noteq> 0" 10000]
  by (auto simp: bus_idle_def split: if_splits)

lemma PowerOff_trace:
  assumes "RkMppPmuPowerOff K True D h = (s, h')" "bus_idle K D h = (ok, h1)"
  shows "if ok then s = STATUS_SUCCESS \<and> quiet (PmuHiwordWrite (PwrOffset D) (PwrBit D) (PwrBit D) h1) h'
    else s = STATUS_DEVICE_HARDWARE_ERROR \<and> h' = h1"
proof -
  let ?h2 = "PmuHiwordWrite (PwrOffset D) (PwrBit D) (PwrBit D) h1"
  let ?off = "\<lambda>h. let (on, h1) = PmuDomainIsOn K D h in (\<not> on, h1)"
  have "quiet h (snd (?off h))" for h using quiet_is_on[of h K D] by (simp add: case_prod_beta)
  from quiet_poll[OF this, of ?h2 10000] assms show ?thesis
    by (auto simp: RkMppPmuPowerOff_def Let_def split: if_splits)
qed

lemma IdleRequest_trace:
  assumes "RkMppPmuIdleRequest K True D Idle h = (s, h')" "IdleReqOffset D \<noteq> 0"
  shows "s = STATUS_SUCCESS \<and> quiet (PmuHiwordWrite (IdleReqOffset D) (IdleReqBit D) (if Idle then IdleReqBit D else 0) h) h'"
  using assms quiet_poll_ack[of "PmuHiwordWrite (IdleReqOffset D) (IdleReqBit D) (if Idle then IdleReqBit D else 0) h" K D
    "\<lambda>a. a = (if Idle then IdleReqBit D else 0)" 10000]
  by (auto simp: RkMppPmuIdleRequest_def Let_def)

text \<open>Polls decide at once if the condition holds, and never if it never holds.\<close>

lemma poll_now: "cond h = (True, h1) \<Longrightarrow> 0 < n \<Longrightarrow> poll_us cond n h = (True, h1)"
  by (cases n) simp_all

lemma poll_never: "(\<And>h. \<not> fst (cond h)) \<Longrightarrow> \<not> fst (poll_us cond n h)"
proof (induction n arbitrary: h)
  case (Suc n)
  then have "\<not> fst (poll_us cond n (CcuStall 1 # snd (cond h)))" "\<not> fst (cond h)" by blast+
  then show ?case by (simp add: case_prod_beta)
qed simp

end
