(* ===== verification/Ccu_Cluster.thy ===== *)
theory Ccu_Cluster
  imports Pmu_Domain
begin

text \<open>
  The clock, reset and power sequences of \<^verbatim>\<open>driver/rkmpp_ccu/ccu.c\<close>: the reference-counted raise and drop of the two decoder
  clusters and of their shared parents, the clock gates and resets of single cores, and the recovery resets. All entry points
  that count references run under one mutex, so a call is one step.
\<close>

section \<open>Registers\<close>

abbreviation RDCC_CRU_CLKGATE_CON40 :: ULONG where "RDCC_CRU_CLKGATE_CON40 \<equiv> 0x8A0"
abbreviation RDCC_CRU_CLKGATE_CON41 :: ULONG where "RDCC_CRU_CLKGATE_CON41 \<equiv> 0x8A4"
abbreviation RDCC_CRU_CLKGATE_CON44 :: ULONG where "RDCC_CRU_CLKGATE_CON44 \<equiv> 0x8B0"
abbreviation RDCC_CRU_SOFTRST_CON40 :: ULONG where "RDCC_CRU_SOFTRST_CON40 \<equiv> 0xAA0"
abbreviation RDCC_CRU_SOFTRST_CON41 :: ULONG where "RDCC_CRU_SOFTRST_CON41 \<equiv> 0xAA4"
abbreviation RDCC_CRU_SOFTRST_CON44 :: ULONG where "RDCC_CRU_SOFTRST_CON44 \<equiv> 0xAB0"
abbreviation RDCC_CRU_CLKSEL_CON89 :: ULONG where "RDCC_CRU_CLKSEL_CON89 \<equiv> 0x464"
abbreviation RDCC_CRU_CLKSEL_CON90 :: ULONG where "RDCC_CRU_CLKSEL_CON90 \<equiv> 0x468"
abbreviation RDCC_CRU_CLKSEL_CON91 :: ULONG where "RDCC_CRU_CLKSEL_CON91 \<equiv> 0x46C"
abbreviation RDCC_CRU_CLKSEL_CON163 :: ULONG where "RDCC_CRU_CLKSEL_CON163 \<equiv> 0x58C"
abbreviation RDCC_CRU_CLKGATE_CON68 :: ULONG where "RDCC_CRU_CLKGATE_CON68 \<equiv> 0x910"
abbreviation RDCC_CRU_SOFTRST_CON68 :: ULONG where "RDCC_CRU_SOFTRST_CON68 \<equiv> 0xB10"
abbreviation RDCC_CRU_CLKGATE_CON68_MASK :: ULONG where "RDCC_CRU_CLKGATE_CON68_MASK \<equiv> 0x9"
abbreviation RDCC_CRU_SOFTRST_CON68_MASK :: ULONG where "RDCC_CRU_SOFTRST_CON68_MASK \<equiv> 0x36"

record RDCC_REGS =
  ClkGateCon44 :: ULONG
  ClkGateCon44Mask :: ULONG
  ClkGateCon40 :: ULONG
  ClkGateCon40Mask :: ULONG
  ClkGateCon41 :: ULONG
  ClkGateCon41Mask :: ULONG
  SoftRstCon40 :: ULONG
  SoftRstCon40Mask :: ULONG
  SoftRstCon41 :: ULONG
  SoftRstCon41Mask :: ULONG
  SoftRstCon44 :: ULONG
  SoftRstCon44Mask :: ULONG

definition g_rdcc :: RDCC_REGS where
  [simp]: "g_rdcc = \<lparr>ClkGateCon44 = RDCC_CRU_CLKGATE_CON44, ClkGateCon44Mask = 0x77,
     ClkGateCon40 = RDCC_CRU_CLKGATE_CON40, ClkGateCon40Mask = 0x3FF, ClkGateCon41 = RDCC_CRU_CLKGATE_CON41, ClkGateCon41Mask = 0x1CF,
     SoftRstCon40 = RDCC_CRU_SOFTRST_CON40, SoftRstCon40Mask = 0x3FC, SoftRstCon41 = RDCC_CRU_SOFTRST_CON41, SoftRstCon41Mask = 0x1FC,
     SoftRstCon44 = RDCC_CRU_SOFTRST_CON44, SoftRstCon44Mask = 0x70\<rparr>"

abbreviation RDCC_CON40_CORE_RESET_BIT :: ULONG where "RDCC_CON40_CORE_RESET_BIT \<equiv> 0x3C0"
abbreviation RDCC_CON41_CORE_RESET_BIT :: ULONG where "RDCC_CON41_CORE_RESET_BIT \<equiv> 0x1C0"
abbreviation RDCC_CON40_LEAF_GATE_MASK :: ULONG where "RDCC_CON40_LEAF_GATE_MASK \<equiv> 0x380"
abbreviation RDCC_CON41_LEAF_GATE_MASK :: ULONG where "RDCC_CON41_LEAF_GATE_MASK \<equiv> 0x1C0"

text \<open>
  The globals of the driver. A pointer to mapped registers is whether it is set. The reference counts are C \<^verbatim>\<open>LONG\<close>s; they count
  devices, and their overflow would be undefined behaviour, so they are integers.
\<close>

record ccu =
  g_cru_mmio :: bool
  g_pmu_mmio :: bool
  g_raise_refcount :: int
  g_av1_refcount :: int
  g_parents_refcount :: int
  hw :: trace

section \<open>Primitive steps\<close>

definition RkCcuHiwordWrite :: "ULONG \<Rightarrow> ULONG \<Rightarrow> ULONG \<Rightarrow> ccu \<Rightarrow> ccu" where
  "RkCcuHiwordWrite off mk val s = s\<lparr>hw := CruWrite off (hiword mk val) # hw s\<rparr>"

definition ccu_stall :: "nat \<Rightarrow> ccu \<Rightarrow> ccu" where
  "ccu_stall us s = s\<lparr>hw := CcuStall us # hw s\<rparr>"

definition pmu_on :: "ccu_env \<Rightarrow> RKMPP_PMU_DOMAIN \<Rightarrow> ccu \<Rightarrow> NTSTATUS \<times> ccu" where
  "pmu_on K D s = (let (st, h) = RkMppPmuPowerOn K (g_pmu_mmio s) D (hw s) in (st, s\<lparr>hw := h\<rparr>))"

definition pmu_off :: "ccu_env \<Rightarrow> RKMPP_PMU_DOMAIN \<Rightarrow> ccu \<Rightarrow> NTSTATUS \<times> ccu" where
  "pmu_off K D s = (let (st, h) = RkMppPmuPowerOff K (g_pmu_mmio s) D (hw s) in (st, s\<lparr>hw := h\<rparr>))"

definition pmu_idle :: "ccu_env \<Rightarrow> RKMPP_PMU_DOMAIN \<Rightarrow> bool \<Rightarrow> ccu \<Rightarrow> NTSTATUS \<times> ccu" where
  "pmu_idle K D Idle s = (let (st, h) = RkMppPmuIdleRequest K (g_pmu_mmio s) D Idle (hw s) in (st, s\<lparr>hw := h\<rparr>))"

section \<open>Raising and dropping\<close>

definition RaiseParents :: "ccu_env \<Rightarrow> ccu \<Rightarrow> NTSTATUS \<times> ccu" where
  "RaiseParents K s =
     (let s0 = s\<lparr>g_parents_refcount := g_parents_refcount s + 1\<rparr>
      in if g_parents_refcount s0 \<noteq> 1 then (STATUS_SUCCESS, s0)
         else let (st, s1) = pmu_on K g_pdVcodec s0
              in if \<not> NT_SUCCESS st then (st, s1\<lparr>g_parents_refcount := g_parents_refcount s1 - 1\<rparr>)
                 else let s2 = RkCcuHiwordWrite (ClkGateCon44 g_rdcc) (ClkGateCon44Mask g_rdcc) 0 s1;
                          s3 = RkCcuHiwordWrite (SoftRstCon44 g_rdcc) (SoftRstCon44Mask g_rdcc) 0 s2;
                          (st2, s4) = pmu_on K g_pdVdpu s3
                      in if \<not> NT_SUCCESS st2
                         then let s5 = RkCcuHiwordWrite (ClkGateCon44 g_rdcc) (ClkGateCon44Mask g_rdcc) (ClkGateCon44Mask g_rdcc) s4;
                                  s6 = RkCcuHiwordWrite (SoftRstCon44 g_rdcc) (SoftRstCon44Mask g_rdcc) (SoftRstCon44Mask g_rdcc) s5;
                                  s7 = snd (pmu_off K g_pdVcodec s6)
                              in (st2, s7\<lparr>g_parents_refcount := g_parents_refcount s7 - 1\<rparr>)
                         else (STATUS_SUCCESS, s4))"

definition DropParents :: "ccu_env \<Rightarrow> ccu \<Rightarrow> ccu" where
  "DropParents K s =
     (let s0 = s\<lparr>g_parents_refcount := g_parents_refcount s - 1\<rparr>
      in if g_parents_refcount s0 \<noteq> 0 then s0
         else let s1 = snd (pmu_off K g_pdVdpu s0);
                  s2 = RkCcuHiwordWrite (SoftRstCon44 g_rdcc) (SoftRstCon44Mask g_rdcc) (SoftRstCon44Mask g_rdcc) s1;
                  s3 = RkCcuHiwordWrite (ClkGateCon44 g_rdcc) (ClkGateCon44Mask g_rdcc) (ClkGateCon44Mask g_rdcc) s2
              in snd (pmu_off K g_pdVcodec s3))"

text \<open>The three clock selectors of RVD0.\<close>

definition clksel_rvd0 :: "ccu \<Rightarrow> ccu" where
  "clksel_rvd0 s = RkCcuHiwordWrite RDCC_CRU_CLKSEL_CON91 0x3F 0x1
     (RkCcuHiwordWrite RDCC_CRU_CLKSEL_CON90 0x1FFF 0x1801 (RkCcuHiwordWrite RDCC_CRU_CLKSEL_CON89 0xFFFF 0x300 s))"

text \<open>The clocks and resets of one core's group: running and released, or stopped and asserted.\<close>

definition rvd0_clocks_on :: "ccu \<Rightarrow> ccu" where
  "rvd0_clocks_on s = RkCcuHiwordWrite (SoftRstCon40 g_rdcc) (SoftRstCon40Mask g_rdcc) 0
     (RkCcuHiwordWrite (ClkGateCon40 g_rdcc) (ClkGateCon40Mask g_rdcc) 0 s)"

definition rvd0_clocks_off :: "ccu \<Rightarrow> ccu" where
  "rvd0_clocks_off s = RkCcuHiwordWrite (ClkGateCon40 g_rdcc) (ClkGateCon40Mask g_rdcc) (ClkGateCon40Mask g_rdcc)
     (RkCcuHiwordWrite (SoftRstCon40 g_rdcc) (SoftRstCon40Mask g_rdcc) (SoftRstCon40Mask g_rdcc) s)"

definition rvd1_clocks_on :: "ccu \<Rightarrow> ccu" where
  "rvd1_clocks_on s = RkCcuHiwordWrite (SoftRstCon41 g_rdcc) (SoftRstCon41Mask g_rdcc) 0
     (RkCcuHiwordWrite (ClkGateCon41 g_rdcc) (ClkGateCon41Mask g_rdcc) 0 s)"

definition rvd1_clocks_off :: "ccu \<Rightarrow> ccu" where
  "rvd1_clocks_off s = RkCcuHiwordWrite (ClkGateCon41 g_rdcc) (ClkGateCon41Mask g_rdcc) (ClkGateCon41Mask g_rdcc)
     (RkCcuHiwordWrite (SoftRstCon41 g_rdcc) (SoftRstCon41Mask g_rdcc) (SoftRstCon41Mask g_rdcc) s)"

definition rvd0_failure_dump :: "ccu \<Rightarrow> ccu" where
  "rvd0_failure_dump s = s\<lparr>hw := [CruRead RDCC_CRU_SOFTRST_CON40, CruRead RDCC_CRU_CLKSEL_CON89, CruRead RDCC_CRU_CLKGATE_CON44,
     CruRead RDCC_CRU_CLKGATE_CON40] @ hw s\<rparr>"

definition RkMppCcuRaiseCluster :: "ccu_env \<Rightarrow> ccu \<Rightarrow> NTSTATUS \<times> ccu" where
  "RkMppCcuRaiseCluster K s =
     (if \<not> g_cru_mmio s then (STATUS_DEVICE_NOT_READY, s)
      else if g_raise_refcount s > 0 then (STATUS_SUCCESS, s\<lparr>g_raise_refcount := g_raise_refcount s + 1\<rparr>)
      else let (st, s1) = RaiseParents K s
           in if \<not> NT_SUCCESS st then (st, s1)
              else let (st0, s2) = pmu_on K g_pdRkvdec0 (rvd0_clocks_on (clksel_rvd0 s1))
                   in if \<not> NT_SUCCESS st0 then (st0, DropParents K (rvd0_clocks_off (rvd0_failure_dump s2)))
                      else let (st1, s3) = pmu_on K g_pdRkvdec1 (rvd1_clocks_on s2)
                           in if \<not> NT_SUCCESS st1
                              then let s4 = snd (pmu_off K g_pdRkvdec0 (rvd1_clocks_off s3))
                                   in (st1, DropParents K (rvd0_clocks_off s4))
                              else (STATUS_SUCCESS, s3\<lparr>g_raise_refcount := 1\<rparr>))"

definition RkMppCcuDropCluster :: "ccu_env \<Rightarrow> ccu \<Rightarrow> NTSTATUS \<times> ccu" where
  "RkMppCcuDropCluster K s =
     (if \<not> g_cru_mmio s then (STATUS_SUCCESS, s)
      else if g_raise_refcount s > 1 then (STATUS_SUCCESS, s\<lparr>g_raise_refcount := g_raise_refcount s - 1\<rparr>)
      else if g_raise_refcount s = 0 then (STATUS_SUCCESS, s)
      else let s1 = snd (pmu_off K g_pdRkvdec1 s);
               s2 = snd (pmu_off K g_pdRkvdec0 s1);
               s3 = RkCcuHiwordWrite (SoftRstCon40 g_rdcc) (SoftRstCon40Mask g_rdcc) (SoftRstCon40Mask g_rdcc) s2;
               s4 = RkCcuHiwordWrite (SoftRstCon41 g_rdcc) (SoftRstCon41Mask g_rdcc) (SoftRstCon41Mask g_rdcc) s3;
               s5 = RkCcuHiwordWrite (ClkGateCon41 g_rdcc) (ClkGateCon41Mask g_rdcc) (ClkGateCon41Mask g_rdcc) s4;
               s6 = RkCcuHiwordWrite (ClkGateCon40 g_rdcc) (ClkGateCon40Mask g_rdcc) (ClkGateCon40Mask g_rdcc) s5
           in (STATUS_SUCCESS, (DropParents K s6)\<lparr>g_raise_refcount := 0\<rparr>))"

definition av1_failure_dump :: "ccu \<Rightarrow> ccu" where
  "av1_failure_dump s = s\<lparr>hw := [CruRead RDCC_CRU_SOFTRST_CON68, CruRead RDCC_CRU_CLKSEL_CON163, CruRead RDCC_CRU_CLKGATE_CON68] @ hw s\<rparr>"

definition RkMppCcuRaiseAv1Cluster :: "ccu_env \<Rightarrow> ccu \<Rightarrow> NTSTATUS \<times> ccu" where
  "RkMppCcuRaiseAv1Cluster K s =
     (if \<not> g_cru_mmio s then (STATUS_DEVICE_NOT_READY, s)
      else if g_av1_refcount s > 0 then (STATUS_SUCCESS, s\<lparr>g_av1_refcount := g_av1_refcount s + 1\<rparr>)
      else let (st, s1) = RaiseParents K s
           in if \<not> NT_SUCCESS st then (st, s1)
              else let s2 = RkCcuHiwordWrite RDCC_CRU_CLKSEL_CON163 0x1FF 0x2 s1;
                       s3 = RkCcuHiwordWrite RDCC_CRU_CLKGATE_CON68 RDCC_CRU_CLKGATE_CON68_MASK 0 s2;
                       s4 = RkCcuHiwordWrite RDCC_CRU_SOFTRST_CON68 RDCC_CRU_SOFTRST_CON68_MASK 0 s3;
                       (st1, s5) = pmu_on K g_pdAv1 s4
                   in if \<not> NT_SUCCESS st1
                      then (st1, DropParents K (RkCcuHiwordWrite RDCC_CRU_CLKGATE_CON68 RDCC_CRU_CLKGATE_CON68_MASK
                              RDCC_CRU_CLKGATE_CON68_MASK (av1_failure_dump s5)))
                      else (STATUS_SUCCESS, s5\<lparr>g_av1_refcount := 1\<rparr>))"

definition RkMppCcuDropAv1Cluster :: "ccu_env \<Rightarrow> ccu \<Rightarrow> NTSTATUS \<times> ccu" where
  "RkMppCcuDropAv1Cluster K s =
     (if \<not> g_cru_mmio s then (STATUS_SUCCESS, s)
      else if g_av1_refcount s > 1 then (STATUS_SUCCESS, s\<lparr>g_av1_refcount := g_av1_refcount s - 1\<rparr>)
      else if g_av1_refcount s = 0 then (STATUS_SUCCESS, s)
      else let s1 = snd (pmu_off K g_pdAv1 s);
               s2 = RkCcuHiwordWrite RDCC_CRU_SOFTRST_CON68 RDCC_CRU_SOFTRST_CON68_MASK RDCC_CRU_SOFTRST_CON68_MASK s1;
               s3 = RkCcuHiwordWrite RDCC_CRU_CLKGATE_CON68 RDCC_CRU_CLKGATE_CON68_MASK RDCC_CRU_CLKGATE_CON68_MASK s2
           in (STATUS_SUCCESS, (DropParents K s3)\<lparr>g_av1_refcount := 0\<rparr>))"

section \<open>Clocks and resets of single cores\<close>

text \<open>The entry points that write one masked word and nothing else, with the stall of the resets.\<close>

definition if_mapped :: "(ccu \<Rightarrow> ccu) \<Rightarrow> ccu \<Rightarrow> NTSTATUS \<times> ccu" where
  "if_mapped f s = (if \<not> g_cru_mmio s then (STATUS_DEVICE_NOT_READY, s) else (STATUS_SUCCESS, f s))"

definition RkMppCcuGateAv1LeafClocks :: "ccu \<Rightarrow> NTSTATUS \<times> ccu" where
  "RkMppCcuGateAv1LeafClocks = if_mapped (RkCcuHiwordWrite RDCC_CRU_CLKGATE_CON68 RDCC_CRU_CLKGATE_CON68_MASK RDCC_CRU_CLKGATE_CON68_MASK)"

definition RkMppCcuUngateAv1LeafClocks :: "ccu \<Rightarrow> NTSTATUS \<times> ccu" where
  "RkMppCcuUngateAv1LeafClocks = if_mapped (RkCcuHiwordWrite RDCC_CRU_CLKGATE_CON68 RDCC_CRU_CLKGATE_CON68_MASK 0)"

definition RkMppCcuGateRvdec0LeafClocks :: "ccu \<Rightarrow> NTSTATUS \<times> ccu" where
  "RkMppCcuGateRvdec0LeafClocks = if_mapped (RkCcuHiwordWrite (ClkGateCon40 g_rdcc) RDCC_CON40_LEAF_GATE_MASK RDCC_CON40_LEAF_GATE_MASK)"

definition RkMppCcuUngateRvdec0LeafClocks :: "ccu \<Rightarrow> NTSTATUS \<times> ccu" where
  "RkMppCcuUngateRvdec0LeafClocks = if_mapped (RkCcuHiwordWrite (ClkGateCon40 g_rdcc) RDCC_CON40_LEAF_GATE_MASK 0)"

definition RkMppCcuGateRvdec1LeafClocks :: "ccu \<Rightarrow> NTSTATUS \<times> ccu" where
  "RkMppCcuGateRvdec1LeafClocks = if_mapped (RkCcuHiwordWrite (ClkGateCon41 g_rdcc) RDCC_CON41_LEAF_GATE_MASK RDCC_CON41_LEAF_GATE_MASK)"

definition RkMppCcuUngateRvdec1LeafClocks :: "ccu \<Rightarrow> NTSTATUS \<times> ccu" where
  "RkMppCcuUngateRvdec1LeafClocks = if_mapped (RkCcuHiwordWrite (ClkGateCon41 g_rdcc) RDCC_CON41_LEAF_GATE_MASK 0)"

definition RkMppCcuAssertRvdec0CoreReset :: "ccu \<Rightarrow> NTSTATUS \<times> ccu" where
  "RkMppCcuAssertRvdec0CoreReset =
     if_mapped (\<lambda>s. ccu_stall 20 (RkCcuHiwordWrite (SoftRstCon40 g_rdcc) RDCC_CON40_CORE_RESET_BIT RDCC_CON40_CORE_RESET_BIT s))"

definition RkMppCcuDeassertRvdec0CoreReset :: "ccu \<Rightarrow> NTSTATUS \<times> ccu" where
  "RkMppCcuDeassertRvdec0CoreReset =
     if_mapped (\<lambda>s. ccu_stall 20 (RkCcuHiwordWrite (SoftRstCon40 g_rdcc) RDCC_CON40_CORE_RESET_BIT 0 s))"

definition RkMppCcuAssertRvdec1CoreReset :: "ccu \<Rightarrow> NTSTATUS \<times> ccu" where
  "RkMppCcuAssertRvdec1CoreReset =
     if_mapped (\<lambda>s. ccu_stall 20 (RkCcuHiwordWrite (SoftRstCon41 g_rdcc) RDCC_CON41_CORE_RESET_BIT RDCC_CON41_CORE_RESET_BIT s))"

definition RkMppCcuDeassertRvdec1CoreReset :: "ccu \<Rightarrow> NTSTATUS \<times> ccu" where
  "RkMppCcuDeassertRvdec1CoreReset =
     if_mapped (\<lambda>s. ccu_stall 20 (RkCcuHiwordWrite (SoftRstCon41 g_rdcc) RDCC_CON41_CORE_RESET_BIT 0 s))"

section \<open>Recovery resets\<close>

definition RkMppCcuFullCoreReset0 :: "ccu_env \<Rightarrow> ccu \<Rightarrow> NTSTATUS \<times> ccu" where
  "RkMppCcuFullCoreReset0 K s =
     (if \<not> g_cru_mmio s then (STATUS_DEVICE_NOT_READY, s)
      else let s1 = snd (pmu_off K g_pdRkvdec0 s);
               s2 = ccu_stall 20 (RkCcuHiwordWrite (SoftRstCon40 g_rdcc) (SoftRstCon40Mask g_rdcc) (SoftRstCon40Mask g_rdcc) s1);
               s3 = RkCcuHiwordWrite (ClkGateCon40 g_rdcc) (ClkGateCon40Mask g_rdcc) 0 (clksel_rvd0 s2);
               s4 = ccu_stall 20 (RkCcuHiwordWrite (SoftRstCon40 g_rdcc) (SoftRstCon40Mask g_rdcc) 0 s3)
           in pmu_on K g_pdRkvdec0 s4)"

definition RkMppCcuFullCoreReset1 :: "ccu_env \<Rightarrow> ccu \<Rightarrow> NTSTATUS \<times> ccu" where
  "RkMppCcuFullCoreReset1 K s =
     (if \<not> g_cru_mmio s then (STATUS_DEVICE_NOT_READY, s)
      else let s1 = snd (pmu_off K g_pdRkvdec1 s);
               s2 = ccu_stall 20 (RkCcuHiwordWrite (SoftRstCon41 g_rdcc) (SoftRstCon41Mask g_rdcc) (SoftRstCon41Mask g_rdcc) s1);
               s3 = RkCcuHiwordWrite (ClkGateCon41 g_rdcc) (ClkGateCon41Mask g_rdcc) 0 s2;
               s4 = ccu_stall 20 (RkCcuHiwordWrite (SoftRstCon41 g_rdcc) (SoftRstCon41Mask g_rdcc) 0 s3)
           in pmu_on K g_pdRkvdec1 s4)"

definition RkMppCcuFullAv1Reset :: "ccu_env \<Rightarrow> ccu \<Rightarrow> NTSTATUS \<times> ccu" where
  "RkMppCcuFullAv1Reset K s =
     (if \<not> g_cru_mmio s then (STATUS_DEVICE_NOT_READY, s)
      else let s1 = snd (pmu_idle K g_pdAv1 True s);
               s2 = ccu_stall 5 (RkCcuHiwordWrite RDCC_CRU_SOFTRST_CON68 RDCC_CRU_SOFTRST_CON68_MASK RDCC_CRU_SOFTRST_CON68_MASK s1);
               s3 = ccu_stall 20 (RkCcuHiwordWrite RDCC_CRU_SOFTRST_CON68 RDCC_CRU_SOFTRST_CON68_MASK 0 s2)
           in (STATUS_SUCCESS, snd (pmu_idle K g_pdAv1 False s3)))"

section \<open>The interface\<close>

text \<open>The entries of the interface table of \<^verbatim>\<open>driver/rkmpp_ccu/ifc.c\<close> that act on the hardware.\<close>

datatype ccu_entry = RaiseCluster | DropCluster | AssertRvdec0CoreReset | DeassertRvdec0CoreReset | GateRvdec0LeafClocks
  | UngateRvdec0LeafClocks | AssertRvdec1CoreReset | DeassertRvdec1CoreReset | GateRvdec1LeafClocks | UngateRvdec1LeafClocks
  | FullCoreReset0 | FullCoreReset1 | RaiseAv1Cluster | DropAv1Cluster | GateAv1LeafClocks | UngateAv1LeafClocks | FullAv1Reset

fun ccu_call_entry :: "ccu_env \<Rightarrow> ccu_entry \<Rightarrow> ccu \<Rightarrow> NTSTATUS \<times> ccu" where
  "ccu_call_entry K RaiseCluster = RkMppCcuRaiseCluster K"
| "ccu_call_entry K DropCluster = RkMppCcuDropCluster K"
| "ccu_call_entry K AssertRvdec0CoreReset = RkMppCcuAssertRvdec0CoreReset"
| "ccu_call_entry K DeassertRvdec0CoreReset = RkMppCcuDeassertRvdec0CoreReset"
| "ccu_call_entry K GateRvdec0LeafClocks = RkMppCcuGateRvdec0LeafClocks"
| "ccu_call_entry K UngateRvdec0LeafClocks = RkMppCcuUngateRvdec0LeafClocks"
| "ccu_call_entry K AssertRvdec1CoreReset = RkMppCcuAssertRvdec1CoreReset"
| "ccu_call_entry K DeassertRvdec1CoreReset = RkMppCcuDeassertRvdec1CoreReset"
| "ccu_call_entry K GateRvdec1LeafClocks = RkMppCcuGateRvdec1LeafClocks"
| "ccu_call_entry K UngateRvdec1LeafClocks = RkMppCcuUngateRvdec1LeafClocks"
| "ccu_call_entry K FullCoreReset0 = RkMppCcuFullCoreReset0 K"
| "ccu_call_entry K FullCoreReset1 = RkMppCcuFullCoreReset1 K"
| "ccu_call_entry K RaiseAv1Cluster = RkMppCcuRaiseAv1Cluster K"
| "ccu_call_entry K DropAv1Cluster = RkMppCcuDropAv1Cluster K"
| "ccu_call_entry K GateAv1LeafClocks = RkMppCcuGateAv1LeafClocks"
| "ccu_call_entry K UngateAv1LeafClocks = RkMppCcuUngateAv1LeafClocks"
| "ccu_call_entry K FullAv1Reset = RkMppCcuFullAv1Reset K"

end
