(* ===== verification/Ccu_Props.thy ===== *)
theory Ccu_Props
  imports Ccu_Cluster
begin

text \<open>
  Properties of the clock and reset driver. The bus of a power domain answers the idle handshake only while its clocks run and
  its resets are released, and a core needs its parent domains before it is powered; the sequences are built around these two
  rules. They are stated on the history of register accesses, whatever the power management unit answers.
\<close>

section \<open>What the registers say\<close>

declare reg_val.simps [simp del]

lemma other_events [simp]:
  "cru K (PmuWrite a w # h) off = cru K h off" "pmu K (CruWrite a w # h) off = pmu K h off"
  "cru K (CcuStall n # h) off = cru K h off" "pmu K (CcuStall n # h) off = pmu K h off"
  "cru K (CruRead a # h) off = cru K h off" "pmu K (CruRead a # h) off = pmu K h off"
  by (simp_all add: reg_val.simps)

lemmas reg_rules = crur.bits_inside crur.bits_outside crur.other_reg pmur.bits_inside pmur.bits_outside pmur.other_reg

definition domains :: "RKMPP_PMU_DOMAIN set" where
  "domains = {g_pdVcodec, g_pdVdpu, g_pdRkvdec0, g_pdRkvdec1, g_pdAv1}"

text \<open>The power gate of a domain is open.\<close>

definition pd_on :: "ccu_env \<Rightarrow> trace \<Rightarrow> RKMPP_PMU_DOMAIN \<Rightarrow> bool" where
  "pd_on K h D \<longleftrightarrow> pmu K h RK3588_PMU_PWR_GATE_CON AND PwrBit D = 0"

text \<open>
  The bus of a domain can answer: its clocks run and its resets are released. The clocks and resets inside the cores, which are
  switched per job, do not count; neither do the AV1 clocks, which the power callbacks of that driver stop.
\<close>

definition bus_ready :: "ccu_env \<Rightarrow> trace \<Rightarrow> RKMPP_PMU_DOMAIN \<Rightarrow> bool" where
  "bus_ready K h D \<longleftrightarrow>
     (D = g_pdVdpu \<longrightarrow> cru K h RDCC_CRU_CLKGATE_CON44 AND 0x77 = 0 \<and> cru K h RDCC_CRU_SOFTRST_CON44 AND 0x70 = 0) \<and>
     (D = g_pdRkvdec0 \<longrightarrow> cru K h RDCC_CRU_CLKGATE_CON40 AND 0x7F = 0 \<and> cru K h RDCC_CRU_SOFTRST_CON40 AND 0x3C = 0) \<and>
     (D = g_pdRkvdec1 \<longrightarrow> cru K h RDCC_CRU_CLKGATE_CON41 AND 0xF = 0 \<and> cru K h RDCC_CRU_SOFTRST_CON41 AND 0x3C = 0) \<and>
     (D = g_pdAv1 \<longrightarrow> cru K h RDCC_CRU_SOFTRST_CON68 AND 0x36 = 0)"

definition parents_on :: "ccu_env \<Rightarrow> trace \<Rightarrow> bool" where
  "parents_on K h \<longleftrightarrow> pd_on K h g_pdVcodec \<and> pd_on K h g_pdVdpu"

definition is_child :: "RKMPP_PMU_DOMAIN \<Rightarrow> bool" where
  "is_child D \<longleftrightarrow> D \<in> {g_pdRkvdec0, g_pdRkvdec1, g_pdAv1}"

text \<open>
  A write to the power management unit comes at the right time: a request to the bus of a domain when that bus is ready, an
  opening of a core's power gate when its parents are on.
\<close>

fun timely :: "ccu_env \<Rightarrow> ccu_ev \<Rightarrow> trace \<Rightarrow> bool" where
  "timely K (PmuWrite off w) h \<longleftrightarrow> (\<forall>D \<in> domains.
     (off = IdleReqOffset D \<and> drop_bit 16 w AND IdleReqBit D \<noteq> 0 \<longrightarrow> bus_ready K h D) \<and>
     (is_child D \<and> off = PwrOffset D \<and> drop_bit 16 w AND PwrBit D \<noteq> 0 \<and> w AND PwrBit D = 0 \<longrightarrow> parents_on K h))"
| "timely K _ h = True"

fun all_timely :: "ccu_env \<Rightarrow> trace \<Rightarrow> bool" where
  "all_timely K [] = True"
| "all_timely K (e # h) \<longleftrightarrow> timely K e h \<and> all_timely K h"

lemma quiet_timely: "quiet h h' \<Longrightarrow> all_timely K h' = all_timely K h"
proof -
  have "\<not> is_write e \<Longrightarrow> timely K e h" for e h by (cases e) simp_all
  then have "\<forall>e \<in> set es. \<not> is_write e \<Longrightarrow> all_timely K (es @ h) = all_timely K h" for es by (induction es) auto
  then show "quiet h h' \<Longrightarrow> all_timely K h' = all_timely K h" by (auto simp: quiet_def)
qed

lemma pwr_bits [simp]:
  "PwrBit g_pdVcodec = 0x4" "PwrBit g_pdVdpu = 0x400" "PwrBit g_pdRkvdec0 = 0x100" "PwrBit g_pdRkvdec1 = 0x200" "PwrBit g_pdAv1 = 0x1000"
  "PwrOffset g_pdVcodec = 0x14C" "PwrOffset g_pdVdpu = 0x14C" "PwrOffset g_pdRkvdec0 = 0x14C" "PwrOffset g_pdRkvdec1 = 0x14C" "PwrOffset g_pdAv1 = 0x14C"
  by (simp_all add: pd_defs)

lemma idle_bits [simp]:
  "IdleReqBit g_pdVcodec = 0" "IdleReqBit g_pdVdpu = 0x100" "IdleReqBit g_pdRkvdec0 = 0x40" "IdleReqBit g_pdRkvdec1 = 0x80" "IdleReqBit g_pdAv1 = 0x200"
  "IdleReqOffset g_pdVcodec = 0" "IdleReqOffset g_pdVdpu = 0x10C" "IdleReqOffset g_pdRkvdec0 = 0x10C" "IdleReqOffset g_pdRkvdec1 = 0x10C"
  "IdleReqOffset g_pdAv1 = 0x10C"
  by (simp_all add: pd_defs)

lemma domains_distinct [simp]:
  "g_pdVcodec \<noteq> g_pdVdpu" "g_pdVcodec \<noteq> g_pdRkvdec0" "g_pdVcodec \<noteq> g_pdRkvdec1" "g_pdVcodec \<noteq> g_pdAv1"
  "g_pdVdpu \<noteq> g_pdVcodec" "g_pdVdpu \<noteq> g_pdRkvdec0" "g_pdVdpu \<noteq> g_pdRkvdec1" "g_pdVdpu \<noteq> g_pdAv1"
  "g_pdRkvdec0 \<noteq> g_pdVcodec" "g_pdRkvdec0 \<noteq> g_pdVdpu" "g_pdRkvdec0 \<noteq> g_pdRkvdec1" "g_pdRkvdec0 \<noteq> g_pdAv1"
  "g_pdRkvdec1 \<noteq> g_pdVcodec" "g_pdRkvdec1 \<noteq> g_pdVdpu" "g_pdRkvdec1 \<noteq> g_pdRkvdec0" "g_pdRkvdec1 \<noteq> g_pdAv1"
  "g_pdAv1 \<noteq> g_pdVcodec" "g_pdAv1 \<noteq> g_pdVdpu" "g_pdAv1 \<noteq> g_pdRkvdec0" "g_pdAv1 \<noteq> g_pdRkvdec1"
  by (auto dest!: arg_cong[where f = PwrBit])

lemma domains_mem [simp]:
  "g_pdVcodec \<in> domains" "g_pdVdpu \<in> domains" "g_pdRkvdec0 \<in> domains" "g_pdRkvdec1 \<in> domains" "g_pdAv1 \<in> domains"
  by (simp_all add: domains_def)

lemma domain_cases:
  assumes "D \<in> domains"
  obtains "D = g_pdVcodec" | "D = g_pdVdpu" | "D = g_pdRkvdec0" | "D = g_pdRkvdec1" | "D = g_pdAv1"
  using assms by (auto simp: domains_def)

lemma domain_fields [simp]:
  assumes "D \<in> domains"
  shows "PwrOffset D = RK3588_PMU_PWR_GATE_CON" "PwrBit D < 0x10000" "IdleReqBit D < 0x10000"
    "IdleReqOffset D \<noteq> 0 \<longleftrightarrow> D \<noteq> g_pdVcodec" "IdleReqOffset D \<noteq> RK3588_PMU_PWR_GATE_CON"
  using assms by (cases rule: domain_cases; simp)+

lemma domains_disjoint:
  assumes "D \<in> domains" "D' \<in> domains"
  shows "PwrBit D AND PwrBit D' \<noteq> 0 \<longleftrightarrow> D = D'" "IdleReqBit D AND IdleReqBit D' \<noteq> 0 \<longleftrightarrow> D = D' \<and> D \<noteq> g_pdVcodec"
  using assms(1) by (cases rule: domain_cases; use assms(2) in \<open>cases rule: domain_cases; simp\<close>)+

section \<open>Effects of the power operations\<close>

lemma hiword_mask: "mk < 0x10000 \<Longrightarrow> drop_bit 16 (hiword mk val) = mk"
proof -
  assume a: "mk < 0x10000"
  have "take_bit 16 (uint mk) = uint mk" using a by (intro take_bit_int_eq_self) (simp_all add: word_less_def)
  then have "take_bit 16 mk = mk" by (simp add: word_uint_eq_iff unsigned_take_bit_eq)
  then have hi: "bit mk n \<Longrightarrow> n < 16" for n by (metis bit_take_bit_iff)
  show ?thesis by (rule bit_word_eqI) (auto simp: hiword_def bit_simps dest: hi)
qed

lemma quiet_view:
  "quiet h h' \<Longrightarrow> pd_on K h' D = pd_on K h D" "quiet h h' \<Longrightarrow> bus_ready K h' D = bus_ready K h D"
  "quiet h h' \<Longrightarrow> parents_on K h' = parents_on K h"
  by (simp_all add: pd_on_def bus_ready_def parents_on_def quiet_regs)

lemma pmu_write_bus [simp]: "bus_ready K (PmuWrite a w # h) D = bus_ready K h D"
  by (simp add: bus_ready_def)

lemma idle_write_on [simp]:
  "a \<noteq> RK3588_PMU_PWR_GATE_CON \<Longrightarrow> pd_on K (PmuWrite a w # h) D = pd_on K h D"
  by (simp add: pd_on_def reg_rules)

lemma power_write:
  assumes "D \<in> domains" "D' \<in> domains"
  shows "pd_on K (PmuWrite RK3588_PMU_PWR_GATE_CON (hiword (PwrBit D) val) # h) D' \<longleftrightarrow>
    (if D' = D then val AND PwrBit D = 0 else pd_on K h D')"
proof (cases "D' = D")
  case True
  then show ?thesis using assms by (simp add: pd_on_def pmur.bits_inside)
next
  case False
  then have "PwrBit D' AND PwrBit D = 0" using domains_disjoint(1)[OF assms(2,1)] by blast
  then show ?thesis using assms False by (simp add: pd_on_def pmur.bits_outside)
qed

text \<open>An idle request of a domain is timely if its bus is ready; closing a gate always is, opening one with the parents on.\<close>

lemma timely_idle:
  assumes "D \<in> domains" "D \<noteq> g_pdVcodec" "bus_ready K h D"
  shows "timely K (PmuWrite (IdleReqOffset D) (hiword (IdleReqBit D) val)) h"
proof -
  have "IdleReqBit D AND IdleReqBit D' \<noteq> 0 \<Longrightarrow> D' \<in> domains \<Longrightarrow> bus_ready K h D'" for D'
    using domains_disjoint(2)[OF assms(1)] assms(3) by blast
  moreover have "IdleReqOffset D \<noteq> PwrOffset D'" if "D' \<in> domains" for D' using that assms(1) by simp
  ultimately show ?thesis using assms(1) by (simp add: hiword_mask)
qed

lemma timely_power:
  assumes "D \<in> domains" "is_child D \<Longrightarrow> val = 0 \<Longrightarrow> parents_on K h" "val = 0 \<or> val = PwrBit D"
  shows "timely K (PmuWrite (PwrOffset D) (hiword (PwrBit D) val)) h"
proof -
  have v: "hiword (PwrBit D) (PwrBit D) AND PwrBit D \<noteq> 0"
    using assms(1) by (cases rule: domain_cases; simp add: hiword_def)
  have i: "PwrOffset D \<noteq> IdleReqOffset D'" if "D' \<in> domains" for D'
    using that assms(1) domain_fields(5)[OF that] by simp
  have p: "is_child D' \<Longrightarrow> PwrBit D AND PwrBit D' \<noteq> 0 \<Longrightarrow> hiword (PwrBit D) val AND PwrBit D' = 0 \<Longrightarrow> parents_on K h"
    if "D' \<in> domains" for D'
    using domains_disjoint(1)[OF assms(1) that] assms(2,3) v by auto
  show ?thesis using assms(1) i p by (simp add: hiword_mask)
qed

declare timely.simps(1) [simp del]

lemma pmu_on_effect:
  assumes "pmu_on K D s = (st, s')" "D \<in> domains"
  shows "s' = s\<lparr>hw := hw s'\<rparr>" "bus_ready K (hw s') D' = bus_ready K (hw s) D'"
    "D' \<in> domains \<Longrightarrow> pd_on K (hw s') D' \<longleftrightarrow> g_pmu_mmio s \<and> D' = D \<or> pd_on K (hw s) D'"
    "NT_SUCCESS st \<Longrightarrow> g_pmu_mmio s"
    "all_timely K (hw s) \<Longrightarrow> (is_child D \<Longrightarrow> parents_on K (hw s)) \<Longrightarrow> bus_ready K (hw s) D \<Longrightarrow> all_timely K (hw s')"
proof -
  obtain h' where o: "RkMppPmuPowerOn K (g_pmu_mmio s) D (hw s) = (st, h')" "s' = s\<lparr>hw := h'\<rparr>"
    using assms(1) by (auto simp: pmu_on_def split: prod.splits)
  show "s' = s\<lparr>hw := hw s'\<rparr>" using o by simp
  let ?h1 = "PmuHiwordWrite (PwrOffset D) (PwrBit D) 0 (hw s)"
  let ?h4 = "\<lambda>h3. PmuHiwordWrite (IdleReqOffset D) (IdleReqBit D) 0 h3"
  have un: "st = STATUS_DEVICE_NOT_READY \<and> h' = hw s" if "\<not> g_pmu_mmio s" using o that by (simp add: RkMppPmuPowerOn_def)
  show "NT_SUCCESS st \<Longrightarrow> g_pmu_mmio s" using un by (cases "g_pmu_mmio s") simp_all
  have cases: "quiet ?h1 h' \<or> D \<noteq> g_pdVcodec \<and> (\<exists>h3. quiet ?h1 h3 \<and> quiet (?h4 h3) h')" if "g_pmu_mmio s"
    using PowerOn_trace[of K D "hw s" st h'] o that assms(2) by auto
  have on1: "pd_on K ?h1 D' \<longleftrightarrow> D' = D \<or> pd_on K (hw s) D'" if "D' \<in> domains" for D'
    using power_write[OF assms(2) that, of K 0 "hw s"] assms(2) by (auto simp: PmuHiwordWrite_def)
  have b1: "bus_ready K ?h1 D' = bus_ready K (hw s) D'" for D' by (simp add: PmuHiwordWrite_def)
  have i4: "bus_ready K (?h4 h3) D' = bus_ready K h3 D'" "pd_on K (?h4 h3) D' = pd_on K h3 D'" for h3 D'
    using assms(2) by (simp_all add: PmuHiwordWrite_def)
  show "bus_ready K (hw s') D' = bus_ready K (hw s) D'"
    using cases un b1 i4 o(2) by (cases "g_pmu_mmio s") (auto simp: quiet_view(2))
  show "pd_on K (hw s') D' \<longleftrightarrow> g_pmu_mmio s \<and> D' = D \<or> pd_on K (hw s) D'" if "D' \<in> domains"
    using cases un on1[OF that] i4 o(2) by (cases "g_pmu_mmio s") (auto simp: quiet_view(1))
  assume t: "all_timely K (hw s)" and c: "is_child D \<Longrightarrow> parents_on K (hw s)" and b: "bus_ready K (hw s) D"
  have "timely K (PmuWrite (PwrOffset D) (hiword (PwrBit D) 0)) (hw s)" by (rule timely_power[OF assms(2)]) (use c in simp_all)
  then have t1: "all_timely K ?h1" using t by (simp add: PmuHiwordWrite_def)
  have t4: "all_timely K (?h4 h3)" if "quiet ?h1 h3" "D \<noteq> g_pdVcodec" for h3
    using timely_idle[OF assms(2) that(2), of K h3 0] quiet_view(2)[OF that(1), of K D] quiet_timely[OF that(1), of K] b b1 t1
    by (simp add: PmuHiwordWrite_def)
  show "all_timely K (hw s')"
    using cases un t t1 t4 o(2) by (cases "g_pmu_mmio s") (auto simp: quiet_timely)
qed

lemma pmu_off_effect:
  assumes "pmu_off K D s = (st, s')" "D \<in> domains"
  shows "s' = s\<lparr>hw := hw s'\<rparr>" "bus_ready K (hw s') D' = bus_ready K (hw s) D'"
    "D' \<in> domains \<Longrightarrow> D' \<noteq> D \<Longrightarrow> pd_on K (hw s') D' = pd_on K (hw s) D'"
    "g_pmu_mmio s \<Longrightarrow> NT_SUCCESS st \<Longrightarrow> \<not> pd_on K (hw s') D"
    "all_timely K (hw s) \<Longrightarrow> bus_ready K (hw s) D \<Longrightarrow> all_timely K (hw s')"
proof -
  obtain h' where o: "RkMppPmuPowerOff K (g_pmu_mmio s) D (hw s) = (st, h')" "s' = s\<lparr>hw := h'\<rparr>"
    using assms(1) by (auto simp: pmu_off_def split: prod.splits)
  show "s' = s\<lparr>hw := hw s'\<rparr>" using o by simp
  obtain ok h1 where bi: "bus_idle K D (hw s) = (ok, h1)" by (cases "bus_idle K D (hw s)")
  let ?i = "PmuHiwordWrite (IdleReqOffset D) (IdleReqBit D) (IdleReqBit D) (hw s)"
  let ?h2 = "PmuHiwordWrite (PwrOffset D) (PwrBit D) (PwrBit D) h1"
  have un: "st = STATUS_DEVICE_NOT_READY \<and> h' = hw s" if "\<not> g_pmu_mmio s" using o that by (simp add: RkMppPmuPowerOff_def)
  have h1: "if D = g_pdVcodec then h1 = hw s else quiet ?i h1"
    using bus_idle_trace[OF bi] domain_fields(4)[OF assms(2)] by (cases "D = g_pdVcodec") auto
  have h': "if ok then quiet ?h2 h' else \<not> NT_SUCCESS st \<and> h' = h1" if "g_pmu_mmio s"
    using PowerOff_trace[of K D "hw s" st h', OF _ bi] o(1) that by (cases ok) auto
  have b1: "bus_ready K h1 D' = bus_ready K (hw s) D'" for D'
    using h1 quiet_view(2)[of ?i h1 K D'] by (cases "D = g_pdVcodec") (auto simp: PmuHiwordWrite_def)
  have p1: "pd_on K h1 D' = pd_on K (hw s) D'" for D'
    using h1 quiet_view(1)[of ?i h1 K D'] assms(2) by (cases "D = g_pdVcodec") (auto simp: PmuHiwordWrite_def)
  have p2: "pd_on K ?h2 D' \<longleftrightarrow> D' \<noteq> D \<and> pd_on K h1 D'" if "D' \<in> domains" for D'
    using power_write[OF assms(2) that, of K "PwrBit D" h1] assms(2) domains_disjoint(1)[OF assms(2) assms(2)] by (auto simp: PmuHiwordWrite_def)
  have b2: "bus_ready K ?h2 D' = bus_ready K h1 D'" for D' by (simp add: PmuHiwordWrite_def)
  show "bus_ready K (hw s') D' = bus_ready K (hw s) D'"
    using h' un b1 b2 o(2) quiet_view(2)[of ?h2 h' K D'] by (cases "g_pmu_mmio s"; cases ok) auto
  show "pd_on K (hw s') D' = pd_on K (hw s) D'" if "D' \<in> domains" "D' \<noteq> D"
    using h' un p1 p2[OF that(1)] that(2) o(2) quiet_view(1)[of ?h2 h' K D'] by (cases "g_pmu_mmio s"; cases ok) auto
  show "\<not> pd_on K (hw s') D" if "g_pmu_mmio s" "NT_SUCCESS st"
    using h' that p2[OF assms(2)] o(2) quiet_view(1)[of ?h2 h' K D] by (cases ok) auto
  assume t: "all_timely K (hw s)" and b: "bus_ready K (hw s) D"
  have t1: "all_timely K h1"
  proof (cases "D = g_pdVcodec")
    case False
    then have "all_timely K ?i" using timely_idle[OF assms(2) False b] t by (simp add: PmuHiwordWrite_def)
    then show ?thesis using h1 False quiet_timely[of ?i h1 K] by simp
  qed (use h1 t in simp)
  have "timely K (PmuWrite (PwrOffset D) (hiword (PwrBit D) (PwrBit D))) h1"
    by (rule timely_power[OF assms(2)]) (use domains_disjoint(1)[OF assms(2) assms(2)] in auto)
  then have "all_timely K ?h2" using t1 by (simp add: PmuHiwordWrite_def)
  then show "all_timely K (hw s')"
    using h' un t t1 o(2) quiet_timely[of ?h2 h' K] by (cases "g_pmu_mmio s"; cases ok) auto
qed

lemma pmu_idle_effect:
  assumes "pmu_idle K g_pdAv1 b s = (st, s')"
  shows "s' = s\<lparr>hw := hw s'\<rparr>" "bus_ready K (hw s') D' = bus_ready K (hw s) D'" "pd_on K (hw s') D' = pd_on K (hw s) D'"
    "all_timely K (hw s) \<Longrightarrow> bus_ready K (hw s) g_pdAv1 \<Longrightarrow> all_timely K (hw s')"
proof -
  obtain h' where o: "RkMppPmuIdleRequest K (g_pmu_mmio s) g_pdAv1 b (hw s) = (st, h')" "s' = s\<lparr>hw := h'\<rparr>"
    using assms(1) by (auto simp: pmu_idle_def split: prod.splits)
  show "s' = s\<lparr>hw := hw s'\<rparr>" using o by simp
  let ?i = "PmuHiwordWrite (IdleReqOffset g_pdAv1) (IdleReqBit g_pdAv1) (if b then IdleReqBit g_pdAv1 else 0) (hw s)"
  have q: "if g_pmu_mmio s then quiet ?i h' else h' = hw s"
    using o IdleRequest_trace[of K g_pdAv1 b "hw s" st h'] by (auto simp: RkMppPmuIdleRequest_def)
  show "bus_ready K (hw s') D' = bus_ready K (hw s) D'"
    using q o(2) quiet_view(2)[of ?i h' K D'] by (cases "g_pmu_mmio s") (auto simp: PmuHiwordWrite_def)
  show "pd_on K (hw s') D' = pd_on K (hw s) D'"
    using q o(2) quiet_view(1)[of ?i h' K D'] by (cases "g_pmu_mmio s") (auto simp: PmuHiwordWrite_def)
  assume t: "all_timely K (hw s)" and r: "bus_ready K (hw s) g_pdAv1"
  have "all_timely K ?i" using timely_idle[OF _ _ r] t by (simp add: PmuHiwordWrite_def)
  then show "all_timely K (hw s')" using q o(2) t quiet_timely[of ?i h' K] by (cases "g_pmu_mmio s") auto
qed

section \<open>The parents\<close>

lemma cru_write_view [simp]:
  "pd_on K (hw (RkCcuHiwordWrite off m v s)) D = pd_on K (hw s) D"
  "all_timely K (hw (RkCcuHiwordWrite off m v s)) = all_timely K (hw s)"
  "g_cru_mmio (RkCcuHiwordWrite off m v s) = g_cru_mmio s" "g_pmu_mmio (RkCcuHiwordWrite off m v s) = g_pmu_mmio s"
  "g_raise_refcount (RkCcuHiwordWrite off m v s) = g_raise_refcount s" "g_av1_refcount (RkCcuHiwordWrite off m v s) = g_av1_refcount s"
  "g_parents_refcount (RkCcuHiwordWrite off m v s) = g_parents_refcount s"
  by (simp_all add: RkCcuHiwordWrite_def pd_on_def)

lemma stall_view [simp]:
  "pd_on K (hw (ccu_stall n s)) D = pd_on K (hw s) D" "all_timely K (hw (ccu_stall n s)) = all_timely K (hw s)"
  "bus_ready K (hw (ccu_stall n s)) D = bus_ready K (hw s) D"
  "g_cru_mmio (ccu_stall n s) = g_cru_mmio s" "g_pmu_mmio (ccu_stall n s) = g_pmu_mmio s"
  "g_raise_refcount (ccu_stall n s) = g_raise_refcount s" "g_av1_refcount (ccu_stall n s) = g_av1_refcount s"
  "g_parents_refcount (ccu_stall n s) = g_parents_refcount s"
  by (simp_all add: ccu_stall_def pd_on_def bus_ready_def)

text \<open>A clock or reset register is read after a write to the same or another register.\<close>

lemma bus_of:
  "bus_ready K h g_pdVcodec"
  "bus_ready K h g_pdVdpu \<longleftrightarrow> cru K h 0x8B0 AND 0x77 = 0 \<and> cru K h 0xAB0 AND 0x70 = 0"
  "bus_ready K h g_pdRkvdec0 \<longleftrightarrow> cru K h 0x8A0 AND 0x7F = 0 \<and> cru K h 0xAA0 AND 0x3C = 0"
  "bus_ready K h g_pdRkvdec1 \<longleftrightarrow> cru K h 0x8A4 AND 0xF = 0 \<and> cru K h 0xAA4 AND 0x3C = 0"
  "bus_ready K h g_pdAv1 \<longleftrightarrow> cru K h 0xB10 AND 0x36 = 0"
  by (simp_all add: bus_ready_def)

definition bus_regs :: "RKMPP_PMU_DOMAIN \<Rightarrow> ULONG set" where
  "bus_regs D = (if D = g_pdVdpu then {0x8B0, 0xAB0} else if D = g_pdRkvdec0 then {0x8A0, 0xAA0}
     else if D = g_pdRkvdec1 then {0x8A4, 0xAA4} else if D = g_pdAv1 then {0xB10} else {})"

lemma bus_other_write [simp]:
  assumes "off \<notin> bus_regs D"
  shows "bus_ready K (hw (RkCcuHiwordWrite off m v s)) D = bus_ready K (hw s) D"
  using assms by (auto simp: bus_ready_def bus_regs_def RkCcuHiwordWrite_def crur.other_reg split: if_splits)

lemma cru_write_reg [simp]:
  "off' \<noteq> off \<Longrightarrow> cru K (hw (RkCcuHiwordWrite off m v s)) off' = cru K (hw s) off'"
  "m < 0x10000 \<Longrightarrow> b AND m = b \<Longrightarrow> cru K (hw (RkCcuHiwordWrite off m v s)) off AND b = v AND b"
  "m < 0x10000 \<Longrightarrow> b AND m = 0 \<Longrightarrow> cru K (hw (RkCcuHiwordWrite off m v s)) off AND b = cru K (hw s) off AND b"
  by (simp_all add: RkCcuHiwordWrite_def reg_rules)

definition parents_ready :: "ccu_env \<Rightarrow> trace \<Rightarrow> bool" where
  "parents_ready K h \<longleftrightarrow> parents_on K h \<and> bus_ready K h g_pdVdpu"

text \<open>What the operations on the parents keep of the cores.\<close>

definition same_kids :: "ccu_env \<Rightarrow> trace \<Rightarrow> trace \<Rightarrow> bool" where
  "same_kids K h h' \<longleftrightarrow> (\<forall>D. is_child D \<longrightarrow> pd_on K h' D = pd_on K h D \<and> bus_ready K h' D = bus_ready K h D)"

lemma kid_props [simp]: "is_child D \<Longrightarrow> D \<in> domains" "is_child D \<Longrightarrow> D \<noteq> g_pdVcodec" "is_child D \<Longrightarrow> D \<noteq> g_pdVdpu"
  "is_child D \<Longrightarrow> 0x8B0 \<notin> bus_regs D" "is_child D \<Longrightarrow> 0xAB0 \<notin> bus_regs D"
  "\<not> is_child g_pdVcodec" "\<not> is_child g_pdVdpu" "is_child g_pdRkvdec0" "is_child g_pdRkvdec1" "is_child g_pdAv1"
  by (auto simp: is_child_def bus_regs_def)

lemma same_kids_trans: "same_kids K h h1 \<Longrightarrow> same_kids K h1 h2 \<Longrightarrow> same_kids K h h2"
  by (simp add: same_kids_def)

lemma same_kids_pmu:
  "pmu_on K D s = (st, s') \<Longrightarrow> D \<in> domains \<Longrightarrow> \<not> is_child D \<Longrightarrow> same_kids K (hw s) (hw s')"
  "pmu_off K D s = (st, s') \<Longrightarrow> D \<in> domains \<Longrightarrow> \<not> is_child D \<Longrightarrow> same_kids K (hw s) (hw s')"
  using pmu_on_effect(2,3) pmu_off_effect(2,3) unfolding same_kids_def by (metis kid_props(1))+

lemma same_kids_cru [simp]:
  "same_kids K h (hw (RkCcuHiwordWrite 0x8B0 m v s)) = same_kids K h (hw s)"
  "same_kids K h (hw (RkCcuHiwordWrite 0xAB0 m v s)) = same_kids K h (hw s)"
  by (simp_all add: same_kids_def)

text \<open>The globals other than the reference count of the parents.\<close>

definition cfg :: "ccu \<Rightarrow> bool \<times> bool \<times> int \<times> int" where
  "cfg s = (g_cru_mmio s, g_pmu_mmio s, g_raise_refcount s, g_av1_refcount s)"

lemma pmu_cfg:
  "cfg (snd (pmu_on K D s)) = cfg s" "g_parents_refcount (snd (pmu_on K D s)) = g_parents_refcount s"
  "cfg (snd (pmu_off K D s)) = cfg s" "g_parents_refcount (snd (pmu_off K D s)) = g_parents_refcount s"
  "cfg (snd (pmu_idle K D b s)) = cfg s" "g_parents_refcount (snd (pmu_idle K D b s)) = g_parents_refcount s"
  by (simp_all add: cfg_def pmu_on_def pmu_off_def pmu_idle_def case_prod_beta Let_def)

lemma write_cfg [simp]: "cfg (RkCcuHiwordWrite off m v s) = cfg s" "cfg (ccu_stall n s) = cfg s"
  "cfg (s\<lparr>g_parents_refcount := p\<rparr>) = cfg s" "cfg (s\<lparr>hw := h\<rparr>) = cfg s"
  by (simp_all add: cfg_def)

lemma RaiseParents_spec:
  assumes "RaiseParents K s = (st, s')" "0 \<le> g_parents_refcount s" "0 < g_parents_refcount s \<Longrightarrow> parents_ready K (hw s)"
    "all_timely K (hw s)"
  shows "cfg s' = cfg s \<and> g_parents_refcount s' = g_parents_refcount s + of_bool (NT_SUCCESS st) \<and> all_timely K (hw s') \<and>
    same_kids K (hw s) (hw s') \<and> (if NT_SUCCESS st then parents_ready K (hw s') else g_parents_refcount s = 0)"
proof (cases "g_parents_refcount s = 0")
  case False
  then show ?thesis using assms by (auto simp: RaiseParents_def Let_def same_kids_def)
next
  case z: True
  let ?s0 = "s\<lparr>g_parents_refcount := 1\<rparr>"
  obtain st1 s1 where 1: "pmu_on K g_pdVcodec ?s0 = (st1, s1)" by (cases "pmu_on K g_pdVcodec ?s0")
  note e1 = pmu_on_effect[OF 1 domains_mem(1)] and c1 = pmu_cfg(1,2)[of K g_pdVcodec ?s0, unfolded 1 snd_conv]
  have t1: "all_timely K (hw s1)" using e1(5) assms(4) by (simp add: bus_of)
  have k1: "same_kids K (hw s) (hw s1)" using same_kids_pmu(1)[OF 1] by simp
  show ?thesis
  proof (cases "NT_SUCCESS st1")
    case False
    then show ?thesis using assms(1) z 1 c1 t1 k1 by (auto simp: RaiseParents_def Let_def)
  next
    case ok1: True
    let ?s3 = "RkCcuHiwordWrite 0xAB0 0x70 0 (RkCcuHiwordWrite 0x8B0 0x77 0 s1)"
    obtain st2 s4 where 2: "pmu_on K g_pdVdpu ?s3 = (st2, s4)" by (cases "pmu_on K g_pdVdpu ?s3")
    note e2 = pmu_on_effect[OF 2 domains_mem(2)] and c2 = pmu_cfg(1,2)[of K g_pdVdpu ?s3, unfolded 2 snd_conv]
    have r3: "bus_ready K (hw ?s3) g_pdVdpu" by (simp add: bus_of)
    have t4: "all_timely K (hw s4)" using e2(5) t1 r3 by simp
    have k4: "same_kids K (hw s) (hw s4)"
      using k1 by (intro same_kids_trans[OF _ same_kids_pmu(1)[OF 2]]) simp_all
    show ?thesis
    proof (cases "NT_SUCCESS st2")
      case True
      have "parents_ready K (hw s4)"
        using e1(3,4) e2(2,3,4) r3 ok1 True by (simp add: parents_ready_def parents_on_def)
      then show ?thesis using assms(1) z 1 2 c1 c2 ok1 True t4 k4 by (auto simp: RaiseParents_def Let_def)
    next
      case False
      let ?s6 = "RkCcuHiwordWrite 0xAB0 0x70 0x70 (RkCcuHiwordWrite 0x8B0 0x77 0x77 s4)"
      obtain st3 s7 where 3: "pmu_off K g_pdVcodec ?s6 = (st3, s7)" by (cases "pmu_off K g_pdVcodec ?s6")
      note e3 = pmu_off_effect[OF 3 domains_mem(1)] and c3 = pmu_cfg(3,4)[of K g_pdVcodec ?s6, unfolded 3 snd_conv]
      have "all_timely K (hw s7)" using e3(5) t4 by (simp add: bus_of)
      moreover have "same_kids K (hw s) (hw s7)"
        using k4 by (intro same_kids_trans[OF _ same_kids_pmu(2)[OF 3]]) simp_all
      ultimately show ?thesis using assms(1) z 1 2 3 c1 c2 c3 ok1 False by (auto simp: RaiseParents_def Let_def)
    qed
  qed
qed

lemma DropParents_spec:
  assumes "s' = DropParents K s" "0 < g_parents_refcount s" "parents_ready K (hw s)" "all_timely K (hw s)"
  shows "cfg s' = cfg s \<and> g_parents_refcount s' = g_parents_refcount s - 1 \<and> all_timely K (hw s') \<and>
    same_kids K (hw s) (hw s') \<and> (0 < g_parents_refcount s' \<longrightarrow> parents_ready K (hw s'))"
proof (cases "g_parents_refcount s = 1")
  case False
  then show ?thesis using assms by (auto simp: DropParents_def Let_def same_kids_def)
next
  case True
  let ?s0 = "s\<lparr>g_parents_refcount := 0\<rparr>"
  obtain st1 s1 where 1: "pmu_off K g_pdVdpu ?s0 = (st1, s1)" by (cases "pmu_off K g_pdVdpu ?s0")
  note e1 = pmu_off_effect[OF 1 domains_mem(2)] and c1 = pmu_cfg(3,4)[of K g_pdVdpu ?s0, unfolded 1 snd_conv]
  let ?s3 = "RkCcuHiwordWrite 0x8B0 0x77 0x77 (RkCcuHiwordWrite 0xAB0 0x70 0x70 s1)"
  obtain st2 s4 where 2: "pmu_off K g_pdVcodec ?s3 = (st2, s4)" by (cases "pmu_off K g_pdVcodec ?s3")
  note e2 = pmu_off_effect[OF 2 domains_mem(1)] and c2 = pmu_cfg(3,4)[of K g_pdVcodec ?s3, unfolded 2 snd_conv]
  have "all_timely K (hw s1)" using e1(5) assms(3,4) by (simp add: parents_ready_def)
  then have "all_timely K (hw s4)" using e2(5) by (simp add: bus_of)
  moreover have "same_kids K (hw s) (hw s1)" using same_kids_pmu(2)[OF 1] by simp
  then have "same_kids K (hw s) (hw s4)"
    by (intro same_kids_trans[OF _ same_kids_pmu(2)[OF 2]]) simp_all
  ultimately show ?thesis using assms(1) True 1 2 c1 c2 by (auto simp: DropParents_def Let_def)
qed

section \<open>The invariant\<close>

definition kid_ready :: "ccu_env \<Rightarrow> trace \<Rightarrow> RKMPP_PMU_DOMAIN \<Rightarrow> bool" where
  "kid_ready K h D \<longleftrightarrow> pd_on K h D \<and> bus_ready K h D"

definition ccu_inv :: "ccu_env \<Rightarrow> ccu \<Rightarrow> bool" where
  "ccu_inv K s \<longleftrightarrow> 0 \<le> g_raise_refcount s \<and> 0 \<le> g_av1_refcount s \<and>
     g_parents_refcount s = of_bool (0 < g_raise_refcount s) + of_bool (0 < g_av1_refcount s) \<and>
     (0 < g_parents_refcount s \<longrightarrow> parents_ready K (hw s)) \<and>
     (0 < g_raise_refcount s \<longrightarrow> kid_ready K (hw s) g_pdRkvdec0 \<and> kid_ready K (hw s) g_pdRkvdec1) \<and>
     (0 < g_av1_refcount s \<longrightarrow> kid_ready K (hw s) g_pdAv1) \<and> (0 < g_parents_refcount s \<longrightarrow> g_pmu_mmio s) \<and> all_timely K (hw s)"

lemma pmu_kid:
  assumes "pmu_on K D s = (st, s') \<or> pmu_off K D s = (st, s')" "is_child D"
  shows "parents_ready K (hw s') = parents_ready K (hw s)"
    "D' \<noteq> D \<Longrightarrow> is_child D' \<Longrightarrow> kid_ready K (hw s') D' = kid_ready K (hw s) D'"
  using assms(1) pmu_on_effect(2,3)[OF _ kid_props(1)[OF assms(2)]] pmu_off_effect(2,3)[OF _ kid_props(1)[OF assms(2)]] kid_props(2,3)[OF assms(2)]
  by (auto simp: parents_ready_def parents_on_def kid_ready_def)

lemma bus_regs_simps [simp]:
  "bus_regs g_pdVdpu = {0x8B0, 0xAB0}" "bus_regs g_pdRkvdec0 = {0x8A0, 0xAA0}" "bus_regs g_pdRkvdec1 = {0x8A4, 0xAA4}" "bus_regs g_pdAv1 = {0xB10}"
  by (simp_all add: bus_regs_def)

lemma write_parents [simp]:
  "off \<noteq> 0x8B0 \<Longrightarrow> off \<noteq> 0xAB0 \<Longrightarrow> parents_ready K (hw (RkCcuHiwordWrite off m v s)) = parents_ready K (hw s)"
  "parents_ready K (hw (ccu_stall n s)) = parents_ready K (hw s)"
  by (simp_all add: parents_ready_def parents_on_def)

lemma write_kid [simp]:
  "off \<notin> bus_regs D \<Longrightarrow> kid_ready K (hw (RkCcuHiwordWrite off m v s)) D = kid_ready K (hw s) D"
  "kid_ready K (hw (ccu_stall n s)) D = kid_ready K (hw s) D"
  by (simp_all add: kid_ready_def)

lemma read_view [simp]:
  "parents_ready K (CruRead a # h) = parents_ready K h" "kid_ready K (CruRead a # h) D = kid_ready K h D"
  "bus_ready K (CruRead a # h) D = bus_ready K h D" "pd_on K (CruRead a # h) D = pd_on K h D"
  by (simp_all add: parents_ready_def parents_on_def kid_ready_def bus_ready_def pd_on_def)

lemmas group_defs = rvd0_clocks_on_def rvd0_clocks_off_def rvd1_clocks_on_def rvd1_clocks_off_def clksel_rvd0_def
  rvd0_failure_dump_def av1_failure_dump_def

text \<open>Powering a core whose parents and bus are ready; dropping the parents after a failure.\<close>

lemma pmu_on_kid:
  assumes "pmu_on K D s = (st, s')" "is_child D" "parents_ready K (hw s)" "bus_ready K (hw s) D" "all_timely K (hw s)"
  shows "cfg s' = cfg s \<and> g_parents_refcount s' = g_parents_refcount s \<and> parents_ready K (hw s') \<and> all_timely K (hw s') \<and>
    bus_ready K (hw s') D \<and> (NT_SUCCESS st \<longrightarrow> g_pmu_mmio s \<and> kid_ready K (hw s') D) \<and> (g_pmu_mmio s \<longrightarrow> kid_ready K (hw s') D) \<and>
    (\<forall>D'. D' \<noteq> D \<and> is_child D' \<longrightarrow> kid_ready K (hw s') D' = kid_ready K (hw s) D')"
proof -
  note e = pmu_on_effect[OF assms(1) kid_props(1)[OF assms(2)]]
  have "cfg s' = cfg s" "g_parents_refcount s' = g_parents_refcount s" using pmu_cfg(1,2)[of K D s] assms(1) by simp_all
  moreover have "parents_ready K (hw s')" "\<And>D'. D' \<noteq> D \<Longrightarrow> is_child D' \<Longrightarrow> kid_ready K (hw s') D' = kid_ready K (hw s) D'"
    using pmu_kid[OF disjI1[OF assms(1)] assms(2)] assms(3) by blast+
  moreover have "all_timely K (hw s')" using e(5) assms(3-5) by (simp add: parents_ready_def)
  moreover have "bus_ready K (hw s') D" using e(2) assms(4) by simp
  moreover have "NT_SUCCESS st \<longrightarrow> g_pmu_mmio s" using e(4) by blast
  moreover have "g_pmu_mmio s \<longrightarrow> kid_ready K (hw s') D" using e(2,3) assms(2,4) by (auto simp: kid_ready_def)
  ultimately show ?thesis by blast
qed

lemma pmu_off_kid:
  assumes "s' = snd (pmu_off K D s)" "is_child D" "parents_ready K (hw s)" "bus_ready K (hw s) D" "all_timely K (hw s)"
  shows "cfg s' = cfg s \<and> g_parents_refcount s' = g_parents_refcount s \<and> parents_ready K (hw s') \<and> all_timely K (hw s') \<and>
    bus_ready K (hw s') D \<and> (\<forall>D'. D' \<noteq> D \<and> is_child D' \<longrightarrow> kid_ready K (hw s') D' = kid_ready K (hw s) D')"
proof -
  obtain st where o: "pmu_off K D s = (st, s')" using assms(1) by (cases "pmu_off K D s") simp
  note e = pmu_off_effect[OF o kid_props(1)[OF assms(2)]]
  have "cfg s' = cfg s" "g_parents_refcount s' = g_parents_refcount s" using pmu_cfg(3,4)[of K D s] assms(1) by simp_all
  moreover have "parents_ready K (hw s')" "\<And>D'. D' \<noteq> D \<Longrightarrow> is_child D' \<Longrightarrow> kid_ready K (hw s') D' = kid_ready K (hw s) D'"
    using pmu_kid[OF disjI2[OF o] assms(2)] assms(3) by blast+
  moreover have "all_timely K (hw s')" using e(5) assms(4,5) by blast
  moreover have "bus_ready K (hw s') D" using e(2) assms(4) by simp
  ultimately show ?thesis by blast
qed

lemma drop_after_failure:
  assumes "cfg s1 = cfg s" "g_parents_refcount s1 = g_parents_refcount s + 1" "parents_ready K (hw s1)" "all_timely K (hw s1)"
    "ccu_inv K s" "0 < g_raise_refcount s \<Longrightarrow> kid_ready K (hw s1) g_pdRkvdec0 \<and> kid_ready K (hw s1) g_pdRkvdec1"
    "0 < g_av1_refcount s \<Longrightarrow> kid_ready K (hw s1) g_pdAv1"
  shows "ccu_inv K (DropParents K s1)"
proof -
  have "0 < g_parents_refcount s1" using assms(2,5) by (simp add: ccu_inv_def)
  from DropParents_spec[OF refl this assms(3,4)] assms show ?thesis
    by (auto simp: ccu_inv_def cfg_def same_kids_def kid_ready_def)
qed

end
