(* ===== verification/Ccu_Reach.thy ===== *)
theory Ccu_Reach
  imports Ccu_Props
begin

text \<open>
  Every sequence of calls to the clock and reset driver keeps the invariant of \<open>Ccu_Props\<close>, whatever the power management unit
  answers, if the recovery resets are called for raised clusters only, as their callers do.
\<close>

section \<open>Raise and drop\<close>

lemma group_views [simp]:
  "cfg (rvd0_clocks_on s) = cfg s" "cfg (rvd0_clocks_off s) = cfg s" "cfg (rvd1_clocks_on s) = cfg s" "cfg (rvd1_clocks_off s) = cfg s"
  "cfg (clksel_rvd0 s) = cfg s" "cfg (rvd0_failure_dump s) = cfg s" "cfg (av1_failure_dump s) = cfg s"
  "g_parents_refcount (rvd0_clocks_on s) = g_parents_refcount s" "g_parents_refcount (rvd0_clocks_off s) = g_parents_refcount s"
  "g_parents_refcount (rvd1_clocks_on s) = g_parents_refcount s" "g_parents_refcount (rvd1_clocks_off s) = g_parents_refcount s"
  "g_parents_refcount (clksel_rvd0 s) = g_parents_refcount s" "g_parents_refcount (rvd0_failure_dump s) = g_parents_refcount s"
  "g_parents_refcount (av1_failure_dump s) = g_parents_refcount s"
  by (simp_all add: group_defs)

lemma group_timely [simp]:
  "all_timely K (hw (rvd0_clocks_on s)) = all_timely K (hw s)" "all_timely K (hw (rvd0_clocks_off s)) = all_timely K (hw s)"
  "all_timely K (hw (rvd1_clocks_on s)) = all_timely K (hw s)" "all_timely K (hw (rvd1_clocks_off s)) = all_timely K (hw s)"
  "all_timely K (hw (clksel_rvd0 s)) = all_timely K (hw s)" "all_timely K (hw (rvd0_failure_dump s)) = all_timely K (hw s)"
  "all_timely K (hw (av1_failure_dump s)) = all_timely K (hw s)"
  by (simp_all add: group_defs)

lemma group_parents [simp]:
  "parents_ready K (hw (rvd0_clocks_on s)) = parents_ready K (hw s)" "parents_ready K (hw (rvd0_clocks_off s)) = parents_ready K (hw s)"
  "parents_ready K (hw (rvd1_clocks_on s)) = parents_ready K (hw s)" "parents_ready K (hw (rvd1_clocks_off s)) = parents_ready K (hw s)"
  "parents_ready K (hw (clksel_rvd0 s)) = parents_ready K (hw s)" "parents_ready K (hw (rvd0_failure_dump s)) = parents_ready K (hw s)"
  "parents_ready K (hw (av1_failure_dump s)) = parents_ready K (hw s)"
  by (simp_all add: group_defs)

lemma kid_regs [simp]:
  "is_child D \<Longrightarrow> D \<noteq> g_pdRkvdec0 \<Longrightarrow> 0x8A0 \<notin> bus_regs D" "is_child D \<Longrightarrow> D \<noteq> g_pdRkvdec0 \<Longrightarrow> 0xAA0 \<notin> bus_regs D"
  "is_child D \<Longrightarrow> D \<noteq> g_pdRkvdec1 \<Longrightarrow> 0x8A4 \<notin> bus_regs D" "is_child D \<Longrightarrow> D \<noteq> g_pdRkvdec1 \<Longrightarrow> 0xAA4 \<notin> bus_regs D"
  "0x464 \<notin> bus_regs D" "0x468 \<notin> bus_regs D" "0x46C \<notin> bus_regs D" "0x58C \<notin> bus_regs D" "0x910 \<notin> bus_regs D"
  by (simp_all add: bus_regs_def)

lemma group_kids [simp]:
  "D \<noteq> g_pdRkvdec0 \<Longrightarrow> is_child D \<Longrightarrow> kid_ready K (hw (rvd0_clocks_on s)) D = kid_ready K (hw s) D"
  "D \<noteq> g_pdRkvdec0 \<Longrightarrow> is_child D \<Longrightarrow> kid_ready K (hw (rvd0_clocks_off s)) D = kid_ready K (hw s) D"
  "D \<noteq> g_pdRkvdec1 \<Longrightarrow> is_child D \<Longrightarrow> kid_ready K (hw (rvd1_clocks_on s)) D = kid_ready K (hw s) D"
  "D \<noteq> g_pdRkvdec1 \<Longrightarrow> is_child D \<Longrightarrow> kid_ready K (hw (rvd1_clocks_off s)) D = kid_ready K (hw s) D"
  "is_child D \<Longrightarrow> kid_ready K (hw (clksel_rvd0 s)) D = kid_ready K (hw s) D"
  "kid_ready K (hw (rvd0_failure_dump s)) D = kid_ready K (hw s) D"
  "kid_ready K (hw (av1_failure_dump s)) D = kid_ready K (hw s) D"
  by (simp_all add: group_defs)

lemma group_bus [simp]:
  "bus_ready K (hw (rvd0_clocks_on s)) g_pdRkvdec0" "bus_ready K (hw (rvd1_clocks_on s)) g_pdRkvdec1"
  "bus_ready K (hw (rvd1_clocks_on s)) g_pdRkvdec0 = bus_ready K (hw s) g_pdRkvdec0"
  "bus_ready K (hw (rvd1_clocks_off s)) g_pdRkvdec0 = bus_ready K (hw s) g_pdRkvdec0"
  by (simp_all add: group_defs bus_of)

lemma cfg_same: "cfg s = cfg t \<Longrightarrow> g_pmu_mmio s = g_pmu_mmio t" by (simp add: cfg_def)

lemma group_mapped [simp]:
  "g_pmu_mmio (rvd0_clocks_on s) = g_pmu_mmio s" "g_pmu_mmio (rvd1_clocks_on s) = g_pmu_mmio s" "g_pmu_mmio (clksel_rvd0 s) = g_pmu_mmio s"
  by (simp_all add: group_defs)

lemma inv_bump:
  assumes "ccu_inv K s"
  shows "0 < g_raise_refcount s \<Longrightarrow> ccu_inv K (s\<lparr>g_raise_refcount := g_raise_refcount s + 1\<rparr>)"
    "1 < g_raise_refcount s \<Longrightarrow> ccu_inv K (s\<lparr>g_raise_refcount := g_raise_refcount s - 1\<rparr>)"
    "0 < g_av1_refcount s \<Longrightarrow> ccu_inv K (s\<lparr>g_av1_refcount := g_av1_refcount s + 1\<rparr>)"
    "1 < g_av1_refcount s \<Longrightarrow> ccu_inv K (s\<lparr>g_av1_refcount := g_av1_refcount s - 1\<rparr>)"
  using assms by (simp_all add: ccu_inv_def)

lemma RaiseParents_inv:
  assumes "ccu_inv K s" "RaiseParents K s = (st, s1)"
  shows "cfg s1 = cfg s" "g_parents_refcount s1 = g_parents_refcount s + of_bool (NT_SUCCESS st)" "all_timely K (hw s1)"
    "same_kids K (hw s) (hw s1)" "NT_SUCCESS st \<Longrightarrow> parents_ready K (hw s1)"
    "\<not> NT_SUCCESS st \<Longrightarrow> ccu_inv K s1"
proof -
  have "0 \<le> g_parents_refcount s" "0 < g_parents_refcount s \<Longrightarrow> parents_ready K (hw s)" "all_timely K (hw s)"
    using assms(1) by (simp_all add: ccu_inv_def)
  note p = RaiseParents_spec[OF assms(2) this]
  then show "cfg s1 = cfg s" "g_parents_refcount s1 = g_parents_refcount s + of_bool (NT_SUCCESS st)" "all_timely K (hw s1)"
    "same_kids K (hw s) (hw s1)" "NT_SUCCESS st \<Longrightarrow> parents_ready K (hw s1)" by auto
  assume f: "\<not> NT_SUCCESS st"
  then have z: "g_parents_refcount s = 0" "g_parents_refcount s1 = 0" using p by auto
  then have "\<not> 0 < g_raise_refcount s" "\<not> 0 < g_av1_refcount s" using assms(1) by (auto simp: ccu_inv_def of_bool_def split: if_splits)
  then show "ccu_inv K s1" using p z assms(1) by (simp add: ccu_inv_def cfg_def)
qed

lemma RaiseCluster_inv:
  assumes "ccu_inv K s" "RkMppCcuRaiseCluster K s = (st, s')"
  shows "ccu_inv K s' \<and> (g_raise_refcount s' = g_raise_refcount s + of_bool (NT_SUCCESS st)) \<and> g_av1_refcount s' = g_av1_refcount s"
proof (cases "g_cru_mmio s \<and> g_raise_refcount s = 0")
  case False
  then show ?thesis using assms(2) inv_bump(1)[OF assms(1)] assms(1) by (cases "g_cru_mmio s"; cases "0 < g_raise_refcount s") (auto simp: RkMppCcuRaiseCluster_def ccu_inv_def[of K s])
next
  case True
  obtain st1 s1 where 1: "RaiseParents K s = (st1, s1)" by (cases "RaiseParents K s")
  note p = RaiseParents_inv[OF assms(1) 1]
  have av: "0 < g_av1_refcount s \<Longrightarrow> kid_ready K (hw s1) g_pdAv1" using assms(1) p(4) by (simp add: ccu_inv_def same_kids_def kid_ready_def)
  show ?thesis
  proof (cases "NT_SUCCESS st1")
    case False
    then show ?thesis using assms(2) True 1 p(1) p(6)[OF False] by (auto simp: RkMppCcuRaiseCluster_def cfg_def)
  next
    case ok: True
    let ?s1 = "rvd0_clocks_on (clksel_rvd0 s1)"
    obtain st2 s2 where 2: "pmu_on K g_pdRkvdec0 ?s1 = (st2, s2)" by (cases "pmu_on K g_pdRkvdec0 ?s1")
    have q: "cfg s2 = cfg s" "g_parents_refcount s2 = g_parents_refcount s + 1" "parents_ready K (hw s2)" "all_timely K (hw s2)"
      "bus_ready K (hw s2) g_pdRkvdec0" "NT_SUCCESS st2 \<Longrightarrow> g_pmu_mmio s \<and> kid_ready K (hw s2) g_pdRkvdec0"
      "kid_ready K (hw s2) g_pdAv1 = kid_ready K (hw s1) g_pdAv1"
      using pmu_on_kid[OF 2] cfg_same[OF p(1)] p(1-3) p(5)[OF ok] ok by simp_all
    show ?thesis
    proof (cases "NT_SUCCESS st2")
      case False
      have "ccu_inv K (DropParents K (rvd0_clocks_off (rvd0_failure_dump s2)))"
        by (rule drop_after_failure[where s = s]) (use q av True assms(1) in simp_all)
      moreover have "cfg (DropParents K (rvd0_clocks_off (rvd0_failure_dump s2))) = cfg s"
        using DropParents_spec[OF refl, of "rvd0_clocks_off (rvd0_failure_dump s2)" K] q assms(1) by (simp add: ccu_inv_def)
      ultimately show ?thesis using assms(2) True 1 2 ok False by (auto simp: RkMppCcuRaiseCluster_def cfg_def)
    next
      case ok2: True
      obtain st3 s3 where 3: "pmu_on K g_pdRkvdec1 (rvd1_clocks_on s2) = (st3, s3)" by (cases "pmu_on K g_pdRkvdec1 (rvd1_clocks_on s2)")
      have r: "cfg s3 = cfg s" "g_parents_refcount s3 = g_parents_refcount s + 1" "parents_ready K (hw s3)" "all_timely K (hw s3)"
        "NT_SUCCESS st3 \<Longrightarrow> g_pmu_mmio s \<and> kid_ready K (hw s3) g_pdRkvdec1" "kid_ready K (hw s3) g_pdRkvdec0"
        "kid_ready K (hw s3) g_pdAv1 = kid_ready K (hw s1) g_pdAv1"
        using pmu_on_kid[OF 3] cfg_same[OF q(1)] q ok2 by simp_all
      show ?thesis
      proof (cases "NT_SUCCESS st3")
        case ok3: True
        have "s' = s3\<lparr>g_raise_refcount := 1\<rparr>" "st = STATUS_SUCCESS" using assms(2) True 1 2 3 ok ok2 ok3 by (simp_all add: RkMppCcuRaiseCluster_def)
        then show ?thesis using assms(1) True r(1-4,6,7) r(5)[OF ok3] av by (simp add: ccu_inv_def cfg_def)
      next
        case False
        let ?s4 = "snd (pmu_off K g_pdRkvdec0 (rvd1_clocks_off s3))"
        have u: "cfg ?s4 = cfg s" "g_parents_refcount ?s4 = g_parents_refcount s + 1" "parents_ready K (hw ?s4)" "all_timely K (hw ?s4)"
          "kid_ready K (hw ?s4) g_pdAv1 = kid_ready K (hw s1) g_pdAv1"
          using pmu_off_kid[OF refl, of g_pdRkvdec0 K "rvd1_clocks_off s3"] r by (simp_all add: kid_ready_def[of K "hw s3"])
        have "ccu_inv K (DropParents K (rvd0_clocks_off ?s4))"
          by (rule drop_after_failure[where s = s]) (use u av True assms(1) in simp_all)
        moreover have "cfg (DropParents K (rvd0_clocks_off ?s4)) = cfg s"
          using DropParents_spec[OF refl, of "rvd0_clocks_off ?s4" K] u assms(1) by (simp add: ccu_inv_def)
        ultimately show ?thesis using assms(2) True 1 2 3 ok ok2 False by (auto simp: RkMppCcuRaiseCluster_def cfg_def)
      qed
    qed
  qed
qed

lemma DropCluster_inv:
  assumes "ccu_inv K s" "RkMppCcuDropCluster K s = (st, s')"
  shows "ccu_inv K s'"
proof (cases "g_cru_mmio s \<and> g_raise_refcount s = 1")
  case False
  then show ?thesis using assms(2) inv_bump(2)[OF assms(1)] assms(1)
    by (cases "g_cru_mmio s"; cases "1 < g_raise_refcount s") (auto simp: RkMppCcuDropCluster_def ccu_inv_def[of K s])
next
  case True
  have i: "parents_ready K (hw s)" "all_timely K (hw s)" "kid_ready K (hw s) g_pdRkvdec0" "kid_ready K (hw s) g_pdRkvdec1"
    "0 < g_av1_refcount s \<Longrightarrow> kid_ready K (hw s) g_pdAv1" "g_parents_refcount s = 1 + of_bool (0 < g_av1_refcount s)"
    using assms(1) True by (simp_all add: ccu_inv_def)
  let ?s1 = "snd (pmu_off K g_pdRkvdec1 s)"
  have 1: "cfg ?s1 = cfg s" "g_parents_refcount ?s1 = g_parents_refcount s" "parents_ready K (hw ?s1)" "all_timely K (hw ?s1)"
    "kid_ready K (hw ?s1) g_pdRkvdec0" "kid_ready K (hw ?s1) g_pdAv1 = kid_ready K (hw s) g_pdAv1"
    using pmu_off_kid[OF refl, of g_pdRkvdec1 K s] i by (simp_all add: kid_ready_def[of K "hw s" g_pdRkvdec1])
  let ?s2 = "snd (pmu_off K g_pdRkvdec0 ?s1)"
  have 2: "cfg ?s2 = cfg s" "g_parents_refcount ?s2 = g_parents_refcount s" "parents_ready K (hw ?s2)" "all_timely K (hw ?s2)"
    "kid_ready K (hw ?s2) g_pdAv1 = kid_ready K (hw s) g_pdAv1"
    using pmu_off_kid[OF refl, of g_pdRkvdec0 K ?s1] 1 by (simp_all add: kid_ready_def[of K "hw ?s1" g_pdRkvdec0])
  let ?s6 = "RkCcuHiwordWrite 0x8A0 0x3FF 0x3FF (RkCcuHiwordWrite 0x8A4 0x1CF 0x1CF
    (RkCcuHiwordWrite 0xAA4 0x1FC 0x1FC (RkCcuHiwordWrite 0xAA0 0x3FC 0x3FC ?s2)))"
  have 6: "cfg ?s6 = cfg s" "g_parents_refcount ?s6 = g_parents_refcount s" "parents_ready K (hw ?s6)" "all_timely K (hw ?s6)"
    "kid_ready K (hw ?s6) g_pdAv1 = kid_ready K (hw s) g_pdAv1"
    using 2 by simp_all
  have d: "cfg (DropParents K ?s6) = cfg s" "g_parents_refcount (DropParents K ?s6) = of_bool (0 < g_av1_refcount s)"
    "all_timely K (hw (DropParents K ?s6))" "same_kids K (hw ?s6) (hw (DropParents K ?s6))"
    "0 < g_parents_refcount (DropParents K ?s6) \<Longrightarrow> parents_ready K (hw (DropParents K ?s6))"
    using DropParents_spec[OF refl _ 6(3,4)] 6(1,2) i(6) by simp_all
  have "kid_ready K (hw (DropParents K ?s6)) g_pdAv1 = kid_ready K (hw s) g_pdAv1"
    using d(4) 6(5) by (simp add: same_kids_def kid_ready_def)
  moreover have "s' = (DropParents K ?s6)\<lparr>g_raise_refcount := 0\<rparr>" using assms(2) True by (simp add: RkMppCcuDropCluster_def Let_def)
  ultimately show ?thesis using d(1-3,5) i(5) assms(1) by (simp add: ccu_inv_def cfg_def)
qed

section \<open>AV1\<close>

lemma RaiseAv1_inv:
  assumes "ccu_inv K s" "RkMppCcuRaiseAv1Cluster K s = (st, s')"
  shows "ccu_inv K s'"
proof (cases "g_cru_mmio s \<and> g_av1_refcount s = 0")
  case False
  then show ?thesis using assms(2) inv_bump(3)[OF assms(1)] assms(1)
    by (cases "g_cru_mmio s"; cases "0 < g_av1_refcount s") (auto simp: RkMppCcuRaiseAv1Cluster_def ccu_inv_def[of K s])
next
  case True
  obtain st1 s1 where 1: "RaiseParents K s = (st1, s1)" by (cases "RaiseParents K s")
  note p = RaiseParents_inv[OF assms(1) 1]
  have rv: "0 < g_raise_refcount s \<Longrightarrow> kid_ready K (hw s1) g_pdRkvdec0 \<and> kid_ready K (hw s1) g_pdRkvdec1"
    using assms(1) p(4) by (simp add: ccu_inv_def same_kids_def kid_ready_def)
  show ?thesis
  proof (cases "NT_SUCCESS st1")
    case False
    then show ?thesis using assms(2) True 1 p(6)[OF False] by (auto simp: RkMppCcuRaiseAv1Cluster_def)
  next
    case ok: True
    let ?s4 = "RkCcuHiwordWrite 0xB10 0x36 0 (RkCcuHiwordWrite 0x910 0x9 0 (RkCcuHiwordWrite 0x58C 0x1FF 0x2 s1))"
    obtain st2 s5 where 2: "pmu_on K g_pdAv1 ?s4 = (st2, s5)" by (cases "pmu_on K g_pdAv1 ?s4")
    have b: "bus_ready K (hw ?s4) g_pdAv1" by (simp add: bus_of)
    have q: "cfg s5 = cfg s" "g_parents_refcount s5 = g_parents_refcount s + 1" "parents_ready K (hw s5)" "all_timely K (hw s5)"
      "NT_SUCCESS st2 \<Longrightarrow> g_pmu_mmio s \<and> kid_ready K (hw s5) g_pdAv1" "kid_ready K (hw s5) g_pdRkvdec0 = kid_ready K (hw s1) g_pdRkvdec0"
      "kid_ready K (hw s5) g_pdRkvdec1 = kid_ready K (hw s1) g_pdRkvdec1"
      using pmu_on_kid[OF 2 _ _ b] cfg_same[OF p(1)] p(1-3) p(5)[OF ok] ok by simp_all
    show ?thesis
    proof (cases "NT_SUCCESS st2")
      case ok2: True
      have "s' = s5\<lparr>g_av1_refcount := 1\<rparr>" using assms(2) True 1 2 ok ok2 by (simp add: RkMppCcuRaiseAv1Cluster_def)
      then show ?thesis using assms(1) True q(1-4,6,7) q(5)[OF ok2] rv by (simp add: ccu_inv_def cfg_def)
    next
      case False
      let ?s6 = "RkCcuHiwordWrite 0x910 0x9 0x9 (av1_failure_dump s5)"
      have "ccu_inv K (DropParents K ?s6)"
        by (rule drop_after_failure[where s = s]) (use q rv True assms(1) in simp_all)
      then show ?thesis using assms(2) True 1 2 ok False by (simp add: RkMppCcuRaiseAv1Cluster_def)
    qed
  qed
qed

lemma DropAv1_inv:
  assumes "ccu_inv K s" "RkMppCcuDropAv1Cluster K s = (st, s')"
  shows "ccu_inv K s'"
proof (cases "g_cru_mmio s \<and> g_av1_refcount s = 1")
  case False
  then show ?thesis using assms(2) inv_bump(4)[OF assms(1)] assms(1)
    by (cases "g_cru_mmio s"; cases "1 < g_av1_refcount s") (auto simp: RkMppCcuDropAv1Cluster_def ccu_inv_def[of K s])
next
  case True
  have i: "parents_ready K (hw s)" "all_timely K (hw s)" "kid_ready K (hw s) g_pdAv1"
    "0 < g_raise_refcount s \<Longrightarrow> kid_ready K (hw s) g_pdRkvdec0 \<and> kid_ready K (hw s) g_pdRkvdec1"
    "g_parents_refcount s = of_bool (0 < g_raise_refcount s) + 1"
    using assms(1) True by (simp_all add: ccu_inv_def)
  let ?s1 = "snd (pmu_off K g_pdAv1 s)"
  let ?s3 = "RkCcuHiwordWrite 0x910 0x9 0x9 (RkCcuHiwordWrite 0xB10 0x36 0x36 ?s1)"
  have 3: "cfg ?s3 = cfg s" "g_parents_refcount ?s3 = g_parents_refcount s" "parents_ready K (hw ?s3)" "all_timely K (hw ?s3)"
    "kid_ready K (hw ?s3) g_pdRkvdec0 = kid_ready K (hw s) g_pdRkvdec0" "kid_ready K (hw ?s3) g_pdRkvdec1 = kid_ready K (hw s) g_pdRkvdec1"
    using pmu_off_kid[OF refl, of g_pdAv1 K s] i by (simp_all add: kid_ready_def[of K "hw s" g_pdAv1])
  have d: "cfg (DropParents K ?s3) = cfg s" "g_parents_refcount (DropParents K ?s3) = of_bool (0 < g_raise_refcount s)"
    "all_timely K (hw (DropParents K ?s3))" "same_kids K (hw ?s3) (hw (DropParents K ?s3))"
    "0 < g_parents_refcount (DropParents K ?s3) \<Longrightarrow> parents_ready K (hw (DropParents K ?s3))"
    using DropParents_spec[OF refl _ 3(3,4)] 3(1,2) i(5) by simp_all
  have "kid_ready K (hw (DropParents K ?s3)) g_pdRkvdec0 = kid_ready K (hw s) g_pdRkvdec0"
    "kid_ready K (hw (DropParents K ?s3)) g_pdRkvdec1 = kid_ready K (hw s) g_pdRkvdec1"
    using d(4) 3(5,6) by (simp_all add: same_kids_def kid_ready_def)
  moreover have "s' = (DropParents K ?s3)\<lparr>g_av1_refcount := 0\<rparr>" using assms(2) True by (simp add: RkMppCcuDropAv1Cluster_def Let_def)
  ultimately show ?thesis using d(1-3,5) i(4) assms(1) by (simp add: ccu_inv_def cfg_def)
qed

section \<open>Resets and clock gates\<close>

text \<open>A masked write outside the clocks and resets the buses need changes nothing the invariant speaks of.\<close>

lemma leaf_write_inv:
  assumes "ccu_inv K s"
    "(off, m) \<in> {(0x910, 0x9), (0x8A0, 0x380), (0x8A4, 0x1C0), (0xAA0, 0x3C0), (0xAA4, 0x1C0)}"
  shows "ccu_inv K (RkCcuHiwordWrite off m v s)" "ccu_inv K (ccu_stall n (RkCcuHiwordWrite off m v s))"
proof -
  let ?s = "RkCcuHiwordWrite off m v s"
  have b: "bus_ready K (hw ?s) D = bus_ready K (hw s) D" for D
    using assms(2) by (elim insertE emptyE; simp add: bus_ready_def)
  have k: "kid_ready K (hw ?s) D = kid_ready K (hw s) D" for D by (simp add: kid_ready_def b)
  have p: "parents_ready K (hw ?s) = parents_ready K (hw s)" by (simp add: parents_ready_def parents_on_def b)
  show "ccu_inv K ?s" using assms(1) k p by (simp add: ccu_inv_def)
  then show "ccu_inv K (ccu_stall n ?s)" by (simp add: ccu_inv_def)
qed

lemma stall_cru [simp]: "cru K (hw (ccu_stall n s)) off = cru K (hw s) off"
  by (simp add: ccu_stall_def)

lemma inv_of_kid:
  assumes "ccu_inv K s" "cfg s' = cfg s" "g_parents_refcount s' = g_parents_refcount s" "parents_ready K (hw s')" "all_timely K (hw s')"
    "kid_ready K (hw s') D" "\<And>D'. D' \<noteq> D \<Longrightarrow> is_child D' \<Longrightarrow> kid_ready K (hw s') D' = kid_ready K (hw s) D'"
  shows "ccu_inv K s'"
proof -
  have "kid_ready K (hw s) D' \<Longrightarrow> is_child D' \<Longrightarrow> kid_ready K (hw s') D'" for D' using assms(6,7) by (cases "D' = D") auto
  then show ?thesis using assms(1-5) by (simp add: ccu_inv_def cfg_def)
qed

lemma FullCoreReset0_inv:
  assumes "ccu_inv K s" "0 < g_raise_refcount s" "RkMppCcuFullCoreReset0 K s = (st, s')"
  shows "ccu_inv K s'"
proof (cases "g_cru_mmio s")
  case True
  have i: "parents_ready K (hw s)" "all_timely K (hw s)" "kid_ready K (hw s) g_pdRkvdec0" "g_pmu_mmio s"
    using assms(1,2) by (simp_all add: ccu_inv_def)
  let ?s1 = "snd (pmu_off K g_pdRkvdec0 s)"
  let ?s4 = "ccu_stall 20 (RkCcuHiwordWrite 0xAA0 0x3FC 0 (RkCcuHiwordWrite 0x8A0 0x3FF 0
    (clksel_rvd0 (ccu_stall 20 (RkCcuHiwordWrite 0xAA0 0x3FC 0x3FC ?s1)))))"
  have 1: "cfg ?s1 = cfg s" "g_parents_refcount ?s1 = g_parents_refcount s" "parents_ready K (hw ?s1)" "all_timely K (hw ?s1)"
    "\<And>D'. D' \<noteq> g_pdRkvdec0 \<Longrightarrow> is_child D' \<Longrightarrow> kid_ready K (hw ?s1) D' = kid_ready K (hw s) D'"
    using pmu_off_kid[OF refl, of g_pdRkvdec0 K s] i by (simp_all add: kid_ready_def[of K "hw s" g_pdRkvdec0])
  have 4: "cfg ?s4 = cfg s" "g_parents_refcount ?s4 = g_parents_refcount s" "parents_ready K (hw ?s4)" "all_timely K (hw ?s4)"
    "bus_ready K (hw ?s4) g_pdRkvdec0" "g_pmu_mmio ?s4 = g_pmu_mmio s"
    "\<And>D'. D' \<noteq> g_pdRkvdec0 \<Longrightarrow> is_child D' \<Longrightarrow> kid_ready K (hw ?s4) D' = kid_ready K (hw s) D'"
    using 1 cfg_same[OF 1(1)] by (simp_all add: bus_of)
  have o: "pmu_on K g_pdRkvdec0 ?s4 = (st, s')" using assms(3) True by (simp add: RkMppCcuFullCoreReset0_def Let_def)
  from pmu_on_kid[OF o _ 4(3,5,4)] 4 i(4)
  have e: "cfg s' = cfg s" "g_parents_refcount s' = g_parents_refcount s" "parents_ready K (hw s')" "all_timely K (hw s')"
    "kid_ready K (hw s') g_pdRkvdec0"
    "\<And>D'. D' \<noteq> g_pdRkvdec0 \<Longrightarrow> is_child D' \<Longrightarrow> kid_ready K (hw s') D' = kid_ready K (hw s) D'" by simp_all
  show ?thesis by (rule inv_of_kid[OF assms(1) e])
qed (use assms in \<open>simp add: RkMppCcuFullCoreReset0_def\<close>)

lemma FullCoreReset1_inv:
  assumes "ccu_inv K s" "0 < g_raise_refcount s" "RkMppCcuFullCoreReset1 K s = (st, s')"
  shows "ccu_inv K s'"
proof (cases "g_cru_mmio s")
  case True
  have i: "parents_ready K (hw s)" "all_timely K (hw s)" "kid_ready K (hw s) g_pdRkvdec1" "g_pmu_mmio s"
    using assms(1,2) by (simp_all add: ccu_inv_def)
  let ?s1 = "snd (pmu_off K g_pdRkvdec1 s)"
  let ?s4 = "ccu_stall 20 (RkCcuHiwordWrite 0xAA4 0x1FC 0 (RkCcuHiwordWrite 0x8A4 0x1CF 0
    (ccu_stall 20 (RkCcuHiwordWrite 0xAA4 0x1FC 0x1FC ?s1))))"
  have 1: "cfg ?s1 = cfg s" "g_parents_refcount ?s1 = g_parents_refcount s" "parents_ready K (hw ?s1)" "all_timely K (hw ?s1)"
    "\<And>D'. D' \<noteq> g_pdRkvdec1 \<Longrightarrow> is_child D' \<Longrightarrow> kid_ready K (hw ?s1) D' = kid_ready K (hw s) D'"
    using pmu_off_kid[OF refl, of g_pdRkvdec1 K s] i by (simp_all add: kid_ready_def[of K "hw s" g_pdRkvdec1])
  have 4: "cfg ?s4 = cfg s" "g_parents_refcount ?s4 = g_parents_refcount s" "parents_ready K (hw ?s4)" "all_timely K (hw ?s4)"
    "bus_ready K (hw ?s4) g_pdRkvdec1" "g_pmu_mmio ?s4 = g_pmu_mmio s"
    "\<And>D'. D' \<noteq> g_pdRkvdec1 \<Longrightarrow> is_child D' \<Longrightarrow> kid_ready K (hw ?s4) D' = kid_ready K (hw s) D'"
    using 1 cfg_same[OF 1(1)] by (simp_all add: bus_of)
  have o: "pmu_on K g_pdRkvdec1 ?s4 = (st, s')" using assms(3) True by (simp add: RkMppCcuFullCoreReset1_def Let_def)
  from pmu_on_kid[OF o _ 4(3,5,4)] 4 i(4)
  have e: "cfg s' = cfg s" "g_parents_refcount s' = g_parents_refcount s" "parents_ready K (hw s')" "all_timely K (hw s')"
    "kid_ready K (hw s') g_pdRkvdec1"
    "\<And>D'. D' \<noteq> g_pdRkvdec1 \<Longrightarrow> is_child D' \<Longrightarrow> kid_ready K (hw s') D' = kid_ready K (hw s) D'" by simp_all
  show ?thesis by (rule inv_of_kid[OF assms(1) e])
qed (use assms in \<open>simp add: RkMppCcuFullCoreReset1_def\<close>)

lemma pmu_idle_kid:
  assumes "s' = snd (pmu_idle K g_pdAv1 b s)" "all_timely K (hw s)" "bus_ready K (hw s) g_pdAv1"
  shows "cfg s' = cfg s" "g_parents_refcount s' = g_parents_refcount s" "all_timely K (hw s')"
    "parents_ready K (hw s') = parents_ready K (hw s)" "kid_ready K (hw s') D = kid_ready K (hw s) D"
proof -
  obtain st where o: "pmu_idle K g_pdAv1 b s = (st, s')" using assms(1) by (cases "pmu_idle K g_pdAv1 b s") simp
  note e = pmu_idle_effect[OF o]
  show "cfg s' = cfg s" "g_parents_refcount s' = g_parents_refcount s" using pmu_cfg(5,6)[of K g_pdAv1 b s] assms(1) by simp_all
  show "all_timely K (hw s')" using e(4) assms(2,3) by blast
  show "parents_ready K (hw s') = parents_ready K (hw s)" "kid_ready K (hw s') D = kid_ready K (hw s) D"
    using e(2,3) by (simp_all add: parents_ready_def parents_on_def kid_ready_def)
qed

lemma FullAv1Reset_inv:
  assumes "ccu_inv K s" "0 < g_av1_refcount s" "RkMppCcuFullAv1Reset K s = (st, s')"
  shows "ccu_inv K s'"
proof (cases "g_cru_mmio s")
  case True
  have i: "parents_ready K (hw s)" "all_timely K (hw s)" "kid_ready K (hw s) g_pdAv1" "bus_ready K (hw s) g_pdAv1"
    using assms(1,2) by (simp_all add: ccu_inv_def kid_ready_def)
  let ?s1 = "snd (pmu_idle K g_pdAv1 True s)"
  let ?s3 = "ccu_stall 20 (RkCcuHiwordWrite 0xB10 0x36 0 (ccu_stall 5 (RkCcuHiwordWrite 0xB10 0x36 0x36 ?s1)))"
  note 1 = pmu_idle_kid[OF refl i(2,4), where b = True]
  have b3: "bus_ready K (hw ?s3) g_pdAv1" by (simp add: bus_of)
  have t3: "all_timely K (hw ?s3)" using 1(3) by simp
  note 3 = pmu_idle_kid[OF refl t3 b3, where b = False]
  have o: "s' = snd (pmu_idle K g_pdAv1 False ?s3)" using assms(3) True by (simp add: RkMppCcuFullAv1Reset_def Let_def)
  have on: "pd_on K (hw ?s3) g_pdAv1" using 1(5)[of g_pdAv1] i(3) by (simp add: kid_ready_def)
  have "kid_ready K (hw ?s3) g_pdAv1" using b3 on by (simp only: kid_ready_def)
  then have "kid_ready K (hw s') g_pdAv1" unfolding o using 3(5) by blast
  moreover have "cfg s' = cfg s" "g_parents_refcount s' = g_parents_refcount s" "parents_ready K (hw s')" "all_timely K (hw s')"
    unfolding o using 3(1-4) 1(1-4) i by simp_all
  moreover have "kid_ready K (hw s') D' = kid_ready K (hw s) D'" if "D' \<noteq> g_pdAv1" "is_child D'" for D'
  proof -
    have "0xB10 \<notin> bus_regs D'" using that by (simp add: bus_regs_def)
    then show ?thesis unfolding o using 3(5)[of D'] 1(5)[of D'] by simp
  qed
  ultimately show ?thesis by (intro inv_of_kid[OF assms(1)])
qed (use assms in \<open>simp add: RkMppCcuFullAv1Reset_def\<close>)

section \<open>All calls\<close>

text \<open>Recovery resets are for raised clusters.\<close>

definition ccu_allowed :: "ccu_entry \<Rightarrow> ccu \<Rightarrow> bool" where
  "ccu_allowed e s \<longleftrightarrow> (e = FullCoreReset0 \<or> e = FullCoreReset1 \<longrightarrow> 0 < g_raise_refcount s) \<and> (e = FullAv1Reset \<longrightarrow> 0 < g_av1_refcount s)"

inductive ccu_reach :: "ccu_env \<Rightarrow> ccu \<Rightarrow> bool" for K where
  boot: "g_raise_refcount s = 0 \<Longrightarrow> g_av1_refcount s = 0 \<Longrightarrow> g_parents_refcount s = 0 \<Longrightarrow> hw s = [] \<Longrightarrow> ccu_reach K s"
| call: "ccu_reach K s \<Longrightarrow> ccu_allowed e s \<Longrightarrow> ccu_call_entry K e s = (st, s') \<Longrightarrow> ccu_reach K s'"

lemmas leaf_entry_defs = RkMppCcuGateAv1LeafClocks_def RkMppCcuUngateAv1LeafClocks_def RkMppCcuGateRvdec0LeafClocks_def
  RkMppCcuUngateRvdec0LeafClocks_def RkMppCcuGateRvdec1LeafClocks_def RkMppCcuUngateRvdec1LeafClocks_def
  RkMppCcuAssertRvdec0CoreReset_def RkMppCcuDeassertRvdec0CoreReset_def RkMppCcuAssertRvdec1CoreReset_def
  RkMppCcuDeassertRvdec1CoreReset_def

lemma call_inv:
  assumes "ccu_inv K s" "ccu_allowed e s" "ccu_call_entry K e s = (st, s')"
  shows "ccu_inv K s'"
  using assms(2,3) RaiseCluster_inv[OF assms(1)] DropCluster_inv[OF assms(1)] RaiseAv1_inv[OF assms(1)] DropAv1_inv[OF assms(1)]
    FullCoreReset0_inv[OF assms(1)] FullCoreReset1_inv[OF assms(1)] FullAv1Reset_inv[OF assms(1)] assms(1) leaf_write_inv[OF assms(1)]
  by (cases e) (auto simp: ccu_allowed_def leaf_entry_defs if_mapped_def split: if_splits)

lemma reach_inv: "ccu_reach K s \<Longrightarrow> ccu_inv K s"
proof (induction rule: ccu_reach.induct)
  case (boot s)
  then show ?case by (simp add: ccu_inv_def)
next
  case (call s e st s')
  then show ?case using call_inv by blast
qed

section \<open>A power management unit for examples\<close>

text \<open>One that answers every request at once, and one in which no repairable domain ever reports power.\<close>

definition demo_pmu :: "bool \<Rightarrow> ccu_env" where
  "demo_pmu good = \<lparr>pmu_answer = (\<lambda>h off. if good \<and> off = RK3588_PMU_PWR_REPAIR_STATUS then 0xFFFF else 0),
     boot_cru = (\<lambda>_. 0xFFFF), boot_pmu = (\<lambda>_. 0xFFFF)\<rparr>"

definition demo_ccu :: ccu where
  "demo_ccu = \<lparr>g_cru_mmio = True, g_pmu_mmio = True, g_raise_refcount = 0, g_av1_refcount = 0, g_parents_refcount = 0, hw = []\<rparr>"

lemma demo_boot: "ccu_reach K demo_ccu" by (rule ccu_reach.boot) (simp_all add: demo_ccu_def)

lemma pd_status [simp]:
  "RepairStatusBit g_pdVcodec = 0" "StatusBit g_pdVcodec = 4" "StatusOffset g_pdVcodec = 0x180" "RepairStatusBit g_pdVdpu = 0x200"
  "RepairStatusBit g_pdRkvdec0 = 0x80" "RepairStatusBit g_pdRkvdec1 = 0x100" "RepairStatusBit g_pdAv1 = 0x800"
  by (simp_all add: pd_defs)

lemma demo_good_on: "D \<in> domains \<Longrightarrow> g_pmu_mmio s \<Longrightarrow> fst (pmu_on (demo_pmu True) D s) = STATUS_SUCCESS"
proof -
  assume d: "D \<in> domains" and m: "g_pmu_mmio s"
  have "fst (PmuDomainIsOn (demo_pmu True) D h)" for h
    using d by (cases rule: domain_cases; simp add: PmuDomainIsOn_def pmu_get_def demo_pmu_def)
  then have "\<exists>h1. poll_us (PmuDomainIsOn (demo_pmu True) D) 10000 h = (True, h1)" for h
    using poll_now[of "PmuDomainIsOn (demo_pmu True) D" h _ 10000] by (metis prod.collapse zero_less_numeral)
  then obtain h1 where "poll_us (PmuDomainIsOn (demo_pmu True) D) 10000 (PmuHiwordWrite (PwrOffset D) (PwrBit D) 0 (hw s)) = (True, h1)" by blast
  moreover have "fst (pmu_get (demo_pmu True) (IdleStOffset D) h1) = 0" 
    using d by (cases rule: domain_cases; simp add: pmu_get_def demo_pmu_def pd_defs)
  ultimately show ?thesis using m by (simp add: pmu_on_def RkMppPmuPowerOn_def Let_def case_prod_beta)
qed

lemma pmu_on_write:
  assumes "pmu_on K D s = (st, s')" "g_pmu_mmio s"
  shows "\<exists>later. hw s' = later @ PmuWrite (PwrOffset D) (hiword (PwrBit D) 0) # hw s"
proof -
  obtain h' where o: "RkMppPmuPowerOn K True D (hw s) = (st, h')" "hw s' = h'"
    using assms by (auto simp: pmu_on_def split: prod.splits)
  from PowerOn_trace[OF o(1)] show ?thesis using o(2) by (auto simp: quiet_def PmuHiwordWrite_def)
qed

lemma demo_raised:
  "\<exists>s later earlier. ccu_reach (demo_pmu True) s \<and> g_raise_refcount s = 1 \<and> hw s = later @ PmuWrite 0x14C (hiword 0x200 0) # earlier"
proof -
  let ?K = "demo_pmu True"
  have ok: "fst (pmu_on ?K D s) = STATUS_SUCCESS" if "D \<in> domains" "g_pmu_mmio s" for D s using demo_good_on that by blast
  have m: "g_pmu_mmio (snd (pmu_on K D s)) = g_pmu_mmio s" for K D s using cfg_same[OF pmu_cfg(1)] .
  have p: "fst (RaiseParents ?K demo_ccu) = STATUS_SUCCESS \<and> g_pmu_mmio (snd (RaiseParents ?K demo_ccu))"
    by (simp add: RaiseParents_def Let_def case_prod_beta ok m demo_ccu_def)
  let ?s2 = "rvd1_clocks_on (snd (pmu_on ?K g_pdRkvdec0 (rvd0_clocks_on (clksel_rvd0 (snd (RaiseParents ?K demo_ccu))))))"
  obtain st s3 where 3: "pmu_on ?K g_pdRkvdec1 ?s2 = (st, s3)" by (cases "pmu_on ?K g_pdRkvdec1 ?s2")
  have m2: "g_pmu_mmio ?s2" using p by (simp add: m)
  then have st: "st = STATUS_SUCCESS" using ok[of g_pdRkvdec1 ?s2] 3 by simp
  have "RkMppCcuRaiseCluster ?K demo_ccu = (STATUS_SUCCESS, s3\<lparr>g_raise_refcount := 1\<rparr>)"
    using p 3 st by (simp add: RkMppCcuRaiseCluster_def case_prod_beta ok m) (simp add: demo_ccu_def)
  then have "ccu_reach ?K (s3\<lparr>g_raise_refcount := 1\<rparr>)"
    by (intro ccu_reach.call[OF demo_boot, of RaiseCluster]) (simp_all add: ccu_allowed_def)
  moreover obtain later where "hw s3 = later @ PmuWrite 0x14C (hiword 0x200 0) # hw ?s2" using pmu_on_write[OF 3 m2] by auto
  ultimately show ?thesis by (intro exI[of _ "s3\<lparr>g_raise_refcount := 1\<rparr>"] exI[of _ later] exI[of _ "hw ?s2"]) simp
qed

lemma demo_bad_raise: "\<not> NT_SUCCESS (fst (RkMppCcuRaiseCluster (demo_pmu False) demo_ccu))"
proof -
  have "\<not> fst (PmuDomainIsOn (demo_pmu False) g_pdVdpu h)" for h by (simp add: PmuDomainIsOn_def pmu_get_def demo_pmu_def)
  then have "\<not> fst (poll_us (PmuDomainIsOn (demo_pmu False) g_pdVdpu) n h)" for n h by (rule poll_never)
  then have v: "g_pmu_mmio s \<Longrightarrow> fst (pmu_on (demo_pmu False) g_pdVdpu s) = STATUS_DEVICE_HARDWARE_ERROR" for s
    by (simp add: pmu_on_def RkMppPmuPowerOn_def Let_def case_prod_beta)
  have m: "g_pmu_mmio (snd (pmu_on K D s)) = g_pmu_mmio s" for K D s using cfg_same[OF pmu_cfg(1)] .
  have "\<not> NT_SUCCESS (fst (RaiseParents (demo_pmu False) demo_ccu))"
    using v m by (simp add: RaiseParents_def Let_def case_prod_beta demo_ccu_def)
  then show ?thesis by (simp add: RkMppCcuRaiseCluster_def case_prod_beta Let_def) (simp add: demo_ccu_def)
qed

section \<open>Failed bring-up\<close>

lemma parents_failure_gate:
  assumes "RaiseParents K s = (st, s')" "\<not> NT_SUCCESS st" "g_pmu_mmio s" "g_parents_refcount s = 0"
  shows "\<exists>D \<in> domains. pd_on K (hw s') D"
proof -
  let ?s0 = "s\<lparr>g_parents_refcount := 1\<rparr>"
  obtain st1 s1 where 1: "pmu_on K g_pdVcodec ?s0 = (st1, s1)" by (cases "pmu_on K g_pdVcodec ?s0")
  have m1: "g_pmu_mmio s1" "pd_on K (hw s1) g_pdVcodec"
    using cfg_same[OF pmu_cfg(1)[of K g_pdVcodec ?s0]] pmu_on_effect(3)[OF 1 domains_mem(1), of g_pdVcodec] 1 assms(3) by simp_all
  show ?thesis
  proof (cases "NT_SUCCESS st1")
    case False
    then show ?thesis using assms(1,4) 1 m1 domains_mem(1) by (auto simp: RaiseParents_def Let_def)
  next
    case ok: True
    let ?s3 = "RkCcuHiwordWrite 0xAB0 0x70 0 (RkCcuHiwordWrite 0x8B0 0x77 0 s1)"
    obtain st2 s4 where 2: "pmu_on K g_pdVdpu ?s3 = (st2, s4)" by (cases "pmu_on K g_pdVdpu ?s3")
    have on: "pd_on K (hw s4) g_pdVdpu" using pmu_on_effect(3)[OF 2 domains_mem(2), of g_pdVdpu] m1 by simp
    let ?s6 = "RkCcuHiwordWrite 0xAB0 0x70 0x70 (RkCcuHiwordWrite 0x8B0 0x77 0x77 s4)"
    obtain st3 s7 where 3: "pmu_off K g_pdVcodec ?s6 = (st3, s7)" by (cases "pmu_off K g_pdVcodec ?s6")
    have "pd_on K (hw s7) g_pdVdpu" using pmu_off_effect(3)[OF 3 domains_mem(1), of g_pdVdpu] on by simp
    then show ?thesis using assms(1,2,4) 1 2 3 ok domains_mem(2) by (auto simp: RaiseParents_def Let_def split: if_splits)
  qed
qed

lemma DropParents_gate:
  assumes "is_child D" "pd_on K (hw s) D" "0 < g_parents_refcount s" "parents_ready K (hw s)" "all_timely K (hw s)"
  shows "\<exists>D \<in> domains. pd_on K (hw (DropParents K s)) D"
  using DropParents_spec[OF refl assms(3-5)] assms(1,2) kid_props(1)[OF assms(1)] by (auto simp: same_kids_def)

lemma group_on [simp]:
  "pd_on K (hw (rvd0_clocks_on s)) D = pd_on K (hw s) D" "pd_on K (hw (rvd0_clocks_off s)) D = pd_on K (hw s) D"
  "pd_on K (hw (rvd1_clocks_on s)) D = pd_on K (hw s) D" "pd_on K (hw (rvd1_clocks_off s)) D = pd_on K (hw s) D"
  "pd_on K (hw (clksel_rvd0 s)) D = pd_on K (hw s) D" "pd_on K (hw (rvd0_failure_dump s)) D = pd_on K (hw s) D"
  by (simp_all add: group_defs)

lemma raise_failure_gate:
  assumes "ccu_inv K s" "g_cru_mmio s" "g_pmu_mmio s" "g_raise_refcount s = 0" "g_av1_refcount s = 0"
    "RkMppCcuRaiseCluster K s = (st, s')" "\<not> NT_SUCCESS st"
  shows "\<exists>D \<in> domains. pd_on K (hw s') D"
proof -
  have z: "g_parents_refcount s = 0" using assms(1,4,5) by (simp add: ccu_inv_def)
  obtain st1 s1 where 1: "RaiseParents K s = (st1, s1)" by (cases "RaiseParents K s")
  note p = RaiseParents_inv[OF assms(1) 1]
  show ?thesis
  proof (cases "NT_SUCCESS st1")
    case False
    then show ?thesis using parents_failure_gate[OF 1 False assms(3) z] assms 1 by (simp add: RkMppCcuRaiseCluster_def)
  next
    case ok: True
    let ?s1 = "rvd0_clocks_on (clksel_rvd0 s1)"
    obtain st2 s2 where 2: "pmu_on K g_pdRkvdec0 ?s1 = (st2, s2)" by (cases "pmu_on K g_pdRkvdec0 ?s1")
    have q: "cfg s2 = cfg s" "g_parents_refcount s2 = 1" "parents_ready K (hw s2)" "all_timely K (hw s2)" "kid_ready K (hw s2) g_pdRkvdec0"
      using pmu_on_kid[OF 2] cfg_same[OF p(1)] p(1-3) p(5)[OF ok] ok z assms(3) by simp_all
    show ?thesis
    proof (cases "NT_SUCCESS st2")
      case False
      then have "s' = DropParents K (rvd0_clocks_off (rvd0_failure_dump s2))" using assms 1 2 ok by (simp add: RkMppCcuRaiseCluster_def)
      then show ?thesis using DropParents_gate[of g_pdRkvdec0 K "rvd0_clocks_off (rvd0_failure_dump s2)"] q by (simp add: kid_ready_def)
    next
      case ok2: True
      obtain st3 s3 where 3: "pmu_on K g_pdRkvdec1 (rvd1_clocks_on s2) = (st3, s3)" by (cases "pmu_on K g_pdRkvdec1 (rvd1_clocks_on s2)")
      have r: "g_parents_refcount s3 = 1" "parents_ready K (hw s3)" "all_timely K (hw s3)" "kid_ready K (hw s3) g_pdRkvdec1" "bus_ready K (hw s3) g_pdRkvdec0"
        using pmu_on_kid[OF 3] cfg_same[OF q(1)] q assms(3) pmu_on_effect(2)[OF 3 domains_mem(4), of g_pdRkvdec0] by (simp_all add: kid_ready_def)
      let ?s4 = "snd (pmu_off K g_pdRkvdec0 (rvd1_clocks_off s3))"
      have o: "pmu_off K g_pdRkvdec0 (rvd1_clocks_off s3) = (fst (pmu_off K g_pdRkvdec0 (rvd1_clocks_off s3)), ?s4)" by simp
      have u: "g_parents_refcount ?s4 = 1" "parents_ready K (hw ?s4)" "all_timely K (hw ?s4)" "pd_on K (hw ?s4) g_pdRkvdec1"
        using pmu_off_kid[OF refl, of g_pdRkvdec0 K "rvd1_clocks_off s3"] pmu_off_effect(3)[OF o domains_mem(3), of g_pdRkvdec1] r
        by (simp_all add: kid_ready_def[of K "hw s3"])
      have "s' = DropParents K (rvd0_clocks_off ?s4)" using assms 1 2 3 ok ok2 by (simp add: RkMppCcuRaiseCluster_def Let_def split: if_splits)
      then show ?thesis using DropParents_gate[of g_pdRkvdec1 K "rvd0_clocks_off ?s4"] u by simp
    qed
  qed
qed

section \<open>Properties\<close>







end
