(* ===== verification/Nal_Stream.thy ===== *)
theory Nal_Stream
  imports Prelude
begin

text \<open>
  The byte-stream framing of the user-mode decoder: the access-unit iterator over Annex-B streams
  (\<^verbatim>\<open>mft/au_iter.cpp\<close>) and the rewriting of length-prefixed samples to Annex B (\<^verbatim>\<open>mft/avcc_to_annexb.cpp\<close>).
  A buffer and its length are one list; \<^verbatim>\<open>size_t\<close> values are naturals, the all-ones result of a failing
  search is None.
\<close>

type_synonym uint8 = "8 word"

section \<open>Access units\<close>

definition sc3_at :: "uint8 list \<Rightarrow> nat \<Rightarrow> bool" where
  "sc3_at buf i \<longleftrightarrow> buf ! i = 0 \<and> buf ! (i + 1) = 0 \<and> buf ! (i + 2) = 1"

definition sc4_at :: "uint8 list \<Rightarrow> nat \<Rightarrow> bool" where
  "sc4_at buf i \<longleftrightarrow> buf ! i = 0 \<and> buf ! (i + 1) = 0 \<and> buf ! (i + 2) = 0 \<and> buf ! (i + 3) = 1"

function find_start_code :: "uint8 list \<Rightarrow> nat \<Rightarrow> nat option" where
  "find_start_code buf i =
     (if i + 3 \<le> length buf
      then if sc3_at buf i then Some (i + 3)
           else if i + 4 \<le> length buf \<and> sc4_at buf i then Some (i + 4)
           else find_start_code buf (i + 1)
      else None)"
  by pat_completeness auto
termination by (relation "measure (\<lambda>(buf, i). length buf - i)") auto

declare find_start_code.simps [simp del]

definition backup_to_4byte_sc :: "uint8 list \<Rightarrow> nat \<Rightarrow> nat" where
  "backup_to_4byte_sc buf k = (if 0 < k \<and> buf ! (k - 1) = 0 then k - 1 else k)"

definition h264_nal_is_slice :: "uint8 \<Rightarrow> bool" where
  "h264_nal_is_slice hdr0 \<longleftrightarrow> (let t = hdr0 AND 0x1F in t = 1 \<or> t = 5)"

definition h265_nal_is_slice :: "uint8 \<Rightarrow> bool" where
  "h265_nal_is_slice hdr0 \<longleftrightarrow> drop_bit 1 hdr0 AND 0x3F < 32"

record AuIter =
  it_buf :: "uint8 list"
  it_pos :: nat

definition AuIter_Init :: "uint8 list \<Rightarrow> AuIter" where
  "AuIter_Init buf = \<lparr>it_buf = buf, it_pos = 0\<rparr>"

text \<open>The walk over the NAL headers from \<open>nh\<close>: the header of the first slice and the end of its unit.\<close>

lemma find_start_code_beyond: "find_start_code buf i = Some h \<Longrightarrow> i + 3 \<le> h \<and> h \<le> length buf"
  by (induction buf i rule: find_start_code.induct)
     (subst (asm) (2) find_start_code.simps, auto split: if_splits)

function au_scan :: "(uint8 \<Rightarrow> bool) \<Rightarrow> uint8 list \<Rightarrow> nat \<Rightarrow> (nat \<times> nat) option" where
  "au_scan is_slice buf nh =
     (if nh < length buf
      then if is_slice (buf ! nh)
           then Some (nh, case find_start_code buf (nh + 1) of
                            None \<Rightarrow> length buf
                          | Some nxt \<Rightarrow> backup_to_4byte_sc buf (nxt - 3))
           else case find_start_code buf (nh + 1) of
                  None \<Rightarrow> None
                | Some nxt \<Rightarrow> au_scan is_slice buf nxt
      else None)"
  by pat_completeness auto
termination
  by (relation "measure (\<lambda>(_, buf, nh). length buf - nh)") (auto dest!: find_start_code_beyond)

declare au_scan.simps [simp del]

text \<open>The unit's offset and length, the offset of its slice, and the advanced iterator; None is the return value 0.\<close>

definition au_next_common :: "(uint8 \<Rightarrow> bool) \<Rightarrow> AuIter \<Rightarrow> (nat \<times> nat \<times> nat \<times> AuIter) option" where
  "au_next_common is_slice it =
     (if it_pos it \<ge> length (it_buf it) then None
      else case find_start_code (it_buf it) (it_pos it) of
        None \<Rightarrow> None
      | Some first_sc \<Rightarrow>
          (let sc_start = backup_to_4byte_sc (it_buf it) (first_sc - 3)
           in case au_scan is_slice (it_buf it) first_sc of
                None \<Rightarrow> None
              | Some (slice_nh, end) \<Rightarrow>
                  Some (sc_start, end - sc_start, backup_to_4byte_sc (it_buf it) (slice_nh - 3), it\<lparr>it_pos := end\<rparr>)))"

definition H264AuNext :: "AuIter \<Rightarrow> (nat \<times> nat \<times> nat \<times> AuIter) option" where
  "H264AuNext it = au_next_common h264_nal_is_slice it"

definition H265AuNext :: "AuIter \<Rightarrow> (nat \<times> nat \<times> nat \<times> AuIter) option" where
  "H265AuNext it = au_next_common h265_nal_is_slice it"

text \<open>The slice locator inside one unit: offset and size, None is the return value 1.\<close>

function find_slice_from :: "(uint8 \<Rightarrow> bool) \<Rightarrow> uint8 list \<Rightarrow> nat \<Rightarrow> (nat \<times> nat) option" where
  "find_slice_from is_slice au i =
     (if i + 4 < length au
      then if \<not> sc3_at au i \<and> \<not> sc4_at au i then find_slice_from is_slice au (i + 1)
           else (let hdr_off = i + (if sc3_at au i then 3 else 4)
                 in if hdr_off \<ge> length au then None
                    else if is_slice (au ! hdr_off) then Some (i, length au - i)
                    else find_slice_from is_slice au (hdr_off + 1))
      else None)"
  by pat_completeness auto
termination by (relation "measure (\<lambda>(_, au, i). length au - i)") auto

declare find_slice_from.simps [simp del]

definition find_slice_nal_common :: "(uint8 \<Rightarrow> bool) \<Rightarrow> uint8 list \<Rightarrow> (nat \<times> nat) option" where
  "find_slice_nal_common is_slice au = find_slice_from is_slice au 0"

definition H264FindSliceNal :: "uint8 list \<Rightarrow> (nat \<times> nat) option" where
  "H264FindSliceNal au = find_slice_nal_common h264_nal_is_slice au"

definition H265FindSliceNal :: "uint8 list \<Rightarrow> (nat \<times> nat) option" where
  "H265FindSliceNal au = find_slice_nal_common h265_nal_is_slice au"

section \<open>Length-prefixed samples\<close>

datatype AvccLenSize = AVCC_LEN_4 | AVCC_LEN_2 | AVCC_LEN_1 | AvccLenOther nat

fun len_bytes :: "AvccLenSize \<Rightarrow> nat" where
  "len_bytes AVCC_LEN_4 = 4" | "len_bytes AVCC_LEN_2 = 2" | "len_bytes AVCC_LEN_1 = 1"
| "len_bytes (AvccLenOther n) = n"

definition kStartCode :: "uint8 list" where
  "kStartCode = [0, 0, 0, 1]"

fun read_be_len :: "uint8 list \<Rightarrow> AvccLenSize \<Rightarrow> ULONG" where
  "read_be_len p AVCC_LEN_1 = ucast (p ! 0)"
| "read_be_len p AVCC_LEN_2 = push_bit 8 (ucast (p ! 0)) OR ucast (p ! 1)"
| "read_be_len p AVCC_LEN_4 =
     push_bit 24 (ucast (p ! 0)) OR push_bit 16 (ucast (p ! 1)) OR push_bit 8 (ucast (p ! 2)) OR ucast (p ! 3)"
| "read_be_len p (AvccLenOther _) = 0"

text \<open>
  The subtraction of the output offset from the capacity is unsigned 64-bit, and \<^verbatim>\<open>4 + nal_len\<close> is computed in
  32 bits. The result is the status and the bytes written to the output buffer so far, from its start: a list
  longer than the capacity is an overrun.
\<close>

definition size_sub :: "nat \<Rightarrow> nat \<Rightarrow> nat" where
  "size_sub a b = (a + 2 ^ 64 - b) mod 2 ^ 64"

function avcc_loop :: "AvccLenSize \<Rightarrow> nat \<Rightarrow> uint8 list \<Rightarrow> nat \<Rightarrow> uint8 list \<Rightarrow> int \<times> uint8 list" where
  "avcc_loop ls cap inb in_off out =
     (if in_off < length inb \<and> 0 < len_bytes ls then
        if length inb - in_off < len_bytes ls then (-1, out)
        else
          (let nal_len = read_be_len (drop in_off inb) ls;
               in1 = in_off + len_bytes ls
           in if nal_len = 0 then (-1, out)
              else if length inb - in1 < unat nal_len then (-1, out)
              else if size_sub cap (length out) < unat (4 + nal_len) then (-1, out)
              else avcc_loop ls cap inb (in1 + unat nal_len)
                     (out @ kStartCode @ take (unat nal_len) (drop in1 inb)))
      else if length out > 0x7FFFFFFF then (-1, out) else (int (length out), out))"
  by pat_completeness auto
termination by (relation "measure (\<lambda>(_, _, inb, in_off, _). length inb - in_off)") auto

declare avcc_loop.simps [simp del]

text \<open>\<open>inb\<close> is None for a NULL input of \<open>len\<close> claimed bytes, \<open>outOk\<close> whether the output pointer is non-NULL.\<close>

definition AvccToAnnexB :: "uint8 list option \<Rightarrow> nat \<Rightarrow> AvccLenSize \<Rightarrow> bool \<Rightarrow> nat \<Rightarrow> int \<times> uint8 list" where
  "AvccToAnnexB inb len ls outOk cap =
     (if inb = None \<and> len \<noteq> 0 then (-1, [])
      else if \<not> outOk \<and> cap \<noteq> 0 then (-1, [])
      else if ls \<noteq> AVCC_LEN_1 \<and> ls \<noteq> AVCC_LEN_2 \<and> ls \<noteq> AVCC_LEN_4 then (-1, [])
      else avcc_loop ls cap (case inb of None \<Rightarrow> [] | Some b \<Rightarrow> take len b) 0 [])"

datatype NalFraming = FRAMING_ANNEXB | FRAMING_AVCC4

definition DetectNalFraming :: "uint8 list \<Rightarrow> NalFraming" where
  "DetectNalFraming buf =
     (if length buf \<ge> 4 \<and> sc4_at buf 0 then FRAMING_ANNEXB
      else if length buf \<ge> 3 \<and> sc3_at buf 0 then FRAMING_ANNEXB
      else FRAMING_AVCC4)"

section \<open>Start codes\<close>

text \<open>
  A four-byte start code contains a three-byte one, so the search is the search for the first three-byte code;
  the position returned is that of the NAL header behind it.
\<close>

lemma find_start_code_find:
  "find_start_code buf i = map_option (\<lambda>j. j + 3) (find (sc3_at buf) [i..<length buf - 2])"
proof (induction buf i rule: find_start_code.induct)
  case (1 buf i)
  show ?case
  proof (cases "i + 3 \<le> length buf")
    case True
    then have r: "[i..<length buf - 2] = i # [i + 1..<length buf - 2]" by (simp add: upt_conv_Cons)
    show ?thesis
    proof (cases "i + 4 \<le> length buf \<and> sc4_at buf i")
      case c4: True
      then have "sc3_at buf (i + 1)" "\<not> sc3_at buf i" by (auto simp: sc3_at_def sc4_at_def eval_nat_numeral)
      moreover have "[i + 1..<length buf - 2] = (i + 1) # [i + 1 + 1..<length buf - 2]" using c4 by (subst upt_conv_Cons) auto
      ultimately show ?thesis using True c4 by (subst find_start_code.simps) (simp add: r)
    next
      case False
      then show ?thesis using True 1 by (subst find_start_code.simps) (auto simp: r)
    qed
  next
    case False
    then show ?thesis by (subst find_start_code.simps) simp
  qed
qed

text \<open>The NAL headers of a buffer: the positions behind a three-byte start code.\<close>

definition header_at :: "uint8 list \<Rightarrow> nat \<Rightarrow> bool" where
  "header_at buf h \<longleftrightarrow> 3 \<le> h \<and> h \<le> length buf \<and> sc3_at buf (h - 3)"

lemma find_start_code_Some:
  "find_start_code buf i = Some h \<longleftrightarrow> header_at buf h \<and> i + 3 \<le> h \<and> (\<forall>k. header_at buf k \<and> i + 3 \<le> k \<longrightarrow> h \<le> k)"
  (is "?L \<longleftrightarrow> ?R")
proof
  assume ?L
  then obtain j where j: "find (sc3_at buf) [i..<length buf - 2] = Some j" "h = j + 3"
    by (auto simp: find_start_code_find)
  then obtain n where n: "n < length buf - 2 - i" "sc3_at buf (i + n)" "j = i + n" "\<forall>m < n. \<not> sc3_at buf (i + m)"
    by (auto simp: find_Some_iff)
  have "h \<le> k" if k: "header_at buf k" "i + 3 \<le> k" for k
  proof (rule ccontr)
    assume "\<not> h \<le> k"
    then have "k - 3 - i < n" "i + (k - 3 - i) = k - 3" using k n j by auto
    then show False using n(4) k by (metis header_at_def)
  qed
  then show ?R using n j by (auto simp: header_at_def)
next
  assume R: ?R
  let ?n = "h - 3 - i"
  have "find (sc3_at buf) [i..<length buf - 2] = Some (h - 3)"
    unfolding find_Some_iff
  proof (intro exI[of _ ?n] conjI allI impI)
    show "?n < length [i..<length buf - 2]" using R by (auto simp: header_at_def)
    then show "h - 3 = [i..<length buf - 2] ! ?n" using R by simp
    have "[i..<length buf - 2] ! ?n = h - 3" using R by (intro trans[OF nth_upt]) (auto simp: header_at_def)
    then show "sc3_at buf ([i..<length buf - 2] ! ?n)" using R by (simp add: header_at_def)
    fix m assume m: "m < ?n"
    show "\<not> sc3_at buf ([i..<length buf - 2] ! m)"
    proof
      assume "sc3_at buf ([i..<length buf - 2] ! m)"
      then have "sc3_at buf (i + m)" using m R by (auto simp: header_at_def)
      then have "header_at buf (i + m + 3)" using m R by (auto simp: header_at_def)
      then have "h \<le> i + m + 3" using R by auto
      then show False using m by linarith
    qed
  qed
  then show ?L using R by (simp add: find_start_code_find header_at_def)
qed

lemma find_start_code_None:
  "find_start_code buf i = None \<longleftrightarrow> (\<forall>k. header_at buf k \<longrightarrow> k < i + 3)"
proof
  assume "find_start_code buf i = None"
  then have n: "\<not> (\<exists>x. x \<in> set [i..<length buf - 2] \<and> sc3_at buf x)" by (simp add: find_start_code_find find_None_iff)
  show "\<forall>k. header_at buf k \<longrightarrow> k < i + 3"
  proof (intro allI impI)
    fix k assume k: "header_at buf k"
    then have "k - 3 \<notin> set [i..<length buf - 2]" using n by (auto simp: header_at_def)
    then show "k < i + 3" using k by (auto simp: header_at_def)
  qed
next
  assume R: "\<forall>k. header_at buf k \<longrightarrow> k < i + 3"
  have "\<not> sc3_at buf x" if x: "x \<in> set [i..<length buf - 2]" for x
  proof
    assume "sc3_at buf x"
    moreover have "x + 3 \<le> length buf" "i \<le> x" using x by auto
    ultimately show False using R[rule_format, of "x + 3"] by (simp add: header_at_def)
  qed
  then show "find_start_code buf i = None" by (auto simp: find_start_code_find find_None_iff)
qed

section \<open>The iterator\<close>

lemma backup_bounds: "backup_to_4byte_sc buf k \<le> k" "k \<le> backup_to_4byte_sc buf k + 1"
  by (auto simp: backup_to_4byte_sc_def)

text \<open>From the backed-up position of a header the search finds this header again.\<close>

lemma find_from_backup:
  assumes "header_at buf h"
  shows "find_start_code buf (backup_to_4byte_sc buf (h - 3)) = Some h"
  unfolding find_start_code_Some
proof (intro conjI allI impI)
  show "header_at buf h" by (rule assms)
  then show "backup_to_4byte_sc buf (h - 3) + 3 \<le> h" using backup_bounds(1)[of buf "h - 3"] unfolding header_at_def by linarith
  fix k assume k: "header_at buf k \<and> backup_to_4byte_sc buf (h - 3) + 3 \<le> k"
  show "h \<le> k"
  proof (rule ccontr)
    assume "\<not> h \<le> k"
    then have "k = h - 1" "4 \<le> h" using k backup_bounds(2)[of "h - 3" buf] assms by (auto simp: header_at_def)
    then have "buf ! (h - 2) = 1" "buf ! (h - 2) = 0" using k assms
      by (auto simp: header_at_def sc3_at_def numeral_eq_Suc Suc_diff_Suc)
    then show False by simp
  qed
qed

text \<open>What one step of the iterator returns.\<close>

lemma au_scan_Some:
  assumes "au_scan s buf nh0 = Some (nh, e)" "header_at buf nh0"
  shows "header_at buf nh \<and> nh0 \<le> nh \<and> nh < length buf \<and> s (buf ! nh) \<and> nh \<le> e \<and> e \<le> length buf \<and>
    (\<forall>k. header_at buf k \<and> nh0 \<le> k \<and> k < nh \<longrightarrow> \<not> s (buf ! k) \<or> (\<exists>j. header_at buf j \<and> j < k \<and> k < j + 4)) \<and>
    (e = length buf \<or> (\<exists>h. header_at buf h \<and> e = backup_to_4byte_sc buf (h - 3)))"
  using assms
proof (induction s buf nh0 rule: au_scan.induct)
  case (1 s buf nh0)
  note step = 1(2)[unfolded au_scan.simps[of s buf nh0]]
  from step have lt: "nh0 < length buf" by (simp split: if_splits)
  show ?case
  proof (cases "s (buf ! nh0)")
    case True
    then have nh: "nh = nh0" and e: "e = (case find_start_code buf (nh0 + 1) of None \<Rightarrow> length buf
        | Some nxt \<Rightarrow> backup_to_4byte_sc buf (nxt - 3))" using step lt by auto
    have "nh0 \<le> e \<and> e \<le> length buf \<and> (e = length buf \<or> (\<exists>h. header_at buf h \<and> e = backup_to_4byte_sc buf (h - 3)))"
    proof (cases "find_start_code buf (nh0 + 1)")
      case (Some nxt)
      then have "header_at buf nxt" "nh0 + 4 \<le> nxt" by (auto simp: find_start_code_Some)
      moreover from this have "nh0 \<le> backup_to_4byte_sc buf (nxt - 3)" "backup_to_4byte_sc buf (nxt - 3) \<le> length buf"
        using backup_bounds[where buf = buf and k = "nxt - 3"] unfolding header_at_def by linarith+
      ultimately show ?thesis using e Some by auto
    qed (use e lt in auto)
    then show ?thesis using True 1(3) lt by (auto simp: nh)
  next
    case False
    then obtain nxt where nxt: "find_start_code buf (nh0 + 1) = Some nxt" "au_scan s buf nxt = Some (nh, e)"
      using step lt by (auto split: option.splits)
    then have h: "header_at buf nxt" "nh0 + 4 \<le> nxt" "\<forall>k. header_at buf k \<and> nh0 + 4 \<le> k \<longrightarrow> nxt \<le> k"
      by (auto simp: find_start_code_Some)
    note ih = 1(1)[OF lt False nxt h(1)]
    have "\<not> s (buf ! k) \<or> (\<exists>j. header_at buf j \<and> j < k \<and> k < j + 4)"
      if k: "header_at buf k" "nh0 \<le> k" "k < nh" for k
    proof (cases "nxt \<le> k")
      case True then show ?thesis using ih k by blast
    next
      case f: False
      then have "k < nh0 + 4" using h(3) k(1) by (metis not_le_imp_less)
      then show ?thesis using k 1(3) False by (cases "k = nh0") auto
    qed
    then show ?thesis using ih h(2) by auto
  qed
qed

text \<open>The units a caller collects by calling the iterator until it returns 0: offset, length, slice offset.\<close>

lemma au_next_Some:
  assumes "au_next_common s it = Some (off, n, sl, it')"
  shows "\<exists>h nh. find_start_code (it_buf it) (it_pos it) = Some h \<and> au_scan s (it_buf it) h = Some (nh, it_pos it') \<and>
    off = backup_to_4byte_sc (it_buf it) (h - 3) \<and> n = it_pos it' - off \<and>
    sl = backup_to_4byte_sc (it_buf it) (nh - 3) \<and> it_buf it' = it_buf it"
  using assms by (auto simp: au_next_common_def Let_def split: if_splits option.splits prod.splits)

lemma au_next_unit:
  assumes "au_next_common s it = Some (off, n, sl, it')"
  obtains h nh where "find_start_code (it_buf it) (it_pos it) = Some h" "off = backup_to_4byte_sc (it_buf it) (h - 3)"
    "header_at (it_buf it) nh" "nh < length (it_buf it)" "s (it_buf it ! nh)" "sl = backup_to_4byte_sc (it_buf it) (nh - 3)"
    "off \<le> sl" "sl < it_pos it'" "it_pos it' \<le> length (it_buf it)" "it_pos it < it_pos it'" "off + n = it_pos it'"
    "h \<le> nh" "au_scan s (it_buf it) h = Some (nh, it_pos it')" "it_buf it' = it_buf it"
proof -
  from au_next_Some[OF assms] obtain h nh where h: "find_start_code (it_buf it) (it_pos it) = Some h"
    "au_scan s (it_buf it) h = Some (nh, it_pos it')" "off = backup_to_4byte_sc (it_buf it) (h - 3)" "n = it_pos it' - off"
    "sl = backup_to_4byte_sc (it_buf it) (nh - 3)" "it_buf it' = it_buf it" by blast
  have hh: "header_at (it_buf it) h" "it_pos it + 3 \<le> h" using h(1) by (auto simp: find_start_code_Some)
  note sc = au_scan_Some[OF h(2) hh(1)]
  have sl: "sl < nh" using h(5) sc backup_bounds(1)[of "it_buf it" "nh - 3"] unfolding header_at_def by linarith
  have "off \<le> sl"
  proof (cases "nh = h")
    case False
    then have "h - 3 \<le> nh - 3 - 1" "3 \<le> h" "4 \<le> nh" using sc hh by (auto simp: header_at_def)
    then show ?thesis using h(3,5) backup_bounds(1)[of "it_buf it" "h - 3"] backup_bounds(2)[of "nh - 3" "it_buf it"] by linarith
  qed (use h in simp)
  then show ?thesis using that[OF h(1,3) _ _ _ h(5)] sc h hh sl by auto
qed

function au_units :: "(uint8 \<Rightarrow> bool) \<Rightarrow> AuIter \<Rightarrow> (nat \<times> nat \<times> nat) list" where
  "au_units s it = (case au_next_common s it of
     None \<Rightarrow> [] | Some (off, n, sl, it') \<Rightarrow> (off, n, sl) # au_units s it')"
  by pat_completeness auto
termination
proof (relation "measure (\<lambda>(_, it). length (it_buf it) - it_pos it)")
  fix s it x a b c d e f
  assume "au_next_common s it = Some x" "(a, b) = x" "(c, d) = b" "(e, f) = d"
  then have "au_next_common s it = Some (a, c, e, f)" by simp
  then show "((s, f), (s, it)) \<in> measure (\<lambda>(_, it). length (it_buf it) - it_pos it)"
    by (rule au_next_unit) auto
qed simp

declare au_units.simps [simp del]

text \<open>
  Where an iteration starts or resumes: at the beginning, at the end, or at the backed-up position of a header.
\<close>

definition resumed :: "AuIter \<Rightarrow> bool" where
  "resumed it \<longleftrightarrow> it_pos it = length (it_buf it) \<or>
     (\<exists>h. header_at (it_buf it) h \<and> it_pos it = backup_to_4byte_sc (it_buf it) (h - 3))"

lemma au_next_resumes:
  assumes "au_next_common s it = Some (off, n, sl, it')"
  shows "resumed it'"
proof -
  from au_next_Some[OF assms] obtain h nh where h: "find_start_code (it_buf it) (it_pos it) = Some h"
    "au_scan s (it_buf it) h = Some (nh, it_pos it')" "it_buf it' = it_buf it" by blast
  then show ?thesis using au_scan_Some[OF h(2)] by (auto simp: find_start_code_Some resumed_def)
qed

lemma resumed_next:
  assumes "resumed it" "au_next_common s it = Some (off, n, sl, it')"
  shows "off = it_pos it"
proof -
  obtain h where h: "find_start_code (it_buf it) (it_pos it) = Some h" "off = backup_to_4byte_sc (it_buf it) (h - 3)"
    using au_next_unit[OF assms(2)] by metis
  then have lt: "it_pos it + 3 \<le> length (it_buf it)" using find_start_code_beyond[OF h(1)] by linarith
  then obtain k where k: "header_at (it_buf it) k" "it_pos it = backup_to_4byte_sc (it_buf it) (k - 3)"
    using assms(1) by (auto simp: resumed_def)
  have "h = k" using find_from_backup[OF k(1)] h(1) k(2) by simp
  then show ?thesis using h(2) k(2) by simp
qed

text \<open>A unit with its one slice: its last header is the slice header and no earlier header of the unit is one.\<close>

definition unit_ok :: "(uint8 \<Rightarrow> bool) \<Rightarrow> uint8 list \<Rightarrow> nat \<times> nat \<times> nat \<Rightarrow> bool" where
  "unit_ok s buf = (\<lambda>(off, n, sl). off \<le> sl \<and> sl < off + n \<and> off + n \<le> length buf \<and>
     (\<exists>h nh. header_at buf h \<and> off = backup_to_4byte_sc buf (h - 3) \<and> header_at buf nh \<and> nh < length buf \<and>
        s (buf ! nh) \<and> sl = backup_to_4byte_sc buf (nh - 3) \<and>
        (\<forall>k. header_at buf k \<and> h \<le> k \<and> k < nh \<longrightarrow> \<not> s (buf ! k) \<or> (\<exists>j. header_at buf j \<and> j < k \<and> k < j + 4))))"

lemma au_next_unit_ok:
  assumes "au_next_common s it = Some (off, n, sl, it')"
  shows "unit_ok s (it_buf it) (off, n, sl)"
proof (rule au_next_unit[OF assms])
  fix h nh
  assume a: "find_start_code (it_buf it) (it_pos it) = Some h" "off = backup_to_4byte_sc (it_buf it) (h - 3)"
    "header_at (it_buf it) nh" "nh < length (it_buf it)" "s (it_buf it ! nh)" "sl = backup_to_4byte_sc (it_buf it) (nh - 3)"
    "off \<le> sl" "sl < it_pos it'" "it_pos it' \<le> length (it_buf it)" "off + n = it_pos it'"
    "au_scan s (it_buf it) h = Some (nh, it_pos it')"
  have hh: "header_at (it_buf it) h" using a(1) by (simp add: find_start_code_Some)
  show ?thesis unfolding unit_ok_def using a hh au_scan_Some[OF a(11) hh] by auto
qed

lemma au_units_chain:
  "resumed it \<or> it_pos it = 0 \<Longrightarrow> us = au_units s it \<Longrightarrow>
   (\<forall>u \<in> set us. unit_ok s (it_buf it) u) \<and> (resumed it \<and> us \<noteq> [] \<longrightarrow> fst (hd us) = it_pos it) \<and>
   (\<forall>k. Suc k < length us \<longrightarrow> fst (us ! Suc k) = fst (us ! k) + fst (snd (us ! k)))"
proof (induction s it arbitrary: us rule: au_units.induct)
  case (1 s it)
  show ?case
  proof (cases "au_next_common s it")
    case None
    then have "us = []" using 1(3) by (subst (asm) au_units.simps) simp
    then show ?thesis by simp
  next
    case (Some x)
    obtain off n sl it' where x: "x = (off, n, sl, it')" by (cases x) auto
    note nx = Some[unfolded x]
    let ?us = "au_units s it'"
    have us: "us = (off, n, sl) # ?us" using 1(3) nx by (subst (asm) au_units.simps) simp
    have r: "resumed it'" by (rule au_next_resumes[OF nx])
    have b: "it_buf it' = it_buf it" "off + n = it_pos it'" using au_next_unit[OF nx] by metis+
    have ih: "(\<forall>u \<in> set ?us. unit_ok s (it_buf it') u) \<and> (resumed it' \<and> ?us \<noteq> [] \<longrightarrow> fst (hd ?us) = it_pos it') \<and>
      (\<forall>k. Suc k < length ?us \<longrightarrow> fst (?us ! Suc k) = fst (?us ! k) + fst (snd (?us ! k)))"
      by (rule 1(1)[OF nx refl refl refl _ refl]) (use r in simp)
    have "fst (us ! Suc k) = fst (us ! k) + fst (snd (us ! k))" if "Suc k < length us" for k
    proof (cases k)
      case 0
      then show ?thesis using that ih r b by (auto simp: us hd_conv_nth)
    next
      case (Suc m)
      then show ?thesis using that ih by (simp add: us)
    qed
    moreover have "\<forall>u \<in> set us. unit_ok s (it_buf it) u" using ih au_next_unit_ok[OF nx] by (auto simp: us b)
    moreover have "resumed it \<longrightarrow> fst (hd us) = it_pos it" using resumed_next[OF _ nx] by (simp add: us)
    ultimately show ?thesis by blast
  qed
qed


text \<open>A stream of a parameter set, a slice with a long start code and a slice with a short one.\<close>

definition demo_stream :: "uint8 list" where
  "demo_stream = [0, 0, 0, 1, 0x67, 7, 0, 0, 0, 1, 0x65, 9, 8, 0, 0, 1, 0x41, 5]"

lemma demo_units: "au_units h264_nal_is_slice (AuIter_Init demo_stream) = [(0, 13, 6), (13, 5, 13)]"
  by code_simp


section \<open>Conversion of samples\<close>

text \<open>The big-endian length field of a NAL and the two framings of a NAL.\<close>

fun be_bytes :: "AvccLenSize \<Rightarrow> nat \<Rightarrow> uint8 list" where
  "be_bytes AVCC_LEN_1 n = [of_nat n]"
| "be_bytes AVCC_LEN_2 n = [of_nat (n div 2 ^ 8), of_nat n]"
| "be_bytes AVCC_LEN_4 n = [of_nat (n div 2 ^ 24), of_nat (n div 2 ^ 16), of_nat (n div 2 ^ 8), of_nat n]"
| "be_bytes (AvccLenOther _) n = []"

definition frame_avcc :: "AvccLenSize \<Rightarrow> uint8 list \<Rightarrow> uint8 list" where
  "frame_avcc ls nal = be_bytes ls (length nal) @ nal"

definition frame_annexb :: "uint8 list \<Rightarrow> uint8 list" where
  "frame_annexb nal = kStartCode @ nal"

definition nal_ok :: "AvccLenSize \<Rightarrow> uint8 list \<Rightarrow> bool" where
  "nal_ok ls nal \<longleftrightarrow> nal \<noteq> [] \<and> length nal < 2 ^ (8 * len_bytes ls)"

definition valid_len :: "AvccLenSize \<Rightarrow> bool" where
  "valid_len ls \<longleftrightarrow> ls = AVCC_LEN_1 \<or> ls = AVCC_LEN_2 \<or> ls = AVCC_LEN_4"

lemma nat_push_or: "y < 2 ^ k \<Longrightarrow> push_bit k x OR y = x * 2 ^ k + (y :: nat)"
proof -
  assume y: "y < 2 ^ k"
  have "push_bit k x AND y = 0"
  proof (rule bit_eqI)
    fix n
    have "\<not> bit y n" if "k \<le> n" using y that by (metis bit_take_bit_iff leD take_bit_nat_eq_self)
    then show "bit (push_bit k x AND y) n = bit (0 :: nat) n" by (auto simp: bit_and_iff bit_push_bit_iff)
  qed
  then show ?thesis by (simp add: disjunctive_add_eq_or push_bit_eq_mult flip: disjunctive_add_eq_or)
qed

lemma byte_lt: "unat (b :: uint8) < 256"
  using unsigned_less[of b, where 'a = nat] by simp

lemma unat_push_byte: "k \<le> 24 \<Longrightarrow> unat (push_bit k (ucast (b :: uint8)) :: ULONG) = push_bit k (unat b)"
proof -
  assume k: "k \<le> 24"
  have "(2 :: nat) ^ k \<le> 2 ^ 24" by (rule power_increasing) (use k in auto)
  then have "unat b * 2 ^ k < 2 ^ 8 * 2 ^ 24"
    by (intro mult_less_le_imp_less) (use unsigned_less[of b, where 'a = nat] in auto)
  then show ?thesis by (subst unsigned_push_bit_eq)
      (simp add: push_bit_eq_mult unsigned_ucast_eq take_bit_nat_eq_self less_trans[OF byte_lt])
qed

text \<open>The value of the length field, and the field of a value.\<close>

definition be_value :: "AvccLenSize \<Rightarrow> uint8 list \<Rightarrow> nat" where
  "be_value ls p = (case ls of AVCC_LEN_1 \<Rightarrow> unat (p ! 0) | AVCC_LEN_2 \<Rightarrow> unat (p ! 0) * 2 ^ 8 + unat (p ! 1)
     | AVCC_LEN_4 \<Rightarrow> unat (p ! 0) * 2 ^ 24 + (unat (p ! 1) * 2 ^ 16 + (unat (p ! 2) * 2 ^ 8 + unat (p ! 3)))
     | AvccLenOther _ \<Rightarrow> 0)"

lemma read_be_value: "unat (read_be_len p ls) = be_value ls p"
proof (cases ls)
  case AVCC_LEN_4
  have "unat (p ! 2) * 2 ^ 8 + unat (p ! 3) < 2 ^ 16" "unat (p ! 1) * 2 ^ 16 + (unat (p ! 2) * 2 ^ 8 + unat (p ! 3)) < 2 ^ 24"
    using byte_lt[of "p ! 1"] byte_lt[of "p ! 2"] byte_lt[of "p ! 3"] by simp_all
  then show ?thesis using AVCC_LEN_4 byte_lt[of "p ! 3"]
    by (simp add: be_value_def unsigned_or_eq unat_push_byte nat_push_or unsigned_ucast_eq or.assoc take_bit_nat_eq_self)
next
  case AVCC_LEN_2
  then show ?thesis using byte_lt[of "p ! 1"]
    by (simp add: be_value_def unsigned_or_eq unat_push_byte nat_push_or unsigned_ucast_eq take_bit_nat_eq_self)
qed (simp_all add: be_value_def unsigned_ucast_eq take_bit_nat_eq_self byte_lt less_trans[OF byte_lt])

lemma be_value_bytes: "valid_len ls \<Longrightarrow> n < 2 ^ (8 * len_bytes ls) \<Longrightarrow> be_value ls (be_bytes ls n @ rest) = n"
proof -
  assume v: "valid_len ls" and n: "n < 2 ^ (8 * len_bytes ls)"
  have q: "n div 65536 = n div 256 div 256" "n div 16777216 = n div 256 div 256 div 256" by (simp_all add: div_mult2_eq)
  have split: "n = n div 16777216 * 16777216 + (n div 65536 mod 256 * 65536 + (n div 256 mod 256 * 256 + n mod 256))"
    unfolding q using div_mult_mod_eq[of n 256] div_mult_mod_eq[of "n div 256" 256] div_mult_mod_eq[of "n div 256 div 256" 256]
    by linarith
  have u: "unat (word_of_nat m :: uint8) = m mod 256" for m by (simp add: unsigned_of_nat take_bit_eq_mod)
  show ?thesis
  proof (cases ls)
    case AVCC_LEN_4
    then have "n div 2 ^ 24 mod 256 = n div 2 ^ 24" using n by simp
    then have "be_value ls (be_bytes ls n @ rest) =
        n div 16777216 * 16777216 + (n div 65536 mod 256 * 65536 + (n div 256 mod 256 * 256 + n mod 256))"
      using AVCC_LEN_4 by (simp add: be_value_def u)
    then show ?thesis using split by simp
  qed (use v n in \<open>auto simp: valid_len_def be_value_def u\<close>)
qed

lemma be_bytes_value: "valid_len ls \<Longrightarrow> len_bytes ls \<le> length p \<Longrightarrow> be_bytes ls (be_value ls p) = take (len_bytes ls) p"
proof -
  assume v: "valid_len ls" and l: "len_bytes ls \<le> length p"
  have u: "word_of_nat (m * 256 + unat b) = (b :: uint8)" for m b
  proof (rule word_unat_eq_iff[THEN iffD2])
    show "unat (word_of_nat (m * 256 + unat b) :: uint8) = unat b"
      unfolding unsigned_of_nat using byte_lt[of b] by (simp add: take_bit_eq_mod)
  qed
  show ?thesis
  proof (cases ls)
    case AVCC_LEN_4
    then obtain a b c d q where p: "p = a # b # c # d # q" using l by (auto simp: Suc_le_length_iff numeral_eq_Suc)
    let ?n = "unat a * 2 ^ 24 + (unat b * 2 ^ 16 + (unat c * 2 ^ 8 + unat d))"
    let ?b = "unat a * 256 + unat b" and ?c = "(unat a * 256 + unat b) * 256 + unat c"
    have n: "?n = unat a * 2 ^ 24 + (unat b * 65536 + unat c * 256 + unat d)" "?n = ?b * 2 ^ 16 + (unat c * 256 + unat d)"
      "?n = ?c * 2 ^ 8 + unat d" by simp_all
    have "?n div 2 ^ 24 = unat a" unfolding n(1) using byte_lt[of b] byte_lt[of c] byte_lt[of d] by simp
    moreover have "?n div 2 ^ 16 = ?b" unfolding n(2) using byte_lt[of c] byte_lt[of d] by simp
    moreover have "?n div 2 ^ 8 = ?c" unfolding n(3) using byte_lt[of d] by simp
    moreover have "?n = ?c * 256 + unat d" by simp
    ultimately have "be_bytes ls ?n = [a, b, c, d]" using AVCC_LEN_4 u[of 0 a] u[of "unat a" b] u[of ?b c] u[of ?c d]
      by (simp only: be_bytes.simps) simp
    then show ?thesis using AVCC_LEN_4 p by (simp add: be_value_def)
  next
    case AVCC_LEN_2
    then obtain a b q where p: "p = a # b # q" using l by (auto simp: Suc_le_length_iff numeral_eq_Suc)
    have "(unat a * 2 ^ 8 + unat b) div 2 ^ 8 = unat a" using byte_lt[of b] by simp
    then show ?thesis using AVCC_LEN_2 p u[of "unat a" b] by (simp add: be_value_def)
  next
    case AVCC_LEN_1
    then show ?thesis using l by (cases p) (auto simp: be_value_def)
  qed (use v in \<open>simp add: valid_len_def\<close>)
qed

lemma be_bytes_length [simp]: "valid_len ls \<Longrightarrow> length (be_bytes ls n) = len_bytes ls"
  by (auto simp: valid_len_def)

lemma size_sub_le:
  assumes "b \<le> a" "a < 2 ^ 64"
  shows "size_sub a b = a - b"
proof -
  have e: "a + 2 ^ 64 - b = (a - b) + 2 ^ 64" using assms(1) by (rule Nat.add_diff_assoc2[symmetric])
  have "a - b < 2 ^ 64" using assms(2) by (rule order.strict_trans1[OF diff_le_self])
  then show ?thesis unfolding size_sub_def e mod_add_self2 by (rule mod_less)
qed

lemma plus4: "unat (n :: ULONG) < 2 ^ 32 - 4 \<Longrightarrow> unat (4 + n) = 4 + unat n"
  by (subst unat_word_ariths(1)) simp

text \<open>One round of the loop on a field that announces a NAL inside the buffer.\<close>

lemma avcc_step:
  assumes "valid_len ls" "in_off < length inb" "len_bytes ls \<le> length inb - in_off"
    "n = be_value ls (drop in_off inb)" "0 < n" "n \<le> length inb - (in_off + len_bytes ls)" "length inb < 2 ^ 32 - 4"
    "length out \<le> cap" "cap < 2 ^ 64" "4 + n \<le> cap - length out"
  shows "avcc_loop ls cap inb in_off out = avcc_loop ls cap inb (in_off + len_bytes ls + n)
    (out @ kStartCode @ take n (drop (in_off + len_bytes ls) inb))"
proof -
  have r: "unat (read_be_len (drop in_off inb) ls) = n" using assms(4) by (simp add: read_be_value)
  then have nz: "read_be_len (drop in_off inb) ls \<noteq> 0" using assms(5) by (metis less_irrefl unsigned_0)
  have "unat (4 + read_be_len (drop in_off inb) ls) = 4 + n" using plus4[of "read_be_len (drop in_off inb) ls"] r assms by simp
  then show ?thesis using assms r nz by (subst avcc_loop.simps) (auto simp: valid_len_def size_sub_le Let_def)
qed

lemma avcc_loop_sound:
  assumes "avcc_loop ls cap inb in_off out = (r, out')" "valid_len ls" "length inb < 2 ^ 32 - 4" "cap < 2 ^ 64"
    "length out \<le> cap" "in_off \<le> length inb"
  shows "length out' \<le> cap \<and> (r = -1 \<or> (\<exists>nals. (\<forall>x \<in> set nals. nal_ok ls x) \<and>
    drop in_off inb = concat (map (frame_avcc ls) nals) \<and> out' = out @ concat (map frame_annexb nals) \<and> r = int (length out')))"
  using assms
proof (induction ls cap inb in_off out rule: avcc_loop.induct)
  case (1 ls cap inb in_off out)
  note step = 1(2)[unfolded avcc_loop.simps[of ls cap inb in_off out] Let_def]
  let ?n = "unat (read_be_len (drop in_off inb) ls)"
  have pos: "0 < len_bytes ls" using 1(3) by (auto simp: valid_len_def)
  show ?case
  proof (cases "in_off < length inb \<and> len_bytes ls \<le> length inb - in_off \<and> read_be_len (drop in_off inb) ls \<noteq> 0 \<and>
      ?n \<le> length inb - (in_off + len_bytes ls) \<and> unat (4 + read_be_len (drop in_off inb) ls) \<le> size_sub cap (length out)")
    case False
    then show ?thesis using step pos 1(6,7) by (auto split: if_splits intro!: exI[of _ "[]"])
  next
    case True
    let ?out = "out @ kStartCode @ take ?n (drop (in_off + len_bytes ls) inb)"
    have "avcc_loop ls cap inb (in_off + len_bytes ls + ?n) ?out = (r, out')" using step True pos by (auto split: if_splits)
    moreover have "unat (4 + read_be_len (drop in_off inb) ls) = 4 + ?n" by (rule plus4) (use True 1(4) in linarith)
    then have "length ?out \<le> cap" using True 1(5,6) by (auto simp: size_sub_le kStartCode_def)
    moreover have "in_off + len_bytes ls + ?n \<le> length inb" using True by linarith
    ultimately have ih: "length out' \<le> cap \<and> (r = -1 \<or> (\<exists>nals. (\<forall>x \<in> set nals. nal_ok ls x) \<and>
        drop (in_off + len_bytes ls + ?n) inb = concat (map (frame_avcc ls) nals) \<and>
        out' = ?out @ concat (map frame_annexb nals) \<and> r = int (length out')))"
      using 1(1)[OF _ _ refl refl] True pos 1(3-5) by (simp add: not_less)
    let ?x = "take ?n (drop (in_off + len_bytes ls) inb)"
    have lx: "length ?x = ?n" using True by simp
    have be: "be_bytes ls ?n = take (len_bytes ls) (drop in_off inb)"
      unfolding read_be_value by (rule be_bytes_value[OF 1(3)]) (use True in simp)
    have q: "drop (in_off + len_bytes ls) inb = drop (len_bytes ls) (drop in_off inb)"
      "drop (in_off + len_bytes ls + ?n) inb = drop ?n (drop (len_bytes ls) (drop in_off inb))" by (simp_all add: ac_simps)
    have fx: "frame_avcc ls ?x @ drop (in_off + len_bytes ls + ?n) inb = drop in_off inb"
      unfolding frame_avcc_def lx be unfolding q append.assoc append_take_drop_id ..
    have "?n \<noteq> 0" using True by (simp add: unat_eq_zero)
    moreover have "?n < 2 ^ (8 * len_bytes ls)"
      using 1(3) byte_lt[of "drop in_off inb ! 0"] byte_lt[of "drop in_off inb ! 1"] byte_lt[of "drop in_off inb ! 2"]
        byte_lt[of "drop in_off inb ! 3"]
      unfolding read_be_value by (auto simp: valid_len_def be_value_def)
    ultimately have ok: "nal_ok ls ?x" using lx unfolding nal_ok_def by (metis length_0_conv)
    show ?thesis
    proof (cases "r = -1")
      case False
      then obtain nals where n: "\<forall>x \<in> set nals. nal_ok ls x" "drop (in_off + len_bytes ls + ?n) inb = concat (map (frame_avcc ls) nals)"
        "out' = ?out @ concat (map frame_annexb nals)" "r = int (length out')" using ih by blast
      have "\<forall>x \<in> set (?x # nals). nal_ok ls x" using ok n(1) by simp
      moreover have "drop in_off inb = concat (map (frame_avcc ls) (?x # nals))" using fx n(2) by simp
      moreover have "out' = out @ concat (map frame_annexb (?x # nals))" using n(3) by (simp add: frame_annexb_def)
      ultimately show ?thesis using ih n(4) by blast
    qed (use ih in simp)
  qed
qed

lemma avcc_loop_complete:
  assumes "valid_len ls" "\<forall>x \<in> set nals. nal_ok ls x" "in_off \<le> length inb" "drop in_off inb = concat (map (frame_avcc ls) nals)"
    "length inb < 2 ^ 32 - 4" "cap < 2 ^ 64" "length out + length (concat (map frame_annexb nals)) \<le> cap"
    "length out + length (concat (map frame_annexb nals)) \<le> 0x7FFFFFFF"
  shows "avcc_loop ls cap inb in_off out =
    (int (length out + length (concat (map frame_annexb nals))), out @ concat (map frame_annexb nals))"
  using assms
proof (induction nals arbitrary: in_off out)
  case Nil
  then have "in_off = length inb" by simp
  then show ?case using Nil by (subst avcc_loop.simps) simp
next
  case (Cons x nals)
  have ok: "nal_ok ls x" using Cons.prems(2) by simp
  have d: "drop in_off inb = be_bytes ls (length x) @ x @ concat (map (frame_avcc ls) nals)"
    using Cons.prems(4) by (simp add: frame_avcc_def[of ls x])
  have v: "be_value ls (drop in_off inb) = length x" unfolding d using ok Cons.prems(1) by (simp add: be_value_bytes nal_ok_def)
  have l: "length inb - in_off = len_bytes ls + length x + length (concat (map (frame_avcc ls) nals))"
    using arg_cong[OF d, of length] Cons.prems(1) by simp
  have dd: "drop (in_off + len_bytes ls) inb = x @ concat (map (frame_avcc ls) nals)"
    "drop (in_off + len_bytes ls + length x) inb = concat (map (frame_avcc ls) nals)"
    using arg_cong[OF d, of "drop (len_bytes ls)"] arg_cong[OF d, of "drop (len_bytes ls + length x)"] Cons.prems(1)
    by (simp_all add: add.commute add.left_commute)
  have "avcc_loop ls cap inb in_off out = avcc_loop ls cap inb (in_off + len_bytes ls + length x)
      (out @ kStartCode @ take (length x) (drop (in_off + len_bytes ls) inb))"
  proof (rule avcc_step)
    have "x \<noteq> []" using ok by (simp add: nal_ok_def)
    then show "in_off < length inb" "0 < length x" using l by (cases "in_off < length inb"; simp)+
    show "4 + length x \<le> cap - length out" using Cons.prems(7) by (simp add: frame_annexb_def kStartCode_def)
  qed (use Cons.prems l v in auto)
  also have "\<dots> = avcc_loop ls cap inb (in_off + len_bytes ls + length x) (out @ frame_annexb x)"
    by (simp add: dd frame_annexb_def)
  also have "\<dots> = (int (length (out @ frame_annexb x) + length (concat (map frame_annexb nals))),
      (out @ frame_annexb x) @ concat (map frame_annexb nals))"
    by (rule Cons.IH) (use Cons.prems dd l in auto)
  finally show ?case by simp
qed

text \<open>
  C15: Converting the length-prefixed framing of any list of NALs gives their Annex-B framing and its size, when it fits the
  output buffer and an int; for four-byte length fields a buffer of the input's size plus 64, as the engine allocates
  it, always suffices.
\<close>

theorem avcc_roundtrip:
  assumes "valid_len ls" "\<forall>x \<in> set nals. nal_ok ls x" "inb = concat (map (frame_avcc ls) nals)"
    "out = concat (map frame_annexb nals)" "length inb < 2 ^ 31"
    "length out \<le> cap \<and> length out < 2 ^ 31 \<or> ls = AVCC_LEN_4 \<and> cap = length inb + 64" "cap < 2 ^ 64"
  shows "AvccToAnnexB (Some inb) (length inb) ls True cap = (int (length out), out)"
proof -
  have len4: "length (frame_annexb x) = length (frame_avcc AVCC_LEN_4 x)" for x
    by (simp add: frame_annexb_def frame_avcc_def kStartCode_def)
  have "length out = length inb" if "ls = AVCC_LEN_4"
    unfolding assms(3,4) that by (simp add: length_concat comp_def len4)
  then have "length out \<le> cap \<and> length out < 2 ^ 31" using assms(5,6) by auto
  then show ?thesis
    using avcc_loop_complete[OF assms(1,2), of 0 inb cap "[]"] assms(1,3-5,7) by (auto simp: AvccToAnnexB_def valid_len_def)
qed

definition demo_nals :: "uint8 list list" where
  "demo_nals = [[0x67, 1], [0x65, 2, 3]]"

theorem avcc_roundtrip_witness:
  "AvccToAnnexB (Some [0, 0, 0, 2, 0x67, 1, 0, 0, 0, 3, 0x65, 2, 3]) 13 AVCC_LEN_4 True 77 =
     (13, [0, 0, 0, 1, 0x67, 1, 0, 0, 0, 1, 0x65, 2, 3])"
proof -
  have f: "concat (map (frame_avcc AVCC_LEN_4) demo_nals) = [0, 0, 0, 2, 0x67, 1, 0, 0, 0, 3, 0x65, 2, 3]"
    "concat (map frame_annexb demo_nals) = [0, 0, 0, 1, 0x67, 1, 0, 0, 0, 1, 0x65, 2, 3]"
    by (simp_all add: demo_nals_def frame_avcc_def frame_annexb_def kStartCode_def)
  have ok: "\<forall>x \<in> set demo_nals. nal_ok AVCC_LEN_4 x" by (simp add: demo_nals_def nal_ok_def)
  have l: "length ([0, 0, 0, 2, 0x67, 1, 0, 0, 0, 3, 0x65, 2, 3] :: uint8 list) = 13"
    "length ([0, 0, 0, 1, 0x67, 1, 0, 0, 0, 1, 0x65, 2, 3] :: uint8 list) = 13" by simp_all
  show ?thesis using avcc_roundtrip[OF _ ok refl refl, of 77, unfolded f l] by (simp add: valid_len_def)
qed

text \<open>
  On every input below 4 GiB the conversion stays inside the output buffer, failing or not; if it succeeds, the input is
  the length-prefixed framing of some NALs and the output their Annex-B framing, so it accepts nothing else.
\<close>

theorem avcc_safe:
  assumes "AvccToAnnexB (Some inb) (length inb) ls True cap = (r, out)" "length inb < 2 ^ 32 - 4" "cap < 2 ^ 64"
  shows "length out \<le> cap \<and> (r = -1 \<or> (\<exists>nals. valid_len ls \<and> (\<forall>x \<in> set nals. nal_ok ls x) \<and>
    inb = concat (map (frame_avcc ls) nals) \<and> out = concat (map frame_annexb nals) \<and> r = int (length out)))"
proof (cases "valid_len ls")
  case True
  then have "avcc_loop ls cap inb 0 [] = (r, out)" using assms(1) by (auto simp: AvccToAnnexB_def valid_len_def)
  from avcc_loop_sound[OF this True assms(2,3)] True show ?thesis by simp
next
  case False
  then show ?thesis using assms(1) by (auto simp: AvccToAnnexB_def valid_len_def)
qed

theorem avcc_safe_witness:
  "\<exists>nals. [2, 7, 8] = concat (map (frame_avcc AVCC_LEN_1) nals) \<and> [0, 0, 0, 1, 7, 8] = concat (map frame_annexb nals)"
proof -
  have "avcc_loop AVCC_LEN_1 6 [2, 7, 8] (Suc (Suc (Suc 0))) [0, 0, 0, 1, 7, 8] = (6, [0, 0, 0, 1, 7, 8])"
    by (subst avcc_loop.simps) simp
  then have "AvccToAnnexB (Some [2, 7, 8]) (length ([2, 7, 8] :: uint8 list)) AVCC_LEN_1 True 6 = (6, [0, 0, 0, 1, 7, 8])"
    by (simp add: AvccToAnnexB_def avcc_loop.simps[of AVCC_LEN_1 6 "[2, 7, 8]" 0] size_sub_le kStartCode_def)
  from avcc_safe[OF this] show ?thesis by auto
qed

text \<open>
  The 32-bit sum in the capacity test wraps for a length field of \<open>2^32 - 4\<close> and above: the test then passes with no
  room left. Only an input of more than 4 GiB reaches it.
\<close>

lemma avcc_capacity_test_wraps: "size_sub 16 16 \<ge> unat (4 + (0xFFFFFFFC :: ULONG))"
  by simp

text \<open>The framing is uniquely decodable, so a sample whose Annex-B framing does not fit is refused.\<close>

lemma frame_nonempty: "nal_ok ls x \<Longrightarrow> frame_avcc ls x \<noteq> []"
  by (simp add: frame_avcc_def nal_ok_def)

lemma frames_unique:
  assumes "valid_len ls"
  shows "\<forall>x \<in> set xs. nal_ok ls x \<Longrightarrow> \<forall>y \<in> set ys. nal_ok ls y \<Longrightarrow>
    concat (map (frame_avcc ls) xs) = concat (map (frame_avcc ls) ys) \<Longrightarrow> xs = ys"
proof (induction xs arbitrary: ys)
  case Nil
  then show ?case using frame_nonempty by (cases ys) auto
next
  case (Cons x xs)
  then obtain y ys' where ys: "ys = y # ys'" using frame_nonempty[of ls x] by (cases ys) auto
  have e: "be_bytes ls (length x) @ x @ concat (map (frame_avcc ls) xs) = be_bytes ls (length y) @ y @ concat (map (frame_avcc ls) ys')"
    using Cons.prems(3) by (simp add: ys frame_avcc_def[of ls x] frame_avcc_def[of ls y])
  have "length x = length y"
    using arg_cong[OF e, of "be_value ls"] Cons.prems(1,2) assms by (simp add: ys be_value_bytes nal_ok_def)
  then have "x = y" "concat (map (frame_avcc ls) xs) = concat (map (frame_avcc ls) ys')" using e by auto
  then show ?case using Cons.IH[of ys'] Cons.prems by (simp add: ys)
qed

lemma avcc_refuses_overflow:
  assumes "valid_len ls" "\<forall>x \<in> set nals. nal_ok ls x" "inb = concat (map (frame_avcc ls) nals)" "length inb < 2 ^ 32 - 4"
    "cap < 2 ^ 64" "cap < length (concat (map frame_annexb nals))"
  shows "fst (AvccToAnnexB (Some inb) (length inb) ls True cap) = -1"
proof -
  obtain r out where l: "avcc_loop ls cap inb 0 [] = (r, out)" by (cases "avcc_loop ls cap inb 0 []")
  from avcc_loop_sound[OF this assms(1,4,5)] have c: "length out \<le> cap \<and> (r = -1 \<or> (\<exists>nals'. (\<forall>x \<in> set nals'. nal_ok ls x) \<and>
      inb = concat (map (frame_avcc ls) nals') \<and> out = concat (map frame_annexb nals') \<and> r = int (length out)))" by simp
  have "r = -1"
  proof (rule ccontr)
    assume "r \<noteq> -1"
    then obtain nals' where n: "\<forall>x \<in> set nals'. nal_ok ls x" "inb = concat (map (frame_avcc ls) nals')"
      "out = concat (map frame_annexb nals')" using c by blast
    have "nals = nals'" by (rule frames_unique[OF assms(1,2) n(1)]) (use assms(3) n(2) in simp)
    then show False using c n(3) assms(6) by simp
  qed
  then show ?thesis using l assms(1) by (auto simp: AvccToAnnexB_def valid_len_def)
qed

text \<open>
  The engine's buffer of 64 bytes more than the input is too small for many NALs with short length fields: 22 NALs of one
  byte each with one-byte fields are refused although they are well-formed.
\<close>

lemma avcc1_valid_input_refused:
  "fst (AvccToAnnexB (Some (concat (replicate 22 [1, 0x41]))) 44 AVCC_LEN_1 True (44 + 64)) = -1"
proof -
  let ?nals = "replicate 22 [0x41] :: uint8 list list"
  have f: "concat (map (frame_avcc AVCC_LEN_1) ?nals) = concat (replicate 22 [1, 0x41])" by (simp add: frame_avcc_def)
  have "fst (AvccToAnnexB (Some (concat (replicate 22 [1, 0x41]))) (length (concat (replicate 22 [1, 0x41 :: uint8]))) AVCC_LEN_1 True (44 + 64)) = -1"
    by (rule avcc_refuses_overflow[OF _ _ f[symmetric]])
       (simp_all add: valid_len_def nal_ok_def length_concat sum_list_replicate frame_annexb_def kStartCode_def)
  then show ?thesis by (simp add: length_concat sum_list_replicate)
qed

section \<open>Framing detection\<close>

text \<open>
  The detection takes a four-byte-length sample for Annex B exactly when its first NAL has 1 byte or between 256 and 511
  bytes: such a length field reads as a start code.
\<close>

theorem detect_framing_avcc:
  assumes "nal_ok AVCC_LEN_4 x"
  shows "DetectNalFraming (frame_avcc AVCC_LEN_4 x @ rest) = FRAMING_ANNEXB \<longleftrightarrow>
    length x = 1 \<or> 256 \<le> length x \<and> length x < 512"
proof -
  let ?n = "length x"
  have n: "?n < 2 ^ 32" using assms by (simp add: nal_ok_def)
  have u: "(word_of_nat m = (0 :: uint8)) \<longleftrightarrow> m mod 256 = 0" "(word_of_nat m = (1 :: uint8)) \<longleftrightarrow> m mod 256 = 1" for m
    by (simp_all add: word_unat_eq_iff unsigned_of_nat take_bit_eq_mod)
  have d: "?n div 65536 = ?n div 256 div 256" "?n div 16777216 = ?n div 256 div 256 div 256" by (simp_all add: div_mult2_eq)
  have b: "?n div 256 div 256 div 256 mod 256 = ?n div 256 div 256 div 256" using n d(2) by simp
  have z: "m div 256 = 0 \<and> m mod 256 = 0 \<longleftrightarrow> m = (0 :: nat)" for m using div_mult_mod_eq[of m 256] by auto
  have "DetectNalFraming (frame_avcc AVCC_LEN_4 x @ rest) = FRAMING_ANNEXB \<longleftrightarrow>
      (?n div 256 div 256 div 256 = 0 \<and> ?n div 256 div 256 mod 256 = 0) \<and>
      (?n div 256 mod 256 = 0 \<and> ?n mod 256 = 1 \<or> ?n div 256 mod 256 = 1)"
    by (auto simp: DetectNalFraming_def frame_avcc_def sc3_at_def sc4_at_def u d b)
  also have "\<dots> \<longleftrightarrow> ?n div 256 = 0 \<and> ?n mod 256 = 1 \<or> ?n div 256 = 1"
    unfolding z using div_mult_mod_eq[of "?n div 256" 256] by auto
  also have "\<dots> \<longleftrightarrow> ?n = 1 \<or> 256 \<le> ?n \<and> ?n < 512"
    using div_mult_mod_eq[of ?n 256] mod_less_divisor[of 256 ?n] by (simp only: zero_less_numeral) linarith
  finally show ?thesis .
qed

theorem detect_framing_avcc_witness:
  "DetectNalFraming (frame_avcc AVCC_LEN_4 (replicate 300 0x41) @ []) = FRAMING_ANNEXB \<longleftrightarrow>
     length (replicate 300 (0x41 :: uint8)) = 1 \<or> 256 \<le> length (replicate 300 (0x41 :: uint8)) \<and> length (replicate 300 (0x41 :: uint8)) < 512"
  by (rule detect_framing_avcc) (simp add: nal_ok_def)

end
