(* ===== verification/Vp9_Bool.thy ===== *)
theory Vp9_Bool
  imports Nal_Stream
begin

text \<open>
  The boolean arithmetic decoder of the VP9 parser (\<^verbatim>\<open>mft/vp9_bool_decoder.cpp\<close>): a 32-bit register that holds the
  current value in its upper half and prefetched bits in its lower half, renormalised by a table before each symbol and
  refilled 16 bits at a time. It is proved equal to the bit-by-bit decoder of the VP9 specification (section 9.2) on the
  buffer extended by zero bits.
\<close>

section \<open>The decoder\<close>

definition kNormShift :: "nat list" where
  "kNormShift =
    [0, 7, 6, 6, 5, 5, 5, 5, 4, 4, 4, 4, 4, 4, 4, 4,
     3, 3, 3, 3, 3, 3, 3, 3, 3, 3, 3, 3, 3, 3, 3, 3] @
    replicate 32 2 @ replicate 64 1 @ replicate 128 0"

text \<open>Reads at a pointer with the given bytes available behind it.\<close>

definition rb24 :: "uint8 list \<Rightarrow> ULONG" where
  "rb24 p = (if 1 \<le> length p then push_bit 16 (ucast (p ! 0)) else 0) OR
            (if 2 \<le> length p then push_bit 8 (ucast (p ! 1)) else 0) OR
            (if 3 \<le> length p then push_bit 0 (ucast (p ! 2)) else 0)"

definition rb16 :: "uint8 list \<Rightarrow> ULONG" where
  "rb16 p = (if 1 \<le> length p then push_bit 8 (ucast (p ! 0)) else 0) OR
            (if 2 \<le> length p then push_bit 0 (ucast (p ! 1)) else 0)"

record BoolDecoder =
  bd_buf :: "uint8 list"
  bd_pos :: nat
  bd_value :: ULONG
  bd_range :: ULONG
  bd_bits_left :: int
  bd_error :: bool

text \<open>The renormalisation and the refill at the start of \<^verbatim>\<open>decode_bool\<close>.\<close>

definition bd_renorm :: "BoolDecoder \<Rightarrow> BoolDecoder" where
  "bd_renorm d = (let shift = kNormShift ! unat (bd_range d AND 0xFF)
     in d\<lparr>bd_range := push_bit shift (bd_range d), bd_value := push_bit shift (bd_value d),
          bd_bits_left := bd_bits_left d + int shift\<rparr>)"

definition bd_refill :: "BoolDecoder \<Rightarrow> BoolDecoder" where
  "bd_refill d =
     (if bd_bits_left d \<ge> 0 \<and> bd_pos d < length (bd_buf d)
      then (let avail = length (bd_buf d) - bd_pos d;
                loaded = rb16 (drop (bd_pos d) (bd_buf d))
            in d\<lparr>bd_pos := bd_pos d + (if avail \<ge> 2 then 2 else avail),
                 bd_value := bd_value d OR push_bit (nat (bd_bits_left d)) loaded,
                 bd_bits_left := bd_bits_left d - 16\<rparr>)
      else d)"

definition decode_bool :: "BoolDecoder \<Rightarrow> uint8 \<Rightarrow> bool \<times> BoolDecoder" where
  "decode_bool d0 prob =
     (if bd_error d0 then (False, d0)
      else let d = bd_refill (bd_renorm d0);
               split = 1 + drop_bit 8 ((bd_range d - 1) * ucast prob);
               low_shift = push_bit 16 split
           in if bd_value d \<ge> low_shift
              then (True, d\<lparr>bd_range := bd_range d - split, bd_value := bd_value d - low_shift\<rparr>)
              else (False, d\<lparr>bd_range := split\<rparr>))"

definition bd_init :: "uint8 list \<Rightarrow> BoolDecoder" where
  "bd_init buf =
     (let d = \<lparr>bd_buf = buf, bd_pos = (if length buf < 3 then length buf else 3),
               bd_value = (if length buf < 3
                           then (if length buf \<ge> 1 then push_bit 16 (ucast (buf ! 0)) else 0) OR
                                (if length buf \<ge> 2 then push_bit 8 (ucast (buf ! 1)) else 0)
                           else rb24 buf),
               bd_range = 255, bd_bits_left = -16, bd_error = length buf < 3\<rparr>
      in case decode_bool d 128 of (marker, d1) \<Rightarrow> if marker then d1\<lparr>bd_error := True\<rparr> else d1)"

text \<open>\<^verbatim>\<open>decode_literal\<close>: the accumulator is a 32-bit int.\<close>

fun decode_literal :: "BoolDecoder \<Rightarrow> nat \<Rightarrow> ULONG \<Rightarrow> ULONG \<times> BoolDecoder" where
  "decode_literal d 0 v = (v, d)"
| "decode_literal d (Suc bits) v =
     (case decode_bool d 128 of (b, d') \<Rightarrow> decode_literal d' bits (push_bit 1 v OR of_bool b))"

text \<open>A sequence of symbols with their probabilities.\<close>

fun decode_bools :: "BoolDecoder \<Rightarrow> uint8 list \<Rightarrow> bool list" where
  "decode_bools d [] = []"
| "decode_bools d (p # ps) = (case decode_bool d p of (b, d') \<Rightarrow> b # decode_bools d' ps)"

section \<open>The specification's decoder\<close>

text \<open>The bits of the buffer, most significant first, followed by zeros, and the number read from \<open>k\<close> of them.\<close>

definition sbit :: "uint8 list \<Rightarrow> nat \<Rightarrow> nat" where
  "sbit buf i = (if i < 8 * length buf then unat (buf ! (i div 8)) div 2 ^ (7 - i mod 8) mod 2 else 0)"

fun window :: "uint8 list \<Rightarrow> nat \<Rightarrow> nat \<Rightarrow> nat" where
  "window buf n 0 = 0"
| "window buf n (Suc k) = 2 * window buf n k + sbit buf (n + k)"

text \<open>The state is BoolValue, BoolRange and the position of the next bit; one bit is read per halving of the range.\<close>

function spec_norm :: "uint8 list \<Rightarrow> nat \<times> nat \<times> nat \<Rightarrow> nat \<times> nat \<times> nat" where
  "spec_norm buf (V, R, n) =
     (if 0 < R \<and> R < 128 then spec_norm buf (2 * V + sbit buf n, 2 * R, n + 1) else (V, R, n))"
  by pat_completeness auto
termination by (relation "measure (\<lambda>(_, _, R, _). 128 - R)") auto

declare spec_norm.simps [simp del]

definition spec_bool :: "uint8 list \<Rightarrow> nat \<times> nat \<times> nat \<Rightarrow> uint8 \<Rightarrow> bool \<times> (nat \<times> nat \<times> nat)" where
  "spec_bool buf st p = (case st of (V, R, n) \<Rightarrow>
     let split = 1 + (R - 1) * unat p div 256
     in if V < split then (False, spec_norm buf (V, split, n)) else (True, spec_norm buf (V - split, R - split, n)))"

fun spec_bools :: "uint8 list \<Rightarrow> nat \<times> nat \<times> nat \<Rightarrow> uint8 list \<Rightarrow> bool list" where
  "spec_bools buf st [] = []"
| "spec_bools buf st (p # ps) = (case spec_bool buf st p of (b, st') \<Rightarrow> b # spec_bools buf st' ps)"

text \<open>The state before and after the marker bit.\<close>

definition spec_init :: "uint8 list \<Rightarrow> bool \<times> (nat \<times> nat \<times> nat)" where
  "spec_init buf = spec_bool buf (window buf 0 8, 255, 8) 128"

section \<open>Windows of the bit stream\<close>

lemma sbit_lt: "sbit buf i < 2"
  by (simp add: sbit_def)

lemma window_lt: "window buf n k < 2 ^ k"
proof (induction k)
  case (Suc k)
  then show ?case using sbit_lt[of buf "n + k"] by (simp add: numeral_2_eq_2)
qed simp

lemma window_add: "window buf n (a + b) = window buf n a * 2 ^ b + window buf (n + a) b"
  by (induction b) (simp_all add: algebra_simps)

lemma window_zero: "8 * length buf \<le> n \<Longrightarrow> window buf n k = 0"
  by (induction k) (simp_all add: sbit_def)

lemma window_pad: "8 * length buf \<le> n + a \<Longrightarrow> window buf n (a + b) = window buf n a * 2 ^ b"
  by (simp add: window_add window_zero)

lemma window_byte: "window buf (8 * j) 8 = (if j < length buf then unat (buf ! j) else 0)"
proof (cases "j < length buf")
  case True
  let ?x = "unat (buf ! j)"
  have "window buf (8 * j) k = ?x div 2 ^ (8 - k)" if "k \<le> 8" for k
    using that
  proof (induction k)
    case 0 then show ?case using byte_lt[of "buf ! j"] by simp
  next
    case (Suc k)
    let ?a = "?x div 2 ^ (7 - k)"
    have b: "sbit buf (8 * j + k) = ?a mod 2" using True Suc.prems by (simp add: sbit_def)
    have "8 - k = Suc (7 - k)" using Suc.prems by simp
    then have "?x div 2 ^ (8 - k) = ?a div 2" by (simp add: div_mult2_eq[symmetric] mult.commute)
    then have "window buf (8 * j) (Suc k) = 2 * (?a div 2) + ?a mod 2" using Suc b by simp
    then show ?case by (simp only: mult_div_mod_eq) simp
  qed
  from this[of 8] True show ?thesis by simp
qed (simp add: window_zero)

lemma window_16: "window buf (8 * j) 16 = window buf (8 * j) 8 * 256 + window buf (8 * Suc j) 8"
  using window_add[of buf "8 * j" 8 8] by (simp add: add.commute)

lemma nat_push: "push_bit k (x :: nat) = x * 2 ^ k"
  by (simp add: push_bit_eq_mult)

lemma rb16_window: "j < length buf \<Longrightarrow> unat (rb16 (drop j buf)) = window buf (8 * j) 16"
proof -
  assume j: "j < length buf"
  show ?thesis
  proof (cases "Suc j < length buf")
    case True
    moreover from this have "2 \<le> length buf - j" by linarith
    ultimately show ?thesis using byte_lt[of "buf ! Suc j"] unfolding window_16 window_byte
      by (simp add: rb16_def unsigned_or_eq unat_push_byte nat_push_or unsigned_ucast_eq take_bit_nat_eq_self)
  next
    case False
    then have "length buf - j = 1" using j by linarith
    then show ?thesis using j False unfolding window_16 window_byte by (simp add: rb16_def unat_push_byte nat_push)
  qed
qed

lemma rb24_window: "3 \<le> length buf \<Longrightarrow> unat (rb24 buf) = window buf 0 8 * 2 ^ 16 + window buf 8 16"
proof -
  assume l: "3 \<le> length buf"
  have w: "window buf 0 8 = unat (buf ! 0)" "window buf 8 16 = unat (buf ! 1) * 256 + unat (buf ! 2)"
    using window_byte[of buf 0] window_16[of buf 1] window_byte[of buf 1] window_byte[of buf 2] l
    by (auto simp: numeral_2_eq_2)
  have "unat (buf ! 1) * 256 + unat (buf ! 2) < 2 ^ 16" using byte_lt[of "buf ! 1"] byte_lt[of "buf ! 2"] by simp
  then show ?thesis using l byte_lt[of "buf ! 2"] unfolding w
    by (simp add: rb24_def unsigned_or_eq unat_push_byte nat_push_or unsigned_ucast_eq take_bit_nat_eq_self or.assoc)
qed

section \<open>Renormalisation\<close>

lemma norm_table: "list_all (\<lambda>r. kNormShift ! r \<le> 7 \<and> 128 \<le> r * 2 ^ (kNormShift ! r) \<and> r * 2 ^ (kNormShift ! r) < 256) [1..<256]"
  by code_simp

lemma norm_shift:
  assumes "0 < r" "r < 256"
  shows "kNormShift ! r \<le> 7" "128 \<le> r * 2 ^ (kNormShift ! r)" "r * 2 ^ (kNormShift ! r) < 256"
  using norm_table assms by (auto simp: list_all_iff)

lemma spec_norm_window:
  "0 < R \<Longrightarrow> 128 \<le> R * 2 ^ s \<Longrightarrow> R * 2 ^ s < 256 \<Longrightarrow> spec_norm buf (V, R, n) = (V * 2 ^ s + window buf n s, R * 2 ^ s, n + s)"
proof (induction s arbitrary: V R n)
  case 0
  then show ?case by (subst spec_norm.simps) simp
next
  case (Suc s)
  have "R * 1 \<le> R * 2 ^ s" by (rule mult_le_mono2) simp
  moreover have "R * 2 ^ s < 128" using Suc.prems(3) by simp
  ultimately have "R < 128" by linarith
  then have "spec_norm buf (V, R, n) = spec_norm buf (2 * V + sbit buf n, 2 * R, n + 1)"
    using Suc.prems(1) by (subst spec_norm.simps) simp
  also have "\<dots> = ((2 * V + sbit buf n) * 2 ^ s + window buf (n + 1) s, 2 * R * 2 ^ s, n + 1 + s)"
    by (rule Suc.IH) (use Suc.prems in \<open>simp_all add: mult_ac\<close>)
  also have "(2 * V + sbit buf n) * 2 ^ s + window buf (n + 1) s = V * 2 ^ Suc s + window buf n (Suc s)"
    using window_add[of buf n 1 s] by (simp add: algebra_simps)
  finally show ?case by (simp add: mult_ac)
qed

section \<open>Simulation\<close>

text \<open>
  \<open>reg buf d V R n\<close>: the register holds \<open>V\<close> and bits of the stream from position \<open>n\<close>. While bytes are left in the
  buffer, \<open>p\<close> bits are prefetched and the position is that many bits before the next byte; once the buffer is used up, every
  remaining bit is in the register.
\<close>

definition reg :: "uint8 list \<Rightarrow> BoolDecoder \<Rightarrow> nat \<Rightarrow> nat \<Rightarrow> nat \<Rightarrow> bool" where
  "reg buf d V R n \<longleftrightarrow> bd_buf d = buf \<and> \<not> bd_error d \<and> unat (bd_range d) = R \<and> 0 < R \<and> R < 256 \<and> V < 256 \<and>
     (bd_pos d < length buf \<and> (\<exists>p. 0 < p \<and> p \<le> 16 \<and> bd_bits_left d = - int p \<and> n + p = 8 * bd_pos d \<and>
        unat (bd_value d) = V * 2 ^ 16 + window buf n p * 2 ^ (16 - p)) \<or>
      bd_pos d = length buf \<and> 8 * length buf \<le> n + 16 \<and> unat (bd_value d) = V * 2 ^ 16 + window buf n 16)"

lemma unat_push: "unat (w :: ULONG) * 2 ^ k < 2 ^ 32 \<Longrightarrow> unat (push_bit k w) = unat w * 2 ^ k"
  by (subst unsigned_push_bit_eq) (simp add: push_bit_eq_mult take_bit_nat_eq_self)

lemma range_mask: "unat (w :: ULONG) < 256 \<Longrightarrow> unat (w AND 0xFF) = unat w"
proof -
  assume w: "unat w < 256"
  have "w AND 0xFF = w AND mask 8" by (simp add: mask_eq_exp_minus_1)
  also have "\<dots> = take_bit 8 w" by (simp add: take_bit_eq_mask)
  also have "unat \<dots> = take_bit 8 (unat w)" by (simp add: unsigned_take_bit_eq)
  finally show ?thesis using w by (simp add: take_bit_nat_eq_self)
qed

lemma value_bound: "V < R \<Longrightarrow> V * 2 ^ s + window buf n s < R * 2 ^ s"
proof -
  assume "V < R"
  then have "(V + 1) * 2 ^ s \<le> R * 2 ^ s" by (intro mult_le_mono1) simp
  then show ?thesis using window_lt[of buf n s] by simp
qed

text \<open>Shifting the register, with a refill when the prefetched bits run out.\<close>

lemma shift_prefetched:
  assumes "s \<le> p" "p \<le> 16"
  shows "(V * 2 ^ 16 + window buf n p * 2 ^ (16 - p)) * 2 ^ s =
    (V * 2 ^ s + window buf n s) * 2 ^ 16 + window buf (n + s) (p - s) * 2 ^ (16 - (p - s))"
proof -
  have w: "window buf n p = window buf n s * 2 ^ (p - s) + window buf (n + s) (p - s)"
    using window_add[of buf n s "p - s"] assms by simp
  have e: "(2 :: nat) ^ (16 - p) * 2 ^ s = 2 ^ (16 - (p - s))" "(2 :: nat) ^ (p - s) * 2 ^ (16 - (p - s)) = 2 ^ 16"
    unfolding power_add[symmetric] by (rule arg_cong[of _ _ "power 2"], use assms in simp)+
  have "(V * 2 ^ 16 + window buf n p * 2 ^ (16 - p)) * 2 ^ s =
      V * 2 ^ s * 2 ^ 16 + window buf n s * (2 ^ (p - s) * (2 ^ (16 - p) * 2 ^ s)) + window buf (n + s) (p - s) * (2 ^ (16 - p) * 2 ^ s)"
    unfolding w by (simp only: algebra_simps)
  then show ?thesis unfolding e(1) e(2) by (simp only: add_mult_distrib)
qed

lemma shift_refilled:
  assumes "p \<le> s" "s \<le> 7" "s - p \<le> 16"
  shows "(V * 2 ^ 16 + window buf n p * 2 ^ (16 - p)) * 2 ^ s + window buf (n + p) 16 * 2 ^ (s - p) =
    (V * 2 ^ s + window buf n s) * 2 ^ 16 + window buf (n + s) (16 - (s - p)) * 2 ^ (s - p)"
proof -
  let ?b = "s - p"
  have w: "window buf (n + p) 16 = window buf (n + p) ?b * 2 ^ (16 - ?b) + window buf (n + s) (16 - ?b)"
    "window buf n s = window buf n p * 2 ^ ?b + window buf (n + p) ?b"
    using window_add[of buf "n + p" ?b "16 - ?b"] window_add[of buf n p ?b] assms by simp_all
  have e: "(2 :: nat) ^ (16 - p) * 2 ^ s = 2 ^ ?b * 2 ^ 16" "(2 :: nat) ^ (16 - ?b) * 2 ^ ?b = 2 ^ 16"
    unfolding power_add[symmetric] by (rule arg_cong[of _ _ "power 2"], use assms in simp)+
  have "(V * 2 ^ 16 + window buf n p * 2 ^ (16 - p)) * 2 ^ s + window buf (n + p) 16 * 2 ^ ?b =
      V * 2 ^ s * 2 ^ 16 + window buf n p * (2 ^ (16 - p) * 2 ^ s) +
      window buf (n + p) ?b * (2 ^ (16 - ?b) * 2 ^ ?b) + window buf (n + s) (16 - ?b) * 2 ^ ?b"
    unfolding w(1) by (simp only: algebra_simps)
  then show ?thesis unfolding e w(2) by (simp only: algebra_simps)
qed

lemma shift_exhausted:
  assumes "8 * length buf \<le> n + 16"
  shows "(V * 2 ^ 16 + window buf n 16) * 2 ^ s = (V * 2 ^ s + window buf n s) * 2 ^ 16 + window buf (n + s) 16"
proof -
  have "window buf n 16 * 2 ^ s = window buf n s * 2 ^ 16 + window buf (n + s) 16"
    using window_pad[of buf n 16 s] window_add[of buf n s 16] assms by (simp add: add.commute)
  then show ?thesis by (simp only: algebra_simps)
qed

text \<open>Before a symbol, the register is normalised and refilled to the specification's normalised state.\<close>

lemma renorm_refill:
  assumes rg: "reg buf d V R n" and VR: "V < R"
  shows "\<exists>V' R' n'. spec_norm buf (V, R, n) = (V', R', n') \<and> reg buf (bd_refill (bd_renorm d)) V' R' n' \<and> 128 \<le> R' \<and> V' < R'"
proof -
  define s where "s = kNormShift ! R"
  have R: "0 < R" "R < 256" "unat (bd_range d) = R" "bd_buf d = buf" "\<not> bd_error d" using rg by (auto simp: reg_def)
  note sh = norm_shift[OF R(1,2), folded s_def]
  let ?V = "V * 2 ^ s + window buf n s" and ?R = "R * 2 ^ s"
  have nrm: "spec_norm buf (V, R, n) = (?V, ?R, n + s)" by (rule spec_norm_window[OF R(1) sh(2,3)])
  have VR': "?V < ?R" by (rule value_bound[OF VR])
  have sd: "kNormShift ! unat (bd_range d AND 0xFF) = s" using range_mask[of "bd_range d"] R by (simp add: s_def)
  have rr: "unat (push_bit s (bd_range d)) = ?R" using unat_push[of "bd_range d" s] R sh by simp
  have lt: "(V * 2 ^ 16 + w) * 2 ^ s < 2 ^ 32" if "w < 2 ^ 16" for w
  proof -
    have "(V * 2 ^ 16 + w) * 2 ^ s < R * 2 ^ 16 * 2 ^ s"
      using VR that by (intro mult_strict_right_mono) (auto intro: less_le_trans[of _ "(V + 1) * 2 ^ 16"])
    also have "\<dots> \<le> 2 ^ 32" using sh(3) by (simp add: mult.commute mult.left_commute)
    finally show ?thesis .
  qed
  let ?d = "bd_renorm d"
  have d: "bd_range ?d = push_bit s (bd_range d)" "bd_value ?d = push_bit s (bd_value d)"
    "bd_bits_left ?d = bd_bits_left d + int s" "bd_pos ?d = bd_pos d" "bd_buf ?d = buf" "\<not> bd_error ?d"
    using R(4,5) by (simp_all add: bd_renorm_def Let_def sd)
  from rg consider (more) p where "bd_pos d < length buf" "0 < p" "p \<le> 16" "bd_bits_left d = - int p" "n + p = 8 * bd_pos d"
      "unat (bd_value d) = V * 2 ^ 16 + window buf n p * 2 ^ (16 - p)"
    | (out) "bd_pos d = length buf" "8 * length buf \<le> n + 16" "unat (bd_value d) = V * 2 ^ 16 + window buf n 16"
    unfolding reg_def by blast
  then have "reg buf (bd_refill ?d) ?V ?R (n + s)"
  proof cases
    case out
    have v: "unat (bd_value ?d) = ?V * 2 ^ 16 + window buf (n + s) 16"
      unfolding d(2) shift_exhausted[OF out(2), symmetric] out(3)[symmetric]
      by (rule unat_push) (unfold out(3), rule lt[OF window_lt])
    have "bd_refill ?d = ?d" using out(1) d by (simp add: bd_refill_def)
    then show ?thesis using d v rr out(1,2) sh VR' R(1) by (simp add: reg_def)
  next
    case more
    have w: "window buf n p * 2 ^ (16 - p) < 2 ^ 16"
      using mult_strict_right_mono[OF window_lt[of buf n p], of "2 ^ (16 - p)"] more(3) by (simp flip: power_add)
    have v: "unat (bd_value ?d) = (V * 2 ^ 16 + window buf n p * 2 ^ (16 - p)) * 2 ^ s"
      using unat_push[of "bd_value d" s] lt[OF w] more(6) d(2) by simp
    show ?thesis
    proof (cases "s < p")
      case True
      then have "bd_refill ?d = ?d" using d more(4) by (simp add: bd_refill_def)
      moreover have "unat (bd_value ?d) = ?V * 2 ^ 16 + window buf (n + s) (p - s) * 2 ^ (16 - (p - s))"
        using v shift_prefetched[of s p V buf n] True more(3) by simp
      ultimately show ?thesis using d rr more(1,3,4,5) sh VR' R(1) True unfolding reg_def
        by (intro conjI disjI1 exI[of _ "p - s"]) (auto simp: of_nat_diff)
    next
      case False
      define b where "b = s - p"
      have b: "nat (bd_bits_left ?d) = b" "0 \<le> bd_bits_left ?d" "b \<le> 7" "s = p + b" using d more(4) False sh(1) by (auto simp: b_def)
      let ?L = "rb16 (drop (bd_pos d) buf)"
      have L: "unat ?L = window buf (n + p) 16" using rb16_window[OF more(1)] more(5) by simp
      have Lb: "unat ?L * 2 ^ b < 2 ^ (16 + b)"
        using mult_strict_right_mono[OF window_lt[of buf "n + p" 16], of "2 ^ b"] by (simp add: L power_add)
      have "unat ?L * 2 ^ b < 2 ^ 32"
        by (rule less_le_trans[OF Lb], rule power_increasing) (use b(3) in auto)
      then have ul: "unat (push_bit b ?L) = unat ?L * 2 ^ b" by (rule unat_push)
      have "unat (bd_value ?d) = (V * 2 ^ p + window buf n p) * 2 ^ (16 + b)"
      proof -
        have "(2 :: nat) ^ (16 - p) * 2 ^ s = 2 ^ (16 + b)" "(2 :: nat) ^ 16 * 2 ^ s = 2 ^ p * 2 ^ (16 + b)"
          unfolding power_add[symmetric] by (rule arg_cong[of _ _ "power 2"], use more(3) b(4) in simp)+
        then show ?thesis unfolding v by (simp only: add_mult_distrib mult.assoc)
      qed
      then have "unat (bd_value ?d OR push_bit b ?L) = unat (bd_value ?d) + unat ?L * 2 ^ b"
        using nat_push_or[OF Lb, of "V * 2 ^ p + window buf n p"] by (simp add: unsigned_or_eq ul nat_push)
      then have nv: "unat (bd_value ?d OR push_bit b ?L) = ?V * 2 ^ 16 + window buf (n + s) (16 - b) * 2 ^ b"
        using v L shift_refilled[of p s V buf n] False sh(1) by (simp add: b_def)
      let ?e = "bd_refill ?d"
      have e: "bd_value ?e = bd_value ?d OR push_bit b ?L" "bd_bits_left ?e = int b - 16" "bd_range ?e = bd_range ?d"
        "bd_pos ?e = (if length buf - bd_pos d \<ge> 2 then bd_pos d + 2 else length buf)" "bd_buf ?e = buf" "\<not> bd_error ?e"
        using b(1,2) more(1) d by (auto simp: bd_refill_def Let_def)
      show ?thesis
      proof (cases "bd_pos d + 2 < length buf")
        case True
        then show ?thesis using e d rr nv more(5) sh VR' R(1) b unfolding reg_def
          by (intro conjI disjI1 exI[of _ "16 - b"]) (auto simp: of_nat_diff)
      next
        case False
        then have "bd_pos ?e = length buf" "8 * length buf \<le> n + s + (16 - b)" using e(4) more(1,5) b(3,4) by auto
        moreover from this(2) have "window buf (n + s) 16 = window buf (n + s) (16 - b) * 2 ^ b"
          using window_pad[of buf "n + s" "16 - b" b] b(3) by simp
        ultimately show ?thesis using e d rr nv sh VR' R(1) unfolding reg_def by auto
      qed
    qed
  qed
  then show ?thesis using nrm sh(2) VR' by blast
qed

section \<open>One symbol\<close>

lemma split_bounds:
  assumes "128 \<le> R" "R < (256 :: nat)" "(q :: nat) < 256"
  shows "1 + (R - 1) * q div 256 < R"
proof -
  have "(R - 1) * q \<le> (R - 1) * 255" using assms(3) by simp
  then have "(R - 1) * q div 256 \<le> (R - 1) * 255 div 256" by (rule div_le_mono)
  also have "\<dots> \<le> R - 2" using assms(1,2) by simp
  finally show ?thesis using assms(1) by linarith
qed

lemma unat_split:
  assumes "unat (r :: ULONG) = R" "0 < R" "R < 256"
  shows "unat (1 + drop_bit 8 ((r - 1) * ucast (q :: uint8))) = 1 + (R - 1) * unat q div 256"
proof -
  have a: "unat (r - 1) = R - 1" using assms by (simp add: unat_sub word_le_nat_alt)
  have "(R - 1) * unat q \<le> 255 * 255" using assms(3) byte_lt[of q] by (intro mult_le_mono) auto
  then have m: "unat ((r - 1) * ucast q) = (R - 1) * unat q"
    by (subst unat_mult_lem[THEN iffD1]) (auto simp: a unsigned_ucast_eq take_bit_nat_eq_self less_trans[OF byte_lt])
  have "unat (drop_bit 8 ((r - 1) * ucast q)) = (R - 1) * unat q div 256"
    using \<open>(R - 1) * unat q \<le> 255 * 255\<close> by (subst unsigned_drop_bit_eq) (simp add: m drop_bit_eq_div take_bit_nat_eq_self)
  moreover have "(R - 1) * unat q div 256 < 256"
    using div_le_mono[OF \<open>(R - 1) * unat q \<le> 255 * 255\<close>, of 256] by simp
  ultimately show ?thesis by (subst unat_word_ariths(1)) simp
qed

lemma decode_normalised:
  assumes rg: "reg buf d V R n" and R: "128 \<le> R"
    and split: "split = 1 + drop_bit 8 ((bd_range d - 1) * ucast (prob :: uint8))" and sp: "sp = 1 + (R - 1) * unat prob div 256"
  shows "bd_value d \<ge> push_bit 16 split \<longleftrightarrow> sp \<le> V"
    and "sp \<le> V \<Longrightarrow> V < R \<Longrightarrow> reg buf (d\<lparr>bd_range := bd_range d - split, bd_value := bd_value d - push_bit 16 split\<rparr>) (V - sp) (R - sp) n"
    and "V < sp \<Longrightarrow> reg buf (d\<lparr>bd_range := split\<rparr>) V sp n"
    and "0 < sp" "sp < R"
proof -
  have r: "unat (bd_range d) = R" "R < 256" "V < 256" using rg by (auto simp: reg_def)
  have s: "unat split = sp" unfolding split sp using unat_split[OF r(1) _ r(2)] R by simp
  show b: "0 < sp" "sp < R" using split_bounds[OF R r(2) byte_lt[of prob]] by (auto simp: sp)
  have p: "unat (push_bit 16 split) = sp * 2 ^ 16" using unat_push[of split 16] s b r by simp
  obtain w where w: "unat (bd_value d) = V * 2 ^ 16 + w" "w < 2 ^ 16"
  proof -
    from rg consider (more) q where "q \<le> 16" "unat (bd_value d) = V * 2 ^ 16 + window buf n q * 2 ^ (16 - q)"
      | (out) "unat (bd_value d) = V * 2 ^ 16 + window buf n 16"
      unfolding reg_def by blast
    then show ?thesis
    proof cases
      case more
      have "window buf n q * 2 ^ (16 - q) < 2 ^ q * 2 ^ (16 - q)" using window_lt by (intro mult_strict_right_mono) auto
      also have "\<dots> = 2 ^ 16" using more(1) by (simp flip: power_add)
      finally show ?thesis using that more(2) by blast
    qed (use that window_lt in blast)
  qed
  show cmp: "bd_value d \<ge> push_bit 16 split \<longleftrightarrow> sp \<le> V"
    unfolding word_le_nat_alt p w(1) using w(2) by auto
  show "reg buf (d\<lparr>bd_range := split\<rparr>) V sp n" using rg b r s by (auto simp: reg_def)
  assume V: "sp \<le> V" "V < R"
  have v: "unat (bd_value d - push_bit 16 split) = unat (bd_value d) - sp * 2 ^ 16" using cmp V p by (simp add: unat_sub)
  have e: "V * 2 ^ 16 + x - sp * 2 ^ 16 = (V - sp) * 2 ^ 16 + x" for x using V(1) by (simp add: diff_mult_distrib)
  have rr: "unat (bd_range d - split) = R - sp" using r(1) s b(2) by (simp add: unat_sub word_le_nat_alt)
  show "reg buf (d\<lparr>bd_range := bd_range d - split, bd_value := bd_value d - push_bit 16 split\<rparr>) (V - sp) (R - sp) n"
    using rg rr v b V r unfolding reg_def by (auto simp: e)
qed

text \<open>The states agree when the register, once normalised, holds the specification's state.\<close>

definition agree :: "uint8 list \<Rightarrow> BoolDecoder \<Rightarrow> nat \<times> nat \<times> nat \<Rightarrow> bool" where
  "agree buf d st \<longleftrightarrow> (\<exists>V R n. reg buf d V R n \<and> V < R \<and> spec_norm buf (V, R, n) = st)"

lemma decode_bool_agrees:
  assumes "agree buf d st" "decode_bool d p = (b, d')" "spec_bool buf st p = (b2, st')"
  shows "b = b2" "agree buf d' st'"
proof -
  obtain V R n where v: "reg buf d V R n" "V < R" "spec_norm buf (V, R, n) = st" using assms(1) by (auto simp: agree_def)
  obtain V1 R1 n1 where st: "st = (V1, R1, n1)" by (cases st)
  let ?d = "bd_refill (bd_renorm d)"
  have n: "reg buf ?d V1 R1 n1" "128 \<le> R1" "V1 < R1" using renorm_refill[OF v(1,2)] v(3) st by auto
  define split where "split = 1 + drop_bit 8 ((bd_range ?d - 1) * ucast p)"
  define sp where "sp = 1 + (R1 - 1) * unat p div 256"
  note dn = decode_normalised[OF n(1,2) split_def sp_def]
  have err: "\<not> bd_error d" using v(1) by (simp add: reg_def)
  have D: "decode_bool d p = (if push_bit 16 split \<le> bd_value ?d
      then (True, ?d\<lparr>bd_range := bd_range ?d - split, bd_value := bd_value ?d - push_bit 16 split\<rparr>)
      else (False, ?d\<lparr>bd_range := split\<rparr>))"
    using err by (simp add: decode_bool_def split_def Let_def)
  have S: "spec_bool buf st p = (if V1 < sp then (False, spec_norm buf (V1, sp, n1))
      else (True, spec_norm buf (V1 - sp, R1 - sp, n1)))"
    by (simp add: spec_bool_def st sp_def)
  show "b = b2" using assms(2,3) dn(1) unfolding D S by (auto split: if_splits)
  show "agree buf d' st'"
  proof (cases "sp \<le> V1")
    case True
    then have "d' = ?d\<lparr>bd_range := bd_range ?d - split, bd_value := bd_value ?d - push_bit 16 split\<rparr>"
      "st' = spec_norm buf (V1 - sp, R1 - sp, n1)" using assms(2,3) dn(1) unfolding D S by auto
    then show ?thesis using dn(2)[OF True n(3)] True n(3) unfolding agree_def
      by (intro exI[of _ "V1 - sp"] exI[of _ "R1 - sp"] exI[of _ n1]) auto
  next
    case False
    then have "d' = ?d\<lparr>bd_range := split\<rparr>" "st' = spec_norm buf (V1, sp, n1)" using assms(2,3) dn(1) unfolding D S by auto
    then show ?thesis using dn(3) False unfolding agree_def
      by (intro exI[of _ V1] exI[of _ sp] exI[of _ n1]) auto
  qed
qed

lemma decode_bools_agree: "agree buf d st \<Longrightarrow> decode_bools d ps = spec_bools buf st ps"
proof (induction ps arbitrary: d st)
  case (Cons p ps)
  obtain b d' where d: "decode_bool d p = (b, d')" by (cases "decode_bool d p")
  obtain b2 st' where s: "spec_bool buf st p = (b2, st')" by (cases "spec_bool buf st p")
  show ?case using decode_bool_agrees[OF Cons.prems d s] Cons.IH by (simp add: d s)
qed simp

section \<open>Initialisation\<close>

lemma init_agrees:
  assumes l: "3 \<le> length buf" and S: "spec_init buf = (marker, st)"
  shows "bd_error (bd_init buf) \<longleftrightarrow> marker" "\<not> marker \<Longrightarrow> agree buf (bd_init buf) st"
proof -
  define d where "d = \<lparr>bd_buf = buf, bd_pos = 3, bd_value = rb24 buf, bd_range = 255, bd_bits_left = -16, bd_error = False\<rparr>"
  let ?V = "window buf 0 8"
  have "3 < length buf \<or> length buf = 3" using l by auto
  then have rg: "reg buf d ?V 255 8" using rb24_window[OF l] window_lt[of buf 0 8]
    by (auto simp: reg_def d_def intro!: exI[of _ 16])
  have k255: "kNormShift ! 255 = 0" by code_simp
  have n: "bd_refill (bd_renorm d) = d"
    by (simp add: d_def bd_renorm_def bd_refill_def Let_def k255)
  define split where "split = 1 + drop_bit 8 ((bd_range d - 1) * ucast (128 :: uint8))"
  define sp where "sp = 1 + (255 - 1) * unat (128 :: uint8) div 256"
  note dn = decode_normalised[OF rg _ split_def sp_def]
  have D: "decode_bool d 128 = (if push_bit 16 split \<le> bd_value d
      then (True, d\<lparr>bd_range := bd_range d - split, bd_value := bd_value d - push_bit 16 split\<rparr>) else (False, d\<lparr>bd_range := split\<rparr>))"
    by (simp add: decode_bool_def split_def Let_def n) (simp add: d_def)
  have I: "bd_init buf = (case decode_bool d 128 of (m, d1) \<Rightarrow> if m then d1\<lparr>bd_error := True\<rparr> else d1)"
    using l by (simp add: bd_init_def d_def)
  have S': "spec_init buf = (if ?V < sp then (False, spec_norm buf (?V, sp, 8)) else (True, spec_norm buf (?V - sp, 255 - sp, 8)))"
    by (simp add: spec_init_def spec_bool_def sp_def)
  have m: "marker \<longleftrightarrow> sp \<le> ?V" using S unfolding S' by (auto split: if_splits)
  show "bd_error (bd_init buf) \<longleftrightarrow> marker" using dn(1) m unfolding I D by (auto simp: d_def)
  assume "\<not> marker"
  then have V: "?V < sp" "st = spec_norm buf (?V, sp, 8)" using m S unfolding S' by auto
  then have "bd_init buf = d\<lparr>bd_range := split\<rparr>" using dn(1) unfolding I D by auto
  then show "agree buf (bd_init buf) st" using dn(3) V unfolding agree_def by auto
qed

text \<open>
  C13: The table-driven decoder with its 16-bit refills returns, for every buffer and every sequence of probabilities, exactly the
  symbols of the specification's bit-by-bit decoder on the zero-extended buffer; it reports an error exactly when the buffer
  has fewer than three bytes or the marker bit is set.
\<close>

theorem bool_decoder_equiv:
  "(bd_error (bd_init buf) \<longleftrightarrow> length buf < 3 \<or> fst (spec_init buf)) \<and>
   (\<not> bd_error (bd_init buf) \<longrightarrow> decode_bools (bd_init buf) ps = spec_bools buf (snd (spec_init buf)) ps)"
proof -
  obtain marker st where S: "spec_init buf = (marker, st)" by (cases "spec_init buf")
  have short: "bd_error (bd_init buf)" if "length buf < 3" using that by (simp add: bd_init_def decode_bool_def)
  have e: "bd_error (bd_init buf) \<longleftrightarrow> length buf < 3 \<or> fst (spec_init buf)"
    using short init_agrees(1)[OF _ S] by (cases "length buf < 3") (auto simp: S)
  have "decode_bools (bd_init buf) ps = spec_bools buf (snd (spec_init buf)) ps" if "\<not> bd_error (bd_init buf)"
    using decode_bools_agree[OF init_agrees(2)[OF _ S]] that e by (simp add: S)
  then show ?thesis using e by blast
qed

lemma demo_bools_run:
  "\<not> bd_error (bd_init [0x49, 0x83, 0x42, 0x7F])" "decode_bools (bd_init [0x49, 0x83, 0x42, 0x7F]) [128, 1, 255, 40] = [True, True, False, False]"
  by code_simp+

theorem bool_decoder_equiv_witness:
  "spec_bools [0x49, 0x83, 0x42, 0x7F] (snd (spec_init [0x49, 0x83, 0x42, 0x7F])) [128, 1, 255, 40] = [True, True, False, False]"
  using bool_decoder_equiv[of "[0x49, 0x83, 0x42, 0x7F]" "[128, 1, 255, 40]"] by (simp only: demo_bools_run simp_thms)

text \<open>A literal is the number whose bits are the decoded symbols, most significant first.\<close>

lemma decode_literal_bools:
  "fst (decode_literal d k v) = foldl (\<lambda>v b. push_bit 1 v OR of_bool b) v (decode_bools d (replicate k 128))"
  by (induction k arbitrary: d v) (simp_all split: prod.split)

end
