(* ===== verification/H264_Dpb.thy ===== *)
theory H264_Dpb
  imports Prelude
begin

text \<open>
  The H.264 decoded picture buffer (\<^verbatim>\<open>mft/dpb.cpp\<close>, \<^verbatim>\<open>mft/dpb.h\<close>): slots with reference marking and
  lifecycle holds, slot selection, sliding window and memory management control operations, and the reference view handed
  to the register builder. The context pointers are non-NULL; the failing branches for NULL only return.
\<close>

type_synonym uint16 = "16 word"

section \<open>State\<close>

record DpbPoolEntry =
  output_frame :: ULONG64
  colmv :: ULONG64

datatype DpbStatus = DPB_OK | DPB_INVALID_INPUT | DPB_FULL

datatype DpbHoldReason = DPB_HOLD_REORDER | DPB_HOLD_READY | DPB_HOLD_CONSUMER

text \<open>Picture order counts are 32-bit integers that are only stored and compared.\<close>

record dpb_slot =
  in_use :: bool
  is_ref :: bool
  long_term :: bool
  pending_reorder :: bool
  pending_ready :: bool
  held_by_consumer :: bool
  slot_fields :: nat
  frame_num :: uint16
  top_poc :: int
  bottom_poc :: int
  long_term_frame_idx :: uint16
  slot_epoch :: ULONG

record H264Mmco =
  mmco_op :: nat
  difference_of_pic_nums_minus1 :: ULONG
  mmco_long_term_pic_num :: ULONG
  mmco_long_term_frame_idx :: ULONG
  max_long_term_frame_idx_plus1 :: ULONG

text \<open>The arrays of 16 entries are lists; the slots from \<open>pool_size\<close> on are never used.\<close>

record DpbCtx =
  dpb_pool :: "DpbPoolEntry list"
  pool_size :: nat
  current_idx :: "nat option"
  current_epoch :: ULONG
  max_num_ref_frames :: nat
  max_frame_num :: ULONG
  curr_pic_num :: uint16
  max_long_term_frame_idx :: int
  pending_adaptive :: bool
  pending_mmco :: "H264Mmco list"
  pending_curr_pic_num :: uint16
  last_bumped_poc :: int
  slots :: "dpb_slot list"

abbreviation DPB_MAX_SLOTS :: nat where "DPB_MAX_SLOTS \<equiv> 16"
abbreviation V4L2_H264_FRAME_REF :: nat where "V4L2_H264_FRAME_REF \<equiv> 3"

text \<open>What the buffer and the engine read of a parsed access unit.\<close>

record H264ParseResult =
  has_slice :: bool
  is_idr :: bool
  idr_long_term_reference_flag :: bool
  nal_ref_idc :: nat
  pr_frame_num :: uint16
  top_field_order_cnt :: int
  bottom_field_order_cnt :: int
  adaptive_ref_pic_marking_mode_flag :: bool
  pr_mmco :: "H264Mmco list"
  sps_max_num_ref_frames :: nat
  log2_max_frame_num_minus4 :: nat
  slice_is_intra :: bool
  has_sps :: bool
  pic_width_in_mbs_minus1 :: uint16
  pic_height_in_map_units_minus1 :: uint16

section \<open>Slots\<close>

definition upd_slot :: "nat \<Rightarrow> (dpb_slot \<Rightarrow> dpb_slot) \<Rightarrow> DpbCtx \<Rightarrow> DpbCtx" where
  "upd_slot i f ctx = ctx\<lparr>slots := (slots ctx)[i := f (slots ctx ! i)]\<rparr>"

definition slot_held :: "dpb_slot \<Rightarrow> bool" where
  "slot_held s \<longleftrightarrow> pending_reorder s \<or> pending_ready s \<or> held_by_consumer s"

definition clear_slot :: "dpb_slot \<Rightarrow> dpb_slot" where
  "clear_slot s = s\<lparr>in_use := False, is_ref := False, long_term := False, slot_fields := 0, frame_num := 0,
     top_poc := 0, bottom_poc := 0, long_term_frame_idx := 0\<rparr>"

definition slot_clear :: "DpbCtx \<Rightarrow> nat \<Rightarrow> DpbCtx" where
  "slot_clear ctx i = upd_slot i clear_slot ctx"

text \<open>The first slot below the pool size that satisfies a test; None is the result -1.\<close>

definition first_slot :: "(dpb_slot \<Rightarrow> bool) \<Rightarrow> DpbCtx \<Rightarrow> nat option" where
  "first_slot P ctx = find (\<lambda>i. P (slots ctx ! i)) [0..<pool_size ctx]"

definition short_ref :: "dpb_slot \<Rightarrow> bool" where
  "short_ref s \<longleftrightarrow> in_use s \<and> is_ref s \<and> \<not> long_term s"

definition long_ref :: "dpb_slot \<Rightarrow> bool" where
  "long_ref s \<longleftrightarrow> in_use s \<and> is_ref s \<and> long_term s"

definition find_short_term_by_pic_num :: "DpbCtx \<Rightarrow> ULONG \<Rightarrow> nat option" where
  "find_short_term_by_pic_num ctx pic_num_x = first_slot (\<lambda>s. short_ref s \<and> ucast (frame_num s) = pic_num_x) ctx"

definition find_long_term_by_lt_pic_num :: "DpbCtx \<Rightarrow> ULONG \<Rightarrow> nat option" where
  "find_long_term_by_lt_pic_num ctx lt_pic_num = first_slot (\<lambda>s. long_ref s \<and> ucast (long_term_frame_idx s) = lt_pic_num) ctx"

definition find_long_term_by_frame_idx :: "DpbCtx \<Rightarrow> ULONG \<Rightarrow> nat option" where
  "find_long_term_by_frame_idx ctx lt_idx = first_slot (\<lambda>s. long_ref s \<and> ucast (long_term_frame_idx s) = lt_idx) ctx"

definition find_free :: "DpbCtx \<Rightarrow> nat option" where
  "find_free ctx = first_slot (\<lambda>s. \<not> in_use s \<and> \<not> slot_held s) ctx"

section \<open>Memory management control operations\<close>

definition clear_other :: "nat \<Rightarrow> nat option \<Rightarrow> DpbCtx \<Rightarrow> DpbCtx" where
  "clear_other cur idx ctx = (case idx of None \<Rightarrow> ctx | Some i \<Rightarrow> if i \<noteq> cur then slot_clear ctx i else ctx)"

text \<open>The range check of operations 3 and 6; \<^verbatim>\<open>(int32_t)\<close> of the 32-bit index is its signed value.\<close>

definition lt_idx_rejected :: "DpbCtx \<Rightarrow> H264Mmco \<Rightarrow> bool" where
  "lt_idx_rejected ctx m \<longleftrightarrow> max_long_term_frame_idx ctx < 0 \<or> sint (mmco_long_term_frame_idx m) > max_long_term_frame_idx ctx"

definition set_long_term :: "ULONG \<Rightarrow> dpb_slot \<Rightarrow> dpb_slot" where
  "set_long_term idx s = s\<lparr>long_term := True, long_term_frame_idx := ucast idx\<rparr>"

definition drop_slots :: "(nat \<Rightarrow> dpb_slot \<Rightarrow> bool) \<Rightarrow> DpbCtx \<Rightarrow> DpbCtx" where
  "drop_slots P ctx = fold (\<lambda>i c. if P i (slots c ! i) then slot_clear c i else c) [0..<pool_size ctx] ctx"

definition apply_mmco :: "nat \<Rightarrow> H264Mmco \<Rightarrow> DpbCtx \<Rightarrow> DpbCtx" where
  "apply_mmco cur m ctx =
     (let pic_num_x = ucast (pending_curr_pic_num ctx) - (difference_of_pic_nums_minus1 m + 1) :: ULONG
      in if mmco_op m = 1 then clear_other cur (find_short_term_by_pic_num ctx pic_num_x) ctx
      else if mmco_op m = 2 then clear_other cur (find_long_term_by_lt_pic_num ctx (mmco_long_term_pic_num m)) ctx
      else if mmco_op m = 3 then
        if lt_idx_rejected ctx m then ctx
        else (let ctx1 = clear_other cur (find_long_term_by_frame_idx ctx (mmco_long_term_frame_idx m)) ctx
              in case find_short_term_by_pic_num ctx1 pic_num_x of
                   None \<Rightarrow> ctx1
                 | Some i \<Rightarrow> upd_slot i (set_long_term (mmco_long_term_frame_idx m)) ctx1)
      else if mmco_op m = 4 then
        (let new_max = sint (max_long_term_frame_idx_plus1 m) - 1
         in drop_slots (\<lambda>i s. long_ref s \<and> (new_max < 0 \<or> int (unat (long_term_frame_idx s)) > new_max) \<and> i \<noteq> cur)
              (ctx\<lparr>max_long_term_frame_idx := new_max\<rparr>))
      else if mmco_op m = 5 then
        upd_slot cur (\<lambda>s. s\<lparr>frame_num := 0\<rparr>) ((drop_slots (\<lambda>i s. i \<noteq> cur) ctx)\<lparr>max_long_term_frame_idx := -1\<rparr>)
      else if mmco_op m = 6 then
        if lt_idx_rejected ctx m then ctx
        else upd_slot cur (set_long_term (mmco_long_term_frame_idx m))
               (clear_other cur (find_long_term_by_frame_idx ctx (mmco_long_term_frame_idx m)) ctx)
      else ctx)"

definition apply_mmco_ops :: "DpbCtx \<Rightarrow> nat \<Rightarrow> DpbCtx" where
  "apply_mmco_ops ctx cur = fold (apply_mmco cur) (pending_mmco ctx) ctx"

section \<open>Holds\<close>

text \<open>A failing \<^verbatim>\<open>RKMPP_VERIFY\<close> traps: None.\<close>

fun h264_flag_get :: "dpb_slot \<Rightarrow> DpbHoldReason \<Rightarrow> bool" where
  "h264_flag_get s DPB_HOLD_REORDER = pending_reorder s"
| "h264_flag_get s DPB_HOLD_READY = pending_ready s"
| "h264_flag_get s DPB_HOLD_CONSUMER = held_by_consumer s"

fun h264_flag_set :: "DpbHoldReason \<Rightarrow> bool \<Rightarrow> dpb_slot \<Rightarrow> dpb_slot" where
  "h264_flag_set DPB_HOLD_REORDER v s = s\<lparr>pending_reorder := v\<rparr>"
| "h264_flag_set DPB_HOLD_READY v s = s\<lparr>pending_ready := v\<rparr>"
| "h264_flag_set DPB_HOLD_CONSUMER v s = s\<lparr>held_by_consumer := v\<rparr>"

definition Dpb_AddHold :: "DpbCtx \<Rightarrow> nat \<Rightarrow> DpbHoldReason \<Rightarrow> ULONG \<Rightarrow> DpbCtx option" where
  "Dpb_AddHold ctx i reason entry_epoch =
     (if i \<ge> pool_size ctx then Some ctx
      else if h264_flag_get (slots ctx ! i) reason then None
      else if slot_epoch (slots ctx ! i) \<noteq> entry_epoch then None
      else Some (upd_slot i (h264_flag_set reason True) ctx))"

definition Dpb_ReleaseHold :: "DpbCtx \<Rightarrow> nat \<Rightarrow> DpbHoldReason \<Rightarrow> DpbCtx option" where
  "Dpb_ReleaseHold ctx i reason =
     (if i \<ge> pool_size ctx then Some ctx
      else if \<not> h264_flag_get (slots ctx ! i) reason then None
      else Some (upd_slot i (h264_flag_set reason False) ctx))"

definition Dpb_TransferHold :: "DpbCtx \<Rightarrow> nat \<Rightarrow> DpbHoldReason \<Rightarrow> DpbHoldReason \<Rightarrow> ULONG \<Rightarrow> DpbCtx option" where
  "Dpb_TransferHold ctx i fr to entry_epoch =
     (if i \<ge> pool_size ctx then Some ctx
      else if fr = to then None
      else if \<not> h264_flag_get (slots ctx ! i) fr then None
      else if h264_flag_get (slots ctx ! i) to then None
      else if slot_epoch (slots ctx ! i) \<noteq> entry_epoch then None
      else Some (upd_slot i (h264_flag_set to True) (upd_slot i (h264_flag_set fr False) ctx)))"

definition flush_slot :: "dpb_slot \<Rightarrow> dpb_slot" where
  "flush_slot s = (if \<not> held_by_consumer s then clear_slot s else s\<lparr>in_use := False, is_ref := False, long_term := False\<rparr>)"

definition Dpb_Flush :: "DpbCtx \<Rightarrow> DpbCtx option" where
  "Dpb_Flush ctx =
     (if \<exists>i \<in> set [0..<pool_size ctx]. pending_reorder (slots ctx ! i) \<or> pending_ready (slots ctx ! i) then None
      else Some ((fold (\<lambda>i. upd_slot i flush_slot) [0..<pool_size ctx] ctx)
                   \<lparr>current_idx := None, current_epoch := current_epoch ctx + 1\<rparr>))"

section \<open>Sliding window\<close>

definition frame_num_wrap :: "int \<Rightarrow> int \<Rightarrow> dpb_slot \<Rightarrow> int" where
  "frame_num_wrap cur_fn max_fn s = (let fn = int (unat (frame_num s)) in if fn > cur_fn then fn - max_fn else fn)"

definition window_max :: "DpbCtx \<Rightarrow> int" where
  "window_max ctx = sint (if max_frame_num ctx \<noteq> 0 then max_frame_num ctx else 16)"

text \<open>The scan of the slots for the smallest FrameNumWrap; earlier slots win ties.\<close>

definition oldest_step :: "DpbCtx \<Rightarrow> nat \<Rightarrow> (nat \<times> int) option \<Rightarrow> (nat \<times> int) option" where
  "oldest_step ctx i best =
     (if \<not> short_ref (slots ctx ! i) then best
      else let fnw = frame_num_wrap (int (unat (curr_pic_num ctx))) (window_max ctx) (slots ctx ! i)
           in case best of None \<Rightarrow> Some (i, fnw)
              | Some (_, old) \<Rightarrow> if fnw < old then Some (i, fnw) else best)"

definition evict_oldest_short_term :: "DpbCtx \<Rightarrow> DpbCtx" where
  "evict_oldest_short_term ctx =
     (case fold (oldest_step ctx) [0..<pool_size ctx] None of
        None \<Rightarrow> ctx
      | Some (i, _) \<Rightarrow> slot_clear (ctx\<lparr>last_bumped_poc := top_poc (slots ctx ! i)\<rparr>) i)"

definition count_short :: "DpbCtx \<Rightarrow> nat" where
  "count_short ctx = length (filter (\<lambda>i. short_ref (slots ctx ! i)) [0..<pool_size ctx])"

section \<open>The scan for the oldest reference\<close>

definition fnw_of :: "DpbCtx \<Rightarrow> nat \<Rightarrow> int" where
  "fnw_of ctx i = frame_num_wrap (int (unat (curr_pic_num ctx))) (window_max ctx) (slots ctx ! i)"

definition short_refs :: "DpbCtx \<Rightarrow> nat set" where
  "short_refs ctx = {i. i < pool_size ctx \<and> short_ref (slots ctx ! i)}"

lemma finite_short_refs [simp]: "finite (short_refs ctx)"
  by (rule finite_subset[of _ "{..<pool_size ctx}"]) (auto simp: short_refs_def)

lemma count_short_card: "count_short ctx = card (short_refs ctx)"
proof -
  have "distinct (filter (\<lambda>i. short_ref (slots ctx ! i)) [0..<pool_size ctx])" by simp
  moreover have "set (filter (\<lambda>i. short_ref (slots ctx ! i)) [0..<pool_size ctx]) = short_refs ctx" by (auto simp: short_refs_def)
  ultimately show ?thesis unfolding count_short_def by (metis distinct_card)
qed

lemma oldest_scan:
  assumes "fold (oldest_step ctx) [0..<n] None = r"
  shows "case r of None \<Rightarrow> \<forall>i < n. \<not> short_ref (slots ctx ! i)
    | Some (i, v) \<Rightarrow> i < n \<and> short_ref (slots ctx ! i) \<and> v = fnw_of ctx i \<and>
        (\<forall>j < n. short_ref (slots ctx ! j) \<longrightarrow> fnw_of ctx i \<le> fnw_of ctx j)"
  using assms
proof (induction n arbitrary: r)
  case (Suc n)
  let ?r = "fold (oldest_step ctx) [0..<n] None"
  have r: "r = oldest_step ctx n ?r" using Suc.prems by simp
  note ih = Suc.IH[OF refl]
  show ?case
  proof (cases ?r)
    case None
    then show ?thesis using ih[unfolded None] r by (auto simp: oldest_step_def[of ctx n] fnw_of_def less_Suc_eq Let_def)
  next
    case (Some x)
    then obtain i v where x: "?r = Some (i, v)" by (cases x) auto
    then show ?thesis using ih[unfolded x] r by (auto simp: oldest_step_def[of ctx n] fnw_of_def less_Suc_eq Let_def)
  qed
qed simp

lemma slots_upd: "slots (upd_slot i f ctx) = (slots ctx)[i := f (slots ctx ! i)]"
  by (simp add: upd_slot_def)

lemma upd_slot_frame [simp]:
  "pool_size (upd_slot i f ctx) = pool_size ctx" "dpb_pool (upd_slot i f ctx) = dpb_pool ctx"
  "current_idx (upd_slot i f ctx) = current_idx ctx" "current_epoch (upd_slot i f ctx) = current_epoch ctx"
  "max_num_ref_frames (upd_slot i f ctx) = max_num_ref_frames ctx" "max_frame_num (upd_slot i f ctx) = max_frame_num ctx"
  "curr_pic_num (upd_slot i f ctx) = curr_pic_num ctx" "pending_mmco (upd_slot i f ctx) = pending_mmco ctx"
  "pending_adaptive (upd_slot i f ctx) = pending_adaptive ctx" "pending_curr_pic_num (upd_slot i f ctx) = pending_curr_pic_num ctx"
  "max_long_term_frame_idx (upd_slot i f ctx) = max_long_term_frame_idx ctx"
  "length (slots (upd_slot i f ctx)) = length (slots ctx)"
  by (simp_all add: upd_slot_def)

lemma upd_slot_nth: "j < length (slots ctx) \<Longrightarrow> slots (upd_slot i f ctx) ! j = (if j = i then f (slots ctx ! j) else slots ctx ! j)"
  by (simp add: upd_slot_def nth_list_update)

lemma clear_slot_simps [simp]:
  "\<not> in_use (clear_slot s)" "\<not> is_ref (clear_slot s)" "\<not> long_term (clear_slot s)" "slot_held (clear_slot s) = slot_held s"
  "\<not> short_ref (clear_slot s)" "\<not> long_ref (clear_slot s)" "slot_epoch (clear_slot s) = slot_epoch s"
  "h264_flag_get (clear_slot s) r = h264_flag_get s r"
  by (cases r; simp add: clear_slot_def slot_held_def short_ref_def long_ref_def)+

text \<open>Eviction clears a short-term reference with the smallest FrameNumWrap, if there is one.\<close>

lemma evict_cases:
  assumes "pool_size ctx \<le> length (slots ctx)"
  obtains (none) "short_refs ctx = {}" "evict_oldest_short_term ctx = ctx"
  | (some) i where "i \<in> short_refs ctx" "\<forall>j \<in> short_refs ctx. fnw_of ctx i \<le> fnw_of ctx j"
      "evict_oldest_short_term ctx = slot_clear (ctx\<lparr>last_bumped_poc := top_poc (slots ctx ! i)\<rparr>) i"
      "short_refs (evict_oldest_short_term ctx) = short_refs ctx - {i}"
proof (cases "fold (oldest_step ctx) [0..<pool_size ctx] None")
  case None
  then show ?thesis using oldest_scan[OF None] none by (auto simp: evict_oldest_short_term_def short_refs_def)
next
  case (Some x)
  then obtain i v where x: "fold (oldest_step ctx) [0..<pool_size ctx] None = Some (i, v)" by (cases x) auto
  note o = oldest_scan[OF x, simplified]
  have e: "evict_oldest_short_term ctx = slot_clear (ctx\<lparr>last_bumped_poc := top_poc (slots ctx ! i)\<rparr>) i"
    using x by (simp add: evict_oldest_short_term_def)
  have "short_refs (slot_clear (ctx\<lparr>last_bumped_poc := v\<rparr>) i) = short_refs ctx - {i}" for v
    using assms by (auto simp: short_refs_def slot_clear_def upd_slot_nth split: if_splits)
  then show ?thesis using some[of i] o e by (auto simp: short_refs_def)
qed

section \<open>Completion\<close>

text \<open>The loop of the sliding window; its first condition is the array bound, which every context satisfies.\<close>

function slide :: "nat \<Rightarrow> DpbCtx \<Rightarrow> DpbCtx" where
  "slide max_refs ctx =
     (if pool_size ctx \<le> length (slots ctx) \<and> count_short ctx > max_refs then slide max_refs (evict_oldest_short_term ctx) else ctx)"
  by pat_completeness auto
termination
proof (relation "measure (\<lambda>(_, ctx). count_short ctx)")
  fix m ctx assume a: "pool_size ctx \<le> length (slots ctx) \<and> m < count_short ctx"
  then have l: "pool_size ctx \<le> length (slots ctx)" and ne: "short_refs ctx \<noteq> {}" by (auto simp: count_short_card)
  show "((m, evict_oldest_short_term ctx), (m, ctx)) \<in> measure (\<lambda>(_, ctx). count_short ctx)"
    by (rule evict_cases[OF l]) (use ne in \<open>auto simp: count_short_card card_gt_0_iff intro!: diff_Suc_less\<close>)
qed simp

declare slide.simps [simp del]

abbreviation INT32_MIN :: int where "INT32_MIN \<equiv> - (2 ^ 31)"

definition end_pending :: "DpbCtx \<Rightarrow> DpbCtx" where
  "end_pending ctx = ctx\<lparr>pending_adaptive := False, pending_mmco := []\<rparr>"

definition Dpb_OnDecodeComplete :: "DpbCtx \<Rightarrow> DpbCtx" where
  "Dpb_OnDecodeComplete ctx0 =
     (let ctx1 = ctx0\<lparr>last_bumped_poc := INT32_MIN\<rparr>
      in case current_idx ctx1 of
           None \<Rightarrow> ctx1
         | Some cur \<Rightarrow>
             (let ctx = ctx1\<lparr>current_idx := None\<rparr>
              in if \<not> is_ref (slots ctx ! cur) then end_pending (slot_clear ctx cur)
                 else if pending_adaptive ctx then end_pending (apply_mmco_ops ctx cur)
                 else end_pending (slide (if max_num_ref_frames ctx \<noteq> 0 then max_num_ref_frames ctx else 1) ctx)))"

definition Dpb_OnDecodeFailed :: "DpbCtx \<Rightarrow> DpbCtx" where
  "Dpb_OnDecodeFailed ctx0 =
     (let ctx = ctx0\<lparr>last_bumped_poc := INT32_MIN\<rparr>
      in end_pending (case current_idx ctx of None \<Rightarrow> ctx | Some cur \<Rightarrow> slot_clear (ctx\<lparr>current_idx := None\<rparr>) cur))"

definition zero_slot :: dpb_slot where
  "zero_slot = \<lparr>in_use = False, is_ref = False, long_term = False, pending_reorder = False, pending_ready = False,
     held_by_consumer = False, slot_fields = 0, frame_num = 0, top_poc = 0, bottom_poc = 0, long_term_frame_idx = 0,
     slot_epoch = 0\<rparr>"

definition Dpb_Init :: "DpbPoolEntry list \<Rightarrow> DpbStatus \<times> DpbCtx option" where
  "Dpb_Init pool =
     (if length pool = 0 \<or> length pool > DPB_MAX_SLOTS then (DPB_INVALID_INPUT, None)
      else if \<exists>e \<in> set pool. output_frame e = 0 \<or> colmv e = 0 then (DPB_INVALID_INPUT, None)
      else (DPB_OK, Some \<lparr>dpb_pool = pool, pool_size = length pool, current_idx = None, current_epoch = 0,
              max_num_ref_frames = 0, max_frame_num = 0, curr_pic_num = 0, max_long_term_frame_idx = -1,
              pending_adaptive = False, pending_mmco = [], pending_curr_pic_num = 0, last_bumped_poc = 0,
              slots = replicate DPB_MAX_SLOTS zero_slot\<rparr>))"

section \<open>Selection\<close>

text \<open>
  The insertion sort of the source: every element moves towards the front past the elements with a larger key. \<open>bubble\<close>
  works on the sorted part in reverse.
\<close>

fun bubble :: "('a \<Rightarrow> int) \<Rightarrow> 'a \<Rightarrow> 'a list \<Rightarrow> 'a list" where
  "bubble key x [] = [x]"
| "bubble key x (y # ys) = (if key y > key x then y # bubble key x ys else x # y # ys)"

definition isort :: "('a \<Rightarrow> int) \<Rightarrow> 'a list \<Rightarrow> 'a list" where
  "isort key xs = rev (fold (bubble key) xs [])"

record dpb_entry =
  e_flags :: nat
  e_fields :: nat
  e_frame_num :: uint16
  e_pic_num :: uint16
  e_top :: int
  e_bottom :: int

text \<open>The reference lists hold the compact indices of their entries; the entries behind them are zero.\<close>

record DpbSelection =
  current_slot :: nat
  current_output :: ULONG64
  current_colmv :: ULONG64
  sel_refs :: "ULONG64 list"
  sel_ref_colmv :: "ULONG64 list"
  dpb_entries :: "dpb_entry list"
  ref_list_p :: "nat list"
  ref_list_b0 :: "nat list"
  ref_list_b1 :: "nat list"

text \<open>The active references other than the current slot, with their pool index, sorted by FrameNumWrap.\<close>

definition compact_refs :: "DpbCtx \<Rightarrow> nat \<Rightarrow> (nat \<times> dpb_slot) list" where
  "compact_refs ctx slot =
     map (\<lambda>i. (i, slots ctx ! i)) (filter (\<lambda>i. i \<noteq> slot \<and> in_use (slots ctx ! i) \<and> is_ref (slots ctx ! i)) [0..<pool_size ctx])"

definition pr_max_fn :: "H264ParseResult \<Rightarrow> int" where
  "pr_max_fn parsed = sint (push_bit (log2_max_frame_num_minus4 parsed + 4) (1 :: ULONG))"

definition pr_fnw :: "H264ParseResult \<Rightarrow> nat \<times> dpb_slot \<Rightarrow> int" where
  "pr_fnw parsed c = frame_num_wrap (int (unat (pr_frame_num parsed))) (pr_max_fn parsed) (snd c)"

definition ref_poc :: "nat \<times> dpb_slot \<Rightarrow> int" where
  "ref_poc c = (if bottom_poc (snd c) < top_poc (snd c) then bottom_poc (snd c) else top_poc (snd c))"

definition cur_poc :: "H264ParseResult \<Rightarrow> int" where
  "cur_poc parsed = (if bottom_field_order_cnt parsed < top_field_order_cnt parsed
     then bottom_field_order_cnt parsed else top_field_order_cnt parsed)"

definition pack_entry :: "nat \<times> dpb_slot \<Rightarrow> dpb_entry" where
  "pack_entry c = (let s = snd c; fn = (if long_term s then long_term_frame_idx s else frame_num s)
     in \<lparr>e_flags = (if long_term s then 7 else 3), e_fields = slot_fields s, e_frame_num = fn, e_pic_num = fn,
         e_top = top_poc s, e_bottom = bottom_poc s\<rparr>)"

definition swap01 :: "'a list \<Rightarrow> 'a list" where
  "swap01 xs = (case xs of a # b # ys \<Rightarrow> b # a # ys | _ \<Rightarrow> xs)"

definition list_p :: "H264ParseResult \<Rightarrow> (nat \<times> dpb_slot) list \<Rightarrow> nat list" where
  "list_p parsed compact = map fst (isort snd (map (\<lambda>i. (i, - pr_fnw parsed (compact ! i))) [0..<length compact]))"

definition past_refs :: "H264ParseResult \<Rightarrow> (nat \<times> dpb_slot) list \<Rightarrow> nat list" where
  "past_refs parsed compact = isort (\<lambda>i. - ref_poc (compact ! i)) (filter (\<lambda>i. ref_poc (compact ! i) \<le> cur_poc parsed) [0..<length compact])"

definition future_refs :: "H264ParseResult \<Rightarrow> (nat \<times> dpb_slot) list \<Rightarrow> nat list" where
  "future_refs parsed compact = isort (\<lambda>i. ref_poc (compact ! i)) (filter (\<lambda>i. \<not> ref_poc (compact ! i) \<le> cur_poc parsed) [0..<length compact])"

text \<open>The two B lists, the second with its first entries swapped when they would be equal.\<close>

definition list_b0 :: "H264ParseResult \<Rightarrow> (nat \<times> dpb_slot) list \<Rightarrow> nat list" where
  "list_b0 parsed compact = take 32 (past_refs parsed compact @ future_refs parsed compact)"

definition list_b1 :: "H264ParseResult \<Rightarrow> (nat \<times> dpb_slot) list \<Rightarrow> nat list" where
  "list_b1 parsed compact =
     (let b1 = take 32 (future_refs parsed compact @ past_refs parsed compact)
      in if length b1 > 1 \<and> list_b0 parsed compact = b1 then swap01 b1 else b1)"

definition build_selection :: "DpbCtx \<Rightarrow> H264ParseResult \<Rightarrow> nat \<Rightarrow> DpbSelection" where
  "build_selection ctx parsed slot =
     (let compact = isort (pr_fnw parsed) (compact_refs ctx slot);
          n = length compact;
          fallback = (if n > 0 then fst (compact ! (n - 1)) else slot);
          used = map fst compact @ replicate (DPB_MAX_SLOTS - n) fallback;
          lists = \<not> is_idr parsed \<and> n > 0
      in \<lparr>current_slot = slot, current_output = output_frame (dpb_pool ctx ! slot), current_colmv = colmv (dpb_pool ctx ! slot),
          sel_refs = map (\<lambda>i. output_frame (dpb_pool ctx ! i)) used,
          sel_ref_colmv = map (\<lambda>i. colmv (dpb_pool ctx ! i)) used,
          dpb_entries = map pack_entry compact,
          ref_list_p = (if lists then take 32 (list_p parsed compact) else []),
          ref_list_b0 = (if lists \<and> \<not> slice_is_intra parsed then list_b0 parsed compact else []),
          ref_list_b1 = (if lists \<and> \<not> slice_is_intra parsed then list_b1 parsed compact else [])\<rparr>)"

text \<open>The slot is written for the picture to be decoded, and its marking operations are captured.\<close>

definition fill_slot :: "DpbCtx \<Rightarrow> H264ParseResult \<Rightarrow> dpb_slot \<Rightarrow> dpb_slot" where
  "fill_slot ctx parsed s = s\<lparr>in_use := True, is_ref := (nal_ref_idc parsed \<noteq> 0),
     long_term := (is_idr parsed \<and> idr_long_term_reference_flag parsed), slot_fields := V4L2_H264_FRAME_REF,
     frame_num := pr_frame_num parsed, top_poc := top_field_order_cnt parsed, bottom_poc := bottom_field_order_cnt parsed,
     long_term_frame_idx := 0, slot_epoch := current_epoch ctx\<rparr>"

definition begin_picture :: "DpbCtx \<Rightarrow> H264ParseResult \<Rightarrow> nat \<Rightarrow> DpbCtx" where
  "begin_picture ctx parsed slot =
     (upd_slot slot (fill_slot ctx parsed) ctx)
       \<lparr>current_idx := Some slot,
        pending_adaptive := (\<not> is_idr parsed \<and> adaptive_ref_pic_marking_mode_flag parsed),
        pending_mmco := (if is_idr parsed then [] else pr_mmco parsed),
        pending_curr_pic_num := pr_frame_num parsed,
        max_num_ref_frames := (if sps_max_num_ref_frames parsed = 0 then 1 else sps_max_num_ref_frames parsed),
        max_frame_num := push_bit (log2_max_frame_num_minus4 parsed + 4) 1,
        curr_pic_num := pr_frame_num parsed\<rparr>"

definition idr_clear :: "H264ParseResult \<Rightarrow> DpbCtx \<Rightarrow> DpbCtx" where
  "idr_clear parsed ctx =
     (if is_idr parsed
      then (drop_slots (\<lambda>_ _. True) ctx)\<lparr>max_long_term_frame_idx := (if idr_long_term_reference_flag parsed then 0 else -1)\<rparr>
      else ctx)"

definition Dpb_Select :: "DpbCtx \<Rightarrow> H264ParseResult \<Rightarrow> DpbStatus \<times> DpbCtx \<times> DpbSelection option" where
  "Dpb_Select ctx0 parsed =
     (if \<not> has_slice parsed then (DPB_INVALID_INPUT, ctx0, None)
      else
        (let ctx1 = idr_clear parsed ctx0;
             ctx2 = (if find_free ctx1 = None then evict_oldest_short_term ctx1 else ctx1)
         in case find_free ctx2 of
              None \<Rightarrow> (DPB_FULL, ctx2, None)
            | Some slot \<Rightarrow> (let ctx3 = begin_picture ctx2 parsed slot
                in (DPB_OK, ctx3, Some (build_selection ctx3 parsed slot)))))"

section \<open>Sorting\<close>

lemma bubble_mset: "mset (bubble key x ys) = add_mset x (mset ys)"
  by (induction ys) auto

lemma isort_mset [simp]: "mset (isort key xs) = mset xs"
proof -
  have "mset (fold (bubble key) xs acc) = mset xs + mset acc" for acc
    by (induction xs arbitrary: acc) (auto simp: bubble_mset)
  then show ?thesis by (simp add: isort_def)
qed

lemma isort_set [simp]: "set (isort key xs) = set xs"
  by (rule mset_eq_setD[OF isort_mset])

lemma isort_length [simp]: "length (isort key xs) = length xs"
  by (rule mset_eq_length[OF isort_mset])

lemma isort_distinct [simp]: "distinct (isort key xs) = distinct xs"
  using mset_eq_imp_distinct_iff[OF isort_mset] .

lemma bubble_sorted: "sorted_wrt (\<lambda>a b. key b \<le> key a) ys \<Longrightarrow> sorted_wrt (\<lambda>a b. key b \<le> key a) (bubble key x ys)"
  by (induction ys) (auto simp: set_mset_mset[symmetric] bubble_mset simp del: set_mset_mset)

lemma isort_sorted: "sorted (map key (isort key xs))"
proof -
  have "sorted_wrt (\<lambda>a b. key b \<le> key a) acc \<Longrightarrow> sorted_wrt (\<lambda>a b. key b \<le> key a) (fold (bubble key) xs acc)" for acc
    by (induction xs arbitrary: acc) (auto simp: bubble_sorted)
  from this[of "[]"] show ?thesis by (simp add: isort_def sorted_map sorted_wrt_rev)
qed

section \<open>Well-formed contexts\<close>

definition dpb_ok :: "DpbCtx \<Rightarrow> bool" where
  "dpb_ok ctx \<longleftrightarrow> length (slots ctx) = DPB_MAX_SLOTS \<and> 0 < pool_size ctx \<and> pool_size ctx \<le> DPB_MAX_SLOTS \<and>
     length (dpb_pool ctx) = pool_size ctx \<and> (\<forall>e \<in> set (dpb_pool ctx). output_frame e \<noteq> 0 \<and> colmv e \<noteq> 0) \<and>
     (\<forall>i < pool_size ctx. is_ref (slots ctx ! i) \<longrightarrow> in_use (slots ctx ! i)) \<and>
     (\<forall>i. current_idx ctx = Some i \<longrightarrow> i < pool_size ctx \<and> in_use (slots ctx ! i))"

lemma dpb_ok_bounds: "dpb_ok ctx \<Longrightarrow> pool_size ctx \<le> length (slots ctx)"
  by (simp add: dpb_ok_def)

lemma dpb_ok_upd:
  assumes "dpb_ok ctx" "\<And>s. (is_ref s \<longrightarrow> in_use s) \<Longrightarrow> is_ref (f s) \<longrightarrow> in_use (f s)"
    "current_idx ctx = Some i \<Longrightarrow> in_use (slots ctx ! i) \<Longrightarrow> in_use (f (slots ctx ! i))"
  shows "dpb_ok (upd_slot i f ctx)"
  using assms dpb_ok_bounds[OF assms(1)] by (auto simp: dpb_ok_def upd_slot_nth)

text \<open>Only reference state is dropped: size, pool and holds of every slot stay.\<close>

definition same_holds :: "DpbCtx \<Rightarrow> DpbCtx \<Rightarrow> bool" where
  "same_holds ctx ctx' \<longleftrightarrow> pool_size ctx' = pool_size ctx \<and> dpb_pool ctx' = dpb_pool ctx \<and> length (slots ctx') = length (slots ctx) \<and>
     current_epoch ctx' = current_epoch ctx \<and>
     (\<forall>i < length (slots ctx). slot_epoch (slots ctx' ! i) = slot_epoch (slots ctx ! i) \<and>
        (\<forall>r. h264_flag_get (slots ctx' ! i) r = h264_flag_get (slots ctx ! i) r))"

lemma same_holds_refl [simp]: "same_holds ctx ctx"
  by (simp add: same_holds_def)

lemma same_holds_trans: "same_holds a b \<Longrightarrow> same_holds b c \<Longrightarrow> same_holds a c"
  by (simp add: same_holds_def)

lemma slot_held_flags: "slot_held s \<longleftrightarrow> (\<exists>r. h264_flag_get s r)"
proof
  assume "slot_held s"
  then show "\<exists>r. h264_flag_get s r" unfolding slot_held_def by (metis h264_flag_get.simps)
next
  assume "\<exists>r. h264_flag_get s r"
  then obtain r where "h264_flag_get s r" ..
  then show "slot_held s" by (cases r) (auto simp: slot_held_def)
qed

lemma same_holds_upd:
  "(\<And>s r. h264_flag_get (f s) r = h264_flag_get s r) \<Longrightarrow> (\<And>s. slot_epoch (f s) = slot_epoch s) \<Longrightarrow> same_holds ctx (upd_slot i f ctx)"
  by (simp add: same_holds_def upd_slot_nth)

lemma same_holds_clear: "same_holds ctx (slot_clear ctx i)"
  by (simp add: slot_clear_def same_holds_upd)

lemma drop_slots_scan:
  assumes "n \<le> length (slots ctx)"
    and "ctx' = fold (\<lambda>i c. if P i (slots c ! i) then slot_clear c i else c) [0..<n] ctx"
  shows "same_holds ctx ctx' \<and> current_idx ctx' = current_idx ctx \<and> curr_pic_num ctx' = curr_pic_num ctx \<and>
    max_frame_num ctx' = max_frame_num ctx \<and>
    (\<forall>j < length (slots ctx). slots ctx' ! j = (if j < n \<and> P j (slots ctx ! j) then clear_slot (slots ctx ! j) else slots ctx ! j))"
  using assms
proof (induction n arbitrary: ctx')
  case (Suc n)
  let ?c = "fold (\<lambda>i c. if P i (slots c ! i) then slot_clear c i else c) [0..<n] ctx"
  have ih: "same_holds ctx ?c \<and> current_idx ?c = current_idx ctx \<and> curr_pic_num ?c = curr_pic_num ctx \<and>
      max_frame_num ?c = max_frame_num ctx \<and>
      (\<forall>j < length (slots ctx). slots ?c ! j = (if j < n \<and> P j (slots ctx ! j) then clear_slot (slots ctx ! j) else slots ctx ! j))"
    by (rule Suc.IH[OF _ refl]) (use Suc.prems in simp)
  have l: "length (slots ?c) = length (slots ctx)" using ih by (simp add: same_holds_def)
  have c': "ctx' = (if P n (slots ?c ! n) then slot_clear ?c n else ?c)" using Suc.prems(2) by simp
  have n: "slots ?c ! n = slots ctx ! n" using ih Suc.prems(1) by simp
  show ?case
  proof (cases "P n (slots ctx ! n)")
    case True
    have e: "ctx' = slot_clear ?c n" using c' n True by simp
    have "slots ctx' ! j = (if j < Suc n \<and> P j (slots ctx ! j) then clear_slot (slots ctx ! j) else slots ctx ! j)"
      if j: "j < length (slots ctx)" for j
      using ih j l n True by (cases "j = n") (auto simp: e slot_clear_def upd_slot_nth less_Suc_eq)
    then show ?thesis using ih same_holds_trans[OF _ same_holds_clear, of ctx ?c n] by (simp add: e) (simp add: slot_clear_def)
  next
    case False
    then have "ctx' = ?c" using c' n by simp
    then show ?thesis using ih False by (auto simp: less_Suc_eq)
  qed
qed simp

lemma drop_slots_spec:
  assumes "pool_size ctx \<le> length (slots ctx)"
  shows "same_holds ctx (drop_slots P ctx)" "current_idx (drop_slots P ctx) = current_idx ctx"
    "curr_pic_num (drop_slots P ctx) = curr_pic_num ctx" "max_frame_num (drop_slots P ctx) = max_frame_num ctx"
    "\<And>j. j < length (slots ctx) \<Longrightarrow> slots (drop_slots P ctx) ! j =
       (if j < pool_size ctx \<and> P j (slots ctx ! j) then clear_slot (slots ctx ! j) else slots ctx ! j)"
  using drop_slots_scan[OF assms refl, of P] by (simp_all add: drop_slots_def)

section \<open>The sliding window\<close>

lemma evict_frame:
  assumes "pool_size ctx \<le> length (slots ctx)" "ctx' = evict_oldest_short_term ctx"
  shows "same_holds ctx ctx'" "current_idx ctx' = current_idx ctx" "curr_pic_num ctx' = curr_pic_num ctx"
    "max_frame_num ctx' = max_frame_num ctx"
    "\<And>j. j < length (slots ctx) \<Longrightarrow> j \<notin> short_refs ctx - short_refs ctx' \<Longrightarrow> slots ctx' ! j = slots ctx ! j"
    "\<And>j. j \<in> short_refs ctx - short_refs ctx' \<Longrightarrow> slots ctx' ! j = clear_slot (slots ctx ! j)"
proof -
  from assms(1) show "same_holds ctx ctx'" "current_idx ctx' = current_idx ctx" "curr_pic_num ctx' = curr_pic_num ctx"
    "max_frame_num ctx' = max_frame_num ctx"
    unfolding assms(2) by (auto elim!: evict_cases simp: slot_clear_def intro!: same_holds_trans[OF _ same_holds_upd])
      (auto simp: same_holds_def)
  have "(\<forall>j < length (slots ctx). j \<notin> short_refs ctx - short_refs ctx' \<longrightarrow> slots ctx' ! j = slots ctx ! j) \<and>
      (\<forall>j \<in> short_refs ctx - short_refs ctx'. slots ctx' ! j = clear_slot (slots ctx ! j))"
  proof (rule evict_cases[OF assms(1)])
    fix i assume i: "i \<in> short_refs ctx" and e: "evict_oldest_short_term ctx = slot_clear (ctx\<lparr>last_bumped_poc := top_poc (slots ctx ! i)\<rparr>) i"
      and d: "short_refs (evict_oldest_short_term ctx) = short_refs ctx - {i}"
    have "short_refs ctx - short_refs ctx' = {i}" using i d by (auto simp: assms(2))
    then show ?thesis using i assms(1) unfolding assms(2) e by (auto simp: slot_clear_def upd_slot_nth short_refs_def)
  qed (use assms(2) in simp)
  then show "\<And>j. j < length (slots ctx) \<Longrightarrow> j \<notin> short_refs ctx - short_refs ctx' \<Longrightarrow> slots ctx' ! j = slots ctx ! j"
    "\<And>j. j \<in> short_refs ctx - short_refs ctx' \<Longrightarrow> slots ctx' ! j = clear_slot (slots ctx ! j)" by blast+
qed

text \<open>What the window leaves: at most the limit, the dropped references being the oldest ones.\<close>

definition slid :: "nat \<Rightarrow> DpbCtx \<Rightarrow> DpbCtx \<Rightarrow> bool" where
  "slid m ctx ctx' \<longleftrightarrow> card (short_refs ctx') = min (card (short_refs ctx)) m \<and> short_refs ctx' \<subseteq> short_refs ctx \<and>
     (\<forall>i \<in> short_refs ctx'. \<forall>j \<in> short_refs ctx - short_refs ctx'. fnw_of ctx j \<le> fnw_of ctx i) \<and>
     (\<forall>j < length (slots ctx). slots ctx' ! j =
        (if j \<in> short_refs ctx - short_refs ctx' then clear_slot (slots ctx ! j) else slots ctx ! j)) \<and>
     same_holds ctx ctx' \<and> current_idx ctx' = current_idx ctx"

lemma slide_slid: "pool_size ctx \<le> length (slots ctx) \<Longrightarrow> slid m ctx (slide m ctx)"
proof (induction m ctx rule: slide.induct)
  case (1 m ctx)
  show ?case
  proof (cases "count_short ctx > m")
    case False
    then show ?thesis by (subst slide.simps) (simp add: slid_def count_short_card)
  next
    case True
    let ?c = "evict_oldest_short_term ctx" and ?d = "slide m (evict_oldest_short_term ctx)"
    note f = evict_frame[OF 1(2) refl]
    have l: "pool_size ?c \<le> length (slots ?c)" "length (slots ?c) = length (slots ctx)" using f(1) 1(2) by (auto simp: same_holds_def)
    have ih: "slid m ?c ?d" using 1(1)[OF _ l(1)] True 1(2) by simp
    have s: "slide m ctx = ?d" using True 1(2) by (subst slide.simps) simp
    have "short_refs ctx \<noteq> {}" using True by (auto simp: count_short_card)
    then obtain i where i: "i \<in> short_refs ctx" "\<forall>j \<in> short_refs ctx. fnw_of ctx i \<le> fnw_of ctx j" "short_refs ?c = short_refs ctx - {i}"
      using 1(2) by (elim evict_cases) auto
    have fn: "fnw_of ?c j = fnw_of ctx j" if "j \<in> short_refs ?c" for j
    proof -
      have "j \<in> short_refs ctx" using that i(3) by simp
      then have "j < length (slots ctx)" using 1(2) by (simp add: short_refs_def)
      then have "slots ?c ! j = slots ctx ! j" by (rule f(5)) (use that in simp)
      then show ?thesis by (simp only: fnw_of_def window_max_def f(3,4))
    qed
    have sub: "short_refs ?d \<subseteq> short_refs ?c" using ih by (simp add: slid_def)
    have "card (short_refs ?d) = min (card (short_refs ctx)) m"
      using ih i True by (simp add: slid_def count_short_card)
    moreover have "fnw_of ctx k \<le> fnw_of ctx j" if "j \<in> short_refs ?d" "k \<in> short_refs ctx - short_refs ?d" for j k
    proof (cases "k = i")
      case True then show ?thesis using i sub that by auto
    next
      case False
      then have "k \<in> short_refs ?c - short_refs ?d" using that i by auto
      moreover from this have "fnw_of ?c k \<le> fnw_of ?c j" using ih that(1) unfolding slid_def by blast
      ultimately show ?thesis using fn[of j] fn[of k] sub that(1) by auto
    qed
    moreover have "slots ?d ! j = (if j \<in> short_refs ctx - short_refs ?d then clear_slot (slots ctx ! j) else slots ctx ! j)"
      if j: "j < length (slots ctx)" for j
      using ih f(5)[OF j] f(6)[of j] i j l(2) sub unfolding slid_def by (cases "j = i") auto
    moreover have "same_holds ctx ?d" "current_idx ?d = current_idx ctx"
      using ih f(1,2) same_holds_trans by (auto simp: slid_def)
    ultimately show ?thesis unfolding s using sub i by (auto simp: slid_def)
  qed
qed

text \<open>
  C7: When a reference picture without marking commands is complete, the sliding window ends with exactly the allowed number of
  short-term references (or all of them, if fewer), drops only references that are older, by FrameNumWrap, than all it keeps, keeps
  the current picture if it is the newest, and touches no other slot and no hold.
\<close>

theorem sliding_window_correct:
  assumes "dpb_ok ctx" "current_idx ctx = Some cur" "is_ref (slots ctx ! cur)" "\<not> pending_adaptive ctx"
    "m = max 1 (max_num_ref_frames ctx)" "ctx' = Dpb_OnDecodeComplete ctx"
  shows "card (short_refs ctx') = min (card (short_refs ctx)) m \<and> short_refs ctx' \<subseteq> short_refs ctx \<and>
    (\<forall>i \<in> short_refs ctx'. \<forall>j \<in> short_refs ctx - short_refs ctx'. fnw_of ctx j \<le> fnw_of ctx i) \<and>
    (cur \<in> short_refs ctx \<and> (\<forall>j \<in> short_refs ctx - {cur}. fnw_of ctx j < fnw_of ctx cur) \<longrightarrow> cur \<in> short_refs ctx') \<and>
    (\<forall>j < DPB_MAX_SLOTS. slots ctx' ! j =
       (if j \<in> short_refs ctx - short_refs ctx' then clear_slot (slots ctx ! j) else slots ctx ! j)) \<and>
    current_idx ctx' = None"
proof -
  let ?c = "ctx\<lparr>last_bumped_poc := INT32_MIN, current_idx := None\<rparr>"
  have e: "ctx' = end_pending (slide m ?c)" using assms by (simp add: Dpb_OnDecodeComplete_def Let_def max_def)
  have c: "slots ?c = slots ctx" "short_refs ?c = short_refs ctx" "fnw_of ?c i = fnw_of ctx i" for i
    by (simp_all add: short_refs_def window_max_def fnw_of_def)
  have c': "slots ctx' = slots (slide m ?c)" "short_refs ctx' = short_refs (slide m ?c)" "current_idx ctx' = current_idx (slide m ?c)"
    by (simp_all add: e end_pending_def short_refs_def)
  have "slid m ?c (slide m ?c)" by (rule slide_slid) (use assms(1) in \<open>simp add: dpb_ok_def\<close>)
  note sl = this[unfolded slid_def c, folded c']
  have l: "length (slots ctx) = DPB_MAX_SLOTS" using assms(1) by (simp add: dpb_ok_def)
  have "cur \<in> short_refs ctx'" if cur: "cur \<in> short_refs ctx" "\<forall>j \<in> short_refs ctx - {cur}. fnw_of ctx j < fnw_of ctx cur"
  proof (rule ccontr)
    assume n: "cur \<notin> short_refs ctx'"
    then have "\<forall>i \<in> short_refs ctx'. fnw_of ctx cur \<le> fnw_of ctx i" using sl cur(1) by blast
    moreover have "fnw_of ctx i < fnw_of ctx cur" if "i \<in> short_refs ctx'" for i using that cur(2) sl n by blast
    ultimately have "short_refs ctx' = {}" by (meson all_not_in_conv not_le)
    moreover have "card (short_refs ctx) > 0" using cur(1) by (auto simp: card_gt_0_iff)
    ultimately show False using sl assms(5) by auto
  qed
  then show ?thesis using sl l by auto
qed

definition demo_pool :: "DpbPoolEntry list" where
  "demo_pool = map (\<lambda>i. \<lparr>output_frame = i, colmv = i + 16\<rparr>) [1, 2, 3, 4]"

definition demo_ref :: "uint16 \<Rightarrow> int \<Rightarrow> dpb_slot" where
  "demo_ref fn poc = zero_slot\<lparr>in_use := True, is_ref := True, slot_fields := 3, frame_num := fn, top_poc := poc, bottom_poc := poc\<rparr>"

text \<open>Four short-term references across a wrap of the frame number, the last one being the current picture.\<close>

definition demo_ctx :: DpbCtx where
  "demo_ctx = \<lparr>dpb_pool = demo_pool, pool_size = 4, current_idx = Some 3, current_epoch = 0,
     max_num_ref_frames = 2, max_frame_num = 16, curr_pic_num = 1, max_long_term_frame_idx = -1,
     pending_adaptive = False, pending_mmco = [], pending_curr_pic_num = 1, last_bumped_poc = 0,
     slots = [demo_ref 14 0, demo_ref 15 2, demo_ref 0 4, demo_ref 1 6] @ replicate 12 zero_slot\<rparr>"

lemma below_4: "i < (4 :: nat) \<longleftrightarrow> i = 0 \<or> i = 1 \<or> i = 2 \<or> i = 3"
  by auto

lemma demo_ctx_ok: "dpb_ok demo_ctx"
  by (auto simp: dpb_ok_def demo_ctx_def demo_pool_def demo_ref_def below_4)

lemma demo_ctx_short: "short_refs demo_ctx = {0, 1, 2, 3}"
  by (auto simp: short_refs_def demo_ctx_def demo_ref_def short_ref_def zero_slot_def below_4)

theorem sliding_window_correct_witness:
  "card (short_refs (Dpb_OnDecodeComplete demo_ctx)) = 2 \<and> 3 \<in> short_refs (Dpb_OnDecodeComplete demo_ctx)"
proof -
  have f: "fnw_of demo_ctx 3 = 1" "fnw_of demo_ctx 0 = -2" "fnw_of demo_ctx 1 = -1" "fnw_of demo_ctx 2 = 0"
    by code_simp+
  have n: "\<forall>j \<in> short_refs demo_ctx - {3}. fnw_of demo_ctx j < fnw_of demo_ctx 3"
    unfolding demo_ctx_short using f by auto
  have "current_idx demo_ctx = Some 3" "is_ref (slots demo_ctx ! 3)" "\<not> pending_adaptive demo_ctx" "2 = max 1 (max_num_ref_frames demo_ctx)"
    by (simp_all add: demo_ctx_def demo_ref_def)
  from sliding_window_correct[OF demo_ctx_ok this refl] n show ?thesis
    by (simp add: demo_ctx_short)
qed

end
