(* ===== verification/Bit_Reader.thy ===== *)
theory Bit_Reader
  imports Nal_Stream H264_Dpb "HOL-Library.State_Monad"
begin

text \<open>
  The bit reader and the byte-level helpers of \<^verbatim>\<open>mft/parser_glue.cpp\<close>: fixed-length and Exp-Golomb codes, the end-of-data test,
  the start-code search and the removal of emulation prevention bytes. A parsing routine is a state transformer over the
  reader; reads past the end return what has been read.
\<close>

section \<open>The reader\<close>

record BitReader =
  br_data :: "uint8 list"
  bit_pos :: nat
  br_fail :: bool

type_synonym 'a reader = "(BitReader, 'a) state"

definition br_init :: "uint8 list \<Rightarrow> BitReader" where
  "br_init d = \<lparr>br_data = d, bit_pos = 0, br_fail = False\<rparr>"

definition br_eof :: "BitReader \<Rightarrow> bool" where
  "br_eof br \<longleftrightarrow> bit_pos br \<ge> length (br_data br) * 8"

text \<open>Bit \<open>pos\<close> of the data, the most significant bit of a byte first.\<close>

definition bit_at :: "uint8 list \<Rightarrow> nat \<Rightarrow> bool" where
  "bit_at d pos = bit (d ! (pos div 8)) (7 - pos mod 8)"

definition br_more_rbsp_data :: "BitReader \<Rightarrow> bool" where
  "br_more_rbsp_data br = (if br_eof br then False
     else if \<not> bit_at (br_data br) (bit_pos br) then True
     else list_ex (bit_at (br_data br)) [Suc (bit_pos br)..<length (br_data br) * 8])"

fun br_u_loop :: "nat \<Rightarrow> ULONG \<Rightarrow> BitReader \<Rightarrow> ULONG \<times> BitReader" where
  "br_u_loop 0 v br = (v, br)"
| "br_u_loop (Suc n) v br =
     (if br_eof br then (v, br)
      else br_u_loop n (push_bit 1 v OR of_bool (bit_at (br_data br) (bit_pos br))) (br\<lparr>bit_pos := Suc (bit_pos br)\<rparr>))"

definition br_u :: "nat \<Rightarrow> ULONG reader" where
  "br_u n = State (br_u_loop n 0)"

definition br_u1 :: "bool reader" where
  "br_u1 = do { v \<leftarrow> br_u 1; State_Monad.return (v \<noteq> 0) }"

lemma br_u1_step:
  "run_state br_u1 br = (if br_eof br then (False, br) else (bit_at (br_data br) (bit_pos br), br\<lparr>bit_pos := Suc (bit_pos br)\<rparr>))"
  by (simp add: br_u1_def br_u_def)

text \<open>The prefix of an Exp-Golomb code: zeros up to and including the first one.\<close>

function ue_zeros :: "nat \<Rightarrow> BitReader \<Rightarrow> nat \<times> BitReader" where
  "ue_zeros zeros br =
     (if br_eof br then (zeros, br)
      else let (b, br1) = run_state br_u1 br in if b then (zeros, br1) else ue_zeros (Suc zeros) br1)"
  by pat_completeness auto
termination
  by (relation "measure (\<lambda>(z, br). length (br_data br) * 8 - bit_pos br)") (auto simp: br_u1_step br_eof_def)

declare ue_zeros.simps [simp del]

definition br_ue :: "ULONG reader" where
  "br_ue = State (\<lambda>br. let (zeros, br1) = ue_zeros 0 br
     in if br_eof br1 \<and> zeros > 0 then (0, br1\<lparr>br_fail := True\<rparr>)
        else if zeros > 31 then (0, br1\<lparr>br_fail := True\<rparr>)
        else let (suffix, br2) = run_state (br_u zeros) br1 in (ucast ((push_bit zeros 1 :: ULONG64) - 1) + suffix, br2))"

definition br_se :: "int reader" where
  "br_se = do { k \<leftarrow> br_ue; State_Monad.return (if odd (unat k) then int (unat (k + 1) div 2) else - int (unat k div 2)) }"

section \<open>Bits as a list\<close>

definition byte_bits :: "uint8 \<Rightarrow> bool list" where
  "byte_bits b = map (\<lambda>i. bit b (7 - i)) [0..<8]"

definition bits_of :: "uint8 list \<Rightarrow> bool list" where
  "bits_of d = map (bit_at d) [0..<length d * 8]"

definition rest :: "BitReader \<Rightarrow> bool list" where
  "rest br = drop (bit_pos br) (bits_of (br_data br))"

definition skip_bits :: "nat \<Rightarrow> BitReader \<Rightarrow> BitReader" where
  "skip_bits n br = br\<lparr>bit_pos := bit_pos br + n\<rparr>"

lemma skip_0 [simp]: "skip_bits 0 br = br" by (simp add: skip_bits_def)

lemma skip_skip [simp]: "skip_bits n (skip_bits m br) = skip_bits (m + n) br" by (simp add: skip_bits_def add.assoc)

lemma rest_skip [simp]: "rest (skip_bits n br) = drop n (rest br)" by (simp add: rest_def skip_bits_def add.commute)

lemma eof_rest: "br_eof br \<longleftrightarrow> rest br = []" by (auto simp: br_eof_def rest_def bits_of_def)

lemma rest_Cons: "\<not> br_eof br \<Longrightarrow> rest br = bit_at (br_data br) (bit_pos br) # rest (skip_bits 1 br)"
  by (simp add: br_eof_def rest_def bits_of_def skip_bits_def upt_conv_Cons drop_map del: upt_Suc)

text \<open>The value of a bit string, most significant bit first.\<close>

definition bits_val :: "bool list \<Rightarrow> nat" where
  "bits_val bs = foldl (\<lambda>v b. 2 * v + of_bool b) 0 bs"

definition bits_acc :: "nat \<Rightarrow> bool list \<Rightarrow> nat" where
  "bits_acc v bs = foldl (\<lambda>v b. 2 * v + of_bool b) v bs"

lemma bits_acc_simps [simp]: "bits_acc v [] = v" "bits_acc v (b # bs) = bits_acc (2 * v + of_bool b) bs"
  by (simp_all add: bits_acc_def)

lemma bits_acc_val: "bits_acc v bs = v * 2 ^ length bs + bits_val bs"
proof (induction bs arbitrary: v)
  case (Cons b bs)
  have "bits_val (b # bs) = bits_acc (of_bool b) bs" by (simp add: bits_val_def bits_acc_def)
  then show ?case using Cons[of "2 * v + of_bool b"] Cons[of "of_bool b"] by (simp add: algebra_simps)
qed (simp add: bits_val_def)

lemma bits_val_Cons [simp]: "bits_val (b # bs) = of_bool b * 2 ^ length bs + bits_val bs"
  using bits_acc_val[of 0 "b # bs"] bits_acc_val[of "of_bool b" bs] by simp

lemma bits_val_Nil [simp]: "bits_val [] = 0" by (simp add: bits_val_def)

lemma bits_val_less: "bits_val bs < 2 ^ length bs"
  by (induction bs) (auto simp: of_bool_def)

lemma shift_in_bit: "push_bit 1 (of_nat a :: ULONG) OR of_bool b = of_nat (2 * a + of_bool b)"
proof -
  have "push_bit 1 (of_nat a :: ULONG) = 2 * of_nat a" by (simp add: push_bit_double)
  then have "push_bit 1 (of_nat a :: ULONG) OR of_bool b = 2 * of_nat a + of_bool b"
    by (cases b) (simp_all add: or_one_eq)
  then show ?thesis by simp
qed

lemma br_u_loop_rest:
  "n \<le> length (rest br) \<Longrightarrow> br_u_loop n (of_nat a) br = (of_nat (bits_acc a (take n (rest br))), skip_bits n br)"
proof (induction n arbitrary: a br)
  case (Suc n)
  then have e: "\<not> br_eof br" by (auto simp: eof_rest)
  let ?b = "bit_at (br_data br) (bit_pos br)"
  have s: "br\<lparr>bit_pos := Suc (bit_pos br)\<rparr> = skip_bits 1 br" by (simp add: skip_bits_def)
  have t: "rest br = ?b # rest (skip_bits 1 br)" using rest_Cons[OF e] .
  have "n \<le> length (rest (skip_bits 1 br))" using Suc.prems by simp
  note ih = Suc.IH[OF this, of "2 * a + of_bool ?b"]
  have "br_u_loop (Suc n) (of_nat a) br = br_u_loop n (of_nat (2 * a + of_bool ?b)) (skip_bits 1 br)"
    unfolding br_u_loop.simps s shift_in_bit using e by (simp only: if_False)
  also have "\<dots> = (of_nat (bits_acc a (?b # take n (rest (skip_bits 1 br)))), skip_bits (Suc n) br)"
    unfolding ih by simp
  also have "?b # take n (rest (skip_bits 1 br)) = take (Suc n) (rest br)" using t take_Suc_Cons by metis
  finally show ?case .
qed simp

lemma br_u_rest:
  "n \<le> length (rest br) \<Longrightarrow> run_state (br_u n) br = (of_nat (bits_val (take n (rest br))), skip_bits n br)"
  using br_u_loop_rest[of n br 0] by (simp add: br_u_def bits_acc_val)

lemma br_u1_rest: "rest br = b # bs \<Longrightarrow> run_state br_u1 br = (b, skip_bits 1 br)"
  using rest_Cons[of br] by (cases "br_eof br") (simp_all add: br_u1_step eof_rest skip_bits_def)

lemma ue_zeros_rest:
  "rest br = replicate z False @ True # bs \<Longrightarrow> ue_zeros zeros br = (zeros + z, skip_bits (Suc z) br)"
proof (induction z arbitrary: br zeros)
  case 0
  then have "run_state br_u1 br = (True, skip_bits 1 br)" "\<not> br_eof br" using br_u1_rest by (auto simp: eof_rest)
  then show ?case by (simp add: ue_zeros.simps[of zeros br])
next
  case (Suc z)
  then have "run_state br_u1 br = (False, skip_bits 1 br)" "\<not> br_eof br" using br_u1_rest by (auto simp: eof_rest)
  moreover have "rest (skip_bits 1 br) = replicate z False @ True # bs" using Suc.prems by simp
  ultimately show ?case using Suc.IH[of "skip_bits 1 br" "Suc zeros"] by (simp add: ue_zeros.simps[of zeros br])
qed

section \<open>Exp-Golomb codes\<close>

text \<open>The code words of the standard, for the values that fit 32 bits.\<close>

fun nat_bits :: "nat \<Rightarrow> nat \<Rightarrow> bool list" where
  "nat_bits 0 v = []"
| "nat_bits (Suc n) v = odd (v div 2 ^ n) # nat_bits n v"

lemma length_nat_bits [simp]: "length (nat_bits n v) = n" by (induction n) auto

lemma bits_val_nat_bits: "bits_val (nat_bits n v) = v mod 2 ^ n"
proof (induction n)
  case (Suc n)
  have "v mod 2 ^ Suc n = 2 ^ n * (v div 2 ^ n mod 2) + v mod 2 ^ n" using mod_mult2_eq[of v "2 ^ n" 2] by (simp add: mult.commute)
  then show ?case using Suc by (auto simp: odd_iff_mod_2_eq_one elim: oddE)
qed simp

fun lg :: "nat \<Rightarrow> nat" where
  "lg n = (if n < 2 then 0 else Suc (lg (n div 2)))"

declare lg.simps [simp del]

lemma lg_bounds: "0 < n \<Longrightarrow> 2 ^ lg n \<le> n \<and> n < 2 * 2 ^ lg n"
proof (induction n rule: lg.induct)
  case (1 n)
  show ?case
  proof (cases "n < 2")
    case False
    then have "2 ^ lg (n div 2) \<le> n div 2 \<and> n div 2 < 2 * 2 ^ lg (n div 2)" using 1 by simp
    then show ?thesis using False by (subst (1 2) lg.simps) (simp, linarith)
  qed (use 1 in \<open>simp add: lg.simps\<close>)
qed

definition ue_code :: "nat \<Rightarrow> bool list" where
  "ue_code k = (let z = lg (Suc k) in replicate z False @ True # nat_bits z (Suc k))"

definition se_code :: "int \<Rightarrow> bool list" where
  "se_code i = ue_code (if i > 0 then nat (2 * i - 1) else nat (- 2 * i))"

lemma br_ue_code:
  assumes "rest br = ue_code k @ bs" "k < 2 ^ 32 - 1"
  shows "run_state br_ue br = (of_nat k, skip_bits (length (ue_code k)) br)"
proof -
  define z where "z = lg (Suc k)"
  have z: "2 ^ z \<le> Suc k" "Suc k < 2 * 2 ^ z" using lg_bounds[of "Suc k"] by (simp_all add: z_def)
  then have z31: "z \<le> 31"
  proof -
    have "2 ^ z < (2 :: nat) ^ 32" using z(1) assms(2) by simp
    then have "z < 32" by (rule power_less_imp_less_exp[rotated]) simp
    then show ?thesis by simp
  qed
  have r: "rest br = replicate z False @ True # nat_bits z (Suc k) @ bs" using assms(1) by (simp add: ue_code_def z_def Let_def)
  have p: "ue_zeros 0 br = (z, skip_bits (Suc z) br)" using ue_zeros_rest[OF r, of 0] by simp
  have s: "rest (skip_bits (Suc z) br) = nat_bits z (Suc k) @ bs" by (simp add: r)
  then have ne: "\<not> (br_eof (skip_bits (Suc z) br) \<and> 0 < z)" by (cases z) (simp_all add: eof_rest del: rest_skip)
  have u: "run_state (br_u z) (skip_bits (Suc z) br) = (of_nat (Suc k mod 2 ^ z), skip_bits (Suc z + z) br)"
    using br_u_rest[of z "skip_bits (Suc z) br", unfolded s] by (simp add: bits_val_nat_bits)
  have m: "Suc k mod 2 ^ z = Suc k - 2 ^ z" using z by (simp add: mod_if not_le le_mod_geq)
  have e: "ucast ((push_bit z 1 :: ULONG64) - 1) + of_nat (Suc k - 2 ^ z) = (of_nat k :: ULONG)"
  proof -
    have "(ucast ((push_bit z 1 :: ULONG64) - 1) :: ULONG) = of_nat (2 ^ z - 1)"
    proof -
      have lt: "(2 :: nat) ^ z < 2 ^ 64" using z31 by (intro power_strict_increasing) simp_all
      have "(push_bit z 1 :: ULONG64) - 1 = of_nat (2 ^ z - 1)" by (simp add: of_nat_diff)
      then have "(ucast ((push_bit z 1 :: ULONG64) - 1) :: ULONG) = of_nat (take_bit 64 (2 ^ z - 1))" by (simp only: unsigned_of_nat) simp
      also have "take_bit 64 (2 ^ z - 1) = (2 ^ z - 1 :: nat)" by (rule take_bit_nat_eq_self) (use lt in simp)
      finally show ?thesis .
    qed
    then show ?thesis using z by (simp flip: of_nat_add)
  qed
  have l: "length (ue_code k) = Suc z + z" by (simp add: ue_code_def z_def Let_def)
  show ?thesis using p ne z31 u m e l by (auto simp: br_ue_def Let_def)
qed

lemma unat_of_small: "k < 2 ^ 32 \<Longrightarrow> unat (of_nat k :: ULONG) = k"
  by (simp add: unsigned_of_nat take_bit_nat_eq_self)

lemma br_se_code:
  assumes "rest br = se_code i @ bs" "\<bar>i\<bar> < 2 ^ 31 - 1"
  shows "run_state br_se br = (i, skip_bits (length (se_code i)) br)"
proof -
  let ?k = "if i > 0 then nat (2 * i - 1) else nat (- 2 * i)"
  have k: "?k < 2 ^ 32 - 1" using assms(2) by auto
  have u: "unat (of_nat ?k :: ULONG) = ?k" by (rule unat_of_small) (use k in linarith)
  have "unat (of_nat (?k + 1) :: ULONG) = ?k + 1" by (rule unat_of_small) (use k in linarith)
  then have u1: "unat (of_nat ?k + 1 :: ULONG) = ?k + 1" by (simp only: of_nat_add of_nat_1)
  have "run_state br_ue br = (of_nat ?k, skip_bits (length (se_code i)) br)"
    using br_ue_code[OF _ k, of br bs] assms(1) by (simp add: se_code_def)
  then have "run_state br_se br = (if odd ?k then int ((?k + 1) div 2) else - int (?k div 2), skip_bits (length (se_code i)) br)"
    by (simp only: br_se_def State_Monad.run_state_bind prod.case State_Monad.run_state_return u u1)
  moreover have "(if odd ?k then int ((?k + 1) div 2) else - int (?k div 2)) = i"
  proof (cases "i > 0")
    case True
    then have "nat (2 * i - 1) = 2 * nat (i - 1) + 1" by simp
    then show ?thesis using True by simp
  next
    case False
    then have "nat (- 2 * i) = 2 * nat (- i)" by simp
    then show ?thesis using False by simp
  qed
  ultimately show ?thesis by simp
qed

section \<open>Progress\<close>

text \<open>What every parsing routine does to the reader: it keeps the data, moves forward inside it, and keeps a latched failure.\<close>

definition adv :: "BitReader \<Rightarrow> BitReader \<Rightarrow> bool" where
  "adv br br' \<longleftrightarrow> br_data br' = br_data br \<and> bit_pos br \<le> bit_pos br' \<and>
     (bit_pos br \<le> length (br_data br) * 8 \<longrightarrow> bit_pos br' \<le> length (br_data br) * 8) \<and> (br_fail br \<longrightarrow> br_fail br')"

named_theorems adv_rules

lemma adv_refl [simp]: "adv br br" by (simp add: adv_def)

lemma adv_trans: "adv a b \<Longrightarrow> adv b c \<Longrightarrow> adv a c" by (auto simp: adv_def)

lemma adv_return [adv_rules]: "state_io_rel adv (State_Monad.return x)"
  by (rule state_io_relI) simp

lemma adv_bind [adv_rules]:
  assumes "state_io_rel adv m" "\<And>x. state_io_rel adv (f x)"
  shows "state_io_rel adv (m \<bind> f)"
proof (rule state_io_relI)
  fix a br br' assume r: "run_state (m \<bind> f) br = (a, br')"
  obtain x b where m: "run_state m br = (x, b)" by fastforce
  then have "run_state (f x) b = (a, br')" using r by simp
  then show "adv br br'" using adv_trans state_io_relD[OF assms(1) m] state_io_relD[OF assms(2)] by blast
qed

lemma adv_if [adv_rules]: "(b \<Longrightarrow> state_io_rel adv m) \<Longrightarrow> (\<not> b \<Longrightarrow> state_io_rel adv n) \<Longrightarrow> state_io_rel adv (if b then m else n)"
  by simp

lemma adv_case_prod [adv_rules]: "(\<And>x y. state_io_rel adv (f x y)) \<Longrightarrow> state_io_rel adv (case p of (x, y) \<Rightarrow> f x y)"
  by (simp split: prod.split)

lemma adv_Let [adv_rules]: "(\<And>x. state_io_rel adv (f x)) \<Longrightarrow> state_io_rel adv (Let y f)"
  by simp

lemma adv_u_loop: "adv br (snd (br_u_loop n v br))"
proof (induction n v br rule: br_u_loop.induct)
  case (2 n v br)
  show ?case
  proof (cases "br_eof br")
    case False
    have "adv br (br\<lparr>bit_pos := Suc (bit_pos br)\<rparr>)" using False by (simp add: adv_def br_eof_def)
    from adv_trans[OF this 2[OF False]] show ?thesis using False by simp
  qed simp
qed simp

lemma adv_u [adv_rules]: "state_io_rel adv (br_u n)"
proof (rule state_io_relI)
  fix v br br' assume "run_state (br_u n) br = (v, br')"
  then show "adv br br'" using adv_u_loop[of br n 0] by (simp add: br_u_def)
qed

lemma adv_u1 [adv_rules]: "state_io_rel adv br_u1"
  unfolding br_u1_def by (intro adv_rules)

lemma adv_zeros: "adv br (snd (ue_zeros z br))"
proof (induction z br rule: ue_zeros.induct)
  case (1 z br)
  show ?case
  proof (cases "br_eof br")
    case True
    then show ?thesis by (simp add: ue_zeros.simps[of z br])
  next
    case False
    obtain b br1 where r: "run_state br_u1 br = (b, br1)" by fastforce
    have a: "adv br br1" using state_io_relD[OF adv_u1 r] .
    show ?thesis
    proof (cases b)
      case True
      then show ?thesis using a False by (simp add: ue_zeros.simps[of z br] r)
    next
      case F: False
      have "adv br1 (snd (ue_zeros (Suc z) br1))" by (rule 1[OF False r[symmetric] refl F])
      from adv_trans[OF a this] show ?thesis using F False by (simp add: ue_zeros.simps[of z br] r)
    qed
  qed
qed

lemma adv_ue [adv_rules]: "state_io_rel adv br_ue"
proof (rule state_io_relI)
  fix v br br' assume r: "run_state br_ue br = (v, br')"
  obtain z b where z: "ue_zeros 0 br = (z, b)" by fastforce
  have ab: "adv br b" using adv_zeros[of br 0] by (simp add: z)
  obtain s c where u: "run_state (br_u z) b = (s, c)" by fastforce
  have "adv br c" using adv_trans[OF ab] state_io_relD[OF adv_u u] by blast
  moreover have "adv br (b\<lparr>br_fail := True\<rparr>)" using ab by (simp add: adv_def)
  ultimately show "adv br br'" using r by (auto simp: br_ue_def z u Let_def split: if_splits)
qed

lemma adv_se [adv_rules]: "state_io_rel adv br_se"
  unfolding br_se_def by (intro adv_rules)

lemma zeros_forward: "\<not> br_eof br \<Longrightarrow> bit_pos br < bit_pos (snd (ue_zeros z br))"
  using adv_zeros[of "br\<lparr>bit_pos := Suc (bit_pos br)\<rparr>" "Suc z"]
  by (auto simp: ue_zeros.simps[of z br] br_u1_step adv_def)

lemma ue_forward: "\<not> br_eof br \<Longrightarrow> run_state br_ue br = (v, br') \<Longrightarrow> bit_pos br < bit_pos br'"
proof -
  assume e: "\<not> br_eof br" and r: "run_state br_ue br = (v, br')"
  obtain z b where z: "ue_zeros 0 br = (z, b)" by fastforce
  obtain s c where u: "run_state (br_u z) b = (s, c)" by fastforce
  have "bit_pos br < bit_pos b" using zeros_forward[OF e, of 0] by (simp add: z)
  moreover have "bit_pos b \<le> bit_pos c" using state_io_relD[OF adv_u u] by (simp add: adv_def)
  ultimately show ?thesis using r by (auto simp: br_ue_def z u Let_def split: if_splits)
qed

lemma ue_eof: "br_eof br \<Longrightarrow> run_state br_ue br = (0, br)"
  by (simp add: br_ue_def ue_zeros.simps[of 0 br] br_u_def)

lemma adv_eof: "adv br br' \<Longrightarrow> br_eof br \<Longrightarrow> br_eof br'"
  by (auto simp: adv_def br_eof_def)

section \<open>Sequences of syntax elements\<close>

text \<open>A syntax element with its value: a fixed-length field, an unsigned or a signed Exp-Golomb code.\<close>

datatype elem = U nat nat | UE nat | SE int

fun elem_ok :: "elem \<Rightarrow> bool" where
  "elem_ok (U n v) \<longleftrightarrow> n \<le> 32 \<and> v < 2 ^ n"
| "elem_ok (UE k) \<longleftrightarrow> k < 2 ^ 32 - 1"
| "elem_ok (SE i) \<longleftrightarrow> \<bar>i\<bar> < 2 ^ 31 - 1"

fun elem_code :: "elem \<Rightarrow> bool list" where
  "elem_code (U n v) = nat_bits n v"
| "elem_code (UE k) = ue_code k"
| "elem_code (SE i) = se_code i"

fun elem_val :: "elem \<Rightarrow> int" where
  "elem_val (U n v) = int v"
| "elem_val (UE k) = int k"
| "elem_val (SE i) = i"

text \<open>Reading an element of the same shape; the value of the argument is not used.\<close>

fun read_elem :: "elem \<Rightarrow> int reader" where
  "read_elem (U n v) = do { x \<leftarrow> br_u n; State_Monad.return (uint x) }"
| "read_elem (UE k) = do { x \<leftarrow> br_ue; State_Monad.return (uint x) }"
| "read_elem (SE i) = br_se"

fun read_elems :: "elem list \<Rightarrow> int list reader" where
  "read_elems [] = State_Monad.return []"
| "read_elems (e # es) = do { x \<leftarrow> read_elem e; xs \<leftarrow> read_elems es; State_Monad.return (x # xs) }"

lemma uint_of_small: "k < 2 ^ 32 \<Longrightarrow> uint (of_nat k :: ULONG) = int k"
  by (simp add: uint_nat unat_of_small)

lemma read_elem_code:
  assumes "elem_ok e" "rest br = elem_code e @ bs"
  shows "run_state (read_elem e) br = (elem_val e, skip_bits (length (elem_code e)) br)"
proof (cases e)
  case (U n v)
  have "v < 2 ^ 32" using assms(1) U power_increasing[of n 32 "2 :: nat"] by (auto intro: less_le_trans)
  then show ?thesis using assms U br_u_rest[of n br] uint_of_small[of v]
    by (simp add: bits_val_nat_bits)
next
  case (UE k)
  then show ?thesis using assms br_ue_code[of br k bs] uint_of_small[of k] by simp
next
  case (SE i)
  then show ?thesis using assms br_se_code[of br i bs] by simp
qed

lemma read_elems_code:
  "list_all elem_ok es \<Longrightarrow> rest br = concat (map elem_code es) @ bs \<Longrightarrow>
   run_state (read_elems es) br = (map elem_val es, skip_bits (length (concat (map elem_code es))) br)"
proof (induction es arbitrary: br)
  case (Cons e es)
  have e: "run_state (read_elem e) br = (elem_val e, skip_bits (length (elem_code e)) br)"
    by (rule read_elem_code[of _ _ "concat (map elem_code es) @ bs"]) (use Cons.prems in simp_all)
  have "rest (skip_bits (length (elem_code e)) br) = concat (map elem_code es) @ bs" using Cons.prems(2) by simp
  then show ?case using Cons.IH[of "skip_bits (length (elem_code e)) br"] Cons.prems(1) e
    by simp
qed simp

text \<open>
  C29: the readers invert the codes of the standard: if the data starts with the code words of any fields of up to 32 bits,
  unsigned and signed Exp-Golomb codes, reading elements of these shapes returns their values, stops right behind the last code
  word and latches no failure, whatever follows.
\<close>

theorem syntax_roundtrip:
  assumes "list_all elem_ok es" "bits_of d = concat (map elem_code es) @ trailing"
  shows "run_state (read_elems es) (br_init d) =
     (map elem_val es, \<lparr>br_data = d, bit_pos = length (concat (map elem_code es)), br_fail = False\<rparr>)"
proof -
  have "rest (br_init d) = concat (map elem_code es) @ trailing" using assms(2) by (simp add: rest_def br_init_def)
  from read_elems_code[OF assms(1) this] show ?thesis by (simp add: skip_bits_def br_init_def)
qed

theorem syntax_roundtrip_witness:
  "run_state (read_elems [U 8 100, UE 4, SE (-1), UE 0]) (br_init [100, 43, 192]) =
     ([100, 4, -1, 0], \<lparr>br_data = [100, 43, 192], bit_pos = 17, br_fail = False\<rparr>)"
proof -
  have ok: "list_all elem_ok [U 8 100, UE 4, SE (-1), UE 0]" by simp
  have bits: "bits_of [100, 43, 192] = concat (map elem_code [U 8 100, UE 4, SE (-1), UE 0]) @ [True, False, False, False, False, False, False]"
    by code_simp
  have len: "length (concat (map elem_code [U 8 100, UE 4, SE (-1), UE 0])) = 17" by code_simp
  show ?thesis using syntax_roundtrip[OF ok bits] unfolding len by simp
qed

section \<open>NAL payloads\<close>

text \<open>
  The start-code search of the parser, which also accepts the four-byte form: the offset behind the start code and the offset
  of the start code, both the length of the buffer if there is none.
\<close>

function pg_find_start_code :: "uint8 list \<Rightarrow> nat \<Rightarrow> nat \<times> nat" where
  "pg_find_start_code buf i =
     (if i + 3 \<le> length buf
      then if buf ! i = 0 \<and> buf ! (i + 1) = 0 \<and> buf ! (i + 2) = 1 then (i + 3, i)
           else if buf ! i = 0 \<and> buf ! (i + 1) = 0 \<and> i + 3 < length buf \<and> buf ! (i + 2) = 0 \<and> buf ! (i + 3) = 1 then (i + 4, i)
           else pg_find_start_code buf (Suc i)
      else (length buf, length buf))"
  by pat_completeness auto
termination by (relation "measure (\<lambda>(buf, i). length buf - i)") auto

declare pg_find_start_code.simps [simp del]

lemma pg_find_bounds:
  "pg_find_start_code buf i = (n, sc) \<Longrightarrow> i \<le> length buf \<Longrightarrow> n \<le> length buf \<and> sc \<le> n \<and> i \<le> sc \<and> (n < length buf \<longrightarrow> sc + 3 \<le> n)"
proof (induction buf i rule: pg_find_start_code.induct)
  case (1 buf i)
  show ?case using 1(1) 1(2)[unfolded pg_find_start_code.simps[of buf i]] 1(3) by (auto split: if_splits)
qed

text \<open>Removal of emulation prevention bytes into a buffer with \<open>room\<close> bytes; None is a buffer that is too small.\<close>

fun ebsp_loop :: "nat \<Rightarrow> nat \<Rightarrow> uint8 list \<Rightarrow> uint8 list option" where
  "ebsp_loop zeros room [] = Some []"
| "ebsp_loop zeros room (b # bs) =
     (if zeros \<ge> 2 \<and> b = 3 then ebsp_loop 0 room bs
      else if room = 0 then None
      else map_option (Cons b) (ebsp_loop (if b = 0 then Suc zeros else 0) (room - 1) bs))"

definition ebsp_to_rbsp :: "uint8 list \<Rightarrow> nat \<Rightarrow> uint8 list" where
  "ebsp_to_rbsp src dst_cap = (case ebsp_loop 0 dst_cap src of None \<Rightarrow> [] | Some r \<Rightarrow> r)"

lemma ebsp_loop_length: "ebsp_loop z room src = Some r \<Longrightarrow> length r \<le> length src \<and> length r \<le> room"
proof (induction z room src arbitrary: r rule: ebsp_loop.induct)
  case (2 z room b bs)
  show ?case
  proof (cases "z \<ge> 2 \<and> b = 3")
    case True
    then show ?thesis using 2(1)[OF True] 2(3) by fastforce
  next
    case False
    then obtain q where "ebsp_loop (if b = 0 then Suc z else 0) (room - 1) bs = Some q" "r = b # q" "room \<noteq> 0"
      using 2(3) by (auto split: if_splits)
    then show ?thesis using 2(2)[OF False] by fastforce
  qed
qed simp

lemma ebsp_loop_total: "length src \<le> room \<Longrightarrow> ebsp_loop z room src \<noteq> None"
  by (induction z room src rule: ebsp_loop.induct) auto

lemma ebsp_loop_mono: "ebsp_loop z room src = Some r \<Longrightarrow> room \<le> room' \<Longrightarrow> ebsp_loop z room' src = Some r"
proof (induction z room src arbitrary: r room' rule: ebsp_loop.induct)
  case (2 z room b bs)
  show ?case
  proof (cases "z \<ge> 2 \<and> b = 3")
    case True
    then have "ebsp_loop 0 room bs = Some r" using 2(3) by simp
    from 2(1)[OF True this 2(4)] True show ?thesis by simp
  next
    case False
    then obtain q where q: "ebsp_loop (if b = 0 then Suc z else 0) (room - 1) bs = Some q" "r = b # q" "room \<noteq> 0"
      using 2(3) by (auto split: if_splits)
    have n: "ebsp_loop (if b = 0 then Suc z else 0) (room' - 1) bs = Some q"
      by (rule 2(2)[OF False q(3) q(1)]) (rule diff_le_mono[OF 2(4)])
    have "room' \<noteq> 0" using q(3) 2(4) by linarith
    then show ?thesis unfolding ebsp_loop.simps(2) if_not_P[OF False] n q(2) by simp
  qed
qed simp

text \<open>Emulation prevention as the standard defines it, on the side of the encoder.\<close>

fun escape :: "nat \<Rightarrow> uint8 list \<Rightarrow> uint8 list" where
  "escape zeros [] = []"
| "escape zeros (b # bs) =
     (if zeros \<ge> 2 \<and> b \<le> 3 then 3 # b # escape (if b = 0 then 1 else 0) bs
      else b # escape (if b = 0 then Suc zeros else 0) bs)"

lemma ebsp_escape: "length r \<le> room \<Longrightarrow> ebsp_loop z room (escape z r) = Some r"
proof (induction z r arbitrary: room rule: escape.induct)
  case (2 z b bs)
  show ?case
  proof (cases "z \<ge> 2 \<and> b \<le> 3")
    case True
    then show ?thesis using 2(1)[OF True, of "room - 1"] 2(3) by auto
  next
    case False
    then have "\<not> (z \<ge> 2 \<and> b = 3)" by auto
    then show ?thesis using False 2(2)[OF False, of "room - 1"] 2(3) by auto
  qed
qed simp

text \<open>Escaped data never holds two zeros followed by a byte below 3, so it holds no start code.\<close>

fun no_code :: "nat \<Rightarrow> uint8 list \<Rightarrow> bool" where
  "no_code zeros [] = True"
| "no_code zeros (b # bs) = ((zeros \<ge> 2 \<longrightarrow> 3 \<le> b) \<and> no_code (if b = 0 then Suc zeros else 0) bs)"

lemma escape_no_code: "no_code z (escape z r)"
  by (induction z r rule: escape.induct) auto

lemma no_code_nth: "no_code z xs \<Longrightarrow> Suc (Suc i) < length xs \<Longrightarrow> xs ! i = 0 \<Longrightarrow> xs ! Suc i = 0 \<Longrightarrow> 3 \<le> xs ! Suc (Suc i)"
proof (induction xs arbitrary: z i)
  case (Cons a xs)
  show ?case
  proof (cases i)
    case 0
    then obtain b c ys where "xs = b # c # ys" using Cons.prems(2) by (cases xs; cases "tl xs") auto
    then show ?thesis using Cons.prems 0 by simp
  next
    case (Suc j)
    then show ?thesis using Cons.IH[of "if a = 0 then Suc z else 0" j] Cons.prems by simp
  qed
qed simp

lemma pg_find_none:
  "(\<And>j. i \<le> j \<Longrightarrow> Suc (Suc j) < length xs \<Longrightarrow> xs ! j = 0 \<Longrightarrow> xs ! Suc j = 0 \<Longrightarrow> 3 \<le> xs ! Suc (Suc j)) \<Longrightarrow>
   pg_find_start_code xs i = (length xs, length xs)"
proof (induction xs i rule: pg_find_start_code.induct)
  case (1 buf i)
  have here: "i + 3 \<le> length buf \<Longrightarrow> buf ! i = 0 \<Longrightarrow> buf ! (i + 1) = 0 \<Longrightarrow> 3 \<le> buf ! (i + 2)"
    using 1(2)[of i] by (simp add: eval_nat_numeral)
  have c: "\<not> 3 \<le> (1 :: uint8)" "\<not> 3 \<le> (0 :: uint8)" by code_simp+
  have "i + 3 \<le> length buf \<Longrightarrow> \<not> (buf ! i = 0 \<and> buf ! (i + 1) = 0 \<and> buf ! (i + 2) = 1)"
    "i + 3 \<le> length buf \<Longrightarrow> \<not> (buf ! i = 0 \<and> buf ! (i + 1) = 0 \<and> i + 3 < length buf \<and> buf ! (i + 2) = 0 \<and> buf ! (i + 3) = 1)"
    using here c by metis+
  then show ?case using 1 by (subst pg_find_start_code.simps) auto
qed

text \<open>
  C30: whatever bytes a parameter set or slice has, escaping them as the standard asks gives a NAL payload in which the parser's
  start-code search finds nothing, and from which the removal of emulation prevention recovers exactly these bytes, in any buffer
  that holds them; a buffer that is too small is reported as an empty payload.
\<close>

theorem emulation_prevention_roundtrip:
  "pg_find_start_code (escape 0 r) 0 = (length (escape 0 r), length (escape 0 r)) \<and>
   ebsp_to_rbsp (escape 0 r) cap = (if length r \<le> cap then r else [])"
proof
  show "pg_find_start_code (escape 0 r) 0 = (length (escape 0 r), length (escape 0 r))"
    by (rule pg_find_none) (rule no_code_nth[OF escape_no_code])
  have "ebsp_loop 0 cap (escape 0 r) = None" if "\<not> length r \<le> cap"
  proof (rule ccontr)
    assume "ebsp_loop 0 cap (escape 0 r) \<noteq> None"
    then obtain q where q: "ebsp_loop 0 cap (escape 0 r) = Some q" by auto
    from ebsp_loop_mono[OF q, of "length r"] that have "ebsp_loop 0 (length r) (escape 0 r) = Some q" by simp
    then show False using ebsp_escape[of r "length r" 0] ebsp_loop_length[OF q] that by simp
  qed
  then show "ebsp_to_rbsp (escape 0 r) cap = (if length r \<le> cap then r else [])"
    by (simp add: ebsp_to_rbsp_def ebsp_escape)
qed

end
