(* ===== verification/H264_Syntax.thy ===== *)
theory H264_Syntax
  imports Bit_Reader
begin

text \<open>
  The H.264 parameter sets of \<^verbatim>\<open>mft/parser_glue.cpp\<close>: scaling lists, hypothetical reference decoder and usability information,
  sequence and picture parameter sets, as state transformers over the bit reader. Assignments to the output structure are updates
  of a record that is returned on every path, so the contents left behind by a refused set are part of the model.
\<close>

section \<open>Control structures\<close>

record v4l2_ctrl_h264_sps =
  profile_idc :: uint8
  constraint_set_flags :: uint8
  level_idc :: uint8
  sps_seq_id :: uint8
  chroma_format_idc :: uint8
  bit_depth_luma_minus8 :: uint8
  bit_depth_chroma_minus8 :: uint8
  sps_log2_max_frame_num_minus4 :: uint8
  pic_order_cnt_type :: uint8
  log2_max_pic_order_cnt_lsb_minus4 :: uint8
  sps_num_ref_frames :: uint8
  num_ref_frames_in_pic_order_cnt_cycle :: uint8
  offset_for_ref_frame :: "int list"
  offset_for_non_ref_pic :: int
  offset_for_top_to_bottom_field :: int
  sps_width_mbs :: uint16
  sps_height_map_units :: uint16
  sps_flags :: ULONG

definition zero_sps :: v4l2_ctrl_h264_sps where
  "zero_sps = \<lparr>profile_idc = 0, constraint_set_flags = 0, level_idc = 0, sps_seq_id = 0, chroma_format_idc = 0,
     bit_depth_luma_minus8 = 0, bit_depth_chroma_minus8 = 0, sps_log2_max_frame_num_minus4 = 0, pic_order_cnt_type = 0,
     log2_max_pic_order_cnt_lsb_minus4 = 0, sps_num_ref_frames = 0, num_ref_frames_in_pic_order_cnt_cycle = 0,
     offset_for_ref_frame = replicate 255 0, offset_for_non_ref_pic = 0, offset_for_top_to_bottom_field = 0,
     sps_width_mbs = 0, sps_height_map_units = 0, sps_flags = 0\<rparr>"

record v4l2_ctrl_h264_pps =
  pps_pic_id :: uint8
  pps_seq_id :: uint8
  num_slice_groups_minus1 :: uint8
  num_ref_idx_l0_default_active_minus1 :: uint8
  num_ref_idx_l1_default_active_minus1 :: uint8
  weighted_bipred_idc :: uint8
  pic_init_qp_minus26 :: int
  pic_init_qs_minus26 :: int
  chroma_qp_index_offset :: int
  second_chroma_qp_index_offset :: int
  pps_flags :: uint16

definition zero_pps :: v4l2_ctrl_h264_pps where
  "zero_pps = \<lparr>pps_pic_id = 0, pps_seq_id = 0, num_slice_groups_minus1 = 0, num_ref_idx_l0_default_active_minus1 = 0,
     num_ref_idx_l1_default_active_minus1 = 0, weighted_bipred_idc = 0, pic_init_qp_minus26 = 0, pic_init_qs_minus26 = 0,
     chroma_qp_index_offset = 0, second_chroma_qp_index_offset = 0, pps_flags = 0\<rparr>"

record v4l2_ctrl_h264_scaling_matrix =
  scaling_list_4x4 :: "uint8 list list"
  scaling_list_8x8 :: "uint8 list list"

definition zero_sm :: v4l2_ctrl_h264_scaling_matrix where
  "zero_sm = \<lparr>scaling_list_4x4 = replicate 6 (replicate 16 0), scaling_list_8x8 = replicate 6 (replicate 64 0)\<rparr>"

datatype H264ParseStatus = H264_PARSE_OK | H264_PARSE_NEED_MORE | H264_PARSE_INVALID | H264_PARSE_UNSUPPORTED

abbreviation V4L2_H264_SPS_FLAG_SEPARATE_COLOUR_PLANE :: ULONG where "V4L2_H264_SPS_FLAG_SEPARATE_COLOUR_PLANE \<equiv> 0x01"
abbreviation V4L2_H264_SPS_FLAG_QPPRIME_Y_ZERO_TRANSFORM_BYPASS :: ULONG where "V4L2_H264_SPS_FLAG_QPPRIME_Y_ZERO_TRANSFORM_BYPASS \<equiv> 0x02"
abbreviation V4L2_H264_SPS_FLAG_DELTA_PIC_ORDER_ALWAYS_ZERO :: ULONG where "V4L2_H264_SPS_FLAG_DELTA_PIC_ORDER_ALWAYS_ZERO \<equiv> 0x04"
abbreviation V4L2_H264_SPS_FLAG_GAPS_IN_FRAME_NUM_VALUE_ALLOWED :: ULONG where "V4L2_H264_SPS_FLAG_GAPS_IN_FRAME_NUM_VALUE_ALLOWED \<equiv> 0x08"
abbreviation V4L2_H264_SPS_FLAG_FRAME_MBS_ONLY :: ULONG where "V4L2_H264_SPS_FLAG_FRAME_MBS_ONLY \<equiv> 0x10"
abbreviation V4L2_H264_SPS_FLAG_MB_ADAPTIVE_FRAME_FIELD :: ULONG where "V4L2_H264_SPS_FLAG_MB_ADAPTIVE_FRAME_FIELD \<equiv> 0x20"
abbreviation V4L2_H264_SPS_FLAG_DIRECT_8X8_INFERENCE :: ULONG where "V4L2_H264_SPS_FLAG_DIRECT_8X8_INFERENCE \<equiv> 0x40"

abbreviation V4L2_H264_PPS_FLAG_ENTROPY_CODING_MODE :: uint16 where "V4L2_H264_PPS_FLAG_ENTROPY_CODING_MODE \<equiv> 0x01"
abbreviation V4L2_H264_PPS_FLAG_BOTTOM_FIELD_PIC_ORDER :: uint16 where "V4L2_H264_PPS_FLAG_BOTTOM_FIELD_PIC_ORDER \<equiv> 0x02"
abbreviation V4L2_H264_PPS_FLAG_WEIGHTED_PRED :: uint16 where "V4L2_H264_PPS_FLAG_WEIGHTED_PRED \<equiv> 0x04"
abbreviation V4L2_H264_PPS_FLAG_DEBLOCKING_FILTER_CONTROL_PRESENT :: uint16 where "V4L2_H264_PPS_FLAG_DEBLOCKING_FILTER_CONTROL_PRESENT \<equiv> 0x08"
abbreviation V4L2_H264_PPS_FLAG_CONSTRAINED_INTRA_PRED :: uint16 where "V4L2_H264_PPS_FLAG_CONSTRAINED_INTRA_PRED \<equiv> 0x10"
abbreviation V4L2_H264_PPS_FLAG_REDUNDANT_PIC_CNT_PRESENT :: uint16 where "V4L2_H264_PPS_FLAG_REDUNDANT_PIC_CNT_PRESENT \<equiv> 0x20"
abbreviation V4L2_H264_PPS_FLAG_TRANSFORM_8X8_MODE :: uint16 where "V4L2_H264_PPS_FLAG_TRANSFORM_8X8_MODE \<equiv> 0x40"
abbreviation V4L2_H264_PPS_FLAG_SCALING_MATRIX_PRESENT :: uint16 where "V4L2_H264_PPS_FLAG_SCALING_MATRIX_PRESENT \<equiv> 0x80"

text \<open>Setting a flag when a bit was read, and the casts to the narrow signed types.\<close>

definition flag_if :: "bool \<Rightarrow> 'a :: len word \<Rightarrow> 'a word" where
  "flag_if b f = (if b then f else 0)"

definition int8 :: "int \<Rightarrow> int" where
  "int8 i = sint (word_of_int i :: uint8)"

section \<open>Scaling lists\<close>

definition kH264ZigZag4x4 :: "nat list" where
  "kH264ZigZag4x4 = [0, 1, 4, 8, 5, 2, 3, 6, 9, 12, 13, 10, 7, 11, 14, 15]"

definition kH264ZigZag8x8 :: "nat list" where
  "kH264ZigZag8x8 =
     [0, 1, 8, 16, 9, 2, 3, 10,
      17, 24, 32, 25, 18, 11, 4, 5,
      12, 19, 26, 33, 40, 48, 41, 34,
      27, 20, 13, 6, 7, 14, 21, 28,
      35, 42, 49, 56, 57, 50, 43, 36,
      29, 22, 15, 23, 30, 37, 44, 51,
      58, 59, 52, 45, 38, 31, 39, 46,
      53, 60, 61, 54, 47, 55, 62, 63]"

definition kH264Default4x4Intra :: "uint8 list" where
  "kH264Default4x4Intra = [6, 13, 13, 20, 20, 20, 28, 28, 28, 28, 32, 32, 32, 36, 36, 42]"

definition kH264Default4x4Inter :: "uint8 list" where
  "kH264Default4x4Inter = [10, 14, 14, 20, 20, 20, 24, 24, 24, 24, 27, 27, 27, 30, 30, 34]"

definition kH264Default8x8Intra :: "uint8 list" where
  "kH264Default8x8Intra =
     [6, 10, 13, 16, 18, 23, 25, 27,
      10, 11, 16, 18, 23, 25, 27, 29,
      13, 16, 18, 23, 25, 27, 29, 31,
      16, 18, 23, 25, 27, 29, 31, 33,
      18, 23, 25, 27, 29, 31, 33, 36,
      23, 25, 27, 29, 31, 33, 36, 38,
      25, 27, 29, 31, 33, 36, 38, 40,
      27, 29, 31, 33, 36, 38, 40, 42]"

definition kH264Default8x8Inter :: "uint8 list" where
  "kH264Default8x8Inter =
     [9, 13, 15, 17, 19, 21, 22, 24,
      13, 13, 17, 19, 21, 22, 24, 25,
      15, 17, 19, 21, 22, 24, 25, 27,
      17, 19, 21, 22, 24, 25, 27, 28,
      19, 21, 22, 24, 25, 27, 28, 30,
      21, 22, 24, 25, 27, 28, 30, 32,
      22, 24, 25, 27, 28, 30, 32, 33,
      24, 25, 27, 28, 30, 32, 33, 35]"

text \<open>
  The loop over the scan positions that are left. \<open>first\<close> is the test for the first position; the result says whether the list
  asks for the default. The sum in front of the mask is taken modulo 256 directly, which does not depend on its width.
\<close>

fun scaling_loop :: "nat list \<Rightarrow> bool \<Rightarrow> int \<Rightarrow> int \<Rightarrow> int \<Rightarrow> uint8 list \<Rightarrow> (uint8 list \<times> bool) reader" where
  "scaling_loop [] first last_scale next_scale last_value lst = State_Monad.return (lst, False)"
| "scaling_loop (z # zz) first last_scale next_scale last_value lst = do {
     nxt \<leftarrow> (if next_scale \<noteq> 0 then do { delta \<leftarrow> br_se; State_Monad.return ((last_scale + delta + 256) mod 256) }
             else State_Monad.return next_scale);
     if first \<and> next_scale \<noteq> 0 \<and> nxt = 0 then State_Monad.return (lst, True)
     else let v = (if nxt = 0 then last_value else nxt)
          in scaling_loop zz False (if nxt = 0 then last_scale else nxt) nxt v (lst[z := word_of_int v])
   }"

definition parse_scaling_list :: "uint8 list \<Rightarrow> nat \<Rightarrow> (uint8 list \<times> bool) reader" where
  "parse_scaling_list lst n = scaling_loop (if n = 16 then kH264ZigZag4x4 else kH264ZigZag8x8) True 8 8 8 lst"

text \<open>One list of a matrix: six of 4x4, then the 8x8 ones.\<close>

definition parse_matrix_list :: "nat \<Rightarrow> v4l2_ctrl_h264_scaling_matrix \<Rightarrow> (v4l2_ctrl_h264_scaling_matrix \<times> bool) reader" where
  "parse_matrix_list i sm =
     (if i < 6
      then do { (l, d) \<leftarrow> parse_scaling_list (scaling_list_4x4 sm ! i) 16;
                State_Monad.return (sm\<lparr>scaling_list_4x4 := (scaling_list_4x4 sm)[i := l]\<rparr>, d) }
      else do { (l, d) \<leftarrow> parse_scaling_list (scaling_list_8x8 sm ! (i - 6)) 64;
                State_Monad.return (sm\<lparr>scaling_list_8x8 := (scaling_list_8x8 sm)[i - 6 := l]\<rparr>, d) })"

section \<open>Usability information\<close>

fun rep :: "nat \<Rightarrow> unit reader \<Rightarrow> unit reader" where
  "rep 0 m = State_Monad.return ()"
| "rep (Suc n) m = do { m; rep n m }"

definition hrd_entry :: "unit reader" where
  "hrd_entry = do { br_ue; br_ue; br_u1; State_Monad.return () }"

definition parse_hrd_parameters :: "unit reader" where
  "parse_hrd_parameters = do {
     c \<leftarrow> br_ue;
     br_u 4;
     br_u 4;
     rep (Suc (if c > 31 then 31 else unat c)) hrd_entry;
     br_u 5; br_u 5; br_u 5; br_u 5;
     State_Monad.return ()
   }"

record vui_colour =
  has_vui_colour :: bool
  vui_full_range_flag :: bool
  has_vui_colour_desc :: bool
  vui_colour_primaries :: uint8
  vui_transfer_characteristics :: uint8
  vui_matrix_coefficients :: uint8

text \<open>A block that is read only if its presence bit is set.\<close>

definition when_bit :: "unit reader \<Rightarrow> unit reader" where
  "when_bit m = do { b \<leftarrow> br_u1; if b then m else State_Monad.return () }"

definition vui_aspect :: "unit reader" where
  "vui_aspect = when_bit (do { idc \<leftarrow> br_u 8; if idc = 255 then do { br_u 16; br_u 16; State_Monad.return () } else State_Monad.return () })"

definition vui_signal :: "vui_colour \<Rightarrow> vui_colour reader" where
  "vui_signal c = do {
     b \<leftarrow> br_u1;
     if \<not> b then State_Monad.return c
     else do {
       br_u 3;
       full \<leftarrow> br_u1;
       let c1 = c\<lparr>has_vui_colour := True, vui_full_range_flag := full\<rparr>;
       desc \<leftarrow> br_u1;
       if \<not> desc then State_Monad.return c1
       else do {
         cp \<leftarrow> br_u 8;
         tc \<leftarrow> br_u 8;
         mc \<leftarrow> br_u 8;
         State_Monad.return (c1\<lparr>has_vui_colour_desc := True, vui_colour_primaries := ucast cp,
           vui_transfer_characteristics := ucast tc, vui_matrix_coefficients := ucast mc\<rparr>)
       }
     }
   }"

definition vui_hrds :: "unit reader" where
  "vui_hrds = do {
     nal_hrd \<leftarrow> br_u1;
     (if nal_hrd then parse_hrd_parameters else State_Monad.return ());
     vcl_hrd \<leftarrow> br_u1;
     (if vcl_hrd then parse_hrd_parameters else State_Monad.return ());
     if nal_hrd \<or> vcl_hrd then do { br_u1; State_Monad.return () } else State_Monad.return ()
   }"

definition vui_restriction :: "(bool \<times> uint8) reader" where
  "vui_restriction = do {
     b \<leftarrow> br_u1;
     if \<not> b then State_Monad.return (False, 0)
     else do {
       br_u1;
       br_ue; br_ue; br_ue; br_ue;
       mr \<leftarrow> br_ue;
       br_ue;
       State_Monad.return (True, ucast (if mr > 16 then 16 else mr))
     }
   }"

definition parse_vui_parameters :: "vui_colour \<Rightarrow> ((bool \<times> uint8) \<times> vui_colour) reader" where
  "parse_vui_parameters c = do {
     vui_aspect;
     when_bit (do { br_u1; State_Monad.return () });
     c1 \<leftarrow> vui_signal c;
     when_bit (do { br_ue; br_ue; State_Monad.return () });
     when_bit (do { br_u 32; br_u 32; br_u1; State_Monad.return () });
     vui_hrds;
     br_u1;
     r \<leftarrow> vui_restriction;
     State_Monad.return (r, c1)
   }"

section \<open>Sequence parameter set\<close>

text \<open>Everything \<^verbatim>\<open>parse_sps\<close> writes through its pointers.\<close>

record sps_out =
  o_sps :: v4l2_ctrl_h264_sps
  o_has_reorder :: bool
  o_max_reorder :: uint8
  o_sm :: v4l2_ctrl_h264_scaling_matrix
  o_has_sm :: bool
  o_colour :: vui_colour

definition high_profile :: "uint8 \<Rightarrow> bool" where
  "high_profile p \<longleftrightarrow> p = 100 \<or> p = 110 \<or> p = 122 \<or> p = 244 \<or> p = 44 \<or> p = 83 \<or> p = 86 \<or> p = 118 \<or> p = 128 \<or> p = 138 \<or>
     p = 139 \<or> p = 134 \<or> p = 135"

definition sps_ids :: "v4l2_ctrl_h264_sps reader" where
  "sps_ids = do {
     p \<leftarrow> br_u 8;
     c \<leftarrow> br_u 8;
     l \<leftarrow> br_u 8;
     i \<leftarrow> br_ue;
     State_Monad.return (zero_sps\<lparr>profile_idc := ucast p, constraint_set_flags := ucast c, level_idc := ucast l, sps_seq_id := ucast i\<rparr>)
   }"

fun sps_lists :: "nat list \<Rightarrow> v4l2_ctrl_h264_scaling_matrix \<Rightarrow> v4l2_ctrl_h264_scaling_matrix reader" where
  "sps_lists [] sm = State_Monad.return sm"
| "sps_lists (i # is) sm = do {
     b \<leftarrow> br_u1;
     sm1 \<leftarrow> (if b then do { (sm', d) \<leftarrow> parse_matrix_list i sm; State_Monad.return sm' } else State_Monad.return sm);
     sps_lists is sm1
   }"

definition sps_fidelity :: "v4l2_ctrl_h264_sps \<Rightarrow> (v4l2_ctrl_h264_sps \<times> bool \<times> v4l2_ctrl_h264_scaling_matrix) reader" where
  "sps_fidelity sps =
     (if high_profile (profile_idc sps) then do {
        c \<leftarrow> br_ue;
        let cfi = ucast c;
        sep \<leftarrow> (if cfi = (3 :: uint8) then br_u1 else State_Monad.return False);
        luma \<leftarrow> br_ue;
        chroma \<leftarrow> br_ue;
        bypass \<leftarrow> br_u1;
        present \<leftarrow> br_u1;
        sm \<leftarrow> (if present then sps_lists [0..<(if cfi = 3 then 12 else 8)] zero_sm else State_Monad.return zero_sm);
        State_Monad.return (sps\<lparr>chroma_format_idc := cfi, bit_depth_luma_minus8 := ucast luma, bit_depth_chroma_minus8 := ucast chroma,
          sps_flags := sps_flags sps OR flag_if sep V4L2_H264_SPS_FLAG_SEPARATE_COLOUR_PLANE
            OR flag_if bypass V4L2_H264_SPS_FLAG_QPPRIME_Y_ZERO_TRANSFORM_BYPASS\<rparr>, present, sm)
      }
      else State_Monad.return (sps\<lparr>chroma_format_idc := 1, bit_depth_luma_minus8 := 0, bit_depth_chroma_minus8 := 0\<rparr>, False, zero_sm))"

fun read_offsets :: "nat list \<Rightarrow> int list \<Rightarrow> int list reader" where
  "read_offsets [] xs = State_Monad.return xs"
| "read_offsets (i # is) xs = do { x \<leftarrow> br_se; read_offsets is (xs[i := x]) }"

definition sps_order :: "v4l2_ctrl_h264_sps \<Rightarrow> v4l2_ctrl_h264_sps reader" where
  "sps_order sps = do {
     f \<leftarrow> br_ue;
     t \<leftarrow> br_ue;
     let sps1 = sps\<lparr>sps_log2_max_frame_num_minus4 := ucast f, pic_order_cnt_type := ucast t\<rparr>;
     if pic_order_cnt_type sps1 = 0 then do { l \<leftarrow> br_ue; State_Monad.return (sps1\<lparr>log2_max_pic_order_cnt_lsb_minus4 := ucast l\<rparr>) }
     else if pic_order_cnt_type sps1 = 1 then do {
       z \<leftarrow> br_u1;
       a \<leftarrow> br_se;
       b \<leftarrow> br_se;
       n \<leftarrow> br_ue;
       let k = (ucast n :: uint8);
       xs \<leftarrow> read_offsets [0..<min (unat k) 255] (offset_for_ref_frame sps1);
       State_Monad.return (sps1\<lparr>sps_flags := sps_flags sps1 OR flag_if z V4L2_H264_SPS_FLAG_DELTA_PIC_ORDER_ALWAYS_ZERO,
         offset_for_non_ref_pic := a, offset_for_top_to_bottom_field := b, num_ref_frames_in_pic_order_cnt_cycle := k,
         offset_for_ref_frame := xs\<rparr>)
     }
     else State_Monad.return sps1
   }"

definition sps_refs :: "v4l2_ctrl_h264_sps \<Rightarrow> v4l2_ctrl_h264_sps reader" where
  "sps_refs sps = do {
     r \<leftarrow> br_ue;
     gaps \<leftarrow> br_u1;
     State_Monad.return (sps\<lparr>sps_num_ref_frames := ucast r,
       sps_flags := sps_flags sps OR flag_if gaps V4L2_H264_SPS_FLAG_GAPS_IN_FRAME_NUM_VALUE_ALLOWED\<rparr>)
   }"

definition sps_coding :: "v4l2_ctrl_h264_sps \<Rightarrow> v4l2_ctrl_h264_sps reader" where
  "sps_coding sps = do {
     only \<leftarrow> br_u1;
     aff \<leftarrow> (if \<not> only then br_u1 else State_Monad.return False);
     d \<leftarrow> br_u1;
     when_bit (do { br_ue; br_ue; br_ue; br_ue; State_Monad.return () });
     State_Monad.return (sps\<lparr>sps_flags := sps_flags sps OR flag_if only V4L2_H264_SPS_FLAG_FRAME_MBS_ONLY
       OR flag_if aff V4L2_H264_SPS_FLAG_MB_ADAPTIVE_FRAME_FIELD OR flag_if d V4L2_H264_SPS_FLAG_DIRECT_8X8_INFERENCE\<rparr>)
   }"

definition sps_vui :: "sps_out \<Rightarrow> sps_out reader" where
  "sps_vui out = do {
     b \<leftarrow> br_u1;
     if \<not> b then State_Monad.return out
     else do {
       (r, c) \<leftarrow> parse_vui_parameters (o_colour out);
       State_Monad.return (out\<lparr>o_has_reorder := fst r, o_max_reorder := snd r, o_colour := c\<rparr>)
     }
   }"

definition br_failed :: "bool reader" where
  "br_failed = State (\<lambda>br. (br_fail br, br))"

abbreviation kMaxMbs :: ULONG where "kMaxMbs \<equiv> 511"

definition parse_sps :: "vui_colour \<Rightarrow> (H264ParseStatus \<times> sps_out) reader" where
  "parse_sps colour = do {
     sps0 \<leftarrow> sps_ids;
     (sps1, has_sm, sm) \<leftarrow> sps_fidelity sps0;
     sps2 \<leftarrow> sps_order sps1;
     sps3 \<leftarrow> sps_refs sps2;
     w_mbs \<leftarrow> br_ue;
     h_mbs \<leftarrow> br_ue;
     let out = \<lparr>o_sps = sps3, o_has_reorder = False, o_max_reorder = 0, o_sm = sm, o_has_sm = has_sm, o_colour = colour\<rparr>;
     if w_mbs > kMaxMbs \<or> h_mbs > kMaxMbs then State_Monad.return (H264_PARSE_INVALID, out)
     else do {
       sps4 \<leftarrow> sps_coding (sps3\<lparr>sps_width_mbs := ucast w_mbs, sps_height_map_units := ucast h_mbs\<rparr>);
       out1 \<leftarrow> sps_vui (out\<lparr>o_sps := sps4\<rparr>);
       bad \<leftarrow> br_failed;
       State_Monad.return (if bad then H264_PARSE_INVALID else H264_PARSE_OK, out1)
     }
   }"

section \<open>Picture parameter set\<close>

text \<open>The lists of the set; the first result says for each list whether it was given with explicit values.\<close>

fun pps_lists :: "nat list \<Rightarrow> v4l2_ctrl_h264_scaling_matrix \<Rightarrow> (bool list \<times> v4l2_ctrl_h264_scaling_matrix) reader" where
  "pps_lists [] sm = State_Monad.return ([], sm)"
| "pps_lists (i # is) sm = do {
     present \<leftarrow> br_u1;
     (sm1, du) \<leftarrow> (if present then parse_matrix_list i sm else State_Monad.return (sm, False));
     (es, sm2) \<leftarrow> pps_lists is sm1;
     State_Monad.return ((present \<and> \<not> du) # es, sm2)
   }"

definition inherit_4x4 :: "nat \<Rightarrow> nat \<Rightarrow> v4l2_ctrl_h264_scaling_matrix \<Rightarrow> v4l2_ctrl_h264_scaling_matrix" where
  "inherit_4x4 dst src sm = sm\<lparr>scaling_list_4x4 := (scaling_list_4x4 sm)[dst := scaling_list_4x4 sm ! src]\<rparr>"

definition fill_default :: "nat \<Rightarrow> v4l2_ctrl_h264_scaling_matrix \<Rightarrow> v4l2_ctrl_h264_scaling_matrix" where
  "fill_default i sm =
     (if i = 0 then sm\<lparr>scaling_list_4x4 := (scaling_list_4x4 sm)[0 := kH264Default4x4Intra]\<rparr>
      else if i = 3 then sm\<lparr>scaling_list_4x4 := (scaling_list_4x4 sm)[3 := kH264Default4x4Inter]\<rparr>
      else if i = 6 then sm\<lparr>scaling_list_8x8 := (scaling_list_8x8 sm)[0 := kH264Default8x8Intra]\<rparr>
      else if i = 7 then sm\<lparr>scaling_list_8x8 := (scaling_list_8x8 sm)[1 := kH264Default8x8Inter]\<rparr>
      else sm)"

definition fall_back :: "nat \<Rightarrow> v4l2_ctrl_h264_scaling_matrix \<Rightarrow> v4l2_ctrl_h264_scaling_matrix" where
  "fall_back i sm = (if i = 1 then inherit_4x4 1 0 sm else if i = 2 then inherit_4x4 2 1 sm
     else if i = 4 then inherit_4x4 4 3 sm else if i = 5 then inherit_4x4 5 4 sm else fill_default i sm)"

definition resolve_lists :: "bool list \<Rightarrow> v4l2_ctrl_h264_scaling_matrix \<Rightarrow> v4l2_ctrl_h264_scaling_matrix" where
  "resolve_lists explicit sm = fold (\<lambda>i sm. if explicit ! i then sm else fall_back i sm) [0..<length explicit] sm"

definition more_rbsp_data :: "bool reader" where
  "more_rbsp_data = State (\<lambda>br. (br_more_rbsp_data br, br))"

record pps_out =
  o_pps :: v4l2_ctrl_h264_pps
  o_matrix :: v4l2_ctrl_h264_scaling_matrix
  o_has_scaling :: bool

definition pps_ids :: "v4l2_ctrl_h264_pps reader" where
  "pps_ids = do {
     p \<leftarrow> br_ue;
     q \<leftarrow> br_ue;
     entropy \<leftarrow> br_u1;
     bottom \<leftarrow> br_u1;
     g \<leftarrow> br_ue;
     State_Monad.return (zero_pps\<lparr>pps_pic_id := ucast p, pps_seq_id := ucast q, num_slice_groups_minus1 := ucast g,
       pps_flags := flag_if entropy V4L2_H264_PPS_FLAG_ENTROPY_CODING_MODE OR flag_if bottom V4L2_H264_PPS_FLAG_BOTTOM_FIELD_PIC_ORDER\<rparr>)
   }"

definition pps_body :: "v4l2_ctrl_h264_pps \<Rightarrow> v4l2_ctrl_h264_pps reader" where
  "pps_body pps = do {
     l0 \<leftarrow> br_ue;
     l1 \<leftarrow> br_ue;
     weighted \<leftarrow> br_u1;
     bipred \<leftarrow> br_u 2;
     qp \<leftarrow> br_se;
     qs \<leftarrow> br_se;
     off \<leftarrow> br_se;
     deblock \<leftarrow> br_u1;
     intra \<leftarrow> br_u1;
     redundant \<leftarrow> br_u1;
     State_Monad.return (pps\<lparr>num_ref_idx_l0_default_active_minus1 := ucast l0, num_ref_idx_l1_default_active_minus1 := ucast l1,
       weighted_bipred_idc := ucast bipred, pic_init_qp_minus26 := int8 qp, pic_init_qs_minus26 := int8 qs,
       chroma_qp_index_offset := int8 off,
       pps_flags := pps_flags pps OR flag_if weighted V4L2_H264_PPS_FLAG_WEIGHTED_PRED
         OR flag_if deblock V4L2_H264_PPS_FLAG_DEBLOCKING_FILTER_CONTROL_PRESENT
         OR flag_if intra V4L2_H264_PPS_FLAG_CONSTRAINED_INTRA_PRED OR flag_if redundant V4L2_H264_PPS_FLAG_REDUNDANT_PIC_CNT_PRESENT\<rparr>)
   }"

definition pps_trailer :: "pps_out \<Rightarrow> pps_out reader" where
  "pps_trailer out = do {
     t8 \<leftarrow> br_u1;
     present \<leftarrow> br_u1;
     let pps = (o_pps out)\<lparr>pps_flags := pps_flags (o_pps out) OR flag_if t8 V4L2_H264_PPS_FLAG_TRANSFORM_8X8_MODE
       OR flag_if present V4L2_H264_PPS_FLAG_SCALING_MATRIX_PRESENT\<rparr>;
     (has, sm) \<leftarrow> (if present
        then do {
          (es, sm1) \<leftarrow> pps_lists [0..<(if pps_flags pps AND V4L2_H264_PPS_FLAG_TRANSFORM_8X8_MODE \<noteq> 0 then 8 else 6)] zero_sm;
          State_Monad.return (True, resolve_lists es sm1)
        }
        else State_Monad.return (o_has_scaling out, o_matrix out));
     more \<leftarrow> more_rbsp_data;
     second \<leftarrow> (if more then do { x \<leftarrow> br_se; State_Monad.return (int8 x) } else State_Monad.return (chroma_qp_index_offset pps));
     State_Monad.return \<lparr>o_pps = pps\<lparr>second_chroma_qp_index_offset := second\<rparr>, o_matrix = sm, o_has_scaling = has\<rparr>
   }"

definition parse_pps :: "v4l2_ctrl_h264_scaling_matrix \<Rightarrow> (H264ParseStatus \<times> pps_out) reader" where
  "parse_pps sm = do {
     pps0 \<leftarrow> pps_ids;
     if num_slice_groups_minus1 pps0 \<noteq> 0
     then State_Monad.return (H264_PARSE_UNSUPPORTED, \<lparr>o_pps = pps0, o_matrix = sm, o_has_scaling = False\<rparr>)
     else do {
       pps1 \<leftarrow> pps_body pps0;
       more \<leftarrow> more_rbsp_data;
       out \<leftarrow> (if more then pps_trailer \<lparr>o_pps = pps1, o_matrix = sm, o_has_scaling = False\<rparr>
               else State_Monad.return \<lparr>o_pps = pps1\<lparr>second_chroma_qp_index_offset := chroma_qp_index_offset pps1\<rparr>,
                      o_matrix = sm, o_has_scaling = False\<rparr>);
       bad \<leftarrow> br_failed;
       State_Monad.return (if bad then H264_PARSE_INVALID else H264_PARSE_OK, out)
     }
   }"

end
