(* ===== verification/H264_Slice.thy ===== *)
theory H264_Slice
  imports H264_Syntax
begin

text \<open>
  The slice header of \<^verbatim>\<open>mft/parser_glue.cpp\<close>: reference list modification and marking commands are collected for the picture
  buffer, the prediction weights are skipped. The fields of the control structures that the parser only zeroes are left out.
\<close>

section \<open>Data\<close>

record v4l2_ctrl_h264_slice_params =
  header_bit_size :: ULONG
  first_mb_in_slice :: ULONG
  slice_type :: uint8
  colour_plane_id :: uint8
  redundant_pic_cnt :: uint8
  num_ref_idx_l0_active_minus1 :: uint8
  num_ref_idx_l1_active_minus1 :: uint8
  slice_flags :: ULONG

definition zero_slice :: v4l2_ctrl_h264_slice_params where
  "zero_slice = \<lparr>header_bit_size = 0, first_mb_in_slice = 0, slice_type = 0, colour_plane_id = 0, redundant_pic_cnt = 0,
     num_ref_idx_l0_active_minus1 = 0, num_ref_idx_l1_active_minus1 = 0, slice_flags = 0\<rparr>"

record v4l2_ctrl_h264_decode_params =
  dp_nal_ref_idc :: uint16
  dp_frame_num :: uint16
  dp_top :: int
  dp_bottom :: int
  idr_pic_id :: uint16
  pic_order_cnt_lsb :: uint16
  delta_pic_order_cnt_bottom :: int
  delta_pic_order_cnt0 :: int
  delta_pic_order_cnt1 :: int
  dp_flags :: ULONG

definition zero_decode :: v4l2_ctrl_h264_decode_params where
  "zero_decode = \<lparr>dp_nal_ref_idc = 0, dp_frame_num = 0, dp_top = 0, dp_bottom = 0, idr_pic_id = 0, pic_order_cnt_lsb = 0,
     delta_pic_order_cnt_bottom = 0, delta_pic_order_cnt0 = 0, delta_pic_order_cnt1 = 0, dp_flags = 0\<rparr>"

abbreviation V4L2_H264_SLICE_TYPE_P :: ULONG where "V4L2_H264_SLICE_TYPE_P \<equiv> 0"
abbreviation V4L2_H264_SLICE_TYPE_B :: ULONG where "V4L2_H264_SLICE_TYPE_B \<equiv> 1"
abbreviation V4L2_H264_SLICE_TYPE_I :: ULONG where "V4L2_H264_SLICE_TYPE_I \<equiv> 2"
abbreviation V4L2_H264_SLICE_TYPE_SP :: ULONG where "V4L2_H264_SLICE_TYPE_SP \<equiv> 3"
abbreviation V4L2_H264_SLICE_TYPE_SI :: ULONG where "V4L2_H264_SLICE_TYPE_SI \<equiv> 4"
abbreviation V4L2_H264_SLICE_FLAG_DIRECT_SPATIAL_MV_PRED :: ULONG where "V4L2_H264_SLICE_FLAG_DIRECT_SPATIAL_MV_PRED \<equiv> 0x01"
abbreviation V4L2_H264_DECODE_PARAM_FLAG_IDR_PIC :: ULONG where "V4L2_H264_DECODE_PARAM_FLAG_IDR_PIC \<equiv> 0x01"
abbreviation V4L2_H264_DECODE_PARAM_FLAG_FIELD_PIC :: ULONG where "V4L2_H264_DECODE_PARAM_FLAG_FIELD_PIC \<equiv> 0x02"
abbreviation V4L2_H264_DECODE_PARAM_FLAG_BOTTOM_FIELD :: ULONG where "V4L2_H264_DECODE_PARAM_FLAG_BOTTOM_FIELD \<equiv> 0x04"
abbreviation H264_MAX_MMCO_OPS :: nat where "H264_MAX_MMCO_OPS \<equiv> 16"

record H264RplmOp =
  rplm_op :: uint8
  rplm_value :: ULONG

text \<open>The per-unit part of the parse result that the slice header fills; the counted arrays are lists.\<close>

record h264_marks =
  mk_adaptive :: bool
  mk_no_output_of_prior_pics :: bool
  mk_long_term_reference :: bool
  mk_mmco :: "H264Mmco list"
  mk_mod_l0 :: bool
  mk_mod_l1 :: bool
  rplm_l0 :: "H264RplmOp list"
  rplm_l1 :: "H264RplmOp list"

definition zero_marks :: h264_marks where
  "zero_marks = \<lparr>mk_adaptive = False, mk_no_output_of_prior_pics = False, mk_long_term_reference = False, mk_mmco = [],
     mk_mod_l0 = False, mk_mod_l1 = False, rplm_l0 = [], rplm_l1 = []\<rparr>"

section \<open>Command loops\<close>

text \<open>Both loops end because a code read in front of the end of the data takes at least one bit.\<close>

lemma two_codes_forward:
  assumes "run_state br_ue br = (a, br1)" "run_state br_ue br1 = (b, br2)" "\<not> br_eof br2"
  shows "length (br_data br2) * 8 - bit_pos br2 < length (br_data br) * 8 - bit_pos br"
proof -
  have a: "adv br br1" "adv br1 br2" using assms state_io_relD[OF adv_ue] by blast+
  then have "\<not> br_eof br" using assms(3) adv_eof by blast
  then have "bit_pos br < bit_pos br1" using ue_forward assms(1) by blast
  then show ?thesis using a assms(3) by (auto simp: adv_def br_eof_def)
qed

function rplm_loop :: "H264RplmOp list \<Rightarrow> BitReader \<Rightarrow> H264RplmOp list \<times> BitReader" where
  "rplm_loop ops br =
     (let (mod_op, br1) = run_state br_ue br
      in if mod_op = 3 then (ops, br1)
         else let (val, br2) = run_state br_ue br1;
                  ops1 = (if length ops < 32 then ops @ [\<lparr>rplm_op = ucast mod_op, rplm_value = val\<rparr>] else ops)
              in if br_eof br2 then (ops1, br2) else rplm_loop ops1 br2)"
  by pat_completeness auto

termination
  by (relation "measure (\<lambda>(ops, br). length (br_data br) * 8 - bit_pos br)") (auto intro: two_codes_forward[OF sym sym])

declare rplm_loop.simps [simp del]

definition mmco_operands :: "ULONG \<Rightarrow> H264Mmco reader" where
  "mmco_operands op = do {
     diff \<leftarrow> (if op = 1 \<or> op = 3 then br_ue else State_Monad.return 0);
     ltpn \<leftarrow> (if op = 2 then br_ue else State_Monad.return 0);
     ltfi \<leftarrow> (if op = 3 \<or> op = 6 then br_ue else State_Monad.return 0);
     mx \<leftarrow> (if op = 4 then br_ue else State_Monad.return 0);
     State_Monad.return \<lparr>mmco_op = unat op, difference_of_pic_nums_minus1 = diff, mmco_long_term_pic_num = ltpn,
       mmco_long_term_frame_idx = ltfi, max_long_term_frame_idx_plus1 = mx\<rparr>
   }"

lemma adv_mmco_operands [adv_rules]: "state_io_rel adv (mmco_operands op)"
  unfolding mmco_operands_def by (intro adv_rules)

lemma mmco_forward:
  assumes "run_state br_ue br = (op, br1)" "op \<noteq> 0" "\<not> br_eof br1" "run_state (mmco_operands op) br1 = (m, br2)"
  shows "length (br_data br2) * 8 - bit_pos br2 < length (br_data br) * 8 - bit_pos br"
proof -
  have a: "adv br br1" using assms(1) state_io_relD[OF adv_ue] by blast
  have b: "adv br1 br2" using assms(4) state_io_relD[OF adv_mmco_operands] by blast
  have "\<not> br_eof br" using a assms(3) adv_eof by blast
  then have "bit_pos br < bit_pos br1" using ue_forward assms(1) by blast
  then show ?thesis using a b assms(3) by (auto simp: adv_def br_eof_def)
qed

function mmco_loop :: "H264Mmco list \<Rightarrow> BitReader \<Rightarrow> H264Mmco list \<times> BitReader" where
  "mmco_loop ops br =
     (let (op, br1) = run_state br_ue br
      in if op = 0 then (ops, br1)
         else if op > 6 \<or> br_eof br1 then (ops, br1)
         else let (m, br2) = run_state (mmco_operands op) br1
              in mmco_loop (if length ops < H264_MAX_MMCO_OPS then ops @ [m] else ops) br2)"
  by pat_completeness auto

termination
  by (relation "measure (\<lambda>(ops, br). length (br_data br) * 8 - bit_pos br)") (auto intro: mmco_forward[OF sym _ _ sym])

declare mmco_loop.simps [simp del]

section \<open>Parts of the header\<close>

definition sh_field :: "v4l2_ctrl_h264_sps \<Rightarrow> (bool \<times> bool) reader" where
  "sh_field sps =
     (if sps_flags sps AND V4L2_H264_SPS_FLAG_FRAME_MBS_ONLY = 0
      then do {
        field_pic \<leftarrow> br_u1;
        bottom \<leftarrow> (if field_pic then br_u1 else State_Monad.return False);
        State_Monad.return (field_pic, bottom)
      }
      else State_Monad.return (False, False))"

definition sh_order :: "v4l2_ctrl_h264_sps \<Rightarrow> v4l2_ctrl_h264_pps \<Rightarrow> bool \<Rightarrow> v4l2_ctrl_h264_decode_params \<Rightarrow> v4l2_ctrl_h264_decode_params reader" where
  "sh_order sps pps field_pic decode =
     (let both = pps_flags pps AND V4L2_H264_PPS_FLAG_BOTTOM_FIELD_PIC_ORDER \<noteq> 0 \<and> \<not> field_pic
      in if pic_order_cnt_type sps = 0
         then do {
           lsb \<leftarrow> br_u (unat (log2_max_pic_order_cnt_lsb_minus4 sps) + 4);
           d \<leftarrow> (if both then br_se else State_Monad.return 0);
           State_Monad.return (decode\<lparr>pic_order_cnt_lsb := ucast lsb, delta_pic_order_cnt_bottom := d\<rparr>)
         }
         else if pic_order_cnt_type sps = 1 \<and> sps_flags sps AND V4L2_H264_SPS_FLAG_DELTA_PIC_ORDER_ALWAYS_ZERO = 0
         then do {
           d0 \<leftarrow> br_se;
           d1 \<leftarrow> (if both then br_se else State_Monad.return 0);
           State_Monad.return (decode\<lparr>delta_pic_order_cnt0 := d0, delta_pic_order_cnt1 := d1\<rparr>)
         }
         else State_Monad.return decode)"

definition sh_num_refs :: "ULONG \<Rightarrow> v4l2_ctrl_h264_pps \<Rightarrow> v4l2_ctrl_h264_slice_params \<Rightarrow> v4l2_ctrl_h264_slice_params reader" where
  "sh_num_refs st pps sl = do {
     override \<leftarrow> br_u1;
     if override then do {
       l0 \<leftarrow> br_ue;
       l1 \<leftarrow> (if st = V4L2_H264_SLICE_TYPE_B then do { x \<leftarrow> br_ue; State_Monad.return (ucast x) }
              else State_Monad.return (num_ref_idx_l1_active_minus1 sl));
       State_Monad.return (sl\<lparr>num_ref_idx_l0_active_minus1 := ucast l0, num_ref_idx_l1_active_minus1 := l1\<rparr>)
     }
     else State_Monad.return (sl\<lparr>num_ref_idx_l0_active_minus1 := num_ref_idx_l0_default_active_minus1 pps,
       num_ref_idx_l1_active_minus1 := num_ref_idx_l1_default_active_minus1 pps\<rparr>)
   }"

definition sh_modification :: "H264RplmOp list \<Rightarrow> (bool \<times> H264RplmOp list) reader" where
  "sh_modification ops = do {
     b \<leftarrow> br_u1;
     if b then do { ops1 \<leftarrow> State (rplm_loop ops); State_Monad.return (True, ops1) } else State_Monad.return (False, ops)
   }"

definition sh_refs :: "ULONG \<Rightarrow> v4l2_ctrl_h264_pps \<Rightarrow> v4l2_ctrl_h264_slice_params \<Rightarrow> h264_marks \<Rightarrow>
    (v4l2_ctrl_h264_slice_params \<times> h264_marks) reader" where
  "sh_refs st pps sl mk =
     (if st = V4L2_H264_SLICE_TYPE_P \<or> st = V4L2_H264_SLICE_TYPE_SP \<or> st = V4L2_H264_SLICE_TYPE_B
      then do {
        slice1 \<leftarrow> sh_num_refs st pps sl;
        (m0, ops0) \<leftarrow> sh_modification (rplm_l0 mk);
        let mk1 = mk\<lparr>mk_mod_l0 := m0, rplm_l0 := ops0\<rparr>;
        if st = V4L2_H264_SLICE_TYPE_B
        then do {
          (m1, ops1) \<leftarrow> sh_modification (rplm_l1 mk1);
          State_Monad.return (slice1, mk1\<lparr>mk_mod_l1 := m1, rplm_l1 := ops1\<rparr>)
        }
        else State_Monad.return (slice1, mk1)
      }
      else State_Monad.return (sl, mk))"

definition weight_entry :: "bool \<Rightarrow> unit reader" where
  "weight_entry chroma = do {
     when_bit (do { br_se; br_se; State_Monad.return () });
     if chroma then when_bit (do { br_se; br_se; br_se; br_se; State_Monad.return () }) else State_Monad.return ()
   }"

definition sh_weights :: "ULONG \<Rightarrow> v4l2_ctrl_h264_sps \<Rightarrow> v4l2_ctrl_h264_pps \<Rightarrow> v4l2_ctrl_h264_slice_params \<Rightarrow> unit reader" where
  "sh_weights st sps pps sl =
     (let chroma = chroma_format_idc sps \<noteq> 0
      in if pps_flags pps AND V4L2_H264_PPS_FLAG_WEIGHTED_PRED \<noteq> 0 \<and> (st = V4L2_H264_SLICE_TYPE_P \<or> st = V4L2_H264_SLICE_TYPE_SP) \<or>
           weighted_bipred_idc pps = 1 \<and> st = V4L2_H264_SLICE_TYPE_B
         then do {
           br_ue;
           (if chroma then do { br_ue; State_Monad.return () } else State_Monad.return ());
           rep (unat (num_ref_idx_l0_active_minus1 sl) + 1) (weight_entry chroma);
           if st = V4L2_H264_SLICE_TYPE_B then rep (unat (num_ref_idx_l1_active_minus1 sl) + 1) (weight_entry chroma)
           else State_Monad.return ()
         }
         else State_Monad.return ())"

definition sh_marking :: "uint8 \<Rightarrow> uint8 \<Rightarrow> h264_marks \<Rightarrow> h264_marks reader" where
  "sh_marking ref_idc nal_type mk =
     (if ref_idc \<noteq> 0
      then if nal_type = 5
           then do {
             a \<leftarrow> br_u1;
             b \<leftarrow> br_u1;
             State_Monad.return (mk\<lparr>mk_no_output_of_prior_pics := a, mk_long_term_reference := b\<rparr>)
           }
           else do {
             adaptive \<leftarrow> br_u1;
             ops \<leftarrow> (if adaptive then State (mmco_loop (mk_mmco mk)) else State_Monad.return (mk_mmco mk));
             State_Monad.return (mk\<lparr>mk_adaptive := adaptive, mk_mmco := ops\<rparr>)
           }
      else State_Monad.return mk)"

section \<open>The header\<close>

record slice_out =
  so_slice :: v4l2_ctrl_h264_slice_params
  so_decode :: v4l2_ctrl_h264_decode_params
  so_marks :: h264_marks

definition parse_slice_header :: "uint8 \<Rightarrow> uint8 \<Rightarrow> v4l2_ctrl_h264_sps \<Rightarrow> v4l2_ctrl_h264_pps \<Rightarrow> h264_marks \<Rightarrow>
    (H264ParseStatus \<times> slice_out) reader" where
  "parse_slice_header ref_idc nal_type sps pps mk = do {
     first_mb \<leftarrow> br_ue;
     t \<leftarrow> br_ue;
     let st = (if t \<ge> 5 then t - 5 else t);
     let slice0 = zero_slice\<lparr>first_mb_in_slice := first_mb\<rparr>;
     let decode0 = zero_decode\<lparr>dp_nal_ref_idc := ucast ref_idc\<rparr>;
     if st > 4 then State_Monad.return (H264_PARSE_INVALID, \<lparr>so_slice = slice0, so_decode = decode0, so_marks = mk\<rparr>)
     else do {
       br_ue;
       plane \<leftarrow> (if sps_flags sps AND V4L2_H264_SPS_FLAG_SEPARATE_COLOUR_PLANE \<noteq> 0 then br_u 2 else State_Monad.return 0);
       fn \<leftarrow> br_u (unat (sps_log2_max_frame_num_minus4 sps) + 4);
       (field_pic, bottom) \<leftarrow> sh_field sps;
       idr_id \<leftarrow> (if nal_type = 5 then br_ue else State_Monad.return 0);
       let decode1 = decode0\<lparr>dp_frame_num := ucast fn, idr_pic_id := ucast idr_id,
         dp_flags := flag_if field_pic V4L2_H264_DECODE_PARAM_FLAG_FIELD_PIC OR flag_if bottom V4L2_H264_DECODE_PARAM_FLAG_BOTTOM_FIELD
           OR flag_if (nal_type = 5) V4L2_H264_DECODE_PARAM_FLAG_IDR_PIC\<rparr>;
       decode2 \<leftarrow> sh_order sps pps field_pic decode1;
       red \<leftarrow> (if pps_flags pps AND V4L2_H264_PPS_FLAG_REDUNDANT_PIC_CNT_PRESENT \<noteq> 0 then br_ue else State_Monad.return 0);
       direct \<leftarrow> (if st = V4L2_H264_SLICE_TYPE_B then br_u1 else State_Monad.return False);
       let slice1 = slice0\<lparr>slice_type := ucast st, colour_plane_id := ucast plane, redundant_pic_cnt := ucast red,
         slice_flags := flag_if direct V4L2_H264_SLICE_FLAG_DIRECT_SPATIAL_MV_PRED\<rparr>;
       (slice2, mk1) \<leftarrow> sh_refs st pps slice1 mk;
       sh_weights st sps pps slice2;
       mk2 \<leftarrow> sh_marking ref_idc nal_type mk1;
       bad \<leftarrow> br_failed;
       State_Monad.return (if bad then H264_PARSE_INVALID else H264_PARSE_OK,
         \<lparr>so_slice = slice2, so_decode = decode2, so_marks = mk2\<rparr>)
     }
   }"

end
