(* ===== verification/H264_Poc.thy ===== *)
theory H264_Poc
  imports H264_Slice
begin

text \<open>
  The picture order counts of \<^verbatim>\<open>mft/parser_glue.cpp\<close>, for the three types of the standard. Counts are 32-bit integers that wrap;
  a shift by more than 31 gives 0.
\<close>

section \<open>Derivation\<close>

definition i32 :: "int \<Rightarrow> int" where
  "i32 i = sint (word_of_int i :: ULONG)"

definition pow_i32 :: "uint8 \<Rightarrow> int" where
  "pow_i32 l = sint (push_bit (unat l + 4) (1 :: ULONG))"

definition h264_compute_poc_type0 :: "v4l2_ctrl_h264_sps \<Rightarrow> bool \<Rightarrow> uint8 \<Rightarrow> v4l2_ctrl_h264_decode_params \<Rightarrow> int \<times> int \<Rightarrow>
    v4l2_ctrl_h264_decode_params \<times> int \<times> int" where
  "h264_compute_poc_type0 sps idr ref_idc decode prev =
     (let mx = pow_i32 (log2_max_pic_order_cnt_lsb_minus4 sps);
          poc_lsb = uint (pic_order_cnt_lsb decode);
          (prev_msb, prev_lsb) = (if idr then (0, 0) else prev);
          poc_msb = (if poc_lsb < prev_lsb \<and> i32 (prev_lsb - poc_lsb) \<ge> mx div 2 then i32 (prev_msb + mx)
                     else if poc_lsb > prev_lsb \<and> i32 (poc_lsb - prev_lsb) > mx div 2 then i32 (prev_msb - mx)
                     else prev_msb);
          tp = i32 (poc_msb + poc_lsb)
      in (decode\<lparr>dp_top := tp, dp_bottom := i32 (tp + delta_pic_order_cnt_bottom decode)\<rparr>,
          if ref_idc \<noteq> 0 then (poc_msb, poc_lsb) else prev))"

text \<open>The offset of the frame number, shared by the other two types.\<close>

definition frame_num_offset :: "v4l2_ctrl_h264_sps \<Rightarrow> bool \<Rightarrow> int \<Rightarrow> int \<times> int \<Rightarrow> int" where
  "frame_num_offset sps idr cur_frame_num prev =
     (if idr then 0
      else if fst prev > cur_frame_num then i32 (snd prev + pow_i32 (sps_log2_max_frame_num_minus4 sps))
      else snd prev)"

definition sum_offsets :: "v4l2_ctrl_h264_sps \<Rightarrow> int \<Rightarrow> nat \<Rightarrow> int" where
  "sum_offsets sps start n = fold (\<lambda>i acc. i32 (acc + offset_for_ref_frame sps ! i)) [0..<n] start"

text \<open>Division and remainder are only applied to non-negative values.\<close>

definition expected_poc :: "v4l2_ctrl_h264_sps \<Rightarrow> int \<Rightarrow> int" where
  "expected_poc sps abs_frame_num =
     (if abs_frame_num > 0
      then let n = int (unat (num_ref_frames_in_pic_order_cnt_cycle sps));
               poc_cycle_len = sum_offsets sps 0 (nat n);
               cycle_cnt = (abs_frame_num - 1) div n;
               in_cycle = (abs_frame_num - 1) mod n
           in sum_offsets sps (i32 (cycle_cnt * poc_cycle_len)) (Suc (nat in_cycle))
      else 0)"

definition h264_compute_poc_type1 :: "v4l2_ctrl_h264_sps \<Rightarrow> bool \<Rightarrow> uint8 \<Rightarrow> v4l2_ctrl_h264_decode_params \<Rightarrow> int \<times> int \<Rightarrow>
    v4l2_ctrl_h264_decode_params \<times> int \<times> int" where
  "h264_compute_poc_type1 sps idr ref_idc decode prev =
     (let cur = uint (dp_frame_num decode);
          off = frame_num_offset sps idr cur prev;
          abs0 = (if num_ref_frames_in_pic_order_cnt_cycle sps \<noteq> 0 then i32 (off + cur) else 0);
          abs1 = (if ref_idc = 0 \<and> abs0 > 0 then abs0 - 1 else abs0);
          e0 = expected_poc sps abs1;
          e1 = (if ref_idc = 0 then i32 (e0 + offset_for_non_ref_pic sps) else e0);
          tp = i32 (e1 + delta_pic_order_cnt0 decode);
          bt = i32 (i32 (tp + offset_for_top_to_bottom_field sps) + delta_pic_order_cnt1 decode)
      in (decode\<lparr>dp_top := tp, dp_bottom := bt\<rparr>, cur, off))"

definition h264_compute_poc_type2 :: "v4l2_ctrl_h264_sps \<Rightarrow> bool \<Rightarrow> uint8 \<Rightarrow> v4l2_ctrl_h264_decode_params \<Rightarrow> int \<times> int \<Rightarrow>
    v4l2_ctrl_h264_decode_params \<times> int \<times> int" where
  "h264_compute_poc_type2 sps idr ref_idc decode prev =
     (let cur = uint (dp_frame_num decode);
          off = frame_num_offset sps idr cur prev;
          poc = (if idr then 0 else if ref_idc = 0 then i32 (2 * (off + cur) - 1) else i32 (2 * (off + cur)))
      in (decode\<lparr>dp_top := poc, dp_bottom := poc\<rparr>, cur, off))"

end
