(* ===== verification/H264_Access_Unit.thy ===== *)
theory H264_Access_Unit
  imports H264_Poc
begin

text \<open>
  \<^verbatim>\<open>H264ParseAccessUnit\<close> of \<^verbatim>\<open>mft/parser_glue.cpp\<close>: the loop over the NAL units of an access unit, the persistent parameter sets and
  order state, and the slice data in the scratch buffer. The scratch buffer is the list of the bytes written so far, its length
  the offset of the next unit. The prediction weights, which the parser only zeroes, and the tests for null pointers are left out.
\<close>

section \<open>Result\<close>

record H264Parse =
  pa_sps :: v4l2_ctrl_h264_sps
  pa_pps :: v4l2_ctrl_h264_pps
  pa_matrix :: v4l2_ctrl_h264_scaling_matrix
  pa_slice :: v4l2_ctrl_h264_slice_params
  pa_decode :: v4l2_ctrl_h264_decode_params
  pa_has_sps :: bool
  pa_has_pps :: bool
  pa_has_matrix :: bool
  pa_has_slice :: bool
  pa_has_reorder :: bool
  pa_max_reorder :: uint8
  pa_colour :: vui_colour
  pa_slice_data :: "(nat \<times> nat) option"
  pa_prev_order :: "int \<times> int"
  pa_prev_frame :: "int \<times> int"
  pa_marks :: h264_marks

definition reset_unit :: "H264Parse \<Rightarrow> H264Parse" where
  "reset_unit out = out\<lparr>pa_slice := zero_slice, pa_decode := zero_decode, pa_has_slice := False, pa_slice_data := None,
     pa_marks := zero_marks\<rparr>"

text \<open>The variables of the loop: the scratch bytes, the staged order state of the two kinds, and the result.\<close>

record au_run =
  ar_scratch :: "uint8 list"
  ar_order :: "int \<times> int"
  ar_frame :: "int \<times> int"
  ar_out :: H264Parse

section \<open>NAL units\<close>

definition sps_nal :: "uint8 list \<Rightarrow> H264Parse \<Rightarrow> H264ParseStatus \<times> H264Parse" where
  "sps_nal payload out =
     (let (s, o1) = fst (run_state (parse_sps (pa_colour out)) (br_init payload));
          out1 = out\<lparr>pa_sps := o_sps o1, pa_has_reorder := o_has_reorder o1, pa_max_reorder := o_max_reorder o1, pa_colour := o_colour o1\<rparr>;
          out2 = out1\<lparr>pa_has_sps := True\<rparr>
      in if s \<noteq> H264_PARSE_OK then (s, out1)
         else if o_has_sm o1
         then (H264_PARSE_OK, out2\<lparr>pa_matrix := o_sm o1, pa_has_matrix := True,
                 pa_pps := (if pa_has_pps out2
                   then (pa_pps out2)\<lparr>pps_flags := pps_flags (pa_pps out2) OR V4L2_H264_PPS_FLAG_SCALING_MATRIX_PRESENT\<rparr> else pa_pps out2)\<rparr>)
         else (H264_PARSE_OK, out2))"

definition pps_nal :: "uint8 list \<Rightarrow> H264Parse \<Rightarrow> H264ParseStatus \<times> H264Parse" where
  "pps_nal payload out =
     (let (s, o1) = fst (run_state (parse_pps (pa_matrix out)) (br_init payload));
          out1 = out\<lparr>pa_pps := o_pps o1, pa_matrix := o_matrix o1\<rparr>;
          out2 = out1\<lparr>pa_has_pps := True\<rparr>
      in if s \<noteq> H264_PARSE_OK then (s, out1)
         else if o_has_scaling o1 then (H264_PARSE_OK, out2\<lparr>pa_has_matrix := True\<rparr>)
         else if pa_has_matrix out2
         then (H264_PARSE_OK, out2\<lparr>pa_pps := (pa_pps out2)\<lparr>pps_flags := pps_flags (pa_pps out2) OR V4L2_H264_PPS_FLAG_SCALING_MATRIX_PRESENT\<rparr>\<rparr>)
         else (H264_PARSE_OK, out2))"

text \<open>The order count of the slice, with the staged state of its type.\<close>

definition slice_poc :: "v4l2_ctrl_h264_sps \<Rightarrow> uint8 \<Rightarrow> v4l2_ctrl_h264_decode_params \<Rightarrow> int \<times> int \<Rightarrow> int \<times> int \<Rightarrow>
    v4l2_ctrl_h264_decode_params \<times> (int \<times> int) \<times> (int \<times> int)" where
  "slice_poc sps ref_idc decode order frame =
     (let idr = dp_flags decode AND V4L2_H264_DECODE_PARAM_FLAG_IDR_PIC \<noteq> 0
      in if pic_order_cnt_type sps = 0 then let (d, p) = h264_compute_poc_type0 sps idr ref_idc decode order in (d, p, frame)
         else if pic_order_cnt_type sps = 1 then let (d, p) = h264_compute_poc_type1 sps idr ref_idc decode frame in (d, order, p)
         else let (d, p) = h264_compute_poc_type2 sps idr ref_idc decode frame in (d, order, p))"

text \<open>\<open>off\<close> is the offset of the unit in the scratch buffer; its payload follows the header byte.\<close>

definition slice_nal :: "uint8 list \<Rightarrow> nat \<Rightarrow> uint8 \<Rightarrow> uint8 \<Rightarrow> au_run \<Rightarrow> H264ParseStatus \<times> au_run" where
  "slice_nal payload off ref_idc nal_type r =
     (let out = ar_out r
      in if \<not> pa_has_sps out \<or> \<not> pa_has_pps out then (H264_PARSE_INVALID, r)
         else let ((s, so), br) = run_state (parse_slice_header ref_idc nal_type (pa_sps out) (pa_pps out) (pa_marks out)) (br_init payload);
                  out1 = out\<lparr>pa_slice := so_slice so, pa_decode := so_decode so, pa_marks := so_marks so\<rparr>
              in if s \<noteq> H264_PARSE_OK then (s, r\<lparr>ar_out := out1\<rparr>)
                 else let (d, po, pf) = slice_poc (pa_sps out) ref_idc (so_decode so) (ar_order r) (ar_frame r);
                          data_off = (bit_pos br + 7) div 8;
                          out2 = out1\<lparr>pa_has_slice := True, pa_decode := d, pa_slice := (so_slice so)\<lparr>header_bit_size := of_nat (bit_pos br)\<rparr>\<rparr>;
                          r1 = r\<lparr>ar_order := po, ar_frame := pf\<rparr>
                      in if data_off > length payload then (H264_PARSE_INVALID, r1\<lparr>ar_out := out2\<rparr>)
                         else (H264_PARSE_OK, r1\<lparr>ar_out := out2\<lparr>pa_slice_data := Some (off + 1 + data_off, length payload - data_off)\<rparr>\<rparr>))"

definition nal_unit :: "uint8 list \<Rightarrow> au_run \<Rightarrow> H264ParseStatus \<times> au_run" where
  "nal_unit rbsp r =
     (let off = length (ar_scratch r);
          r1 = r\<lparr>ar_scratch := ar_scratch r @ rbsp\<rparr>;
          ref_idc = drop_bit 5 (hd rbsp) AND 3;
          nal_type = hd rbsp AND 0x1F;
          payload = tl rbsp
      in if nal_type = 7 then apsnd (\<lambda>out. r1\<lparr>ar_out := out\<rparr>) (sps_nal payload (ar_out r1))
         else if nal_type = 8 then apsnd (\<lambda>out. r1\<lparr>ar_out := out\<rparr>) (pps_nal payload (ar_out r1))
         else if nal_type = 1 \<or> nal_type = 5 then slice_nal payload off ref_idc nal_type r1
         else (H264_PARSE_OK, r1))"

section \<open>The access unit\<close>

lemma pg_find_after: "pos < length buf \<Longrightarrow> pos < fst (pg_find_start_code buf pos)"
proof -
  assume p: "pos < length buf"
  obtain n sc where f: "pg_find_start_code buf pos = (n, sc)" by fastforce
  show ?thesis using pg_find_bounds[OF f] p f by (cases "n < length buf") auto
qed

function au_loop :: "uint8 list \<Rightarrow> nat \<Rightarrow> nat \<Rightarrow> au_run \<Rightarrow> H264ParseStatus \<times> au_run" where
  "au_loop buf scratch_size pos r =
     (if pos < length buf
      then let nal_start = fst (pg_find_start_code buf pos)
           in if nal_start \<ge> length buf then (H264_PARSE_OK, r)
              else let next_sc = snd (pg_find_start_code buf nal_start);
                       nal_end = (if next_sc > nal_start then next_sc else length buf);
                       this_size = nal_end - nal_start
                   in if length (ar_scratch r) + this_size > scratch_size then (H264_PARSE_INVALID, r)
                      else let rbsp = ebsp_to_rbsp (take this_size (drop nal_start buf)) (scratch_size - length (ar_scratch r))
                           in if rbsp = [] then (H264_PARSE_INVALID, r)
                              else let (s, r1) = nal_unit rbsp r
                                   in if s \<noteq> H264_PARSE_OK then (s, r1) else au_loop buf scratch_size nal_end r1
      else (H264_PARSE_OK, r))"
  by pat_completeness auto

termination
proof (relation "measure (\<lambda>(buf, sz, pos, r). length buf - pos)", goal_cases)
  case (2 buf sz pos r nal_start next_sc nal_end this_size rbsp p s r1)
  then show ?case using pg_find_after[of pos buf] by auto
qed simp

declare au_loop.simps [simp del]

definition H264ParseAccessUnit :: "uint8 list \<Rightarrow> nat \<Rightarrow> H264Parse \<Rightarrow> H264ParseStatus \<times> uint8 list \<times> H264Parse" where
  "H264ParseAccessUnit buf scratch_size out =
     (let (s, r) = au_loop buf scratch_size 0 \<lparr>ar_scratch = [], ar_order = pa_prev_order out, ar_frame = pa_prev_frame out, ar_out = reset_unit out\<rparr>;
          res = ar_out r
      in if s \<noteq> H264_PARSE_OK then (s, ar_scratch r, res)
         else if \<not> pa_has_slice res
         then (if pa_has_sps res \<and> pa_has_pps res then H264_PARSE_NEED_MORE else H264_PARSE_INVALID, ar_scratch r, res)
         else (H264_PARSE_OK, ar_scratch r, res\<lparr>pa_prev_order := ar_order r, pa_prev_frame := ar_frame r\<rparr>))"

end
