(* ===== verification/H264_Parse_Props.thy ===== *)
theory H264_Parse_Props
  imports H264_Access_Unit "HOL-Library.Sublist"
begin

text \<open>
  Properties of the H.264 parser for arbitrary input: the fields that later code relies on stay in range, the slice data lies in
  the scratch buffer, a refused unit keeps the order state, and the commands of the slices of a unit pile up.
\<close>

section \<open>Postconditions of readers\<close>

named_theorems post_rules

lemma post_return [post_rules]: "P x \<Longrightarrow> pred_state P (State_Monad.return x)"
  by (rule pred_stateI) simp

lemma post_bind: "pred_state Q m \<Longrightarrow> (\<And>x. Q x \<Longrightarrow> pred_state P (f x)) \<Longrightarrow> pred_state P (m \<bind> f)"
proof (rule pred_stateI)
  fix a s s' assume m: "pred_state Q m" and f: "\<And>x. Q x \<Longrightarrow> pred_state P (f x)" and r: "run_state (m \<bind> f) s = (a, s')"
  obtain x b where x: "run_state m s = (x, b)" by fastforce
  have "pred_state P (f x)" using f pred_stateD[OF m x] .
  moreover have "run_state (f x) b = (a, s')" using r x by simp
  ultimately show "P a" by (rule pred_stateD)
qed

lemma post_true: "pred_state (\<lambda>_. True) m"
  by (rule pred_stateI) simp

lemma post_skip [post_rules]: "(\<And>x. pred_state P (f x)) \<Longrightarrow> pred_state P (m \<bind> f)"
  by (rule post_bind[OF post_true])

lemma post_if [post_rules]: "(b \<Longrightarrow> pred_state P m) \<Longrightarrow> (\<not> b \<Longrightarrow> pred_state P n) \<Longrightarrow> pred_state P (if b then m else n)"
  by simp

lemma post_Let [post_rules]: "(\<And>x. x = y \<Longrightarrow> pred_state P (f x)) \<Longrightarrow> pred_state P (Let y f)"
  by simp

lemma post_case_prod [post_rules]: "(\<And>x y. p = (x, y) \<Longrightarrow> pred_state P (f x y)) \<Longrightarrow> pred_state P (case p of (x, y) \<Rightarrow> f x y)"
  by (cases p) simp

lemma post_bind2:
  "pred_state (\<lambda>(x, y). Q x y) m \<Longrightarrow> (\<And>x y. Q x y \<Longrightarrow> pred_state P (f x y)) \<Longrightarrow> pred_state P (m \<bind> (\<lambda>(x, y). f x y))"
  by (erule post_bind) auto

lemma post_weaken: "pred_state P m \<Longrightarrow> (\<And>x. P x \<Longrightarrow> Q x) \<Longrightarrow> pred_state Q m"
  by (rule pred_stateI) (blast dest: pred_stateD)

section \<open>Fields in range\<close>

definition matrix_ok :: "v4l2_ctrl_h264_scaling_matrix \<Rightarrow> bool" where
  "matrix_ok sm \<longleftrightarrow> length (scaling_list_4x4 sm) = 6 \<and> list_all (\<lambda>l. length l = 16) (scaling_list_4x4 sm) \<and>
     length (scaling_list_8x8 sm) = 6 \<and> list_all (\<lambda>l. length l = 64) (scaling_list_8x8 sm)"

definition sps_ok :: "v4l2_ctrl_h264_sps \<Rightarrow> bool" where
  "sps_ok sps \<longleftrightarrow> sps_width_mbs sps \<le> 511 \<and> sps_height_map_units sps \<le> 511 \<and> length (offset_for_ref_frame sps) = 255"

definition mmco_ok :: "H264Mmco \<Rightarrow> bool" where
  "mmco_ok m \<longleftrightarrow> mmco_op m \<in> {1..6}"

definition marks_ok :: "h264_marks \<Rightarrow> bool" where
  "marks_ok mk \<longleftrightarrow> length (mk_mmco mk) \<le> H264_MAX_MMCO_OPS \<and> list_all mmco_ok (mk_mmco mk) \<and> length (rplm_l0 mk) \<le> 32 \<and> length (rplm_l1 mk) \<le> 32"

definition pps_ok :: "v4l2_ctrl_h264_pps \<Rightarrow> bool" where
  "pps_ok pps \<longleftrightarrow> chroma_qp_index_offset pps \<in> {-128..127} \<and> second_chroma_qp_index_offset pps \<in> {-128..127}"

lemma scaling_loop_length: "pred_state (\<lambda>(l, d). length l = length lst) (scaling_loop zz first a b c lst)"
proof (induction zz arbitrary: first a b c lst)
  case Nil
  show ?case by (simp add: post_return)
next
  case (Cons z zz)
  have "pred_state (\<lambda>(l, d). length l = length lst) (scaling_loop zz f a b c (lst[z := v]))" for f a b c v
    using Cons[where lst = "lst[z := v]"] by simp
  then show ?case unfolding scaling_loop.simps by (intro post_rules) simp_all
qed

lemma parse_matrix_list_ok: "matrix_ok sm \<Longrightarrow> i < 12 \<Longrightarrow> pred_state (\<lambda>(sm', d). matrix_ok sm') (parse_matrix_list i sm)"
  unfolding parse_matrix_list_def parse_scaling_list_def
  by (intro post_if post_bind2[OF scaling_loop_length] post_return)
     (auto simp: matrix_ok_def list_all_length nth_list_update)

lemma zero_sm_ok [simp]: "matrix_ok zero_sm"
  by (simp add: matrix_ok_def zero_sm_def list_all_length)

lemma sps_lists_ok: "list_all (\<lambda>i. i < 12) is \<Longrightarrow> matrix_ok sm \<Longrightarrow> pred_state matrix_ok (sps_lists is sm)"
proof (induction "is" arbitrary: sm)
  case Nil
  then show ?case by (simp add: post_return)
next
  case (Cons i "is")
  have "pred_state matrix_ok (if b then do { (sm', d) \<leftarrow> parse_matrix_list i sm; State_Monad.return sm' } else State_Monad.return sm)" for b
    by (intro post_if post_bind2[OF parse_matrix_list_ok] post_return) (use Cons.prems in auto)
  note b = post_bind[OF this]
  show ?case unfolding sps_lists.simps by (rule post_skip, rule b) (use Cons in simp)
qed

lemma pps_lists_ok: "list_all (\<lambda>i. i < 12) is \<Longrightarrow> matrix_ok sm \<Longrightarrow> pred_state (\<lambda>(es, sm'). matrix_ok sm' \<and> length es = length is) (pps_lists is sm)"
proof (induction "is" arbitrary: sm)
  case Nil
  then show ?case by (simp add: post_return)
next
  case (Cons i "is")
  have m: "pred_state (\<lambda>(sm', d). matrix_ok sm') (if b then parse_matrix_list i sm else State_Monad.return (sm, False))" for b
    by (intro post_if parse_matrix_list_ok post_return) (use Cons.prems in auto)
  have r: "pred_state (\<lambda>(es, sm'). matrix_ok sm' \<and> length es = length is) (pps_lists is sm1)" if "matrix_ok sm1" for sm1
    using Cons that by simp
  show ?case unfolding pps_lists.simps
    by (rule post_skip, rule post_bind2[OF m], rule post_bind2[OF r]) (auto intro: post_return)
qed

lemma default_lengths: "length kH264Default4x4Intra = 16" "length kH264Default4x4Inter = 16" "length kH264Default8x8Intra = 64"
  "length kH264Default8x8Inter = 64"
  by (simp_all add: kH264Default4x4Intra_def kH264Default4x4Inter_def kH264Default8x8Intra_def kH264Default8x8Inter_def)

lemma fall_back_ok: "matrix_ok sm \<Longrightarrow> matrix_ok (fall_back i sm)"
  by (auto simp: fall_back_def inherit_4x4_def fill_default_def matrix_ok_def list_all_length nth_list_update default_lengths)

lemma resolve_lists_ok: "matrix_ok sm \<Longrightarrow> matrix_ok (resolve_lists es sm)"
proof -
  have "matrix_ok (fold (\<lambda>i sm. if es ! i then sm else fall_back i sm) is sm)" if "matrix_ok sm" for "is" sm
    using that by (induction "is" arbitrary: sm) (auto simp: fall_back_ok)
  then show "matrix_ok sm \<Longrightarrow> ?thesis" by (simp add: resolve_lists_def)
qed

text \<open>A sequence parameter set before its dimensions are read.\<close>

definition sps_pre :: "v4l2_ctrl_h264_sps \<Rightarrow> bool" where
  "sps_pre sps \<longleftrightarrow> sps_width_mbs sps = 0 \<and> sps_height_map_units sps = 0 \<and> length (offset_for_ref_frame sps) = 255"

lemma sps_ids_pre: "pred_state sps_pre sps_ids"
  unfolding sps_ids_def by (intro post_rules) (simp add: sps_pre_def zero_sps_def)

lemma upt_12: "list_all (\<lambda>i. i < 12) [0..<(if b then 12 else 8)]" "list_all (\<lambda>i. i < 12) [0..<(if b then 8 else 6)]"
  by (simp_all add: list_all_iff)

lemma sps_fidelity_pre: "sps_pre sps \<Longrightarrow> pred_state (\<lambda>(sps', has, sm). sps_pre sps' \<and> matrix_ok sm) (sps_fidelity sps)"
proof -
  assume p: "sps_pre sps"
  have l: "pred_state matrix_ok (if b then sps_lists [0..<(if c then 12 else 8)] zero_sm else State_Monad.return zero_sm)" for b c
    by (intro post_if sps_lists_ok post_return) (simp_all add: upt_12)
  show ?thesis unfolding sps_fidelity_def
    by (intro post_bind[OF l] post_skip post_if post_Let post_return) (use p in \<open>auto simp: sps_pre_def\<close>)
qed

lemma read_offsets_length: "pred_state (\<lambda>xs'. length xs' = length xs) (read_offsets is xs)"
proof (induction "is" arbitrary: xs)
  case (Cons i "is")
  have "pred_state (\<lambda>xs'. length xs' = length xs) (read_offsets is (xs[i := x]))" for x
    using Cons[of "xs[i := x]"] by simp
  then show ?case unfolding read_offsets.simps by (rule post_skip)
qed (simp add: post_return)

lemma sps_order_pre: "sps_pre sps \<Longrightarrow> pred_state sps_pre (sps_order sps)"
  unfolding sps_order_def
  by (intro post_bind[OF read_offsets_length] post_skip post_Let post_if post_return) (auto simp: sps_pre_def)

lemma sps_refs_pre: "sps_pre sps \<Longrightarrow> pred_state sps_pre (sps_refs sps)"
  unfolding sps_refs_def by (intro post_rules) (simp add: sps_pre_def)

lemma sps_coding_ok: "sps_ok sps \<Longrightarrow> pred_state sps_ok (sps_coding sps)"
  unfolding sps_coding_def by (intro post_rules) (simp add: sps_ok_def)

lemma vui_restriction_ok: "pred_state (\<lambda>(b, n). n \<le> 16) vui_restriction"
proof -
  have u: "(ucast m :: uint8) \<le> 16" if "\<not> 16 < (m :: ULONG)" for m
  proof -
    have "unat m \<le> 16" using that by (simp add: word_less_nat_alt)
    then have "unat (ucast m :: uint8) \<le> 16" unfolding unsigned_ucast_eq by (rule le_trans[OF take_bit_nat_less_eq_self])
    then show ?thesis by (simp add: word_le_nat_alt)
  qed
  show ?thesis unfolding vui_restriction_def by (intro post_rules) (auto intro: u)
qed

lemma parse_vui_ok: "pred_state (\<lambda>(r, c). snd r \<le> 16) (parse_vui_parameters c)"
  unfolding parse_vui_parameters_def
  by (intro post_bind[OF vui_restriction_ok] post_skip post_return) auto

definition sps_out_ok :: "sps_out \<Rightarrow> bool" where
  "sps_out_ok out \<longleftrightarrow> sps_ok (o_sps out) \<and> o_max_reorder out \<le> 16 \<and> matrix_ok (o_sm out)"

lemma sps_vui_ok: "sps_out_ok out \<Longrightarrow> pred_state sps_out_ok (sps_vui out)"
  unfolding sps_vui_def
  by (intro post_bind2[OF parse_vui_ok] post_skip post_if post_return) (auto simp: sps_out_ok_def)

lemma dims_ok: "sps_pre sps \<Longrightarrow> \<not> (w > kMaxMbs \<or> h > kMaxMbs) \<Longrightarrow> sps_ok (sps\<lparr>sps_width_mbs := ucast w, sps_height_map_units := ucast h\<rparr>)"
proof -
  have u: "(ucast w :: uint16) \<le> 511" if "\<not> kMaxMbs < w" for w :: ULONG
  proof -
    have "unat w \<le> 511" using that by (simp add: word_less_nat_alt)
    then have "unat (ucast w :: uint16) \<le> 511" unfolding unsigned_ucast_eq by (rule le_trans[OF take_bit_nat_less_eq_self])
    then show ?thesis by (simp add: word_le_nat_alt)
  qed
  show "sps_pre sps \<Longrightarrow> \<not> (w > kMaxMbs \<or> h > kMaxMbs) \<Longrightarrow> ?thesis" using u by (simp add: sps_pre_def sps_ok_def)
qed

lemma parse_sps_ok: "pred_state (\<lambda>(s, out). sps_out_ok out) (parse_sps colour)"
proof -
  have fin: "pred_state (\<lambda>(s, out). sps_out_ok out)
      (if w > kMaxMbs \<or> h > kMaxMbs then State_Monad.return (H264_PARSE_INVALID, out)
       else do {
         sps4 \<leftarrow> sps_coding (sps3\<lparr>sps_width_mbs := ucast w, sps_height_map_units := ucast h\<rparr>);
         out1 \<leftarrow> sps_vui (out\<lparr>o_sps := sps4\<rparr>);
         bad \<leftarrow> br_failed;
         State_Monad.return (if bad then H264_PARSE_INVALID else H264_PARSE_OK, out1)
       })" if p: "sps_pre sps3" "matrix_ok sm"
      and o1: "out = \<lparr>o_sps = sps3, o_has_reorder = False, o_max_reorder = 0, o_sm = sm, o_has_sm = has, o_colour = colour\<rparr>" for w h sps3 sm has out
  proof (rule post_if)
    show "pred_state (\<lambda>(s, out). sps_out_ok out) (State_Monad.return (H264_PARSE_INVALID, out))"
      by (rule post_return) (use p in \<open>simp add: o1 sps_out_ok_def sps_ok_def sps_pre_def\<close>)
    assume d: "\<not> (w > kMaxMbs \<or> h > kMaxMbs)"
    have v: "sps_ok s4 \<Longrightarrow> pred_state sps_out_ok (sps_vui (out\<lparr>o_sps := s4\<rparr>))" for s4
      by (rule sps_vui_ok) (use p in \<open>simp add: o1 sps_out_ok_def\<close>)
    show "pred_state (\<lambda>(s, out). sps_out_ok out) (do {
         sps4 \<leftarrow> sps_coding (sps3\<lparr>sps_width_mbs := ucast w, sps_height_map_units := ucast h\<rparr>);
         out1 \<leftarrow> sps_vui (out\<lparr>o_sps := sps4\<rparr>);
         bad \<leftarrow> br_failed;
         State_Monad.return (if bad then H264_PARSE_INVALID else H264_PARSE_OK, out1)
       })"
      by (rule post_bind[OF sps_coding_ok[OF dims_ok[OF p(1) d]]], rule post_bind[OF v], assumption)
         (intro post_skip post_return, simp)
  qed
  have f: "pred_state (\<lambda>(sps', has, sm). sps_pre sps' \<and> matrix_ok sm) (sps_fidelity s0)" if "sps_pre s0" for s0
    using sps_fidelity_pre[OF that] .
  show ?thesis unfolding parse_sps_def
    by (rule post_bind[OF sps_ids_pre], rule post_bind[OF f], assumption, clarify,
        rule post_bind[OF sps_order_pre], assumption, rule post_bind[OF sps_refs_pre], assumption,
        intro post_skip post_Let, rule fin)
qed

lemma int8_range [simp]: "int8 x \<in> {-128..127}"
  using sint_ge[of "word_of_int x :: uint8"] sint_lt[of "word_of_int x :: uint8"] by (simp add: int8_def)

lemma pps_ids_ok: "pred_state pps_ok pps_ids"
  unfolding pps_ids_def by (intro post_rules) (simp add: pps_ok_def zero_pps_def)

lemma pps_body_ok: "pps_ok pps \<Longrightarrow> pred_state pps_ok (pps_body pps)"
  unfolding pps_body_def by (intro post_rules) (simp add: pps_ok_def del: atLeastAtMost_iff)

definition pps_out_ok :: "pps_out \<Rightarrow> bool" where
  "pps_out_ok out \<longleftrightarrow> pps_ok (o_pps out) \<and> matrix_ok (o_matrix out)"

lemma pps_trailer_ok: "pps_out_ok out \<Longrightarrow> pred_state pps_out_ok (pps_trailer out)"
proof -
  assume p: "pps_out_ok out"
  have l: "pred_state (\<lambda>(has, sm). matrix_ok sm)
      (if present then do { (es, sm1) \<leftarrow> pps_lists [0..<(if b then 8 else 6)] zero_sm; State_Monad.return (True, resolve_lists es sm1) }
       else State_Monad.return (o_has_scaling out, o_matrix out))" for present b
    by (intro post_if post_bind2[OF pps_lists_ok] post_return) (use p in \<open>auto simp: upt_12 resolve_lists_ok pps_out_ok_def\<close>)
  have s: "pred_state (\<lambda>x. x \<in> {-128..127}) (if more then do { x \<leftarrow> br_se; State_Monad.return (int8 x) } else State_Monad.return d)"
    if "d \<in> {-128..127}" for more d
    by (intro post_rules) (use that in \<open>simp_all del: atLeastAtMost_iff\<close>)
  show ?thesis unfolding pps_trailer_def
    by (intro post_bind2[OF l] post_bind[OF s] post_skip post_Let post_return) (use p in \<open>auto simp: pps_out_ok_def pps_ok_def\<close>)
qed

lemma parse_pps_ok: "matrix_ok sm \<Longrightarrow> pred_state (\<lambda>(s, out). pps_out_ok out) (parse_pps sm)"
proof -
  assume m: "matrix_ok sm"
  have t: "pred_state pps_out_ok (if more then pps_trailer \<lparr>o_pps = p, o_matrix = sm, o_has_scaling = False\<rparr>
      else State_Monad.return \<lparr>o_pps = p\<lparr>second_chroma_qp_index_offset := chroma_qp_index_offset p\<rparr>, o_matrix = sm, o_has_scaling = False\<rparr>)"
    if "pps_ok p" for more p
    by (intro post_if pps_trailer_ok post_return) (use that m in \<open>auto simp: pps_out_ok_def pps_ok_def\<close>)
  show ?thesis unfolding parse_pps_def
    by (intro post_bind[OF pps_ids_ok] post_bind[OF pps_body_ok] post_bind[OF t] post_skip post_if post_return)
       (use m in \<open>auto simp: pps_out_ok_def\<close>)
qed

section \<open>Slice commands\<close>

definition extends :: "h264_marks \<Rightarrow> h264_marks \<Rightarrow> bool" where
  "extends mk mk' \<longleftrightarrow> prefix (mk_mmco mk) (mk_mmco mk') \<and> prefix (rplm_l0 mk) (rplm_l0 mk') \<and> prefix (rplm_l1 mk) (rplm_l1 mk')"

lemma rplm_loop_ok: "length ops \<le> 32 \<Longrightarrow> rplm_loop ops br = (ops', br') \<Longrightarrow> prefix ops ops' \<and> length ops' \<le> 32"
proof (induction ops br rule: rplm_loop.induct)
  case (1 ops br)
  obtain op br1 where e: "run_state br_ue br = (op, br1)" by fastforce
  obtain v br2 where f: "run_state br_ue br1 = (v, br2)" by fastforce
  let ?o = "if length ops < 32 then ops @ [\<lparr>rplm_op = ucast op, rplm_value = v\<rparr>] else ops"
  show ?case
  proof (cases "op = 3")
    case True
    then show ?thesis using 1(2,3) by (simp add: rplm_loop.simps[of ops br] e)
  next
    case False
    have o: "prefix ops ?o" "length ?o \<le> 32" using 1(2) by simp_all
    show ?thesis
    proof (cases "br_eof br2")
      case True
      then have "ops' = ?o" using 1(3) False by (simp add: rplm_loop.simps[of ops br] e f Let_def split: if_splits)
      then show ?thesis using o by (simp only:)
    next
      case nd: False
      then have r: "rplm_loop ?o br2 = (ops', br')" using 1(3) False by (simp add: rplm_loop.simps[of ops br] e f Let_def split: if_splits)
      from 1(1)[OF e[symmetric] refl False f[symmetric] refl refl nd o(2) r] show ?thesis using o(1) prefix_order.trans by blast
    qed
  qed
qed

lemma mmco_operands_ok: "op \<noteq> 0 \<Longrightarrow> \<not> 6 < op \<Longrightarrow> pred_state mmco_ok (mmco_operands op)"
  unfolding mmco_operands_def
proof (intro post_skip post_return)
  assume "op \<noteq> 0" "\<not> 6 < op"
  then have "unat op \<noteq> 0" "unat op \<le> 6" by (simp_all add: unat_eq_zero word_less_nat_alt)
  then show "mmco_ok \<lparr>mmco_op = unat op, difference_of_pic_nums_minus1 = a, mmco_long_term_pic_num = b,
       mmco_long_term_frame_idx = c, max_long_term_frame_idx_plus1 = d\<rparr>" for a b c d
    by (simp add: mmco_ok_def)
qed

lemma mmco_loop_ok:
  "length ops \<le> H264_MAX_MMCO_OPS \<Longrightarrow> list_all mmco_ok ops \<Longrightarrow> mmco_loop ops br = (ops', br') \<Longrightarrow>
   prefix ops ops' \<and> length ops' \<le> H264_MAX_MMCO_OPS \<and> list_all mmco_ok ops'"
proof (induction ops br rule: mmco_loop.induct)
  case (1 ops br)
  obtain op br1 where e: "run_state br_ue br = (op, br1)" by fastforce
  obtain m br2 where f: "run_state (mmco_operands op) br1 = (m, br2)" by fastforce
  let ?o = "if length ops < H264_MAX_MMCO_OPS then ops @ [m] else ops"
  show ?case
  proof (cases "op = 0 \<or> op > 6 \<or> br_eof br1")
    case True
    then show ?thesis using 1(2-4) by (auto simp: mmco_loop.simps[of ops br] e split: if_splits)
  next
    case False
    then have c: "op \<noteq> 0" "\<not> (6 < op \<or> br_eof br1)" by auto
    have "mmco_ok m" using pred_stateD[OF mmco_operands_ok f] c by blast
    then have o: "prefix ops ?o" "length ?o \<le> H264_MAX_MMCO_OPS" "list_all mmco_ok ?o" using 1(2,3) by simp_all
    have r: "mmco_loop ?o br2 = (ops', br')" using 1(4) c by (simp add: mmco_loop.simps[of ops br] e f Let_def split: if_splits)
    from 1(1)[OF e[symmetric] refl c f[symmetric] refl o(2,3) r] show ?thesis using o(1) prefix_order.trans by blast
  qed
qed

lemma sh_modification_ok: "length ops \<le> 32 \<Longrightarrow> pred_state (\<lambda>(b, ops'). prefix ops ops' \<and> length ops' \<le> 32) (sh_modification ops)"
proof -
  assume l: "length ops \<le> 32"
  have r: "pred_state (\<lambda>ops'. prefix ops ops' \<and> length ops' \<le> 32) (State (rplm_loop ops))"
    by (rule pred_stateI) (use rplm_loop_ok[OF l] in simp)
  show ?thesis unfolding sh_modification_def by (intro post_bind[OF r] post_skip post_if post_return) (use l in auto)
qed

definition marks_step :: "h264_marks \<Rightarrow> h264_marks \<Rightarrow> bool" where
  "marks_step mk mk' \<longleftrightarrow> marks_ok mk' \<and> extends mk mk'"

lemma sh_num_refs_type: "pred_state (\<lambda>sl'. slice_type sl' = slice_type sl) (sh_num_refs st pps sl)"
  unfolding sh_num_refs_def by (intro post_rules) simp_all

lemma sh_refs_ok: "marks_ok mk \<Longrightarrow> pred_state (\<lambda>(sl', mk'). slice_type sl' = slice_type sl \<and> marks_step mk mk') (sh_refs st pps sl mk)"
proof -
  assume m: "marks_ok mk"
  have a: "pred_state (\<lambda>(b, ops'). prefix (rplm_l0 mk) ops' \<and> length ops' \<le> 32) (sh_modification (rplm_l0 mk))"
    by (rule sh_modification_ok) (use m in \<open>simp add: marks_ok_def\<close>)
  have b: "pred_state (\<lambda>(b, ops'). prefix (rplm_l1 mk1) ops' \<and> length ops' \<le> 32) (sh_modification (rplm_l1 mk1))"
    if "mk1 = mk\<lparr>mk_mod_l0 := x, rplm_l0 := y\<rparr>" for mk1 x y
    by (rule sh_modification_ok) (use m that in \<open>simp add: marks_ok_def\<close>)
  show ?thesis unfolding sh_refs_def
    by (intro post_bind[OF sh_num_refs_type] post_bind2[OF a] post_bind2[OF b] post_if post_Let post_return)
       (use m in \<open>auto simp: marks_step_def marks_ok_def extends_def\<close>)
qed

lemma sh_marking_ok: "marks_ok mk \<Longrightarrow> pred_state (marks_step mk) (sh_marking ref_idc t mk)"
proof -
  assume m: "marks_ok mk"
  have a: "pred_state (\<lambda>ops'. prefix (mk_mmco mk) ops' \<and> length ops' \<le> H264_MAX_MMCO_OPS \<and> list_all mmco_ok ops')
      (if b then State (mmco_loop (mk_mmco mk)) else State_Monad.return (mk_mmco mk))" for b
  proof (rule post_if)
    show "pred_state (\<lambda>ops'. prefix (mk_mmco mk) ops' \<and> length ops' \<le> H264_MAX_MMCO_OPS \<and> list_all mmco_ok ops') (State (mmco_loop (mk_mmco mk)))"
      by (rule pred_stateI) (use m in \<open>auto simp: marks_ok_def dest!: mmco_loop_ok[rotated 2]\<close>)
  qed (use m in \<open>simp add: marks_ok_def post_return\<close>)
  show ?thesis unfolding sh_marking_def
    by (intro post_bind[OF a] post_if post_skip post_return) (use m in \<open>auto simp: marks_step_def marks_ok_def extends_def\<close>)
qed

lemma marks_step_refl: "marks_ok mk \<Longrightarrow> marks_step mk mk"
  by (simp add: marks_step_def extends_def)

lemma marks_step_trans: "marks_step a b \<Longrightarrow> marks_step b c \<Longrightarrow> marks_step a c"
  unfolding marks_step_def extends_def by (elim conjE, intro conjI) (assumption | erule (1) prefix_order.trans)+

lemma parse_slice_ok:
  assumes m: "marks_ok mk"
  shows "pred_state (\<lambda>(s, so). marks_step mk (so_marks so) \<and> slice_type (so_slice so) \<le> 4) (parse_slice_header ref_idc t sps pps mk)"
proof -
  have u: "(ucast st :: uint8) \<le> 4" if "\<not> 4 < (st :: ULONG)" for st
  proof -
    have "unat st \<le> 4" using that by (simp add: word_less_nat_alt)
    then have "unat (ucast st :: uint8) \<le> 4" unfolding unsigned_ucast_eq by (rule le_trans[OF take_bit_nat_less_eq_self])
    then show ?thesis by (simp add: word_le_nat_alt)
  qed
  have z: "slice_type zero_slice = 0" by (simp add: zero_slice_def)
  have k: "marks_step mk mk1 \<Longrightarrow> pred_state (marks_step mk) (sh_marking ref_idc t mk1)" for mk1
    by (rule post_weaken[OF sh_marking_ok]) (erule conjunct1[OF marks_step_def[THEN iffD1]], erule marks_step_trans)
  show ?thesis unfolding parse_slice_header_def
    by (intro post_bind2[OF sh_refs_ok[OF m]] post_bind[OF k] post_skip post_Let post_if post_case_prod post_return)
       (use m u z in \<open>simp_all add: marks_step_refl\<close>)
qed

section \<open>Access units\<close>

definition parse_ok :: "H264Parse \<Rightarrow> bool" where
  "parse_ok out \<longleftrightarrow> sps_ok (pa_sps out) \<and> pps_ok (pa_pps out) \<and> matrix_ok (pa_matrix out) \<and> pa_max_reorder out \<le> 16 \<and>
     slice_type (pa_slice out) \<le> 4 \<and> marks_ok (pa_marks out)"

definition same_unit :: "H264Parse \<Rightarrow> H264Parse \<Rightarrow> bool" where
  "same_unit out out' \<longleftrightarrow> pa_prev_order out' = pa_prev_order out \<and> pa_prev_frame out' = pa_prev_frame out \<and>
     pa_has_slice out' = pa_has_slice out \<and> pa_slice_data out' = pa_slice_data out \<and> pa_marks out' = pa_marks out"

lemma sps_nal_ok: "parse_ok out \<Longrightarrow> sps_nal payload out = (s, out') \<Longrightarrow> parse_ok out' \<and> same_unit out out'"
proof -
  assume p: "parse_ok out" and r: "sps_nal payload out = (s, out')"
  obtain t o1 br where e: "run_state (parse_sps (pa_colour out)) (br_init payload) = ((t, o1), br)" by (metis prod.exhaust)
  have "sps_out_ok o1" using pred_stateD[OF parse_sps_ok e] by simp
  then show ?thesis using p r
    by (auto simp: sps_nal_def e Let_def parse_ok_def same_unit_def sps_out_ok_def pps_ok_def split: if_splits)
qed

lemma pps_nal_ok: "parse_ok out \<Longrightarrow> pps_nal payload out = (s, out') \<Longrightarrow> parse_ok out' \<and> same_unit out out'"
proof -
  assume p: "parse_ok out" and r: "pps_nal payload out = (s, out')"
  obtain t o1 br where e: "run_state (parse_pps (pa_matrix out)) (br_init payload) = ((t, o1), br)" by (metis prod.exhaust)
  have "matrix_ok (pa_matrix out)" using p by (simp add: parse_ok_def)
  then have "pps_out_ok o1" using pred_stateD[OF parse_pps_ok e] by simp
  then show ?thesis using p r
    by (auto simp: pps_nal_def e Let_def parse_ok_def same_unit_def pps_out_ok_def pps_ok_def split: if_splits)
qed

text \<open>The slice data of a unit lies in the part of the scratch buffer that has been written, behind a header byte.\<close>

definition data_inside :: "nat \<Rightarrow> H264Parse \<Rightarrow> bool" where
  "data_inside n out \<longleftrightarrow> (case pa_slice_data out of None \<Rightarrow> True | Some (off, len) \<Rightarrow> 0 < off \<and> off + len \<le> n)"

definition run_ok :: "int \<times> int \<Rightarrow> int \<times> int \<Rightarrow> nat \<Rightarrow> au_run \<Rightarrow> bool" where
  "run_ok po pf n r \<longleftrightarrow> parse_ok (ar_out r) \<and> length (ar_scratch r) \<le> n \<and> data_inside (length (ar_scratch r)) (ar_out r) \<and>
     pa_prev_order (ar_out r) = po \<and> pa_prev_frame (ar_out r) = pf"

definition has_data :: "H264Parse \<Rightarrow> bool" where
  "has_data out \<longleftrightarrow> (pa_has_slice out \<longrightarrow> pa_slice_data out \<noteq> None)"

lemma slice_poc_cases:
  obtains d po pf where "slice_poc sps ref_idc decode order frame = (d, po, pf)"
  by (metis prod.exhaust)

lemma slice_nal_ok:
  assumes "run_ok po pf n r" "has_data (ar_out r)" "slice_nal payload off ref_idc t r = (s, r')"
    "length (ar_scratch r) = off + 1 + length payload"
  shows "run_ok po pf n r'" "s = H264_PARSE_OK \<Longrightarrow> has_data (ar_out r')" "extends (pa_marks (ar_out r)) (pa_marks (ar_out r'))"
    "ar_scratch r' = ar_scratch r"
proof -
  let ?out = "ar_out r"
  obtain q so br where e: "run_state (parse_slice_header ref_idc t (pa_sps ?out) (pa_pps ?out) (pa_marks ?out)) (br_init payload) = ((q, so), br)"
    by (metis prod.exhaust)
  obtain d p1 p2 where c: "slice_poc (pa_sps ?out) ref_idc (so_decode so) (ar_order r) (ar_frame r) = (d, p1, p2)" by (rule slice_poc_cases)
  have "marks_ok (pa_marks ?out)" using assms(1) by (simp add: run_ok_def parse_ok_def)
  from pred_stateD[OF parse_slice_ok[OF this] e]
  have so: "marks_ok (so_marks so)" "extends (pa_marks ?out) (so_marks so)" "slice_type (so_slice so) \<le> 4"
    by (simp_all add: marks_step_def)
  have x: "extends mk mk" for mk by (simp add: extends_def)
  note eq = assms(3)[unfolded slice_nal_def e c Let_def prod.case]
  let ?o1 = "?out\<lparr>pa_slice := so_slice so, pa_decode := so_decode so, pa_marks := so_marks so\<rparr>"
  let ?do = "(bit_pos br + 7) div 8"
  let ?o2 = "?o1\<lparr>pa_has_slice := True, pa_decode := d, pa_slice := (so_slice so)\<lparr>header_bit_size := of_nat (bit_pos br)\<rparr>\<rparr>"
  let ?r1 = "r\<lparr>ar_order := p1, ar_frame := p2\<rparr>"
  consider "r' = r" "s = H264_PARSE_INVALID" | "r' = r\<lparr>ar_out := ?o1\<rparr>" "s \<noteq> H264_PARSE_OK"
    | "r' = ?r1\<lparr>ar_out := ?o2\<rparr>" "s = H264_PARSE_INVALID"
    | "r' = ?r1\<lparr>ar_out := ?o2\<lparr>pa_slice_data := Some (off + 1 + ?do, length payload - ?do)\<rparr>\<rparr>" "?do \<le> length payload"
  proof (cases "\<not> pa_has_sps ?out \<or> \<not> pa_has_pps ?out")
    case True
    from eq[unfolded if_P[OF True]] show ?thesis using that(1) by (simp only: prod.inject)
  next
    case F1: False
    note eq1 = eq[unfolded if_not_P[OF F1]]
    show ?thesis
    proof (cases "q \<noteq> H264_PARSE_OK")
      case True
      from eq1[unfolded if_P[OF True]] show ?thesis using that(2) True by auto
    next
      case F2: False
      note eq2 = eq1[unfolded if_not_P[OF F2]]
      show ?thesis
      proof (cases "?do > length payload")
        case True
        from eq2[unfolded if_P[OF True]] show ?thesis using that(3) by (simp only: prod.inject)
      next
        case F3: False
        from eq2[unfolded if_not_P[OF F3]] show ?thesis using that(4) F3 by (simp only: prod.inject not_less)
      qed
    qed
  qed
  then have "run_ok po pf n r' \<and> (s = H264_PARSE_OK \<longrightarrow> has_data (ar_out r')) \<and> extends (pa_marks (ar_out r)) (pa_marks (ar_out r')) \<and>
      ar_scratch r' = ar_scratch r"
  proof cases
    case 1
    then show ?thesis using assms(1,2) x by simp
  next
    case 2
    then show ?thesis using assms(1) so by (simp add: run_ok_def parse_ok_def data_inside_def)
  next
    case 3
    then show ?thesis using assms(1) so by (simp add: run_ok_def parse_ok_def data_inside_def)
  next
    case 4
    then show ?thesis using assms(1,4) so by (simp add: run_ok_def parse_ok_def data_inside_def has_data_def)
  qed
  then show "run_ok po pf n r'" "s = H264_PARSE_OK \<Longrightarrow> has_data (ar_out r')" "extends (pa_marks (ar_out r)) (pa_marks (ar_out r'))"
      "ar_scratch r' = ar_scratch r" by simp_all
qed

lemma nal_unit_ok:
  assumes "run_ok po pf n r" "has_data (ar_out r)" "nal_unit rbsp r = (s, r')" "rbsp \<noteq> []" "length (ar_scratch r) + length rbsp \<le> n"
  shows "run_ok po pf n r'" "s = H264_PARSE_OK \<Longrightarrow> has_data (ar_out r')" "extends (pa_marks (ar_out r)) (pa_marks (ar_out r'))"
proof -
  let ?r1 = "r\<lparr>ar_scratch := ar_scratch r @ rbsp\<rparr>"
  have r1: "run_ok po pf n ?r1" "has_data (ar_out ?r1)" using assms(1,2,5)
    by (auto simp: run_ok_def data_inside_def split: option.splits)
  have x: "extends mk mk" for mk by (simp add: extends_def)
  have l: "length (ar_scratch ?r1) = length (ar_scratch r) + 1 + length (tl rbsp)" using assms(4) by (cases rbsp) simp_all
  have par: "run_ok po pf n r'" "has_data (ar_out r')" "extends (pa_marks (ar_out r)) (pa_marks (ar_out r'))"
    if "parse_ok out \<and> same_unit (ar_out r) out" "r' = ?r1\<lparr>ar_out := out\<rparr>" for out
    using that r1 assms(2) x by (auto simp: run_ok_def data_inside_def has_data_def same_unit_def)
  have po: "parse_ok (ar_out r)" using assms(1) by (simp add: run_ok_def)
  consider "hd rbsp AND 0x1F = 7" | "hd rbsp AND 0x1F = 8" | "hd rbsp AND 0x1F \<noteq> 7" "hd rbsp AND 0x1F \<noteq> 8" "hd rbsp AND 0x1F = 1 \<or> hd rbsp AND 0x1F = 5"
    | "hd rbsp AND 0x1F \<noteq> 7" "hd rbsp AND 0x1F \<noteq> 8" "\<not> (hd rbsp AND 0x1F = 1 \<or> hd rbsp AND 0x1F = 5)" by blast
  then have "run_ok po pf n r' \<and> (s = H264_PARSE_OK \<longrightarrow> has_data (ar_out r')) \<and> extends (pa_marks (ar_out r)) (pa_marks (ar_out r'))"
  proof cases
    case 1
    obtain out where o: "sps_nal (tl rbsp) (ar_out r) = (s, out)" "r' = ?r1\<lparr>ar_out := out\<rparr>"
      using assms(3) 1 by (cases "sps_nal (tl rbsp) (ar_out r)") (auto simp: nal_unit_def Let_def)
    show ?thesis using par[OF sps_nal_ok[OF po o(1)] o(2)] by simp
  next
    case 2
    obtain out where o: "pps_nal (tl rbsp) (ar_out r) = (s, out)" "r' = ?r1\<lparr>ar_out := out\<rparr>"
      using assms(3) 2 by (cases "pps_nal (tl rbsp) (ar_out r)") (auto simp: nal_unit_def Let_def)
    show ?thesis using par[OF pps_nal_ok[OF po o(1)] o(2)] by simp
  next
    case 3
    then have "slice_nal (tl rbsp) (length (ar_scratch r)) (drop_bit 5 (hd rbsp) AND 3) (hd rbsp AND 0x1F) ?r1 = (s, r')"
      using assms(3) by (auto simp: nal_unit_def Let_def)
    from slice_nal_ok[OF r1 this l] show ?thesis by simp
  next
    case 4
    then have "r' = ?r1" using assms(3) by (auto simp: nal_unit_def Let_def)
    then show ?thesis using r1 x by simp
  qed
  then show "run_ok po pf n r'" "s = H264_PARSE_OK \<Longrightarrow> has_data (ar_out r')" "extends (pa_marks (ar_out r)) (pa_marks (ar_out r'))" by simp_all
qed

lemma ebsp_to_rbsp_length: "length (ebsp_to_rbsp src cap) \<le> length src \<and> length (ebsp_to_rbsp src cap) \<le> cap"
  by (auto simp: ebsp_to_rbsp_def split: option.split dest: ebsp_loop_length)

lemma au_loop_ok:
  "run_ok po pf n r \<Longrightarrow> has_data (ar_out r) \<Longrightarrow> au_loop buf n pos r = (s, r') \<Longrightarrow>
   run_ok po pf n r' \<and> (s = H264_PARSE_OK \<longrightarrow> has_data (ar_out r'))"
proof (induction buf n pos r rule: au_loop.induct)
  case (1 buf n pos r)
  define ns where "ns = fst (pg_find_start_code buf pos)"
  define nx where "nx = snd (pg_find_start_code buf ns)"
  define ne where "ne = (if nx > ns then nx else length buf)"
  define rb where "rb = ebsp_to_rbsp (take (ne - ns) (drop ns buf)) (n - length (ar_scratch r))"
  obtain t r1 where u: "nal_unit rb r = (t, r1)" by fastforce
  note eq = au_loop.simps[of buf n pos r, folded ns_def, unfolded Let_def, folded nx_def, folded ne_def, folded rb_def, unfolded u prod.case]
  show ?case
  proof (cases "pos < length buf \<and> \<not> ns \<ge> length buf \<and> \<not> length (ar_scratch r) + (ne - ns) > n \<and> rb \<noteq> []")
    case False
    then show ?thesis using 1(2-4) unfolding eq by (auto split: if_splits)
  next
    case True
    then have c: "pos < length buf" "\<not> ns \<ge> length buf" "\<not> length (ar_scratch r) + (ne - ns) > n" "rb \<noteq> []" by auto
    have "length rb \<le> ne - ns" using ebsp_to_rbsp_length[of "take (ne - ns) (drop ns buf)" "n - length (ar_scratch r)"] by (simp add: rb_def)
    then have l: "length (ar_scratch r) + length rb \<le> n" using c(3) by simp
    note st = nal_unit_ok[OF 1(2) 1(3) u c(4) l]
    show ?thesis
    proof (cases "t = H264_PARSE_OK")
      case False
      then show ?thesis using 1(4) c st(1) unfolding eq by auto
    next
      case t: True
      have "au_loop buf n ne r1 = (s, r')" using 1(4) c t unfolding eq by auto
      from 1(1)[OF c(1) ns_def c(2) nx_def ne_def refl c(3) rb_def c(4) u[symmetric] refl _ st(1) st(2)[OF t] this] t
      show ?thesis by simp
    qed
  qed
qed

lemma access_unit_ok:
  assumes "parse_ok out" "H264ParseAccessUnit buf n out = (s, scratch, out')"
  shows "parse_ok out' \<and> length scratch \<le> n \<and> data_inside (length scratch) out'"
    "s = H264_PARSE_OK \<Longrightarrow> pa_slice_data out' \<noteq> None"
    "s \<noteq> H264_PARSE_OK \<Longrightarrow> pa_prev_order out' = pa_prev_order out \<and> pa_prev_frame out' = pa_prev_frame out"
proof -
  let ?r = "\<lparr>ar_scratch = [], ar_order = pa_prev_order out, ar_frame = pa_prev_frame out, ar_out = reset_unit out\<rparr>"
  obtain t r where l: "au_loop buf n 0 ?r = (t, r)" by fastforce
  have i: "run_ok (pa_prev_order out) (pa_prev_frame out) n ?r" "has_data (ar_out ?r)"
    using assms(1) by (simp_all add: run_ok_def reset_unit_def parse_ok_def zero_slice_def zero_marks_def marks_ok_def data_inside_def has_data_def)
  have o: "run_ok (pa_prev_order out) (pa_prev_frame out) n r" "t = H264_PARSE_OK \<longrightarrow> has_data (ar_out r)"
    using au_loop_ok[OF i l] by simp_all
  note eq = assms(2)[unfolded H264ParseAccessUnit_def l Let_def prod.case]
  show "parse_ok out' \<and> length scratch \<le> n \<and> data_inside (length scratch) out'"
    using eq o(1) by (auto simp: run_ok_def parse_ok_def data_inside_def split: if_splits)
  show "s = H264_PARSE_OK \<Longrightarrow> pa_slice_data out' \<noteq> None"
    using eq o(2) by (auto simp: has_data_def split: if_splits)
  show "s \<noteq> H264_PARSE_OK \<Longrightarrow> pa_prev_order out' = pa_prev_order out \<and> pa_prev_frame out' = pa_prev_frame out"
    using eq o(1) by (auto simp: run_ok_def split: if_splits)
qed

definition zero_parse :: H264Parse where
  "zero_parse = \<lparr>pa_sps = zero_sps, pa_pps = zero_pps, pa_matrix = zero_sm, pa_slice = zero_slice, pa_decode = zero_decode,
     pa_has_sps = False, pa_has_pps = False, pa_has_matrix = False, pa_has_slice = False, pa_has_reorder = False, pa_max_reorder = 0,
     pa_colour = \<lparr>has_vui_colour = False, vui_full_range_flag = False, has_vui_colour_desc = False, vui_colour_primaries = 0,
       vui_transfer_characteristics = 0, vui_matrix_coefficients = 0\<rparr>,
     pa_slice_data = None, pa_prev_order = (0, 0), pa_prev_frame = (0, 0), pa_marks = zero_marks\<rparr>"

text \<open>Any sequence of access units, accepted or not, from the zeroed result of the engine.\<close>

inductive parse_reach :: "H264Parse \<Rightarrow> bool" where
  start: "parse_reach zero_parse"
| unit: "parse_reach out \<Longrightarrow> H264ParseAccessUnit buf n out = (s, scratch, out') \<Longrightarrow> parse_reach out'"

lemma parse_reach_ok: "parse_reach out \<Longrightarrow> parse_ok out"
proof (induction rule: parse_reach.induct)
  case start
  show ?case by (simp add: parse_ok_def zero_parse_def sps_ok_def zero_sps_def pps_ok_def zero_pps_def zero_slice_def zero_marks_def marks_ok_def)
next
  case (unit out buf n s scratch out')
  then show ?case using access_unit_ok(1) by blast
qed

text \<open>
  C9: after any sequence of access units, whatever their bytes and whether they were accepted or refused, the dimensions are at most
  512 by 512 macroblocks, the reorder bound is at most 16, the slice type is one of the five, the scaling matrix has its six lists
  of 16 and six of 64 entries, at most 16 marking commands with operations 1 to 6 and at most 32 modifications per list are
  recorded, and the slice data of the last unit lies inside the scratch buffer, which was not overrun.
\<close>

theorem parser_state_in_range:
  assumes "parse_reach out" "H264ParseAccessUnit buf n out = (s, scratch, out')"
  shows "sps_width_mbs (pa_sps out') \<le> 511 \<and> sps_height_map_units (pa_sps out') \<le> 511 \<and> pa_max_reorder out' \<le> 16 \<and>
     slice_type (pa_slice out') \<le> 4 \<and>
     map length (scaling_list_4x4 (pa_matrix out')) = replicate 6 16 \<and> map length (scaling_list_8x8 (pa_matrix out')) = replicate 6 64 \<and>
     length (mk_mmco (pa_marks out')) \<le> 16 \<and> set (map mmco_op (mk_mmco (pa_marks out'))) \<subseteq> {1..6} \<and>
     length (rplm_l0 (pa_marks out')) \<le> 32 \<and> length (rplm_l1 (pa_marks out')) \<le> 32 \<and>
     length scratch \<le> n \<and> (case pa_slice_data out' of None \<Rightarrow> s \<noteq> H264_PARSE_OK | Some (off, len) \<Rightarrow> off + len \<le> length scratch)"
proof -
  note a = access_unit_ok[OF parse_reach_ok[OF assms(1)] assms(2)]
  have p: "parse_ok out'" using a(1) by simp
  have m: "map length xs = replicate k j" if "length xs = k" "list_all (\<lambda>l. length l = j) xs" for xs :: "uint8 list list" and k j
    using that by (auto simp: list_eq_iff_nth_eq list_all_length)
  have d: "case pa_slice_data out' of None \<Rightarrow> s \<noteq> H264_PARSE_OK | Some (off, len) \<Rightarrow> off + len \<le> length scratch"
    using a(1,2) by (auto simp: data_inside_def split: option.splits)
  have "map length (scaling_list_4x4 (pa_matrix out')) = replicate 6 16" "map length (scaling_list_8x8 (pa_matrix out')) = replicate 6 64"
    by (rule m; use p in \<open>simp add: parse_ok_def matrix_ok_def\<close>)+
  moreover have "set (map mmco_op (mk_mmco (pa_marks out'))) \<subseteq> {1..6}"
    using p by (auto simp: parse_ok_def marks_ok_def mmco_ok_def list_all_iff)
  ultimately show ?thesis using p a(1) d by (simp add: parse_ok_def sps_ok_def marks_ok_def)
qed

text \<open>
  C25: an access unit that is not accepted, because of a malformed unit anywhere in it or because it has no slice, leaves the state
  from which the next order counts are derived as it was, even if slices before the malformed unit were parsed.
\<close>

theorem refused_unit_keeps_order_state:
  assumes "parse_reach out" "H264ParseAccessUnit buf n out = (s, scratch, out')" "s \<noteq> H264_PARSE_OK"
  shows "pa_prev_order out' = pa_prev_order out \<and> pa_prev_frame out' = pa_prev_frame out"
  using access_unit_ok(3)[OF parse_reach_ok[OF assms(1)] assms(2,3)] .

section \<open>Commands of several slices\<close>


section \<open>Examples\<close>

text \<open>
  Sequence and picture parameter set and an IDR slice; a slice of a type that does not exist; a predicted slice with one
  modification command.
\<close>

definition demo_unit :: "uint8 list" where
  "demo_unit = [0, 0, 1, 103, 66, 0, 30, 244, 242, 0, 0, 1, 104, 206, 56, 128, 0, 0, 1, 101, 136, 133, 138, 128]"

definition demo_bad :: "uint8 list" where
  "demo_bad = [0, 0, 1, 0x65, 0x84, 0x40, 0x80]"

definition demo_p_slice :: "uint8 list" where
  "demo_p_slice = [0, 0, 1, 97, 154, 36, 228, 84]"

theorem parser_state_in_range_witness:
  "case H264ParseAccessUnit demo_unit 64 zero_parse of (s, scratch, out) \<Rightarrow>
     s = H264_PARSE_OK \<and> pa_slice_data out = Some (14, 1) \<and> sps_width_mbs (pa_sps out) \<le> 511 \<and> slice_type (pa_slice out) \<le> 4 \<and> length scratch \<le> 64"
proof -
  obtain s scratch out where e: "H264ParseAccessUnit demo_unit 64 zero_parse = (s, scratch, out)" by (metis prod.exhaust)
  have "fst (H264ParseAccessUnit demo_unit 64 zero_parse) = H264_PARSE_OK"
    "pa_slice_data (snd (snd (H264ParseAccessUnit demo_unit 64 zero_parse))) = Some (14, 1)" by code_simp+
  then show ?thesis using parser_state_in_range[OF parse_reach.start e] by (simp add: e)
qed

theorem refused_unit_keeps_order_state_witness:
  "fst (H264ParseAccessUnit demo_unit 64 zero_parse) = H264_PARSE_OK \<and>
   pa_prev_order (snd (snd (H264ParseAccessUnit demo_unit 64 zero_parse))) = (0, 6) \<and>
   fst (H264ParseAccessUnit (demo_unit @ demo_bad) 64 zero_parse) = H264_PARSE_INVALID \<and>
   pa_prev_order (snd (snd (H264ParseAccessUnit (demo_unit @ demo_bad) 64 zero_parse))) = (0, 0)"
proof -
  obtain s scratch out where e: "H264ParseAccessUnit (demo_unit @ demo_bad) 64 zero_parse = (s, scratch, out)" by (metis prod.exhaust)
  have s: "fst (H264ParseAccessUnit (demo_unit @ demo_bad) 64 zero_parse) = H264_PARSE_INVALID" by code_simp
  then have "s \<noteq> H264_PARSE_OK" by (simp add: e)
  from refused_unit_keeps_order_state[OF parse_reach.start e this]
  have "pa_prev_order out = (0, 0)" by (simp add: zero_parse_def)
  moreover have "fst (H264ParseAccessUnit demo_unit 64 zero_parse) = H264_PARSE_OK"
    "pa_prev_order (snd (snd (H264ParseAccessUnit demo_unit 64 zero_parse))) = (0, 6)" by code_simp+
  ultimately show ?thesis using s by (simp add: e)
qed


end
