(* ===== verification/H264_Poc_Props.thy ===== *)
theory H264_Poc_Props
  imports H264_Access_Unit
begin

text \<open>
  The order counts of \<open>H264_Poc\<close> against the counts the encoder had: type 0 recovers them from their low bits, type 2 follows the
  decoding order, and all slices of a picture agree.
\<close>

section \<open>Arithmetic\<close>

lemma i32_id: "- 2147483648 \<le> i \<Longrightarrow> i < 2147483648 \<Longrightarrow> i32 i = i"
  by (simp add: i32_def signed_of_int signed_take_bit_int_eq_self)

lemma pow_i32_value: "unat l \<le> 12 \<Longrightarrow> pow_i32 l = 2 ^ (unat l + 4)"
proof -
  assume l: "unat l \<le> 12"
  have "(2 :: int) ^ (unat l + 4) \<le> 2 ^ 16" using l by (intro power_increasing) simp_all
  then have lt: "(2 :: int) ^ (unat l + 4) \<le> 65536" by simp
  have "push_bit (unat l + 4) (1 :: ULONG) = word_of_int (2 ^ (unat l + 4))" by (simp add: push_bit_eq_mult)
  then have "pow_i32 l = i32 (2 ^ (unat l + 4))" by (simp only: pow_i32_def i32_def)
  moreover have "0 \<le> (2 :: int) ^ (unat l + 4)" by simp
  then have "i32 (2 ^ (unat l + 4)) = 2 ^ (unat l + 4)" using lt by (intro i32_id) linarith+
  ultimately show ?thesis by simp
qed

lemma small16: "0 \<le> k \<Longrightarrow> k < 2 ^ 16 \<Longrightarrow> uint (word_of_int k :: uint16) = k"
  by (subst unsigned_of_int) (simp add: take_bit_int_eq_self)

text \<open>A count as the pair of its multiple of \<open>m\<close> and its remainder.\<close>

definition split_count :: "int \<Rightarrow> int \<Rightarrow> int \<times> int" where
  "split_count m q = (q - q mod m, q mod m)"

lemma msb_window:
  fixes m p q :: int
  assumes "0 < m" "even m" "- (m div 2) < p - q" "p - q \<le> m div 2"
  shows "(if p mod m < q mod m \<and> q mod m - p mod m \<ge> m div 2 then q - q mod m + m
          else if p mod m > q mod m \<and> p mod m - q mod m > m div 2 then q - q mod m - m else q - q mod m) = p - p mod m"
proof -
  define a where "a = p div m" define b where "b = q div m"
  have e: "p = a * m + p mod m" "q = b * m + q mod m" by (simp_all add: a_def b_def)
  have r: "0 \<le> p mod m" "p mod m < m" "0 \<le> q mod m" "q mod m < m" using assms(1) by simp_all
  obtain h where h: "m = 2 * h" using assms(2) by (elim evenE)
  have k: "(a - b) * m = (p - q) - (p mod m - q mod m)" using e by (simp add: algebra_simps)
  have "(a - b) * m < 2 * m" "- (2 * m) < (a - b) * m" using k r assms(3,4) h by linarith+
  then have "a - b < 2" "- 2 < a - b" using assms(1) by (simp_all add: mult_less_cancel_right_pos flip: mult_minus_left)
  then consider "a - b = -1" | "a - b = 0" | "a - b = 1" by linarith
  then show ?thesis
  proof cases
    case 1
    then have "(p - q) - (p mod m - q mod m) = - m" using k by simp
    then show ?thesis using r assms h by (auto simp: algebra_simps)
  next
    case 2
    then have "(p - q) - (p mod m - q mod m) = 0" using k by simp
    then show ?thesis using r assms h by (auto simp: algebra_simps)
  next
    case 3
    then have "(p - q) - (p mod m - q mod m) = m" using k by simp
    then show ?thesis using r assms h by (auto simp: algebra_simps)
  qed
qed

section \<open>Type 0\<close>

text \<open>A picture as the encoder sees it: its reference indication and its count, of which the header carries the low bits.\<close>

definition low_bits :: "int \<Rightarrow> int \<Rightarrow> v4l2_ctrl_h264_decode_params" where
  "low_bits m p = zero_decode\<lparr>pic_order_cnt_lsb := word_of_int (p mod m)\<rparr>"

fun type0_run :: "v4l2_ctrl_h264_sps \<Rightarrow> bool \<Rightarrow> int \<times> int \<Rightarrow> (uint8 \<times> v4l2_ctrl_h264_decode_params) list \<Rightarrow> int list" where
  "type0_run sps idr prev [] = []"
| "type0_run sps idr prev ((r, d) # ps) = (let (d', prev') = h264_compute_poc_type0 sps idr r d prev in dp_top d' # type0_run sps False prev' ps)"

text \<open>Every count is at most half the modulus away from that of the reference picture before it.\<close>

fun in_window :: "int \<Rightarrow> int \<Rightarrow> (uint8 \<times> int) list \<Rightarrow> bool" where
  "in_window m q [] = True"
| "in_window m q ((r, p) # ps) \<longleftrightarrow> - (m div 2) < p - q \<and> p - q \<le> m div 2 \<and> \<bar>p\<bar> < 2 ^ 30 \<and> in_window m (if r \<noteq> 0 then p else q) ps"

lemma type0_step:
  fixes m :: int
  assumes "unat (log2_max_pic_order_cnt_lsb_minus4 sps) \<le> 12" "m = 2 ^ (unat (log2_max_pic_order_cnt_lsb_minus4 sps) + 4)"
    "- (m div 2) < p - q" "p - q \<le> m div 2" "\<bar>p\<bar> < 2 ^ 30" "\<bar>q\<bar> < 2 ^ 30" "(if idr then q = 0 else prev = split_count m q)"
  shows "\<exists>d. h264_compute_poc_type0 sps idr r (low_bits m p) prev = (d, if r \<noteq> 0 then split_count m p else prev) \<and> dp_top d = p"
proof -
  have m: "0 < m" "even m" "m \<le> 65536" using assms(1,2) power_increasing[of "unat (log2_max_pic_order_cnt_lsb_minus4 sps) + 4" 16 "2 :: int"] by simp_all
  have rg: "0 \<le> p mod m" "p mod m < m" "0 \<le> q mod m" "q mod m < m" using m(1) by simp_all
  have mx: "pow_i32 (log2_max_pic_order_cnt_lsb_minus4 sps) = m" using pow_i32_value assms(1,2) by simp
  have lsb: "uint (pic_order_cnt_lsb (low_bits m p)) = p mod m"
    using small16[OF rg(1)] rg(2) m(3) by (simp add: low_bits_def)
  have pv: "(if idr then (0, 0) else prev) = (q - q mod m, q mod m)" using assms(7) by (simp add: split_count_def split: if_splits)
  have b: "\<bar>p\<bar> < 1073741824" "\<bar>q\<bar> < 1073741824" using assms(5,6) by simp_all
  have w: "i32 (q mod m - p mod m) = q mod m - p mod m" "i32 (p mod m - q mod m) = p mod m - q mod m"
    "i32 (q - q mod m + m) = q - q mod m + m" "i32 (q - q mod m - m) = q - q mod m - m"
    by (rule i32_id; use rg m(3) b in linarith)+
  note msb = msb_window[OF m(1,2) assms(3,4)]
  have t: "i32 (p - p mod m + p mod m) = p" using assms(5) by (simp add: i32_id)
  show ?thesis unfolding h264_compute_poc_type0_def mx lsb pv Let_def prod.case w msb t by (simp add: split_count_def)
qed

lemma type0_run_counts:
  fixes m :: int
  assumes "unat (log2_max_pic_order_cnt_lsb_minus4 sps) \<le> 12" "m = 2 ^ (unat (log2_max_pic_order_cnt_lsb_minus4 sps) + 4)"
  shows "in_window m q ps \<Longrightarrow> \<bar>q\<bar> < 2 ^ 30 \<Longrightarrow>
    type0_run sps False (split_count m q) (map (\<lambda>(r, p). (r, low_bits m p)) ps) = map snd ps"
proof (induction ps arbitrary: q)
  case (Cons x ps)
  obtain r p where x: "x = (r, p)" by fastforce
  have i: "- (m div 2) < p - q" "p - q \<le> m div 2" "\<bar>p\<bar> < 2 ^ 30" "in_window m (if r \<noteq> 0 then p else q) ps"
    using Cons.prems(1) by (simp_all add: x)
  obtain d where d: "h264_compute_poc_type0 sps False r (low_bits m p) (split_count m q) =
      (d, if r \<noteq> 0 then split_count m p else split_count m q)" "dp_top d = p"
    using type0_step[OF assms i(1-3) Cons.prems(2), of False "split_count m q" r] by auto
  have s: "(if r \<noteq> 0 then split_count m p else split_count m q) = split_count m (if r \<noteq> 0 then p else q)" by simp
  have "\<bar>if r \<noteq> 0 then p else q\<bar> < 2 ^ 30" using i(3) Cons.prems(2) by simp
  from Cons.IH[OF i(4) this] show ?case by (simp only: x list.map prod.case type0_run.simps d(1) s Let_def d(2) snd_conv)
qed simp

text \<open>
  C11: for a coded video sequence that starts with a reference IDR picture of count 0 and in which every count is within half the
  range of the count of the reference picture before it, the derivation returns exactly the counts of the encoder from their low
  bits, whatever state earlier sequences left behind.
\<close>

theorem poc_type0_recovers_counts:
  assumes "unat (log2_max_pic_order_cnt_lsb_minus4 sps) \<le> 12" "m = 2 ^ (unat (log2_max_pic_order_cnt_lsb_minus4 sps) + 4)"
    "in_window m 0 pics" "idr_ref \<noteq> 0"
  shows "type0_run sps True stale ((idr_ref, low_bits m 0) # map (\<lambda>(r, p). (r, low_bits m p)) pics) = 0 # map snd pics"
proof -
  have m: "0 < m div 2" using assms(2) by (simp add: power_add)
  obtain d where "h264_compute_poc_type0 sps True idr_ref (low_bits m 0) stale = (d, split_count m 0)" "dp_top d = 0"
    using type0_step[OF assms(1,2), of 0 0 True stale idr_ref] m assms(4) by fastforce
  then show ?thesis using type0_run_counts[OF assms(1,2,3)] by simp
qed

theorem poc_type0_recovers_counts_witness:
  "type0_run zero_sps True (1600, 3) [(3, low_bits 16 0), (2, low_bits 16 8), (0, low_bits 16 4), (0, low_bits 16 6), (2, low_bits 16 16),
     (0, low_bits 16 12)] = [0, 8, 4, 6, 16, 12]"
proof -
  have "in_window 16 0 [(2, 8), (0, 4), (0, 6), (2, 16), (0, 12)]" by simp
  from poc_type0_recovers_counts[OF _ _ this, of zero_sps 3 "(1600, 3)"] show ?thesis by (simp add: zero_sps_def)
qed

section \<open>Types 1 and 2\<close>

text \<open>A picture by the number of reference frames before it, of which the header carries the low bits.\<close>

definition frame_bits :: "int \<Rightarrow> int \<Rightarrow> v4l2_ctrl_h264_decode_params" where
  "frame_bits m n = zero_decode\<lparr>dp_frame_num := word_of_int (n mod m)\<rparr>"

lemma frame_window:
  fixes m n k :: int
  assumes "0 < m" "k \<le> n" "n < k + m"
  shows "(if k mod m > n mod m then k - k mod m + m else k - k mod m) = n - n mod m"
proof -
  define a where "a = n div m" define b where "b = k div m"
  have r: "0 \<le> n mod m" "n mod m < m" "0 \<le> k mod m" "k mod m < m" using assms(1) by simp_all
  have e: "(a - b) * m = (n - k) - (n mod m - k mod m)" by (simp add: a_def b_def algebra_simps minus_mod_eq_mult_div)
  have "(a - b) * m < 2 * m" "(- 1) * m < (a - b) * m" using e r assms(2,3) by linarith+
  then have "a - b < 2" "- 1 < a - b" using assms(1) mult_less_cancel_right_pos by blast+
  then consider "a - b = 0" | "a - b = 1" by linarith
  then show ?thesis using e r assms by cases (auto simp: algebra_simps)
qed

fun type2_run :: "v4l2_ctrl_h264_sps \<Rightarrow> bool \<Rightarrow> int \<times> int \<Rightarrow> (uint8 \<times> v4l2_ctrl_h264_decode_params) list \<Rightarrow> int list" where
  "type2_run sps idr prev [] = []"
| "type2_run sps idr prev ((r, d) # ps) = (let (d', prev') = h264_compute_poc_type2 sps idr r d prev in dp_top d' # type2_run sps False prev' ps)"

text \<open>
  The frame numbers of the standard without gaps: one more after a reference picture, unchanged after another one, of which there
  are never two in a row.
\<close>

fun frame_steps :: "bool \<Rightarrow> int \<Rightarrow> (uint8 \<times> int) list \<Rightarrow> bool" where
  "frame_steps was_ref k [] = True"
| "frame_steps was_ref k ((r, n) # ps) \<longleftrightarrow> n = (if was_ref then k + 1 else k) \<and> (\<not> was_ref \<longrightarrow> r \<noteq> 0) \<and> n < 2 ^ 29 \<and> frame_steps (r \<noteq> 0) n ps"

definition spec_poc :: "uint8 \<times> int \<Rightarrow> int" where
  "spec_poc p = (if fst p = 0 then 2 * snd p - 1 else 2 * snd p)"

lemma type2_step:
  fixes m :: int
  assumes "unat (sps_log2_max_frame_num_minus4 sps) \<le> 12" "m = 2 ^ (unat (sps_log2_max_frame_num_minus4 sps) + 4)"
    "0 \<le> k" "k \<le> n" "n < k + m" "n < 2 ^ 29"
  shows "\<exists>d. h264_compute_poc_type2 sps False r (frame_bits m n) (k mod m, k - k mod m) = (d, n mod m, n - n mod m) \<and> dp_top d = spec_poc (r, n)"
proof -
  have m: "0 < m" "m \<le> 65536" using assms(1,2) power_increasing[of "unat (sps_log2_max_frame_num_minus4 sps) + 4" 16 "2 :: int"] by simp_all
  have rg: "0 \<le> n mod m" "n mod m < m" "0 \<le> k mod m" "k mod m < m" "0 \<le> k - k mod m"
    using m(1) assms(3) by (simp_all add: zmod_le_nonneg_dividend)
  have mx: "pow_i32 (sps_log2_max_frame_num_minus4 sps) = m" using pow_i32_value assms(1,2) by simp
  have cur: "uint (dp_frame_num (frame_bits m n)) = n mod m"
    using small16[OF rg(1)] rg(2) m(2) by (simp add: frame_bits_def)
  have b: "n < 536870912" using assms(6) by simp
  have w: "i32 (k - k mod m + m) = k - k mod m + m" by (rule i32_id; use rg m(2) assms(3-5) b in linarith)
  have off: "frame_num_offset sps False (n mod m) (k mod m, k - k mod m) = n - n mod m"
    unfolding frame_num_offset_def mx fst_conv snd_conv w using frame_window[OF m(1) assms(4,5)] by simp
  have z: "i32 (2 * (n - n mod m + n mod m) - 1) = 2 * n - 1" "i32 (2 * (n - n mod m + n mod m)) = 2 * n"
    using assms(3,4,6) by (simp_all add: i32_id)
  show ?thesis unfolding h264_compute_poc_type2_def cur off Let_def z by (simp add: spec_poc_def)
qed

lemma type2_run_counts:
  fixes m :: int
  assumes "unat (sps_log2_max_frame_num_minus4 sps) \<le> 12" "m = 2 ^ (unat (sps_log2_max_frame_num_minus4 sps) + 4)"
  shows "frame_steps b k ps \<Longrightarrow> 0 \<le> k \<Longrightarrow>
    type2_run sps False (k mod m, k - k mod m) (map (\<lambda>(r, n). (r, frame_bits m n)) ps) = map spec_poc ps"
proof (induction ps arbitrary: b k)
  case (Cons x ps)
  obtain r n where x: "x = (r, n)" by fastforce
  have i: "k \<le> n" "n \<le> k + 1" "n < 2 ^ 29" "frame_steps (r \<noteq> 0) n ps" using Cons.prems(1) by (auto simp: x split: if_splits)
  have "1 < m" using assms(2) one_less_power[of "2 :: int" "unat (sps_log2_max_frame_num_minus4 sps) + 4"] by simp
  then have "n < k + m" using i(2) by linarith
  from type2_step[OF assms Cons.prems(2) i(1) this i(3), of r]
  obtain d where d: "h264_compute_poc_type2 sps False r (frame_bits m n) (k mod m, k - k mod m) = (d, n mod m, n - n mod m)" "dp_top d = spec_poc (r, n)"
    by blast
  have "0 \<le> n" using i(1) Cons.prems(2) by simp
  from Cons.IH[OF i(4) this] show ?case by (simp only: x list.map prod.case type2_run.simps d(1) Let_def d(2))
qed simp

lemma spec_poc_bound: "frame_steps b k ps \<Longrightarrow> p \<in> set ps \<Longrightarrow> (if b then 2 * k else 2 * k - 1) < spec_poc p"
proof (induction ps arbitrary: b k)
  case (Cons x ps)
  obtain r n where x: "x = (r, n)" by fastforce
  show ?case
  proof (cases "p = x")
    case True
    then show ?thesis using Cons.prems(1) by (auto simp: x spec_poc_def split: if_splits)
  next
    case False
    then have "(if r \<noteq> 0 then 2 * n else 2 * n - 1) < spec_poc p" using Cons.IH[of "r \<noteq> 0" n] Cons.prems unfolding x frame_steps.simps by auto
    moreover have "n = (if b then k + 1 else k)" "b \<or> r \<noteq> 0" using Cons.prems(1) by (auto simp: x)
    ultimately show ?thesis by (cases b; cases "r = 0") simp_all
  qed
qed simp

lemma spec_poc_increasing: "frame_steps b k ps \<Longrightarrow> sorted_wrt (<) (map spec_poc ps)"
proof (induction ps arbitrary: b k)
  case (Cons x ps)
  obtain r n where x: "x = (r, n)" by fastforce
  have f: "frame_steps (r \<noteq> 0) n ps" using Cons.prems unfolding x frame_steps.simps by blast
  have e: "spec_poc x = (if r \<noteq> 0 then 2 * n else 2 * n - 1)" by (simp add: x spec_poc_def)
  have "\<forall>p \<in> set ps. spec_poc x < spec_poc p" unfolding e using spec_poc_bound[OF f] by blast
  then show ?case using Cons.IH[OF f] by simp
qed simp

text \<open>
  C26: for streams whose output order is the decoding order, with frame numbers that follow the standard across any number of
  wrap-arounds, the derived counts are twice the frame counter, one less for pictures that are not references, and increase
  strictly from the IDR picture on, whatever state earlier sequences left behind.
\<close>

theorem poc_type2_follows_decoding_order:
  assumes "unat (sps_log2_max_frame_num_minus4 sps) \<le> 12" "m = 2 ^ (unat (sps_log2_max_frame_num_minus4 sps) + 4)"
    "frame_steps True 0 pics"
  shows "type2_run sps True stale ((idr_ref, frame_bits m 0) # map (\<lambda>(r, n). (r, frame_bits m n)) pics) = 0 # map spec_poc pics \<and>
    sorted_wrt (<) (0 # map spec_poc pics)"
proof -
  have "h264_compute_poc_type2 sps True idr_ref (frame_bits m 0) stale = ((frame_bits m 0)\<lparr>dp_top := 0, dp_bottom := 0\<rparr>, 0 mod m, 0 - 0 mod m)"
    by (simp add: h264_compute_poc_type2_def frame_num_offset_def frame_bits_def)
  moreover have "\<forall>p \<in> set pics. 0 < spec_poc p" using spec_poc_bound[OF assms(3)] by fastforce
  ultimately show ?thesis using type2_run_counts[OF assms(1,2,3)] spec_poc_increasing[OF assms(3)] by simp
qed

theorem poc_type2_follows_decoding_order_witness:
  "type2_run zero_sps True (7, 1600) [(1, frame_bits 16 0), (0, frame_bits 16 1), (1, frame_bits 16 1), (1, frame_bits 16 2)] = [0, 1, 2, 4]"
proof -
  have "frame_steps True 0 [(0, 1), (1, 1), (1, 2)]" by simp
  from poc_type2_follows_decoding_order[OF _ _ this, of zero_sps 16 "(7, 1600)" 1] show ?thesis by (simp add: zero_sps_def spec_poc_def)
qed

section \<open>Slices of a picture\<close>

text \<open>
  C27: deriving the order count again for a further slice of the same picture, with the state the first slice left behind, gives the
  same counts and the same state, for all three types, references and IDR pictures or not.
\<close>

theorem slices_share_order_count:
  "let (d, order', frame') = slice_poc sps ref_idc decode order frame
   in slice_poc sps ref_idc decode order' frame' = (d, order', frame')"
  by (cases order; cases frame) (auto simp: slice_poc_def h264_compute_poc_type0_def h264_compute_poc_type1_def h264_compute_poc_type2_def
    frame_num_offset_def Let_def)

end
