(* ===== verification/H264_Roundtrip.thy ===== *)
theory H264_Roundtrip
  imports H264_Syntax
begin

text \<open>
  The parameter set parsers invert the syntax of the standard. \<open>reads m bits v\<close> says that a reader consumes exactly the code words
  \<open>bits\<close> and returns \<open>v\<close>, whatever follows, and latches no failure; it composes along the bind of the state monad.
\<close>

section \<open>Readers and code words\<close>

definition reads :: "'a reader \<Rightarrow> bool list \<Rightarrow> 'a \<Rightarrow> bool" where
  "reads m bits v \<longleftrightarrow> (\<forall>br bs. rest br = bits @ bs \<and> \<not> br_fail br \<longrightarrow> run_state m br = (v, skip_bits (length bits) br))"

lemma readsI: "(\<And>br bs. rest br = bits @ bs \<Longrightarrow> \<not> br_fail br \<Longrightarrow> run_state m br = (v, skip_bits (length bits) br)) \<Longrightarrow> reads m bits v"
  by (simp add: reads_def)

lemma readsD: "reads m bits v \<Longrightarrow> rest br = bits @ bs \<Longrightarrow> \<not> br_fail br \<Longrightarrow> run_state m br = (v, skip_bits (length bits) br)"
  by (simp add: reads_def)

lemma skip_fail [simp]: "br_fail (skip_bits n br) = br_fail br"
  by (simp add: skip_bits_def)

lemma reads_return: "w = v \<Longrightarrow> reads (State_Monad.return w) [] v"
  by (rule readsI) simp

lemma reads_bind: "reads m b1 x \<Longrightarrow> reads (f x) b2 v \<Longrightarrow> reads (m \<bind> f) (b1 @ b2) v"
proof (rule readsI)
  fix br bs assume m: "reads m b1 x" and f: "reads (f x) b2 v" and r: "rest br = (b1 @ b2) @ bs" and n: "\<not> br_fail br"
  have 1: "run_state m br = (x, skip_bits (length b1) br)" by (rule readsD[OF m, of _ "b2 @ bs"]) (use r n in simp_all)
  have "run_state (f x) (skip_bits (length b1) br) = (v, skip_bits (length b2) (skip_bits (length b1) br))"
    by (rule readsD[OF f, of _ bs]) (use r n in simp_all)
  then show "run_state (m \<bind> f) br = (v, skip_bits (length (b1 @ b2)) br)" using 1 by simp
qed

lemma reads_bind_end: "reads m b x \<Longrightarrow> reads (f x) [] v \<Longrightarrow> reads (m \<bind> f) b v"
  using reads_bind[of m b x f "[]" v] by simp

lemma reads_skip: "reads m [] x \<Longrightarrow> reads (f x) b v \<Longrightarrow> reads (m \<bind> f) b v"
  using reads_bind[of m "[]" x f b v] by simp

lemma reads_u: "v < 2 ^ n \<Longrightarrow> n \<le> 32 \<Longrightarrow> reads (br_u n) (nat_bits n v) (of_nat v)"
  by (rule readsI) (simp add: br_u_rest bits_val_nat_bits)

lemma reads_u1: "reads br_u1 [b] b"
  by (rule readsI) (use br_u1_rest in simp)

lemma reads_ue: "k < 2 ^ 32 - 1 \<Longrightarrow> reads br_ue (ue_code k) (of_nat k)"
  by (rule readsI) (rule br_ue_code)

lemma reads_se: "\<bar>i\<bar> < 2 ^ 31 - 1 \<Longrightarrow> reads br_se (se_code i) i"
  by (rule readsI) (rule br_se_code)

lemma reads_failed: "reads br_failed [] False"
  by (rule readsI) (simp add: br_failed_def)

lemma reads_if: "(b \<Longrightarrow> reads m b1 v) \<Longrightarrow> (\<not> b \<Longrightarrow> reads n b2 v) \<Longrightarrow> reads (if b then m else n) (if b then b1 else b2) v"
  by simp

lemma reads_Let: "reads (f y) b v \<Longrightarrow> reads (Let y f) b v"
  by simp

lemmas reads_rules = reads_bind reads_u reads_u1 reads_ue reads_se reads_Let

text \<open>Values below the bounds of their fields survive the casts.\<close>

lemma ucast_small8: "k < 256 \<Longrightarrow> (ucast (of_nat k :: ULONG) :: uint8) = of_nat k"
  by (subst unsigned_of_nat) (simp add: take_bit_nat_eq_self)

section \<open>Scaling lists\<close>

text \<open>The differences an encoder sends for the values of a list in scan order.\<close>

fun scaling_code :: "int \<Rightarrow> int list \<Rightarrow> bool list" where
  "scaling_code p [] = []"
| "scaling_code p (v # vs) = se_code ((v - p + 128) mod 256 - 128) @ scaling_code v vs"

definition zigzag :: "nat \<Rightarrow> nat list" where
  "zigzag n = (if n = 16 then kH264ZigZag4x4 else kH264ZigZag8x8)"

lemma delta_sum: "0 < v \<Longrightarrow> v < 256 \<Longrightarrow> (p + ((v - p + 128) mod 256 - 128) + 256) mod 256 = (v :: int)"
proof -
  assume v: "0 < v" "v < 256"
  have "(p + ((v - p + 128) mod 256 - 128) + 256) mod 256 = ((p + 128) + (v - p + 128) mod 256) mod 256" by (simp add: algebra_simps)
  also have "\<dots> = ((p + 128) + (v - p + 128)) mod 256" by (rule mod_add_right_eq)
  also have "\<dots> = v" using v by simp
  finally show ?thesis .
qed

lemma reads_scaling_loop:
  "list_all (\<lambda>z. tgt ! z \<noteq> 0) zz \<Longrightarrow> 0 < p \<Longrightarrow>
   reads (scaling_loop zz first p p p lst) (scaling_code p (map (\<lambda>z. uint (tgt ! z)) zz)) (fold (\<lambda>z l. l[z := tgt ! z]) zz lst, False)"
proof (induction zz arbitrary: first p lst)
  case Nil
  show ?case by (simp add: reads_return)
next
  case (Cons z zz)
  let ?v = "uint (tgt ! z)"
  let ?d = "(?v - p + 128) mod 256 - 128"
  have "?v \<noteq> 0" using Cons.prems(1) by (simp add: unsigned_eq_0_iff)
  then have v: "0 < ?v" "?v < 256" using uint_lt2p[of "tgt ! z"] order_le_neq_trans[OF uint_ge_0[of "tgt ! z"]] by auto
  have d: "\<bar>?d\<bar> < 2 ^ 31 - 1" using pos_mod_bound[of 256 "?v - p + 128"] pos_mod_sign[of 256 "?v - p + 128"] by simp
  have s: "(p + ?d + 256) mod 256 = ?v" using delta_sum[OF v] .
  have w: "word_of_int ?v = tgt ! z" by simp
  have ih: "reads (scaling_loop zz False ?v ?v ?v (lst[z := tgt ! z])) (scaling_code ?v (map (\<lambda>z. uint (tgt ! z)) zz))
      (fold (\<lambda>z l. l[z := tgt ! z]) (z # zz) lst, False)"
    using Cons.IH[of ?v False "lst[z := tgt ! z]"] Cons.prems(1) v(1) by simp
  have b: "reads (do { delta \<leftarrow> br_se; State_Monad.return ((p + delta + 256) mod 256) }) (se_code ?d) ?v"
    by (rule reads_bind_end[OF reads_se[OF d]]) (rule reads_return[OF s])
  have "p \<noteq> 0" "?v \<noteq> 0" using Cons.prems(2) v(1) by simp_all
  then show ?case unfolding scaling_loop.simps list.map scaling_code.simps
    by (intro reads_bind[of _ _ ?v]) (simp_all only: if_P if_not_P b ih w not_False_eq_True simp_thms Let_def if_True if_False)
qed

lemma fold_update: "z < length lst \<Longrightarrow> length (fold (\<lambda>z l. l[z := tgt ! z]) zz lst) = length lst \<and>
   fold (\<lambda>z l. l[z := tgt ! z]) zz lst ! z = (if z \<in> set zz then tgt ! z else lst ! z)"
  by (induction zz arbitrary: lst) (auto simp: nth_list_update)

lemma zigzag_set: "n = 16 \<or> n = 64 \<Longrightarrow> set (zigzag n) = {0..<n}"
proof -
  have "set kH264ZigZag4x4 = {0..<16}" "set kH264ZigZag8x8 = {0..<64}" by code_simp+
  then show "n = 16 \<or> n = 64 \<Longrightarrow> ?thesis" by (auto simp: zigzag_def)
qed

lemma reads_scaling_list:
  assumes "n = 16 \<or> n = 64" "length tgt = n" "0 \<notin> set tgt" "length lst = n"
  shows "reads (parse_scaling_list lst n) (scaling_code 8 (map (\<lambda>z. uint (tgt ! z)) (zigzag n))) (tgt, False)"
proof -
  have z: "list_all (\<lambda>z. tgt ! z \<noteq> 0) (zigzag n)"
    using assms(2,3) zigzag_set[OF assms(1)] by (auto simp: list_all_iff in_set_conv_nth)
  have "fold (\<lambda>z l. l[z := tgt ! z]) (zigzag n) lst = tgt"
  proof (rule nth_equalityI)
    show "length (fold (\<lambda>z l. l[z := tgt ! z]) (zigzag n) lst) = length tgt"
      using fold_update[of 0 lst tgt "zigzag n"] assms by (cases "0 < length lst") auto
    fix i assume "i < length (fold (\<lambda>z l. l[z := tgt ! z]) (zigzag n) lst)"
    then have "i < n" using fold_update[of 0 lst tgt "zigzag n"] assms by (cases "0 < length lst") auto
    then show "fold (\<lambda>z l. l[z := tgt ! z]) (zigzag n) lst ! i = tgt ! i"
      using fold_update[of i lst tgt "zigzag n"] assms zigzag_set[OF assms(1)] by simp
  qed
  then show ?thesis using reads_scaling_loop[OF z, of 8 True lst] by (simp add: parse_scaling_list_def zigzag_def)
qed

section \<open>Sequence parameter sets\<close>

text \<open>
  The syntax elements of a sequence parameter set: scaling lists as raster lists if they are sent, offsets of the order count cycle,
  cropping, and of the usability information the reorder bound.
\<close>

record sps_syntax =
  sx_profile :: nat
  sx_constraints :: nat
  sx_level :: nat
  sx_id :: nat
  sx_chroma :: nat
  sx_separate :: bool
  sx_luma_depth :: nat
  sx_chroma_depth :: nat
  sx_bypass :: bool
  sx_lists :: "uint8 list option list option"
  sx_log2_frame :: nat
  sx_order_type :: nat
  sx_log2_lsb :: nat
  sx_delta_zero :: bool
  sx_non_ref :: int
  sx_top_bottom :: int
  sx_cycle :: "int list"
  sx_refs :: nat
  sx_gaps :: bool
  sx_width :: nat
  sx_height :: nat
  sx_frames_only :: bool
  sx_adaptive :: bool
  sx_direct :: bool
  sx_crop :: "(nat \<times> nat \<times> nat \<times> nat) option"
  sx_reorder :: "nat option"

definition sx_high :: "sps_syntax \<Rightarrow> bool" where
  "sx_high x \<longleftrightarrow> high_profile (of_nat (sx_profile x))"

fun lists_code :: "nat \<Rightarrow> uint8 list option list \<Rightarrow> bool list" where
  "lists_code i [] = []"
| "lists_code i (None # ls) = [False] @ lists_code (Suc i) ls"
| "lists_code i (Some l # ls) = [True] @ scaling_code 8 (map (\<lambda>z. uint (l ! z)) (zigzag (if i < 6 then 16 else 64))) @ lists_code (Suc i) ls"

fun lists_ok :: "nat \<Rightarrow> uint8 list option list \<Rightarrow> bool" where
  "lists_ok i [] = True"
| "lists_ok i (None # ls) = lists_ok (Suc i) ls"
| "lists_ok i (Some l # ls) \<longleftrightarrow> length l = (if i < 6 then 16 else 64) \<and> 0 \<notin> set l \<and> lists_ok (Suc i) ls"

text \<open>What the matrix holds then: lists that are not sent stay as they are.\<close>

fun put_lists :: "nat \<Rightarrow> uint8 list option list \<Rightarrow> v4l2_ctrl_h264_scaling_matrix \<Rightarrow> v4l2_ctrl_h264_scaling_matrix" where
  "put_lists i [] sm = sm"
| "put_lists i (None # ls) sm = put_lists (Suc i) ls sm"
| "put_lists i (Some l # ls) sm = put_lists (Suc i) ls
     (if i < 6 then sm\<lparr>scaling_list_4x4 := (scaling_list_4x4 sm)[i := l]\<rparr> else sm\<lparr>scaling_list_8x8 := (scaling_list_8x8 sm)[i - 6 := l]\<rparr>)"

definition fidelity_code :: "sps_syntax \<Rightarrow> bool list" where
  "fidelity_code x = (if sx_high x
     then ue_code (sx_chroma x) @ (if sx_chroma x = 3 then [sx_separate x] else []) @ ue_code (sx_luma_depth x) @ ue_code (sx_chroma_depth x) @
       [sx_bypass x] @ (case sx_lists x of None \<Rightarrow> [False] | Some ls \<Rightarrow> [True] @ lists_code 0 ls)
     else [])"

definition order_code :: "sps_syntax \<Rightarrow> bool list" where
  "order_code x = ue_code (sx_log2_frame x) @ ue_code (sx_order_type x) @
     (if sx_order_type x = 0 then ue_code (sx_log2_lsb x)
      else if sx_order_type x = 1
      then [sx_delta_zero x] @ se_code (sx_non_ref x) @ se_code (sx_top_bottom x) @ ue_code (length (sx_cycle x)) @ concat (map se_code (sx_cycle x))
      else [])"

definition crop_code :: "(nat \<times> nat \<times> nat \<times> nat) option \<Rightarrow> bool list" where
  "crop_code c = (case c of None \<Rightarrow> [False] | Some (a, b, d, e) \<Rightarrow> [True] @ ue_code a @ ue_code b @ ue_code d @ ue_code e)"

definition vui_code :: "nat option \<Rightarrow> bool list" where
  "vui_code r = (case r of None \<Rightarrow> [False]
     | Some mr \<Rightarrow> [True] @ replicate 8 False @ [True, True] @ ue_code 0 @ ue_code 0 @ ue_code 0 @ ue_code 0 @ ue_code mr @ ue_code mr)"

definition sps_code :: "sps_syntax \<Rightarrow> bool list" where
  "sps_code x = nat_bits 8 (sx_profile x) @ nat_bits 8 (sx_constraints x) @ nat_bits 8 (sx_level x) @ ue_code (sx_id x) @
     fidelity_code x @ order_code x @ ue_code (sx_refs x) @ [sx_gaps x] @ ue_code (sx_width x) @ ue_code (sx_height x) @
     [sx_frames_only x] @ (if sx_frames_only x then [] else [sx_adaptive x]) @ [sx_direct x] @ crop_code (sx_crop x) @ vui_code (sx_reorder x)"

definition sps_syntax_ok :: "sps_syntax \<Rightarrow> bool" where
  "sps_syntax_ok x \<longleftrightarrow> sx_profile x < 256 \<and> sx_constraints x < 256 \<and> sx_level x < 256 \<and> sx_id x < 256 \<and> sx_chroma x < 256 \<and>
     sx_luma_depth x < 256 \<and> sx_chroma_depth x < 256 \<and> sx_log2_frame x < 256 \<and> sx_order_type x < 256 \<and> sx_log2_lsb x < 256 \<and>
     \<bar>sx_non_ref x\<bar> < 2 ^ 31 - 1 \<and> \<bar>sx_top_bottom x\<bar> < 2 ^ 31 - 1 \<and> list_all (\<lambda>i. \<bar>i\<bar> < 2 ^ 31 - 1) (sx_cycle x) \<and> length (sx_cycle x) \<le> 255 \<and>
     sx_refs x < 256 \<and> sx_width x \<le> 511 \<and> sx_height x \<le> 511 \<and>
     (case sx_lists x of None \<Rightarrow> True | Some ls \<Rightarrow> length ls = (if sx_chroma x = 3 then 12 else 8) \<and> lists_ok 0 ls) \<and>
     (case sx_crop x of None \<Rightarrow> True | Some (a, b, c, d) \<Rightarrow> a < 2 ^ 31 \<and> b < 2 ^ 31 \<and> c < 2 ^ 31 \<and> d < 2 ^ 31) \<and>
     (case sx_reorder x of None \<Rightarrow> True | Some mr \<Rightarrow> mr < 2 ^ 31)"

text \<open>The control structure that belongs to the syntax elements.\<close>

definition sps_of :: "sps_syntax \<Rightarrow> v4l2_ctrl_h264_sps" where
  "sps_of x = \<lparr>profile_idc = of_nat (sx_profile x), constraint_set_flags = of_nat (sx_constraints x), level_idc = of_nat (sx_level x),
     sps_seq_id = of_nat (sx_id x), chroma_format_idc = (if sx_high x then of_nat (sx_chroma x) else 1),
     bit_depth_luma_minus8 = (if sx_high x then of_nat (sx_luma_depth x) else 0),
     bit_depth_chroma_minus8 = (if sx_high x then of_nat (sx_chroma_depth x) else 0),
     sps_log2_max_frame_num_minus4 = of_nat (sx_log2_frame x), pic_order_cnt_type = of_nat (sx_order_type x),
     log2_max_pic_order_cnt_lsb_minus4 = (if sx_order_type x = 0 then of_nat (sx_log2_lsb x) else 0),
     sps_num_ref_frames = of_nat (sx_refs x),
     num_ref_frames_in_pic_order_cnt_cycle = (if sx_order_type x = 1 then of_nat (length (sx_cycle x)) else 0),
     offset_for_ref_frame = (if sx_order_type x = 1 then sx_cycle x @ replicate (255 - length (sx_cycle x)) 0 else replicate 255 0),
     offset_for_non_ref_pic = (if sx_order_type x = 1 then sx_non_ref x else 0),
     offset_for_top_to_bottom_field = (if sx_order_type x = 1 then sx_top_bottom x else 0),
     sps_width_mbs = of_nat (sx_width x), sps_height_map_units = of_nat (sx_height x),
     sps_flags = flag_if (sx_high x \<and> sx_chroma x = 3 \<and> sx_separate x) V4L2_H264_SPS_FLAG_SEPARATE_COLOUR_PLANE OR
       flag_if (sx_high x \<and> sx_bypass x) V4L2_H264_SPS_FLAG_QPPRIME_Y_ZERO_TRANSFORM_BYPASS OR
       flag_if (sx_order_type x = 1 \<and> sx_delta_zero x) V4L2_H264_SPS_FLAG_DELTA_PIC_ORDER_ALWAYS_ZERO OR
       flag_if (sx_gaps x) V4L2_H264_SPS_FLAG_GAPS_IN_FRAME_NUM_VALUE_ALLOWED OR
       flag_if (sx_frames_only x) V4L2_H264_SPS_FLAG_FRAME_MBS_ONLY OR
       flag_if (\<not> sx_frames_only x \<and> sx_adaptive x) V4L2_H264_SPS_FLAG_MB_ADAPTIVE_FRAME_FIELD OR
       flag_if (sx_direct x) V4L2_H264_SPS_FLAG_DIRECT_8X8_INFERENCE\<rparr>"

lemma ue8: "k < 256 \<Longrightarrow> reads br_ue (ue_code k) (of_nat k)"
  by (rule reads_ue) simp

lemma of_nat_8_eq: "k < 256 \<Longrightarrow> j < 256 \<Longrightarrow> (of_nat k :: uint8) = of_nat j \<longleftrightarrow> k = j"
proof -
  assume "k < 256" "j < 256"
  moreover have "unat (of_nat k :: uint8) = k" if "k < 256" for k using that by (simp add: unsigned_of_nat take_bit_nat_eq_self)
  ultimately show ?thesis by metis
qed

lemma small_8: "k < 256 \<Longrightarrow> (of_nat k :: uint8) = 3 \<longleftrightarrow> k = 3" "k < 256 \<Longrightarrow> (of_nat k :: uint8) = 0 \<longleftrightarrow> k = 0" "k < 256 \<Longrightarrow> (of_nat k :: uint8) = 1 \<longleftrightarrow> k = 1"
  using of_nat_8_eq[of k 3] of_nat_8_eq[of k 0] of_nat_8_eq[of k 1] by simp_all

lemma reads_lists:
  "lists_ok i ls \<Longrightarrow> i + length ls \<le> 12 \<Longrightarrow> length (scaling_list_4x4 sm) = 6 \<Longrightarrow> list_all (\<lambda>l. length l = 16) (scaling_list_4x4 sm) \<Longrightarrow>
   length (scaling_list_8x8 sm) = 6 \<Longrightarrow> list_all (\<lambda>l. length l = 64) (scaling_list_8x8 sm) \<Longrightarrow>
   reads (sps_lists [i..<i + length ls] sm) (lists_code i ls) (put_lists i ls sm)"
proof (induction i ls arbitrary: sm rule: lists_ok.induct)
  case (1 i)
  show ?case by (simp add: reads_return)
next
  case (2 i ls)
  have u: "[i..<i + length (None # ls)] = i # [Suc i..<Suc i + length ls]" by (simp add: upt_conv_Cons del: upt_Suc)
  show ?case unfolding u sps_lists.simps lists_code.simps put_lists.simps
    by (rule reads_bind[OF reads_u1], rule reads_skip[of _ sm], simp add: reads_return, rule 2(1)) (use 2 in simp_all)
next
  case (3 i l ls)
  have u: "[i..<i + length (Some l # ls)] = i # [Suc i..<Suc i + length ls]" by (simp add: upt_conv_Cons del: upt_Suc)
  let ?sm = "if i < 6 then sm\<lparr>scaling_list_4x4 := (scaling_list_4x4 sm)[i := l]\<rparr> else sm\<lparr>scaling_list_8x8 := (scaling_list_8x8 sm)[i - 6 := l]\<rparr>"
  let ?n = "if i < 6 then 16 else 64 :: nat"
  have l: "reads (parse_matrix_list i sm) (scaling_code 8 (map (\<lambda>z. uint (l ! z)) (zigzag ?n))) (?sm, False)"
  proof (cases "i < 6")
    case True
    then show ?thesis unfolding parse_matrix_list_def
      using 3 by (auto simp: list_all_length intro!: reads_bind_end[OF reads_scaling_list] reads_return)
  next
    case False
    then show ?thesis unfolding parse_matrix_list_def
      using 3 by (auto simp: list_all_length intro!: reads_bind_end[OF reads_scaling_list] reads_return)
  qed
  have m: "reads (if True then do { (sm', d) \<leftarrow> parse_matrix_list i sm; State_Monad.return sm' } else State_Monad.return sm)
      (scaling_code 8 (map (\<lambda>z. uint (l ! z)) (zigzag ?n))) ?sm"
    unfolding if_True by (rule reads_bind_end[OF l]) (simp add: reads_return)
  show ?case unfolding u sps_lists.simps lists_code.simps put_lists.simps
    by (rule reads_bind[OF reads_u1], rule reads_bind[OF m], rule 3(1))
       (use 3(2-) in \<open>simp_all add: list_all_length nth_list_update\<close>)
qed

lemma reads_ids:
  assumes "sps_syntax_ok x"
  shows "reads sps_ids (nat_bits 8 (sx_profile x) @ nat_bits 8 (sx_constraints x) @ nat_bits 8 (sx_level x) @ ue_code (sx_id x))
     (zero_sps\<lparr>profile_idc := of_nat (sx_profile x), constraint_set_flags := of_nat (sx_constraints x), level_idc := of_nat (sx_level x),
       sps_seq_id := of_nat (sx_id x)\<rparr>)"
proof -
  have b: "sx_profile x < 256" "sx_constraints x < 256" "sx_level x < 256" "sx_id x < 256" using assms by (simp_all add: sps_syntax_ok_def)
  show ?thesis unfolding sps_ids_def
    by (rule reads_bind[OF reads_u], use b in simp, simp, rule reads_bind[OF reads_u], use b in simp, simp,
        rule reads_bind[OF reads_u], use b in simp, simp, rule reads_bind_end[OF ue8[OF b(4)]], rule reads_return)
       (use b in \<open>simp add: ucast_small8\<close>)
qed

lemma reads_fidelity:
  assumes "sps_syntax_ok x" "profile_idc sps = of_nat (sx_profile x)" "sps_flags sps = 0"
  shows "reads (sps_fidelity sps) (fidelity_code x)
     (sps\<lparr>chroma_format_idc := (if sx_high x then of_nat (sx_chroma x) else 1),
        bit_depth_luma_minus8 := (if sx_high x then of_nat (sx_luma_depth x) else 0),
        bit_depth_chroma_minus8 := (if sx_high x then of_nat (sx_chroma_depth x) else 0),
        sps_flags := flag_if (sx_high x \<and> sx_chroma x = 3 \<and> sx_separate x) V4L2_H264_SPS_FLAG_SEPARATE_COLOUR_PLANE OR
          flag_if (sx_high x \<and> sx_bypass x) V4L2_H264_SPS_FLAG_QPPRIME_Y_ZERO_TRANSFORM_BYPASS\<rparr>,
      sx_high x \<and> sx_lists x \<noteq> None,
      if sx_high x then (case sx_lists x of None \<Rightarrow> zero_sm | Some ls \<Rightarrow> put_lists 0 ls zero_sm) else zero_sm)"
proof (cases "sx_high x")
  case False
  then show ?thesis using assms(2,3) by (simp add: sps_fidelity_def fidelity_code_def sx_high_def reads_return flag_if_def)
next
  case True
  have b: "sx_chroma x < 256" "sx_luma_depth x < 256" "sx_chroma_depth x < 256" using assms(1) by (simp_all add: sps_syntax_ok_def)
  have h: "high_profile (profile_idc sps)" using True assms(2) by (simp add: sx_high_def)
  have c: "(ucast (of_nat (sx_chroma x) :: ULONG) :: uint8) = of_nat (sx_chroma x)" using ucast_small8 b(1) .
  let ?bits = "case sx_lists x of None \<Rightarrow> [False] | Some ls \<Rightarrow> [True] @ lists_code 0 ls"
  let ?sm = "case sx_lists x of None \<Rightarrow> zero_sm | Some ls \<Rightarrow> put_lists 0 ls zero_sm"
  have sep: "reads (if (of_nat (sx_chroma x) :: uint8) = 3 then br_u1 else State_Monad.return False) (if sx_chroma x = 3 then [sx_separate x] else [])
      (sx_chroma x = 3 \<and> sx_separate x)"
    using reads_u1 small_8(1)[OF b(1)] by (auto simp: reads_return)
  have lists: "reads (do { present \<leftarrow> br_u1;
        sm \<leftarrow> (if present then sps_lists [0..<(if (of_nat (sx_chroma x) :: uint8) = 3 then 12 else 8)] zero_sm else State_Monad.return zero_sm);
        f present sm }) ?bits v" if f: "reads (f (sx_lists x \<noteq> None) ?sm) [] v" for f v
  proof (cases "sx_lists x")
    case None
    have "reads (f False zero_sm) [] v" using f None by simp
    then show ?thesis unfolding None option.case
      by (intro reads_bind_end[OF reads_u1]) (simp add: None reads_skip[OF reads_return])
  next
    case (Some ls)
    have k: "length ls = (if sx_chroma x = 3 then 12 else 8)" "lists_ok 0 ls" using assms(1) Some by (simp_all add: sps_syntax_ok_def)
    have "reads (sps_lists [0..<0 + length ls] zero_sm) (lists_code 0 ls) (put_lists 0 ls zero_sm)"
      by (rule reads_lists) (use k in \<open>auto simp: zero_sm_def list_all_length\<close>)
    then have r: "reads (sps_lists [0..<(if (of_nat (sx_chroma x) :: uint8) = 3 then 12 else 8)] zero_sm) (lists_code 0 ls) (put_lists 0 ls zero_sm)"
      using small_8(1)[OF b(1)] k(1) by simp
    have "reads (f True (put_lists 0 ls zero_sm)) [] v" using f Some by simp
    then show ?thesis unfolding Some option.case
      by (intro reads_bind[OF reads_u1]) (simp add: reads_bind_end[OF r])
  qed
  show ?thesis unfolding sps_fidelity_def fidelity_code_def if_P[OF h] if_P[OF True]
    by (rule reads_bind[OF ue8[OF b(1)]], unfold c Let_def, rule reads_bind[OF sep], rule reads_bind[OF ue8[OF b(2)]],
        rule reads_bind[OF ue8[OF b(3)]], rule reads_bind[OF reads_u1], rule lists, rule reads_return)
       (use True b assms(3) in \<open>simp add: ucast_small8\<close>)
qed

lemma reads_offsets:
  "list_all (\<lambda>i. \<bar>i\<bar> < 2 ^ 31 - 1) ys \<Longrightarrow> k + length ys \<le> length xs \<Longrightarrow>
   reads (read_offsets [k..<k + length ys] xs) (concat (map se_code ys)) (take k xs @ ys @ drop (k + length ys) xs)"
proof (induction ys arbitrary: k xs)
  case Nil
  show ?case by (simp add: reads_return)
next
  case (Cons y ys)
  have u: "[k..<k + length (y # ys)] = k # [Suc k..<Suc k + length ys]" by (simp add: upt_conv_Cons del: upt_Suc)
  have y: "\<bar>y\<bar> < 2 ^ 31 - 1" and ys: "list_all (\<lambda>i. \<bar>i\<bar> < 2 ^ 31 - 1) ys" using Cons.prems(1) by simp_all
  have e: "take (Suc k) (xs[k := y]) @ ys @ drop (Suc k + length ys) (xs[k := y]) = take k xs @ (y # ys) @ drop (k + length (y # ys)) xs"
    using Cons.prems(2) by (simp add: take_Suc_conv_app_nth)
  have r: "reads (read_offsets [Suc k..<Suc k + length ys] (xs[k := y])) (concat (map se_code ys)) (take k xs @ (y # ys) @ drop (k + length (y # ys)) xs)"
    unfolding e[symmetric] by (rule Cons.IH) (use Cons.prems(2) ys in simp_all)
  show ?case unfolding u read_offsets.simps list.map concat.simps by (rule reads_bind[OF reads_se[OF y]]) (rule r)
qed

lemma reads_order:
  assumes "sps_syntax_ok x" "offset_for_ref_frame sps = replicate 255 0" "offset_for_non_ref_pic sps = 0" "offset_for_top_to_bottom_field sps = 0"
    "num_ref_frames_in_pic_order_cnt_cycle sps = 0" "log2_max_pic_order_cnt_lsb_minus4 sps = 0"
  shows "reads (sps_order sps) (order_code x)
     (sps\<lparr>sps_log2_max_frame_num_minus4 := of_nat (sx_log2_frame x), pic_order_cnt_type := of_nat (sx_order_type x),
        log2_max_pic_order_cnt_lsb_minus4 := (if sx_order_type x = 0 then of_nat (sx_log2_lsb x) else 0),
        num_ref_frames_in_pic_order_cnt_cycle := (if sx_order_type x = 1 then of_nat (length (sx_cycle x)) else 0),
        offset_for_ref_frame := (if sx_order_type x = 1 then sx_cycle x @ replicate (255 - length (sx_cycle x)) 0 else replicate 255 0),
        offset_for_non_ref_pic := (if sx_order_type x = 1 then sx_non_ref x else 0),
        offset_for_top_to_bottom_field := (if sx_order_type x = 1 then sx_top_bottom x else 0),
        sps_flags := sps_flags sps OR flag_if (sx_order_type x = 1 \<and> sx_delta_zero x) V4L2_H264_SPS_FLAG_DELTA_PIC_ORDER_ALWAYS_ZERO\<rparr>)"
proof -
  have b: "sx_log2_frame x < 256" "sx_order_type x < 256" "sx_log2_lsb x < 256" "length (sx_cycle x) \<le> 255"
    "\<bar>sx_non_ref x\<bar> < 2 ^ 31 - 1" "\<bar>sx_top_bottom x\<bar> < 2 ^ 31 - 1" "list_all (\<lambda>i. \<bar>i\<bar> < 2 ^ 31 - 1) (sx_cycle x)"
    using assms(1) by (simp_all add: sps_syntax_ok_def)
  note t = small_8(2,3)[OF b(2)]
  have n: "(ucast (of_nat (length (sx_cycle x)) :: ULONG) :: uint8) = of_nat (length (sx_cycle x))" by (rule ucast_small8) (use b(4) in simp)
  have un: "unat (of_nat (length (sx_cycle x)) :: uint8) = length (sx_cycle x)" using b(4) by (simp add: unsigned_of_nat take_bit_nat_eq_self)
  have offs: "reads (read_offsets [0..<min (unat (of_nat (length (sx_cycle x)) :: uint8)) 255] (replicate 255 0)) (concat (map se_code (sx_cycle x)))
      (sx_cycle x @ replicate (255 - length (sx_cycle x)) 0)"
    using reads_offsets[OF b(7), of 0 "replicate 255 0"] b(4) un by simp
  consider "sx_order_type x = 0" | "sx_order_type x = 1" | "sx_order_type x \<noteq> 0" "sx_order_type x \<noteq> 1" by blast
  then show ?thesis
  proof cases
    case 1
    show ?thesis unfolding sps_order_def order_code_def
      by (rule reads_bind[OF ue8[OF b(1)]], rule reads_bind[OF ue8[OF b(2)]])
         (use b 1 t assms in \<open>simp add: ucast_small8 Let_def reads_bind_end[OF ue8[OF b(3)] reads_return] flag_if_def\<close>)
  next
    case 2
    have o: "offset_for_ref_frame (sps\<lparr>sps_log2_max_frame_num_minus4 := a, pic_order_cnt_type := c\<rparr>) = replicate 255 0" for a c
      using assms(2) by simp
    have len: "length (sx_cycle x) < 2 ^ 32 - 1" using b(4) by simp
    have i: "pic_order_cnt_type (sps\<lparr>sps_log2_max_frame_num_minus4 := a, pic_order_cnt_type := ucast (of_nat (sx_order_type x) :: ULONG)\<rparr>) \<noteq> 0"
      "pic_order_cnt_type (sps\<lparr>sps_log2_max_frame_num_minus4 := a, pic_order_cnt_type := ucast (of_nat (sx_order_type x) :: ULONG)\<rparr>) = 1" for a
      using 2 by simp_all
    have 20: "sx_order_type x \<noteq> 0" using 2 by simp
    show ?thesis unfolding sps_order_def order_code_def if_P[OF 2] if_not_P[OF 20] Let_def
      by (rule reads_bind[OF ue8[OF b(1)]], rule reads_bind[OF ue8[OF b(2)]], unfold if_not_P[OF i(1)] if_P[OF i(2)],
          rule reads_bind[OF reads_u1], rule reads_bind[OF reads_se[OF b(5)]], rule reads_bind[OF reads_se[OF b(6)]],
          rule reads_bind[OF reads_ue[OF len]], unfold n o, rule reads_bind_end[OF offs], rule reads_return)
         (use 2 b assms in \<open>simp add: ucast_small8\<close>)
  next
    case 3
    show ?thesis unfolding sps_order_def order_code_def
      by (rule reads_bind[OF ue8[OF b(1)]], rule reads_bind[OF ue8[OF b(2)]])
         (use b 3 t assms in \<open>simp add: ucast_small8 Let_def reads_return flag_if_def\<close>)
  qed
qed

lemma reads_refs:
  assumes "sps_syntax_ok x"
  shows "reads (sps_refs sps) (ue_code (sx_refs x) @ [sx_gaps x])
     (sps\<lparr>sps_num_ref_frames := of_nat (sx_refs x),
        sps_flags := sps_flags sps OR flag_if (sx_gaps x) V4L2_H264_SPS_FLAG_GAPS_IN_FRAME_NUM_VALUE_ALLOWED\<rparr>)"
proof -
  have b: "sx_refs x < 256" using assms by (simp add: sps_syntax_ok_def)
  show ?thesis unfolding sps_refs_def
    by (rule reads_bind[OF ue8[OF b]], rule reads_bind_end[OF reads_u1], rule reads_return) (use b in \<open>simp add: ucast_small8\<close>)
qed

lemma reads_when_None: "reads (when_bit m) [False] ()"
  unfolding when_bit_def by (rule reads_bind_end[OF reads_u1]) (simp add: reads_return)

lemma reads_when_Some: "reads m b () \<Longrightarrow> reads (when_bit m) ([True] @ b) ()"
  unfolding when_bit_def by (rule reads_bind[OF reads_u1]) simp

lemma reads_crop:
  assumes "case c of None \<Rightarrow> True | Some (a, b, d, e) \<Rightarrow> a < 2 ^ 31 \<and> b < 2 ^ 31 \<and> d < 2 ^ 31 \<and> e < 2 ^ 31"
  shows "reads (when_bit (do { br_ue; br_ue; br_ue; br_ue; State_Monad.return () })) (crop_code c) ()"
proof (cases c)
  case None
  then show ?thesis by (simp add: crop_code_def reads_when_None)
next
  case (Some p)
  obtain a b d e where p: "p = (a, b, d, e)" by (metis prod.exhaust)
  have k: "a < 2 ^ 32 - 1" "b < 2 ^ 32 - 1" "d < 2 ^ 32 - 1" "e < 2 ^ 32 - 1" using assms by (simp_all add: Some p)
  show ?thesis unfolding Some p crop_code_def option.case prod.case
    by (rule reads_when_Some, rule reads_bind[OF reads_ue[OF k(1)]], rule reads_bind[OF reads_ue[OF k(2)]],
        rule reads_bind[OF reads_ue[OF k(3)]], rule reads_bind_end[OF reads_ue[OF k(4)]], rule reads_return, rule refl)
qed

lemma reads_coding:
  assumes "sps_syntax_ok x"
  shows "reads (sps_coding sps) ([sx_frames_only x] @ (if sx_frames_only x then [] else [sx_adaptive x]) @ [sx_direct x] @ crop_code (sx_crop x))
     (sps\<lparr>sps_flags := sps_flags sps OR flag_if (sx_frames_only x) V4L2_H264_SPS_FLAG_FRAME_MBS_ONLY OR
        flag_if (\<not> sx_frames_only x \<and> sx_adaptive x) V4L2_H264_SPS_FLAG_MB_ADAPTIVE_FRAME_FIELD OR
        flag_if (sx_direct x) V4L2_H264_SPS_FLAG_DIRECT_8X8_INFERENCE\<rparr>)"
proof -
  have c: "case sx_crop x of None \<Rightarrow> True | Some (a, b, d, e) \<Rightarrow> a < 2 ^ 31 \<and> b < 2 ^ 31 \<and> d < 2 ^ 31 \<and> e < 2 ^ 31"
    using assms unfolding sps_syntax_ok_def by (elim conjE)
  have a: "reads (if \<not> sx_frames_only x then br_u1 else State_Monad.return False) (if sx_frames_only x then [] else [sx_adaptive x])
      (\<not> sx_frames_only x \<and> sx_adaptive x)"
    using reads_u1 by (cases "sx_frames_only x") (simp_all add: reads_return)
  show ?thesis unfolding sps_coding_def
    by (rule reads_bind[OF reads_u1], rule reads_bind[OF a], rule reads_bind[OF reads_u1], rule reads_bind_end[OF reads_crop[OF c]], rule reads_return) simp
qed

lemma reads_restriction:
  assumes "mr < 2 ^ 31"
  shows "reads vui_restriction ([True, True] @ ue_code 0 @ ue_code 0 @ ue_code 0 @ ue_code 0 @ ue_code mr @ ue_code mr) (True, of_nat (min mr 16))"
proof -
  have z: "reads br_ue (ue_code 0) 0" using ue8[of 0] by simp
  have k: "mr < 2 ^ 32 - 1" using assms by simp
  have u: "unat (of_nat mr :: ULONG) = mr" by (rule unat_of_small) (use assms in simp)
  have v: "ucast (if (of_nat mr :: ULONG) > 16 then 16 else of_nat mr :: ULONG) = (of_nat (min mr 16) :: uint8)"
  proof (cases "mr > 16")
    case True
    then show ?thesis using u by (simp add: word_less_nat_alt)
  next
    case False
    then show ?thesis using u ucast_small8[of mr] by (simp add: word_less_nat_alt)
  qed
  have e: "[True, True] @ bs = [True] @ [True] @ bs" for bs by simp
  show ?thesis unfolding vui_restriction_def e
    by (rule reads_bind[OF reads_u1], unfold not_True_eq_False if_False, rule reads_bind[OF reads_u1], rule reads_bind[OF z], rule reads_bind[OF z],
        rule reads_bind[OF z], rule reads_bind[OF z], rule reads_bind[OF reads_ue[OF k]], rule reads_bind_end[OF reads_ue[OF k]], rule reads_return)
       (simp only: v)
qed

lemma reads_vui:
  assumes "case sx_reorder x of None \<Rightarrow> True | Some mr \<Rightarrow> mr < 2 ^ 31" "o_has_reorder out = False" "o_max_reorder out = 0"
  shows "reads (sps_vui out) (vui_code (sx_reorder x))
     (out\<lparr>o_has_reorder := sx_reorder x \<noteq> None, o_max_reorder := (case sx_reorder x of None \<Rightarrow> 0 | Some mr \<Rightarrow> of_nat (min mr 16))\<rparr>)"
proof (cases "sx_reorder x")
  case None
  show ?thesis unfolding sps_vui_def vui_code_def None option.case
    by (rule reads_bind_end[OF reads_u1]) (use assms(2,3) in \<open>simp add: reads_return\<close>)
next
  case (Some mr)
  have mr: "mr < 2 ^ 31" using assms(1) Some by simp
  have a: "reads vui_aspect [False] ()" unfolding vui_aspect_def by (rule reads_when_None)
  have s: "reads (vui_signal c) [False] c" for c unfolding vui_signal_def by (rule reads_bind_end[OF reads_u1]) (simp add: reads_return)
  have h: "reads vui_hrds ([False] @ [False]) ()" unfolding vui_hrds_def
    by (rule reads_bind[OF reads_u1], rule reads_skip[of _ "()"], simp add: reads_return, rule reads_bind_end[OF reads_u1],
        rule reads_skip[of _ "()"], simp add: reads_return, simp add: reads_return)
  have p: "reads (parse_vui_parameters c) ([False] @ [False] @ [False] @ [False] @ [False] @ ([False] @ [False]) @ [False] @
      [True, True] @ ue_code 0 @ ue_code 0 @ ue_code 0 @ ue_code 0 @ ue_code mr @ ue_code mr) ((True, of_nat (min mr 16)), c)" for c
    unfolding parse_vui_parameters_def
    by (rule reads_bind[OF a], rule reads_bind[OF reads_when_None], rule reads_bind[OF s], rule reads_bind[OF reads_when_None],
        rule reads_bind[OF reads_when_None], rule reads_bind[OF h], rule reads_bind[OF reads_u1], rule reads_bind_end[OF reads_restriction[OF mr]],
        rule reads_return, rule refl)
  have e: "replicate 8 False @ bs = [False] @ [False] @ [False] @ [False] @ [False] @ ([False] @ [False]) @ [False] @ bs" for bs
    by (simp add: numeral_eq_Suc)
  show ?thesis unfolding sps_vui_def vui_code_def Some option.case e
    by (rule reads_bind[OF reads_u1], unfold not_True_eq_False if_False, rule reads_bind_end[OF p]) (simp add: reads_return)
qed

lemma dims_small: "k \<le> 511 \<Longrightarrow> \<not> (of_nat k :: ULONG) > kMaxMbs" "k \<le> 511 \<Longrightarrow> (ucast (of_nat k :: ULONG) :: uint16) = of_nat k"
proof -
  assume k: "k \<le> 511"
  have "unat (of_nat k :: ULONG) = k" by (rule unat_of_small) (use k in simp)
  then show "\<not> (of_nat k :: ULONG) > kMaxMbs" using k by (simp add: word_less_nat_alt)
  show "(ucast (of_nat k :: ULONG) :: uint16) = of_nat k" by (subst unsigned_of_nat) (use k in \<open>simp add: take_bit_nat_eq_self\<close>)
qed

text \<open>Everything the parser returns for the syntax elements.\<close>

definition sps_result :: "sps_syntax \<Rightarrow> vui_colour \<Rightarrow> sps_out" where
  "sps_result x colour = \<lparr>o_sps = sps_of x, o_has_reorder = sx_reorder x \<noteq> None,
     o_max_reorder = (case sx_reorder x of None \<Rightarrow> 0 | Some mr \<Rightarrow> of_nat (min mr 16)),
     o_sm = (if sx_high x then (case sx_lists x of None \<Rightarrow> zero_sm | Some ls \<Rightarrow> put_lists 0 ls zero_sm) else zero_sm),
     o_has_sm = (sx_high x \<and> sx_lists x \<noteq> None), o_colour = colour\<rparr>"

lemma reads_sps: "sps_syntax_ok x \<Longrightarrow> reads (parse_sps colour) (sps_code x) (H264_PARSE_OK, sps_result x colour)"
proof -
  assume ok: "sps_syntax_ok x"
  have d: "sx_width x \<le> 511" "sx_height x \<le> 511" using ok by (simp_all add: sps_syntax_ok_def)
  have r: "case sx_reorder x of None \<Rightarrow> True | Some mr \<Rightarrow> mr < 2 ^ 31" using ok unfolding sps_syntax_ok_def by (elim conjE)
  have ue: "sx_width x < 2 ^ 32 - 1" "sx_height x < 2 ^ 32 - 1" using d by simp_all
  have nd: "\<not> ((of_nat (sx_width x) :: ULONG) > kMaxMbs \<or> (of_nat (sx_height x) :: ULONG) > kMaxMbs)" using dims_small(1) d by simp
  have g: "sps_code x = (nat_bits 8 (sx_profile x) @ nat_bits 8 (sx_constraints x) @ nat_bits 8 (sx_level x) @ ue_code (sx_id x)) @
     fidelity_code x @ order_code x @ (ue_code (sx_refs x) @ [sx_gaps x]) @ ue_code (sx_width x) @ ue_code (sx_height x) @
     ([sx_frames_only x] @ (if sx_frames_only x then [] else [sx_adaptive x]) @ [sx_direct x] @ crop_code (sx_crop x)) @ vui_code (sx_reorder x)"
    by (simp add: sps_code_def)
  obtain s0 where r0: "reads sps_ids (nat_bits 8 (sx_profile x) @ nat_bits 8 (sx_constraints x) @ nat_bits 8 (sx_level x) @ ue_code (sx_id x)) s0"
    and s0: "s0 = zero_sps\<lparr>profile_idc := of_nat (sx_profile x), constraint_set_flags := of_nat (sx_constraints x), level_idc := of_nat (sx_level x),
       sps_seq_id := of_nat (sx_id x)\<rparr>" using reads_ids[OF ok] by blast
  have p0: "profile_idc s0 = of_nat (sx_profile x)" "sps_flags s0 = 0" by (simp_all add: s0 zero_sps_def)
  let ?hs = "sx_high x \<and> sx_lists x \<noteq> None"
  let ?sm = "if sx_high x then (case sx_lists x of None \<Rightarrow> zero_sm | Some ls \<Rightarrow> put_lists 0 ls zero_sm) else zero_sm"
  obtain s1 where r1: "reads (sps_fidelity s0) (fidelity_code x) (s1, ?hs, ?sm)"
    and s1: "s1 = s0\<lparr>chroma_format_idc := (if sx_high x then of_nat (sx_chroma x) else 1),
        bit_depth_luma_minus8 := (if sx_high x then of_nat (sx_luma_depth x) else 0),
        bit_depth_chroma_minus8 := (if sx_high x then of_nat (sx_chroma_depth x) else 0),
        sps_flags := flag_if (sx_high x \<and> sx_chroma x = 3 \<and> sx_separate x) V4L2_H264_SPS_FLAG_SEPARATE_COLOUR_PLANE OR
          flag_if (sx_high x \<and> sx_bypass x) V4L2_H264_SPS_FLAG_QPPRIME_Y_ZERO_TRANSFORM_BYPASS\<rparr>"
    using reads_fidelity[OF ok p0] by blast
  have p1: "offset_for_ref_frame s1 = replicate 255 0" "offset_for_non_ref_pic s1 = 0" "offset_for_top_to_bottom_field s1 = 0"
    "num_ref_frames_in_pic_order_cnt_cycle s1 = 0" "log2_max_pic_order_cnt_lsb_minus4 s1 = 0" by (simp_all add: s1 s0 zero_sps_def)
  note r2 = reads_order[OF ok p1]
  note r3 = reads_refs[OF ok]
  note r4 = reads_coding[OF ok]
  have fin: "reads (do { bad \<leftarrow> br_failed; State_Monad.return (if bad then H264_PARSE_INVALID else H264_PARSE_OK, out) }) [] w"
    if "w = (H264_PARSE_OK, out)" for out w
    by (rule reads_skip[OF reads_failed]) (simp add: reads_return that)
  show ?thesis unfolding parse_sps_def g Let_def
    by (rule reads_bind[OF r0], rule reads_bind[OF r1], unfold prod.case, rule reads_bind[OF r2], rule reads_bind[OF r3],
        rule reads_bind[OF reads_ue[OF ue(1)]], rule reads_bind[OF reads_ue[OF ue(2)]], unfold if_not_P[OF nd] dims_small(2)[OF d(1)] dims_small(2)[OF d(2)],
        rule reads_bind[OF r4], rule reads_bind_end[OF reads_vui[OF r]], simp, simp, rule fin)
       (simp add: sps_result_def sps_of_def s1 s0 zero_sps_def ac_simps)
qed

text \<open>
  C10: parsing inverts the syntax of sequence parameter sets: for all profiles, order count types, cropping windows and scaling lists
  without zero entries, data that starts with the code words of a set is accepted, every field of the control structure, the matrix
  and the reorder bound have the encoded values, and the reader stops right behind the set.
\<close>

theorem sps_roundtrip:
  assumes "sps_syntax_ok x" "bits_of d = sps_code x @ trailing"
  shows "run_state (parse_sps colour) (br_init d) =
    ((H264_PARSE_OK, sps_result x colour), \<lparr>br_data = d, bit_pos = length (sps_code x), br_fail = False\<rparr>)"
proof -
  have "rest (br_init d) = sps_code x @ trailing" "\<not> br_fail (br_init d)" using assms(2) by (simp_all add: rest_def br_init_def)
  from readsD[OF reads_sps[OF assms(1)] this] show ?thesis by (simp add: skip_bits_def br_init_def)
qed

text \<open>A Baseline set of 320 by 240 samples with two reference frames and a reorder bound of 2.\<close>

definition demo_sps :: sps_syntax where
  "demo_sps = \<lparr>sx_profile = 66, sx_constraints = 192, sx_level = 30, sx_id = 0, sx_chroma = 0, sx_separate = False, sx_luma_depth = 0,
     sx_chroma_depth = 0, sx_bypass = False, sx_lists = None, sx_log2_frame = 0, sx_order_type = 2, sx_log2_lsb = 0, sx_delta_zero = False,
     sx_non_ref = 0, sx_top_bottom = 0, sx_cycle = [], sx_refs = 2, sx_gaps = False, sx_width = 19, sx_height = 14, sx_frames_only = True,
     sx_adaptive = False, sx_direct = True, sx_crop = None, sx_reorder = Some 2\<rparr>"

definition no_colour :: vui_colour where
  "no_colour = \<lparr>has_vui_colour = False, vui_full_range_flag = False, has_vui_colour_desc = False, vui_colour_primaries = 0,
     vui_transfer_characteristics = 0, vui_matrix_coefficients = 0\<rparr>"

theorem sps_roundtrip_witness:
  "o_sps (snd (fst (run_state (parse_sps no_colour) (br_init [66, 192, 30, 219, 5, 7, 232, 7, 237, 192])))) = sps_of demo_sps \<and>
   o_max_reorder (snd (fst (run_state (parse_sps no_colour) (br_init [66, 192, 30, 219, 5, 7, 232, 7, 237, 192])))) = 2"
proof -
  have ok: "sps_syntax_ok demo_sps" by (simp add: sps_syntax_ok_def demo_sps_def)
  have bits: "bits_of [66, 192, 30, 219, 5, 7, 232, 7, 237, 192] = sps_code demo_sps @ [True, False, False, False, False, False, False]" by code_simp
  show ?thesis unfolding sps_roundtrip[OF ok bits] by (simp add: sps_result_def demo_sps_def)
qed

text \<open>
  A scaling list without zero entries, sent as differences in scan order, is stored in raster order exactly as the encoder had
  it, in both sizes and whatever the list held before.
\<close>

theorem scaling_list_roundtrip:
  assumes "n = 16 \<or> n = 64" "length tgt = n" "0 \<notin> set tgt" "length lst = n"
    "rest br = scaling_code 8 (map (\<lambda>z. uint (tgt ! z)) (zigzag n)) @ bs" "\<not> br_fail br"
  shows "fst (run_state (parse_scaling_list lst n) br) = (tgt, False)"
  using readsD[OF reads_scaling_list[OF assms(1-4)] assms(5,6)] by simp

theorem scaling_list_roundtrip_witness:
  "fst (run_state (parse_scaling_list (replicate 16 0) 16) (br_init [8, 127, 255])) = (replicate 16 16, False)"
proof -
  have "bits_of [8, 127, 255] = scaling_code 8 (map (\<lambda>z. uint (replicate 16 (16 :: uint8) ! z)) (zigzag 16)) @ []" by code_simp
  then have r: "rest (br_init [8, 127, 255]) = scaling_code 8 (map (\<lambda>z. uint (replicate 16 (16 :: uint8) ! z)) (zigzag 16)) @ []"
    by (simp add: rest_def br_init_def)
  show ?thesis by (rule scaling_list_roundtrip[OF _ _ _ _ r]) (simp_all add: br_init_def)
qed

section \<open>Truncated sets\<close>

lemma eof_reads: "br_eof br \<Longrightarrow> run_state (br_u n) br = (0, br)" "br_eof br \<Longrightarrow> run_state br_u1 br = (False, br)"
  by (cases n; simp add: br_u_def) (simp add: br_u1_step)

text \<open>
  A unit that ends before its first field is accepted as a sequence parameter set of one macroblock, because reads past the end
  of the data give zeros and latch no failure.
\<close>

theorem empty_sps_accepted:
  "fst (run_state (parse_sps colour) (br_init [])) =
    (H264_PARSE_OK, \<lparr>o_sps = zero_sps\<lparr>chroma_format_idc := 1\<rparr>, o_has_reorder = False, o_max_reorder = 0, o_sm = zero_sm, o_has_sm = False, o_colour = colour\<rparr>)"
proof -
  have e: "br_eof (br_init [])" "\<not> br_fail (br_init [])" by (simp_all add: br_eof_def br_init_def)
  note z = eof_reads[OF e(1)] ue_eof[OF e(1)]
  have "run_state (sps_fidelity (zero_sps\<lparr>profile_idc := 0, constraint_set_flags := 0, level_idc := 0, sps_seq_id := 0\<rparr>)) (br_init []) =
      ((zero_sps\<lparr>chroma_format_idc := 1\<rparr>, False, zero_sm), br_init [])"
    by (simp add: sps_fidelity_def high_profile_def zero_sps_def)
  then show ?thesis
    by (simp add: parse_sps_def sps_ids_def sps_order_def sps_refs_def sps_coding_def sps_vui_def when_bit_def br_failed_def z e(2) Let_def flag_if_def)
       (simp add: zero_sps_def)
qed

end
