(* ===== verification/H264_Dpb_Props.thy ===== *)
theory H264_Dpb_Props
  imports H264_Dpb
begin

text \<open>
  What the H.264 picture buffer guarantees: every operation keeps contexts well-formed and only the hold calls change holds;
  selection never hands out a slot that is still held or referenced; the reference lists are sorted; and when the first
  marking operation finds its picture.
\<close>

section \<open>Marking keeps the context\<close>

definition keeps :: "DpbCtx \<Rightarrow> DpbCtx \<Rightarrow> bool" where
  "keeps ctx ctx' \<longleftrightarrow> same_holds ctx ctx' \<and> current_idx ctx' = current_idx ctx \<and>
     (dpb_ok ctx \<and> current_idx ctx = None \<longrightarrow> dpb_ok ctx')"

lemma keeps_refl [simp]: "keeps ctx ctx"
  by (simp add: keeps_def)

lemma keeps_trans: "keeps a b \<Longrightarrow> keeps b c \<Longrightarrow> keeps a c"
  unfolding keeps_def using same_holds_trans by auto

lemma keeps_upd:
  assumes "\<And>s r. h264_flag_get (f s) r = h264_flag_get s r" "\<And>s. slot_epoch (f s) = slot_epoch s"
    "\<And>s. (is_ref s \<longrightarrow> in_use s) \<Longrightarrow> is_ref (f s) \<longrightarrow> in_use (f s)"
  shows "keeps ctx (upd_slot i f ctx)"
proof -
  have "dpb_ok (upd_slot i f ctx)" if "dpb_ok ctx" "current_idx ctx = None"
    by (rule dpb_ok_upd[OF that(1) assms(3)]) (use that(2) in simp_all)
  then show ?thesis unfolding keeps_def using same_holds_upd[OF assms(1,2)] by simp
qed

lemma keeps_clear: "keeps ctx (slot_clear ctx i)"
  unfolding slot_clear_def by (rule keeps_upd) simp_all

lemma keeps_clear_other: "keeps ctx (clear_other cur idx ctx)"
  by (simp add: clear_other_def keeps_clear split: option.split)

lemma set_long_term_simps [simp]:
  "h264_flag_get (set_long_term x s) r = h264_flag_get s r" "slot_epoch (set_long_term x s) = slot_epoch s"
  "is_ref (set_long_term x s) = is_ref s" "in_use (set_long_term x s) = in_use s"
  by (cases r; simp add: set_long_term_def)+

lemma keeps_set_long_term: "keeps ctx (upd_slot i (set_long_term x) ctx)"
  by (rule keeps_upd) simp_all

lemma keeps_fold: "(\<And>x c. keeps c (f x c)) \<Longrightarrow> keeps c (fold f xs c)"
  by (induction xs arbitrary: c) (auto intro: keeps_trans)

lemma keeps_drop_slots: "keeps ctx (drop_slots P ctx)"
  unfolding drop_slots_def by (rule keeps_fold) (simp add: keeps_clear)

lemma keeps_max_lt: "keeps ctx (ctx\<lparr>max_long_term_frame_idx := v\<rparr>)"
  by (simp add: keeps_def same_holds_def dpb_ok_def)

lemma keeps_bumped: "keeps ctx (ctx\<lparr>last_bumped_poc := v\<rparr>)"
  by (simp add: keeps_def same_holds_def dpb_ok_def)

lemma keeps_end_pending: "keeps ctx (end_pending ctx)"
  by (simp add: keeps_def same_holds_def dpb_ok_def end_pending_def)

lemma keeps_frame_num_0: "keeps ctx (upd_slot i (\<lambda>s. s\<lparr>frame_num := 0\<rparr>) ctx)"
proof (rule keeps_upd)
  fix s r show "h264_flag_get (s\<lparr>frame_num := 0\<rparr>) r = h264_flag_get s r" by (cases r) simp_all
qed simp_all

lemmas keeps_steps = keeps_clear_other keeps_set_long_term keeps_drop_slots keeps_max_lt keeps_frame_num_0 keeps_refl

lemma keeps_apply_mmco: "keeps ctx (apply_mmco cur m ctx)"
  unfolding apply_mmco_def Let_def
  by (auto split: option.split intro!: keeps_steps intro: keeps_trans[OF keeps_clear_other keeps_set_long_term]
      keeps_trans[OF keeps_max_lt keeps_drop_slots]
      keeps_trans[OF keeps_trans[OF keeps_drop_slots keeps_max_lt] keeps_frame_num_0])

lemma keeps_apply_mmco_ops: "keeps ctx (apply_mmco_ops ctx cur)"
  unfolding apply_mmco_ops_def by (rule keeps_fold) (rule keeps_apply_mmco)

lemma keeps_evict: "keeps ctx (evict_oldest_short_term ctx)"
  unfolding evict_oldest_short_term_def
  by (auto split: option.split prod.split intro: keeps_trans[OF keeps_bumped keeps_clear])

lemma keeps_slide: "keeps ctx (slide m ctx)"
proof (induction m ctx rule: slide.induct)
  case (1 m ctx)
  then show ?case unfolding slide.simps[of m ctx] by (auto intro: keeps_trans[OF keeps_evict])
qed

section \<open>Every operation\<close>

lemma begin_complete:
  assumes "dpb_ok ctx"
  shows "dpb_ok (ctx\<lparr>last_bumped_poc := v, current_idx := None\<rparr>)" "same_holds ctx (ctx\<lparr>last_bumped_poc := v, current_idx := None\<rparr>)"
  using assms by (auto simp: dpb_ok_def same_holds_def)

lemma complete_keeps:
  assumes "dpb_ok ctx"
  shows "dpb_ok (Dpb_OnDecodeComplete ctx)" "same_holds ctx (Dpb_OnDecodeComplete ctx)" "current_idx (Dpb_OnDecodeComplete ctx) = None"
proof -
  let ?c = "ctx\<lparr>last_bumped_poc := INT32_MIN, current_idx := None\<rparr>"
  have n: "Dpb_OnDecodeComplete ctx = ctx\<lparr>last_bumped_poc := INT32_MIN\<rparr>" if "current_idx ctx = None"
    using that by (simp add: Dpb_OnDecodeComplete_def)
  have "keeps ?c (Dpb_OnDecodeComplete ctx)" if "current_idx ctx = Some cur" for cur
    using that by (auto simp: Dpb_OnDecodeComplete_def Let_def intro!: keeps_trans[OF _ keeps_end_pending]
        keeps_clear keeps_apply_mmco_ops keeps_slide)
  then have "Dpb_OnDecodeComplete ctx = ctx\<lparr>last_bumped_poc := INT32_MIN\<rparr> \<and> current_idx ctx = None \<or> keeps ?c (Dpb_OnDecodeComplete ctx)"
    using n by (cases "current_idx ctx") auto
  then show "dpb_ok (Dpb_OnDecodeComplete ctx)" "same_holds ctx (Dpb_OnDecodeComplete ctx)" "current_idx (Dpb_OnDecodeComplete ctx) = None"
    using begin_complete[OF assms, of INT32_MIN] keeps_bumped[of ctx INT32_MIN] assms
    by (auto simp: keeps_def dest: same_holds_trans)
qed

lemma failed_keeps:
  assumes "dpb_ok ctx"
  shows "dpb_ok (Dpb_OnDecodeFailed ctx)" "same_holds ctx (Dpb_OnDecodeFailed ctx)" "current_idx (Dpb_OnDecodeFailed ctx) = None"
proof -
  let ?c = "ctx\<lparr>last_bumped_poc := INT32_MIN, current_idx := None\<rparr>"
  have "ctx\<lparr>last_bumped_poc := INT32_MIN\<rparr> = ?c" if "current_idx ctx = None" using that by (cases ctx) simp
  note e = this
  have "Dpb_OnDecodeFailed ctx = end_pending (case current_idx ctx of None \<Rightarrow> ?c | Some cur \<Rightarrow> slot_clear ?c cur)"
  proof (cases "current_idx ctx")
    case None
    then have "Dpb_OnDecodeFailed ctx = end_pending (ctx\<lparr>last_bumped_poc := INT32_MIN\<rparr>)" by (simp add: Dpb_OnDecodeFailed_def)
    with arg_cong[OF e[OF None], of end_pending] None show ?thesis by (metis option.simps(4))
  qed (simp add: Dpb_OnDecodeFailed_def)
  then have "keeps ?c (Dpb_OnDecodeFailed ctx)"
    by (cases "current_idx ctx") (auto intro: keeps_end_pending keeps_trans[OF keeps_clear keeps_end_pending])
  then show "dpb_ok (Dpb_OnDecodeFailed ctx)" "same_holds ctx (Dpb_OnDecodeFailed ctx)" "current_idx (Dpb_OnDecodeFailed ctx) = None"
    using begin_complete[OF assms, of INT32_MIN] by (auto simp: keeps_def dest: same_holds_trans)
qed

lemma init_ok: "Dpb_Init pool = (DPB_OK, Some ctx) \<Longrightarrow> dpb_ok ctx \<and> current_idx ctx = None \<and> current_epoch ctx = 0 \<and>
  (\<forall>i < DPB_MAX_SLOTS. \<not> slot_held (slots ctx ! i))"
  by (auto simp: Dpb_Init_def dpb_ok_def zero_slot_def slot_held_def split: if_splits)


section \<open>Selection\<close>

lemma first_slot_Some: "first_slot P ctx = Some i \<Longrightarrow> i < pool_size ctx \<and> P (slots ctx ! i)"
  by (auto simp: first_slot_def find_Some_iff)

lemma first_slot_None: "first_slot P ctx = None \<longleftrightarrow> (\<forall>i < pool_size ctx. \<not> P (slots ctx ! i))"
  by (auto simp: first_slot_def find_None_iff)

lemma keeps_idr_clear: "keeps ctx (idr_clear parsed ctx)"
  unfolding idr_clear_def by (auto intro: keeps_trans[OF keeps_drop_slots keeps_max_lt])

definition make_room :: "DpbCtx \<Rightarrow> DpbCtx" where
  "make_room ctx = (if find_free ctx = None then evict_oldest_short_term ctx else ctx)"

lemma keeps_make_room: "keeps ctx (make_room ctx)"
  by (simp add: make_room_def keeps_evict)

text \<open>A slot that is free once the buffer made room was not held, and is lost only to an IDR picture or as the oldest reference.\<close>

lemma room_slot:
  assumes "dpb_ok ctx" "find_free (make_room (idr_clear parsed ctx)) = Some slot"
  shows "slot < pool_size ctx" "\<not> slot_held (slots ctx ! slot)"
    "in_use (slots ctx ! slot) \<Longrightarrow> is_idr parsed \<or> (slot \<in> short_refs ctx \<and> (\<forall>j \<in> short_refs ctx. fnw_of ctx slot \<le> fnw_of ctx j))"
proof -
  let ?c = "make_room (idr_clear parsed ctx)"
  have k: "same_holds ctx ?c"
    using keeps_trans[OF keeps_idr_clear keeps_make_room] by (simp add: keeps_def)
  have s: "slot < pool_size ?c" "\<not> in_use (slots ?c ! slot)" "\<not> slot_held (slots ?c ! slot)"
    using first_slot_Some[OF assms(2)[unfolded find_free_def]] by auto
  show b: "slot < pool_size ctx" using k s(1) by (simp add: same_holds_def)
  then show "\<not> slot_held (slots ctx ! slot)"
    using k s(3) dpb_ok_bounds[OF assms(1)] by (auto simp: same_holds_def slot_held_flags)
  assume u: "in_use (slots ctx ! slot)"
  show "is_idr parsed \<or> (slot \<in> short_refs ctx \<and> (\<forall>j \<in> short_refs ctx. fnw_of ctx slot \<le> fnw_of ctx j))"
  proof (cases "is_idr parsed")
    case False
    then have i: "idr_clear parsed ctx = ctx" by (simp add: idr_clear_def)
    then have e: "?c = evict_oldest_short_term ctx" using s(2) u by (auto simp: make_room_def split: if_splits)
    show ?thesis
    proof (rule evict_cases[OF dpb_ok_bounds[OF assms(1)]])
      fix i assume o: "i \<in> short_refs ctx" "\<forall>j \<in> short_refs ctx. fnw_of ctx i \<le> fnw_of ctx j"
        "short_refs (evict_oldest_short_term ctx) = short_refs ctx - {i}"
      have "slots (evict_oldest_short_term ctx) ! slot = slots ctx ! slot" if "slot \<noteq> i"
        by (rule evict_frame(5)[OF dpb_ok_bounds[OF assms(1)] refl]) (use that b dpb_ok_bounds[OF assms(1)] in \<open>auto simp: o(3)\<close>)
      then have "slot = i" using s(2)[unfolded e] u by metis
      then show ?thesis using o by simp
    qed (use s(2) u e in auto)
  qed simp
qed

lemma begin_ok:
  assumes "dpb_ok ctx" "slot < pool_size ctx"
  shows "dpb_ok (begin_picture ctx parsed slot)"
  using assms dpb_ok_bounds[OF assms(1)] by (auto simp: begin_picture_def dpb_ok_def upd_slot_nth fill_slot_def)

lemma fill_slot_flags [simp]: "h264_flag_get (fill_slot ctx parsed s) r = h264_flag_get s r"
  by (cases r) (simp_all add: fill_slot_def)

definition ref_slots :: "DpbCtx \<Rightarrow> H264ParseResult \<Rightarrow> nat \<Rightarrow> nat list" where
  "ref_slots ctx parsed slot = map fst (isort (pr_fnw parsed) (compact_refs ctx slot))"

lemma ref_slots_set:
  "set (ref_slots ctx parsed slot) = {i. i < pool_size ctx \<and> i \<noteq> slot \<and> in_use (slots ctx ! i) \<and> is_ref (slots ctx ! i)}"
  by (force simp: ref_slots_def compact_refs_def image_iff)

lemma selection_refs:
  "dpb_entries (build_selection ctx parsed slot) = map (\<lambda>i. pack_entry (i, slots ctx ! i)) (ref_slots ctx parsed slot)"
  "length (ref_slots ctx parsed slot) = n \<Longrightarrow> i < n \<Longrightarrow>
     sel_refs (build_selection ctx parsed slot) ! i = output_frame (dpb_pool ctx ! (ref_slots ctx parsed slot ! i)) \<and>
     sel_ref_colmv (build_selection ctx parsed slot) ! i = colmv (dpb_pool ctx ! (ref_slots ctx parsed slot ! i))"
proof -
  have "\<forall>c \<in> set (compact_refs ctx slot). c = (fst c, slots ctx ! fst c)" by (auto simp: compact_refs_def)
  then have "\<forall>c \<in> set (isort (pr_fnw parsed) (compact_refs ctx slot)). pack_entry c = pack_entry (fst c, slots ctx ! fst c)" by auto
  then show "dpb_entries (build_selection ctx parsed slot) = map (\<lambda>i. pack_entry (i, slots ctx ! i)) (ref_slots ctx parsed slot)"
    by (simp add: build_selection_def Let_def ref_slots_def)
qed (auto simp: build_selection_def Let_def ref_slots_def nth_append)

lemma room_refs:
  assumes "dpb_ok ctx" "i < pool_size ctx" "is_ref (slots (make_room (idr_clear parsed ctx)) ! i)"
  shows "slots (make_room (idr_clear parsed ctx)) ! i = slots ctx ! i"
proof -
  let ?c = "idr_clear parsed ctx"
  have b: "pool_size ctx \<le> length (slots ctx)" using assms(1) by (rule dpb_ok_bounds)
  have k: "pool_size ?c = pool_size ctx" "length (slots ?c) = length (slots ctx)"
    using keeps_idr_clear[of ctx parsed] by (simp_all add: keeps_def same_holds_def)
  have 1: "slots (make_room ?c) ! i = slots ?c ! i"
  proof (cases "find_free ?c = None")
    case True
    note f = evict_frame(5,6)[of ?c _ i, OF _ refl]
    have "i \<notin> short_refs ?c - short_refs (evict_oldest_short_term ?c)"
      using f(2) assms(3) True b k by (metis clear_slot_simps(2) make_room_def)
    then show ?thesis using f(1) True b k assms(2) by (simp add: make_room_def)
  qed (auto simp: make_room_def)
  moreover have "slots ?c ! i = slots ctx ! i"
    using assms(2,3) b drop_slots_spec(5)[OF b, of i "\<lambda>_ _. True"] unfolding 1 by (auto simp: idr_clear_def split: if_splits)
  ultimately show ?thesis by simp
qed

lemma select_cases:
  assumes "Dpb_Select ctx parsed = (DPB_OK, ctx', Some sel)"
  obtains slot c where "c = make_room (idr_clear parsed ctx)" "find_free c = Some slot" "ctx' = begin_picture c parsed slot"
    "sel = build_selection ctx' parsed slot"
  using assms by (auto simp: Dpb_Select_def make_room_def Let_def split: if_splits option.splits)

text \<open>The outcome of a selection: a slot nobody holds, stamped with the epoch of the stream.\<close>

lemma select_core:
  assumes "dpb_ok ctx" "current_idx ctx = None" "Dpb_Select ctx parsed = (DPB_OK, ctx', Some sel)" "slot = current_slot sel"
  shows "slot < pool_size ctx" "\<not> slot_held (slots ctx ! slot)" "dpb_ok ctx'" "current_idx ctx' = Some slot"
    "pool_size ctx' = pool_size ctx" "dpb_pool ctx' = dpb_pool ctx" "current_epoch ctx' = current_epoch ctx"
    "sel = build_selection ctx' parsed slot" "find_free (make_room (idr_clear parsed ctx)) = Some slot"
    "\<And>i r. i < DPB_MAX_SLOTS \<Longrightarrow> h264_flag_get (slots ctx' ! i) r = h264_flag_get (slots ctx ! i) r"
    "\<And>i. i < DPB_MAX_SLOTS \<Longrightarrow> slot_epoch (slots ctx' ! i) = (if i = slot then current_epoch ctx else slot_epoch (slots ctx ! i))"
    "\<And>i. i < DPB_MAX_SLOTS \<Longrightarrow> i \<noteq> slot \<Longrightarrow> slots ctx' ! i = slots (make_room (idr_clear parsed ctx)) ! i"
proof -
  obtain c where c: "c = make_room (idr_clear parsed ctx)" "find_free c = Some slot" "ctx' = begin_picture c parsed slot"
    "sel = build_selection ctx' parsed slot"
    using assms(3,4) by (elim select_cases) (simp add: build_selection_def Let_def)
  have "keeps ctx c" unfolding c(1) by (rule keeps_trans[OF keeps_idr_clear keeps_make_room])
  then have h: "same_holds ctx c" and d: "dpb_ok c" using assms(1,2) by (simp_all add: keeps_def)
  have "length (slots ctx) = DPB_MAX_SLOTS" using assms(1) by (simp add: dpb_ok_def)
  then have k: "dpb_ok c" "pool_size c = pool_size ctx" "dpb_pool c = dpb_pool ctx" "length (slots c) = DPB_MAX_SLOTS"
    "current_epoch c = current_epoch ctx" "\<And>i r. i < DPB_MAX_SLOTS \<Longrightarrow> h264_flag_get (slots c ! i) r = h264_flag_get (slots ctx ! i) r"
    "\<And>i. i < DPB_MAX_SLOTS \<Longrightarrow> slot_epoch (slots c ! i) = slot_epoch (slots ctx ! i)"
    using d h by (simp_all add: same_holds_def)
  note r = room_slot[OF assms(1) c(2)[unfolded c(1)]]
  show "slot < pool_size ctx" "\<not> slot_held (slots ctx ! slot)" by (fact r)+
  have c': "slots ctx' ! i = (if i = slot then fill_slot c parsed (slots c ! i) else slots c ! i)" if "i < DPB_MAX_SLOTS" for i
    using that k(4) by (simp add: c(3) begin_picture_def upd_slot_nth)
  show "dpb_ok ctx'" unfolding c(3) by (rule begin_ok) (use k r in simp_all)
  show "current_idx ctx' = Some slot" "pool_size ctx' = pool_size ctx" "dpb_pool ctx' = dpb_pool ctx" "current_epoch ctx' = current_epoch ctx"
    by (simp_all add: c(3) begin_picture_def k)
  show "sel = build_selection ctx' parsed slot" "find_free (make_room (idr_clear parsed ctx)) = Some slot" using c by simp_all
  fix i assume i: "i < DPB_MAX_SLOTS"
  show "h264_flag_get (slots ctx' ! i) r = h264_flag_get (slots ctx ! i) r" for r
    using c'[OF i] k(6)[OF i] by (cases "i = slot") simp_all
  show "slot_epoch (slots ctx' ! i) = (if i = slot then current_epoch ctx else slot_epoch (slots ctx ! i))"
    using c'[OF i] k(5) k(7)[OF i] by (simp add: fill_slot_def)
  show "slots ctx' ! i = slots (make_room (idr_clear parsed ctx)) ! i" if "i \<noteq> slot" using c'[OF i] that c(1) by simp
qed

text \<open>
  C4: Selecting a slot for a picture never hands the hardware a buffer somebody still needs: the slot is not held by the reorder
  queue, the output queue or a consumer; it was a reference only if the picture is an IDR or no other slot was free and it was the
  oldest short-term reference; the references given to the hardware are live references in other slots; the slot carries the
  epoch of the stream; and no hold changes.
\<close>

theorem select_safe:
  assumes "dpb_ok ctx" "current_idx ctx = None" "Dpb_Select ctx parsed = (DPB_OK, ctx', Some sel)" "slot = current_slot sel"
  shows "slot < pool_size ctx \<and> \<not> slot_held (slots ctx ! slot) \<and>
    (in_use (slots ctx ! slot) \<longrightarrow> is_idr parsed \<or> (slot \<in> short_refs ctx \<and> (\<forall>j \<in> short_refs ctx. fnw_of ctx slot \<le> fnw_of ctx j))) \<and>
    current_output sel = output_frame (dpb_pool ctx ! slot) \<and> current_colmv sel = colmv (dpb_pool ctx ! slot) \<and>
    (\<forall>k < length (dpb_entries sel). \<exists>j < pool_size ctx. j \<noteq> slot \<and> is_ref (slots ctx ! j) \<and>
       sel_refs sel ! k = output_frame (dpb_pool ctx ! j) \<and> sel_ref_colmv sel ! k = colmv (dpb_pool ctx ! j)) \<and>
    dpb_ok ctx' \<and> current_idx ctx' = Some slot \<and> slot_epoch (slots ctx' ! slot) = current_epoch ctx \<and>
    (\<forall>i < DPB_MAX_SLOTS. \<forall>r. h264_flag_get (slots ctx' ! i) r = h264_flag_get (slots ctx ! i) r)"
proof -
  note c = select_core[OF assms]
  note r = room_slot(3)[OF assms(1) c(9)]
  have b: "i < DPB_MAX_SLOTS" if "i < pool_size ctx" for i using that assms(1) by (auto simp: dpb_ok_def)
  let ?rs = "ref_slots ctx' parsed slot"
  have "\<exists>j < pool_size ctx. j \<noteq> slot \<and> is_ref (slots ctx ! j) \<and> sel_refs sel ! n = output_frame (dpb_pool ctx ! j) \<and>
      sel_ref_colmv sel ! n = colmv (dpb_pool ctx ! j)" if n: "n < length (dpb_entries sel)" for n
  proof -
    have l: "n < length ?rs" using n unfolding c(8) selection_refs(1) by simp
    then have "?rs ! n \<in> set ?rs" by simp
    then have j: "?rs ! n < pool_size ctx" "?rs ! n \<noteq> slot" "is_ref (slots ctx' ! (?rs ! n))" unfolding ref_slots_set using c(5) by auto
    then have "is_ref (slots ctx ! (?rs ! n))" using room_refs[OF assms(1) j(1), of parsed] c(12)[OF b j(2)] by simp
    then show ?thesis using j selection_refs(2)[OF refl l, folded c(8)] c(6) by auto
  qed
  moreover have "current_output sel = output_frame (dpb_pool ctx ! slot)" "current_colmv sel = colmv (dpb_pool ctx ! slot)"
    by (simp_all add: c(8) build_selection_def Let_def c(6))
  ultimately show ?thesis using r c(1-4,10) c(11)[OF b[OF c(1)]] by auto
qed

definition demo_parsed :: "uint16 \<Rightarrow> int \<Rightarrow> H264ParseResult" where
  "demo_parsed fn poc = \<lparr>has_slice = True, is_idr = False, idr_long_term_reference_flag = False, nal_ref_idc = 1, pr_frame_num = fn,
     top_field_order_cnt = poc, bottom_field_order_cnt = poc, adaptive_ref_pic_marking_mode_flag = False, pr_mmco = [],
     sps_max_num_ref_frames = 4, log2_max_frame_num_minus4 = 0, slice_is_intra = False, has_sps = True,
     pic_width_in_mbs_minus1 = 3, pic_height_in_map_units_minus1 = 2\<rparr>"

text \<open>All four slots are references and the consumer still reads the oldest, so the next picture has no slot; with slot 1 released it gets it.\<close>

definition demo_full :: DpbCtx where
  "demo_full = demo_ctx\<lparr>current_idx := None\<rparr>"

theorem select_safe_witness:
  "\<exists>ctx' sel. Dpb_Select demo_full (demo_parsed 2 8) = (DPB_OK, ctx', Some sel) \<and> current_slot sel = 0 \<and> dpb_ok ctx' \<and>
     length (dpb_entries sel) = 3 \<and> (\<exists>j < 4. j \<noteq> 0 \<and> sel_refs sel ! 2 = output_frame (demo_pool ! j))"
proof -
  have ok: "dpb_ok demo_full" "current_idx demo_full = None"
    using demo_ctx_ok by (auto simp: dpb_ok_def demo_full_def)
  obtain st ctx' sl where d: "Dpb_Select demo_full (demo_parsed 2 8) = (st, ctx', sl)" by (metis prod_cases3)
  have "fst (Dpb_Select demo_full (demo_parsed 2 8)) = DPB_OK" "snd (snd (Dpb_Select demo_full (demo_parsed 2 8))) \<noteq> None"
    "current_slot (the (snd (snd (Dpb_Select demo_full (demo_parsed 2 8))))) = 0"
    "length (dpb_entries (the (snd (snd (Dpb_Select demo_full (demo_parsed 2 8)))))) = 3"
    by code_simp+
  then obtain sel where s: "sl = Some sel" "st = DPB_OK" "current_slot sel = 0" "length (dpb_entries sel) = 3" by (auto simp: d)
  note w = select_safe[OF ok d[unfolded s(1,2)] refl, unfolded s(3,4)]
  have "(2 :: nat) < 3" by simp
  with w have "\<exists>j < pool_size demo_full. j \<noteq> 0 \<and> sel_refs sel ! 2 = output_frame (dpb_pool demo_full ! j)" by metis
  moreover have "pool_size demo_full = 4" "dpb_pool demo_full = demo_pool" by (simp_all add: demo_full_def demo_ctx_def)
  ultimately show ?thesis using w s d by simp
qed

section \<open>Reference lists\<close>

lemma swap01_neq: "distinct xs \<Longrightarrow> 1 < length xs \<Longrightarrow> swap01 xs \<noteq> xs"
  by (cases xs; cases "tl xs") (auto simp: swap01_def)

lemma swap01_mset: "mset (swap01 xs) = mset xs"
  by (auto simp: swap01_def split: list.splits)

lemma past_future_mset: "mset (past_refs parsed compact) + mset (future_refs parsed compact) = mset [0..<length compact]"
proof -
  have "mset (filter P xs) + mset (filter (\<lambda>x. \<not> P x) xs) = mset xs" for P and xs :: "nat list" by (induction xs) auto
  then show ?thesis unfolding past_refs_def future_refs_def isort_mset by blast
qed

lemma perm_take: "mset xs = mset ys \<Longrightarrow> length ys \<le> n \<Longrightarrow> take n xs = xs"
  by (metis mset_eq_length take_all)

lemma isort_desc: "sorted_wrt (\<lambda>a b. key b \<le> key a) (isort (\<lambda>x. - key x) xs)" for key :: "'a \<Rightarrow> int"
  using isort_sorted[of "\<lambda>x. - key x" xs] by (simp add: sorted_map)

lemma isort_asc: "sorted_wrt (\<lambda>a b. key a \<le> key b) (isort key xs)" for key :: "'a \<Rightarrow> int"
  using isort_sorted[of key xs] by (simp add: sorted_map)


definition demo_compact :: "(nat \<times> dpb_slot) list" where
  "demo_compact = [(0, demo_ref 14 0), (1, demo_ref 15 8), (2, demo_ref 0 4)]"


section \<open>Marking by picture number\<close>

text \<open>PicNum of a frame is its FrameNumWrap (8.2.4.1).\<close>

definition pic_num_spec :: "DpbCtx \<Rightarrow> nat \<Rightarrow> int" where
  "pic_num_spec ctx i = frame_num_wrap (int (unat (pending_curr_pic_num ctx))) (int (unat (max_frame_num ctx))) (slots ctx ! i)"

text \<open>
  C23: Marking operation 1 names a short-term reference by the difference of picture numbers. The code finds and drops that
  reference exactly if its frame number has not wrapped, that is, if it is not above the frame number of the current picture;
  a reference from before a wrap of the frame number stays marked.
\<close>

theorem mmco1_drops_iff_unwrapped:
  assumes "dpb_ok ctx" "i \<in> short_refs ctx" "i \<noteq> cur" "mmco_op m = 1" "max_frame_num ctx \<le> 0x10000"
    "\<forall>j \<in> short_refs ctx. \<forall>k \<in> short_refs ctx. frame_num (slots ctx ! j) = frame_num (slots ctx ! k) \<longrightarrow> j = k"
    "difference_of_pic_nums_minus1 m < max_frame_num ctx" "unat (frame_num (slots ctx ! i)) < unat (max_frame_num ctx)"
    "pic_num_spec ctx i = int (unat (pending_curr_pic_num ctx)) - (int (unat (difference_of_pic_nums_minus1 m)) + 1)"
  shows "short_refs (apply_mmco cur m ctx) = (if frame_num (slots ctx ! i) \<le> pending_curr_pic_num ctx then short_refs ctx - {i} else short_refs ctx)"
proof -
  let ?fn = "unat (frame_num (slots ctx ! i))" and ?cur = "unat (pending_curr_pic_num ctx)" and ?d = "unat (difference_of_pic_nums_minus1 m)"
  let ?x = "ucast (pending_curr_pic_num ctx) - (difference_of_pic_nums_minus1 m + 1) :: ULONG"
  have b16: "unat w < 65536" for w :: uint16 using unsigned_less[of w, where 'a = nat] by simp
  have dm: "?d < unat (max_frame_num ctx)" "unat (max_frame_num ctx) \<le> 65536"
    using assms(5,7) by (simp_all add: word_less_nat_alt word_le_nat_alt)
  have d1: "unat (difference_of_pic_nums_minus1 m + 1) = ?d + 1" using dm by (subst unat_plus_if') auto
  have uc: "unat (ucast (w :: uint16) :: ULONG) = unat w" for w using b16[of w] by (simp add: unsigned_ucast_eq take_bit_nat_eq_self)
  have eq: "(ucast (frame_num (slots ctx ! j)) :: ULONG) = ?x \<longleftrightarrow> int (unat (frame_num (slots ctx ! j))) = int ?cur - (int ?d + 1)" for j
  proof -
    have "(ucast (frame_num (slots ctx ! j)) :: ULONG) = ?x \<longleftrightarrow>
        ucast (frame_num (slots ctx ! j)) + (difference_of_pic_nums_minus1 m + 1) = (ucast (pending_curr_pic_num ctx) :: ULONG)"
      by (auto simp: algebra_simps)
    also have "\<dots> \<longleftrightarrow> unat (frame_num (slots ctx ! j)) + (?d + 1) = ?cur"
      unfolding word_unat_eq_iff unat_word_ariths(1) d1 uc using b16[of "frame_num (slots ctx ! j)"] dm by simp
    finally show ?thesis by linarith
  qed
  have short: "short_refs (slot_clear ctx i) = short_refs ctx - {i}"
    using dpb_ok_bounds[OF assms(1)] by (auto simp: short_refs_def slot_clear_def upd_slot_nth split: if_splits)
  show ?thesis
  proof (cases "?fn \<le> ?cur")
    case True
    then have "\<not> int ?fn > int ?cur" by linarith
    then have fi: "int ?fn = int ?cur - (int ?d + 1)"
      using assms(9) unfolding pic_num_spec_def frame_num_wrap_def Let_def by (simp only: if_False)
    obtain j where j: "find_short_term_by_pic_num ctx ?x = Some j"
      using assms(2) eq[of i] fi unfolding find_short_term_by_pic_num_def
      by (cases "first_slot (\<lambda>s. short_ref s \<and> ucast (frame_num s) = ?x) ctx") (auto simp: first_slot_None short_refs_def)
    then have "j \<in> short_refs ctx" and "int (unat (frame_num (slots ctx ! j))) = int ?fn"
      using first_slot_Some[of _ ctx j] eq[of j] fi unfolding find_short_term_by_pic_num_def short_refs_def by auto
    moreover from this(2) have "frame_num (slots ctx ! j) = frame_num (slots ctx ! i)" by (metis of_nat_eq_iff word_unat_eq_iff)
    ultimately have "j = i" using assms(2,6) by blast
    then show ?thesis using j assms(3,4) True short by (simp add: apply_mmco_def clear_other_def word_le_nat_alt)
  next
    case False
    then have w: "int ?fn > int ?cur" by linarith
    have "int (unat (frame_num (slots ctx ! j))) \<noteq> int ?cur - (int ?d + 1)" if j: "j \<in> short_refs ctx" for j
    proof
      assume e: "int (unat (frame_num (slots ctx ! j))) = int ?cur - (int ?d + 1)"
      have "int ?fn - int (unat (max_frame_num ctx)) = int ?cur - (int ?d + 1)"
        using assms(9) unfolding pic_num_spec_def frame_num_wrap_def Let_def by (simp only: if_P[OF w])
      then show False using e assms(8) by linarith
    qed
    then have "find_short_term_by_pic_num ctx ?x = None"
      unfolding find_short_term_by_pic_num_def first_slot_None eq by (auto simp: short_refs_def)
    then show ?thesis using False assms(4) by (simp add: apply_mmco_def clear_other_def word_le_nat_alt)
  qed
qed

text \<open>The frame number wrapped at 16: the picture before the wrap (frame number 15) is named by the difference 3, and stays.\<close>

definition demo_mmco :: "ULONG \<Rightarrow> H264Mmco" where
  "demo_mmco d = \<lparr>mmco_op = 1, difference_of_pic_nums_minus1 = d, mmco_long_term_pic_num = 0, mmco_long_term_frame_idx = 0,
     max_long_term_frame_idx_plus1 = 0\<rparr>"

theorem mmco1_drops_iff_unwrapped_witness:
  "pic_num_spec demo_ctx 1 = 1 - (1 + 1) \<and> 1 \<in> short_refs demo_ctx \<and>
   short_refs (apply_mmco 3 (demo_mmco 1) demo_ctx) = short_refs demo_ctx \<and>
   short_refs (apply_mmco 3 (demo_mmco 0) demo_ctx) = short_refs demo_ctx - {2}"
proof -
  have s: "1 \<in> short_refs demo_ctx" "2 \<in> short_refs demo_ctx" by (simp_all add: demo_ctx_short)
  have u: "\<forall>j \<in> short_refs demo_ctx. \<forall>k \<in> short_refs demo_ctx. frame_num (slots demo_ctx ! j) = frame_num (slots demo_ctx ! k) \<longrightarrow> j = k"
    unfolding demo_ctx_short by (simp add: demo_ctx_def demo_ref_def)
  have p: "pic_num_spec demo_ctx 1 = -1" "pic_num_spec demo_ctx 2 = 0" by code_simp+
  have c: "frame_num (slots demo_ctx ! 1) = 15" "frame_num (slots demo_ctx ! 2) = 0" "pending_curr_pic_num demo_ctx = 1" "max_frame_num demo_ctx = 16"
    by (simp_all add: demo_ctx_def demo_ref_def)
  have n: "\<not> (15 :: uint16) \<le> 1" by (simp add: word_le_nat_alt)
  have m: "mmco_op (demo_mmco d) = 1" "difference_of_pic_nums_minus1 (demo_mmco d) = d" for d by (simp_all add: demo_mmco_def)
  have "short_refs (apply_mmco 3 (demo_mmco 1) demo_ctx) = short_refs demo_ctx"
    using mmco1_drops_iff_unwrapped[OF demo_ctx_ok s(1) _ m(1) _ u, of 3 1] n by (simp add: m p c One_nat_def[symmetric] del: One_nat_def)
  moreover have "short_refs (apply_mmco 3 (demo_mmco 0) demo_ctx) = short_refs demo_ctx - {2}"
    using mmco1_drops_iff_unwrapped[OF demo_ctx_ok s(2) _ m(1) _ u, of 3 0] by (simp add: m p c)
  ultimately show ?thesis using s p by simp
qed

lemma select_fails:
  assumes "dpb_ok ctx" "current_idx ctx = None" "Dpb_Select ctx parsed = (st, ctx', sel)" "st \<noteq> DPB_OK \<or> sel = None"
  shows "keeps ctx ctx'" "st \<noteq> DPB_OK"
proof -
  have "keeps ctx (make_room (idr_clear parsed ctx))" by (rule keeps_trans[OF keeps_idr_clear keeps_make_room])
  then show "keeps ctx ctx'" "st \<noteq> DPB_OK"
    using assms(3,4) by (auto simp: Dpb_Select_def Let_def make_room_def split: if_splits option.splits)
qed

section \<open>Reachable contexts\<close>

text \<open>
  The contexts a caller can reach: pictures are selected one at a time, and the hold calls and the flush are used as long as
  their checks hold.
\<close>

inductive dpb_reach :: "DpbCtx \<Rightarrow> bool" where
  init: "Dpb_Init pool = (DPB_OK, Some ctx) \<Longrightarrow> dpb_reach ctx"
| select: "dpb_reach ctx \<Longrightarrow> current_idx ctx = None \<Longrightarrow> Dpb_Select ctx parsed = (st, ctx', sel) \<Longrightarrow> dpb_reach ctx'"
| complete: "dpb_reach ctx \<Longrightarrow> dpb_reach (Dpb_OnDecodeComplete ctx)"
| failed: "dpb_reach ctx \<Longrightarrow> dpb_reach (Dpb_OnDecodeFailed ctx)"
| add: "dpb_reach ctx \<Longrightarrow> Dpb_AddHold ctx i r e = Some ctx' \<Longrightarrow> dpb_reach ctx'"
| release: "dpb_reach ctx \<Longrightarrow> Dpb_ReleaseHold ctx i r = Some ctx' \<Longrightarrow> dpb_reach ctx'"
| transfer: "dpb_reach ctx \<Longrightarrow> Dpb_TransferHold ctx i r q e = Some ctx' \<Longrightarrow> dpb_reach ctx'"
| flush: "dpb_reach ctx \<Longrightarrow> Dpb_Flush ctx = Some ctx' \<Longrightarrow> dpb_reach ctx'"

lemma flag_set_ref [simp]: "is_ref (h264_flag_set r v s) = is_ref s" "in_use (h264_flag_set r v s) = in_use s"
  by (cases r; simp)+

lemma flag_set_ok: "dpb_ok ctx \<Longrightarrow> dpb_ok (upd_slot i (h264_flag_set r v) ctx)"
  by (rule dpb_ok_upd) simp_all

lemma sweep_slots:
  assumes "ctx' = fold (\<lambda>i. upd_slot i f) [0..<n] ctx" "n \<le> length (slots ctx)"
  shows "pool_size ctx' = pool_size ctx \<and> dpb_pool ctx' = dpb_pool ctx \<and> current_idx ctx' = current_idx ctx \<and>
    current_epoch ctx' = current_epoch ctx \<and> length (slots ctx') = length (slots ctx) \<and>
    (\<forall>j < length (slots ctx). slots ctx' ! j = (if j < n then f (slots ctx ! j) else slots ctx ! j))"
  using assms by (induction n arbitrary: ctx') (auto simp: upd_slot_nth less_Suc_eq)

lemma flush_slot_no_ref: "\<not> is_ref (flush_slot s)"
  by (simp add: flush_slot_def)

lemma flush_keeps_ok:
  assumes "dpb_ok ctx" "Dpb_Flush ctx = Some ctx'"
  shows "dpb_ok ctx'"
proof -
  let ?f = "fold (\<lambda>i. upd_slot i flush_slot) [0..<pool_size ctx] ctx"
  have c: "ctx' = ?f\<lparr>current_idx := None, current_epoch := current_epoch ctx + 1\<rparr>"
    using assms(2) by (auto simp: Dpb_Flush_def split: if_splits)
  note w = sweep_slots[OF refl dpb_ok_bounds[OF assms(1)], of flush_slot]
  then show ?thesis using assms(1) dpb_ok_bounds[OF assms(1)] by (auto simp: c dpb_ok_def flush_slot_no_ref)
qed

text \<open>
  C17: Every context reachable from initialisation is well-formed: sixteen slots, a pool of usable buffers for the slots in use,
  no reference in a slot that is not in use, and the current picture, if any, in a slot of the pool that is in use.
\<close>

theorem dpb_reach_ok: "dpb_reach ctx \<Longrightarrow> dpb_ok ctx"
proof (induction rule: dpb_reach.induct)
  case (select ctx parsed st ctx' sel)
  show ?case
  proof (cases "st = DPB_OK \<and> sel \<noteq> None")
    case True
    then show ?thesis using select_core(3)[OF select.IH select.hyps(2)] select.hyps(3) by auto
  next
    case False
    then show ?thesis using select_fails(1)[OF select.IH select.hyps(2,3)] select.IH select.hyps(2) by (simp add: keeps_def)
  qed
next
  case (flush ctx ctx')
  then show ?case using flush_keeps_ok by blast
qed (auto simp: init_ok complete_keeps failed_keeps Dpb_AddHold_def Dpb_ReleaseHold_def Dpb_TransferHold_def flag_set_ok split: if_splits)

theorem dpb_reach_ok_witness:
  "dpb_ok (Dpb_OnDecodeComplete (fst (snd (Dpb_Select (the (snd (Dpb_Init demo_pool))) (demo_parsed 0 0)))))"
proof -
  let ?c = "the (snd (Dpb_Init demo_pool))"
  have i: "Dpb_Init demo_pool = (DPB_OK, Some ?c)" "current_idx ?c = None" by (simp_all add: Dpb_Init_def demo_pool_def)
  obtain st d sel where d: "Dpb_Select ?c (demo_parsed 0 0) = (st, d, sel)" by (metis prod_cases3)
  have "dpb_reach (Dpb_OnDecodeComplete d)" by (rule dpb_reach.complete, rule dpb_reach.select[OF dpb_reach.init[OF i(1)] i(2) d])
  from dpb_reach_ok[OF this] show ?thesis by (simp add: d)
qed

end
