(* ===== verification/H265_Dpb.thy ===== *)
theory H265_Dpb
  imports H264_Dpb_Props
begin

text \<open>
  The HEVC decoded picture buffer (\<^verbatim>\<open>mft/dpb.cpp\<close> from line 718, \<^verbatim>\<open>mft/dpb.h\<close>): marking by the reference
  picture set, slot selection and completion, and the hold calls. The hold interface of both buffers is the locale
  \<open>hold_api\<close>, interpreted on the two contexts.
\<close>

section \<open>State\<close>

record h265_slot =
  h5_in_use :: bool
  h5_is_ref :: bool
  h5_pending_reorder :: bool
  h5_pending_ready :: bool
  h5_held_by_consumer :: bool
  h5_poc :: int
  h5_epoch :: ULONG

record H265DpbCtx =
  h5_pool :: "DpbPoolEntry list"
  h5_pool_size :: nat
  h5_current_idx :: "nat option"
  h5_current_epoch :: ULONG
  h5_slots :: "h265_slot list"

abbreviation H265_MAX_REFS :: nat where "H265_MAX_REFS \<equiv> 16"

record H265ShortTermRPS =
  num_negative_pics :: nat
  num_positive_pics :: nat
  delta_poc :: "int list"

record H265Sps =
  sps_valid :: bool
  num_short_term_ref_pic_sets :: nat
  st_rps :: "H265ShortTermRPS list"
  sps_max_sub_layers_minus1 :: nat
  sps_max_num_reorder_pics :: "nat list"
  pic_width_in_luma_samples :: ULONG
  pic_height_in_luma_samples :: ULONG

text \<open>What the buffer and the engine read of a parsed access unit. The arrays of parameter sets are lists; ids are -1 or an index.\<close>

record H265ParseResult =
  h5_has_slice :: bool
  h5_is_idr :: bool
  nal_ref_flag :: bool
  pr_poc :: int
  short_term_ref_pic_set_sps_flag :: bool
  short_term_ref_pic_set_idx :: nat
  st_rps_slice :: H265ShortTermRPS
  h5_sps :: "H265Sps list"
  active_sps_id :: "nat option"
  active_pps_id :: "nat option"
  got_params_in_au :: bool

record H265DpbSelection =
  h5_current_slot :: nat
  current_output_iova :: ULONG64
  current_colmv_iova :: ULONG64
  h5_refs :: "ULONG64 list"
  h5_ref_colmv :: "ULONG64 list"
  ref_pocs :: "int list"
  ref_valid_mask :: uint16
  cur_top_poc :: int
  cur_bot_poc :: int

abbreviation H265_DPB_REF_POC_SENTINEL :: int where "H265_DPB_REF_POC_SENTINEL \<equiv> 0x33333333"

section \<open>Slots and holds\<close>

definition h5_upd :: "nat \<Rightarrow> (h265_slot \<Rightarrow> h265_slot) \<Rightarrow> H265DpbCtx \<Rightarrow> H265DpbCtx" where
  "h5_upd i f ctx = ctx\<lparr>h5_slots := (h5_slots ctx)[i := f (h5_slots ctx ! i)]\<rparr>"

definition h265_slot_held :: "h265_slot \<Rightarrow> bool" where
  "h265_slot_held s \<longleftrightarrow> h5_pending_reorder s \<or> h5_pending_ready s \<or> h5_held_by_consumer s"

definition h265_clear :: "h265_slot \<Rightarrow> h265_slot" where
  "h265_clear s = s\<lparr>h5_in_use := False, h5_is_ref := False, h5_poc := 0\<rparr>"

definition h265_slot_clear :: "H265DpbCtx \<Rightarrow> nat \<Rightarrow> H265DpbCtx" where
  "h265_slot_clear ctx i = h5_upd i h265_clear ctx"

definition h265_find_free :: "H265DpbCtx \<Rightarrow> nat option" where
  "h265_find_free ctx =
     (case find (\<lambda>i. \<not> h265_slot_held (h5_slots ctx ! i) \<and> h5_in_use (h5_slots ctx ! i) \<and> \<not> h5_is_ref (h5_slots ctx ! i))
             [0..<h5_pool_size ctx] of
        Some i \<Rightarrow> Some i
      | None \<Rightarrow> find (\<lambda>i. \<not> h265_slot_held (h5_slots ctx ! i) \<and> \<not> h5_in_use (h5_slots ctx ! i)) [0..<h5_pool_size ctx])"

fun h265_flag_get :: "h265_slot \<Rightarrow> DpbHoldReason \<Rightarrow> bool" where
  "h265_flag_get s DPB_HOLD_REORDER = h5_pending_reorder s"
| "h265_flag_get s DPB_HOLD_READY = h5_pending_ready s"
| "h265_flag_get s DPB_HOLD_CONSUMER = h5_held_by_consumer s"

fun h265_flag_set :: "DpbHoldReason \<Rightarrow> bool \<Rightarrow> h265_slot \<Rightarrow> h265_slot" where
  "h265_flag_set DPB_HOLD_REORDER v s = s\<lparr>h5_pending_reorder := v\<rparr>"
| "h265_flag_set DPB_HOLD_READY v s = s\<lparr>h5_pending_ready := v\<rparr>"
| "h265_flag_set DPB_HOLD_CONSUMER v s = s\<lparr>h5_held_by_consumer := v\<rparr>"

definition H265Dpb_AddHold :: "H265DpbCtx \<Rightarrow> nat \<Rightarrow> DpbHoldReason \<Rightarrow> ULONG \<Rightarrow> H265DpbCtx option" where
  "H265Dpb_AddHold ctx i reason entry_epoch =
     (if i \<ge> h5_pool_size ctx then Some ctx
      else if h265_flag_get (h5_slots ctx ! i) reason then None
      else if h5_epoch (h5_slots ctx ! i) \<noteq> entry_epoch then None
      else Some (h5_upd i (h265_flag_set reason True) ctx))"

definition H265Dpb_ReleaseHold :: "H265DpbCtx \<Rightarrow> nat \<Rightarrow> DpbHoldReason \<Rightarrow> H265DpbCtx option" where
  "H265Dpb_ReleaseHold ctx i reason =
     (if i \<ge> h5_pool_size ctx then Some ctx
      else if \<not> h265_flag_get (h5_slots ctx ! i) reason then None
      else Some (h5_upd i (h265_flag_set reason False) ctx))"

definition H265Dpb_TransferHold :: "H265DpbCtx \<Rightarrow> nat \<Rightarrow> DpbHoldReason \<Rightarrow> DpbHoldReason \<Rightarrow> ULONG \<Rightarrow> H265DpbCtx option" where
  "H265Dpb_TransferHold ctx i fr to entry_epoch =
     (if i \<ge> h5_pool_size ctx then Some ctx
      else if fr = to then None
      else if \<not> h265_flag_get (h5_slots ctx ! i) fr then None
      else if h265_flag_get (h5_slots ctx ! i) to then None
      else if h5_epoch (h5_slots ctx ! i) \<noteq> entry_epoch then None
      else Some (h5_upd i (h265_flag_set to True) (h5_upd i (h265_flag_set fr False) ctx)))"

definition h265_flush_slot :: "h265_slot \<Rightarrow> h265_slot" where
  "h265_flush_slot s = (if \<not> h5_held_by_consumer s then h265_clear s else s\<lparr>h5_in_use := False, h5_is_ref := False\<rparr>)"

definition H265Dpb_Flush :: "H265DpbCtx \<Rightarrow> H265DpbCtx option" where
  "H265Dpb_Flush ctx =
     (if \<exists>i \<in> set [0..<h5_pool_size ctx]. h5_pending_reorder (h5_slots ctx ! i) \<or> h5_pending_ready (h5_slots ctx ! i) then None
      else Some ((fold (\<lambda>i. h5_upd i h265_flush_slot) [0..<h5_pool_size ctx] ctx)
                   \<lparr>h5_current_idx := None, h5_current_epoch := h5_current_epoch ctx + 1\<rparr>))"

section \<open>Reference picture set and selection\<close>

definition h265_active_strps :: "H265ParseResult \<Rightarrow> H265ShortTermRPS option" where
  "h265_active_strps p =
     (if \<not> short_term_ref_pic_set_sps_flag p then Some (st_rps_slice p)
      else case active_sps_id p of
             None \<Rightarrow> None
           | Some i \<Rightarrow> (let sps = h5_sps p ! i
               in if \<not> sps_valid sps then None
                  else if short_term_ref_pic_set_idx p \<ge> num_short_term_ref_pic_sets sps then None
                  else Some (st_rps sps ! short_term_ref_pic_set_idx p)))"

definition needed_pocs :: "H265ParseResult \<Rightarrow> int list" where
  "needed_pocs p = (case h265_active_strps p of
       None \<Rightarrow> []
     | Some rps \<Rightarrow> map (\<lambda>i. pr_poc p + delta_poc rps ! i)
         [0..<min (num_negative_pics rps + num_positive_pics rps) H265_MAX_REFS])"

definition h265_mark :: "H265ParseResult \<Rightarrow> h265_slot \<Rightarrow> h265_slot" where
  "h265_mark p s = (if \<not> h5_in_use s then s else s\<lparr>h5_is_ref := (h5_poc s \<in> set (needed_pocs p))\<rparr>)"

definition h265_remark :: "H265ParseResult \<Rightarrow> H265DpbCtx \<Rightarrow> H265DpbCtx" where
  "h265_remark p ctx = fold (\<lambda>i. h5_upd i (if h5_is_idr p then h265_clear else h265_mark p)) [0..<h5_pool_size ctx] ctx"

definition h265_zero_slot :: h265_slot where
  "h265_zero_slot = \<lparr>h5_in_use = False, h5_is_ref = False, h5_pending_reorder = False, h5_pending_ready = False,
     h5_held_by_consumer = False, h5_poc = 0, h5_epoch = 0\<rparr>"

definition H265Dpb_Init :: "DpbPoolEntry list \<Rightarrow> DpbStatus \<times> H265DpbCtx option" where
  "H265Dpb_Init pool =
     (if length pool = 0 \<or> length pool > DPB_MAX_SLOTS then (DPB_INVALID_INPUT, None)
      else if \<exists>e \<in> set pool. output_frame e = 0 \<or> colmv e = 0 then (DPB_INVALID_INPUT, None)
      else (DPB_OK, Some \<lparr>h5_pool = pool, h5_pool_size = length pool, h5_current_idx = None, h5_current_epoch = 0,
              h5_slots = replicate DPB_MAX_SLOTS h265_zero_slot\<rparr>))"

definition h265_take_slot :: "H265ParseResult \<Rightarrow> nat \<Rightarrow> H265DpbCtx \<Rightarrow> H265DpbCtx" where
  "h265_take_slot p slot ctx =
     (h5_upd slot (\<lambda>s. (h265_clear s)\<lparr>h5_in_use := True, h5_is_ref := nal_ref_flag p, h5_poc := pr_poc p\<rparr>) ctx)
       \<lparr>h5_current_idx := Some slot\<rparr>"

definition h265_active :: "H265DpbCtx \<Rightarrow> nat \<Rightarrow> nat \<Rightarrow> bool" where
  "h265_active ctx slot i \<longleftrightarrow> i < h5_pool_size ctx \<and> i \<noteq> slot \<and> h5_in_use (h5_slots ctx ! i) \<and> h5_is_ref (h5_slots ctx ! i)"

definition h265_selection :: "H265DpbCtx \<Rightarrow> H265ParseResult \<Rightarrow> nat \<Rightarrow> H265DpbSelection" where
  "h265_selection ctx p slot =
     \<lparr>h5_current_slot = slot, current_output_iova = output_frame (h5_pool ctx ! slot), current_colmv_iova = colmv (h5_pool ctx ! slot),
      h5_refs = map (\<lambda>i. if h265_active ctx slot i then output_frame (h5_pool ctx ! i) else 0) [0..<DPB_MAX_SLOTS],
      h5_ref_colmv = map (\<lambda>i. if h265_active ctx slot i then colmv (h5_pool ctx ! i) else 0) [0..<DPB_MAX_SLOTS],
      ref_pocs = map (\<lambda>i. if h265_active ctx slot i then h5_poc (h5_slots ctx ! i) else H265_DPB_REF_POC_SENTINEL) [0..<DPB_MAX_SLOTS],
      ref_valid_mask = fold (\<lambda>i m. if h265_active ctx slot i then or m (push_bit i 1) else m) [0..<h5_pool_size ctx] 0,
      cur_top_poc = pr_poc p, cur_bot_poc = pr_poc p\<rparr>"

definition H265Dpb_Select :: "H265DpbCtx \<Rightarrow> H265ParseResult \<Rightarrow> DpbStatus \<times> H265DpbCtx \<times> H265DpbSelection option" where
  "H265Dpb_Select ctx p =
     (if \<not> h5_has_slice p then (DPB_INVALID_INPUT, ctx, None)
      else (let ctx1 = h265_remark p ctx
            in case h265_find_free ctx1 of
                 None \<Rightarrow> (DPB_FULL, ctx1, None)
               | Some slot \<Rightarrow> (let ctx2 = h265_take_slot p slot ctx1 in (DPB_OK, ctx2, Some (h265_selection ctx2 p slot)))))"

definition H265Dpb_OnDecodeComplete :: "H265DpbCtx \<Rightarrow> H265DpbCtx" where
  "H265Dpb_OnDecodeComplete ctx =
     (case h5_current_idx ctx of
        None \<Rightarrow> ctx
      | Some cur \<Rightarrow> (let ctx1 = ctx\<lparr>h5_current_idx := None\<rparr>
          in if \<not> h5_is_ref (h5_slots ctx1 ! cur) then h265_slot_clear ctx1 cur else ctx1))"

definition H265Dpb_OnDecodeFailed :: "H265DpbCtx \<Rightarrow> H265DpbCtx" where
  "H265Dpb_OnDecodeFailed ctx =
     (case h5_current_idx ctx of None \<Rightarrow> ctx | Some cur \<Rightarrow> h265_slot_clear (ctx\<lparr>h5_current_idx := None\<rparr>) cur)"

section \<open>Updates of all slots\<close>

lemma h5_upd_simps [simp]:
  "h5_pool_size (h5_upd i f ctx) = h5_pool_size ctx" "h5_pool (h5_upd i f ctx) = h5_pool ctx"
  "h5_current_idx (h5_upd i f ctx) = h5_current_idx ctx" "h5_current_epoch (h5_upd i f ctx) = h5_current_epoch ctx"
  "length (h5_slots (h5_upd i f ctx)) = length (h5_slots ctx)"
  by (simp_all add: h5_upd_def)

lemma h5_upd_nth: "j < length (h5_slots ctx) \<Longrightarrow> h5_slots (h5_upd i f ctx) ! j = (if j = i then f (h5_slots ctx ! j) else h5_slots ctx ! j)"
  by (simp add: h5_upd_def nth_list_update)

lemma h5_sweep:
  assumes "ctx' = fold (\<lambda>i. h5_upd i f) [0..<n] ctx" "n \<le> length (h5_slots ctx)"
  shows "h5_pool_size ctx' = h5_pool_size ctx \<and> h5_pool ctx' = h5_pool ctx \<and> h5_current_idx ctx' = h5_current_idx ctx \<and>
    h5_current_epoch ctx' = h5_current_epoch ctx \<and> length (h5_slots ctx') = length (h5_slots ctx) \<and>
    (\<forall>j < length (h5_slots ctx). h5_slots ctx' ! j = (if j < n then f (h5_slots ctx ! j) else h5_slots ctx ! j))"
  using assms by (induction n arbitrary: ctx') (auto simp: h5_upd_nth less_Suc_eq)

definition h265_ok :: "H265DpbCtx \<Rightarrow> bool" where
  "h265_ok ctx \<longleftrightarrow> length (h5_slots ctx) = DPB_MAX_SLOTS \<and> 0 < h5_pool_size ctx \<and> h5_pool_size ctx \<le> DPB_MAX_SLOTS \<and>
     length (h5_pool ctx) = h5_pool_size ctx \<and> (\<forall>e \<in> set (h5_pool ctx). output_frame e \<noteq> 0 \<and> colmv e \<noteq> 0) \<and>
     (\<forall>i. h5_current_idx ctx = Some i \<longrightarrow> i < h5_pool_size ctx)"

section \<open>Selection\<close>

lemma h265_clear_simps [simp]:
  "\<not> h5_in_use (h265_clear s)" "\<not> h5_is_ref (h265_clear s)" "h5_epoch (h265_clear s) = h5_epoch s"
  by (simp_all add: h265_clear_def)

lemma h265_clear_flag [simp]: "h265_flag_get (h265_clear s) r = h265_flag_get s r"
  by (cases r) (simp_all add: h265_clear_def)

lemma h265_held_flags: "h265_slot_held s \<longleftrightarrow> (\<exists>r. h265_flag_get s r)"
  by (auto simp: h265_slot_held_def elim: h265_flag_get.elims) (metis h265_flag_get.simps)+

lemma h265_remark_flag [simp]: "h265_flag_get (h265_mark p s) r = h265_flag_get s r" "h5_epoch (h265_mark p s) = h5_epoch s"
  by (cases r; simp add: h265_mark_def)+

lemma h265_remark_spec:
  assumes "h265_ok ctx"
  shows "h5_pool_size (h265_remark p ctx) = h5_pool_size ctx" "h5_pool (h265_remark p ctx) = h5_pool ctx"
    "length (h5_slots (h265_remark p ctx)) = DPB_MAX_SLOTS" "h5_current_epoch (h265_remark p ctx) = h5_current_epoch ctx"
    "h265_ok (h265_remark p ctx)"
    "\<And>j. j < h5_pool_size ctx \<Longrightarrow> h5_slots (h265_remark p ctx) ! j = (if h5_is_idr p then h265_clear else h265_mark p) (h5_slots ctx ! j)"
    "\<And>j. j < DPB_MAX_SLOTS \<Longrightarrow> h5_pool_size ctx \<le> j \<Longrightarrow> h5_slots (h265_remark p ctx) ! j = h5_slots ctx ! j"
  using h5_sweep[OF refl, of "h5_pool_size ctx" ctx "if h5_is_idr p then h265_clear else h265_mark p"] assms
  unfolding h265_remark_def h265_ok_def by simp_all

lemma h265_find_free_Some:
  assumes "h265_find_free ctx = Some i"
  shows "i < h5_pool_size ctx" "\<not> h265_slot_held (h5_slots ctx ! i)" "\<not> (h5_in_use (h5_slots ctx ! i) \<and> h5_is_ref (h5_slots ctx ! i))"
  using assms by (auto simp: h265_find_free_def find_Some_iff split: option.splits)

lemma h265_find_free_None:
  "h265_find_free ctx = None \<longleftrightarrow> (\<forall>i < h5_pool_size ctx. h265_slot_held (h5_slots ctx ! i) \<or> h5_in_use (h5_slots ctx ! i) \<and> h5_is_ref (h5_slots ctx ! i))"
proof (cases "h265_find_free ctx")
  case None
  then show ?thesis by (auto simp: h265_find_free_def find_None_iff split: option.splits)
next
  case (Some i)
  then show ?thesis using h265_find_free_Some[OF Some] by auto
qed

lemma mask_bits:
  fixes m :: uint16
  assumes "n < 16"
  shows "bit (fold (\<lambda>i m. if P i then or m (push_bit i 1) else m) xs m) n \<longleftrightarrow> bit m n \<or> (n \<in> set xs \<and> P n)"
proof (induction xs arbitrary: m)
  case (Cons x xs)
  have "bit (or m (push_bit x 1)) n \<longleftrightarrow> bit m n \<or> n = x"
    using assms by (auto simp: bit_or_iff bit_exp_iff)
  then show ?case using Cons.IH[of m] Cons.IH[of "or m (push_bit x 1)"] by (cases "P x") auto
qed simp

lemma h265_select_core:
  assumes "h265_ok ctx" "H265Dpb_Select ctx p = (st, ctx', sel)"
  shows "h5_pool_size ctx' = h5_pool_size ctx" "h5_current_epoch ctx' = h5_current_epoch ctx" "h265_ok ctx'"
    "st = DPB_OK \<longleftrightarrow> sel \<noteq> None" "sel = None \<Longrightarrow> h5_current_idx ctx' = h5_current_idx ctx"
    "sel = Some s \<Longrightarrow> h5_current_idx ctx' = Some (h5_current_slot s) \<and> h5_current_slot s < h5_pool_size ctx \<and>
       \<not> h265_slot_held (h5_slots ctx ! h5_current_slot s)"
    "\<And>i r. i < h5_pool_size ctx \<Longrightarrow> h265_flag_get (h5_slots ctx' ! i) r = h265_flag_get (h5_slots ctx ! i) r"
    "\<And>i. i < h5_pool_size ctx \<Longrightarrow> h5_epoch (h5_slots ctx' ! i) = h5_epoch (h5_slots ctx ! i)"
proof -
  let ?c = "h265_remark p ctx"
  note k = h265_remark_spec[OF assms(1), where p = p]
  have fl: "h265_flag_get (h5_slots ?c ! i) r = h265_flag_get (h5_slots ctx ! i) r" "h5_epoch (h5_slots ?c ! i) = h5_epoch (h5_slots ctx ! i)"
    if "i < h5_pool_size ctx" for i r using k(6)[OF that] by simp_all
  have cur: "h5_current_idx ?c = h5_current_idx ctx"
    using h5_sweep[OF refl, of "h5_pool_size ctx" ctx "if h5_is_idr p then h265_clear else h265_mark p"] assms(1)
    unfolding h265_remark_def h265_ok_def by simp
  have tk: "h265_flag_get ((h265_clear x)\<lparr>h5_in_use := True, h5_is_ref := v, h5_poc := w\<rparr>) r = h265_flag_get x r" for x v w r
    by (cases r) (simp_all add: h265_clear_def)
  show "h5_pool_size ctx' = h5_pool_size ctx" "h5_current_epoch ctx' = h5_current_epoch ctx" "st = DPB_OK \<longleftrightarrow> sel \<noteq> None"
    "sel = None \<Longrightarrow> h5_current_idx ctx' = h5_current_idx ctx"
    using assms(2) k(1,4) cur by (auto simp: H265Dpb_Select_def Let_def h265_take_slot_def split: if_splits option.splits)
  have d: "ctx' = ctx \<or> ctx' = ?c \<or> (\<exists>slot. h265_find_free ?c = Some slot \<and> ctx' = h265_take_slot p slot ?c)"
    using assms(2) by (cases "h5_has_slice p"; cases "h265_find_free ?c") (simp_all add: H265Dpb_Select_def Let_def)
  have "h265_ok (h265_take_slot p slot ?c)" if "h265_find_free ?c = Some slot" for slot
    using k(5) h265_find_free_Some(1)[OF that] by (auto simp: h265_ok_def h265_take_slot_def)
  with d show "h265_ok ctx'" using assms(1) k(5) by (elim disjE exE conjE) simp_all
  show "h5_current_idx ctx' = Some (h5_current_slot s) \<and> h5_current_slot s < h5_pool_size ctx \<and> \<not> h265_slot_held (h5_slots ctx ! h5_current_slot s)"
    if "sel = Some s"
  proof -
    have "h265_find_free ?c \<noteq> None"
      using assms(2) that by (cases "h5_has_slice p"; cases "h265_find_free ?c") (auto simp: H265Dpb_Select_def Let_def)
    then obtain slot where f: "h265_find_free ?c = Some slot" by blast
    then have s: "ctx' = h265_take_slot p slot ?c" "s = h265_selection (h265_take_slot p slot ?c) p slot"
      using assms(2) that by (cases "h5_has_slice p"; simp add: H265Dpb_Select_def Let_def)+
    note g = h265_find_free_Some[OF f, unfolded k(1)]
    show ?thesis using g(1,2) fl(1)[OF g(1)] by (simp add: s h265_selection_def h265_take_slot_def h265_held_flags)
  qed
  fix i assume i: "i < h5_pool_size ctx"
  have i16: "i < length (h5_slots ?c)" using i k(3) assms(1) by (simp add: h265_ok_def)
  have "h5_slots (h265_take_slot p slot ?c) ! i = h5_slots ?c ! i \<or>
      h5_slots (h265_take_slot p slot ?c) ! i = (h265_clear (h5_slots ?c ! i))\<lparr>h5_in_use := True, h5_is_ref := nal_ref_flag p, h5_poc := pr_poc p\<rparr>" for slot
    using i16 by (simp add: h265_take_slot_def h5_upd_nth)
  then have "h5_slots ctx' ! i = h5_slots ctx ! i \<or> h5_slots ctx' ! i = h5_slots ?c ! i \<or>
      h5_slots ctx' ! i = (h265_clear (h5_slots ?c ! i))\<lparr>h5_in_use := True, h5_is_ref := nal_ref_flag p, h5_poc := pr_poc p\<rparr>"
    using d by blast
  then show "h265_flag_get (h5_slots ctx' ! i) r = h265_flag_get (h5_slots ctx ! i) r" "h5_epoch (h5_slots ctx' ! i) = h5_epoch (h5_slots ctx ! i)" for r
    using fl[OF i] by (elim disjE; simp add: tk)+
qed

text \<open>
  C21: HEVC selection follows the reference picture set: the slot taken is not held and holds no picture of the set; every
  decoded picture whose order count is in the set keeps its slot and is announced to the hardware in the valid mask with its
  order count and buffers, and no other slot is announced; holds are unchanged. It fails only if every slot is held or holds
  a picture of the set.
\<close>

theorem h265_select_follows_rps:
  assumes "h265_ok ctx" "h5_has_slice p" "\<not> h5_is_idr p" "H265Dpb_Select ctx p = (st, ctx', sel)"
  shows "case sel of
      None \<Rightarrow> st = DPB_FULL \<and> (\<forall>i < h5_pool_size ctx. h265_slot_held (h5_slots ctx ! i) \<or>
                h5_in_use (h5_slots ctx ! i) \<and> h5_poc (h5_slots ctx ! i) \<in> set (needed_pocs p))
    | Some s \<Rightarrow> st = DPB_OK \<and> h5_current_slot s < h5_pool_size ctx \<and> \<not> h265_slot_held (h5_slots ctx ! h5_current_slot s) \<and>
        current_output_iova s = output_frame (h5_pool ctx ! h5_current_slot s) \<and>
        (\<forall>i < h5_pool_size ctx. h5_in_use (h5_slots ctx ! i) \<and> h5_poc (h5_slots ctx ! i) \<in> set (needed_pocs p) \<longrightarrow>
           i \<noteq> h5_current_slot s \<and> bit (ref_valid_mask s) i \<and> ref_pocs s ! i = h5_poc (h5_slots ctx ! i) \<and>
           h5_refs s ! i = output_frame (h5_pool ctx ! i) \<and> h5_ref_colmv s ! i = colmv (h5_pool ctx ! i) \<and>
           h5_slots ctx' ! i = (h5_slots ctx ! i)\<lparr>h5_is_ref := True\<rparr>) \<and>
        (\<forall>i < 16. bit (ref_valid_mask s) i \<longrightarrow> i < h5_pool_size ctx \<and> h5_in_use (h5_slots ctx ! i) \<and> h5_poc (h5_slots ctx ! i) \<in> set (needed_pocs p)) \<and>
        (\<forall>i < 16. \<forall>r. h265_flag_get (h5_slots ctx' ! i) r = h265_flag_get (h5_slots ctx ! i) r) \<and> h265_ok ctx'"
proof -
  let ?c = "h265_remark p ctx"
  note k = h265_remark_spec[OF assms(1), where p = p]
  have m: "h5_slots ?c ! i = h265_mark p (h5_slots ctx ! i)" if "i < h5_pool_size ctx" for i using k(6)[OF that] assms(3) by simp
  have hm: "h265_slot_held (h265_mark p s) = h265_slot_held s" for s by (simp add: h265_held_flags)
  have ref: "h5_in_use (h265_mark p s) \<and> h5_is_ref (h265_mark p s) \<longleftrightarrow> h5_in_use s \<and> h5_poc s \<in> set (needed_pocs p)" for s
    by (simp add: h265_mark_def)
  show ?thesis
  proof (cases "h265_find_free ?c")
    case None
    then have "sel = None" "st = DPB_FULL" using assms(2,4) by (auto simp: H265Dpb_Select_def Let_def)
    then show ?thesis using None[unfolded h265_find_free_None k(1)] m hm ref by auto
  next
    case (Some slot)
    let ?d = "h265_take_slot p slot ?c"
    have s: "sel = Some (h265_selection ?d p slot)" "st = DPB_OK" "ctx' = ?d"
      using assms(2,4) Some by (auto simp: H265Dpb_Select_def Let_def)
    note f = h265_find_free_Some[OF Some]
    have sb: "slot < h5_pool_size ctx" using f(1) k(1) by simp
    have b16: "i < 16" if "i < h5_pool_size ctx" for i using that assms(1) by (simp add: h265_ok_def)
    have nr: "\<not> h265_slot_held (h5_slots ctx ! slot)" "\<not> (h5_in_use (h5_slots ctx ! slot) \<and> h5_poc (h5_slots ctx ! slot) \<in> set (needed_pocs p))"
      using f(2,3) m[OF sb] hm ref by auto
    have d: "h5_slots ?d ! i = (if i = slot then (h265_clear (h5_slots ?c ! i))\<lparr>h5_in_use := True, h5_is_ref := nal_ref_flag p, h5_poc := pr_poc p\<rparr>
        else h5_slots ?c ! i)" if "i < 16" for i using that k(3) by (simp add: h265_take_slot_def h5_upd_nth)
    have dp: "h5_pool_size ?d = h5_pool_size ctx" "h5_pool ?d = h5_pool ctx" using k by (simp_all add: h265_take_slot_def)
    have act: "h265_active ?d slot i \<longleftrightarrow> i < h5_pool_size ctx \<and> h5_in_use (h5_slots ctx ! i) \<and> h5_poc (h5_slots ctx ! i) \<in> set (needed_pocs p)" for i
    proof (cases "i = slot \<or> \<not> i < h5_pool_size ctx")
      case False
      then have "h5_slots ?d ! i = h265_mark p (h5_slots ctx ! i)" using d[OF b16] m by simp
      then show ?thesis using ref False unfolding h265_active_def dp by simp
    qed (use nr(2) in \<open>auto simp: h265_active_def dp\<close>)
    have fl: "h265_flag_get (h5_slots ?d ! i) r = h265_flag_get (h5_slots ctx ! i) r" if "i < 16" for i r
    proof -
      have "h265_flag_get (h5_slots ?c ! i) r = h265_flag_get (h5_slots ctx ! i) r"
        using m[of i] k(7)[of i] that by (cases "i < h5_pool_size ctx") auto
      moreover have "h265_flag_get ((h265_clear x)\<lparr>h5_in_use := True, h5_is_ref := v, h5_poc := w\<rparr>) r = h265_flag_get x r" for x v w
        by (cases r) (simp_all add: h265_clear_def)
      ultimately show ?thesis using d[OF that] by (cases "i = slot") simp_all
    qed
    have "h5_slots ?d ! i = (h5_slots ctx ! i)\<lparr>h5_is_ref := True\<rparr>" if "h265_active ?d slot i" for i
    proof -
      have a: "i < h5_pool_size ctx" "h5_in_use (h5_slots ctx ! i)" "h5_poc (h5_slots ctx ! i) \<in> set (needed_pocs p)" "i \<noteq> slot"
        using that act[of i] nr(2) by auto
      show ?thesis using d[OF b16[OF a(1)]] m[OF a(1)] a by (simp add: h265_mark_def)
    qed
    moreover have "h265_ok ?d" using k(5) f(1) by (auto simp: h265_ok_def h265_take_slot_def)
    moreover have "bit (ref_valid_mask (h265_selection ?d p slot)) i \<longleftrightarrow> h265_active ?d slot i" if "i < 16" for i
      using mask_bits[OF that] by (auto simp: h265_selection_def) (simp_all add: h265_active_def)
    moreover have "h5_poc (h5_slots ?d ! i) = h5_poc (h5_slots ctx ! i)" if "h265_active ?d slot i" for i using calculation(1)[OF that] by simp
    ultimately show ?thesis using sb nr fl act b16 dp
      unfolding s by (auto simp: h265_selection_def act h265_active_def)
  qed
qed

definition h5_demo_rps :: H265ShortTermRPS where
  "h5_demo_rps = \<lparr>num_negative_pics = 2, num_positive_pics = 0, delta_poc = [-1, -4] @ replicate 14 0\<rparr>"

definition h5_demo_parsed :: H265ParseResult where
  "h5_demo_parsed = \<lparr>h5_has_slice = True, h5_is_idr = False, nal_ref_flag = True, pr_poc = 8, short_term_ref_pic_set_sps_flag = False,
     short_term_ref_pic_set_idx = 0, st_rps_slice = h5_demo_rps, h5_sps = [], active_sps_id = None, active_pps_id = None,
     got_params_in_au = False\<rparr>"

definition h5_demo_slot :: "int \<Rightarrow> h265_slot" where
  "h5_demo_slot poc = h265_zero_slot\<lparr>h5_in_use := True, h5_is_ref := True, h5_poc := poc\<rparr>"

text \<open>Pictures 4, 7, and 6, of which the last is not in the reference picture set of picture 8.\<close>

definition h5_demo_ctx :: H265DpbCtx where
  "h5_demo_ctx = \<lparr>h5_pool = demo_pool, h5_pool_size = 4, h5_current_idx = None, h5_current_epoch = 0,
     h5_slots = [h5_demo_slot 4, h5_demo_slot 7, h5_demo_slot 6] @ replicate 13 h265_zero_slot\<rparr>"

lemma h5_demo_ok: "h265_ok h5_demo_ctx"
  by (simp add: h265_ok_def h5_demo_ctx_def demo_pool_def)

theorem h265_select_follows_rps_witness:
  "\<exists>ctx' s. H265Dpb_Select h5_demo_ctx h5_demo_parsed = (DPB_OK, ctx', Some s) \<and> h5_current_slot s = 2 \<and>
     bit (ref_valid_mask s) 0 \<and> bit (ref_valid_mask s) 1 \<and> ref_pocs s ! 1 = 7"
proof -
  obtain st ctx' sl where d: "H265Dpb_Select h5_demo_ctx h5_demo_parsed = (st, ctx', sl)" by (metis prod_cases3)
  have "fst (H265Dpb_Select h5_demo_ctx h5_demo_parsed) = DPB_OK" "snd (snd (H265Dpb_Select h5_demo_ctx h5_demo_parsed)) \<noteq> None"
    "h5_current_slot (the (snd (snd (H265Dpb_Select h5_demo_ctx h5_demo_parsed)))) = 2" "needed_pocs h5_demo_parsed = [7, 4]"
    by code_simp+
  then obtain s where s: "sl = Some s" "st = DPB_OK" "h5_current_slot s = 2" "needed_pocs h5_demo_parsed = [7, 4]" by (auto simp: d)
  have p: "h5_has_slice h5_demo_parsed" "\<not> h5_is_idr h5_demo_parsed" by (simp_all add: h5_demo_parsed_def)
  note w = h265_select_follows_rps[OF h5_demo_ok p d, unfolded s option.case]
  have u: "0 < h5_pool_size h5_demo_ctx" "1 < h5_pool_size h5_demo_ctx" "h5_in_use (h5_slots h5_demo_ctx ! 0)" "h5_in_use (h5_slots h5_demo_ctx ! 1)"
    "h5_poc (h5_slots h5_demo_ctx ! 0) = 4" "h5_poc (h5_slots h5_demo_ctx ! 1) = 7"
    by (simp_all add: h5_demo_ctx_def h5_demo_slot_def)
  note k = w[THEN conjunct2, THEN conjunct2, THEN conjunct2, THEN conjunct2, THEN conjunct1, rule_format]
  have "bit (ref_valid_mask s) 0" "bit (ref_valid_mask s) 1 \<and> ref_pocs s ! 1 = 7"
    using k[OF u(1)] k[OF u(2)] u(3-6) by simp_all
  then show ?thesis using d s by auto
qed

end
