(* ===== verification/Hold_Api.thy ===== *)
theory Hold_Api
  imports H265_Dpb
begin

text \<open>
  The slot-lifecycle interface of the picture buffers (\<^verbatim>\<open>mft/dpb.h\<close>, hold API) as the locale \<open>hold_api\<close>:
  adding, releasing and transferring a named hold, and the flush. The lemmas about queues of held slots are proved in the
  locale once; the two buffers interpret it.
\<close>

section \<open>Queues of held slots\<close>

type_synonym hold_ref = "nat \<times> ULONG"

text \<open>
  A slot is held for reordering, for output or by a consumer exactly if the reorder queue, the output queue or the set of
  consumed frames has it; no slot is in two places; the queued entries carry the epoch of their slot.
\<close>

definition queues_hold :: "(nat \<Rightarrow> DpbHoldReason \<Rightarrow> bool) \<Rightarrow> (nat \<Rightarrow> ULONG) \<Rightarrow> hold_ref list \<Rightarrow> hold_ref list \<Rightarrow> nat set \<Rightarrow> bool" where
  "queues_hold held ep rs ys cs \<longleftrightarrow>
     (\<forall>i. (held i DPB_HOLD_REORDER \<longleftrightarrow> i \<in> fst ` set rs) \<and> (held i DPB_HOLD_READY \<longleftrightarrow> i \<in> fst ` set ys) \<and>
          (held i DPB_HOLD_CONSUMER \<longleftrightarrow> i \<in> cs)) \<and>
     distinct (map fst (rs @ ys)) \<and> fst ` set (rs @ ys) \<inter> cs = {} \<and> (\<forall>(i, e) \<in> set (rs @ ys). ep i = e)"

lemma queues_hold_epochs:
  assumes "queues_hold held ep rs ys cs" "\<And>i r. held i r \<Longrightarrow> ep' i = ep i"
  shows "queues_hold held ep' rs ys cs"
proof -
  note q = assms(1)[unfolded queues_hold_def]
  have "ep' i = e" if p: "(i, e) \<in> set (rs @ ys)" for i e
  proof -
    have "i \<in> fst ` set rs \<or> i \<in> fst ` set ys" using p by (auto intro: image_eqI[of _ fst "(i, e)"])
    then have "held i DPB_HOLD_REORDER \<or> held i DPB_HOLD_READY" using q[THEN conjunct1, rule_format, of i] by simp
    then have "ep' i = ep i" by (elim disjE) (rule assms(2), assumption)+
    moreover have "ep i = e" using q[THEN conjunct2, THEN conjunct2, THEN conjunct2] p by fastforce
    ultimately show ?thesis by simp
  qed
  then have "\<forall>(i, e) \<in> set (rs @ ys). ep' i = e" by (intro ballI) (simp add: case_prod_beta)
  then show ?thesis using q unfolding queues_hold_def by (elim conjE) (intro conjI; assumption)
qed

definition set_hold :: "nat \<Rightarrow> DpbHoldReason \<Rightarrow> bool \<Rightarrow> (nat \<Rightarrow> DpbHoldReason \<Rightarrow> bool) \<Rightarrow> nat \<Rightarrow> DpbHoldReason \<Rightarrow> bool" where
  "set_hold i r v held = (\<lambda>j q. if j = i \<and> q = r then v else held j q)"

fun release_all :: "('c \<Rightarrow> nat \<Rightarrow> DpbHoldReason \<Rightarrow> 'c option) \<Rightarrow> DpbHoldReason \<Rightarrow> nat list \<Rightarrow> 'c \<Rightarrow> 'c option" where
  "release_all rel r [] c = Some c"
| "release_all rel r (i # is) c = (case rel c i r of None \<Rightarrow> None | Some c' \<Rightarrow> release_all rel r is c')"

locale hold_api =
  fixes wf :: "'c \<Rightarrow> bool" and psize :: "'c \<Rightarrow> nat" and held :: "'c \<Rightarrow> nat \<Rightarrow> DpbHoldReason \<Rightarrow> bool" and ep :: "'c \<Rightarrow> nat \<Rightarrow> ULONG"
    and now :: "'c \<Rightarrow> ULONG"
    and add :: "'c \<Rightarrow> nat \<Rightarrow> DpbHoldReason \<Rightarrow> ULONG \<Rightarrow> 'c option" and release :: "'c \<Rightarrow> nat \<Rightarrow> DpbHoldReason \<Rightarrow> 'c option"
    and transfer :: "'c \<Rightarrow> nat \<Rightarrow> DpbHoldReason \<Rightarrow> DpbHoldReason \<Rightarrow> ULONG \<Rightarrow> 'c option" and flush :: "'c \<Rightarrow> 'c option"
  assumes held_bound: "held c i r \<Longrightarrow> i < psize c"
    and add_law: "wf c \<Longrightarrow> i < psize c \<Longrightarrow> \<not> held c i r \<Longrightarrow> ep c i = e \<Longrightarrow>
      \<exists>c'. add c i r e = Some c' \<and> wf c' \<and> psize c' = psize c \<and> ep c' = ep c \<and> now c' = now c \<and> held c' = set_hold i r True (held c)"
    and add_traps: "wf c \<Longrightarrow> i < psize c \<Longrightarrow> held c i r \<or> ep c i \<noteq> e \<Longrightarrow> add c i r e = None"
    and release_law: "wf c \<Longrightarrow> held c i r \<Longrightarrow>
      \<exists>c'. release c i r = Some c' \<and> wf c' \<and> psize c' = psize c \<and> ep c' = ep c \<and> now c' = now c \<and> held c' = set_hold i r False (held c)"
    and transfer_law: "wf c \<Longrightarrow> held c i r \<Longrightarrow> \<not> held c i q \<Longrightarrow> ep c i = e \<Longrightarrow>
      \<exists>c'. transfer c i r q e = Some c' \<and> wf c' \<and> psize c' = psize c \<and> ep c' = ep c \<and> now c' = now c \<and>
        held c' = set_hold i q True (set_hold i r False (held c))"
    and flush_law: "wf c \<Longrightarrow> (\<forall>i. \<not> held c i DPB_HOLD_REORDER \<and> \<not> held c i DPB_HOLD_READY) \<Longrightarrow>
      \<exists>c'. flush c = Some c' \<and> wf c' \<and> psize c' = psize c \<and> ep c' = ep c \<and> now c' = now c + 1 \<and> held c' = held c"
begin

definition queued :: "'c \<Rightarrow> hold_ref list \<Rightarrow> hold_ref list \<Rightarrow> nat set \<Rightarrow> bool" where
  "queued c rs ys cs \<longleftrightarrow> wf c \<and> queues_hold (held c) (ep c) rs ys cs"

lemma queued_bound: "queued c rs ys cs \<Longrightarrow> (i, e) \<in> set (rs @ ys) \<Longrightarrow> i < psize c"
  unfolding queued_def queues_hold_def using held_bound by (fastforce simp: image_iff)

lemma queue_take:
  assumes "queued c rs ys cs" "i < psize c" "\<And>r. \<not> held c i r" "ep c i = e"
  shows "\<exists>c'. add c i DPB_HOLD_REORDER e = Some c' \<and> queued c' (rs @ [(i, e)]) ys cs \<and> psize c' = psize c \<and> ep c' = ep c \<and> now c' = now c"
proof -
  obtain c' where c': "add c i DPB_HOLD_REORDER e = Some c'" "wf c'" "psize c' = psize c" "ep c' = ep c" "now c' = now c"
    "held c' = set_hold i DPB_HOLD_REORDER True (held c)"
    using add_law[of c i DPB_HOLD_REORDER e] assms by (auto simp: queued_def)
  have "i \<notin> fst ` set rs" "i \<notin> fst ` set ys" "i \<notin> cs" using assms(1,3) unfolding queued_def queues_hold_def by blast+
  then have "queued c' (rs @ [(i, e)]) ys cs"
    using assms(1,4) unfolding queued_def queues_hold_def c'(4,6) by (auto simp: set_hold_def c'(2))
  with c' show ?thesis by blast
qed

lemma queue_move_ready:
  assumes "queued c (rs1 @ (i, e) # rs2) ys cs"
  shows "\<exists>c'. transfer c i DPB_HOLD_REORDER DPB_HOLD_READY e = Some c' \<and> queued c' (rs1 @ rs2) (ys @ [(i, e)]) cs \<and>
    psize c' = psize c \<and> ep c' = ep c \<and> now c' = now c"
proof -
  note q = assms[unfolded queued_def queues_hold_def]
  have h: "held c i DPB_HOLD_REORDER" "\<not> held c i DPB_HOLD_READY" "ep c i = e" "wf c" using q by auto
  obtain c' where c': "transfer c i DPB_HOLD_REORDER DPB_HOLD_READY e = Some c'" "wf c'" "psize c' = psize c" "ep c' = ep c"
    "now c' = now c" "held c' = set_hold i DPB_HOLD_READY True (set_hold i DPB_HOLD_REORDER False (held c))"
    using transfer_law[OF h(4,1,2,3)] by blast
  have "queued c' (rs1 @ rs2) (ys @ [(i, e)]) cs"
    using q unfolding queued_def queues_hold_def c'(4,6) by (auto simp: set_hold_def c'(2))
  with c' show ?thesis by blast
qed

lemma queue_move_consumer:
  assumes "queued c rs ((i, e) # ys) cs"
  shows "\<exists>c'. transfer c i DPB_HOLD_READY DPB_HOLD_CONSUMER e = Some c' \<and> queued c' rs ys (insert i cs) \<and> psize c' = psize c \<and> ep c' = ep c \<and> now c' = now c"
proof -
  note q = assms[unfolded queued_def queues_hold_def]
  have h: "held c i DPB_HOLD_READY" "\<not> held c i DPB_HOLD_CONSUMER" "ep c i = e" "wf c" using q by auto
  obtain c' where c': "transfer c i DPB_HOLD_READY DPB_HOLD_CONSUMER e = Some c'" "wf c'" "psize c' = psize c" "ep c' = ep c"
    "now c' = now c" "held c' = set_hold i DPB_HOLD_CONSUMER True (set_hold i DPB_HOLD_READY False (held c))"
    using transfer_law[OF h(4,1,2,3)] by blast
  have "queued c' rs ys (insert i cs)"
    using q unfolding queued_def queues_hold_def c'(4,6) by (auto simp: set_hold_def c'(2))
  with c' show ?thesis by blast
qed

lemma queue_give_back:
  assumes "queued c rs ys cs" "i \<in> cs"
  shows "\<exists>c'. release c i DPB_HOLD_CONSUMER = Some c' \<and> queued c' rs ys (cs - {i}) \<and> psize c' = psize c \<and> ep c' = ep c \<and> now c' = now c"
proof -
  note q = assms(1)[unfolded queued_def queues_hold_def]
  have h: "held c i DPB_HOLD_CONSUMER" "wf c" using q assms(2) by auto
  obtain c' where c': "release c i DPB_HOLD_CONSUMER = Some c'" "wf c'" "psize c' = psize c" "ep c' = ep c" "now c' = now c"
    "held c' = set_hold i DPB_HOLD_CONSUMER False (held c)"
    using release_law[OF h(2,1)] by blast
  have "queued c' rs ys (cs - {i})"
    using q unfolding queued_def queues_hold_def c'(4,6) by (auto simp: set_hold_def c'(2))
  with c' show ?thesis by blast
qed

lemma queue_drop_reorder:
  "queued c rs ys cs \<Longrightarrow> \<exists>c'. release_all release DPB_HOLD_REORDER (map fst rs) c = Some c' \<and> queued c' [] ys cs \<and>
     psize c' = psize c \<and> ep c' = ep c \<and> now c' = now c"
proof (induction rs arbitrary: c)
  case (Cons p rs)
  obtain i e where p: "p = (i, e)" by (cases p)
  note q = Cons.prems[unfolded queued_def queues_hold_def p]
  have h: "held c i DPB_HOLD_REORDER" "wf c" using q by auto
  obtain c' where c': "release c i DPB_HOLD_REORDER = Some c'" "wf c'" "psize c' = psize c" "ep c' = ep c" "now c' = now c"
    "held c' = set_hold i DPB_HOLD_REORDER False (held c)"
    using release_law[OF h(2,1)] by blast
  have "queued c' rs ys cs"
    using q unfolding queued_def queues_hold_def c'(4,6) by (auto simp: set_hold_def c'(2))
  from Cons.IH[OF this] show ?case using c' p by auto
qed simp

lemma queue_drop_ready:
  "queued c rs ys cs \<Longrightarrow> \<exists>c'. release_all release DPB_HOLD_READY (map fst ys) c = Some c' \<and> queued c' rs [] cs \<and>
     psize c' = psize c \<and> ep c' = ep c \<and> now c' = now c"
proof (induction ys arbitrary: c)
  case (Cons p ys)
  obtain i e where p: "p = (i, e)" by (cases p)
  note q = Cons.prems[unfolded queued_def queues_hold_def p]
  have h: "held c i DPB_HOLD_READY" "wf c" using q by auto
  obtain c' where c': "release c i DPB_HOLD_READY = Some c'" "wf c'" "psize c' = psize c" "ep c' = ep c" "now c' = now c"
    "held c' = set_hold i DPB_HOLD_READY False (held c)"
    using release_law[OF h(2,1)] by blast
  have "queued c' rs ys cs"
    using q unfolding queued_def queues_hold_def c'(4,6) by (auto simp: set_hold_def c'(2))
  from Cons.IH[OF this] show ?case using c' p by auto
qed simp

lemma queue_flush:
  assumes "queued c [] [] cs"
  shows "\<exists>c'. flush c = Some c' \<and> queued c' [] [] cs \<and> psize c' = psize c \<and> ep c' = ep c \<and> now c' = now c + 1"
proof -
  note q = assms[unfolded queued_def queues_hold_def]
  obtain c' where "flush c = Some c'" "wf c'" "psize c' = psize c" "ep c' = ep c" "now c' = now c + 1" "held c' = held c"
    using flush_law[of c] q by auto
  then show ?thesis using q unfolding queued_def queues_hold_def by auto
qed

end

section \<open>The H.264 buffer\<close>

definition h264_held :: "DpbCtx \<Rightarrow> nat \<Rightarrow> DpbHoldReason \<Rightarrow> bool" where
  "h264_held ctx i r \<longleftrightarrow> i < pool_size ctx \<and> h264_flag_get (slots ctx ! i) r"

definition h264_epoch :: "DpbCtx \<Rightarrow> nat \<Rightarrow> ULONG" where
  "h264_epoch ctx i = (if i < pool_size ctx then slot_epoch (slots ctx ! i) else 0)"

definition h264_idle :: "DpbCtx \<Rightarrow> bool" where
  "h264_idle ctx \<longleftrightarrow> dpb_ok ctx \<and> current_idx ctx = None"

lemma h264_flag_set_simps [simp]:
  "h264_flag_get (h264_flag_set r v s) q = (if q = r then v else h264_flag_get s q)"
  "slot_epoch (h264_flag_set r v s) = slot_epoch s"
  by (cases r; cases q; simp)+

lemma h264_set_flag:
  assumes "h264_idle ctx" "i < pool_size ctx" "ctx' = upd_slot i (h264_flag_set r v) ctx"
  shows "h264_idle ctx'" "h264_held ctx' = set_hold i r v (h264_held ctx)" "h264_epoch ctx' = h264_epoch ctx"
    "pool_size ctx' = pool_size ctx" "current_epoch ctx' = current_epoch ctx"
proof -
  have b: "pool_size ctx \<le> length (slots ctx)" using assms(1) by (simp add: h264_idle_def dpb_ok_bounds)
  show "h264_idle ctx'" using assms(1) unfolding h264_idle_def assms(3) by (auto intro!: dpb_ok_upd)
  show "h264_held ctx' = set_hold i r v (h264_held ctx)"
    using b assms(2) by (auto simp: fun_eq_iff h264_held_def set_hold_def assms(3) upd_slot_nth split: if_splits)
  show "h264_epoch ctx' = h264_epoch ctx"
    using b assms(2) by (auto simp: fun_eq_iff h264_epoch_def assms(3) upd_slot_nth)
qed (simp_all add: assms(3))

lemma flush_slot_flag: "h264_flag_get (flush_slot s) r = h264_flag_get s r"
  by (cases r) (simp_all add: flush_slot_def clear_slot_def)

lemma flush_slot_state: "slot_epoch (flush_slot s) = slot_epoch s" "\<not> is_ref (flush_slot s)"
  by (simp_all add: flush_slot_def)

lemmas flush_slot_simps = flush_slot_flag flush_slot_state

lemma h264_flush:
  assumes "h264_idle ctx" "\<forall>i. \<not> h264_held ctx i DPB_HOLD_REORDER \<and> \<not> h264_held ctx i DPB_HOLD_READY"
  shows "\<exists>ctx'. Dpb_Flush ctx = Some ctx' \<and> h264_idle ctx' \<and> pool_size ctx' = pool_size ctx \<and> h264_epoch ctx' = h264_epoch ctx \<and>
    current_epoch ctx' = current_epoch ctx + 1 \<and> h264_held ctx' = h264_held ctx"
proof -
  let ?f = "fold (\<lambda>i. upd_slot i flush_slot) [0..<pool_size ctx] ctx"
  let ?c = "?f\<lparr>current_idx := None, current_epoch := current_epoch ctx + 1\<rparr>"
  have b: "pool_size ctx \<le> length (slots ctx)" using assms(1) by (simp add: h264_idle_def dpb_ok_bounds)
  note w = sweep_slots[OF refl b, of flush_slot]
  have "Dpb_Flush ctx = Some ?c" using assms(2) by (auto simp: Dpb_Flush_def h264_held_def)
  moreover have "h264_idle ?c" using w assms(1) b by (auto simp: h264_idle_def dpb_ok_def flush_slot_simps)
  moreover have "h264_held ?c = h264_held ctx" "h264_epoch ?c = h264_epoch ctx"
    using w b by (auto simp: fun_eq_iff h264_held_def h264_epoch_def flush_slot_simps)
  ultimately show ?thesis using w by auto
qed

interpretation h264: hold_api h264_idle pool_size h264_held h264_epoch current_epoch Dpb_AddHold Dpb_ReleaseHold Dpb_TransferHold Dpb_Flush
proof
  fix c i r assume a: "h264_idle c" "h264_held c i r"
  then have i: "i < pool_size c" "h264_flag_get (slots c ! i) r" by (simp_all add: h264_held_def)
  show "\<exists>c'. Dpb_ReleaseHold c i r = Some c' \<and> h264_idle c' \<and> pool_size c' = pool_size c \<and> h264_epoch c' = h264_epoch c \<and>
      current_epoch c' = current_epoch c \<and> h264_held c' = set_hold i r False (h264_held c)"
    using h264_set_flag[OF a(1) i(1) refl, of r False] i by (simp add: Dpb_ReleaseHold_def)
  fix q e assume b: "\<not> h264_held c i q" "h264_epoch c i = e"
  then have q: "q \<noteq> r" "\<not> h264_flag_get (slots c ! i) q" "slot_epoch (slots c ! i) = e"
    using a i by (auto simp: h264_held_def h264_epoch_def)
  let ?c = "upd_slot i (h264_flag_set r False) c"
  note c = h264_set_flag[OF a(1) i(1) refl, of r False]
  note d = h264_set_flag[OF c(1) _ refl, of i q True, unfolded c(2,3,4,5), OF i(1)]
  show "\<exists>c'. Dpb_TransferHold c i r q e = Some c' \<and> h264_idle c' \<and> pool_size c' = pool_size c \<and> h264_epoch c' = h264_epoch c \<and>
      current_epoch c' = current_epoch c \<and> h264_held c' = set_hold i q True (set_hold i r False (h264_held c))"
    using d i q by (auto simp: Dpb_TransferHold_def)
next
  fix c i r e assume a: "h264_idle c" "i < pool_size c" "\<not> h264_held c i r" "h264_epoch c i = e"
  then have "\<not> h264_flag_get (slots c ! i) r" "slot_epoch (slots c ! i) = e" by (auto simp: h264_held_def h264_epoch_def)
  then show "\<exists>c'. Dpb_AddHold c i r e = Some c' \<and> h264_idle c' \<and> pool_size c' = pool_size c \<and> h264_epoch c' = h264_epoch c \<and>
      current_epoch c' = current_epoch c \<and> h264_held c' = set_hold i r True (h264_held c)"
    using h264_set_flag[OF a(1,2) refl, of r True] a(2) by (simp add: Dpb_AddHold_def)
qed (use h264_flush in \<open>auto simp: h264_held_def h264_epoch_def Dpb_AddHold_def\<close>)

section \<open>The HEVC buffer\<close>

definition h265_held :: "H265DpbCtx \<Rightarrow> nat \<Rightarrow> DpbHoldReason \<Rightarrow> bool" where
  "h265_held ctx i r \<longleftrightarrow> i < h5_pool_size ctx \<and> h265_flag_get (h5_slots ctx ! i) r"

definition h265_epoch :: "H265DpbCtx \<Rightarrow> nat \<Rightarrow> ULONG" where
  "h265_epoch ctx i = (if i < h5_pool_size ctx then h5_epoch (h5_slots ctx ! i) else 0)"

definition h265_idle :: "H265DpbCtx \<Rightarrow> bool" where
  "h265_idle ctx \<longleftrightarrow> h265_ok ctx \<and> h5_current_idx ctx = None"

lemma h265_flag_set_simps [simp]:
  "h265_flag_get (h265_flag_set r v s) q = (if q = r then v else h265_flag_get s q)"
  "h5_epoch (h265_flag_set r v s) = h5_epoch s"
  by (cases r; cases q; simp)+

lemma h265_set_flag:
  assumes "h265_idle ctx" "i < h5_pool_size ctx" "ctx' = h5_upd i (h265_flag_set r v) ctx"
  shows "h265_idle ctx'" "h265_held ctx' = set_hold i r v (h265_held ctx)" "h265_epoch ctx' = h265_epoch ctx"
    "h5_pool_size ctx' = h5_pool_size ctx" "h5_current_epoch ctx' = h5_current_epoch ctx"
proof -
  have b: "h5_pool_size ctx \<le> length (h5_slots ctx)" using assms(1) by (simp add: h265_idle_def h265_ok_def)
  show "h265_idle ctx'" using assms(1) by (simp add: h265_idle_def h265_ok_def assms(3))
  show "h265_held ctx' = set_hold i r v (h265_held ctx)"
    using b assms(2) by (auto simp: fun_eq_iff h265_held_def set_hold_def assms(3) h5_upd_nth split: if_splits)
  show "h265_epoch ctx' = h265_epoch ctx"
    using b assms(2) by (auto simp: fun_eq_iff h265_epoch_def assms(3) h5_upd_nth)
qed (simp_all add: assms(3))

lemma h265_flush_slot_flag: "h265_flag_get (h265_flush_slot s) r = h265_flag_get s r"
  by (cases r) (simp_all add: h265_flush_slot_def h265_clear_def)

lemma h265_flush_slot_epoch: "h5_epoch (h265_flush_slot s) = h5_epoch s"
  by (simp add: h265_flush_slot_def h265_clear_def)

lemma h265_flush:
  assumes "h265_idle ctx" "\<forall>i. \<not> h265_held ctx i DPB_HOLD_REORDER \<and> \<not> h265_held ctx i DPB_HOLD_READY"
  shows "\<exists>ctx'. H265Dpb_Flush ctx = Some ctx' \<and> h265_idle ctx' \<and> h5_pool_size ctx' = h5_pool_size ctx \<and> h265_epoch ctx' = h265_epoch ctx \<and>
    h5_current_epoch ctx' = h5_current_epoch ctx + 1 \<and> h265_held ctx' = h265_held ctx"
proof -
  let ?f = "fold (\<lambda>i. h5_upd i h265_flush_slot) [0..<h5_pool_size ctx] ctx"
  let ?c = "?f\<lparr>h5_current_idx := None, h5_current_epoch := h5_current_epoch ctx + 1\<rparr>"
  have b: "h5_pool_size ctx \<le> length (h5_slots ctx)" using assms(1) by (simp add: h265_idle_def h265_ok_def)
  note w = h5_sweep[OF refl b, of h265_flush_slot]
  have "H265Dpb_Flush ctx = Some ?c" using assms(2) by (auto simp: H265Dpb_Flush_def h265_held_def)
  moreover have "h265_idle ?c" using w assms(1) by (simp add: h265_idle_def h265_ok_def)
  moreover have "h265_held ?c = h265_held ctx" "h265_epoch ?c = h265_epoch ctx"
    using w b by (auto simp: fun_eq_iff h265_held_def h265_epoch_def h265_flush_slot_flag h265_flush_slot_epoch)
  ultimately show ?thesis using w by auto
qed

interpretation h265: hold_api h265_idle h5_pool_size h265_held h265_epoch h5_current_epoch
  H265Dpb_AddHold H265Dpb_ReleaseHold H265Dpb_TransferHold H265Dpb_Flush
proof
  fix c i r assume a: "h265_idle c" "h265_held c i r"
  then have i: "i < h5_pool_size c" "h265_flag_get (h5_slots c ! i) r" by (simp_all add: h265_held_def)
  show "\<exists>c'. H265Dpb_ReleaseHold c i r = Some c' \<and> h265_idle c' \<and> h5_pool_size c' = h5_pool_size c \<and> h265_epoch c' = h265_epoch c \<and>
      h5_current_epoch c' = h5_current_epoch c \<and> h265_held c' = set_hold i r False (h265_held c)"
    using h265_set_flag[OF a(1) i(1) refl, of r False] i by (simp add: H265Dpb_ReleaseHold_def)
  fix q e assume b: "\<not> h265_held c i q" "h265_epoch c i = e"
  then have q: "q \<noteq> r" "\<not> h265_flag_get (h5_slots c ! i) q" "h5_epoch (h5_slots c ! i) = e"
    using a i by (auto simp: h265_held_def h265_epoch_def)
  note c = h265_set_flag[OF a(1) i(1) refl, of r False]
  note d = h265_set_flag[OF c(1) _ refl, of i q True, unfolded c(2,3,4,5), OF i(1)]
  show "\<exists>c'. H265Dpb_TransferHold c i r q e = Some c' \<and> h265_idle c' \<and> h5_pool_size c' = h5_pool_size c \<and> h265_epoch c' = h265_epoch c \<and>
      h5_current_epoch c' = h5_current_epoch c \<and> h265_held c' = set_hold i q True (set_hold i r False (h265_held c))"
    using d i q by (auto simp: H265Dpb_TransferHold_def)
next
  fix c i r e assume a: "h265_idle c" "i < h5_pool_size c" "\<not> h265_held c i r" "h265_epoch c i = e"
  then have "\<not> h265_flag_get (h5_slots c ! i) r" "h5_epoch (h5_slots c ! i) = e" by (auto simp: h265_held_def h265_epoch_def)
  then show "\<exists>c'. H265Dpb_AddHold c i r e = Some c' \<and> h265_idle c' \<and> h5_pool_size c' = h5_pool_size c \<and> h265_epoch c' = h265_epoch c \<and>
      h5_current_epoch c' = h5_current_epoch c \<and> h265_held c' = set_hold i r True (h265_held c)"
    using h265_set_flag[OF a(1,2) refl, of r True] a(2) by (simp add: H265Dpb_AddHold_def)
qed (use h265_flush in \<open>auto simp: h265_held_def h265_epoch_def H265Dpb_AddHold_def\<close>)

end
