(* ===== verification/Decode_Engine.thy ===== *)
theory Decode_Engine
  imports Hold_Api Nal_Stream
begin

text \<open>
  The H.264/HEVC decode engine (\<^verbatim>\<open>mft/engine/decode_engine.cpp\<close>, \<^verbatim>\<open>decode_engine.h\<close>, Windows build): decoding one
  access unit, the reorder and output queues, and the submit, poll, release, drain and flush entry points. The parsers, the
  register builders, the packing of tables and the device are arguments: the theorems hold for whatever they return.
  A failing \<^verbatim>\<open>RKMPP_VERIFY\<close> of the picture buffers is the result None.
\<close>

section \<open>State\<close>

datatype Codec = H264 | H265

abbreviation kPoolSize :: nat where "kPoolSize \<equiv> 16"

record ReorderEntry =
  re_poc :: int
  re_pts_hns :: int
  re_dur_hns :: int
  re_yuv :: "uint8 list"
  re_slot_idx :: int
  re_is_ref :: bool
  re_epoch :: ULONG

record DecodedFrame =
  df_poc :: int
  df_pts_hns :: int
  df_dur_hns :: int
  df_yuv :: "uint8 list"
  df_slot_idx :: int
  df_is_ref :: bool
  df_epoch :: ULONG
  df_src_ptr :: nat
  df_src_width :: ULONG
  df_src_height_pad :: ULONG

record DecodeEngine =
  codec :: Codec
  bitstream_size :: nat
  staged :: "uint8 list"
  output_va :: "nat list"
  last_decoded_slot :: int
  populate_yuv :: bool
  populate_yuv_nonrefs :: bool
  dpb_h264 :: DpbCtx
  dpb_h265 :: H265DpbCtx
  frame_width :: ULONG
  frame_height :: ULONG
  parsed_h264 :: H264ParseResult
  parsed_h265 :: H265ParseResult
  last_h265_ids :: "nat option \<times> nat option"
  reorder_q :: "ReorderEntry list"
  ready_q :: "ReorderEntry list"
  max_num_reorder_pics :: nat
  submit_count :: ULONG64
  wait_for_idr :: bool

datatype ParseStatus = PARSE_OK | PARSE_NEED_MORE | PARSE_INVALID | PARSE_UNSUPPORTED

text \<open>
  What the engine calls: the two parsers on the access unit and the persistent parser state, the register builders and table
  packers (True is success), the device (return code and hardware status; for HEVC whether the two IOCTLs succeed, the job
  status and the hardware status), and the picture read back from a slot.
\<close>

record decode_env =
  parse264 :: "uint8 list \<Rightarrow> H264ParseResult \<Rightarrow> ParseStatus \<times> H264ParseResult"
  parse265 :: "uint8 list \<Rightarrow> H265ParseResult \<Rightarrow> ParseStatus \<times> H265ParseResult"
  build264 :: "H264ParseResult \<Rightarrow> DpbSelection \<Rightarrow> bool"
  build265 :: "H265ParseResult \<Rightarrow> H265DpbSelection \<Rightarrow> bool"
  pack265 :: "H265ParseResult \<Rightarrow> bool"
  submit264 :: "DpbSelection \<Rightarrow> int \<times> ULONG"
  ioctl265 :: "H265DpbSelection \<Rightarrow> bool \<times> bool \<times> ULONG \<times> ULONG"
  read_slot :: "nat \<Rightarrow> uint8 list"

section \<open>Decoding one access unit\<close>

definition align16 :: "ULONG \<Rightarrow> ULONG" where
  "align16 v = (v + 15) AND NOT 15"

definition kRdySta :: "ULONG \<Rightarrow> bool" where
  "kRdySta hw \<longleftrightarrow> hw AND push_bit 2 1 \<noteq> 0"

text \<open>The slice behind its three-byte start code, as staged for the hardware.\<close>

definition stage_slice :: "uint8 list \<Rightarrow> nat \<times> nat \<Rightarrow> uint8 list" where
  "stage_slice au = (\<lambda>(slice_off, slice_size).
     let sc_len = (if au ! (slice_off + 2) = 1 then 3 else 4 :: nat); skip = sc_len - 3
     in take (slice_size - skip) (drop (slice_off + skip) au))"

definition read_yuv :: "decode_env \<Rightarrow> DecodeEngine \<Rightarrow> nat \<Rightarrow> bool \<Rightarrow> uint8 list" where
  "read_yuv env e slot isref = (if populate_yuv e \<and> (isref \<or> populate_yuv_nonrefs e) then read_slot env slot else [])"

text \<open>From the register builder on, with the slot selected.\<close>

definition finish_h264 :: "decode_env \<Rightarrow> DecodeEngine \<Rightarrow> DpbSelection \<Rightarrow> int \<times> DecodeEngine \<times> uint8 list" where
  "finish_h264 env e sel =
     (let d = dpb_h264 e; failed = e\<lparr>dpb_h264 := Dpb_OnDecodeFailed d\<rparr>
      in if \<not> build264 env (parsed_h264 e) sel then (1, failed, [])
         else case submit264 env sel of (submit_rc, hw_status) \<Rightarrow>
           if submit_rc \<noteq> 0 \<and> \<not> kRdySta hw_status then (5, failed, [])
           else (0, e\<lparr>last_decoded_slot := int (current_slot sel), dpb_h264 := Dpb_OnDecodeComplete d\<rparr>,
                 read_yuv env e (current_slot sel) (is_ref (slots d ! current_slot sel))))"

definition dims_h264 :: "DecodeEngine \<Rightarrow> H264ParseResult \<Rightarrow> bool" where
  "dims_h264 e p \<longleftrightarrow> (ucast (pic_width_in_mbs_minus1 p) + 1) * 16 = align16 (frame_width e) \<and>
     (ucast (pic_height_in_map_units_minus1 p) + 1) * 16 = align16 (frame_height e)"

definition DecodeOne_H264 :: "decode_env \<Rightarrow> DecodeEngine \<Rightarrow> uint8 list \<Rightarrow> int \<times> DecodeEngine \<times> uint8 list" where
  "DecodeOne_H264 env e0 au =
     (case H264FindSliceNal au of
        None \<Rightarrow> (1, e0, [])
      | Some nal \<Rightarrow>
          if length (stage_slice au nal) > bitstream_size e0 then (1, e0, [])
          else (case parse264 env au (parsed_h264 e0) of (s, parsed) \<Rightarrow>
            let e = e0\<lparr>staged := stage_slice au nal, parsed_h264 := parsed\<rparr>
            in if s \<noteq> PARSE_OK then (1, e, [])
               else if \<not> dims_h264 e parsed then (1, e, [])
               else (case Dpb_Select (dpb_h264 e) parsed of
                       (DPB_OK, d, Some sel) \<Rightarrow> finish_h264 env (e\<lparr>dpb_h264 := d\<rparr>) sel
                     | (_, d, _) \<Rightarrow> (1, e\<lparr>dpb_h264 := d\<rparr>, []))))"

definition finish_h265 :: "decode_env \<Rightarrow> DecodeEngine \<Rightarrow> H265DpbSelection \<Rightarrow> int \<times> DecodeEngine \<times> uint8 list" where
  "finish_h265 env e0 sel =
     (let d = dpb_h265 e0; p = parsed_h265 e0; failed = (\<lambda>e. e\<lparr>dpb_h265 := H265Dpb_OnDecodeFailed d\<rparr>);
          ids = (active_sps_id p, active_pps_id p);
          params_changed = got_params_in_au p \<or> ids \<noteq> last_h265_ids e0
      in if params_changed \<and> \<not> pack265 env p then (1, failed e0, [])
         else let e = (if params_changed then e0\<lparr>last_h265_ids := ids\<rparr> else e0)
              in if \<not> build265 env p sel then (1, failed e, [])
                 else case ioctl265 env sel of (submit_ok, wait_ok, status, hw_status) \<Rightarrow>
                   if \<not> submit_ok then (1, failed e, [])
                   else if \<not> wait_ok then (1, failed e, [])
                   else if status \<noteq> 0 \<and> \<not> kRdySta hw_status then (5, failed e, [])
                   else (0, e\<lparr>last_decoded_slot := int (h5_current_slot sel), dpb_h265 := H265Dpb_OnDecodeComplete d\<rparr>,
                         read_yuv env e (h5_current_slot sel) (h5_is_ref (h5_slots d ! h5_current_slot sel))))"

definition DecodeOne_H265 :: "decode_env \<Rightarrow> DecodeEngine \<Rightarrow> uint8 list \<Rightarrow> int \<times> DecodeEngine \<times> uint8 list" where
  "DecodeOne_H265 env e0 au =
     (case parse265 env au (parsed_h265 e0) of (s, parsed) \<Rightarrow>
        let e = e0\<lparr>parsed_h265 := parsed\<rparr>
        in if s \<noteq> PARSE_OK then (1, e, [])
           else if \<not> h5_has_slice parsed \<or> active_sps_id parsed = None \<or> active_pps_id parsed = None then (1, e, [])
           else let sps = h5_sps parsed ! the (active_sps_id parsed)
                in if pic_width_in_luma_samples sps \<noteq> frame_width e \<or> pic_height_in_luma_samples sps \<noteq> frame_height e then (1, e, [])
                   else (case H265FindSliceNal au of
                           None \<Rightarrow> (1, e, [])
                         | Some nal \<Rightarrow>
                             if length (stage_slice au nal) > bitstream_size e then (1, e, [])
                             else let e1 = e\<lparr>staged := stage_slice au nal\<rparr>
                                  in (case H265Dpb_Select (dpb_h265 e1) parsed of
                                        (DPB_OK, d, Some sel) \<Rightarrow> finish_h265 env (e1\<lparr>dpb_h265 := d\<rparr>) sel
                                      | (_, d, _) \<Rightarrow> (1, e1\<lparr>dpb_h265 := d\<rparr>, []))))"

definition DecodeEngine_DecodeOne :: "decode_env \<Rightarrow> DecodeEngine \<Rightarrow> uint8 list \<Rightarrow> int \<times> DecodeEngine \<times> uint8 list" where
  "DecodeEngine_DecodeOne env e au =
     (if length au > bitstream_size e then (1, e, [])
      else case codec e of H265 \<Rightarrow> DecodeOne_H265 env e au | H264 \<Rightarrow> DecodeOne_H264 env e au)"

definition annexb_of :: "NalFraming \<Rightarrow> AvccLenSize \<Rightarrow> uint8 list \<Rightarrow> uint8 list option" where
  "annexb_of framing len_size au =
     (if framing = FRAMING_ANNEXB then Some au
      else case AvccToAnnexB (Some au) (length au) len_size True (length au + 64) of
             (n, out) \<Rightarrow> if n < 0 then None else Some (take (nat n) out))"

definition DecodeEngine_DecodeOneFramed :: "decode_env \<Rightarrow> DecodeEngine \<Rightarrow> NalFraming \<Rightarrow> AvccLenSize \<Rightarrow> uint8 list \<Rightarrow> int \<times> DecodeEngine \<times> uint8 list" where
  "DecodeEngine_DecodeOneFramed env e framing len_size au =
     (case annexb_of framing len_size au of None \<Rightarrow> (1, e, []) | Some b \<Rightarrow> DecodeEngine_DecodeOne env e b)"

definition DecodeEngine_FeedExtradata :: "decode_env \<Rightarrow> DecodeEngine \<Rightarrow> NalFraming \<Rightarrow> AvccLenSize \<Rightarrow> uint8 list \<Rightarrow> int \<times> DecodeEngine" where
  "DecodeEngine_FeedExtradata env e framing len_size au =
     (if length au = 0 then (0, e)
      else case annexb_of framing len_size au of
             None \<Rightarrow> (1, e)
           | Some b \<Rightarrow> (case codec e of
               H265 \<Rightarrow> (case parse265 env b (parsed_h265 e) of (s, p) \<Rightarrow>
                 (if s \<noteq> PARSE_OK \<and> s \<noteq> PARSE_NEED_MORE then 1 else 0, e\<lparr>parsed_h265 := p\<rparr>))
             | H264 \<Rightarrow> (case parse264 env b (parsed_h264 e) of (s, p) \<Rightarrow>
                 (if s \<noteq> PARSE_OK \<and> s \<noteq> PARSE_NEED_MORE then 1 else 0, e\<lparr>parsed_h264 := p\<rparr>))))"

section \<open>Holds of the engine\<close>

definition eng_add :: "DecodeEngine \<Rightarrow> nat \<Rightarrow> DpbHoldReason \<Rightarrow> ULONG \<Rightarrow> DecodeEngine option" where
  "eng_add e i r ep = (case codec e of
       H265 \<Rightarrow> map_option (\<lambda>d. e\<lparr>dpb_h265 := d\<rparr>) (H265Dpb_AddHold (dpb_h265 e) i r ep)
     | H264 \<Rightarrow> map_option (\<lambda>d. e\<lparr>dpb_h264 := d\<rparr>) (Dpb_AddHold (dpb_h264 e) i r ep))"

definition eng_release :: "DecodeEngine \<Rightarrow> nat \<Rightarrow> DpbHoldReason \<Rightarrow> DecodeEngine option" where
  "eng_release e i r = (case codec e of
       H265 \<Rightarrow> map_option (\<lambda>d. e\<lparr>dpb_h265 := d\<rparr>) (H265Dpb_ReleaseHold (dpb_h265 e) i r)
     | H264 \<Rightarrow> map_option (\<lambda>d. e\<lparr>dpb_h264 := d\<rparr>) (Dpb_ReleaseHold (dpb_h264 e) i r))"

definition eng_transfer :: "DecodeEngine \<Rightarrow> nat \<Rightarrow> DpbHoldReason \<Rightarrow> DpbHoldReason \<Rightarrow> ULONG \<Rightarrow> DecodeEngine option" where
  "eng_transfer e i fr to ep = (case codec e of
       H265 \<Rightarrow> map_option (\<lambda>d. e\<lparr>dpb_h265 := d\<rparr>) (H265Dpb_TransferHold (dpb_h265 e) i fr to ep)
     | H264 \<Rightarrow> map_option (\<lambda>d. e\<lparr>dpb_h264 := d\<rparr>) (Dpb_TransferHold (dpb_h264 e) i fr to ep))"

definition eng_flush :: "DecodeEngine \<Rightarrow> DecodeEngine option" where
  "eng_flush e = (case codec e of
       H265 \<Rightarrow> map_option (\<lambda>d. e\<lparr>dpb_h265 := d\<rparr>) (H265Dpb_Flush (dpb_h265 e))
     | H264 \<Rightarrow> map_option (\<lambda>d. e\<lparr>dpb_h264 := d\<rparr>) (Dpb_Flush (dpb_h264 e)))"

definition in_pool :: "int \<Rightarrow> bool" where
  "in_pool i \<longleftrightarrow> 0 \<le> i \<and> i < int kPoolSize"

section \<open>Reordering\<close>

definition resolve_max_reorder :: "DecodeEngine \<Rightarrow> nat" where
  "resolve_max_reorder e = (case codec e of
       H265 \<Rightarrow> (case active_sps_id (parsed_h265 e) of
           Some i \<Rightarrow> (let sps = h5_sps (parsed_h265 e) ! i in sps_max_num_reorder_pics sps ! min (sps_max_sub_layers_minus1 sps) 6)
         | None \<Rightarrow> 4)
     | H264 \<Rightarrow> if has_sps (parsed_h264 e) then sps_max_num_ref_frames (parsed_h264 e) else 4)"

definition current_poc :: "DecodeEngine \<Rightarrow> int" where
  "current_poc e = (case codec e of H265 \<Rightarrow> pr_poc (parsed_h265 e) | H264 \<Rightarrow> top_field_order_cnt (parsed_h264 e))"

text \<open>The first index of the smallest picture order count.\<close>

definition lowest_idx :: "ReorderEntry list \<Rightarrow> nat" where
  "lowest_idx q = fold (\<lambda>i best. if re_poc (q ! i) < re_poc (q ! best) then i else best) [1..<length q] 0"

definition bump_lowest :: "DecodeEngine \<Rightarrow> DecodeEngine option" where
  "bump_lowest e =
     (if reorder_q e = [] then Some e
      else let best = lowest_idx (reorder_q e); entry = reorder_q e ! best
           in map_option (\<lambda>e1. e1\<lparr>ready_q := ready_q e @ [entry], reorder_q := take best (reorder_q e) @ drop (Suc best) (reorder_q e)\<rparr>)
                (if in_pool (re_slot_idx entry)
                 then eng_transfer e (nat (re_slot_idx entry)) DPB_HOLD_REORDER DPB_HOLD_READY (re_epoch entry)
                 else Some e))"

text \<open>Bumping while the queue is longer than \<open>n\<close>; each round takes one entry off.\<close>

fun bump_down :: "nat \<Rightarrow> nat \<Rightarrow> DecodeEngine \<Rightarrow> DecodeEngine option" where
  "bump_down 0 n e = Some e"
| "bump_down (Suc k) n e = (if length (reorder_q e) > n then (case bump_lowest e of None \<Rightarrow> None | Some e1 \<Rightarrow> bump_down k n e1) else Some e)"

abbreviation bump_until :: "nat \<Rightarrow> DecodeEngine \<Rightarrow> DecodeEngine option" where
  "bump_until n e \<equiv> bump_down (length (reorder_q e)) n e"

abbreviation kMaxReorderPics :: nat where "kMaxReorderPics \<equiv> 32"

definition DecodeEngine_OnDecodeComplete :: "DecodeEngine \<Rightarrow> ReorderEntry \<Rightarrow> nat \<Rightarrow> bool \<Rightarrow> DecodeEngine option" where
  "DecodeEngine_OnDecodeComplete e entry max_reorder is_idr_h264_boundary =
     (let m = min max_reorder kMaxReorderPics
      in case (if is_idr_h264_boundary then bump_until 0 e else Some e) of
           None \<Rightarrow> None
         | Some e1 \<Rightarrow> bump_until m (e1\<lparr>reorder_q := reorder_q e1 @ [entry], max_num_reorder_pics := m\<rparr>))"

definition irap_nal :: "Codec \<Rightarrow> uint8 \<Rightarrow> bool" where
  "irap_nal c b = (case c of
       H265 \<Rightarrow> (let nut = drop_bit 1 b AND 0x3f in nut \<ge> 16 \<and> nut \<le> 23)
     | H264 \<Rightarrow> b AND 0x1f = 5)"

fun irap_scan :: "Codec \<Rightarrow> uint8 list \<Rightarrow> bool" where
  "irap_scan c (b0 # b1 # b2 # b3 # rest) =
     (if b0 = 0 \<and> b1 = 0 \<and> b2 = 1 then irap_nal c b3 \<or> irap_scan c rest
      else if b0 = 0 \<and> b1 = 0 \<and> b2 = 0 \<and> b3 = 1 \<and> rest \<noteq> [] then irap_nal c (hd rest) \<or> irap_scan c (tl rest)
      else irap_scan c (b1 # b2 # b3 # rest))"
| "irap_scan c _ = False"

definition au_has_irap :: "uint8 list \<Rightarrow> Codec \<Rightarrow> bool" where
  "au_has_irap au c = irap_scan c au"

section \<open>Submit, poll, release, drain, flush\<close>

definition slot_is_ref :: "DecodeEngine \<Rightarrow> nat \<Rightarrow> bool" where
  "slot_is_ref e i = (case codec e of H265 \<Rightarrow> h5_is_ref (h5_slots (dpb_h265 e) ! i) | H264 \<Rightarrow> is_ref (slots (dpb_h264 e) ! i))"

definition hold_decoded :: "DecodeEngine \<Rightarrow> ULONG \<Rightarrow> (DecodeEngine \<times> int \<times> bool) option" where
  "hold_decoded e ep =
     (if in_pool (last_decoded_slot e)
      then map_option (\<lambda>e1. (e1, last_decoded_slot e, slot_is_ref e1 (nat (last_decoded_slot e))))
             (eng_add e (nat (last_decoded_slot e)) DPB_HOLD_REORDER ep)
      else Some (e, -1, False))"

definition DecodeEngine_Submit :: "decode_env \<Rightarrow> DecodeEngine \<Rightarrow> uint8 list \<Rightarrow> int \<Rightarrow> ULONG \<Rightarrow> (int \<times> DecodeEngine) option" where
  "DecodeEngine_Submit env e0 au pts ep =
     (if wait_for_idr e0 \<and> \<not> au_has_irap au (codec e0) then Some (0, e0)
      else case DecodeEngine_DecodeOne env (e0\<lparr>wait_for_idr := False\<rparr>) au of (rc, e, yuv) \<Rightarrow>
        if rc \<noteq> 0 then Some (rc, e\<lparr>wait_for_idr := True\<rparr>)
        else case hold_decoded e ep of
               None \<Rightarrow> None
             | Some (e1, slot, isref) \<Rightarrow>
                 let entry = \<lparr>re_poc = current_poc e1,
                       re_pts_hns = (if pts < 0 then sint (submit_count e1 * 10000000 div 30) else pts),
                       re_dur_hns = 10000000 div 30, re_yuv = yuv, re_slot_idx = slot, re_is_ref = isref, re_epoch = ep\<rparr>;
                     idr = (codec e1 \<noteq> H265 \<and> is_idr (parsed_h264 e1))
                 in map_option (Pair 0)
                      (DecodeEngine_OnDecodeComplete (e1\<lparr>submit_count := submit_count e1 + 1\<rparr>) entry (resolve_max_reorder e1) idr))"

definition DecodeEngine_SubmitFramed ::
    "decode_env \<Rightarrow> DecodeEngine \<Rightarrow> NalFraming \<Rightarrow> AvccLenSize \<Rightarrow> uint8 list \<Rightarrow> int \<Rightarrow> ULONG \<Rightarrow> (int \<times> DecodeEngine) option" where
  "DecodeEngine_SubmitFramed env e framing len_size au pts ep =
     (case annexb_of framing len_size au of None \<Rightarrow> Some (1, e) | Some b \<Rightarrow> DecodeEngine_Submit env e b pts ep)"

definition frame_of :: "DecodeEngine \<Rightarrow> ReorderEntry \<Rightarrow> DecodedFrame" where
  "frame_of e x = \<lparr>df_poc = re_poc x, df_pts_hns = re_pts_hns x, df_dur_hns = re_dur_hns x, df_yuv = re_yuv x,
     df_slot_idx = re_slot_idx x, df_is_ref = re_is_ref x, df_epoch = re_epoch x,
     df_src_ptr = (if in_pool (re_slot_idx x) then output_va e ! nat (re_slot_idx x) else 0),
     df_src_width = (if in_pool (re_slot_idx x) then frame_width e else 0),
     df_src_height_pad = (if in_pool (re_slot_idx x) then (frame_height e + 15) AND NOT 15 else 0)\<rparr>"

definition DecodeEngine_PollFrame :: "DecodeEngine \<Rightarrow> (DecodedFrame option \<times> DecodeEngine) option" where
  "DecodeEngine_PollFrame e =
     (case ready_q e of
        [] \<Rightarrow> Some (None, e)
      | x # q \<Rightarrow> map_option (Pair (Some (frame_of e x)))
          (if in_pool (re_slot_idx x)
           then eng_transfer (e\<lparr>ready_q := q\<rparr>) (nat (re_slot_idx x)) DPB_HOLD_READY DPB_HOLD_CONSUMER (re_epoch x)
           else Some (e\<lparr>ready_q := q\<rparr>)))"

definition DecodeEngine_QueueDepth :: "DecodeEngine \<Rightarrow> nat" where
  "DecodeEngine_QueueDepth e = length (reorder_q e) + length (ready_q e)"

definition DecodeEngine_InputQueueCapacity :: "DecodeEngine \<Rightarrow> nat" where
  "DecodeEngine_InputQueueCapacity e =
     (let cap = max_num_reorder_pics e + 1; cap1 = (if cap < 4 then 4 else cap); max_safe = kPoolSize - 1
      in if cap1 > max_safe then max_safe else cap1)"

definition DecodeEngine_ReleaseFrame :: "DecodeEngine \<Rightarrow> DecodedFrame \<Rightarrow> (DecodeEngine \<times> DecodedFrame) option" where
  "DecodeEngine_ReleaseFrame e f =
     (if \<not> in_pool (df_slot_idx f) then Some (e, f)
      else map_option (\<lambda>e1. (e1, f\<lparr>df_slot_idx := -1\<rparr>)) (eng_release e (nat (df_slot_idx f)) DPB_HOLD_CONSUMER))"

definition DecodeEngine_Drain :: "DecodeEngine \<Rightarrow> DecodeEngine option" where
  "DecodeEngine_Drain e = bump_until 0 e"

definition release_queue :: "DpbHoldReason \<Rightarrow> ReorderEntry list \<Rightarrow> DecodeEngine \<Rightarrow> DecodeEngine option" where
  "release_queue r q e = release_all eng_release r (map (nat \<circ> re_slot_idx) (filter (in_pool \<circ> re_slot_idx) q)) e"

definition DecodeEngine_Flush :: "DecodeEngine \<Rightarrow> DecodeEngine option" where
  "DecodeEngine_Flush e =
     (case release_queue DPB_HOLD_REORDER (reorder_q e) e of
        None \<Rightarrow> None
      | Some e1 \<Rightarrow> (case release_queue DPB_HOLD_READY (ready_q e) e1 of
          None \<Rightarrow> None
        | Some e2 \<Rightarrow> eng_flush (e2\<lparr>reorder_q := [], ready_q := [], submit_count := 0, max_num_reorder_pics := 0, wait_for_idr := True\<rparr>)))"

end
