(* ===== verification/Engine_Props.thy ===== *)
theory Engine_Props
  imports Decode_Engine
begin

text \<open>
  Correctness of the decode engine: its hold calls satisfy the hold interface for both codecs, the queues and the holds of
  the picture buffer always agree, so that no check of the buffer fails and no picture in use is overwritten, and frames
  leave the reorder window in display order.
\<close>

section \<open>The engine as a provider of holds\<close>

definition eng_wf :: "DecodeEngine \<Rightarrow> bool" where
  "eng_wf e = (case codec e of H265 \<Rightarrow> h265_idle (dpb_h265 e) | H264 \<Rightarrow> h264_idle (dpb_h264 e))"

definition eng_psize :: "DecodeEngine \<Rightarrow> nat" where
  "eng_psize e = (case codec e of H265 \<Rightarrow> h5_pool_size (dpb_h265 e) | H264 \<Rightarrow> pool_size (dpb_h264 e))"

definition eng_held :: "DecodeEngine \<Rightarrow> nat \<Rightarrow> DpbHoldReason \<Rightarrow> bool" where
  "eng_held e = (case codec e of H265 \<Rightarrow> h265_held (dpb_h265 e) | H264 \<Rightarrow> h264_held (dpb_h264 e))"

definition eng_epoch :: "DecodeEngine \<Rightarrow> nat \<Rightarrow> ULONG" where
  "eng_epoch e = (case codec e of H265 \<Rightarrow> h265_epoch (dpb_h265 e) | H264 \<Rightarrow> h264_epoch (dpb_h264 e))"

definition eng_now :: "DecodeEngine \<Rightarrow> ULONG" where
  "eng_now e = (case codec e of H265 \<Rightarrow> h5_current_epoch (dpb_h265 e) | H264 \<Rightarrow> current_epoch (dpb_h264 e))"

lemmas eng_view = eng_wf_def eng_psize_def eng_held_def eng_epoch_def eng_now_def

interpretation eng: hold_api eng_wf eng_psize eng_held eng_epoch eng_now eng_add eng_release eng_transfer eng_flush
proof
  fix c i r
  show "eng_held c i r \<Longrightarrow> i < eng_psize c"
    by (cases "codec c") (simp_all add: eng_view h264.held_bound h265.held_bound)
  show "\<exists>c'. eng_release c i r = Some c' \<and> eng_wf c' \<and> eng_psize c' = eng_psize c \<and> eng_epoch c' = eng_epoch c \<and>
      eng_now c' = eng_now c \<and> eng_held c' = set_hold i r False (eng_held c)" if "eng_wf c" "eng_held c i r"
    using that h264.release_law[of "dpb_h264 c" i r] h265.release_law[of "dpb_h265 c" i r]
    by (cases "codec c") (auto simp: eng_view eng_release_def)
  fix e
  show "eng_wf c \<Longrightarrow> i < eng_psize c \<Longrightarrow> eng_held c i r \<or> eng_epoch c i \<noteq> e \<Longrightarrow> eng_add c i r e = None"
    using h264.add_traps[of "dpb_h264 c" i r e] h265.add_traps[of "dpb_h265 c" i r e]
    by (cases "codec c") (auto simp: eng_view eng_add_def)
  show "\<exists>c'. eng_add c i r e = Some c' \<and> eng_wf c' \<and> eng_psize c' = eng_psize c \<and> eng_epoch c' = eng_epoch c \<and>
      eng_now c' = eng_now c \<and> eng_held c' = set_hold i r True (eng_held c)"
    if "eng_wf c" "i < eng_psize c" "\<not> eng_held c i r" "eng_epoch c i = e"
    using that h264.add_law[of "dpb_h264 c" i r e] h265.add_law[of "dpb_h265 c" i r e]
    by (cases "codec c") (auto simp: eng_view eng_add_def)
  fix q
  show "\<exists>c'. eng_transfer c i r q e = Some c' \<and> eng_wf c' \<and> eng_psize c' = eng_psize c \<and> eng_epoch c' = eng_epoch c \<and>
      eng_now c' = eng_now c \<and> eng_held c' = set_hold i q True (set_hold i r False (eng_held c))"
    if "eng_wf c" "eng_held c i r" "\<not> eng_held c i q" "eng_epoch c i = e"
    using that h264.transfer_law[of "dpb_h264 c" i r q e] h265.transfer_law[of "dpb_h265 c" i r q e]
    by (cases "codec c") (auto simp: eng_view eng_transfer_def)
next
  fix c
  show "\<exists>c'. eng_flush c = Some c' \<and> eng_wf c' \<and> eng_psize c' = eng_psize c \<and> eng_epoch c' = eng_epoch c \<and>
      eng_now c' = eng_now c + 1 \<and> eng_held c' = eng_held c"
    if "eng_wf c" "\<forall>i. \<not> eng_held c i DPB_HOLD_REORDER \<and> \<not> eng_held c i DPB_HOLD_READY"
    using that h264.flush_law[of "dpb_h264 c"] h265.flush_law[of "dpb_h265 c"]
    by (cases "codec c") (auto simp: eng_view eng_flush_def)
qed

text \<open>The hold calls change the picture buffers only.\<close>

definition dpb_only :: "DecodeEngine \<Rightarrow> DecodeEngine \<Rightarrow> bool" where
  "dpb_only e e' \<longleftrightarrow> (\<exists>a b. e' = e\<lparr>dpb_h264 := a, dpb_h265 := b\<rparr>)"

lemma dpb_only_simps:
  assumes "dpb_only e e'"
  shows "reorder_q e' = reorder_q e" "ready_q e' = ready_q e" "codec e' = codec e" "max_num_reorder_pics e' = max_num_reorder_pics e"
    "parsed_h264 e' = parsed_h264 e" "parsed_h265 e' = parsed_h265 e" "submit_count e' = submit_count e" "wait_for_idr e' = wait_for_idr e"
  using assms by (auto simp: dpb_only_def)

lemma dpb_only_refl [simp]: "dpb_only e e"
  unfolding dpb_only_def by (rule exI[of _ "dpb_h264 e"], rule exI[of _ "dpb_h265 e"]) simp

lemma eng_calls_dpb_only:
  "eng_add e i r ep = Some e' \<Longrightarrow> dpb_only e e'" "eng_release e i r = Some e' \<Longrightarrow> dpb_only e e'"
  "eng_transfer e i r q ep = Some e' \<Longrightarrow> dpb_only e e'" "eng_flush e = Some e' \<Longrightarrow> dpb_only e e'"
proof -
  have h4: "dpb_only e (e\<lparr>dpb_h264 := d\<rparr>)" for d unfolding dpb_only_def by (rule exI[of _ d], rule exI[of _ "dpb_h265 e"]) simp
  have h5: "dpb_only e (e\<lparr>dpb_h265 := d\<rparr>)" for d unfolding dpb_only_def by (rule exI[of _ "dpb_h264 e"], rule exI[of _ d]) simp
  show "eng_add e i r ep = Some e' \<Longrightarrow> dpb_only e e'" "eng_release e i r = Some e' \<Longrightarrow> dpb_only e e'"
    "eng_transfer e i r q ep = Some e' \<Longrightarrow> dpb_only e e'" "eng_flush e = Some e' \<Longrightarrow> dpb_only e e'"
    by (cases "codec e"; auto simp: h4 h5 eng_add_def eng_release_def eng_transfer_def eng_flush_def)+
qed

lemma view_queues [simp]:
  "eng_wf (e\<lparr>reorder_q := a\<rparr>) = eng_wf e" "eng_held (e\<lparr>reorder_q := a\<rparr>) = eng_held e" "eng_epoch (e\<lparr>reorder_q := a\<rparr>) = eng_epoch e"
  "eng_psize (e\<lparr>reorder_q := a\<rparr>) = eng_psize e" "eng_now (e\<lparr>reorder_q := a\<rparr>) = eng_now e"
  "eng_wf (e\<lparr>ready_q := a\<rparr>) = eng_wf e" "eng_held (e\<lparr>ready_q := a\<rparr>) = eng_held e" "eng_epoch (e\<lparr>ready_q := a\<rparr>) = eng_epoch e"
  "eng_psize (e\<lparr>ready_q := a\<rparr>) = eng_psize e" "eng_now (e\<lparr>ready_q := a\<rparr>) = eng_now e"
  "eng_wf (e\<lparr>max_num_reorder_pics := b\<rparr>) = eng_wf e" "eng_held (e\<lparr>max_num_reorder_pics := b\<rparr>) = eng_held e"
  "eng_epoch (e\<lparr>max_num_reorder_pics := b\<rparr>) = eng_epoch e" "eng_psize (e\<lparr>max_num_reorder_pics := b\<rparr>) = eng_psize e"
  "eng_now (e\<lparr>max_num_reorder_pics := b\<rparr>) = eng_now e"
  "eng_wf (e\<lparr>submit_count := c\<rparr>) = eng_wf e" "eng_held (e\<lparr>submit_count := c\<rparr>) = eng_held e" "eng_epoch (e\<lparr>submit_count := c\<rparr>) = eng_epoch e"
  "eng_psize (e\<lparr>submit_count := c\<rparr>) = eng_psize e" "eng_now (e\<lparr>submit_count := c\<rparr>) = eng_now e"
  "eng_wf (e\<lparr>wait_for_idr := w\<rparr>) = eng_wf e" "eng_held (e\<lparr>wait_for_idr := w\<rparr>) = eng_held e" "eng_epoch (e\<lparr>wait_for_idr := w\<rparr>) = eng_epoch e"
  "eng_psize (e\<lparr>wait_for_idr := w\<rparr>) = eng_psize e" "eng_now (e\<lparr>wait_for_idr := w\<rparr>) = eng_now e"
  by (cases "codec e"; simp add: eng_view)+

section \<open>Queues and holds agree\<close>

definition hold_refs :: "ReorderEntry list \<Rightarrow> hold_ref list" where
  "hold_refs q = map (\<lambda>x. (nat (re_slot_idx x), re_epoch x)) q"

text \<open>
  The state between two calls, for the stream epoch \<open>ep\<close> of the caller and the slots \<open>cs\<close> of the frames it
  holds; within a call, the entries \<open>ps\<close> hold their slots and are about to join the reorder queue. HEVC slots keep the epoch 0 for ever: selection never stamps it.
\<close>

definition eng_agrees :: "ULONG \<Rightarrow> nat set \<Rightarrow> ReorderEntry list \<Rightarrow> DecodeEngine \<Rightarrow> bool" where
  "eng_agrees ep cs ps e \<longleftrightarrow> eng_wf e \<and> eng_psize e = kPoolSize \<and> eng_now e = ep \<and>
     queues_hold (eng_held e) (eng_epoch e) (hold_refs (reorder_q e @ ps)) (hold_refs (ready_q e)) cs \<and>
     (\<forall>x \<in> set (reorder_q e @ ps @ ready_q e). in_pool (re_slot_idx x)) \<and>
     (codec e = H265 \<longrightarrow> (\<forall>i. eng_epoch e i = 0))"

lemma lowest_scan:
  assumes "b = fold (\<lambda>i best. if re_poc (q ! i) < re_poc (q ! best) then i else best) [1..<n] 0" "0 < n"
  shows "b < n \<and> (\<forall>i < n. re_poc (q ! b) \<le> re_poc (q ! i)) \<and> (\<forall>i < b. re_poc (q ! b) < re_poc (q ! i))"
  using assms
proof (induction n arbitrary: b)
  case (Suc n)
  show ?case
  proof (cases "n = 0")
    case False
    let ?b = "fold (\<lambda>i best. if re_poc (q ! i) < re_poc (q ! best) then i else best) [1..<n] 0"
    have ih: "?b < n" "\<forall>i < n. re_poc (q ! ?b) \<le> re_poc (q ! i)" "\<forall>i < ?b. re_poc (q ! ?b) < re_poc (q ! i)"
      using Suc.IH[OF refl] False by auto
    have b: "b = (if re_poc (q ! n) < re_poc (q ! ?b) then n else ?b)" using Suc.prems False by simp
    show ?thesis
    proof (cases "re_poc (q ! n) < re_poc (q ! ?b)")
      case True
      then have "b = n" using b by simp
      moreover have "\<forall>i < n. re_poc (q ! n) < re_poc (q ! i)" using True ih(2) by (meson less_le_trans)
      ultimately show ?thesis by (auto simp: less_Suc_eq intro: less_imp_le)
    qed (use b ih in \<open>auto simp: less_Suc_eq\<close>)
  qed (use Suc.prems in simp)
qed simp

lemma lowest_idx_spec:
  assumes "q \<noteq> []"
  shows "lowest_idx q < length q" "\<And>x. x \<in> set q \<Longrightarrow> re_poc (q ! lowest_idx q) \<le> re_poc x"
  using lowest_scan[OF refl, of "length q" q] assms by (auto simp: lowest_idx_def in_set_conv_nth)

lemma hold_refs_simps [simp]:
  "hold_refs [] = []" "hold_refs (x # q) = (nat (re_slot_idx x), re_epoch x) # hold_refs q" "hold_refs (p @ q) = hold_refs p @ hold_refs q"
  by (simp_all add: hold_refs_def)

lemma lowest_split:
  assumes "q \<noteq> []"
  obtains q1 x q2 where "q = q1 @ x # q2" "lowest_idx q = length q1" "\<And>y. y \<in> set q \<Longrightarrow> re_poc x \<le> re_poc y"
proof -
  have l: "lowest_idx q < length q" by (rule lowest_idx_spec[OF assms])
  show ?thesis
    by (rule that[OF id_take_nth_drop[OF l]]) (use l lowest_idx_spec(2)[OF assms] in auto)
qed

lemma bump_lowest_eq:
  assumes "reorder_q e = q1 @ x # q2" "lowest_idx (reorder_q e) = length q1"
  shows "bump_lowest e = map_option (\<lambda>c. c\<lparr>ready_q := ready_q e @ [x], reorder_q := q1 @ q2\<rparr>)
    (if in_pool (re_slot_idx x) then eng_transfer e (nat (re_slot_idx x)) DPB_HOLD_REORDER DPB_HOLD_READY (re_epoch x) else Some e)"
  unfolding bump_lowest_def Let_def assms(2) unfolding assms(1) by simp

lemma bump_lowest_ok:
  assumes "eng_agrees ep cs ps e" "reorder_q e = q1 @ x # q2" "lowest_idx (reorder_q e) = length q1"
  shows "\<exists>e'. bump_lowest e = Some e' \<and> eng_agrees ep cs ps e' \<and> ready_q e' = ready_q e @ [x] \<and> reorder_q e' = q1 @ q2 \<and> codec e' = codec e \<and>
    max_num_reorder_pics e' = max_num_reorder_pics e"
proof -
  note i = assms(1)[unfolded eng_agrees_def assms(2)]
  have p: "in_pool (re_slot_idx x)" using i by simp
  have "eng.queued e (hold_refs q1 @ (nat (re_slot_idx x), re_epoch x) # (hold_refs q2 @ hold_refs ps)) (hold_refs (ready_q e)) cs"
    using i by (simp add: eng.queued_def)
  from eng.queue_move_ready[OF this] obtain c where c: "eng_transfer e (nat (re_slot_idx x)) DPB_HOLD_REORDER DPB_HOLD_READY (re_epoch x) = Some c"
      "eng.queued c (hold_refs q1 @ hold_refs q2 @ hold_refs ps) (hold_refs (ready_q e) @ [(nat (re_slot_idx x), re_epoch x)]) cs"
      "eng_psize c = eng_psize e" "eng_epoch c = eng_epoch e" "eng_now c = eng_now e"
    by blast
  note d = dpb_only_simps[OF eng_calls_dpb_only(3)[OF c(1)]]
  let ?e = "c\<lparr>ready_q := ready_q e @ [x], reorder_q := q1 @ q2\<rparr>"
  have "bump_lowest e = Some ?e" unfolding bump_lowest_eq[OF assms(2,3)] using p c(1) by simp
  moreover have "eng_agrees ep cs ps ?e"
    using i c(2-5) d unfolding eng_agrees_def eng.queued_def by simp
  ultimately show ?thesis using d by simp
qed

section \<open>Bumping\<close>

text \<open>What bumping from \<open>e\<close> to \<open>e'\<close> does to the queues: the smallest entries move to the output in order, \<open>n\<close> stay.\<close>

definition bumped :: "nat \<Rightarrow> DecodeEngine \<Rightarrow> DecodeEngine \<Rightarrow> ReorderEntry list \<Rightarrow> bool" where
  "bumped n e e' out \<longleftrightarrow> ready_q e' = ready_q e @ out \<and> mset (reorder_q e) = mset out + mset (reorder_q e') \<and>
     length (reorder_q e') = min n (length (reorder_q e)) \<and> sorted (map re_poc out) \<and>
     (\<forall>x \<in> set out. \<forall>y \<in> set (reorder_q e'). re_poc x \<le> re_poc y)"

definition same_stream :: "DecodeEngine \<Rightarrow> DecodeEngine \<Rightarrow> bool" where
  "same_stream e e' \<longleftrightarrow> codec e' = codec e \<and> max_num_reorder_pics e' = max_num_reorder_pics e"

lemma bumped_step:
  assumes "reorder_q e = q1 @ x # q2" "\<And>y. y \<in> set (reorder_q e) \<Longrightarrow> re_poc x \<le> re_poc y" "n < length (reorder_q e)"
    "ready_q e1 = ready_q e @ [x]" "reorder_q e1 = q1 @ q2" "bumped n e1 e' out"
  shows "bumped n e e' (x # out)"
proof -
  have m: "mset (q1 @ q2) = mset out + mset (reorder_q e')" using assms(5,6) by (simp add: bumped_def)
  then have "set (q1 @ q2) = set out \<union> set (reorder_q e')" by (metis set_mset_mset set_mset_union)
  then have "\<forall>y \<in> set out \<union> set (reorder_q e'). re_poc x \<le> re_poc y" using assms(1,2) by auto
  then show ?thesis using assms m unfolding bumped_def by auto
qed

lemma bump_down_ok:
  assumes "eng_agrees ep cs ps e" "length (reorder_q e) \<le> k"
  shows "\<exists>e' out. bump_down k n e = Some e' \<and> eng_agrees ep cs ps e' \<and> bumped n e e' out \<and> same_stream e e'"
  using assms
proof (induction k arbitrary: e)
  case 0
  then show ?case by (auto simp: bumped_def same_stream_def)
next
  case (Suc k)
  show ?case
  proof (cases "n < length (reorder_q e)")
    case True
    then have "reorder_q e \<noteq> []" by auto
    then obtain q1 x q2 where q: "reorder_q e = q1 @ x # q2" "lowest_idx (reorder_q e) = length q1" "\<And>y. y \<in> set (reorder_q e) \<Longrightarrow> re_poc x \<le> re_poc y"
      by (rule lowest_split) blast
    obtain e1 where e1: "bump_lowest e = Some e1" "eng_agrees ep cs ps e1" "ready_q e1 = ready_q e @ [x]" "reorder_q e1 = q1 @ q2" "same_stream e e1"
      using bump_lowest_ok[OF Suc.prems(1) q(1,2)] by (auto simp: same_stream_def)
    have "length (reorder_q e1) \<le> k" using Suc.prems(2) q(1) e1(4) by simp
    from Suc.IH[OF e1(2) this] obtain e' out where e': "bump_down k n e1 = Some e'" "eng_agrees ep cs ps e'" "bumped n e1 e' out" "same_stream e1 e'" by blast
    have "bumped n e e' (x # out)" by (rule bumped_step[OF q(1,3) True e1(3,4) e'(3)])
    then show ?thesis using e' e1(1,5) True by (auto simp: same_stream_def)
  next
    case False
    then show ?thesis using Suc.prems by (auto simp: bumped_def same_stream_def)
  qed
qed

text \<open>The effect on the queues alone, whatever the holds do.\<close>

lemma bump_down_queues:
  assumes "bump_down k n e = Some e'" "length (reorder_q e) \<le> k"
  shows "\<exists>out. bumped n e e' out \<and> same_stream e e'"
  using assms
proof (induction k arbitrary: e)
  case 0
  then show ?case by (auto simp: bumped_def same_stream_def)
next
  case (Suc k)
  show ?case
  proof (cases "n < length (reorder_q e)")
    case True
    then have "reorder_q e \<noteq> []" by auto
    then obtain q1 x q2 where q: "reorder_q e = q1 @ x # q2" "lowest_idx (reorder_q e) = length q1" "\<And>y. y \<in> set (reorder_q e) \<Longrightarrow> re_poc x \<le> re_poc y"
      by (rule lowest_split) blast
    obtain e1 where e1: "bump_lowest e = Some e1" "bump_down k n e1 = Some e'" using Suc.prems(1) True by (auto split: option.splits)
    let ?t = "if in_pool (re_slot_idx x) then eng_transfer e (nat (re_slot_idx x)) DPB_HOLD_REORDER DPB_HOLD_READY (re_epoch x) else Some e"
    have "map_option (\<lambda>c. c\<lparr>ready_q := ready_q e @ [x], reorder_q := q1 @ q2\<rparr>) ?t = Some e1"
      using e1(1) unfolding bump_lowest_eq[OF q(1,2)] .
    then obtain c where c0: "?t = Some c" and c: "e1 = c\<lparr>ready_q := ready_q e @ [x], reorder_q := q1 @ q2\<rparr>" by auto
    have "dpb_only e c" using c0 eng_calls_dpb_only(3)[of e] by (auto split: if_splits)
    note d = dpb_only_simps[OF this]
    have r: "ready_q e1 = ready_q e @ [x]" "reorder_q e1 = q1 @ q2" "same_stream e e1" using d by (simp_all add: c same_stream_def)
    have "length (reorder_q e1) \<le> k" using Suc.prems(2) q(1) r(2) by simp
    from Suc.IH[OF e1(2) this] obtain out where "bumped n e1 e' out" "same_stream e1 e'" by blast
    then show ?thesis using bumped_step[OF q(1,3) True r(1,2)] r(3) by (auto simp: same_stream_def)
  next
    case False
    then show ?thesis using Suc.prems by (auto simp: bumped_def same_stream_def)
  qed
qed

section \<open>Display order\<close>

text \<open>Pictures decoded one after the other within a coded video sequence, then the end of the stream.\<close>

fun complete_all :: "DecodeEngine \<Rightarrow> nat \<Rightarrow> ReorderEntry list \<Rightarrow> DecodeEngine option" where
  "complete_all e n [] = Some e"
| "complete_all e n (x # xs) = (case DecodeEngine_OnDecodeComplete e x n False of None \<Rightarrow> None | Some e1 \<Rightarrow> complete_all e1 n xs)"

definition play :: "DecodeEngine \<Rightarrow> nat \<Rightarrow> ReorderEntry list \<Rightarrow> DecodeEngine option" where
  "play e n xs = (case complete_all e n xs of None \<Rightarrow> None | Some e1 \<Rightarrow> DecodeEngine_Drain e1)"

text \<open>At most \<open>n\<close> pictures precede a picture in decoding order and follow it in display order.\<close>

definition reorder_depth :: "nat \<Rightarrow> ReorderEntry list \<Rightarrow> bool" where
  "reorder_depth n xs \<longleftrightarrow> (\<forall>i < length xs. length (filter (\<lambda>y. re_poc (xs ! i) < re_poc y) (take i xs)) \<le> n)"

definition window :: "nat \<Rightarrow> DecodeEngine \<Rightarrow> DecodeEngine \<Rightarrow> ReorderEntry list \<Rightarrow> bool" where
  "window n e0 e xs \<longleftrightarrow> (\<exists>out. ready_q e = ready_q e0 @ out \<and> mset xs = mset out + mset (reorder_q e) \<and> sorted (map re_poc out) \<and>
     (\<forall>x \<in> set out. \<forall>y \<in> set (reorder_q e). re_poc x \<le> re_poc y) \<and> length (reorder_q e) \<le> n \<and> (out \<noteq> [] \<longrightarrow> length (reorder_q e) = n))"

lemma window_push:
  assumes "window n e0 e xs" "length (filter (\<lambda>y. re_poc x < re_poc y) xs) \<le> n"
    "reorder_q e1 = reorder_q e @ [x]" "ready_q e1 = ready_q e" "bumped n e1 e' new"
  shows "window n e0 e' (xs @ [x])"
proof -
  obtain out where o: "ready_q e = ready_q e0 @ out" "mset xs = mset out + mset (reorder_q e)" "sorted (map re_poc out)"
    "\<forall>x \<in> set out. \<forall>y \<in> set (reorder_q e). re_poc x \<le> re_poc y" "length (reorder_q e) \<le> n" "out \<noteq> [] \<longrightarrow> length (reorder_q e) = n"
    using assms(1) unfolding window_def by blast
  note b = assms(5)[unfolded bumped_def assms(3,4)]
  have ox: "\<forall>y \<in> set out. re_poc y \<le> re_poc x"
  proof (rule ccontr)
    assume "\<not> ?thesis"
    then obtain y where y: "y \<in> set out" "re_poc x < re_poc y" by force
    then have "filter (\<lambda>y. re_poc x < re_poc y) (reorder_q e) = reorder_q e" using o(4) by (force simp: filter_id_conv)
    moreover have "filter (\<lambda>y. re_poc x < re_poc y) out \<noteq> []" using y by (auto simp: filter_empty_conv)
    moreover have "length (filter (\<lambda>y. re_poc x < re_poc y) xs) =
        length (filter (\<lambda>y. re_poc x < re_poc y) out) + length (filter (\<lambda>y. re_poc x < re_poc y) (reorder_q e))"
      using arg_cong[OF o(2), of "\<lambda>m. size (filter_mset (\<lambda>y. re_poc x < re_poc y) m)"] by (simp flip: mset_filter)
    ultimately show False using assms(2) o(6) y(1) by (auto simp flip: length_greater_0_conv)
  qed
  have m: "mset (reorder_q e @ [x]) = mset new + mset (reorder_q e')" using b by simp
  then have s: "set (reorder_q e) \<union> {x} = set new \<union> set (reorder_q e')" by (metis list.simps(15) set_append set_mset_mset set_mset_union set_empty2)
  then have le: "\<forall>y \<in> set out. \<forall>z \<in> set new \<union> set (reorder_q e'). re_poc y \<le> re_poc z" using o(4) ox by auto
  then have "sorted (map re_poc (out @ new))" using o(3) b by (auto simp: sorted_append)
  moreover have "\<forall>y \<in> set (out @ new). \<forall>z \<in> set (reorder_q e'). re_poc y \<le> re_poc z" using le b by auto
  moreover have "out @ new \<noteq> [] \<longrightarrow> length (reorder_q e') = n"
  proof
    assume ne: "out @ new \<noteq> []"
    have l: "length new + length (reorder_q e') = Suc (length (reorder_q e))" using arg_cong[OF m, of size] by simp
    then show "length (reorder_q e') = n" using b ne o(5,6) by (cases "new = []") (auto simp: min_def split: if_splits)
  qed
  moreover have "mset (xs @ [x]) = mset (out @ new) + mset (reorder_q e')" using o(2) m by simp
  moreover have "ready_q e' = ready_q e0 @ (out @ new)" "length (reorder_q e') \<le> n" using b o(1) by auto
  ultimately show ?thesis unfolding window_def by blast
qed

lemma complete_queues:
  assumes "DecodeEngine_OnDecodeComplete e x n False = Some e'" "n \<le> kMaxReorderPics"
  shows "\<exists>e1 new. reorder_q e1 = reorder_q e @ [x] \<and> ready_q e1 = ready_q e \<and> bumped n e1 e' new"
proof -
  let ?e1 = "e\<lparr>reorder_q := reorder_q e @ [x], max_num_reorder_pics := n\<rparr>"
  have "bump_until n ?e1 = Some e'" using assms by (simp add: DecodeEngine_OnDecodeComplete_def Let_def min_def)
  from bump_down_queues[OF this] obtain new where "bumped n ?e1 e' new" by auto
  then show ?thesis by (intro exI[of _ ?e1] exI[of _ new]) simp
qed

lemma complete_all_window:
  assumes "complete_all e n ys = Some e'" "window n e0 e xs" "reorder_depth n (xs @ ys)" "n \<le> kMaxReorderPics"
  shows "window n e0 e' (xs @ ys)"
  using assms
proof (induction ys arbitrary: e xs)
  case (Cons y ys)
  obtain e1 where e1: "DecodeEngine_OnDecodeComplete e y n False = Some e1" "complete_all e1 n ys = Some e'"
    using Cons.prems(1) by (auto split: option.splits)
  have "length (filter (\<lambda>z. re_poc y < re_poc z) xs) \<le> n"
    using Cons.prems(3)[unfolded reorder_depth_def, rule_format, of "length xs"] by simp
  then have "window n e0 e1 (xs @ [y])"
    using complete_queues[OF e1(1) assms(4)] window_push[OF Cons.prems(2)] by blast
  from Cons.IH[OF e1(2) this] Cons.prems(3,4) show ?case by simp
qed simp

lemma no_slot_bump_down: "\<forall>x \<in> set (reorder_q e). \<not> in_pool (re_slot_idx x) \<Longrightarrow>
  \<exists>e'. bump_down k n e = Some e' \<and> (\<forall>x \<in> set (reorder_q e'). \<not> in_pool (re_slot_idx x))"
proof (induction k arbitrary: e)
  case (Suc k)
  show ?case
  proof (cases "n < length (reorder_q e)")
    case True
    then have "reorder_q e \<noteq> []" by auto
    then obtain q1 x q2 where q: "reorder_q e = q1 @ x # q2" "lowest_idx (reorder_q e) = length q1" by (rule lowest_split) blast
    have "bump_lowest e = Some (e\<lparr>ready_q := ready_q e @ [x], reorder_q := q1 @ q2\<rparr>)"
      unfolding bump_lowest_eq[OF q] using Suc.prems q(1) by simp
    then show ?thesis using Suc.IH[of "e\<lparr>ready_q := ready_q e @ [x], reorder_q := q1 @ q2\<rparr>"] Suc.prems q(1) True by simp
  qed (use Suc.prems in simp)
qed simp

lemma no_slot_complete_all:
  "\<forall>x \<in> set (reorder_q e @ xs). \<not> in_pool (re_slot_idx x) \<Longrightarrow> \<exists>e'. complete_all e n xs = Some e' \<and> (\<forall>x \<in> set (reorder_q e'). \<not> in_pool (re_slot_idx x))"
proof (induction xs arbitrary: e)
  case (Cons x xs)
  let ?m = "min n kMaxReorderPics"
  let ?e1 = "e\<lparr>reorder_q := reorder_q e @ [x], max_num_reorder_pics := ?m\<rparr>"
  obtain e' where e': "bump_until ?m ?e1 = Some e'" "\<forall>x \<in> set (reorder_q e'). \<not> in_pool (re_slot_idx x)"
    using no_slot_bump_down[of ?e1 "length (reorder_q ?e1)" ?m] Cons.prems by auto
  have "DecodeEngine_OnDecodeComplete e x n False = Some e'"
    using e'(1) by (simp add: DecodeEngine_OnDecodeComplete_def Let_def)
  moreover have "\<forall>x \<in> set (reorder_q e' @ xs). \<not> in_pool (re_slot_idx x)" using e'(2) Cons.prems by auto
  ultimately show ?case using Cons.IH[of e'] by simp
qed simp

text \<open>
  C5: Frames leave the engine in display order: if no picture is preceded in decoding order by more than the stream's reorder
  bound of pictures that are displayed after it, then submitting the pictures of a sequence one by one and draining delivers
  all of them, sorted by picture order count, behind what was ready before. Without slots to hold nothing can stop it.
\<close>

theorem play_display_order:
  assumes "reorder_depth n xs" "n \<le> kMaxReorderPics" "reorder_q e = []"
  shows "(\<forall>e'. play e n xs = Some e' \<longrightarrow> (\<exists>out. ready_q e' = ready_q e @ out \<and> mset out = mset xs \<and> sorted (map re_poc out) \<and> reorder_q e' = [])) \<and>
    ((\<forall>x \<in> set xs. \<not> in_pool (re_slot_idx x)) \<longrightarrow> (\<exists>e'. play e n xs = Some e'))"
proof (intro conjI allI impI)
  fix e' assume p: "play e n xs = Some e'"
  then obtain e1 where e1: "complete_all e n xs = Some e1" "bump_until 0 e1 = Some e'"
    by (auto simp: play_def DecodeEngine_Drain_def split: option.splits)
  have "window n e e []" using assms(3) by (simp add: window_def)
  from complete_all_window[OF e1(1) this] assms(1,2) have "window n e e1 xs" by simp
  then obtain out where o: "ready_q e1 = ready_q e @ out" "mset xs = mset out + mset (reorder_q e1)" "sorted (map re_poc out)"
    "\<forall>x \<in> set out. \<forall>y \<in> set (reorder_q e1). re_poc x \<le> re_poc y" unfolding window_def by blast
  from bump_down_queues[OF e1(2)] obtain new where n: "bumped 0 e1 e' new" by blast
  have r: "reorder_q e' = []" and m: "mset (reorder_q e1) = mset new" using n by (auto simp: bumped_def)
  then have "set (reorder_q e1) = set new" by (metis set_mset_mset)
  then have "sorted (map re_poc (out @ new))" using n o(3,4) by (auto simp: bumped_def sorted_append)
  moreover have "ready_q e' = ready_q e @ (out @ new)" "mset (out @ new) = mset xs" using n o(1,2) m by (auto simp: bumped_def)
  ultimately show "\<exists>out. ready_q e' = ready_q e @ out \<and> mset out = mset xs \<and> sorted (map re_poc out) \<and> reorder_q e' = []" using r by blast
next
  assume "\<forall>x \<in> set xs. \<not> in_pool (re_slot_idx x)"
  then obtain e1 where "complete_all e n xs = Some e1" "\<forall>x \<in> set (reorder_q e1). \<not> in_pool (re_slot_idx x)"
    using no_slot_complete_all[of e xs n] assms(3) by auto
  then show "\<exists>e'. play e n xs = Some e'"
    using no_slot_bump_down[of e1 "length (reorder_q e1)" 0] by (auto simp: play_def DecodeEngine_Drain_def)
qed

text \<open>
  C39: Input refused for a full queue never stalls a stream whose reorder bound is at most 14: when the queue depth has reached
  the input capacity, a frame is ready to be polled, so the consumer can make room. With a bound of 15 or more the capacity
  does not exceed the bound, and a state is possible in which input is refused and nothing is ready.
\<close>

theorem refused_input_has_output:
  assumes "length (reorder_q e) \<le> max_num_reorder_pics e" "DecodeEngine_QueueDepth e \<ge> DecodeEngine_InputQueueCapacity e"
  shows "(max_num_reorder_pics e \<le> 14 \<longrightarrow> ready_q e \<noteq> []) \<and>
    (max_num_reorder_pics e \<ge> 15 \<longrightarrow> DecodeEngine_InputQueueCapacity e \<le> max_num_reorder_pics e)"
  using assms by (auto simp: DecodeEngine_QueueDepth_def DecodeEngine_InputQueueCapacity_def Let_def split: if_splits)

section \<open>Decoding keeps the holds\<close>

lemma same_holds_view:
  assumes "same_holds d d'" "pool_size d \<le> length (slots d)"
  shows "h264_held d' = h264_held d" "h264_epoch d' = h264_epoch d" "pool_size d' = pool_size d" "current_epoch d' = current_epoch d"
  using assms by (auto simp: same_holds_def h264_held_def h264_epoch_def fun_eq_iff)

lemma h264_select_view:
  assumes "h264_idle d" "Dpb_Select d p = (DPB_OK, d', Some sel)" "slot = current_slot sel"
  shows "slot < pool_size d" "\<And>r. \<not> h264_held d slot r" "dpb_ok d'" "h264_held d' = h264_held d"
    "h264_epoch d' = (h264_epoch d)(slot := current_epoch d)" "pool_size d' = pool_size d" "current_epoch d' = current_epoch d"
proof -
  have i: "dpb_ok d" "current_idx d = None" using assms(1) by (simp_all add: h264_idle_def)
  note c = select_core[OF i assms(2,3)]
  have b: "i < pool_size d \<Longrightarrow> i < DPB_MAX_SLOTS" for i using i(1) by (auto simp: dpb_ok_def)
  show "slot < pool_size d" "\<And>r. \<not> h264_held d slot r" "dpb_ok d'" "pool_size d' = pool_size d" "current_epoch d' = current_epoch d"
    using c by (auto simp: h264_held_def slot_held_flags)
  show "h264_held d' = h264_held d" "h264_epoch d' = (h264_epoch d)(slot := current_epoch d)"
    using c(1,5,10,11) b by (auto simp: h264_held_def h264_epoch_def fun_eq_iff)
qed

text \<open>What a decode leaves of the state the queues depend on.\<close>

definition decode_view :: "DecodeEngine \<Rightarrow> DecodeEngine \<Rightarrow> bool" where
  "decode_view e e' \<longleftrightarrow> codec e' = codec e \<and> eng_wf e' \<and> eng_psize e' = eng_psize e \<and> eng_now e' = eng_now e \<and> eng_held e' = eng_held e \<and>
     (\<forall>i r. eng_held e i r \<longrightarrow> eng_epoch e' i = eng_epoch e i) \<and> (codec e = H265 \<longrightarrow> eng_epoch e' = eng_epoch e) \<and>
     reorder_q e' = reorder_q e \<and> ready_q e' = ready_q e \<and> max_num_reorder_pics e' = max_num_reorder_pics e \<and>
     wait_for_idr e' = wait_for_idr e \<and> submit_count e' = submit_count e"

definition fresh_slot :: "DecodeEngine \<Rightarrow> DecodeEngine \<Rightarrow> bool" where
  "fresh_slot e e' \<longleftrightarrow> (\<exists>slot. last_decoded_slot e' = int slot \<and> slot < eng_psize e \<and> (\<forall>r. \<not> eng_held e slot r) \<and>
     (codec e = H264 \<longrightarrow> eng_epoch e' slot = eng_now e))"

lemma decode_view_refl: "eng_wf e \<Longrightarrow> decode_view e e"
  by (simp add: decode_view_def)

lemma decode_view_h264:
  assumes "codec e = H264" "eng_wf e" "h264_idle d'" "h264_held d' = h264_held (dpb_h264 e)" "pool_size d' = pool_size (dpb_h264 e)"
    "current_epoch d' = current_epoch (dpb_h264 e)" "\<And>i r. h264_held (dpb_h264 e) i r \<Longrightarrow> h264_epoch d' i = h264_epoch (dpb_h264 e) i"
  shows "decode_view e (e\<lparr>staged := st, parsed_h264 := p, last_decoded_slot := l, dpb_h264 := d'\<rparr>)"
    "decode_view e (e\<lparr>staged := st, parsed_h264 := p, dpb_h264 := d'\<rparr>)" "decode_view e (e\<lparr>staged := st, parsed_h264 := p\<rparr>)"
  using assms unfolding decode_view_def by (auto simp: eng_view)

lemma DecodeOne_H264_view:
  assumes "eng_wf e" "codec e = H264" "DecodeOne_H264 env e au = (rc, e', yuv)"
  shows "decode_view e e' \<and> (rc = 0 \<longrightarrow> fresh_slot e e')"
proof (cases "H264FindSliceNal au")
  case None
  then show ?thesis using assms decode_view_refl by (simp add: DecodeOne_H264_def)
next
  case (Some nal)
  let ?st = "stage_slice au nal" and ?d = "dpb_h264 e"
  have idle: "h264_idle ?d" and ok: "dpb_ok ?d" "current_idx ?d = None" using assms(1,2) by (simp_all add: eng_wf_def h264_idle_def)
  note b = dpb_ok_bounds[OF ok(1)]
  note dv = decode_view_h264[OF assms(2,1)]
  obtain s p where p: "parse264 env au (parsed_h264 e) = (s, p)" by (cases "parse264 env au (parsed_h264 e)")
  let ?e = "e\<lparr>staged := ?st, parsed_h264 := p\<rparr>"
  obtain st d sel where sel: "Dpb_Select ?d p = (st, d, sel)" by (metis prod_cases3)
  consider (early) "rc = 1" "e' = e \<or> e' = ?e"
    | (full) "rc = 1" "st \<noteq> DPB_OK \<or> sel = None" "e' = ?e\<lparr>dpb_h264 := d\<rparr>"
    | (fin) x where "st = DPB_OK" "sel = Some x" "finish_h264 env (?e\<lparr>dpb_h264 := d\<rparr>) x = (rc, e', yuv)"
  proof (cases "length ?st > bitstream_size e \<or> s \<noteq> PARSE_OK \<or> \<not> dims_h264 ?e p")
    case True
    then have "rc = 1 \<and> (e' = e \<or> e' = ?e)"
      using assms(3) unfolding DecodeOne_H264_def Some p by (auto simp: Let_def split: if_splits)
    then show ?thesis using that(1) by blast
  next
    case False
    then have r: "(case (st, d, sel) of (DPB_OK, d, Some sel) \<Rightarrow> finish_h264 env (?e\<lparr>dpb_h264 := d\<rparr>) sel
        | (_, d, _) \<Rightarrow> (1, ?e\<lparr>dpb_h264 := d\<rparr>, [])) = (rc, e', yuv)"
      using assms(3) unfolding DecodeOne_H264_def Some p by (simp add: sel Let_def)
    show ?thesis
    proof (cases "st = DPB_OK \<and> sel \<noteq> None")
      case True
      then show ?thesis using r that(3) by auto
    next
      case False
      then have "rc = 1 \<and> e' = ?e\<lparr>dpb_h264 := d\<rparr>" using r by (cases st; cases sel) simp_all
      then show ?thesis using that(2) False by blast
    qed
  qed
  then show ?thesis
  proof cases
    case early
    then show ?thesis using dv(3)[OF idle] decode_view_refl[OF assms(1)] by auto
  next
    case full
    have k: "keeps ?d d" by (rule select_fails(1)[OF ok sel full(2)])
    then have "h264_idle d" using ok by (simp add: keeps_def h264_idle_def)
    then show ?thesis using full(1,3) dv(2)[of d] same_holds_view[OF _ b, of d] k by (simp add: keeps_def)
  next
    case fin
    note v = h264_select_view[OF idle sel[unfolded fin(1,2)] refl]
    note b' = dpb_ok_bounds[OF v(3)]
    have c: "h264_idle (Dpb_OnDecodeComplete d)" "h264_idle (Dpb_OnDecodeFailed d)"
      using complete_keeps[OF v(3)] failed_keeps[OF v(3)] by (simp_all add: h264_idle_def)
    note cv = same_holds_view[OF complete_keeps(2)[OF v(3)] b'] and fv = same_holds_view[OF failed_keeps(2)[OF v(3)] b']
    have o: "rc \<noteq> 0 \<and> e' = ?e\<lparr>dpb_h264 := Dpb_OnDecodeFailed d\<rparr> \<or>
        rc = 0 \<and> e' = ?e\<lparr>last_decoded_slot := int (current_slot x), dpb_h264 := Dpb_OnDecodeComplete d\<rparr>"
      using fin(3) by (auto simp: finish_h264_def Let_def split: if_splits prod.splits)
    then show ?thesis
    proof (elim disjE conjE)
      assume "rc \<noteq> 0" and e': "e' = ?e\<lparr>dpb_h264 := Dpb_OnDecodeFailed d\<rparr>"
      moreover have "decode_view e e'" unfolding e'
        by (rule dv(2)[OF c(2)]) (use v fv in \<open>auto\<close>)
      ultimately show ?thesis by simp
    next
      assume "rc = 0" and e': "e' = ?e\<lparr>last_decoded_slot := int (current_slot x), dpb_h264 := Dpb_OnDecodeComplete d\<rparr>"
      moreover have "decode_view e e'" unfolding e'
        by (rule dv(1)[OF c(1)]) (use v cv in \<open>auto\<close>)
      moreover have "fresh_slot e e'" unfolding fresh_slot_def e'
        using v cv assms(2) by (auto simp: eng_view)
      ultimately show ?thesis by simp
    qed
  qed
qed

lemma h265_done_view:
  assumes "h265_ok d" "d' = H265Dpb_OnDecodeComplete d \<or> d' = H265Dpb_OnDecodeFailed d"
  shows "h265_idle d'" "h265_held d' = h265_held d" "h265_epoch d' = h265_epoch d" "h5_pool_size d' = h5_pool_size d" "h5_current_epoch d' = h5_current_epoch d"
proof -
  consider "d' = d" "h5_current_idx d = None" | "d' = d\<lparr>h5_current_idx := None\<rparr>"
    | cur where "d' = h265_slot_clear (d\<lparr>h5_current_idx := None\<rparr>) cur" "cur < h5_pool_size d"
    using assms by (cases "h5_current_idx d")
      (auto simp: H265Dpb_OnDecodeComplete_def H265Dpb_OnDecodeFailed_def Let_def h265_ok_def split: if_splits)
  then show "h265_idle d'" "h265_held d' = h265_held d" "h265_epoch d' = h265_epoch d" "h5_pool_size d' = h5_pool_size d" "h5_current_epoch d' = h5_current_epoch d"
    using assms(1) by (cases; auto simp: h265_idle_def h265_ok_def h265_slot_clear_def h265_held_def h265_epoch_def fun_eq_iff h5_upd_nth split: if_splits)+
qed

lemma h265_select_view:
  assumes "h265_idle d" "H265Dpb_Select d p = (st, d', sel)"
  shows "h265_ok d'" "h265_held d' = h265_held d" "h265_epoch d' = h265_epoch d" "h5_pool_size d' = h5_pool_size d" "h5_current_epoch d' = h5_current_epoch d"
    "sel = None \<Longrightarrow> h265_idle d'" "sel = Some x \<Longrightarrow> h5_current_slot x < h5_pool_size d \<and> (\<forall>r. \<not> h265_held d (h5_current_slot x) r)"
proof -
  have ok: "h265_ok d" "h5_current_idx d = None" using assms(1) by (simp_all add: h265_idle_def)
  note c = h265_select_core[OF ok(1) assms(2)]
  show "h265_ok d'" "h5_pool_size d' = h5_pool_size d" "h5_current_epoch d' = h5_current_epoch d" by (fact c)+
  show "h265_held d' = h265_held d" "h265_epoch d' = h265_epoch d" using c(1,7,8) by (auto simp: h265_held_def h265_epoch_def fun_eq_iff)
  show "sel = None \<Longrightarrow> h265_idle d'" using c(3,5) ok by (simp add: h265_idle_def)
  show "sel = Some x \<Longrightarrow> h5_current_slot x < h5_pool_size d \<and> (\<forall>r. \<not> h265_held d (h5_current_slot x) r)"
    using c(6)[of x] by (auto simp: h265_held_def h265_held_flags)
qed

lemma decode_view_h265:
  assumes "codec e = H265" "eng_wf e" "h265_idle d'" "h265_held d' = h265_held (dpb_h265 e)" "h5_pool_size d' = h5_pool_size (dpb_h265 e)"
    "h5_current_epoch d' = h5_current_epoch (dpb_h265 e)" "h265_epoch d' = h265_epoch (dpb_h265 e)"
  shows "decode_view e (e\<lparr>parsed_h265 := p, staged := st, last_h265_ids := l, dpb_h265 := d'\<rparr>)"
    "decode_view e (e\<lparr>parsed_h265 := p, staged := st, last_h265_ids := l, last_decoded_slot := k, dpb_h265 := d'\<rparr>)"
  using assms unfolding decode_view_def by (auto simp: eng_view)

lemma finish_h265_cases:
  assumes "finish_h265 env e sel = (rc, e', yuv)"
  obtains l where "rc \<noteq> 0" "e' = e\<lparr>last_h265_ids := l, dpb_h265 := H265Dpb_OnDecodeFailed (dpb_h265 e)\<rparr>"
  | l where "rc = 0" "e' = e\<lparr>last_h265_ids := l, last_decoded_slot := int (h5_current_slot sel), dpb_h265 := H265Dpb_OnDecodeComplete (dpb_h265 e)\<rparr>"
proof -
  have "\<exists>l. rc \<noteq> 0 \<and> e' = e\<lparr>last_h265_ids := l, dpb_h265 := H265Dpb_OnDecodeFailed (dpb_h265 e)\<rparr> \<or>
      rc = 0 \<and> e' = e\<lparr>last_h265_ids := l, last_decoded_slot := int (h5_current_slot sel), dpb_h265 := H265Dpb_OnDecodeComplete (dpb_h265 e)\<rparr>"
  proof -
    let ?ids = "(active_sps_id (parsed_h265 e), active_pps_id (parsed_h265 e))"
    let ?pc = "got_params_in_au (parsed_h265 e) \<or> ?ids \<noteq> last_h265_ids e"
    let ?l = "if ?pc \<and> pack265 env (parsed_h265 e) then ?ids else last_h265_ids e"
    have same: "e = e\<lparr>last_h265_ids := last_h265_ids e\<rparr>" by simp
    show ?thesis
      by (rule exI[of _ ?l]) (use assms in \<open>auto simp: finish_h265_def Let_def split: if_splits prod.splits\<close>)
  qed
  then show ?thesis using that by blast
qed

lemma DecodeOne_H265_view:
  assumes "eng_wf e" "codec e = H265" "DecodeOne_H265 env e au = (rc, e', yuv)"
  shows "decode_view e e' \<and> (rc = 0 \<longrightarrow> fresh_slot e e')"
proof -
  let ?d = "dpb_h265 e"
  have idle: "h265_idle ?d" using assms(1,2) by (simp add: eng_wf_def)
  note dv = decode_view_h265[OF assms(2,1)]
  obtain s p where p: "parse265 env au (parsed_h265 e) = (s, p)" by (cases "parse265 env au (parsed_h265 e)")
  let ?e = "\<lambda>st. e\<lparr>parsed_h265 := p, staged := st\<rparr>"
  obtain st d sel where sel: "H265Dpb_Select ?d p = (st, d, sel)" by (metis prod_cases3)
  note v = h265_select_view[OF idle sel]
  have early: "decode_view e (e\<lparr>parsed_h265 := p\<rparr>)" using dv(1)[OF idle, where p = p and st = "staged e" and l = "last_h265_ids e"] by simp
  show ?thesis
  proof (cases "s \<noteq> PARSE_OK \<or> \<not> h5_has_slice p \<or> active_sps_id p = None \<or> active_pps_id p = None \<or>
      pic_width_in_luma_samples (h5_sps p ! the (active_sps_id p)) \<noteq> frame_width e \<or>
      pic_height_in_luma_samples (h5_sps p ! the (active_sps_id p)) \<noteq> frame_height e \<or> H265FindSliceNal au = None \<or>
      length (stage_slice au (the (H265FindSliceNal au))) > bitstream_size e")
    case True
    then have "rc = 1 \<and> e' = e\<lparr>parsed_h265 := p\<rparr>"
      using assms(3) unfolding DecodeOne_H265_def p by (auto simp: Let_def split: if_splits option.splits)
    then show ?thesis using early by simp
  next
    case False
    then obtain nal where nal: "H265FindSliceNal au = Some nal" by (cases "H265FindSliceNal au") auto
    let ?t = "?e (stage_slice au nal)"
    obtain sid pid where ids: "active_sps_id p = Some sid" "active_pps_id p = Some pid" using False by auto
    have r: "(case (st, d, sel) of (DPB_OK, d, Some sel) \<Rightarrow> finish_h265 env (?t\<lparr>dpb_h265 := d\<rparr>) sel
        | (_, d, _) \<Rightarrow> (1, ?t\<lparr>dpb_h265 := d\<rparr>, [])) = (rc, e', yuv)"
      using assms(3) False nal ids unfolding DecodeOne_H265_def p by (simp add: sel Let_def)
    have st: "st = DPB_OK \<longleftrightarrow> sel \<noteq> None" using h265_select_core(4)[OF _ sel] idle by (simp add: h265_idle_def)
    show ?thesis
    proof (cases sel)
      case None
      then have "rc = 1 \<and> e' = ?t\<lparr>dpb_h265 := d\<rparr>" using r st by (cases st) simp_all
      then have e': "rc = 1" "e' = e\<lparr>parsed_h265 := p, staged := stage_slice au nal, last_h265_ids := last_h265_ids e, dpb_h265 := d\<rparr>" by simp_all
      have "decode_view e e'" unfolding e'(2) by (rule dv(1)[OF v(6)[OF None]]) (use v in simp_all)
      then show ?thesis using e'(1) by simp
    next
      case (Some x)
      then have f: "finish_h265 env (?t\<lparr>dpb_h265 := d\<rparr>) x = (rc, e', yuv)" using r st by simp
      note c = h265_done_view[OF v(1), of "H265Dpb_OnDecodeComplete d", simplified] and g = h265_done_view[OF v(1), of "H265Dpb_OnDecodeFailed d", simplified]
      from f show ?thesis
      proof (cases rule: finish_h265_cases)
        case (1 l)
        then have e': "e' = e\<lparr>parsed_h265 := p, staged := stage_slice au nal, last_h265_ids := l, dpb_h265 := H265Dpb_OnDecodeFailed d\<rparr>" by simp
        have "decode_view e e'" unfolding e' by (rule dv(1)[OF g(1)]) (use v g in simp_all)
        then show ?thesis using 1(1) by simp
      next
        case (2 l)
        then have e': "e' = e\<lparr>parsed_h265 := p, staged := stage_slice au nal, last_h265_ids := l,
            last_decoded_slot := int (h5_current_slot x), dpb_h265 := H265Dpb_OnDecodeComplete d\<rparr>" by simp
        have "decode_view e e'" unfolding e' by (rule dv(2)[OF c(1)]) (use v c in simp_all)
        moreover have "fresh_slot e e'" unfolding fresh_slot_def e' using v(7)[OF Some] assms(2) by (auto simp: eng_view)
        ultimately show ?thesis by simp
      qed
    qed
  qed
qed

lemma DecodeOne_view:
  assumes "eng_wf e" "DecodeEngine_DecodeOne env e au = (rc, e', yuv)"
  shows "decode_view e e'" "rc = 0 \<Longrightarrow> fresh_slot e e'"
proof -
  have "decode_view e e' \<and> (rc = 0 \<longrightarrow> fresh_slot e e')"
  proof (cases "length au > bitstream_size e")
    case True
    then show ?thesis using assms decode_view_refl by (auto simp: DecodeEngine_DecodeOne_def)
  next
    case False
    then show ?thesis using assms DecodeOne_H264_view[OF assms(1)] DecodeOne_H265_view[OF assms(1)]
      by (cases "codec e") (simp_all add: DecodeEngine_DecodeOne_def)
  qed
  then show "decode_view e e'" "rc = 0 \<Longrightarrow> fresh_slot e e'" by simp_all
qed

lemma decode_agrees:
  assumes "eng_agrees ep cs ps e" "decode_view e e'"
  shows "eng_agrees ep cs ps e'"
proof -
  note a = assms(1)[unfolded eng_agrees_def] and v = assms(2)[unfolded decode_view_def]
  have "queues_hold (eng_held e) (eng_epoch e') (hold_refs (reorder_q e @ ps)) (hold_refs (ready_q e)) cs"
    by (rule queues_hold_epochs[of _ "eng_epoch e"]) (use a v in blast)+
  then show ?thesis using a v unfolding eng_agrees_def by simp
qed

section \<open>A concrete engine\<close>

definition demo_pool16 :: "DpbPoolEntry list" where
  "demo_pool16 = map (\<lambda>i. \<lparr>output_frame = i, colmv = i + 16\<rparr>) [1, 2, 3, 4, 5, 6, 7, 8, 9, 10, 11, 12, 13, 14, 15, 16]"

definition demo_sps265 :: H265Sps where
  "demo_sps265 = \<lparr>sps_valid = True, num_short_term_ref_pic_sets = 0, st_rps = [], sps_max_sub_layers_minus1 = 0,
     sps_max_num_reorder_pics = [2], pic_width_in_luma_samples = 64, pic_height_in_luma_samples = 48\<rparr>"

definition demo_parsed265 :: H265ParseResult where
  "demo_parsed265 = h5_demo_parsed\<lparr>h5_is_idr := True, h5_sps := [demo_sps265], active_sps_id := Some 0, active_pps_id := Some 0\<rparr>"

definition demo_env :: decode_env where
  "demo_env = \<lparr>parse264 = (\<lambda>_ _. (PARSE_OK, (demo_parsed 0 0)\<lparr>is_idr := True\<rparr>)), parse265 = (\<lambda>_ _. (PARSE_OK, demo_parsed265)),
     build264 = (\<lambda>_ _. True), build265 = (\<lambda>_ _. True), pack265 = (\<lambda>_. True), submit264 = (\<lambda>_. (0, 4)),
     ioctl265 = (\<lambda>_. (True, True, 0, 4)), read_slot = (\<lambda>_. [])\<rparr>"

definition demo_engine :: "Codec \<Rightarrow> DecodeEngine" where
  "demo_engine c = \<lparr>codec = c, bitstream_size = 64, staged = [], output_va = replicate 16 1, last_decoded_slot = -1,
     populate_yuv = True, populate_yuv_nonrefs = True, dpb_h264 = the (snd (Dpb_Init demo_pool16)),
     dpb_h265 = the (snd (H265Dpb_Init demo_pool16)), frame_width = 64, frame_height = 48,
     parsed_h264 = demo_parsed 0 0, parsed_h265 = demo_parsed265, last_h265_ids = (None, None), reorder_q = [], ready_q = [],
     max_num_reorder_pics = 0, submit_count = 0, wait_for_idr = False\<rparr>"

definition demo_entry :: "int \<Rightarrow> ReorderEntry" where
  "demo_entry poc = \<lparr>re_poc = poc, re_pts_hns = 0, re_dur_hns = 0, re_yuv = [], re_slot_idx = -1, re_is_ref = True, re_epoch = 0\<rparr>"

theorem play_display_order_witness:
  "\<exists>e' out. play (demo_engine H264) 2 (map demo_entry [0, 8, 4, 2, 6]) = Some e' \<and> ready_q e' = out \<and>
     mset out = mset (map demo_entry [0, 8, 4, 2, 6]) \<and> sorted (map re_poc out)"
proof -
  have d: "reorder_depth 2 (map demo_entry [0, 8, 4, 2, 6])" by code_simp
  have e: "reorder_q (demo_engine H264) = []" "ready_q (demo_engine H264) = []" by (simp_all add: demo_engine_def)
  have "\<forall>x \<in> set (map demo_entry [0, 8, 4, 2, 6]). \<not> in_pool (re_slot_idx x)" by (simp add: demo_entry_def in_pool_def)
  with play_display_order[OF d _ e(1)] e(2) show ?thesis by simp metis
qed

definition demo_ready :: DecodeEngine where
  "demo_ready = (demo_engine H264)\<lparr>max_num_reorder_pics := 2, reorder_q := map demo_entry [1, 2], ready_q := map demo_entry [3, 4]\<rparr>"

definition demo_stuck :: DecodeEngine where
  "demo_stuck = (demo_engine H264)\<lparr>max_num_reorder_pics := 15,
     reorder_q := map demo_entry [0, 1, 2, 3, 4, 5, 6, 7, 8, 9, 10, 11, 12, 13, 14]\<rparr>"

theorem refused_input_has_output_witness:
  "ready_q demo_ready \<noteq> [] \<and> DecodeEngine_QueueDepth demo_stuck \<ge> DecodeEngine_InputQueueCapacity demo_stuck \<and> ready_q demo_stuck = [] \<and>
   DecodeEngine_InputQueueCapacity demo_stuck \<le> max_num_reorder_pics demo_stuck"
proof -
  have a: "length (reorder_q demo_ready) \<le> max_num_reorder_pics demo_ready" "DecodeEngine_QueueDepth demo_ready \<ge> DecodeEngine_InputQueueCapacity demo_ready"
    "max_num_reorder_pics demo_ready \<le> 14"
    by (simp_all add: demo_ready_def DecodeEngine_QueueDepth_def DecodeEngine_InputQueueCapacity_def)
  have b: "length (reorder_q demo_stuck) \<le> max_num_reorder_pics demo_stuck" "DecodeEngine_QueueDepth demo_stuck \<ge> DecodeEngine_InputQueueCapacity demo_stuck"
    "max_num_reorder_pics demo_stuck \<ge> 15" "ready_q demo_stuck = []"
    by (simp_all add: demo_stuck_def demo_engine_def DecodeEngine_QueueDepth_def DecodeEngine_InputQueueCapacity_def)
  show ?thesis using refused_input_has_output[OF a(1,2)] refused_input_has_output[OF b(1,2)] a(3) b(2-4) by simp
qed

end
