(* ===== verification/Engine_Client.thy ===== *)
theory Engine_Client
  imports Engine_Props
begin

text \<open>
  The engine as its client drives it (\<^verbatim>\<open>mft/dll/decoder_mft.cpp\<close>: submit with the stream epoch, poll, release of every polled
  frame, drain, and flush with the epoch incremented): the holds always match the queues, so that no check of the picture
  buffer fails for H.264, and no decode overwrites a picture that is queued or held.
\<close>

section \<open>Every entry point keeps queues and holds in agreement\<close>

definition eng_inv :: "ULONG \<Rightarrow> nat set \<Rightarrow> DecodeEngine \<Rightarrow> bool" where
  "eng_inv ep cs e \<longleftrightarrow> eng_agrees ep cs [] e \<and> length (reorder_q e) \<le> max_num_reorder_pics e"

lemma agrees_fields [simp]:
  "eng_agrees ep cs ps (e\<lparr>max_num_reorder_pics := m\<rparr>) = eng_agrees ep cs ps e"
  "eng_agrees ep cs ps (e\<lparr>submit_count := c\<rparr>) = eng_agrees ep cs ps e"
  "eng_agrees ep cs ps (e\<lparr>wait_for_idr := w\<rparr>) = eng_agrees ep cs ps e"
  by (simp_all add: eng_agrees_def)

lemma agrees_push: "eng_agrees ep cs [] (e\<lparr>reorder_q := reorder_q e @ [x]\<rparr>) = eng_agrees ep cs [x] e"
  by (auto simp: eng_agrees_def)

lemma complete_ok:
  assumes "eng_agrees ep cs [x] e"
  shows "\<exists>e'. DecodeEngine_OnDecodeComplete e x n idr = Some e' \<and> eng_inv ep cs e' \<and> codec e' = codec e"
proof -
  let ?m = "min n kMaxReorderPics"
  obtain e1 where e1: "(if idr then bump_until 0 e else Some e) = Some e1" "eng_agrees ep cs [x] e1" "codec e1 = codec e"
    using bump_down_ok[OF assms, of "length (reorder_q e)" 0] assms by (cases idr) (auto simp: same_stream_def)
  let ?e2 = "e1\<lparr>reorder_q := reorder_q e1 @ [x], max_num_reorder_pics := ?m\<rparr>"
  have "eng_agrees ep cs [] ?e2" using e1(2) agrees_push by simp
  from bump_down_ok[OF this order_refl] obtain e' out
    where e': "bump_until ?m ?e2 = Some e'" "eng_agrees ep cs [] e'" "bumped ?m ?e2 e' out" "same_stream ?e2 e'" by blast
  have "DecodeEngine_OnDecodeComplete e x n idr = Some e'"
    unfolding DecodeEngine_OnDecodeComplete_def Let_def e1(1) using e'(1) by simp
  moreover have "eng_inv ep cs e'" using e' by (auto simp: eng_inv_def bumped_def same_stream_def)
  ultimately show ?thesis using e'(4) e1(3) by (auto simp: same_stream_def)
qed

lemma hold_ok:
  assumes "eng_agrees ep cs [] e" "fresh_slot e0 e" "decode_view e0 e" "codec e = H264 \<or> ep = 0"
  shows "\<exists>e1 slot isref. hold_decoded e ep = Some (e1, slot, isref) \<and> codec e1 = codec e \<and> dpb_only e e1 \<and>
    (\<forall>x. re_slot_idx x = slot \<and> re_epoch x = ep \<longrightarrow> eng_agrees ep cs [x] e1)"
proof -
  note v = assms(3)[unfolded decode_view_def] and a = assms(1)[unfolded eng_agrees_def append_Nil2]
  obtain k where k: "last_decoded_slot e = int k" "k < eng_psize e" "\<And>r. \<not> eng_held e k r" "codec e = H264 \<longrightarrow> eng_epoch e k = eng_now e"
    using assms(2) v unfolding fresh_slot_def by auto
  have p: "in_pool (int k)" using k(2) a by (simp add: in_pool_def)
  have ek: "eng_epoch e k = ep" using k(4) assms(4) a by (cases "codec e") auto
  have "eng.queued e (hold_refs (reorder_q e)) (hold_refs (ready_q e)) cs" using a by (simp add: eng.queued_def)
  from eng.queue_take[OF this k(2,3) ek] obtain e1 where e1: "eng_add e k DPB_HOLD_REORDER ep = Some e1"
    "eng.queued e1 (hold_refs (reorder_q e) @ [(k, ep)]) (hold_refs (ready_q e)) cs" "eng_psize e1 = eng_psize e"
    "eng_epoch e1 = eng_epoch e" "eng_now e1 = eng_now e" by blast
  have o: "dpb_only e e1" by (rule eng_calls_dpb_only(1)[OF e1(1)])
  have "eng_agrees ep cs [x] e1" if x: "re_slot_idx x = int k" "re_epoch x = ep" for x
    using e1(2-5) a x p dpb_only_simps[OF o] unfolding eng_agrees_def eng.queued_def by simp
  moreover have "hold_decoded e ep = Some (e1, int k, slot_is_ref e1 k)" using e1(1) k(1) p by (simp add: hold_decoded_def)
  ultimately show ?thesis using o dpb_only_simps(3)[OF o] by blast
qed

lemma submit_ok:
  assumes "eng_inv ep cs e" "codec e = H264 \<or> ep = 0"
  shows "\<exists>rc e'. DecodeEngine_Submit env e au pts ep = Some (rc, e') \<and> eng_inv ep cs e' \<and> codec e' = codec e"
proof (cases "wait_for_idr e \<and> \<not> au_has_irap au (codec e)")
  case True
  then show ?thesis using assms by (simp add: DecodeEngine_Submit_def)
next
  case False
  let ?e0 = "e\<lparr>wait_for_idr := False\<rparr>"
  obtain rc d yuv where d: "DecodeEngine_DecodeOne env ?e0 au = (rc, d, yuv)" by (metis prod_cases3)
  have a0: "eng_agrees ep cs [] ?e0" using assms(1) by (simp add: eng_inv_def)
  then have wf: "eng_wf ?e0" by (simp add: eng_agrees_def)
  note v = DecodeOne_view[OF wf d]
  have a: "eng_agrees ep cs [] d" by (rule decode_agrees[OF a0 v(1)])
  have dq: "codec d = codec e" "reorder_q d = reorder_q e" "max_num_reorder_pics d = max_num_reorder_pics e" using v(1) by (simp_all add: decode_view_def)
  show ?thesis
  proof (cases "rc = 0")
    case r: False
    then have "DecodeEngine_Submit env e au pts ep = Some (rc, d\<lparr>wait_for_idr := True\<rparr>)"
      unfolding DecodeEngine_Submit_def if_not_P[OF False] d by simp
    then show ?thesis using a dq assms(1) by (simp add: eng_inv_def)
  next
    case True
    have "codec d = H264 \<or> ep = 0" using assms(2) dq(1) by simp
    from hold_ok[OF a v(2)[OF True] v(1) this] obtain e1 slot isref where e1: "hold_decoded d ep = Some (e1, slot, isref)" "codec e1 = codec d"
      "\<And>x. re_slot_idx x = slot \<Longrightarrow> re_epoch x = ep \<Longrightarrow> eng_agrees ep cs [x] e1" by blast
    define x where "x = \<lparr>re_poc = current_poc e1, re_pts_hns = (if pts < 0 then sint (submit_count e1 * 10000000 div 30) else pts),
        re_dur_hns = 10000000 div 30, re_yuv = yuv, re_slot_idx = slot, re_is_ref = isref, re_epoch = ep\<rparr>"
    define idr where "idr = (codec e1 \<noteq> H265 \<and> is_idr (parsed_h264 e1))"
    have s: "DecodeEngine_Submit env e au pts ep =
        map_option (Pair 0) (DecodeEngine_OnDecodeComplete (e1\<lparr>submit_count := submit_count e1 + 1\<rparr>) x (resolve_max_reorder e1) idr)"
      unfolding DecodeEngine_Submit_def if_not_P[OF False] d prod.case e1(1) Let_def x_def idr_def using True by simp
    have "eng_agrees ep cs [x] (e1\<lparr>submit_count := submit_count e1 + 1\<rparr>)" using e1(3)[of x] by (simp add: x_def)
    from complete_ok[OF this, of "resolve_max_reorder e1" idr] show ?thesis unfolding s using e1(2) dq(1) by auto
  qed
qed

lemma poll_ok:
  assumes "eng_inv ep cs e"
  shows "\<exists>f e'. DecodeEngine_PollFrame e = Some (f, e') \<and> codec e' = codec e \<and>
    (case f of None \<Rightarrow> e' = e | Some x \<Rightarrow> in_pool (df_slot_idx x) \<and> nat (df_slot_idx x) \<notin> cs \<and> eng_inv ep (insert (nat (df_slot_idx x)) cs) e')"
proof (cases "ready_q e")
  case Nil
  then show ?thesis by (simp add: DecodeEngine_PollFrame_def)
next
  case (Cons x q)
  note a = assms[unfolded eng_inv_def eng_agrees_def append_Nil2 append_Nil Cons]
  let ?e = "e\<lparr>ready_q := q\<rparr>" and ?k = "nat (re_slot_idx x)"
  have p: "in_pool (re_slot_idx x)" using a by simp
  have "eng.queued ?e (hold_refs (reorder_q e)) ((?k, re_epoch x) # hold_refs q) cs" using a by (simp add: eng.queued_def)
  from eng.queue_move_consumer[OF this] obtain e1 where e1: "eng_transfer ?e ?k DPB_HOLD_READY DPB_HOLD_CONSUMER (re_epoch x) = Some e1"
    "eng.queued e1 (hold_refs (reorder_q e)) (hold_refs q) (insert ?k cs)" "eng_psize e1 = eng_psize ?e" "eng_epoch e1 = eng_epoch ?e" "eng_now e1 = eng_now ?e"
    by blast
  note o = dpb_only_simps[OF eng_calls_dpb_only(3)[OF e1(1)]]
  have "eng_inv ep (insert ?k cs) e1" using e1(2-5) a o unfolding eng_inv_def eng_agrees_def eng.queued_def by simp
  moreover have "?k \<notin> cs" using a by (auto simp: queues_hold_def)
  moreover have "DecodeEngine_PollFrame e = Some (Some (frame_of e x), e1)" using Cons e1(1) p by (simp add: DecodeEngine_PollFrame_def)
  ultimately show ?thesis using p o(3) by (auto simp: frame_of_def)
qed

lemma release_ok:
  assumes "eng_inv ep cs e" "in_pool (df_slot_idx f)" "nat (df_slot_idx f) \<in> cs"
  shows "\<exists>e'. DecodeEngine_ReleaseFrame e f = Some (e', f\<lparr>df_slot_idx := -1\<rparr>) \<and> eng_inv ep (cs - {nat (df_slot_idx f)}) e' \<and> codec e' = codec e"
proof -
  note a = assms(1)[unfolded eng_inv_def eng_agrees_def append_Nil2 append_Nil]
  let ?k = "nat (df_slot_idx f)"
  have "eng.queued e (hold_refs (reorder_q e)) (hold_refs (ready_q e)) cs" using a by (simp add: eng.queued_def)
  from eng.queue_give_back[OF this assms(3)] obtain e1 where e1: "eng_release e ?k DPB_HOLD_CONSUMER = Some e1"
    "eng.queued e1 (hold_refs (reorder_q e)) (hold_refs (ready_q e)) (cs - {?k})" "eng_psize e1 = eng_psize e" "eng_epoch e1 = eng_epoch e" "eng_now e1 = eng_now e"
    by blast
  note o = dpb_only_simps[OF eng_calls_dpb_only(2)[OF e1(1)]]
  have "eng_inv ep (cs - {?k}) e1" using e1(2-5) a o unfolding eng_inv_def eng_agrees_def eng.queued_def by simp
  then show ?thesis using e1(1) assms(2) o(3) by (simp add: DecodeEngine_ReleaseFrame_def)
qed

lemma drain_ok: "eng_inv ep cs e \<Longrightarrow> \<exists>e'. DecodeEngine_Drain e = Some e' \<and> eng_inv ep cs e' \<and> codec e' = codec e"
  using bump_down_ok[of ep cs "[]" e "length (reorder_q e)" 0]
  by (auto simp: DecodeEngine_Drain_def eng_inv_def bumped_def same_stream_def)

lemma dpb_only_trans: "dpb_only a b \<Longrightarrow> dpb_only b c \<Longrightarrow> dpb_only a c"
proof -
  assume "dpb_only a b" "dpb_only b c"
  then obtain u v x y where b: "b = a\<lparr>dpb_h264 := u, dpb_h265 := v\<rparr>" and c: "c = b\<lparr>dpb_h264 := x, dpb_h265 := y\<rparr>"
    unfolding dpb_only_def by blast
  have "c = a\<lparr>dpb_h264 := x, dpb_h265 := y\<rparr>" unfolding c b by simp
  then show ?thesis unfolding dpb_only_def by blast
qed

lemma release_all_dpb_only: "release_all eng_release r is e = Some e' \<Longrightarrow> dpb_only e e'"
  by (induction "is" arbitrary: e) (auto split: option.splits intro: dpb_only_trans dest: eng_calls_dpb_only(2))

lemma release_queue_eq: "\<forall>x \<in> set q. in_pool (re_slot_idx x) \<Longrightarrow> release_queue r q e = release_all eng_release r (map fst (hold_refs q)) e"
  by (simp add: release_queue_def hold_refs_def comp_def)

lemma flush_ok:
  assumes "eng_inv ep cs e"
  shows "\<exists>e'. DecodeEngine_Flush e = Some e' \<and> eng_inv (ep + 1) cs e' \<and> codec e' = codec e \<and> reorder_q e' = [] \<and> ready_q e' = []"
proof -
  note a = assms[unfolded eng_inv_def eng_agrees_def append_Nil2 append_Nil]
  have "eng.queued e (hold_refs (reorder_q e)) (hold_refs (ready_q e)) cs" using a by (simp add: eng.queued_def)
  from eng.queue_drop_reorder[OF this] obtain e1 where e1: "release_all eng_release DPB_HOLD_REORDER (map fst (hold_refs (reorder_q e))) e = Some e1"
    "eng.queued e1 [] (hold_refs (ready_q e)) cs" "eng_psize e1 = eng_psize e" "eng_epoch e1 = eng_epoch e" "eng_now e1 = eng_now e" by blast
  from eng.queue_drop_ready[OF e1(2)] obtain e2 where e2: "release_all eng_release DPB_HOLD_READY (map fst (hold_refs (ready_q e))) e1 = Some e2"
    "eng.queued e2 [] [] cs" "eng_psize e2 = eng_psize e1" "eng_epoch e2 = eng_epoch e1" "eng_now e2 = eng_now e1" by blast
  let ?e3 = "e2\<lparr>reorder_q := [], ready_q := [], submit_count := 0, max_num_reorder_pics := 0, wait_for_idr := True\<rparr>"
  have "eng.queued ?e3 [] [] cs" using e2(2) by (simp add: eng.queued_def)
  from eng.queue_flush[OF this] obtain e4 where e4: "eng_flush ?e3 = Some e4" "eng.queued e4 [] [] cs" "eng_psize e4 = eng_psize ?e3"
    "eng_epoch e4 = eng_epoch ?e3" "eng_now e4 = eng_now ?e3 + 1" by blast
  note o = dpb_only_simps[OF dpb_only_trans[OF release_all_dpb_only[OF e1(1)] release_all_dpb_only[OF e2(1)]]]
    and o4 = dpb_only_simps[OF eng_calls_dpb_only(4)[OF e4(1)]]
  have "release_queue DPB_HOLD_REORDER (reorder_q e) e = Some e1" "release_queue DPB_HOLD_READY (ready_q e) e1 = Some e2"
    using a e1(1) e2(1) by (simp_all add: release_queue_eq)
  then have "DecodeEngine_Flush e = Some e4" using e4(1) by (simp add: DecodeEngine_Flush_def)
  moreover have "eng_inv (ep + 1) cs e4"
    using e4(2-5) e1(3-5) e2(3-5) a o o4 unfolding eng_inv_def eng_agrees_def eng.queued_def by simp
  ultimately show ?thesis using o o4 by simp
qed

section \<open>The client\<close>

text \<open>The engine, the stream epoch, and the frames polled and not yet released. None is a failed check of the picture buffer.\<close>

record eng_client =
  cl_engine :: DecodeEngine
  stream_epoch :: ULONG
  cl_frames :: "DecodedFrame list"

datatype eng_op = OpSubmit decode_env "uint8 list" int | OpPoll | OpRelease nat | OpDrain | OpFlush

fun client_step :: "eng_client \<Rightarrow> eng_op \<Rightarrow> eng_client option" where
  "client_step c (OpSubmit env au pts) =
     map_option (\<lambda>(rc, e). c\<lparr>cl_engine := e\<rparr>) (DecodeEngine_Submit env (cl_engine c) au pts (stream_epoch c))"
| "client_step c OpPoll =
     map_option (\<lambda>(f, e). c\<lparr>cl_engine := e, cl_frames := cl_frames c @ (case f of None \<Rightarrow> [] | Some x \<Rightarrow> [x])\<rparr>) (DecodeEngine_PollFrame (cl_engine c))"
| "client_step c (OpRelease k) =
     (if k < length (cl_frames c)
      then map_option (\<lambda>(e, f). c\<lparr>cl_engine := e, cl_frames := take k (cl_frames c) @ drop (Suc k) (cl_frames c)\<rparr>)
             (DecodeEngine_ReleaseFrame (cl_engine c) (cl_frames c ! k))
      else Some c)"
| "client_step c OpDrain = map_option (\<lambda>e. c\<lparr>cl_engine := e\<rparr>) (DecodeEngine_Drain (cl_engine c))"
| "client_step c OpFlush = map_option (\<lambda>e. c\<lparr>cl_engine := e, stream_epoch := stream_epoch c + 1\<rparr>) (DecodeEngine_Flush (cl_engine c))"

fun client_run :: "eng_client \<Rightarrow> eng_op list \<Rightarrow> eng_client option" where
  "client_run c [] = Some c"
| "client_run c (x # xs) = (case client_step c x of None \<Rightarrow> None | Some c' \<Rightarrow> client_run c' xs)"

definition frame_slots :: "eng_client \<Rightarrow> nat list" where
  "frame_slots c = map (nat \<circ> df_slot_idx) (cl_frames c)"

definition client_inv :: "eng_client \<Rightarrow> bool" where
  "client_inv c \<longleftrightarrow> eng_inv (stream_epoch c) (set (frame_slots c)) (cl_engine c) \<and> distinct (frame_slots c) \<and>
     (\<forall>f \<in> set (cl_frames c). in_pool (df_slot_idx f)) \<and> codec (cl_engine c) = H264"

lemma client_step_ok:
  assumes "client_inv c"
  shows "\<exists>c'. client_step c x = Some c' \<and> client_inv c'"
proof (cases x)
  case (OpSubmit env au pts)
  then show ?thesis using assms submit_ok[of "stream_epoch c" "set (frame_slots c)" "cl_engine c" env au pts]
    by (auto simp: client_inv_def frame_slots_def)
next
  case OpPoll
  have "eng_inv (stream_epoch c) (set (frame_slots c)) (cl_engine c)" using assms by (simp add: client_inv_def)
  from poll_ok[OF this] obtain f e where f: "DecodeEngine_PollFrame (cl_engine c) = Some (f, e)" "codec e = codec (cl_engine c)"
    "case f of None \<Rightarrow> e = cl_engine c | Some x \<Rightarrow> in_pool (df_slot_idx x) \<and> nat (df_slot_idx x) \<notin> set (frame_slots c) \<and>
       eng_inv (stream_epoch c) (insert (nat (df_slot_idx x)) (set (frame_slots c))) e" by blast
  then show ?thesis using assms OpPoll by (cases f) (auto simp: client_inv_def frame_slots_def)
next
  case (OpRelease k)
  show ?thesis
  proof (cases "k < length (cl_frames c)")
    case True
    let ?f = "cl_frames c ! k" and ?fs = "take k (cl_frames c) @ drop (Suc k) (cl_frames c)"
    have fs: "cl_frames c = take k (cl_frames c) @ ?f # drop (Suc k) (cl_frames c)" by (rule id_take_nth_drop[OF True])
    have sl: "frame_slots c = map (nat \<circ> df_slot_idx) (take k (cl_frames c)) @ nat (df_slot_idx ?f) # map (nat \<circ> df_slot_idx) (drop (Suc k) (cl_frames c))"
      unfolding frame_slots_def by (subst fs) simp
    have i: "eng_inv (stream_epoch c) (set (frame_slots c)) (cl_engine c)" "in_pool (df_slot_idx ?f)" "nat (df_slot_idx ?f) \<in> set (frame_slots c)"
      using assms True sl by (auto simp: client_inv_def)
    from release_ok[OF i] obtain e where e: "DecodeEngine_ReleaseFrame (cl_engine c) ?f = Some (e, ?f\<lparr>df_slot_idx := -1\<rparr>)"
      "eng_inv (stream_epoch c) (set (frame_slots c) - {nat (df_slot_idx ?f)}) e" "codec e = codec (cl_engine c)" by blast
    let ?c = "c\<lparr>cl_engine := e, cl_frames := ?fs\<rparr>"
    have d: "distinct (frame_slots c)" using assms by (simp add: client_inv_def)
    have s: "set (frame_slots ?c) = set (frame_slots c) - {nat (df_slot_idx ?f)}" "distinct (frame_slots ?c)"
      using d unfolding sl by (auto simp: frame_slots_def)
    have "\<forall>f \<in> set ?fs. in_pool (df_slot_idx f)" using assms by (auto simp: client_inv_def dest: in_set_takeD in_set_dropD)
    then have "client_inv ?c" using e(2,3) s assms by (simp add: client_inv_def)
    then show ?thesis using e(1) True OpRelease by simp
  qed (use assms OpRelease in simp)
next
  case OpDrain
  then show ?thesis using assms drain_ok[of "stream_epoch c" "set (frame_slots c)" "cl_engine c"]
    by (auto simp: client_inv_def frame_slots_def)
next
  case OpFlush
  then show ?thesis using assms flush_ok[of "stream_epoch c" "set (frame_slots c)" "cl_engine c"]
    by (auto simp: client_inv_def frame_slots_def)
qed

lemma client_run_ok: "client_inv c \<Longrightarrow> \<exists>c'. client_run c xs = Some c' \<and> client_inv c'"
proof (induction xs arbitrary: c)
  case (Cons x xs)
  then show ?case using client_step_ok[OF Cons.prems, of x] by auto
qed simp

text \<open>A freshly initialised H.264 engine.\<close>

definition fresh_engine :: "DecodeEngine \<Rightarrow> bool" where
  "fresh_engine e \<longleftrightarrow> codec e = H264 \<and> (\<exists>pool. length pool = kPoolSize \<and> Dpb_Init pool = (DPB_OK, Some (dpb_h264 e))) \<and> reorder_q e = [] \<and> ready_q e = []"

lemma init_size: "Dpb_Init pool = (DPB_OK, Some ctx) \<Longrightarrow> pool_size ctx = length pool"
  by (auto simp: Dpb_Init_def split: if_splits)

lemma fresh_client_inv:
  assumes "fresh_engine e"
  shows "client_inv \<lparr>cl_engine = e, stream_epoch = 0, cl_frames = []\<rparr>"
proof -
  obtain pool where p: "length pool = kPoolSize" "Dpb_Init pool = (DPB_OK, Some (dpb_h264 e))" using assms by (auto simp: fresh_engine_def)
  note i = init_ok[OF p(2)]
  have ps: "pool_size (dpb_h264 e) = kPoolSize" using init_size[OF p(2)] p(1) by simp
  have "\<not> h264_held (dpb_h264 e) k r" for k r using i ps by (auto simp: h264_held_def slot_held_flags)
  then show ?thesis using assms i ps
    by (auto simp: client_inv_def eng_inv_def eng_agrees_def eng_view h264_idle_def queues_hold_def frame_slots_def fresh_engine_def)
qed


text \<open>
  C6: A decode never writes into a picture that is still needed for output: the slot of every successful H.264 decode is neither
  in the reorder queue nor in the output queue nor in a frame the client has not released.
\<close>

theorem decode_never_overwrites:
  assumes "fresh_engine e" "client_run \<lparr>cl_engine = e, stream_epoch = 0, cl_frames = []\<rparr> ops = Some c"
    "DecodeEngine_DecodeOne env (cl_engine c) au = (0, e', yuv)"
  shows "in_pool (last_decoded_slot e') \<and> last_decoded_slot e' \<notin> re_slot_idx ` set (reorder_q (cl_engine c) @ ready_q (cl_engine c)) \<and>
    last_decoded_slot e' \<notin> df_slot_idx ` set (cl_frames c)"
proof -
  have i: "client_inv c" using client_run_ok[OF fresh_client_inv[OF assms(1)], of ops] assms(2) by auto
  then have a: "eng_agrees (stream_epoch c) (set (frame_slots c)) [] (cl_engine c)" by (simp add: client_inv_def eng_inv_def)
  then have wf: "eng_wf (cl_engine c)" and ps: "eng_psize (cl_engine c) = kPoolSize" by (simp_all add: eng_agrees_def)
  obtain k where k: "last_decoded_slot e' = int k" "k < kPoolSize" "\<And>r. \<not> eng_held (cl_engine c) k r"
    using DecodeOne_view(2)[OF wf assms(3) refl] ps by (auto simp: fresh_slot_def)
  have q: "k \<notin> fst ` set (hold_refs (reorder_q (cl_engine c)))" "k \<notin> fst ` set (hold_refs (ready_q (cl_engine c)))" "k \<notin> set (frame_slots c)"
    using a k(3) unfolding eng_agrees_def queues_hold_def by auto
  then show ?thesis using k(1,2) unfolding hold_refs_def frame_slots_def in_pool_def by (force simp: image_iff)
qed

text \<open>
  C22: HEVC streams do not survive a flush: the slot epochs are never stamped, so as soon as the stream epoch is not 0, the first
  access unit that is decoded after a flush makes the check in the hold call fail.
\<close>

theorem h265_submit_traps_after_flush:
  assumes "eng_inv ep cs e" "codec e = H265" "ep \<noteq> 0" "au_has_irap au H265"
    "DecodeEngine_DecodeOne env (e\<lparr>wait_for_idr := False\<rparr>) au = (0, e', yuv)"
  shows "DecodeEngine_Submit env e au pts ep = None"
proof -
  let ?e0 = "e\<lparr>wait_for_idr := False\<rparr>"
  have a0: "eng_agrees ep cs [] ?e0" using assms(1) by (simp add: eng_inv_def)
  then have wf: "eng_wf ?e0" by (simp add: eng_agrees_def)
  note v = DecodeOne_view[OF wf assms(5)]
  have a: "eng_agrees ep cs [] e'" by (rule decode_agrees[OF a0 v(1)])
  obtain k where k: "last_decoded_slot e' = int k" "k < eng_psize e'" using v by (auto simp: fresh_slot_def decode_view_def)
  have "eng_epoch e' k = 0" using a v(1) assms(2) by (simp add: eng_agrees_def decode_view_def)
  then have "eng_add e' k DPB_HOLD_REORDER ep = None"
    using eng.add_traps[of e' k] k(2) a assms(3) by (simp add: eng_agrees_def)
  moreover have "in_pool (int k)" using k(2) a by (simp add: in_pool_def eng_agrees_def)
  ultimately have "hold_decoded e' ep = None" using k(1) by (simp add: hold_decoded_def)
  then show ?thesis using assms(2,4,5) by (simp add: DecodeEngine_Submit_def)
qed

section \<open>Concrete runs\<close>

definition demo_au :: "uint8 list" where
  "demo_au = [0, 0, 1, 0x65, 0x88]"

definition demo_au265 :: "uint8 list" where
  "demo_au265 = [0, 0, 1, 0x26, 1, 0x88]"

lemma demo_fresh: "fresh_engine (demo_engine H264)"
proof -
  have "Dpb_Init demo_pool16 = (DPB_OK, snd (Dpb_Init demo_pool16))" "snd (Dpb_Init demo_pool16) \<noteq> None"
    by (simp_all add: Dpb_Init_def demo_pool16_def)
  then have "Dpb_Init demo_pool16 = (DPB_OK, Some (the (snd (Dpb_Init demo_pool16))))" by (metis option.collapse)
  moreover have "length demo_pool16 = kPoolSize" by (simp add: demo_pool16_def)
  ultimately show ?thesis unfolding fresh_engine_def by (auto simp: demo_engine_def)
qed


theorem decode_never_overwrites_witness:
  "\<exists>e' yuv. DecodeEngine_DecodeOne demo_env (demo_engine H264) demo_au = (0, e', yuv) \<and> in_pool (last_decoded_slot e')"
proof -
  obtain rc e' yuv where d: "DecodeEngine_DecodeOne demo_env (demo_engine H264) demo_au = (rc, e', yuv)" by (metis prod_cases3)
  have "fst (DecodeEngine_DecodeOne demo_env (demo_engine H264) demo_au) = 0" by code_simp
  then have rc: "rc = 0" by (simp add: d)
  let ?c = "\<lparr>cl_engine = demo_engine H264, stream_epoch = 0, cl_frames = []\<rparr>"
  have r: "client_run ?c [] = Some ?c" "cl_engine ?c = demo_engine H264" by simp_all
  show ?thesis using decode_never_overwrites[OF demo_fresh r(1), unfolded r(2), OF d[unfolded rc]] d rc by blast
qed

text \<open>An HEVC engine after one flush.\<close>

definition demo_flushed265 :: DecodeEngine where
  "demo_flushed265 = (demo_engine H265)\<lparr>dpb_h265 := (dpb_h265 (demo_engine H265))\<lparr>h5_current_epoch := 1\<rparr>\<rparr>"

lemma demo_flushed265_inv: "eng_inv 1 {} demo_flushed265"
proof -
  have d: "dpb_h265 (demo_engine H265) = \<lparr>h5_pool = demo_pool16, h5_pool_size = 16, h5_current_idx = None, h5_current_epoch = 0,
      h5_slots = replicate DPB_MAX_SLOTS h265_zero_slot\<rparr>"
    by (simp add: demo_engine_def H265Dpb_Init_def demo_pool16_def)
  have z: "\<not> h265_flag_get h265_zero_slot r" for r by (cases r) (simp_all add: h265_zero_slot_def)
  have "length demo_pool16 = 16" "\<forall>e \<in> set demo_pool16. output_frame e \<noteq> 0 \<and> colmv e \<noteq> 0" by (simp_all add: demo_pool16_def)
  moreover have "h265_held (dpb_h265 demo_flushed265) = (\<lambda>i r. False)" "h265_epoch (dpb_h265 demo_flushed265) = (\<lambda>i. 0)"
    unfolding demo_flushed265_def d by (auto simp: h265_held_def h265_epoch_def fun_eq_iff z) (simp add: h265_zero_slot_def)
  moreover have "codec demo_flushed265 = H265" "reorder_q demo_flushed265 = []" "ready_q demo_flushed265 = []"
    by (simp_all add: demo_flushed265_def demo_engine_def)
  moreover have "h265_idle (dpb_h265 demo_flushed265)" "h5_pool_size (dpb_h265 demo_flushed265) = 16" "h5_current_epoch (dpb_h265 demo_flushed265) = 1"
    using calculation(1,2) unfolding demo_flushed265_def d by (simp_all add: h265_idle_def h265_ok_def)
  ultimately show ?thesis by (simp add: eng_inv_def eng_agrees_def eng_view queues_hold_def)
qed

theorem h265_submit_traps_after_flush_witness:
  "DecodeEngine_Submit demo_env demo_flushed265 demo_au265 0 1 = None"
proof -
  obtain rc e' yuv where d: "DecodeEngine_DecodeOne demo_env (demo_flushed265\<lparr>wait_for_idr := False\<rparr>) demo_au265 = (rc, e', yuv)" by (metis prod_cases3)
  have "fst (DecodeEngine_DecodeOne demo_env (demo_flushed265\<lparr>wait_for_idr := False\<rparr>) demo_au265) = 0" by code_simp
  then have "rc = 0" by (simp add: d)
  moreover have "codec demo_flushed265 = H265" "au_has_irap demo_au265 H265" by code_simp+
  ultimately show ?thesis using h265_submit_traps_after_flush[OF demo_flushed265_inv] d by simp
qed

end
