(* ===== verification/Spec2Isabelle.thy ===== *)
theory Spec2Isabelle
  imports Mpp_System Job_Kick Ccu_Reach Vp9_Bool H264_Parse_Props H264_Poc_Props H264_Roundtrip Engine_Client
begin

text \<open>
  The rkvdec repository is a video decoder for the Rockchip RK3588 under Windows. Its kernel drivers (\<^verbatim>\<open>driver\<close>) are the IOMMU that
  gives the codec its addresses, the buffer pool that maps user buffers through it, and the job queue that programs the
  codec. Its user-mode part (\<^verbatim>\<open>mft\<close>) splits the bitstream into access units, keeps the decoded picture buffer, submits one job
  per picture and returns the pictures in display order. The engine allocates buffers, submits jobs that name them by
  handle, and waits; the queue resolves the handles, promotes jobs to up to two cores, writes the registers, and completes
  jobs from the interrupt. The theories, in the order they build on each other:

  \<^item> \<open>Prelude\<close>: the types of the C code (\<open>ULONG\<close>, \<open>ULONG64\<close>, \<open>NTSTATUS\<close> as words), the kernel as a record of parameters
    (allocators, register reads, clock), and a history of the calls whose order or balance matters. \<open>live\<close> is the
    multiset of resources acquired and not released.
  \<^item> \<open>Iommu_Domain\<close>, \<open>Iova_Alloc\<close>, \<open>Page_Table\<close>: \<^verbatim>\<open>driver/shared/iommu/pgtable.c\<close>. Creation and destruction of a domain, the two
    bitmaps of the IOVA allocator, the two-level page table. The allocator refines a finite map of disjoint
    intervals; a page table refines a map from pages to entries.
  \<^item> \<open>Iommu_Device\<close>, \<open>Iommu_Map\<close>: \<^verbatim>\<open>driver/rkiommu_vdec\<close>. The register sequences that attach, detach, reset and flush the two
    MMUs, the fault interrupt, and \<^verbatim>\<open>MapMdl\<close>/\<^verbatim>\<open>UnmapMdl\<close> on top of allocator and page table. The provider's promise to its
    clients is a locale, interpreted on these definitions.
  \<^item> \<open>Buf_Pool\<close>, \<open>Buf_Props\<close>: \<^verbatim>\<open>driver/shared/rkmpp/bufpool.c\<close>, over any IOMMU that keeps the promise: quotas, allocation with
    its roll-backs, lookup, freeing.
  \<^item> \<open>Dense_Bank\<close>, \<open>Dense_Props\<close>: the resolution half of \<^verbatim>\<open>RkMppJobSubmitDense\<close> in \<^verbatim>\<open>driver/rkvdec/job.c\<close>, from handles to device
    addresses in the register bank, and the buffers that need cache maintenance.
  \<^item> \<open>Job_Queue\<close>, \<open>Job_Ops\<close>: the rest of \<^verbatim>\<open>driver/rkvdec/job.c\<close> and the queue-related part of \<^verbatim>\<open>driver/rkvdec/device.c\<close>. Jobs
    are pool memory, so the lists hold pointers. What one thread does while it holds the queue lock is one
    definition; functions that drop the lock are compositions of such definitions.
  \<^item> \<open>Job_Sched\<close>, \<open>Job_Inv\<close>, \<open>Job_System\<close>, \<open>Job_Live\<close>, \<open>Job_Props\<close>: the invariant of the queue, the relation \<open>job_reach\<close> in which
    the threads' atomic sections interleave, and the properties of its reachable states.
  \<^item> \<open>Job_Kick\<close>: what single operations of the queue do: the registers a kick writes, what a completion records, the end
    of a worker run, of a wait and of a drain.
  \<^item> \<open>Mpp_System\<close>: queue, pool and IOMMU together, and the safety of the addresses the codec is given.
  \<^item> \<open>Pmu_Domain\<close>, \<open>Ccu_Cluster\<close>, \<open>Ccu_Props\<close>, \<open>Ccu_Reach\<close>: \<^verbatim>\<open>driver/rkmpp_ccu\<close>. Power domains, clock gates, resets and the
    reference counts of the clusters. The registers of the driver are kept as words with their write masks; what the power
    management unit answers is a parameter. \<open>Ccu_Reach\<close> runs arbitrary sequences of calls.
  \<^item> \<open>Nal_Stream\<close>: \<^verbatim>\<open>mft/au_iter.cpp\<close> and \<^verbatim>\<open>mft/avcc_to_annexb.cpp\<close> on byte lists: start-code search, access units, the two framings.
    The iterator tiles the stream; the conversion inverts the length-prefixed framing and accepts nothing else.
  \<^item> \<open>Bit_Reader\<close>, \<open>H264_Syntax\<close>, \<open>H264_Slice\<close>, \<open>H264_Poc\<close>, \<open>H264_Access_Unit\<close>: \<^verbatim>\<open>mft/parser_glue.cpp\<close>. Parsing routines are state
    transformers over the bit reader that return everything the code writes through its pointers, also when they fail. The
    loops over commands and units end because a code takes at least one bit and a unit at least a start code.
  \<^item> \<open>H264_Parse_Props\<close>, \<open>H264_Poc_Props\<close>, \<open>H264_Roundtrip\<close>: for arbitrary bytes, ranges of all fields and the slice data inside the
    scratch buffer; for streams of the standard, the order counts of the encoder; for the code words of a sequence
    parameter set, the set itself.
  \<^item> \<open>Vp9_Bool\<close>: \<^verbatim>\<open>mft/vp9_bool_decoder.cpp\<close> on 64-bit words, equal to the bit-by-bit decoder of the VP9 specification.
  \<^item> \<open>H264_Dpb\<close>, \<open>H264_Dpb_Props\<close>, \<open>H265_Dpb\<close>: \<^verbatim>\<open>mft/dpb.cpp\<close>. Slot selection, reference lists, marking commands, sliding window and
    reference picture sets. A failed assertion is the value None of the hold operations.
  \<^item> \<open>Hold_Api\<close>: the contract of the hold calls of both picture buffers as a locale over sets of held slots, with two
    interpretations.
  \<^item> \<open>Decode_Engine\<close>, \<open>Engine_Props\<close>, \<open>Engine_Client\<close>: \<^verbatim>\<open>mft/engine/decode_engine.cpp\<close> for H.264 and HEVC. The parsers, the register
    builders, the packers of the tables and the device are fields of a record of parameters, and the theorems hold for
    every value of it. \<open>Engine_Props\<close> shows the output order, \<open>Engine_Client\<close> runs arbitrary sequences of client calls.

  The kernel's other threads appear in two ways. \<open>job_reach\<close> interleaves the sections of the queue explicitly. The
  sequential compositions (\<open>RkMppJobWait\<close>, \<open>RkMppJobsDrainOwner\<close>) take a wait on an event as a parameter that returns the
  wait status and the state the others left behind.

  Termination: \<open>RkMppKickWorker\<close> is a total function, since a round that re-arms itself has taken a job off the
  pending list. Loops with fuel are the polls the code bounds itself (the fuel is the code's bound) and the
  drain loop, whose rounds each need another job of the file on a core.

  What is simplified. A NULL pointer is None where the code tests for it. A failed assertion of the drivers is not modelled. A
  completed peer dispatch sets the result and the event in the section that queues the job, which the code does
  just after it. The interface objects of the CCU and of the peer are the entries the code calls.

  Not modelled: PnP and power callbacks, resource parsing, interface queries and log output, which are calls into
  the framework; the AV1 siblings \<^verbatim>\<open>rkav1d\<close> and \<^verbatim>\<open>rkiommu_av1d\<close> apart from the AV1 page table format; the COM object of
  the transform (\<^verbatim>\<open>mft/dll\<close>), the HEVC, AV1 and VP9 parsers, the register builders, and the AV1 and VP9 engines. Of
  \<^verbatim>\<open>decode_engine.cpp\<close>, initialisation and shutdown (device handles and buffer allocation), dumps and timing are left out.
\<close>

end
